(* ===== verification/Py_Prelude.thy ===== *)
theory Py_Prelude
  imports Main "HOL-Library.AList" "HOL-Library.List_Lexorder" "HOL-Library.Char_ord"
    "HOL-Library.Product_Lexorder" "HOL-Library.Multiset"
begin

text \<open>
  The Python values and idioms every component of the development shares.

  \<^item> Exceptions are the values of \<open>py_error\<close>, one constructor for each exception class
    the modelled code raises. A \<open>ConfigError\<close> carries its \<open>field_path\<close>; the others carry
    a short tag that tells the raise statements of one class apart (the message texts
    are not modelled).
  \<^item> A function that raises before it changes anything returns \<open>py_error + 'a\<close>. A method
    that may raise after it has changed its object has type \<open>('s, 'a) op\<close>: it returns the
    object as it is left, whether it returns or raises.
  \<^item> A dict is an association list with distinct keys: \<open>AList.update\<close> keeps the place of a
    key that is present and appends a new one, as Python's insertion-ordered dict does.
  \<^item> \<open>sorted(xs, key=f)\<close> is \<open>sort_key f xs\<close>: both are stable.
  \<^item> Strings are lists of characters, compared lexicographically.
\<close>

section \<open>Hint collections\<close>

named_theorems dict_simps \<open>facts on insertion-ordered dicts\<close>
named_theorems op_simps \<open>unfolding of the state-and-exception operations\<close>

section \<open>Exceptions and results\<close>

datatype py_error =
    ConfigError string
  | SchedulerError string
  | ResourceError string
  | QueueFullError string
  | CoverageError string
  | ValueError string
  | KeyError string
  | DimensionBindingError string
  | UnsupportedOperatorError string string
  | NonAuthoritativeRunError string
  | RuntimeError string
  | AttributeError string
  | StructError
  | IndexError
  | ZeroDivisionError

type_synonym 'a result = "py_error + 'a"

definition bind_res :: "'e + 'a \<Rightarrow> ('a \<Rightarrow> 'e + 'b) \<Rightarrow> 'e + 'b" where
  "bind_res m f = (case m of Inl e \<Rightarrow> Inl e | Inr x \<Rightarrow> f x)"

lemma bind_res_simps [simp]:
  "bind_res (Inl e) f = Inl e"
  "bind_res (Inr x) f = f x"
  by (simp_all add: bind_res_def)

lemma bind_res_Inr_iff:
  "bind_res m f = Inr y \<longleftrightarrow> (\<exists>x. m = Inr x \<and> f x = Inr y)"
  by (cases m) auto

lemma bind_res_InrE:
  assumes "bind_res m f = Inr y"
  obtains x where "m = Inr x" and "f x = Inr y"
  using assms by (auto simp: bind_res_Inr_iff)

lemma bind_res_assoc: "bind_res (bind_res m f) g = bind_res m (\<lambda>x. bind_res (f x) g)"
  by (cases m) auto

definition is_ok :: "'e + 'a \<Rightarrow> bool" where
  "is_ok r = (case r of Inl _ \<Rightarrow> False | Inr _ \<Rightarrow> True)"

lemma is_ok_simps [simp]: "\<not> is_ok (Inl e)" "is_ok (Inr x)"
  by (simp_all add: is_ok_def)

fun map_result :: "('a \<Rightarrow> 'e + 'b) \<Rightarrow> 'a list \<Rightarrow> 'e + 'b list" where
  "map_result f [] = Inr []"
| "map_result f (x # xs) = bind_res (f x) (\<lambda>y. bind_res (map_result f xs) (\<lambda>ys. Inr (y # ys)))"

lemma map_result_length: "map_result f xs = Inr ys \<Longrightarrow> length ys = length xs"
  by (induction xs arbitrary: ys) (auto simp: bind_res_Inr_iff)

lemma map_result_total: "(\<And>x. x \<in> set xs \<Longrightarrow> f x = Inr (g x)) \<Longrightarrow> map_result f xs = Inr (map g xs)"
  by (induction xs) auto

text \<open>A loop whose body may raise, over an accumulator.\<close>

fun fold_res :: "('a \<Rightarrow> 's \<Rightarrow> 'e + 's) \<Rightarrow> 'a list \<Rightarrow> 's \<Rightarrow> 'e + 's" where
  "fold_res f [] s = Inr s"
| "fold_res f (x # xs) s = bind_res (f x s) (fold_res f xs)"

lemma fold_res_total:
  "(\<And>x s. x \<in> set xs \<Longrightarrow> f x s = Inr (g x s)) \<Longrightarrow> fold_res f xs s = Inr (fold g xs s)"
  by (induction xs arbitrary: s) auto

lemma fold_res_fails:
  "x \<in> set xs \<Longrightarrow> (\<And>s. \<not> is_ok (f x s)) \<Longrightarrow> \<not> is_ok (fold_res f xs s)"
proof (induction xs arbitrary: s)
  case Nil
  then show ?case by simp
next
  case (Cons y ys)
  show ?case
  proof (cases "f y s")
    case (Inr t)
    with Cons.prems Cons.IH show ?thesis by (metis bind_res_simps(2) fold_res.simps(2) is_ok_simps(2) set_ConsD)
  qed simp
qed

text \<open>A loop of checks: the first failure ends it.\<close>

fun check_each :: "('a \<Rightarrow> 'e + unit) \<Rightarrow> 'a list \<Rightarrow> 'e + unit" where
  "check_each f [] = Inr ()"
| "check_each f (x # xs) = bind_res (f x) (\<lambda>_. check_each f xs)"

lemma check_each_ok: "check_each f xs = Inr () \<longleftrightarrow> (\<forall>x \<in> set xs. f x = Inr ())"
  by (induction xs) (auto simp: bind_res_Inr_iff)

section \<open>Sets\<close>

text \<open>
  A set built by adding the elements of a list: the list of its elements in the order they
  were first added. The order in which Python iterates over a set is not specified; where
  the code does so, the order is an argument \<open>ord\<close> of the model, of which \<open>ord_ok\<close> says
  that it lists the elements of the set, each once.
\<close>

definition set_add :: "'a \<Rightarrow> 'a list \<Rightarrow> 'a list" where
  "set_add x s = (if x \<in> set s then s else s @ [x])"

definition py_set :: "'a list \<Rightarrow> 'a list" where
  "py_set xs = fold set_add xs []"

definition ord_ok :: "('a list \<Rightarrow> 'a list) \<Rightarrow> bool" where
  "ord_ok ord \<longleftrightarrow> (\<forall>s. distinct s \<longrightarrow> distinct (ord s) \<and> set (ord s) = set s)"

lemma set_set_add [simp]: "set (set_add x s) = insert x (set s)"
  by (auto simp: set_add_def)

lemma distinct_set_add [simp]: "distinct s \<Longrightarrow> distinct (set_add x s)"
  by (simp add: set_add_def)

lemma py_set_aux: "set (fold set_add xs s) = set s \<union> set xs
    \<and> (distinct s \<longrightarrow> distinct (fold set_add xs s))"
  by (induction xs arbitrary: s) auto

lemma set_py_set [simp]: "set (py_set xs) = set xs"
  by (simp add: py_set_def py_set_aux)

lemma distinct_py_set [simp]: "distinct (py_set xs)"
  by (simp add: py_set_def py_set_aux)

lemma ord_okD:
  "ord_ok ord \<Longrightarrow> distinct s \<Longrightarrow> distinct (ord s)"
  "ord_ok ord \<Longrightarrow> distinct s \<Longrightarrow> set (ord s) = set s"
  by (simp_all add: ord_ok_def)

lemma ord_ok_id [simp]: "ord_ok (\<lambda>s. s)"
  by (simp add: ord_ok_def)

lemma ord_ok_rev [simp]: "ord_ok rev"
  by (simp add: ord_ok_def)

lemma ord_ok_sort [simp]: "ord_ok sort"
  by (simp add: ord_ok_def)

section \<open>Operations on a mutable object that may raise\<close>

type_synonym ('s, 'a) op = "'s \<Rightarrow> (py_error + 'a) \<times> 's"

definition ret :: "'a \<Rightarrow> ('s, 'a) op" where
  "ret x s = (Inr x, s)"

definition raise_op :: "py_error \<Rightarrow> ('s, 'a) op" where
  "raise_op e s = (Inl e, s)"

definition bind_op :: "('s, 'a) op \<Rightarrow> ('a \<Rightarrow> ('s, 'b) op) \<Rightarrow> ('s, 'b) op" where
  "bind_op m f s = (case m s of (Inl e, s') \<Rightarrow> (Inl e, s') | (Inr x, s') \<Rightarrow> f x s')"

definition get_op :: "('s \<Rightarrow> 'a) \<Rightarrow> ('s, 'a) op" where
  "get_op f s = (Inr (f s), s)"

definition modify_op :: "('s \<Rightarrow> 's) \<Rightarrow> ('s, unit) op" where
  "modify_op f s = (Inr (), f s)"

definition seq_op :: "('s, 'a) op \<Rightarrow> ('s, 'b) op \<Rightarrow> ('s, 'b) op" where
  "seq_op m n = bind_op m (\<lambda>_. n)"

definition when_op :: "bool \<Rightarrow> ('s, unit) op \<Rightarrow> ('s, unit) op" where
  "when_op b m = (if b then m else ret ())"

fun for_op :: "'a list \<Rightarrow> ('a \<Rightarrow> ('s, unit) op) \<Rightarrow> ('s, unit) op" where
  "for_op [] f = ret ()"
| "for_op (x # xs) f = seq_op (f x) (for_op xs f)"

text \<open>Running an operation on one field of a larger object.\<close>

definition zoom_op :: "('t \<Rightarrow> 's) \<Rightarrow> ('s \<Rightarrow> 't \<Rightarrow> 't) \<Rightarrow> ('s, 'a) op \<Rightarrow> ('t, 'a) op" where
  "zoom_op rd wr m t = (case m (rd t) of (r, s') \<Rightarrow> (r, wr s' t))"

lemma ret_simp [op_simps]: "ret x s = (Inr x, s)"
  by (simp add: ret_def)

lemma raise_op_simp [op_simps]: "raise_op e s = (Inl e, s)"
  by (simp add: raise_op_def)

lemma get_op_simp [op_simps]: "get_op f s = (Inr (f s), s)"
  by (simp add: get_op_def)

lemma modify_op_simp [op_simps]: "modify_op f s = (Inr (), f s)"
  by (simp add: modify_op_def)

lemma bind_op_ret [simp]: "bind_op (ret x) f = f x"
  by (rule ext) (simp add: bind_op_def ret_def)

lemma bind_op_raise [simp]: "bind_op (raise_op e) f = raise_op e"
  by (rule ext) (simp add: bind_op_def raise_op_def)

lemma bind_op_assoc: "bind_op (bind_op m f) g = bind_op m (\<lambda>x. bind_op (f x) g)"
  by (rule ext) (simp add: bind_op_def split: prod.splits sum.splits)

lemma bind_op_Inr_iff:
  "bind_op m f s = (Inr y, t) \<longleftrightarrow> (\<exists>x s'. m s = (Inr x, s') \<and> f x s' = (Inr y, t))"
  by (auto simp: bind_op_def split: prod.splits sum.splits)

text \<open>
  An operation keeps a predicate when the object it leaves satisfies it whether it
  returned or raised: the form every class invariant takes here.
\<close>

definition keeps :: "('s \<Rightarrow> bool) \<Rightarrow> ('s, 'a) op \<Rightarrow> bool" where
  "keeps P m \<longleftrightarrow> (\<forall>s. P s \<longrightarrow> P (snd (m s)))"

lemma keepsI: "(\<And>s. P s \<Longrightarrow> P (snd (m s))) \<Longrightarrow> keeps P m"
  by (simp add: keeps_def)

lemma keepsD: "keeps P m \<Longrightarrow> P s \<Longrightarrow> P (snd (m s))"
  by (simp add: keeps_def)

lemma keepsD': "keeps P m \<Longrightarrow> P s \<Longrightarrow> m s = (r, t) \<Longrightarrow> P t"
  by (metis keepsD snd_conv)

named_theorems keeps_intros \<open>composition rules of invariant preservation\<close>

lemma keeps_ret [keeps_intros]: "keeps P (ret x)"
  by (simp add: keeps_def ret_def)

lemma keeps_raise [keeps_intros]: "keeps P (raise_op e)"
  by (simp add: keeps_def raise_op_def)

lemma keeps_get [keeps_intros]: "keeps P (get_op f)"
  by (simp add: keeps_def get_op_def)

lemma keeps_modify: "(\<And>s. P s \<Longrightarrow> P (f s)) \<Longrightarrow> keeps P (modify_op f)"
  by (simp add: keeps_def modify_op_def)

lemma keeps_bind [keeps_intros]:
  "keeps P m \<Longrightarrow> (\<And>x. keeps P (f x)) \<Longrightarrow> keeps P (bind_op m f)"
  by (fastforce simp: keeps_def bind_op_def split: prod.splits sum.splits)

lemma keeps_seq [keeps_intros]: "keeps P m \<Longrightarrow> keeps P n \<Longrightarrow> keeps P (seq_op m n)"
  by (simp add: seq_op_def keeps_bind)

lemma keeps_if [keeps_intros]:
  "keeps P m \<Longrightarrow> keeps P n \<Longrightarrow> keeps P (if b then m else n)"
  by simp

lemma keeps_when [keeps_intros]: "keeps P m \<Longrightarrow> keeps P (when_op b m)"
  by (simp add: when_op_def keeps_ret)

lemma keeps_for [keeps_intros]: "(\<And>x. keeps P (f x)) \<Longrightarrow> keeps P (for_op xs f)"
  by (induction xs) (auto intro: keeps_intros)

lemma keeps_option_case [keeps_intros]:
  "keeps P m \<Longrightarrow> (\<And>x. keeps P (f x)) \<Longrightarrow> keeps P (case o' of None \<Rightarrow> m | Some x \<Rightarrow> f x)"
  by (cases o') auto

subsection \<open>Triples\<close>

text \<open>
  A triple with two postconditions: \<open>Q\<close> for the value and object of a normal return, \<open>E\<close> for
  the object a raise leaves. Operations that read the state first are handled by \<open>tripleI\<close>.
\<close>

definition yields :: "('a \<Rightarrow> 's \<Rightarrow> bool) \<Rightarrow> ('s \<Rightarrow> bool) \<Rightarrow> (py_error + 'a) \<times> 's \<Rightarrow> bool" where
  "yields Q E rs = (case rs of (Inl _, s) \<Rightarrow> E s | (Inr x, s) \<Rightarrow> Q x s)"

definition triple :: "('s \<Rightarrow> bool) \<Rightarrow> ('s, 'a) op \<Rightarrow> ('a \<Rightarrow> 's \<Rightarrow> bool) \<Rightarrow> ('s \<Rightarrow> bool) \<Rightarrow> bool" where
  "triple P m Q E \<longleftrightarrow> (\<forall>s. P s \<longrightarrow> yields Q E (m s))"

named_theorems triple_intros \<open>composition rules of triples\<close>

lemma yields_simps [simp]: "yields Q E (Inl e, s) = E s" "yields Q E (Inr x, s) = Q x s"
  by (simp_all add: yields_def)

lemma tripleI: "(\<And>s. P s \<Longrightarrow> yields Q E (m s)) \<Longrightarrow> triple P m Q E"
  by (simp add: triple_def)

lemma tripleD: "triple P m Q E \<Longrightarrow> P s \<Longrightarrow> yields Q E (m s)"
  by (simp add: triple_def)

lemma triple_ret: "(\<And>s. P s \<Longrightarrow> Q x s) \<Longrightarrow> triple P (ret x) Q E"
  by (simp add: triple_def ret_def)

lemma triple_bind [triple_intros]:
  "triple P m R E \<Longrightarrow> (\<And>x. triple (R x) (f x) Q E) \<Longrightarrow> triple P (bind_op m f) Q E"
  by (fastforce simp: triple_def yields_def bind_op_def split: prod.splits sum.splits)

lemma triple_seq [triple_intros]:
  "triple P m (\<lambda>_. R) E \<Longrightarrow> triple R n Q E \<Longrightarrow> triple P (seq_op m n) Q E"
  unfolding seq_op_def by (rule triple_bind)

lemma triple_if [triple_intros]:
  "(b \<Longrightarrow> triple P m Q E) \<Longrightarrow> (\<not> b \<Longrightarrow> triple P n Q E) \<Longrightarrow> triple P (if b then m else n) Q E"
  by simp

lemma triple_when [triple_intros]:
  "(b \<Longrightarrow> triple P m (\<lambda>_. P) E) \<Longrightarrow> triple P (when_op b m) (\<lambda>_. P) E"
  by (simp add: when_op_def triple_ret)

lemma triple_for [triple_intros]:
  "(\<And>x. x \<in> set xs \<Longrightarrow> triple P (f x) (\<lambda>_. P) E) \<Longrightarrow> triple P (for_op xs f) (\<lambda>_. P) E"
  by (induction xs) (auto intro: triple_ret triple_seq)

lemma triple_weaken:
  "triple P m Q E \<Longrightarrow> (\<And>s. P' s \<Longrightarrow> P s) \<Longrightarrow> (\<And>x s. Q x s \<Longrightarrow> Q' x s) \<Longrightarrow> (\<And>s. E s \<Longrightarrow> E' s)
   \<Longrightarrow> triple P' m Q' E'"
  by (fastforce simp: triple_def yields_def split: prod.splits sum.splits)

lemma triple_pre: "triple P m Q E \<Longrightarrow> (\<And>s. P' s \<Longrightarrow> P s) \<Longrightarrow> triple P' m Q E"
  by (rule triple_weaken)

lemma triple_post: "triple P m Q E \<Longrightarrow> (\<And>x s. Q x s \<Longrightarrow> Q' x s) \<Longrightarrow> triple P m Q' E"
  by (rule triple_weaken)

section \<open>Dicts as association lists\<close>

type_synonym ('k, 'v) dict = "('k \<times> 'v) list"

definition dict_ok :: "('k, 'v) dict \<Rightarrow> bool" where
  "dict_ok d \<longleftrightarrow> distinct (map fst d)"

text \<open>\<open>k in d\<close>\<close>

abbreviation din :: "'k \<Rightarrow> ('k, 'v) dict \<Rightarrow> bool" where
  "din k d \<equiv> map_of d k \<noteq> None"

abbreviation dkeys :: "('k, 'v) dict \<Rightarrow> 'k list" where
  "dkeys d \<equiv> map fst d"

abbreviation dvalues :: "('k, 'v) dict \<Rightarrow> 'v list" where
  "dvalues d \<equiv> map snd d"

definition dget :: "('k, 'v) dict \<Rightarrow> 'k \<Rightarrow> 'v \<Rightarrow> 'v" where
  "dget d k v = (case map_of d k of None \<Rightarrow> v | Some x \<Rightarrow> x)"

lemma dget_simps [simp]: "dget [] k v = v"
  "dget ((k', x) # d) k v = (if k = k' then x else dget d k v)"
  by (simp_all add: dget_def)

lemma map_of_update_apply [dict_simps]:
  "map_of (AList.update k v d) k' = (if k' = k then Some v else map_of d k')"
  by (simp add: update_conv')

lemma map_of_delete_apply [dict_simps]:
  "map_of (AList.delete k d) k' = (if k' = k then None else map_of d k')"
  by (simp add: delete_conv')

lemma dget_update: "dget (AList.update k v d) k' x = (if k' = k then v else dget d k' x)"
  by (simp add: dget_def dict_simps)

lemma dget_delete: "dget (AList.delete k d) k' x = (if k' = k then x else dget d k' x)"
  by (simp add: dget_def dict_simps)

lemma dict_ok_update [simp, intro]: "dict_ok d \<Longrightarrow> dict_ok (AList.update k v d)"
  by (simp add: dict_ok_def distinct_update)

lemma dict_ok_Nil [simp]: "dict_ok []"
  by (simp add: dict_ok_def)

lemma dict_ok_delete [simp, intro]: "dict_ok d \<Longrightarrow> dict_ok (AList.delete k d)"
  by (simp add: dict_ok_def distinct_delete)

lemma dkeys_update [dict_simps]:
  "dkeys (AList.update k v d) = (if k \<in> set (dkeys d) then dkeys d else dkeys d @ [k])"
  by (simp add: update_keys)

lemma dkeys_delete [dict_simps]: "dkeys (AList.delete k d) = removeAll k (dkeys d)"
  by (rule delete_keys)

lemma dict_in_iff: "k \<in> fst ` set d \<longleftrightarrow> map_of d k \<noteq> None"
  by (simp add: map_of_eq_None_iff)

lemma dict_ok_Cons [simp]: "dict_ok ((k, v) # d) \<longleftrightarrow> map_of d k = None \<and> dict_ok d"
  by (auto simp: dict_ok_def map_of_eq_None_iff)

lemma dict_ok_map_of_iff: "dict_ok d \<Longrightarrow> map_of d k = Some v \<longleftrightarrow> (k, v) \<in> set d"
  unfolding dict_ok_def by (metis map_of_SomeD map_of_is_SomeI)

text \<open>Sums over the values of a dict, after an insertion and after a removal.\<close>

lemma sum_update_new:
  fixes f :: "'v \<Rightarrow> 'n::comm_monoid_add"
  assumes "map_of d k = None"
  shows "sum_list (map (\<lambda>e. f (snd e)) (AList.update k v d))
    = sum_list (map (\<lambda>e. f (snd e)) d) + f v"
  using assms by (induction d) (auto simp: algebra_simps split: if_splits)

lemma sum_update_old:
  fixes f :: "'v \<Rightarrow> 'n::ab_group_add"
  assumes "map_of d k = Some u"
  shows "sum_list (map (\<lambda>e. f (snd e)) (AList.update k v d))
    = sum_list (map (\<lambda>e. f (snd e)) d) - f u + f v"
  using assms by (induction d) (auto simp: algebra_simps split: if_splits)

lemma sum_delete:
  fixes f :: "'v \<Rightarrow> 'n::ab_group_add"
  assumes "dict_ok d" and "map_of d k = Some u"
  shows "sum_list (map (\<lambda>e. f (snd e)) (AList.delete k d))
    = sum_list (map (\<lambda>e. f (snd e)) d) - f u"
  using assms
proof (induction d)
  case Nil
  then show ?case by simp
next
  case (Cons e d)
  obtain k' v' where e: "e = (k', v')" by (cases e)
  show ?case
  proof (cases "k' = k")
    case True
    with Cons.prems e have "k \<notin> fst ` set d" and "u = v'" by (auto simp: dict_in_iff)
    with True e show ?thesis by simp
  next
    case False
    with Cons e show ?thesis by (simp add: algebra_simps)
  qed
qed

lemma sum_list_nonneg_dict:
  fixes f :: "'v \<Rightarrow> int"
  assumes "\<forall>v \<in> set (dvalues d). 0 \<le> f v"
  shows "0 \<le> sum_list (map (\<lambda>e. f (snd e)) d)"
  using assms by (induction d) auto

lemma member_le_sum_dict:
  fixes f :: "'v \<Rightarrow> int"
  assumes "\<forall>v \<in> set (dvalues d). 0 \<le> f v" and "map_of d k = Some u"
  shows "f u \<le> sum_list (map (\<lambda>e. f (snd e)) d)"
  using assms
proof (induction d)
  case Nil
  then show ?case by simp
next
  case (Cons e d)
  have "0 \<le> sum_list (map (\<lambda>e. f (snd e)) d)"
    using Cons.prems(1) by (intro sum_list_nonneg_dict) auto
  with Cons show ?case by (cases e) (fastforce split: if_splits)
qed

lemma set_dvalues_update:
  "set (dvalues (AList.update k v d)) \<subseteq> insert v (set (dvalues d))"
  by (induction d) auto

lemma set_dvalues_delete: "set (dvalues (AList.delete k d)) \<subseteq> set (dvalues d)"
  by (induction d) auto

section \<open>Sorted lists\<close>

lemma sorted_wrt_filter_key: "sorted (map f xs) \<Longrightarrow> sorted (map f (filter P xs))"
  by (induction xs) auto

lemma sorted_key_hd:
  "sorted (map f (x # xs)) \<Longrightarrow> y \<in> set (x # xs) \<Longrightarrow> f x \<le> f y"
  by auto

lemma distinct_map_filter_key: "distinct (map f xs) \<Longrightarrow> distinct (map f (filter P xs))"
  by (rule distinct_map_filter)

lemma filter_insort_key:
  assumes "sorted (map f xs)"
  shows "filter P (insort_key f x xs)
    = (if P x then insort_key f x (filter P xs) else filter P xs)"
  using assms
proof (induction xs)
  case Nil
  then show ?case by simp
next
  case (Cons y ys)
  show ?case
  proof (cases "f x \<le> f y")
    case True
    have "\<forall>z \<in> set (filter P (y # ys)). f x \<le> f z"
      using Cons.prems True by (auto intro: order_trans)
    then have "insort_key f x (filter P (y # ys)) = x # filter P (y # ys)"
      by (intro insort_is_Cons) blast
    with True show ?thesis by simp
  next
    case False
    with Cons show ?thesis by auto
  qed
qed

end
