(* ===== verification/Py_Float.thy ===== *)
theory Py_Float
  imports Py_Prelude Complex_Main "HOL-Library.Log_Nat"
begin

text \<open>
  Python floats are IEEE 754 binary64 numbers. A finite float is modelled by the rational
  number it stands for, and every float operation of the code is the exact rational
  operation followed by the rounding \<open>fl\<close>: round to nearest, ties to even, with a 53-bit
  significand and the subnormal spacing \<open>2^-1074\<close>. The largest exponent is not modelled:
  the values of this program stay far below \<open>2^1023\<close>, so overflow to infinity does not
  occur; where the code itself uses \<open>inf\<close> the component says how it is represented.

  Shown here: integers up to \<open>2^53\<close> are exact, rounding is monotone and keeps signs, and
  its relative error is at most \<open>2^-53\<close> on normal numbers.
\<close>

section \<open>Rounding a rational to an integer, ties to even\<close>

definition round_half_even :: "rat \<Rightarrow> int" where
  "round_half_even x =
     (let f = \<lfloor>x\<rfloor>; d = x - of_int f
      in if d < 1/2 then f
         else if 1/2 < d then f + 1
         else if even f then f else f + 1)"

lemma round_half_even_of_int [simp]: "round_half_even (of_int n) = n"
  by (simp add: round_half_even_def)

lemma round_half_even_error: "\<bar>of_int (round_half_even x) - x\<bar> \<le> 1/2"
proof -
  define f where "f = \<lfloor>x\<rfloor>"
  have "of_int f \<le> x" "x < of_int f + 1"
    unfolding f_def using floor_correct[of x] by simp_all
  moreover have "round_half_even x = f \<or> round_half_even x = f + 1"
    "round_half_even x = f \<Longrightarrow> x - of_int f \<le> 1/2"
    "round_half_even x = f + 1 \<Longrightarrow> 1/2 \<le> x - of_int f"
    by (auto simp: round_half_even_def Let_def f_def split: if_splits)
  ultimately show ?thesis by fastforce
qed

lemma round_half_even_between: "\<lfloor>x\<rfloor> \<le> round_half_even x \<and> round_half_even x \<le> \<lfloor>x\<rfloor> + 1"
  by (auto simp: round_half_even_def Let_def)

lemma round_half_even_mono: "x \<le> y \<Longrightarrow> round_half_even x \<le> round_half_even y"
proof -
  assume le: "x \<le> y"
  then have "\<lfloor>x\<rfloor> \<le> \<lfloor>y\<rfloor>" by (rule floor_mono)
  then consider "\<lfloor>x\<rfloor> + 1 \<le> \<lfloor>y\<rfloor>" | "\<lfloor>x\<rfloor> = \<lfloor>y\<rfloor>" by linarith
  then show ?thesis
  proof cases
    case 1
    with round_half_even_between[of x] round_half_even_between[of y] show ?thesis by linarith
  next
    case 2
    with le show ?thesis by (auto simp: round_half_even_def Let_def)
  qed
qed

lemma round_half_even_ge: "of_int n \<le> x \<Longrightarrow> n \<le> round_half_even x"
  using round_half_even_mono[of "of_int n" x] by simp

lemma round_half_even_le: "x \<le> of_int n \<Longrightarrow> round_half_even x \<le> n"
  using round_half_even_mono[of x "of_int n"] by simp

lemma round_half_even_nonneg: "0 \<le> x \<Longrightarrow> 0 \<le> round_half_even x"
  using round_half_even_ge[of 0 x] by simp

section \<open>The binary exponent\<close>

definition ilog2 :: "rat \<Rightarrow> int" where
  "ilog2 x =
     (let (p, q) = quotient_of \<bar>x\<bar>;
          k = int (floorlog 2 (nat p)) - int (floorlog 2 (nat q))
      in if 2 powi k \<le> \<bar>x\<bar> then k else k - 1)"

text \<open>For evaluation: bit lengths of integers rather than of unary numbers.\<close>

lemma ilog2_code [code]:
  "ilog2 x = (let (p, q) = quotient_of \<bar>x\<bar>; k = bitlen p - bitlen q in if 2 powi k \<le> \<bar>x\<bar> then k else k - 1)"
  by (simp add: ilog2_def bitlen_def)

lemma floorlog2_bounds:
  assumes "0 < (n::nat)"
  shows "2 ^ (floorlog 2 n - 1) \<le> n \<and> n < 2 ^ floorlog 2 n \<and> 0 < floorlog 2 n"
  using floorlog_bounds[of n 2] assms floorlog_eq_zero_iff[of 2 n] by auto

lemma powi_mono: "a \<le> b \<Longrightarrow> (2::rat) powi a \<le> 2 powi b"
  by (rule power_int_increasing) auto

lemma powi_strict_mono: "a < b \<Longrightarrow> (2::rat) powi a < 2 powi b"
  by (rule power_int_strict_increasing) auto

lemma powi_pos [simp]: "0 < (2::rat) powi a"
  by simp

lemma powi_less_iff [simp]: "(2::rat) powi a < 2 powi b \<longleftrightarrow> a < b"
  by (metis linorder_not_less powi_mono powi_strict_mono)

lemma powi_le_iff [simp]: "(2::rat) powi a \<le> 2 powi b \<longleftrightarrow> a \<le> b"
  by (metis linorder_not_less powi_mono powi_strict_mono)

lemma powi_add: "(2::rat) powi (a + b) = 2 powi a * 2 powi b"
  by (simp add: power_int_add)

lemma powi_nat: "(2::rat) powi (int n) = 2 ^ n"
  by simp

lemma powi_bounds_nat:
  assumes "2 ^ (a - 1) \<le> n" "n < 2 ^ a" "0 < (a::nat)"
  shows "(2::rat) powi (int a - 1) \<le> of_nat n \<and> of_nat n < (2::rat) powi int a"
proof -
  have "(2::rat) powi (int a - 1) = 2 ^ (a - 1)"
    using assms(3) by (simp flip: powi_nat add: of_nat_diff)
  moreover have "(2::rat) ^ (a - 1) \<le> of_nat n"
    using assms(1) by (metis of_nat_le_iff of_nat_numeral of_nat_power)
  moreover have "of_nat n < (2::rat) ^ a"
    using assms(2) by (metis of_nat_less_iff of_nat_numeral of_nat_power)
  ultimately show ?thesis by simp
qed

lemma ilog2_bounds:
  assumes "x \<noteq> 0"
  shows "2 powi (ilog2 x) \<le> \<bar>x\<bar> \<and> \<bar>x\<bar> < 2 powi (ilog2 x + 1)"
proof -
  obtain p q where pq: "quotient_of \<bar>x\<bar> = (p, q)" by (cases "quotient_of \<bar>x\<bar>")
  have q: "0 < q" and eq: "\<bar>x\<bar> = of_int p / of_int q"
    using pq quotient_of_denom_pos quotient_of_div by auto
  have "0 < \<bar>x\<bar>" using assms by simp
  with eq q have p: "0 < p" by (simp add: zero_less_divide_iff)
  let ?a = "floorlog 2 (nat p)" and ?b = "floorlog 2 (nat q)"
  let ?k = "int ?a - int ?b"
  have a: "2 ^ (?a - 1) \<le> nat p" "nat p < 2 ^ ?a" "0 < ?a"
    using floorlog2_bounds[of "nat p"] p by auto
  have b: "2 ^ (?b - 1) \<le> nat q" "nat q < 2 ^ ?b" "0 < ?b"
    using floorlog2_bounds[of "nat q"] q by auto
  have pa: "(2::rat) powi (int ?a - 1) \<le> of_int p" "of_int p < (2::rat) powi int ?a"
    using powi_bounds_nat[OF a] p by simp_all
  have qb: "(2::rat) powi (int ?b - 1) \<le> of_int q" "of_int q < (2::rat) powi int ?b"
    using powi_bounds_nat[OF b] q by simp_all
  have "2 powi (?k - 1) * of_int q \<le> (2::rat) powi (?k - 1) * 2 powi int ?b"
    using qb(2) by (intro mult_left_mono) auto
  also have "\<dots> = 2 powi (int ?a - 1)" by (subst powi_add[symmetric]) simp
  also have "\<dots> \<le> of_int p" by (rule pa(1))
  finally have lo: "2 powi (?k - 1) \<le> \<bar>x\<bar>"
    using q by (simp add: eq pos_le_divide_eq)
  have "of_int p < (2::rat) powi int ?a" by (rule pa(2))
  also have "\<dots> = 2 powi (?k + 1) * 2 powi (int ?b - 1)" by (subst powi_add[symmetric]) simp
  also have "\<dots> \<le> 2 powi (?k + 1) * of_int q"
    using qb(1) by (intro mult_left_mono) auto
  finally have hi: "\<bar>x\<bar> < 2 powi (?k + 1)"
    using q by (simp add: eq pos_divide_less_eq)
  show ?thesis
    using lo hi pq by (auto simp: ilog2_def Let_def)
qed

lemma ilog2_unique:
  assumes "2 powi e \<le> \<bar>x\<bar>" and "\<bar>x\<bar> < 2 powi (e + 1)"
  shows "ilog2 x = e"
proof -
  have "x \<noteq> 0" using assms(1) by (auto dest: less_le_trans[OF powi_pos])
  note b = ilog2_bounds[OF this]
  have "(2::rat) powi (ilog2 x) < 2 powi (e + 1)" "(2::rat) powi e < 2 powi (ilog2 x + 1)"
    using b assms by (meson le_less_trans)+
  then show ?thesis by simp
qed

lemma ilog2_mono:
  assumes "0 < x" and "x \<le> y"
  shows "ilog2 x \<le> ilog2 y"
proof -
  have "2 powi (ilog2 x) \<le> x" "y < 2 powi (ilog2 y + 1)"
    using ilog2_bounds[of x] ilog2_bounds[of y] assms by simp_all
  with assms(2) have "(2::rat) powi (ilog2 x) < 2 powi (ilog2 y + 1)"
    by (meson le_less_trans order_trans)
  then show ?thesis by simp
qed

section \<open>Rounding to binary64\<close>

definition fexp :: "rat \<Rightarrow> int" where
  "fexp x = max (ilog2 x - 52) (-1074)"

definition fl :: "rat \<Rightarrow> rat" where
  "fl x = (if x = 0 then 0
           else let u = 2 powi (fexp x) in of_int (round_half_even (x / u)) * u)"

text \<open>A rational is a (finite) float when rounding leaves it alone.\<close>

definition is_float :: "rat \<Rightarrow> bool" where
  "is_float x \<longleftrightarrow> fl x = x"

lemma fl_0 [simp]: "fl 0 = 0"
  by (simp add: fl_def)

lemma fl_eq: "x \<noteq> 0 \<Longrightarrow> fl x = of_int (round_half_even (x / 2 powi (fexp x))) * 2 powi (fexp x)"
  by (simp add: fl_def Let_def)

lemma fl_scaled_int:
  assumes "fexp (of_int n * 2 powi e) \<le> e"
  shows "fl (of_int n * 2 powi e) = of_int n * 2 powi e"
proof (cases "n = 0")
  case True
  then show ?thesis by simp
next
  case False
  let ?x = "of_int n * (2::rat) powi e"
  let ?f = "fexp ?x"
  have "?x / 2 powi ?f = of_int n * 2 powi (e - ?f)"
    by (simp add: power_int_diff)
  also have "(2::rat) powi (e - ?f) = of_int (2 ^ nat (e - ?f))"
    using assms by (simp add: power_int_nonneg_exp)
  finally have "?x / 2 powi ?f = of_int (n * 2 ^ nat (e - ?f))" by simp
  then have "fl ?x = of_int (n * 2 ^ nat (e - ?f)) * 2 powi ?f"
    using False by (subst fl_eq) (simp_all only: round_half_even_of_int, simp)
  also have "\<dots> = of_int n * (2 powi (e - ?f) * 2 powi ?f)"
    using assms by (simp add: power_int_nonneg_exp)
  also have "\<dots> = ?x" by (subst powi_add[symmetric]) simp
  finally show ?thesis .
qed

lemma fexp_le:
  assumes "x \<noteq> 0" and "\<bar>x\<bar> < 2 powi (e + 53)" and "-1074 \<le> e"
  shows "fexp x \<le> e"
proof -
  have "(2::rat) powi (ilog2 x) < 2 powi (e + 53)"
    using ilog2_bounds[OF assms(1)] assms(2) by (meson le_less_trans)
  with assms(3) show ?thesis by (simp add: fexp_def)
qed

lemma fl_representable_lt:
  assumes "\<bar>n\<bar> < 2 ^ 53" and "-1074 \<le> e"
  shows "fl (of_int n * 2 powi e) = of_int n * 2 powi e"
proof (cases "n = 0")
  case True
  then show ?thesis by simp
next
  case False
  have "\<bar>of_int n :: rat\<bar> < 2 ^ 53"
    using assms(1) by (metis of_int_abs of_int_less_iff of_int_numeral of_int_power)
  then have "\<bar>of_int n * 2 powi e\<bar> < (2::rat) ^ 53 * 2 powi e"
    by (simp add: abs_mult)
  also have "\<dots> = 2 powi (e + 53)" by (simp add: powi_add)
  finally show ?thesis
    using False assms(2) by (intro fl_scaled_int fexp_le) auto
qed

text \<open>Every significand of at most 53 bits is represented exactly.\<close>

lemma fl_representable:
  assumes "\<bar>n\<bar> \<le> 2 ^ 53" and "-1074 \<le> e"
  shows "fl (of_int n * 2 powi e) = of_int n * 2 powi e"
proof (cases "\<bar>n\<bar> = 2 ^ 53")
  case False
  with assms show ?thesis by (intro fl_representable_lt) auto
next
  case True
  define m :: int where "m = sgn n * 2 ^ 52"
  have n: "n = m * 2" using True unfolding m_def by (auto simp: abs_if split: if_splits)
  have "\<bar>m\<bar> < 2 ^ 53" using True unfolding m_def by (auto simp: abs_mult sgn_if)
  moreover have "of_int n * (2::rat) powi e = of_int m * 2 powi (e + 1)"
    by (simp add: n powi_add)
  ultimately show ?thesis
    using fl_representable_lt[of m "e + 1"] assms(2) by simp
qed

theorem fl_int: "\<bar>n\<bar> \<le> 2 ^ 53 \<Longrightarrow> fl (of_int n) = of_int n"
  using fl_representable[of n 0] by simp

lemma fl_1 [simp]: "fl 1 = 1"
  using fl_int[of 1] by simp

lemma fl_numeral: "(numeral k :: int) \<le> 2 ^ 53 \<Longrightarrow> fl (numeral k) = numeral k"
  using fl_int[of "numeral k"] by simp

section \<open>Sign and order\<close>

lemma round_half_even_minus: "round_half_even (- x) = - round_half_even x"
proof (cases "of_int \<lfloor>x\<rfloor> = x")
  case True
  then show ?thesis by (metis of_int_minus round_half_even_of_int)
next
  case False
  then have "\<lfloor>- x\<rfloor> = - \<lfloor>x\<rfloor> - 1"
    by (simp add: ceiling_altdef floor_minus)
  then show ?thesis
    using False by (auto simp: round_half_even_def Let_def)
qed

lemma ilog2_minus [simp]: "ilog2 (- x) = ilog2 x"
  by (simp add: ilog2_def)

lemma fexp_minus [simp]: "fexp (- x) = fexp x"
  by (simp add: fexp_def)

lemma fl_minus [simp]: "fl (- x) = - fl x"
  by (cases "x = 0") (simp_all add: fl_eq round_half_even_minus)

lemma fl_nonneg: "0 \<le> x \<Longrightarrow> 0 \<le> fl x"
  by (cases "x = 0")
     (auto simp: fl_eq intro!: mult_nonneg_nonneg round_half_even_nonneg divide_nonneg_nonneg)

lemma fl_ge_powi:
  assumes "2 powi e \<le> x" and "fexp x \<le> e"
  shows "2 powi e \<le> fl x"
proof -
  have x: "x \<noteq> 0" using assms(1) by (auto dest: less_le_trans[OF powi_pos])
  have int: "(2::rat) powi (e - fexp x) = of_int (2 ^ nat (e - fexp x))"
    using assms(2) by (simp add: power_int_nonneg_exp)
  have "2 powi e / 2 powi (fexp x) \<le> x / 2 powi (fexp x)"
    using assms(1) by (intro divide_right_mono) auto
  then have "of_int (2 ^ nat (e - fexp x)) \<le> x / 2 powi (fexp x)"
    unfolding int[symmetric] by (simp add: power_int_diff)
  then have "2 ^ nat (e - fexp x) \<le> round_half_even (x / 2 powi (fexp x))"
    by (rule round_half_even_ge)
  then have "(2::rat) powi (e - fexp x) * 2 powi (fexp x) \<le> fl x"
    unfolding fl_eq[OF x] int by (intro mult_right_mono) (auto simp del: of_int_power)
  then show ?thesis by (subst (asm) powi_add[symmetric]) simp
qed

lemma fl_le_powi:
  assumes "0 < x" "x \<le> 2 powi e" and "fexp x \<le> e"
  shows "fl x \<le> 2 powi e"
proof -
  have x: "x \<noteq> 0" using assms(1) by simp
  have int: "(2::rat) powi (e - fexp x) = of_int (2 ^ nat (e - fexp x))"
    using assms(3) by (simp add: power_int_nonneg_exp)
  have "x / 2 powi (fexp x) \<le> 2 powi e / 2 powi (fexp x)"
    using assms(2) by (intro divide_right_mono) auto
  then have "x / 2 powi (fexp x) \<le> of_int (2 ^ nat (e - fexp x))"
    unfolding int[symmetric] by (simp add: power_int_diff)
  then have "round_half_even (x / 2 powi (fexp x)) \<le> 2 ^ nat (e - fexp x)"
    by (rule round_half_even_le)
  then have "fl x \<le> (2::rat) powi (e - fexp x) * 2 powi (fexp x)"
    unfolding fl_eq[OF x] int by (intro mult_right_mono) (auto simp del: of_int_power)
  then show ?thesis by (subst (asm) powi_add[symmetric]) simp
qed

lemma fl_mono_pos:
  assumes "0 < x" and "x \<le> y"
  shows "fl x \<le> fl y"
proof -
  have y: "0 < y" using assms by simp
  have le: "ilog2 x \<le> ilog2 y" using assms by (rule ilog2_mono)
  show ?thesis
  proof (cases "fexp x = fexp y")
    case True
    have "round_half_even (x / 2 powi (fexp y)) \<le> round_half_even (y / 2 powi (fexp y))"
      using assms(2) by (intro round_half_even_mono divide_right_mono) auto
    with True y assms(1) show ?thesis by (simp add: fl_eq)
  next
    case False
    with le have ey: "fexp y = ilog2 y - 52" and lt: "ilog2 x < ilog2 y"
      and fx: "fexp x \<le> ilog2 y"
      by (auto simp: fexp_def)
    have "x < 2 powi (ilog2 x + 1)" using ilog2_bounds[of x] assms(1) by simp
    also have "\<dots> \<le> 2 powi (ilog2 y)" using lt by simp
    finally have "fl x \<le> 2 powi (ilog2 y)"
      using assms(1) fx by (intro fl_le_powi) auto
    also have "\<dots> \<le> fl y"
      using ilog2_bounds[of y] y ey by (intro fl_ge_powi) auto
    finally show ?thesis .
  qed
qed

theorem fl_mono: "x \<le> y \<Longrightarrow> fl x \<le> fl y"
proof -
  assume le: "x \<le> y"
  consider "0 < x" | "x \<le> 0" "0 \<le> y" | "y < 0" by linarith
  then show ?thesis
  proof cases
    case 1
    with le show ?thesis by (intro fl_mono_pos)
  next
    case 2
    with fl_nonneg[of y] fl_nonneg[of "- x"] show ?thesis by simp
  next
    case 3
    with le fl_mono_pos[of "- y" "- x"] show ?thesis by simp
  qed
qed

section \<open>Error bounds\<close>

lemma fl_abs_error:
  assumes "x \<noteq> 0"
  shows "\<bar>fl x - x\<bar> \<le> 2 powi (fexp x) / 2"
proof -
  let ?u = "(2::rat) powi (fexp x)"
  have "fl x - x = (of_int (round_half_even (x / ?u)) - x / ?u) * ?u"
    by (simp add: fl_eq[OF assms] algebra_simps)
  then have "\<bar>fl x - x\<bar> = \<bar>of_int (round_half_even (x / ?u)) - x / ?u\<bar> * ?u"
    by (simp add: abs_mult)
  also have "\<dots> \<le> 1/2 * ?u"
    by (intro mult_right_mono round_half_even_error) auto
  finally show ?thesis by simp
qed

lemma fl_rel_error:
  assumes "2 powi (-1022) \<le> \<bar>x\<bar>"
  shows "\<bar>fl x - x\<bar> \<le> \<bar>x\<bar> / 2 ^ 53"
proof -
  have x: "x \<noteq> 0" using assms by (auto dest: less_le_trans[OF powi_pos])
  note b = ilog2_bounds[OF x]
  have "(2::rat) powi (-1022) < 2 powi (ilog2 x + 1)"
    using assms b by (meson le_less_trans)
  then have "-1022 < ilog2 x + 1" by (rule powi_less_iff[THEN iffD1])
  then have e: "fexp x = ilog2 x - 52" by (simp add: fexp_def)
  have "(2::rat) powi (fexp x) / 2 = 2 powi (ilog2 x) / 2 ^ 53"
    by (simp add: e power_int_diff)
  also have "\<dots> \<le> \<bar>x\<bar> / 2 ^ 53" using b by simp
  finally show ?thesis using fl_abs_error[OF x] by simp
qed

theorem fl_idem: "fl (fl x) = fl x"
proof (cases "x = 0")
  case True
  then show ?thesis by simp
next
  case False
  let ?k = "fexp x"
  have "\<bar>x\<bar> < 2 powi (?k + 53)"
  proof -
    have "\<bar>x\<bar> < 2 powi (ilog2 x + 1)" using ilog2_bounds[OF False] by simp
    also have "\<dots> \<le> 2 powi (?k + 53)" by (simp add: fexp_def)
    finally show ?thesis .
  qed
  then have "\<bar>x / 2 powi ?k\<bar> \<le> of_int (2 ^ 53)"
    by (simp add: abs_divide pos_divide_le_eq powi_add algebra_simps)
  then have "x / 2 powi ?k \<le> of_int (2 ^ 53)" "of_int (- (2 ^ 53)) \<le> x / 2 powi ?k"
    by (simp_all only: abs_le_iff of_int_minus) (simp add: minus_le_iff)
  then have "\<bar>round_half_even (x / 2 powi ?k)\<bar> \<le> 2 ^ 53"
    using round_half_even_le round_half_even_ge by (metis abs_le_iff minus_le_iff)
  moreover have "-1074 \<le> ?k" by (simp add: fexp_def)
  ultimately show ?thesis
    unfolding fl_eq[OF False] by (rule fl_representable)
qed

lemma is_float_fl [simp, intro]: "is_float (fl x)"
  by (simp add: is_float_def fl_idem)

section \<open>The conversions the program uses\<close>

text \<open>
  \<open>int / int\<close>, \<open>int * float\<close>, \<open>float + float\<close> and the like: convert the int operands
  (exactly rounded), then round the exact result. \<open>int / int\<close> is rounded once.
\<close>

definition fdiv_int :: "int \<Rightarrow> int \<Rightarrow> rat" where
  "fdiv_int a b = fl (of_int a / of_int b)"

definition fmul :: "rat \<Rightarrow> rat \<Rightarrow> rat" where
  "fmul x y = fl (x * y)"

definition fadd :: "rat \<Rightarrow> rat \<Rightarrow> rat" where
  "fadd x y = fl (x + y)"

definition fsub :: "rat \<Rightarrow> rat \<Rightarrow> rat" where
  "fsub x y = fl (x - y)"

definition fdiv :: "rat \<Rightarrow> rat \<Rightarrow> rat" where
  "fdiv x y = fl (x / y)"

definition int_to_float :: "int \<Rightarrow> rat" where
  "int_to_float n = fl (of_int n)"

lemma int_to_float_exact: "\<bar>n\<bar> \<le> 2 ^ 53 \<Longrightarrow> int_to_float n = of_int n"
  by (simp add: int_to_float_def fl_int)

text \<open>\<open>int(x)\<close> truncates toward zero.\<close>

definition py_trunc :: "rat \<Rightarrow> int" where
  "py_trunc x = (if x < 0 then \<lceil>x\<rceil> else \<lfloor>x\<rfloor>)"

lemma py_trunc_int [simp]: "py_trunc (of_int n) = n"
  by (simp add: py_trunc_def)

lemma py_trunc_nonneg: "0 \<le> x \<Longrightarrow> 0 \<le> py_trunc x"
  by (simp add: py_trunc_def)

end
