(* ===== verification/Sched_Events.thy ===== *)
theory Sched_Events
  imports Py_Prelude
begin

text \<open>
  The deterministic event queue of \<open>sim/scheduler/events.py\<close>: phases, events, the
  ordering key \<open>(time_ps, phase, seq)\<close> and \<open>EventQueue\<close> with \<open>push\<close>, \<open>cancel\<close>, \<open>pop\<close>,
  \<open>peek\<close>, \<open>__len__\<close>, \<open>__iter__\<close> and \<open>clear\<close>.

  \<open>_heap\<close> is only reached through \<open>heapq\<close>, \<open>sorted\<close> and \<open>len\<close>; sequence numbers make
  the keys unique, so its order of extraction is the sorted order of the keys. The model
  keeps the list in that order: \<open>heappush\<close> is a sorted insertion, \<open>heappop\<close> takes the
  head. Payloads are of any type \<open>'p\<close>.

  The interface the scheduler kernel relies on is the locale \<open>event_source\<close>: a queue
  seen as the sorted list of its live events.
\<close>

section \<open>Phases, events and their order\<close>

datatype event_phase = RELEASE | ARRIVAL | TIMER | DISPATCH

fun phase_value :: "event_phase \<Rightarrow> nat" where
  "phase_value RELEASE = 0"
| "phase_value ARRIVAL = 1"
| "phase_value TIMER = 2"
| "phase_value DISPATCH = 3"

record 'p event =
  ev_time_ps :: int
  ev_phase :: event_phase
  ev_seq :: nat
  ev_payload :: 'p

definition event_key :: "'p event \<Rightarrow> int \<times> nat \<times> nat" where
  "event_key e = (ev_time_ps e, phase_value (ev_phase e), ev_seq e)"

definition event_lt :: "'p event \<Rightarrow> 'p event \<Rightarrow> bool" where
  "event_lt a b \<longleftrightarrow> event_key a < event_key b"

definition event_le :: "'p event \<Rightarrow> 'p event \<Rightarrow> bool" where
  "event_le a b \<longleftrightarrow> event_key a \<le> event_key b"

lemma phase_value_inject [simp]: "phase_value p = phase_value q \<longleftrightarrow> p = q"
  by (cases p; cases q) auto

lemma event_key_seq: "event_key a = event_key b \<Longrightarrow> ev_seq a = ev_seq b"
  by (simp add: event_key_def)

lemma event_key_time: "event_key a \<le> event_key b \<Longrightarrow> ev_time_ps a \<le> ev_time_ps b"
  by (auto simp: event_key_def)

section \<open>The queue and its operations\<close>

record 'p event_queue =
  eq_heap :: "'p event list"
  eq_seq :: nat
  eq_cancelled :: "nat set"

definition empty_queue :: "'p event_queue" where
  "empty_queue = \<lparr>eq_heap = [], eq_seq = 0, eq_cancelled = {}\<rparr>"

definition heappush :: "'p event \<Rightarrow> 'p event list \<Rightarrow> 'p event list" where
  "heappush e h = insort_key event_key e h"

definition push :: "int \<Rightarrow> event_phase \<Rightarrow> 'p \<Rightarrow> 'p event_queue \<Rightarrow> ('p event \<times> 'p event_queue) result" where
  "push time_ps phase payload q =
     (if time_ps < 0 then Inl (ValueError ''event time_ps must be non-negative'')
      else let e = \<lparr>ev_time_ps = time_ps, ev_phase = phase, ev_seq = eq_seq q, ev_payload = payload\<rparr>
           in Inr (e, q\<lparr>eq_seq := Suc (eq_seq q), eq_heap := heappush e (eq_heap q)\<rparr>))"

definition cancel :: "'p event \<Rightarrow> 'p event_queue \<Rightarrow> bool \<times> 'p event_queue" where
  "cancel e q =
     (if ev_seq e \<in> eq_cancelled q then (False, q)
      else (True, q\<lparr>eq_cancelled := insert (ev_seq e) (eq_cancelled q)\<rparr>))"

fun pop_loop :: "'p event list \<Rightarrow> nat set \<Rightarrow> 'p event option \<times> 'p event list \<times> nat set" where
  "pop_loop [] c = (None, [], c)"
| "pop_loop (e # h) c =
     (if ev_seq e \<in> c then pop_loop h (c - {ev_seq e}) else (Some e, h, c))"

definition pop :: "'p event_queue \<Rightarrow> 'p event option \<times> 'p event_queue" where
  "pop q = (case pop_loop (eq_heap q) (eq_cancelled q) of
     (r, h, c) \<Rightarrow> (r, q\<lparr>eq_heap := h, eq_cancelled := c\<rparr>))"

definition live :: "'p event_queue \<Rightarrow> 'p event list" where
  \<comment> \<open>\<open>__iter__\<close>: the queued events in sorted order\<close>
  "live q = filter (\<lambda>e. ev_seq e \<notin> eq_cancelled q) (sort_key event_key (eq_heap q))"

definition peek :: "'p event_queue \<Rightarrow> 'p event option" where
  "peek q = (case live q of [] \<Rightarrow> None | e # _ \<Rightarrow> Some e)"

definition queue_len :: "'p event_queue \<Rightarrow> int result" where
  \<comment> \<open>\<open>len(q)\<close>: Python raises when \<open>__len__\<close> gives a negative number\<close>
  "queue_len q =
     (let n = int (length (eq_heap q)) - int (card (eq_cancelled q))
      in if n < 0 then Inl (ValueError ''__len__() should return >= 0'') else Inr n)"

definition clear_queue :: "'p event_queue \<Rightarrow> 'p event_queue" where
  "clear_queue q = q\<lparr>eq_heap := [], eq_cancelled := {}\<rparr>"

section \<open>The queue invariant\<close>

definition queue_inv :: "'p event_queue \<Rightarrow> bool" where
  "queue_inv q \<longleftrightarrow>
     sorted (map event_key (eq_heap q)) \<and>
     distinct (map ev_seq (eq_heap q)) \<and>
     (\<forall>e \<in> set (eq_heap q). ev_seq e < eq_seq q \<and> 0 \<le> ev_time_ps e) \<and>
     (\<forall>n \<in> eq_cancelled q. n < eq_seq q)"

lemma queue_inv_empty: "queue_inv empty_queue"
  by (simp add: queue_inv_def empty_queue_def)

lemma queue_inv_finite_cancelled: "queue_inv q \<Longrightarrow> finite (eq_cancelled q)"
  by (rule finite_subset[of _ "{..<eq_seq q}"]) (auto simp: queue_inv_def)

lemma live_sorted_heap:
  "queue_inv q \<Longrightarrow> live q = filter (\<lambda>e. ev_seq e \<notin> eq_cancelled q) (eq_heap q)"
  by (simp add: live_def queue_inv_def sort_key_id_if_sorted)

lemma live_subset: "set (live q) \<subseteq> set (eq_heap q)"
  by (auto simp: live_def)

lemma live_sorted: "queue_inv q \<Longrightarrow> sorted (map event_key (live q))"
  by (simp add: live_def sorted_wrt_filter_key)

lemma live_distinct: "queue_inv q \<Longrightarrow> distinct (map ev_seq (live q))"
  by (simp add: live_sorted_heap queue_inv_def distinct_map_filter_key)

lemma live_seq_bound: "queue_inv q \<Longrightarrow> e \<in> set (live q) \<Longrightarrow> ev_seq e < eq_seq q"
  using live_subset by (fastforce simp: queue_inv_def)

lemma live_time_nonneg: "queue_inv q \<Longrightarrow> e \<in> set (live q) \<Longrightarrow> 0 \<le> ev_time_ps e"
  using live_subset by (fastforce simp: queue_inv_def)

lemma heappush_mset [simp]: "mset (heappush e h) = add_mset e (mset h)"
  by (simp add: heappush_def)

lemma heappush_set [simp]: "set (heappush e h) = insert e (set h)"
  by (simp add: heappush_def set_insort_key)

lemma push_inv:
  assumes "queue_inv q" and "push t p x q = Inr (e, q')"
  shows "queue_inv q'"
proof -
  from assms(2) have e: "e = \<lparr>ev_time_ps = t, ev_phase = p, ev_seq = eq_seq q, ev_payload = x\<rparr>"
    and t: "0 \<le> t"
    and q': "q' = q\<lparr>eq_seq := Suc (eq_seq q), eq_heap := heappush e (eq_heap q)\<rparr>"
    by (auto simp: push_def Let_def split: if_splits)
  have "distinct (map ev_seq (heappush e (eq_heap q)))"
  proof -
    have "mset (map ev_seq (heappush e (eq_heap q))) = mset (map ev_seq (e # eq_heap q))"
      by (simp only: mset_map heappush_mset) simp
    moreover have "distinct (map ev_seq (e # eq_heap q))"
      using assms(1) e by (auto simp: queue_inv_def)
    ultimately show ?thesis by (metis mset_eq_imp_distinct_iff)
  qed
  moreover have "sorted (map event_key (heappush e (eq_heap q)))"
    using assms(1) by (simp add: heappush_def queue_inv_def sorted_insort_key)
  ultimately show ?thesis
    using assms(1) t e q' by (auto simp: queue_inv_def less_Suc_eq)
qed

lemma push_live:
  assumes "queue_inv q" and "push t p x q = Inr (e, q')"
  shows "live q' = insort_key event_key e (live q)"
proof -
  from assms(2) have s: "ev_seq e = eq_seq q"
    and q': "q' = q\<lparr>eq_seq := Suc (eq_seq q), eq_heap := heappush e (eq_heap q)\<rparr>"
    by (auto simp: push_def Let_def split: if_splits)
  have "ev_seq e \<notin> eq_cancelled q" using assms(1) s by (auto simp: queue_inv_def)
  moreover have "sorted (map event_key (eq_heap q))" using assms(1) by (simp add: queue_inv_def)
  ultimately show ?thesis
    using live_sorted_heap[OF push_inv[OF assms]] live_sorted_heap[OF assms(1)] q'
    by (simp add: heappush_def filter_insort_key)
qed

lemma push_event:
  "push t p x q = Inr (e, q') \<Longrightarrow>
   ev_time_ps e = t \<and> ev_phase e = p \<and> ev_payload e = x \<and> ev_seq e = eq_seq q"
  by (auto simp: push_def Let_def split: if_splits)

lemma push_ok_iff: "is_ok (push t p x q) \<longleftrightarrow> 0 \<le> t"
  by (simp add: push_def Let_def)

lemma cancel_inv: "queue_inv q \<Longrightarrow> ev_seq e < eq_seq q \<Longrightarrow> queue_inv (snd (cancel e q))"
  by (auto simp: cancel_def queue_inv_def)

lemma cancel_live:
  "live (snd (cancel e q)) = filter (\<lambda>x. ev_seq x \<noteq> ev_seq e) (live q)"
  by (auto simp: cancel_def live_def filter_filter intro: filter_cong)

text \<open>
  What the loop of \<open>pop\<close> does, on a heap without repeated sequence numbers: it drops the
  cancelled prefix, forgets its cancellations and takes the next event.
\<close>

lemma pop_loop_eq:
  assumes "distinct (map ev_seq h)"
  shows "pop_loop h c =
    (let rest = dropWhile (\<lambda>e. ev_seq e \<in> c) h in
     (case rest of [] \<Rightarrow> None | e # _ \<Rightarrow> Some e, tl rest,
      c - ev_seq ` set (takeWhile (\<lambda>e. ev_seq e \<in> c) h)))"
  using assms
proof (induction h arbitrary: c)
  case Nil
  then show ?case by simp
next
  case (Cons x h)
  show ?case
  proof (cases "ev_seq x \<in> c")
    case False
    then show ?thesis by simp
  next
    case True
    let ?c = "c - {ev_seq x}"
    have same: "\<And>e. e \<in> set h \<Longrightarrow> ev_seq e \<in> ?c \<longleftrightarrow> ev_seq e \<in> c"
      using Cons.prems by (metis DiffE DiffI distinct.simps(2) image_eqI list.map(2) list.set_map singletonD)
    have "dropWhile (\<lambda>e. ev_seq e \<in> ?c) h = dropWhile (\<lambda>e. ev_seq e \<in> c) h"
      and "takeWhile (\<lambda>e. ev_seq e \<in> ?c) h = takeWhile (\<lambda>e. ev_seq e \<in> c) h"
      using same by (auto intro: dropWhile_cong takeWhile_cong)
    with True Cons show ?thesis by (auto simp: Let_def)
  qed
qed

lemma filter_dropWhile_not: "filter (\<lambda>x. \<not> P x) (dropWhile P h) = filter (\<lambda>x. \<not> P x) h"
  by (induction h) auto

lemma pop_correct:
  assumes "queue_inv q"
  shows "fst (pop q) = peek q \<and> live (snd (pop q)) = tl (live q) \<and> queue_inv (snd (pop q))"
proof -
  let ?c = "eq_cancelled q" and ?h = "eq_heap q"
  let ?rest = "dropWhile (\<lambda>e. ev_seq e \<in> ?c) ?h"
  let ?pre = "takeWhile (\<lambda>e. ev_seq e \<in> ?c) ?h"
  have dist: "distinct (map ev_seq ?h)" using assms by (simp add: queue_inv_def)
  have split: "?h = ?pre @ ?rest" by simp
  have pop: "pop q = (case ?rest of [] \<Rightarrow> None | e # _ \<Rightarrow> Some e,
      q\<lparr>eq_heap := tl ?rest, eq_cancelled := ?c - ev_seq ` set ?pre\<rparr>)"
    by (simp add: pop_def pop_loop_eq[OF dist] Let_def)
  have live: "live q = filter (\<lambda>e. ev_seq e \<notin> ?c) ?rest"
    by (simp add: live_sorted_heap[OF assms] filter_dropWhile_not[of "\<lambda>e. ev_seq e \<in> ?c"])
  have sub: "set (tl ?rest) \<subseteq> set ?h" "set ?pre \<subseteq> set ?h"
    by (metis set_dropWhileD list.set_sel(2) subsetI tl_Nil) (auto dest: set_takeWhileD)
  have inv: "queue_inv (snd (pop q))"
  proof -
    have "sorted (map event_key (tl ?rest))" "distinct (map ev_seq (tl ?rest))"
      using assms by (auto simp: queue_inv_def map_tl dropWhile_map[symmetric]
        intro!: sorted_tl distinct_tl sorted_dropWhile distinct_dropWhile
        simp: sorted_wrt_append) (metis split distinct_append map_append sorted_append)+
    with assms sub show ?thesis by (auto simp: queue_inv_def pop)
  qed
  show ?thesis
  proof (cases ?rest)
    case Nil
    with live have "live q = []" by (simp del: dropWhile_eq_Nil_conv)
    moreover have "live (snd (pop q)) = []"
      using Nil live_sorted_heap[OF inv] by (simp add: pop del: dropWhile_eq_Nil_conv)
    ultimately show ?thesis
      using Nil inv by (simp add: pop peek_def del: dropWhile_eq_Nil_conv)
  next
    case (Cons e r)
    have e: "ev_seq e \<notin> ?c" using Cons by (simp add: dropWhile_eq_Cons_conv)
    have "distinct (map ev_seq (?pre @ e # r))" using dist split Cons by metis
    then have apart: "ev_seq ` set ?pre \<inter> ev_seq ` set r = {}" by auto
    have "filter (\<lambda>x. ev_seq x \<notin> ?c - ev_seq ` set ?pre) r = filter (\<lambda>x. ev_seq x \<notin> ?c) r"
      using apart by (intro filter_cong) (blast intro: refl)+
    then have "live (snd (pop q)) = filter (\<lambda>x. ev_seq x \<notin> ?c) r"
      using live_sorted_heap[OF inv] Cons by (simp add: pop)
    moreover have "live q = e # filter (\<lambda>x. ev_seq x \<notin> ?c) r"
      using live Cons e by simp
    ultimately show ?thesis using Cons inv by (simp add: pop peek_def)
  qed
qed

lemma pop_peek: "queue_inv q \<Longrightarrow> fst (pop q) = peek q"
  using pop_correct by blast

lemma pop_live: "queue_inv q \<Longrightarrow> live (snd (pop q)) = tl (live q)"
  using pop_correct by blast

lemma pop_inv: "queue_inv q \<Longrightarrow> queue_inv (snd (pop q))"
  using pop_correct by blast

lemma pop_seq [simp]: "eq_seq (snd (pop q)) = eq_seq q"
  by (simp add: pop_def split: prod.splits)

lemma peek_eq: "peek q = (case live q of [] \<Rightarrow> None | e # _ \<Rightarrow> Some e)"
  by (simp add: peek_def)

lemma peek_None_iff: "peek q = None \<longleftrightarrow> live q = []"
  by (simp add: peek_def split: list.splits)

lemma peek_Some_live: "peek q = Some e \<Longrightarrow> \<exists>r. live q = e # r"
  by (simp add: peek_def split: list.splits)

section \<open>The interface of the kernel's event source\<close>

text \<open>
  What a client of the queue needs: a view of the queue as a list sorted by key, \<open>peek\<close>
  and \<open>pop\<close> agreeing on its head, and sorted insertion.
\<close>

locale event_source =
  fixes inv :: "'q \<Rightarrow> bool"
    and view :: "'q \<Rightarrow> 'p event list"
    and peekf :: "'q \<Rightarrow> 'p event option"
    and popf :: "'q \<Rightarrow> 'p event option \<times> 'q"
    and pushf :: "int \<Rightarrow> event_phase \<Rightarrow> 'p \<Rightarrow> 'q \<Rightarrow> ('p event \<times> 'q) result"
  assumes view_sorted: "inv q \<Longrightarrow> sorted (map event_key (view q))"
    and view_distinct: "inv q \<Longrightarrow> distinct (map ev_seq (view q))"
    and peek_head: "inv q \<Longrightarrow> peekf q = (case view q of [] \<Rightarrow> None | e # _ \<Rightarrow> Some e)"
    and pop_head: "inv q \<Longrightarrow> fst (popf q) = peekf q"
    and pop_tail: "inv q \<Longrightarrow> view (snd (popf q)) = tl (view q)"
    and pop_keeps: "inv q \<Longrightarrow> inv (snd (popf q))"
    and push_view: "inv q \<Longrightarrow> pushf t p x q = Inr (e, q') \<Longrightarrow> view q' = insort_key event_key e (view q)"
    and push_keeps: "inv q \<Longrightarrow> pushf t p x q = Inr (e, q') \<Longrightarrow> inv q'"
    and push_fields: "pushf t p x q = Inr (e, q') \<Longrightarrow>
      ev_time_ps e = t \<and> ev_phase e = p \<and> ev_payload e = x"
begin

fun drain :: "nat \<Rightarrow> 'q \<Rightarrow> 'p event list" where
  "drain 0 q = []"
| "drain (Suc n) q = (case popf q of (None, _) \<Rightarrow> [] | (Some e, q') \<Rightarrow> e # drain n q')"

lemma peek_minimal: "inv q \<Longrightarrow> peekf q = Some e \<Longrightarrow> x \<in> set (view q) \<Longrightarrow> event_key e \<le> event_key x"
  using view_sorted[of q] by (auto simp: peek_head split: list.splits)

lemma pop_some: "inv q \<Longrightarrow> popf q = (Some e, q') \<Longrightarrow> view q = e # view q' \<and> inv q'"
  using pop_head[of q] pop_tail[of q] pop_keeps[of q] by (auto simp: peek_head split: list.splits)

lemma pop_none: "inv q \<Longrightarrow> popf q = (None, q') \<Longrightarrow> view q = []"
  using pop_head[of q] by (auto simp: peek_head split: list.splits)

lemma drain_take: "inv q \<Longrightarrow> drain n q = take n (view q)"
proof (induction n arbitrary: q)
  case 0
  then show ?case by simp
next
  case (Suc n)
  obtain r q' where r: "popf q = (r, q')" by (cases "popf q")
  show ?case
  proof (cases r)
    case None
    with r Suc.prems show ?thesis by (simp add: pop_none)
  next
    case (Some e)
    with r Suc show ?thesis by (simp add: pop_some)
  qed
qed

lemma drain_sorted: "inv q \<Longrightarrow> sorted (map event_key (drain n q))"
  by (simp add: drain_take take_map[symmetric] sorted_wrt_take view_sorted)

lemma drain_all: "inv q \<Longrightarrow> length (view q) \<le> n \<Longrightarrow> drain n q = view q"
  by (simp add: drain_take)

end

interpretation eq: event_source queue_inv live peek pop push
proof (unfold_locales, goal_cases)
  case (1 q) then show ?case by (rule live_sorted)
next
  case (2 q) then show ?case by (rule live_distinct)
next
  case (3 q) show ?case by (rule peek_eq)
next
  case (4 q) then show ?case by (rule pop_peek)
next
  case (5 q) then show ?case by (rule pop_live)
next
  case (6 q) then show ?case by (rule pop_inv)
next
  case (7 q t p x e q') then show ?case by (rule push_live)
next
  case (8 q t p x e q') then show ?case by (rule push_inv)
next
  case (9 t p x q e q') then show ?case by (simp add: push_event)
qed

section \<open>Properties of the event queue\<close>

text \<open>C7. \<open>pop\<close> removes the earliest event that was not cancelled, by time, then phase, then
  order of insertion, and leaves exactly the other live events; it returns \<open>None\<close> only when
  there is none.\<close>

theorem pop_takes_earliest:
  assumes "queue_inv q" and "pop q = (r, q')"
  shows "queue_inv q' \<and> (case r of
      None \<Rightarrow> live q = [] \<and> live q' = []
    | Some e \<Rightarrow> e \<in> set (live q) \<and> (\<forall>x \<in> set (live q'). event_key e < event_key x) \<and>
        mset (live q) = add_mset e (mset (live q')))"
proof (cases r)
  case None
  then show ?thesis using eq.pop_none[OF assms(1)] assms(2) pop_inv[OF assms(1)] pop_live[OF assms(1)] by auto
next
  case (Some e)
  have l: "live q = e # live q'" and i: "queue_inv q'" using eq.pop_some[OF assms(1)] assms(2) Some by auto
  have "event_key e \<le> event_key x \<and> event_key e \<noteq> event_key x" if "x \<in> set (live q')" for x
    using live_sorted[OF assms(1)] live_distinct[OF assms(1)] that l event_key_seq[of e x] by auto
  then have "\<forall>x \<in> set (live q'). event_key e < event_key x" using order_le_imp_less_or_eq by blast
  with Some l i show ?thesis by simp
qed

definition sample_queue :: "string event_queue" where
  "sample_queue = \<lparr>eq_heap = [\<lparr>ev_time_ps = 2, ev_phase = TIMER, ev_seq = 1, ev_payload = ''x''\<rparr>],
     eq_seq = 2, eq_cancelled = {}\<rparr>"

lemma sample_queue_inv: "queue_inv sample_queue"
  by (simp add: sample_queue_def queue_inv_def)

lemma pop_takes_earliest_witness: "queue_inv (snd (pop sample_queue)) \<and> live (snd (pop sample_queue)) = []"
  using pop_takes_earliest[OF sample_queue_inv, of "fst (pop sample_queue)" "snd (pop sample_queue)"]
  by (auto simp: sample_queue_def pop_def live_def)

text \<open>Cancelling an event that has already been popped is reported as success and corrupts
  the queue: the stale cancellation is counted by \<open>len\<close>, which raises on an empty heap, and
  an unrelated count is off by one until then.\<close>

theorem cancel_after_pop_breaks_len:
  assumes "queue_inv q" and "pop q = (Some e, q')" and "eq_cancelled q' = {}"
  shows "fst (cancel e q') \<and>
    (if eq_heap q' = [] then queue_len (snd (cancel e q')) = Inl (ValueError ''__len__() should return >= 0'')
     else queue_len (snd (cancel e q')) = Inr (int (length (live (snd (cancel e q')))) - 1))"
proof -
  have l: "live q = e # live q'" and i: "queue_inv q'" using eq.pop_some[OF assms(1,2)] by auto
  have d: "ev_seq e \<notin> set (map ev_seq (live q'))" using live_distinct[OF assms(1)] l by simp
  have lh: "live q' = eq_heap q'" using live_sorted_heap[OF i] assms(3) by simp
  have "live (snd (cancel e q')) = filter (\<lambda>x. ev_seq x \<noteq> ev_seq e) (live q')" by (rule cancel_live)
  also have "\<dots> = live q'" using d by (metis (mono_tags, lifting) filter_True image_eqI list.set_map)
  finally show ?thesis using assms(3) lh by (simp add: cancel_def queue_len_def Let_def Suc_le_eq[symmetric])
qed

lemma cancel_after_pop_breaks_len_witness:
  "queue_len (snd (cancel \<lparr>ev_time_ps = 2, ev_phase = TIMER, ev_seq = 1, ev_payload = ''x''\<rparr> (snd (pop sample_queue))))
     = Inl (ValueError ''__len__() should return >= 0'')"
  using cancel_after_pop_breaks_len[OF sample_queue_inv,
      of "\<lparr>ev_time_ps = 2, ev_phase = TIMER, ev_seq = 1, ev_payload = ''x''\<rparr>" "snd (pop sample_queue)"]
  by (simp add: sample_queue_def pop_def)

end
