(* ===== verification/Sched_Queues.thy ===== *)
theory Sched_Queues
  imports Py_Prelude
begin

text \<open>
  The two job queues of \<open>sim/scheduler/queues.py\<close>: \<open>BoundedFIFO\<close>, with its terminal
  \<open>queue_full\<close> flag, and \<open>MailboxLatest\<close>, which keeps one pending item per stream.

  The locale \<open>bounded_queue\<close> is the contract a FIFO offers its client (the scenario
  runner): the queue is seen as the list of its items, an insertion appends while the
  capacity lasts, a removal takes the oldest. It is interpreted on \<open>BoundedFIFO\<close>.
\<close>

section \<open>The bounded FIFO\<close>

record 'a fifo =
  ff_capacity :: int
  ff_name :: string
  ff_items :: "(int \<times> 'a) list"
  ff_sequence :: int
  ff_queue_full :: bool

definition fifo_new :: "int \<Rightarrow> string \<Rightarrow> 'a fifo result" where
  "fifo_new capacity name =
     (if capacity \<le> 0 then Inl (QueueFullError ''FIFO capacity must be positive'')
      else Inr \<lparr>ff_capacity = capacity, ff_name = name, ff_items = [], ff_sequence = 0,
                ff_queue_full = False\<rparr>)"

definition fifo_size :: "'a fifo \<Rightarrow> int" where
  "fifo_size q = int (length (ff_items q))"

definition fifo_is_full :: "'a fifo \<Rightarrow> bool" where
  "fifo_is_full q \<longleftrightarrow> fifo_size q \<ge> ff_capacity q"

definition fifo_is_empty :: "'a fifo \<Rightarrow> bool" where
  "fifo_is_empty q \<longleftrightarrow> fifo_size q = 0"

definition fifo_enqueue :: "'a \<Rightarrow> ('a fifo, int) op" where
  "fifo_enqueue item q =
     (if fifo_is_full q then (Inl (QueueFullError ''FIFO is full''), q\<lparr>ff_queue_full := True\<rparr>)
      else let seq = ff_sequence q
           in (Inr seq, q\<lparr>ff_items := ff_items q @ [(seq, item)], ff_sequence := seq + 1\<rparr>))"

definition fifo_dequeue :: "('a fifo, int \<times> 'a) op" where
  "fifo_dequeue q =
     (if fifo_is_empty q then (Inl (QueueFullError ''FIFO is empty''), q)
      else (Inr (hd (ff_items q)), q\<lparr>ff_items := tl (ff_items q)\<rparr>))"

definition fifo_peek :: "'a fifo \<Rightarrow> (int \<times> 'a) option" where
  "fifo_peek q = (if fifo_is_empty q then None else Some (ff_items q ! 0))"

definition fifo_clear :: "'a fifo \<Rightarrow> 'a fifo" where
  "fifo_clear q = q\<lparr>ff_items := [], ff_queue_full := False, ff_sequence := 0\<rparr>"

lemma fifo_is_empty_iff [simp]: "fifo_is_empty q \<longleftrightarrow> ff_items q = []"
  by (simp add: fifo_is_empty_def fifo_size_def)

lemma fifo_peek_eq: "fifo_peek q = (case ff_items q of [] \<Rightarrow> None | x # _ \<Rightarrow> Some x)"
  by (simp add: fifo_peek_def split: list.splits)

text \<open>
  The class invariant: the bound is kept, and sequence numbers rise along the queue and
  stay below the next one.
\<close>

definition fifo_inv :: "'a fifo \<Rightarrow> bool" where
  "fifo_inv q \<longleftrightarrow>
     0 < ff_capacity q \<and> fifo_size q \<le> ff_capacity q \<and>
     sorted_wrt (<) (map fst (ff_items q)) \<and>
     (\<forall>n \<in> set (map fst (ff_items q)). n < ff_sequence q)"

definition fifo_view :: "'a fifo \<Rightarrow> 'a list" where
  "fifo_view q = map snd (ff_items q)"

lemma fifo_new_inv: "fifo_new c n = Inr q \<Longrightarrow> fifo_inv q \<and> fifo_view q = []"
  by (auto simp: fifo_new_def fifo_inv_def fifo_size_def fifo_view_def split: if_splits)

lemma fifo_enqueue_inv: "fifo_inv q \<Longrightarrow> fifo_inv (snd (fifo_enqueue x q))"
  by (auto simp: fifo_inv_def fifo_enqueue_def fifo_is_full_def fifo_size_def Let_def
      sorted_wrt_append)

lemma fifo_dequeue_inv: "fifo_inv q \<Longrightarrow> fifo_inv (snd (fifo_dequeue q))"
  by (cases "ff_items q") (auto simp: fifo_inv_def fifo_dequeue_def fifo_size_def)

lemma fifo_clear_inv: "fifo_inv q \<Longrightarrow> fifo_inv (fifo_clear q)"
  by (simp add: fifo_inv_def fifo_clear_def fifo_size_def)

locale bounded_queue =
  fixes inv :: "'q \<Rightarrow> bool"
    and view :: "'q \<Rightarrow> 'a list"
    and cap :: "'q \<Rightarrow> int"
    and enq :: "'a \<Rightarrow> ('q, 's) op"
    and deq :: "('q, 's \<times> 'a) op"
  assumes bound: "inv q \<Longrightarrow> int (length (view q)) \<le> cap q"
    and enq_ok: "inv q \<Longrightarrow> int (length (view q)) < cap q \<Longrightarrow>
      \<exists>s q'. enq x q = (Inr s, q') \<and> view q' = view q @ [x] \<and> cap q' = cap q"
    and enq_full: "inv q \<Longrightarrow> cap q \<le> int (length (view q)) \<Longrightarrow>
      \<exists>e q'. enq x q = (Inl e, q') \<and> view q' = view q \<and> cap q' = cap q"
    and enq_inv: "inv q \<Longrightarrow> inv (snd (enq x q))"
    and deq_ok: "inv q \<Longrightarrow> view q = x # xs \<Longrightarrow>
      \<exists>s q'. deq q = (Inr (s, x), q') \<and> view q' = xs \<and> cap q' = cap q"
    and deq_empty: "inv q \<Longrightarrow> view q = [] \<Longrightarrow> \<exists>e. deq q = (Inl e, q)"
    and deq_inv: "inv q \<Longrightarrow> inv (snd (deq q))"
begin

fun enq_all :: "'a list \<Rightarrow> 'q \<Rightarrow> 'q" where
  "enq_all [] q = q"
| "enq_all (x # xs) q = enq_all xs (snd (enq x q))"

fun deq_all :: "nat \<Rightarrow> 'q \<Rightarrow> 'a list" where
  "deq_all 0 q = []"
| "deq_all (Suc n) q = (case deq q of (Inl _, _) \<Rightarrow> [] | (Inr (_, x), q') \<Rightarrow> x # deq_all n q')"

lemma enq_view:
  assumes "inv q"
  shows "view (snd (enq x q)) = (if int (length (view q)) < cap q then view q @ [x] else view q)
    \<and> cap (snd (enq x q)) = cap q"
  using enq_ok[OF assms, of x] enq_full[OF assms, of x] by fastforce

lemma enq_all_view:
  "inv q \<Longrightarrow> view (enq_all xs q) = view q @ take (nat (cap q - int (length (view q)))) xs
    \<and> inv (enq_all xs q)"
proof (induction xs arbitrary: q)
  case Nil
  then show ?case by simp
next
  case (Cons x xs)
  note v = enq_view[OF Cons.prems, of x]
  note step = Cons.IH[OF enq_inv[OF Cons.prems, of x]]
  show ?case
  proof (cases "int (length (view q)) < cap q")
    case True
    then have "nat (cap q - int (length (view q)))
        = Suc (nat (cap q - int (length (view q @ [x]))))" by simp
    with True v step show ?thesis by simp
  next
    case False
    with v step show ?thesis by simp
  qed
qed

lemma deq_all_view: "inv q \<Longrightarrow> deq_all n q = take n (view q)"
proof (induction n arbitrary: q)
  case 0
  then show ?case by simp
next
  case (Suc n)
  show ?case
  proof (cases "view q")
    case Nil
    with deq_empty[OF Suc.prems] show ?thesis by auto
  next
    case (Cons x xs)
    with deq_ok[OF Suc.prems] obtain s q' where d: "deq q = (Inr (s, x), q')" "view q' = xs"
      by blast
    with deq_inv[OF Suc.prems] have "inv q'" by simp
    with Suc.IH d Cons show ?thesis by simp
  qed
qed

text \<open>First in, first out: a client gets back the accepted items in arrival order.\<close>

lemma fifo_order:
  assumes "inv q" and "view q = []" and "length xs \<le> n"
  shows "deq_all n (enq_all xs q) = take (nat (cap q)) xs"
  using enq_all_view[OF assms(1), of xs] deq_all_view[of "enq_all xs q" n] assms(2,3)
  by (simp add: min_def)

end

interpretation ff: bounded_queue fifo_inv fifo_view ff_capacity fifo_enqueue fifo_dequeue
proof (unfold_locales, goal_cases)
  case (1 q) then show ?case by (simp add: fifo_inv_def fifo_view_def fifo_size_def)
next
  case (2 q x) then show ?case
    by (auto simp: fifo_enqueue_def fifo_is_full_def fifo_size_def fifo_view_def Let_def)
next
  case (3 q x) then show ?case
    by (auto simp: fifo_enqueue_def fifo_is_full_def fifo_size_def fifo_view_def)
next
  case (4 q x) then show ?case by (rule fifo_enqueue_inv)
next
  case (5 q x xs) then show ?case
    by (cases "ff_items q") (auto simp: fifo_dequeue_def fifo_view_def)
next
  case (6 q) then show ?case by (auto simp: fifo_dequeue_def fifo_view_def)
next
  case (7 q) then show ?case by (rule fifo_dequeue_inv)
qed

section \<open>The latest-value mailbox\<close>

record 'a mailbox =
  mb_name :: string
  mb_pending :: "(string, int \<times> 'a) dict"
  mb_arrival_ps :: "(string, int) dict"
  mb_replacement_count :: int

definition mailbox_new :: "string \<Rightarrow> 'a mailbox" where
  "mailbox_new name =
     \<lparr>mb_name = name, mb_pending = [], mb_arrival_ps = [], mb_replacement_count = 0\<rparr>"

definition mb_stream_ids :: "'a mailbox \<Rightarrow> string list" where
  "mb_stream_ids m = sort (dkeys (mb_pending m))"

definition mb_has_pending :: "string \<Rightarrow> 'a mailbox \<Rightarrow> bool" where
  "mb_has_pending stream_id m \<longleftrightarrow> din stream_id (mb_pending m)"

definition mb_put :: "string \<Rightarrow> 'a \<Rightarrow> int \<Rightarrow> 'a mailbox \<Rightarrow> bool \<times> 'a mailbox" where
  "mb_put stream_id item now_ps m =
     (let replaced = mb_has_pending stream_id m;
          m1 = (if replaced then m\<lparr>mb_replacement_count := mb_replacement_count m + 1\<rparr> else m);
          t = (if replaced then dget (mb_arrival_ps m) stream_id now_ps else now_ps);
          m2 = m1\<lparr>mb_pending := AList.update stream_id (t, item) (mb_pending m1)\<rparr>;
          m3 = (if \<not> replaced
                then m2\<lparr>mb_arrival_ps := AList.update stream_id now_ps (mb_arrival_ps m2)\<rparr>
                else m2)
      in (replaced, m3))"

definition mb_take :: "string \<Rightarrow> int \<Rightarrow> 'a mailbox \<Rightarrow> (int \<times> 'a) option \<times> 'a mailbox" where
  "mb_take stream_id now_ps m =
     (case map_of (mb_pending m) stream_id of
        None \<Rightarrow> (None, m)
      | Some (arrival_ps, item) \<Rightarrow>
          (Some (now_ps - arrival_ps, item),
           m\<lparr>mb_pending := AList.delete stream_id (mb_pending m)\<rparr>))"

definition mb_peek :: "string \<Rightarrow> int \<Rightarrow> 'a mailbox \<Rightarrow> (int \<times> 'a) option" where
  "mb_peek stream_id now_ps m =
     (case map_of (mb_pending m) stream_id of
        None \<Rightarrow> None
      | Some (arrival_ps, item) \<Rightarrow> Some (now_ps - arrival_ps, item))"

definition mb_age_ps :: "string \<Rightarrow> int \<Rightarrow> 'a mailbox \<Rightarrow> int result" where
  "mb_age_ps stream_id now_ps m =
     (if \<not> mb_has_pending stream_id m then Inl (KeyError stream_id)
      else case map_of (mb_arrival_ps m) stream_id of
             None \<Rightarrow> Inl (KeyError stream_id)
           | Some a \<Rightarrow> Inr (now_ps - a))"

definition mb_clear :: "'a mailbox \<Rightarrow> 'a mailbox" where
  "mb_clear m = m\<lparr>mb_pending := [], mb_arrival_ps := [], mb_replacement_count := 0\<rparr>"

text \<open>
  The class invariant: at most one pending item per stream, and the time stored with it
  is the recorded arrival of its stream. \<open>take\<close> leaves the arrival entry behind, so the
  converse does not hold.
\<close>

definition mb_inv :: "'a mailbox \<Rightarrow> bool" where
  "mb_inv m \<longleftrightarrow> dict_ok (mb_pending m) \<and> dict_ok (mb_arrival_ps m) \<and>
     (\<forall>s a i. map_of (mb_pending m) s = Some (a, i) \<longrightarrow> map_of (mb_arrival_ps m) s = Some a)"

lemma mb_has_pending_iff: "mb_has_pending s m \<longleftrightarrow> map_of (mb_pending m) s \<noteq> None"
  by (simp add: mb_has_pending_def)

lemma mailbox_new_inv: "mb_inv (mailbox_new n)"
  by (simp add: mb_inv_def mailbox_new_def)

lemma mb_put_fields:
  "mb_inv m \<Longrightarrow> mb_put s x t m =
     (mb_has_pending s m,
      m\<lparr>mb_pending := AList.update s
           (case map_of (mb_pending m) s of None \<Rightarrow> t | Some (a, _) \<Rightarrow> a, x) (mb_pending m),
        mb_arrival_ps := (if mb_has_pending s m then mb_arrival_ps m
                          else AList.update s t (mb_arrival_ps m)),
        mb_replacement_count := mb_replacement_count m + (if mb_has_pending s m then 1 else 0)\<rparr>)"
  by (auto simp: mb_put_def mb_inv_def mb_has_pending_iff dget_def Let_def split: option.splits)

lemma mb_put_inv: "mb_inv m \<Longrightarrow> mb_inv (snd (mb_put s x t m))"
  by (auto simp: mb_put_fields) (auto simp: mb_inv_def dict_simps mb_has_pending_iff
      split: option.splits if_splits)

lemma mb_take_inv: "mb_inv m \<Longrightarrow> mb_inv (snd (mb_take s t m))"
  by (auto simp: mb_take_def mb_inv_def dict_simps split: option.splits prod.splits if_splits)

lemma mb_clear_inv: "mb_inv m \<Longrightarrow> mb_inv (mb_clear m)"
  by (simp add: mb_inv_def mb_clear_def)

fun mb_put_all :: "string \<Rightarrow> ('a \<times> int) list \<Rightarrow> 'a mailbox \<Rightarrow> 'a mailbox" where
  "mb_put_all s [] m = m"
| "mb_put_all s ((x, t) # ps) m = mb_put_all s ps (snd (mb_put s x t m))"

lemma mb_put_all_inv: "mb_inv m \<Longrightarrow> mb_inv (mb_put_all s ps m)"
  by (induction s ps m rule: mb_put_all.induct) (auto simp: mb_put_inv)

lemma mb_put_all_pending:
  "mb_inv m \<Longrightarrow> map_of (mb_pending m) s = Some (a, i) \<Longrightarrow>
   map_of (mb_pending (mb_put_all s ps m)) s = Some (a, last (i # map fst ps)) \<and>
   mb_replacement_count (mb_put_all s ps m) = mb_replacement_count m + int (length ps)"
proof (induction s ps m arbitrary: i rule: mb_put_all.induct)
  case (1 s m)
  then show ?case by simp
next
  case (2 s x t ps m)
  have "map_of (mb_pending (snd (mb_put s x t m))) s = Some (a, x)"
    and "mb_replacement_count (snd (mb_put s x t m)) = mb_replacement_count m + 1"
    using "2.prems" by (simp_all add: mb_put_fields dict_simps mb_has_pending_iff)
  with "2.IH"[OF mb_put_inv[OF "2.prems"(1)], of x] show ?case by simp
qed

lemma mb_put_other: "s' \<noteq> s \<Longrightarrow> mb_inv m \<Longrightarrow>
  map_of (mb_pending (snd (mb_put s x t m))) s' = map_of (mb_pending m) s'"
  by (simp add: mb_put_fields dict_simps)

section \<open>Properties of the queues\<close>

fun fifo_enqueue_all :: "'a list \<Rightarrow> 'a fifo \<Rightarrow> 'a fifo" where
  "fifo_enqueue_all [] q = q"
| "fifo_enqueue_all (x # xs) q = fifo_enqueue_all xs (snd (fifo_enqueue x q))"

fun fifo_drain :: "nat \<Rightarrow> 'a fifo \<Rightarrow> 'a list" where
  "fifo_drain 0 q = []"
| "fifo_drain (Suc n) q = (case fifo_dequeue q of (Inl _, _) \<Rightarrow> [] | (Inr (_, x), q') \<Rightarrow> x # fifo_drain n q')"

lemma fifo_enqueue_all_eq: "fifo_enqueue_all xs q = ff.enq_all xs q"
  by (induction xs arbitrary: q) auto

lemma fifo_drain_eq: "fifo_drain n q = ff.deq_all n q"
  by (induction n arbitrary: q) (auto split: prod.splits sum.splits)

text \<open>The bounded FIFO is first in, first out with terminal overflow: whatever is offered to
  a new queue, the first \<open>capacity\<close> items are accepted and come out in the order in which
  they were offered; the rest is refused.\<close>

theorem fifo_first_in_first_out:
  assumes "fifo_new c name = Inr q" and "length xs \<le> n"
  shows "fifo_drain n (fifo_enqueue_all xs q) = take (nat c) xs"
proof -
  have "fifo_inv q" "fifo_view q = []" "ff_capacity q = c"
    using assms(1) by (auto simp: fifo_new_def fifo_inv_def fifo_size_def fifo_view_def split: if_splits)
  then show ?thesis using ff.fifo_order[of q xs n] assms(2) by (simp add: fifo_enqueue_all_eq fifo_drain_eq)
qed

lemma fifo_first_in_first_out_witness:
  "\<exists>q. fifo_new 2 ''q'' = Inr q \<and> fifo_drain 3 (fifo_enqueue_all [''a'', ''b'', ''c''] q) = [''a'', ''b'']"
proof -
  obtain q :: "string fifo" where q: "fifo_new 2 ''q'' = Inr q" by (auto simp: fifo_new_def)
  with fifo_first_in_first_out[OF q, of "[''a'', ''b'', ''c'']" 3] show ?thesis by (simp add: numeral_2_eq_2)
qed

text \<open>The mailbox keeps the latest value with the oldest age: after any number of further
  puts on a stream that was empty, one item is pending, a \<open>take\<close> returns the last item put
  with the age of the first, the stream is empty again, and every put but the first was
  counted as a replacement.\<close>

theorem mailbox_keeps_latest:
  assumes "mb_inv m" and "\<not> mb_has_pending s m"
  shows "case mb_take s now (mb_put_all s ((x, t0) # ps) m) of (r, m') \<Rightarrow>
    r = Some (now - t0, last (x # map fst ps)) \<and> \<not> mb_has_pending s m' \<and> mb_inv m' \<and>
    mb_replacement_count m' = mb_replacement_count m + int (length ps)"
proof -
  let ?m1 = "snd (mb_put s x t0 m)" and ?m2 = "mb_put_all s ((x, t0) # ps) m"
  have n: "map_of (mb_pending m) s = None" using assms(2) by (simp only: mb_has_pending_def not_not)
  then have p1: "map_of (mb_pending ?m1) s = Some (t0, x)"
    and r1: "mb_replacement_count ?m1 = mb_replacement_count m"
    using assms(1) n by (simp_all add: mb_put_fields dict_simps mb_has_pending_iff)
  note a = mb_put_all_pending[OF mb_put_inv[OF assms(1)] p1, of ps]
  have "mb_inv ?m2" by (rule mb_put_all_inv[OF assms(1)])
  with a r1 mb_take_inv[of ?m2 s now] show ?thesis
    by (simp add: mb_take_def mb_has_pending_iff dict_simps)
qed

lemma mailbox_keeps_latest_witness:
  "fst (mb_take ''s'' 9 (mb_put_all ''s'' [(''a'', 1), (''b'', 4)] (mailbox_new ''m''))) = Some (8, ''b'')"
  using mailbox_keeps_latest[OF mailbox_new_inv[of "''m''"], where s = "''s''" and now = 9
      and x = "''a''" and ?t0.0 = 1 and ps = "[(''b'', 4)]"]
  by (simp add: mb_has_pending_def mailbox_new_def split: prod.splits)

end
