(* ===== verification/Sched_Policies.thy ===== *)
theory Sched_Policies
  imports Py_Prelude
begin

text \<open>
  The dispatch order of \<open>sim/scheduler/policies.py\<close>: service-class priority, then
  earliest deadline, then release time, then job id, and the deadline predicates.
\<close>

record priority_class_rec =
  pc_name :: string
  pc_level :: int

record schedule_policy =
  sp_priority_class :: priority_class_rec
  sp_relative_deadline_ps :: int

definition absolute_deadline :: "schedule_policy \<Rightarrow> int \<Rightarrow> int" where
  "absolute_deadline p release_ps = release_ps + sp_relative_deadline_ps p"

type_synonym policy_key_t = "int \<times> int \<times> int \<times> string"

definition policy_key :: "int \<Rightarrow> int \<Rightarrow> int \<Rightarrow> string \<Rightarrow> policy_key_t" where
  "policy_key priority_class_level absolute_deadline_ps release_ps job_id =
     (- priority_class_level, absolute_deadline_ps, release_ps, job_id)"

text \<open>A job's \<open>priority_class\<close> is a \<open>PriorityClass\<close> or a bare level.\<close>

datatype priority_arg = PClass priority_class_rec | PLevel int

fun priority_level :: "priority_arg \<Rightarrow> int" where
  "priority_level (PClass c) = pc_level c"
| "priority_level (PLevel n) = n"

record policy_job =
  pj_priority_class :: priority_arg
  pj_deadline_ps :: int
  pj_release_ps :: int
  pj_job_id :: string

definition job_key :: "policy_job \<Rightarrow> policy_key_t" where
  "job_key j = policy_key (priority_level (pj_priority_class j)) (pj_deadline_ps j)
     (pj_release_ps j) (pj_job_id j)"

definition edf_release_tie_break :: "policy_job list \<Rightarrow> policy_job list" where
  "edf_release_tie_break jobs = sort_key job_key jobs"

definition deadline_missed_at :: "int \<Rightarrow> int \<Rightarrow> bool" where
  "deadline_missed_at now_ps deadline_ps \<longleftrightarrow> now_ps > deadline_ps"

definition feasible_at :: "int \<Rightarrow> int \<Rightarrow> bool" where
  "feasible_at now_ps deadline_ps \<longleftrightarrow> now_ps \<le> deadline_ps"

lemma policy_key_id: "policy_key l d r i = policy_key l' d' r' i' \<Longrightarrow> i = i'"
  by (simp add: policy_key_def)

lemma policy_key_less_iff:
  "policy_key l d r i < policy_key l' d' r' i' \<longleftrightarrow>
     l > l' \<or> l = l' \<and> (d < d' \<or> d = d' \<and> (r < r' \<or> r = r' \<and> i < i'))"
  by (auto simp: policy_key_def)

lemma job_key_id: "job_key a = job_key b \<Longrightarrow> pj_job_id a = pj_job_id b"
  unfolding job_key_def by (rule policy_key_id)

lemma job_key_inj_on:
  "distinct (map pj_job_id jobs) \<Longrightarrow> inj_on job_key (set jobs)"
  by (meson distinct_map inj_on_def job_key_id)

lemma edf_mset: "mset (edf_release_tie_break jobs) = mset jobs"
  by (simp add: edf_release_tie_break_def)

lemma edf_sorted: "sorted (map job_key (edf_release_tie_break jobs))"
  by (simp add: edf_release_tie_break_def)

lemma edf_unique:
  assumes "mset jobs = mset jobs'" and "distinct (map pj_job_id jobs)"
  shows "edf_release_tie_break jobs = edf_release_tie_break jobs'"
proof -
  have "inj_on job_key (set (edf_release_tie_break jobs))"
    using job_key_inj_on[OF assms(2)] by (simp add: edf_release_tie_break_def)
  moreover have "mset (map job_key (edf_release_tie_break jobs))
      = mset (map job_key (edf_release_tie_break jobs'))"
    by (simp only: mset_map edf_mset assms(1))
  then have "map job_key (edf_release_tie_break jobs) = map job_key (edf_release_tie_break jobs')"
    using edf_sorted by (metis properties_for_sort sorted_sort_id)
  moreover have "set (edf_release_tie_break jobs) = set (edf_release_tie_break jobs')"
    using assms(1) edf_mset by (metis set_mset_mset)
  ultimately show ?thesis by (metis Un_absorb map_injective inj_on_map_eq_map)
qed

section \<open>Properties of the order\<close>

text \<open>The dispatch order is deterministic: for jobs with distinct ids it does not depend on
  the order in which they are given, it only reorders them, and no job comes after one of
  lower priority, or after one of the same priority with a later deadline.\<close>

theorem dispatch_order_deterministic:
  assumes "mset jobs = mset jobs'" and "distinct (map pj_job_id jobs)"
  shows "edf_release_tie_break jobs = edf_release_tie_break jobs' \<and>
    mset (edf_release_tie_break jobs) = mset jobs \<and>
    sorted_wrt (\<lambda>a b. priority_level (pj_priority_class b) < priority_level (pj_priority_class a) \<or>
      priority_level (pj_priority_class b) = priority_level (pj_priority_class a) \<and>
      pj_deadline_ps a \<le> pj_deadline_ps b) (edf_release_tie_break jobs)"
proof -
  have "sorted_wrt (\<lambda>a b. job_key a \<le> job_key b) (edf_release_tie_break jobs)"
    using edf_sorted[of jobs] by (simp add: sorted_map)
  then have "sorted_wrt (\<lambda>a b. priority_level (pj_priority_class b) < priority_level (pj_priority_class a) \<or>
      priority_level (pj_priority_class b) = priority_level (pj_priority_class a) \<and>
      pj_deadline_ps a \<le> pj_deadline_ps b) (edf_release_tie_break jobs)"
    by (rule sorted_wrt_mono_rel[rotated]) (auto simp: job_key_def policy_key_def)
  with edf_unique[OF assms] edf_mset show ?thesis by blast
qed

lemma dispatch_order_deterministic_witness:
  "let a = \<lparr>pj_priority_class = PLevel 1, pj_deadline_ps = 9, pj_release_ps = 0, pj_job_id = ''a''\<rparr>;
       b = \<lparr>pj_priority_class = PLevel 2, pj_deadline_ps = 12, pj_release_ps = 0, pj_job_id = ''b''\<rparr>
   in edf_release_tie_break [a, b] = edf_release_tie_break [b, a]"
  unfolding Let_def using dispatch_order_deterministic by (auto simp: add_mset_commute)

end
