(* ===== verification/Sched_Resources.thy ===== *)
theory Sched_Resources
  imports Py_Prelude Py_Float
begin

text \<open>
  The resources of \<open>sim/scheduler/resources.py\<close>: \<open>CapacityResource\<close> (grants what is left of
  a request), \<open>BoundedResource\<close> (all or nothing) and \<open>ByteServer\<close> (shared bandwidth).

  The two unit resources share a contract, the locale \<open>unit_pool\<close>: holdings are positive,
  their sum never exceeds the capacity, a release gives back what it reports. It is
  interpreted on both.
\<close>

section \<open>Holdings: a dict from member to units\<close>

type_synonym holdings = "(string, int) dict"

definition held_sum :: "holdings \<Rightarrow> int" where
  "held_sum d = sum_list (dvalues d)"

definition holdings_ok :: "holdings \<Rightarrow> bool" where
  "holdings_ok d \<longleftrightarrow> dict_ok d \<and> (\<forall>k v. map_of d k = Some v \<longrightarrow> 0 < v)"

lemma held_sum_alt: "held_sum d = sum_list (map (\<lambda>e. id (snd e)) d)"
  by (simp add: held_sum_def)

lemma holdings_ok_values: "holdings_ok d \<Longrightarrow> \<forall>v \<in> set (dvalues d). 0 \<le> id v"
  by (fastforce simp: holdings_ok_def dict_ok_map_of_iff)

lemma held_sum_nonneg: "holdings_ok d \<Longrightarrow> 0 \<le> held_sum d"
  unfolding held_sum_alt by (intro sum_list_nonneg_dict holdings_ok_values)

lemma held_le_sum: "holdings_ok d \<Longrightarrow> dget d k 0 \<le> held_sum d"
proof (cases "map_of d k")
  case None
  assume "holdings_ok d"
  with None show ?thesis by (simp add: dget_def held_sum_nonneg)
next
  case (Some v)
  assume "holdings_ok d"
  with Some show ?thesis
    using member_le_sum_dict[OF holdings_ok_values, of d k v] by (simp add: dget_def held_sum_alt)
qed

lemma held_nonneg: "holdings_ok d \<Longrightarrow> 0 \<le> dget d k 0"
  by (auto simp: dget_def holdings_ok_def split: option.splits intro: less_imp_le)

lemma held_sum_update: "held_sum (AList.update k v d) = held_sum d - dget d k 0 + v"
proof (cases "map_of d k")
  case None
  then show ?thesis
    using sum_update_new[OF None, of id v] by (simp add: held_sum_alt dget_def)
next
  case (Some u)
  then show ?thesis
    using sum_update_old[OF Some, of id v] by (simp add: held_sum_alt dget_def)
qed

lemma held_sum_delete: "dict_ok d \<Longrightarrow> held_sum (AList.delete k d) = held_sum d - dget d k 0"
proof (cases "map_of d k")
  case None
  then have "AList.delete k d = d" by (simp add: dict_in_iff)
  with None show ?thesis by (simp add: dget_def)
next
  case (Some u)
  assume "dict_ok d"
  from sum_delete[OF this Some, of id] Some show ?thesis by (simp add: held_sum_alt dget_def)
qed

lemma holdings_ok_update: "holdings_ok d \<Longrightarrow> 0 < v \<Longrightarrow> holdings_ok (AList.update k v d)"
  by (auto simp: holdings_ok_def dict_simps split: if_splits)

lemma holdings_ok_delete: "holdings_ok d \<Longrightarrow> holdings_ok (AList.delete k d)"
  by (auto simp: holdings_ok_def dict_simps split: if_splits)

text \<open>
  \<open>release\<close> has the same body in both classes. \<open>del d[member_id]\<close> raises \<open>KeyError\<close> for a
  member that holds nothing.
\<close>

definition release_units :: "string \<Rightarrow> int option \<Rightarrow> (holdings, int) op" where
  "release_units member_id units d =
     (let held = dget d member_id 0;
          u = (case units of None \<Rightarrow> held | Some n \<Rightarrow> n)
      in if u \<le> 0 then (Inr 0, d)
         else let released = min u held
              in if released = held
                 then (if din member_id d then (Inr released, AList.delete member_id d)
                       else (Inl (KeyError member_id), d))
                 else (Inr released, AList.update member_id (held - released) d))"

lemma release_units_held:
  assumes "holdings_ok d" and "din m d"
  shows "\<exists>r d'. release_units m u d = (Inr r, d') \<and> holdings_ok d' \<and> 0 \<le> r \<and>
    held_sum d' = held_sum d - r \<and> dget d' m 0 = dget d m 0 - r \<and>
    (\<forall>k. k \<noteq> m \<longrightarrow> dget d' k 0 = dget d k 0)"
  using assms held_nonneg[OF assms(1), of m] holdings_ok_def[of d]
  by (auto simp: release_units_def Let_def held_sum_update held_sum_delete dget_update dget_delete
      holdings_ok_update holdings_ok_delete min_def split: option.splits)

lemma release_units_all:
  assumes "holdings_ok d" and "din m d"
  shows "fst (release_units m None d) = Inr (dget d m 0)"
proof -
  from assms obtain v where "map_of d m = Some v" "0 < v" by (auto simp: holdings_ok_def)
  then show ?thesis by (simp add: release_units_def dget_def)
qed

lemma release_units_absent:
  assumes "holdings_ok d" and "\<not> din m d"
  shows "release_units m u d =
    (case u of None \<Rightarrow> Inr 0 | Some n \<Rightarrow> if n \<le> 0 then Inr 0 else Inl (KeyError m), d)"
  using assms by (auto simp: release_units_def Let_def dget_def split: option.splits)

section \<open>CapacityResource\<close>

record capacity_resource =
  cr_name :: string
  cr_capacity :: int
  cr_allow_partial :: bool
  cr_allocated :: holdings

definition capacity_resource_new :: "string \<Rightarrow> int \<Rightarrow> bool \<Rightarrow> capacity_resource result" where
  "capacity_resource_new name capacity allow_partial =
     (if capacity \<le> 0 then Inl (ResourceError name)
      else Inr \<lparr>cr_name = name, cr_capacity = capacity, cr_allow_partial = allow_partial,
                cr_allocated = []\<rparr>)"

definition cr_used :: "capacity_resource \<Rightarrow> int" where
  "cr_used r = held_sum (cr_allocated r)"

definition cr_available :: "capacity_resource \<Rightarrow> int" where
  "cr_available r = cr_capacity r - cr_used r"

definition cr_allocate :: "string \<Rightarrow> int \<Rightarrow> (capacity_resource, int) op" where
  "cr_allocate member_id units r =
     (if units \<le> 0 then (Inl (ResourceError (cr_name r)), r)
      else let available = cr_available r
           in if available \<le> 0 then (Inr 0, r)
              else let granted = min units available
                   in if granted \<le> 0 then (Inr 0, r)
                      else (Inr granted, r\<lparr>cr_allocated :=
                              AList.update member_id (dget (cr_allocated r) member_id 0 + granted)
                                (cr_allocated r)\<rparr>))"

definition cr_release :: "string \<Rightarrow> int option \<Rightarrow> (capacity_resource, int) op" where
  "cr_release member_id units =
     zoom_op cr_allocated (\<lambda>d r. r\<lparr>cr_allocated := d\<rparr>) (release_units member_id units)"

definition cr_release_all :: "capacity_resource \<Rightarrow> int \<times> capacity_resource" where
  "cr_release_all r = (cr_used r, r\<lparr>cr_allocated := []\<rparr>)"

definition cr_inv :: "capacity_resource \<Rightarrow> bool" where
  "cr_inv r \<longleftrightarrow> 0 < cr_capacity r \<and> holdings_ok (cr_allocated r) \<and> cr_used r \<le> cr_capacity r"

section \<open>BoundedResource\<close>

record bounded_resource =
  br_name :: string
  br_capacity :: int
  br_holders :: holdings

definition bounded_resource_new :: "string \<Rightarrow> int \<Rightarrow> bounded_resource result" where
  "bounded_resource_new name capacity =
     (if capacity \<le> 0 then Inl (ResourceError name)
      else Inr \<lparr>br_name = name, br_capacity = capacity, br_holders = []\<rparr>)"

definition br_used :: "bounded_resource \<Rightarrow> int" where
  "br_used r = held_sum (br_holders r)"

definition br_available :: "bounded_resource \<Rightarrow> int" where
  "br_available r = br_capacity r - br_used r"

definition br_acquire :: "string \<Rightarrow> int \<Rightarrow> (bounded_resource, bool) op" where
  "br_acquire member_id units r =
     (if units \<le> 0 then (Inl (ResourceError (br_name r)), r)
      else if br_available r < units then (Inr False, r)
      else (Inr True, r\<lparr>br_holders :=
              AList.update member_id (dget (br_holders r) member_id 0 + units) (br_holders r)\<rparr>))"

definition br_release :: "string \<Rightarrow> int option \<Rightarrow> (bounded_resource, int) op" where
  "br_release member_id units =
     zoom_op br_holders (\<lambda>d r. r\<lparr>br_holders := d\<rparr>) (release_units member_id units)"

definition br_inv :: "bounded_resource \<Rightarrow> bool" where
  "br_inv r \<longleftrightarrow> 0 < br_capacity r \<and> holdings_ok (br_holders r) \<and> br_used r \<le> br_capacity r"

section \<open>The contract of a pool of units\<close>

text \<open>
  \<open>grant\<close> is what an acquisition of \<open>n\<close> units hands out: everything left at most for a
  \<open>CapacityResource\<close>, all or nothing for a \<open>BoundedResource\<close>.
\<close>

locale unit_pool =
  fixes inv :: "'r \<Rightarrow> bool"
    and cap :: "'r \<Rightarrow> int"
    and holds :: "'r \<Rightarrow> holdings"
    and acquire :: "string \<Rightarrow> int \<Rightarrow> 'r \<Rightarrow> py_error + int \<times> 'r"
    and release :: "string \<Rightarrow> int option \<Rightarrow> ('r, int) op"
  assumes inv_bound: "inv r \<Longrightarrow> holdings_ok (holds r) \<and> held_sum (holds r) \<le> cap r"
    and acquire_grants: "inv r \<Longrightarrow> acquire m n r = Inr (g, r') \<Longrightarrow>
      inv r' \<and> cap r' = cap r \<and> 0 \<le> g \<and> g \<le> n \<and>
      (\<forall>k. dget (holds r') k 0 = dget (holds r) k 0 + (if k = m then g else 0)) \<and>
      held_sum (holds r') = held_sum (holds r) + g"
    and release_gives: "inv r \<Longrightarrow> din m (holds r) \<Longrightarrow>
      \<exists>g r'. release m u r = (Inr g, r') \<and> inv r' \<and> cap r' = cap r \<and> 0 \<le> g \<and>
        (\<forall>k. dget (holds r') k 0 = dget (holds r) k 0 - (if k = m then g else 0)) \<and>
        held_sum (holds r') = held_sum (holds r) - g"
    and release_all: "inv r \<Longrightarrow> din m (holds r) \<Longrightarrow>
      fst (release m None r) = Inr (dget (holds r) m 0)"
begin

lemma acquire_never_exceeds:
  "inv r \<Longrightarrow> acquire m n r = Inr (g, r') \<Longrightarrow> held_sum (holds r') \<le> cap r"
  using acquire_grants inv_bound by metis

text \<open>Acquiring and then releasing everything returns the pool to its earlier load.\<close>

lemma acquire_release:
  assumes "inv r" and "\<not> din m (holds r)" and "acquire m n r = Inr (g, r')" and "din m (holds r')"
  shows "\<exists>r''. release m None r' = (Inr g, r'') \<and> inv r'' \<and>
    held_sum (holds r'') = held_sum (holds r) \<and> (\<forall>k. dget (holds r'') k 0 = dget (holds r) k 0)"
proof -
  note a = acquire_grants[OF assms(1,3)]
  then have "inv r'" by blast
  from release_gives[OF this assms(4), of None] obtain g' r''
    where r: "release m None r' = (Inr g', r'')" "inv r''"
      "\<forall>k. dget (holds r'') k 0 = dget (holds r') k 0 - (if k = m then g' else 0)"
      "held_sum (holds r'') = held_sum (holds r') - g'" by blast
  have "dget (holds r) m 0 = 0" using assms(2) by (simp add: dget_def)
  with a r(1) release_all[OF \<open>inv r'\<close> assms(4)] have "g' = g" by simp
  with r a show ?thesis by auto
qed

end

definition cr_acquire_view :: "string \<Rightarrow> int \<Rightarrow> capacity_resource \<Rightarrow> py_error + int \<times> capacity_resource" where
  "cr_acquire_view m n r = (case cr_allocate m n r of (Inl e, _) \<Rightarrow> Inl e | (Inr g, r') \<Rightarrow> Inr (g, r'))"

definition br_acquire_view :: "string \<Rightarrow> int \<Rightarrow> bounded_resource \<Rightarrow> py_error + int \<times> bounded_resource" where
  "br_acquire_view m n r = (case br_acquire m n r of
     (Inl e, _) \<Rightarrow> Inl e | (Inr b, r') \<Rightarrow> Inr (if b then n else 0, r'))"

lemma cr_grants:
  assumes "cr_inv r" and "cr_acquire_view m n r = Inr (g, r')"
  shows "cr_inv r' \<and> cr_capacity r' = cr_capacity r \<and> 0 \<le> g \<and> g \<le> n \<and>
    (\<forall>k. dget (cr_allocated r') k 0 = dget (cr_allocated r) k 0 + (if k = m then g else 0)) \<and>
    held_sum (cr_allocated r') = held_sum (cr_allocated r) + g"
  using assms held_nonneg[of "cr_allocated r" m]
  by (auto simp: cr_acquire_view_def cr_allocate_def cr_inv_def cr_used_def cr_available_def Let_def
      dget_update held_sum_update split: if_splits intro!: holdings_ok_update)

lemma br_grants:
  assumes "br_inv r" and "br_acquire_view m n r = Inr (g, r')"
  shows "br_inv r' \<and> br_capacity r' = br_capacity r \<and> 0 \<le> g \<and> g \<le> n \<and>
    (\<forall>k. dget (br_holders r') k 0 = dget (br_holders r) k 0 + (if k = m then g else 0)) \<and>
    held_sum (br_holders r') = held_sum (br_holders r) + g"
  using assms held_nonneg[of "br_holders r" m]
  by (auto simp: br_acquire_view_def br_acquire_def br_inv_def br_used_def br_available_def
      dget_update held_sum_update split: if_splits intro!: holdings_ok_update)

interpretation cap: unit_pool cr_inv cr_capacity cr_allocated cr_acquire_view cr_release
proof (unfold_locales, goal_cases)
  case (1 r) then show ?case by (simp add: cr_inv_def cr_used_def)
next
  case (2 r m n g r') then show ?case by (rule cr_grants)
next
  case (3 r m u)
  then have ok: "holdings_ok (cr_allocated r)" by (simp add: cr_inv_def)
  from release_units_held[OF ok 3(2), of u] 3(1) show ?case
    by (auto simp: cr_release_def zoom_op_def cr_inv_def cr_used_def)
next
  case (4 r m)
  then show ?case
    using release_units_all[of "cr_allocated r" m]
    by (auto simp: cr_release_def zoom_op_def cr_inv_def split: prod.splits)
qed

interpretation bnd: unit_pool br_inv br_capacity br_holders br_acquire_view br_release
proof (unfold_locales, goal_cases)
  case (1 r) then show ?case by (simp add: br_inv_def br_used_def)
next
  case (2 r m n g r') then show ?case by (rule br_grants)
next
  case (3 r m u)
  then have ok: "holdings_ok (br_holders r)" by (simp add: br_inv_def)
  from release_units_held[OF ok 3(2), of u] 3(1) show ?case
    by (auto simp: br_release_def zoom_op_def br_inv_def br_used_def)
next
  case (4 r m)
  then show ?case
    using release_units_all[of "br_holders r" m]
    by (auto simp: br_release_def zoom_op_def br_inv_def split: prod.splits)
qed

section \<open>ByteServer\<close>

text \<open>
  The bandwidth is a float (bytes per picosecond); the durations are computed in floats
  and rounded up. A member is a dict with \<open>bytes_remaining\<close>, \<open>priority\<close> and, after the
  first recomputation, \<open>completion_ps\<close>.
\<close>

datatype qos = Equal_Share | Strict_Priority

record member =
  bm_bytes_remaining :: int
  bm_priority :: int
  bm_completion_ps :: "int option"

record byte_server =
  bs_name :: string
  bs_bandwidth :: rat
  bs_qos_mode :: qos
  bs_members :: "(string, member) dict"

fun qos_of_string :: "string \<Rightarrow> qos option" where
  "qos_of_string s =
     (if s = ''equal_share'' then Some Equal_Share
      else if s = ''strict_priority'' then Some Strict_Priority else None)"

definition byte_server_new :: "string \<Rightarrow> rat \<Rightarrow> string \<Rightarrow> byte_server result" where
  "byte_server_new name bandwidth qos_mode =
     (if bandwidth \<le> 0 then Inl (ResourceError name)
      else case qos_of_string qos_mode of
             None \<Rightarrow> Inl (ConfigError (name @ ''.qos_mode''))
           | Some m \<Rightarrow> Inr \<lparr>bs_name = name, bs_bandwidth = bandwidth, bs_qos_mode = m, bs_members = []\<rparr>)"

definition bs_total_bytes_remaining :: "byte_server \<Rightarrow> int" where
  "bs_total_bytes_remaining b = sum_list (map (\<lambda>e. bm_bytes_remaining (snd e)) (bs_members b))"

definition transfer_ps :: "int \<Rightarrow> rat \<Rightarrow> int" where
  "transfer_ps remaining rate =
     (if remaining > 0 then \<lceil>fdiv (int_to_float remaining) rate\<rceil> else 0)"

definition set_completion :: "string \<Rightarrow> int \<Rightarrow> (string, member) dict \<Rightarrow> (string, member) dict" where
  "set_completion k t ms = map (\<lambda>(k', m). (k', if k' = k then m\<lparr>bm_completion_ps := Some t\<rparr> else m)) ms"

definition member_bytes :: "(string, member) dict \<Rightarrow> string \<Rightarrow> int" where
  "member_bytes ms k = (case map_of ms k of None \<Rightarrow> 0 | Some m \<Rightarrow> bm_bytes_remaining m)"

definition member_prio :: "(string, member) dict \<Rightarrow> string \<Rightarrow> int" where
  "member_prio ms k = (case map_of ms k of None \<Rightarrow> 0 | Some m \<Rightarrow> bm_priority m)"

fun equal_share_loop :: "rat \<Rightarrow> int \<Rightarrow> string list \<Rightarrow> (string, member) dict \<Rightarrow> (string, member) dict" where
  "equal_share_loop share start [] ms = ms"
| "equal_share_loop share start (k # ks) ms =
     equal_share_loop share start ks
       (set_completion k (start + transfer_ps (member_bytes ms k) share) ms)"

fun strict_loop :: "rat \<Rightarrow> int \<Rightarrow> string list \<Rightarrow> (string, member) dict \<Rightarrow> (string, member) dict" where
  "strict_loop bw start [] ms = ms"
| "strict_loop bw start (k # ks) ms =
     (let t = start + transfer_ps (member_bytes ms k) bw
      in strict_loop bw t ks (set_completion k t ms))"

definition strict_order :: "(string, member) dict \<Rightarrow> string list" where
  "strict_order ms = sort_key (\<lambda>k. (- member_prio ms k, k)) (dkeys ms)"

definition bs_recompute :: "int \<Rightarrow> (byte_server, unit) op" where
  "bs_recompute now_ps b =
     (if bs_members b = [] then (Inr (), b)
      else case bs_qos_mode b of
        Equal_Share \<Rightarrow>
          (let share = fdiv (bs_bandwidth b) (int_to_float (int (length (bs_members b))))
           in if share \<le> 0 then (Inl (ResourceError (bs_name b)), b)
              else (Inr (), b\<lparr>bs_members :=
                     equal_share_loop share now_ps (sort (dkeys (bs_members b))) (bs_members b)\<rparr>))
      | Strict_Priority \<Rightarrow>
          (Inr (), b\<lparr>bs_members :=
             strict_loop (bs_bandwidth b) now_ps (strict_order (bs_members b)) (bs_members b)\<rparr>))"

definition bs_completion_time :: "string \<Rightarrow> byte_server \<Rightarrow> int result" where
  "bs_completion_time member_id b =
     (case map_of (bs_members b) member_id of
        None \<Rightarrow> Inl (ResourceError (bs_name b))
      | Some m \<Rightarrow> (case bm_completion_ps m of
            None \<Rightarrow> Inl (KeyError ''completion_ps'') | Some t \<Rightarrow> Inr t))"

definition bs_add_member :: "string \<Rightarrow> int \<Rightarrow> int \<Rightarrow> int \<Rightarrow> (byte_server, int) op" where
  "bs_add_member member_id bytes_requested priority now_ps b =
     (if bytes_requested < 0 then (Inl (ResourceError (bs_name b)), b)
      else bind_op (bs_recompute now_ps) (\<lambda>_ b'. (bs_completion_time member_id b', b'))
        (b\<lparr>bs_members := AList.update member_id
            \<lparr>bm_bytes_remaining = bytes_requested, bm_priority = priority, bm_completion_ps = None\<rparr>
            (bs_members b)\<rparr>))"

definition bs_remove_member :: "string \<Rightarrow> int \<Rightarrow> (byte_server, unit) op" where
  "bs_remove_member member_id now_ps b =
     (if din member_id (bs_members b)
      then bs_recompute now_ps (b\<lparr>bs_members := AList.delete member_id (bs_members b)\<rparr>)
      else (Inr (), b))"

definition bs_update_bytes :: "string \<Rightarrow> int \<Rightarrow> int \<Rightarrow> (byte_server, int) op" where
  "bs_update_bytes member_id bytes_remaining now_ps b =
     (case map_of (bs_members b) member_id of
        None \<Rightarrow> (Inl (ResourceError (bs_name b)), b)
      | Some m \<Rightarrow>
          (if bytes_remaining < 0 then (Inl (ResourceError (bs_name b)), b)
           else bind_op (bs_recompute now_ps) (\<lambda>_ b'. (bs_completion_time member_id b', b'))
             (b\<lparr>bs_members := AList.update member_id (m\<lparr>bm_bytes_remaining := bytes_remaining\<rparr>)
                 (bs_members b)\<rparr>)))"

definition bs_clear :: "byte_server \<Rightarrow> byte_server" where
  "bs_clear b = b\<lparr>bs_members := []\<rparr>"

definition bs_inv :: "byte_server \<Rightarrow> bool" where
  "bs_inv b \<longleftrightarrow> 0 < bs_bandwidth b \<and> dict_ok (bs_members b) \<and>
     (\<forall>k. 0 \<le> member_bytes (bs_members b) k)"

subsection \<open>The completion times the loops assign\<close>

lemma map_of_set_completion:
  "map_of (set_completion k t ms) k' =
     (if k' = k then map_option (bm_completion_ps_update (\<lambda>_. Some t)) (map_of ms k)
      else map_of ms k')"
  by (induction ms) (auto simp: set_completion_def)

lemma dkeys_set_completion [simp]: "dkeys (set_completion k t ms) = dkeys ms"
  by (simp add: set_completion_def case_prod_beta comp_def)

lemma member_bytes_set_completion [simp]: "member_bytes (set_completion k t ms) = member_bytes ms"
  by (rule ext) (simp add: member_bytes_def map_of_set_completion split: option.splits)

lemma member_prio_set_completion [simp]: "member_prio (set_completion k t ms) = member_prio ms"
  by (rule ext) (simp add: member_prio_def map_of_set_completion split: option.splits)

lemma equal_share_loop_dkeys [simp]: "dkeys (equal_share_loop s n ks ms) = dkeys ms"
  by (induction s n ks ms rule: equal_share_loop.induct) auto

lemma strict_loop_dkeys [simp]: "dkeys (strict_loop s n ks ms) = dkeys ms"
  by (induction s n ks ms rule: strict_loop.induct) (auto simp: Let_def)

definition completion_of :: "(string, member) dict \<Rightarrow> string \<Rightarrow> int option" where
  "completion_of ms k = Option.bind (map_of ms k) bm_completion_ps"

lemma completion_set_completion:
  "completion_of (set_completion k t ms) k' =
     (if k' = k \<and> din k ms then Some t else completion_of ms k')"
  by (auto simp: completion_of_def map_of_set_completion)

lemma din_set_completion [simp]: "map_of (set_completion k t ms) k' = None \<longleftrightarrow> map_of ms k' = None"
  by (simp add: map_of_set_completion)

lemma equal_share_loop_other:
  "k \<notin> set ks \<Longrightarrow> completion_of (equal_share_loop s n ks ms) k = completion_of ms k"
  by (induction s n ks ms rule: equal_share_loop.induct) (auto simp: completion_set_completion)

lemma equal_share_loop_completion:
  "distinct ks \<Longrightarrow> k \<in> set ks \<Longrightarrow> din k ms \<Longrightarrow>
   completion_of (equal_share_loop s n ks ms) k = Some (n + transfer_ps (member_bytes ms k) s)"
  by (induction s n ks ms rule: equal_share_loop.induct)
     (auto simp: equal_share_loop_other completion_set_completion)

lemma strict_loop_other:
  "k \<notin> set ks \<Longrightarrow> completion_of (strict_loop s n ks ms) k = completion_of ms k"
  by (induction s n ks ms rule: strict_loop.induct) (auto simp: completion_set_completion Let_def)

text \<open>
  Under strict priority a member completes after the transfers of everyone served before
  it and its own: the prefix sum of the durations along the service order.
\<close>

lemma strict_loop_completion:
  "distinct (pre @ k # post) \<Longrightarrow> din k ms \<Longrightarrow>
   completion_of (strict_loop bw n (pre @ k # post) ms) k =
     Some (n + sum_list (map (\<lambda>x. transfer_ps (member_bytes ms x) bw) (pre @ [k])))"
proof (induction pre arbitrary: n ms)
  case Nil
  then show ?case by (simp add: Let_def strict_loop_other completion_set_completion)
next
  case (Cons x pre)
  let ?t = "n + transfer_ps (member_bytes ms x) bw"
  have "distinct (pre @ k # post)" "din k (set_completion x ?t ms)"
    using Cons.prems by simp_all
  from Cons.IH[OF this, of ?t] show ?case by (simp add: Let_def add.assoc)
qed

lemma transfer_ps_nonneg: "0 < rate \<Longrightarrow> 0 \<le> transfer_ps r rate"
proof -
  assume "0 < rate"
  then have "0 < r \<Longrightarrow> 0 \<le> fdiv (int_to_float r) rate"
    unfolding fdiv_def int_to_float_def
    by (intro fl_nonneg divide_nonneg_nonneg) auto
  then show ?thesis
    by (auto simp: transfer_ps_def zero_le_ceiling intro: less_le_trans[of "-1" 0])
qed

lemma transfer_ps_antimono: "0 < a \<Longrightarrow> a \<le> b \<Longrightarrow> transfer_ps r b \<le> transfer_ps r a"
proof -
  assume ab: "0 < a" "a \<le> b"
  have "fdiv (int_to_float r) b \<le> fdiv (int_to_float r) a" if "0 < r"
  proof -
    have "0 \<le> int_to_float r" using that by (simp add: int_to_float_def fl_nonneg)
    with ab show ?thesis unfolding fdiv_def by (intro fl_mono divide_left_mono) auto
  qed
  then show ?thesis by (auto simp: transfer_ps_def intro: ceiling_mono)
qed

subsection \<open>What a recomputation guarantees\<close>

lemma sort_key_prefix:
  fixes f :: "'b \<Rightarrow> 'k::linorder"
  assumes "inj_on f (set xs)" and "distinct xs" and "k \<in> set xs"
  obtains pre post where "sort_key f xs = pre @ k # post"
    and "set (pre @ [k]) = {x \<in> set xs. f x \<le> f k}" and "distinct (pre @ k # post)"
proof -
  from assms(3) obtain pre post where s: "sort_key f xs = pre @ k # post"
    by (metis set_sort split_list)
  have d: "distinct (pre @ k # post)" using assms(2) by (metis s distinct_sort)
  have sorted: "sorted (map f (pre @ k # post))" by (metis s sorted_sort_key)
  have sub: "set (pre @ k # post) = set xs" by (metis s set_sort)
  have "x \<in> set (pre @ [k]) \<longleftrightarrow> f x \<le> f k" if "x \<in> set xs" for x
  proof
    assume "x \<in> set (pre @ [k])"
    then show "f x \<le> f k" using sorted by (auto simp: sorted_append)
  next
    assume le: "f x \<le> f k"
    show "x \<in> set (pre @ [k])"
    proof (rule ccontr)
      assume "x \<notin> set (pre @ [k])"
      with that sub have post: "x \<in> set post" by auto
      then have "f k \<le> f x" using sorted by (auto simp: sorted_append)
      with le have "f x = f k" by simp
      with assms(1) that assms(3) have "x = k" by (auto dest: inj_onD)
      with post d show False by auto
    qed
  qed
  with sub have "set (pre @ [k]) = {x \<in> set xs. f x \<le> f k}" by auto
  with s d show thesis by (intro that)
qed

definition served_before :: "(string, member) dict \<Rightarrow> string \<Rightarrow> string set" where
  \<comment> \<open>the members a strict-priority server serves no later than \<open>k\<close>\<close>
  "served_before ms k =
     {x. din x ms \<and> (member_prio ms k < member_prio ms x \<or>
        (member_prio ms x = member_prio ms k \<and> x \<le> k))}"

lemma strict_completion:
  assumes "dict_ok ms" and "din k ms"
  shows "completion_of (strict_loop bw n (strict_order ms) ms) k =
    Some (n + (\<Sum>x \<in> served_before ms k. transfer_ps (member_bytes ms x) bw))"
proof -
  let ?f = "\<lambda>k. (- member_prio ms k, k)"
  have inj: "inj_on ?f (set (dkeys ms))" by (auto intro: inj_onI)
  have d: "distinct (dkeys ms)" using assms(1) by (simp add: dict_ok_def)
  have k: "k \<in> set (dkeys ms)" using assms(2) by (simp add: dict_in_iff)
  obtain pre post where p: "sort_key ?f (dkeys ms) = pre @ k # post"
    and s: "set (pre @ [k]) = {x \<in> set (dkeys ms). ?f x \<le> ?f k}" and dp: "distinct (pre @ k # post)"
    using sort_key_prefix[OF inj d k] .
  have "set (pre @ [k]) = served_before ms k"
    unfolding s served_before_def by (auto simp: dict_in_iff)
  moreover have "distinct (pre @ [k])" using dp by simp
  ultimately have "sum_list (map (\<lambda>x. transfer_ps (member_bytes ms x) bw) (pre @ [k]))
      = (\<Sum>x \<in> served_before ms k. transfer_ps (member_bytes ms x) bw)"
    by (metis sum_list_distinct_conv_sum_set)
  with strict_loop_completion[OF dp assms(2)] show ?thesis
    by (simp add: strict_order_def p)
qed

lemma equal_share_completion:
  assumes "dict_ok ms" and "din k ms"
  shows "completion_of (equal_share_loop s n (sort (dkeys ms)) ms) k =
    Some (n + transfer_ps (member_bytes ms k) s)"
  using assms by (intro equal_share_loop_completion) (simp_all add: dict_ok_def dict_in_iff)

lemma bs_completion_time_eq:
  "completion_of (bs_members b) k = Some t \<Longrightarrow> bs_completion_time k b = Inr t"
  by (auto simp: completion_of_def bs_completion_time_def bind_eq_Some_conv)

lemma served_before_update_low:
  assumes "p < member_prio ms k'" and "k' \<noteq> k" and "\<not> din k ms"
    and "ms' = AList.update k \<lparr>bm_bytes_remaining = n, bm_priority = p, bm_completion_ps = c\<rparr> ms"
  shows "served_before ms' k' = served_before ms k'"
proof -
  have mo: "map_of ms' x = (if x = k then Some \<lparr>bm_bytes_remaining = n, bm_priority = p,
      bm_completion_ps = c\<rparr> else map_of ms x)" for x
    by (simp add: assms(4) dict_simps)
  then have pr: "member_prio ms' x = (if x = k then p else member_prio ms x)" for x
    by (simp add: member_prio_def)
  show ?thesis
    using assms(1-3) by (auto simp: served_before_def pr mo)
qed

lemma served_before_absent: "\<not> din k ms \<Longrightarrow> k \<notin> served_before ms k'"
  by (simp add: served_before_def)

text \<open>Adding a member under strict priority: the completion time returned.\<close>

lemma bs_add_member_strict:
  assumes "bs_inv b" and "bs_qos_mode b = Strict_Priority" and "0 \<le> n"
    and ms: "ms = AList.update k \<lparr>bm_bytes_remaining = n, bm_priority = p, bm_completion_ps = None\<rparr> (bs_members b)"
  shows "bs_add_member k n p now b =
    (Inr (now + (\<Sum>x \<in> served_before ms k. transfer_ps (member_bytes ms x) (bs_bandwidth b))),
     b\<lparr>bs_members := strict_loop (bs_bandwidth b) now (strict_order ms) ms\<rparr>)"
proof -
  have ok: "dict_ok ms" "din k ms" using assms(1) by (simp_all add: ms bs_inv_def dict_simps)
  have "ms \<noteq> []" by (simp add: ms)
  with strict_completion[OF ok] assms(2,3) show ?thesis
    by (simp add: bs_add_member_def bind_op_def bs_recompute_def bs_completion_time_eq flip: ms)
qed

lemma bs_recompute_strict:
  assumes "bs_inv b" and "bs_qos_mode b = Strict_Priority" and "din k (bs_members b)"
  shows "completion_of (bs_members (snd (bs_recompute now b))) k =
    Some (now + (\<Sum>x \<in> served_before (bs_members b) k.
      transfer_ps (member_bytes (bs_members b) x) (bs_bandwidth b)))"
proof -
  have "bs_members b \<noteq> []" using assms(3) by auto
  with assms strict_completion[of "bs_members b" k] show ?thesis
    by (simp add: bs_recompute_def bs_inv_def)
qed

lemma bs_recompute_equal:
  assumes "bs_inv b" and "bs_qos_mode b = Equal_Share" and "din k (bs_members b)"
    and "bs_recompute now b = (Inr (), b')"
  shows "completion_of (bs_members b') k = Some (now + transfer_ps (member_bytes (bs_members b) k)
      (fdiv (bs_bandwidth b) (int_to_float (int (length (bs_members b)))))) \<and>
    0 < fdiv (bs_bandwidth b) (int_to_float (int (length (bs_members b))))"
proof -
  have "bs_members b \<noteq> []" using assms(3) by auto
  with assms equal_share_completion[of "bs_members b" k] show ?thesis
    by (auto simp: bs_recompute_def bs_inv_def Let_def split: if_splits)
qed

lemma member_bytes_loops [simp]:
  "member_bytes (equal_share_loop s n ks ms) = member_bytes ms"
  by (induction s n ks ms rule: equal_share_loop.induct) simp_all

lemma member_bytes_strict_loop [simp]: "member_bytes (strict_loop s n ks ms) = member_bytes ms"
  by (induction s n ks ms rule: strict_loop.induct) (simp_all add: Let_def)

lemma member_bytes_update:
  "member_bytes (AList.update k m ms) x = (if x = k then bm_bytes_remaining m else member_bytes ms x)"
  by (simp add: member_bytes_def dict_simps)

lemma member_bytes_delete:
  "member_bytes (AList.delete k ms) x = (if x = k then 0 else member_bytes ms x)"
  by (simp add: member_bytes_def dict_simps)

lemma bs_recompute_inv: "bs_inv b \<Longrightarrow> bs_inv (snd (bs_recompute now b))"
  by (auto simp: bs_inv_def dict_ok_def bs_recompute_def Let_def split: qos.splits)

lemma bs_recompute_op_inv:
  "bs_inv b \<Longrightarrow> bs_inv (snd (bind_op (bs_recompute now) (\<lambda>_ b'. (f b', b')) b))"
  using bs_recompute_inv[of b now] by (auto simp: bind_op_def split: sum.splits prod.splits)

lemma bs_add_member_inv: "bs_inv b \<Longrightarrow> bs_inv (snd (bs_add_member k n p now b))"
  by (simp add: bs_add_member_def, intro impI bs_recompute_op_inv)
     (simp add: bs_inv_def member_bytes_update)

lemma bs_update_bytes_inv: "bs_inv b \<Longrightarrow> bs_inv (snd (bs_update_bytes k n now b))"
  by (auto simp: bs_update_bytes_def split: option.splits intro!: bs_recompute_op_inv)
     (simp add: bs_inv_def member_bytes_update)

lemma bs_remove_member_inv: "bs_inv b \<Longrightarrow> bs_inv (snd (bs_remove_member k now b))"
  by (auto simp: bs_remove_member_def intro!: bs_recompute_inv)
     (simp add: bs_inv_def member_bytes_delete)

subsection \<open>Properties\<close>

text \<open>C10. Strict priority isolates: admitting a new member of strictly lower priority leaves
  the completion time of a member already served unchanged (compared with a recomputation
  at the same time without the newcomer).\<close>

theorem byte_server_isolation:
  assumes "bs_inv b" and "bs_qos_mode b = Strict_Priority" and "0 \<le> n"
    and "\<not> din k (bs_members b)" and "din k' (bs_members b)"
    and "p < member_prio (bs_members b) k'"
  shows "completion_of (bs_members (snd (bs_add_member k n p now b))) k' =
    completion_of (bs_members (snd (bs_recompute now b))) k'"
proof -
  define ms where "ms = AList.update k
    \<lparr>bm_bytes_remaining = n, bm_priority = p, bm_completion_ps = None\<rparr> (bs_members b)"
  have ok: "dict_ok ms" "din k' ms" using assms(1,5) by (simp_all add: ms_def bs_inv_def dict_simps)
  have ne: "k' \<noteq> k" using assms(4,5) by auto
  have sb: "served_before ms k' = served_before (bs_members b) k'"
    using assms(4,6) ne by (intro served_before_update_low[OF _ _ _ ms_def])
  have "transfer_ps (member_bytes ms x) (bs_bandwidth b)
      = transfer_ps (member_bytes (bs_members b) x) (bs_bandwidth b)"
    if "x \<in> served_before (bs_members b) k'" for x
    using that served_before_absent[OF assms(4)] by (auto simp: ms_def member_bytes_def dict_simps)
  then have "completion_of (bs_members (snd (bs_add_member k n p now b))) k' =
    Some (now + (\<Sum>x \<in> served_before (bs_members b) k'.
      transfer_ps (member_bytes (bs_members b) x) (bs_bandwidth b)))"
    by (simp add: bs_add_member_strict[OF assms(1-3) ms_def] strict_completion[OF ok] sb)
  with bs_recompute_strict[OF assms(1,2,5)] show ?thesis by simp
qed

definition sample_server :: "qos \<Rightarrow> byte_server" where
  "sample_server mode = \<lparr>bs_name = ''dram'', bs_bandwidth = 1/2, bs_qos_mode = mode,
     bs_members = [(''hi'', \<lparr>bm_bytes_remaining = 100, bm_priority = 5, bm_completion_ps = None\<rparr>)]\<rparr>"

lemma sample_server_inv: "bs_inv (sample_server mode)"
  by (simp add: sample_server_def bs_inv_def member_bytes_def)

lemma byte_server_isolation_witness:
  "completion_of (bs_members (snd (bs_add_member ''lo'' 50 0 7 (sample_server Strict_Priority)))) ''hi'' =
   completion_of (bs_members (snd (bs_recompute 7 (sample_server Strict_Priority)))) ''hi''"
  by (rule byte_server_isolation[OF sample_server_inv]) (simp_all add: sample_server_def member_prio_def)

text \<open>Under equal sharing a newcomer never makes another member finish earlier.\<close>

theorem byte_server_equal_share_monotone:
  assumes "bs_inv b" and "bs_qos_mode b = Equal_Share"
    and "\<not> din k (bs_members b)" and "din k' (bs_members b)"
    and "bs_recompute now b = (Inr (), b1)" and "bs_add_member k n p now b = (Inr t, b2)"
    and "completion_of (bs_members b1) k' = Some t1" and "completion_of (bs_members b2) k' = Some t2"
  shows "t1 \<le> t2"
proof -
  define ms where "ms = AList.update k
    \<lparr>bm_bytes_remaining = n, bm_priority = p, bm_completion_ps = None\<rparr> (bs_members b)"
  let ?b = "b\<lparr>bs_members := ms\<rparr>"
  let ?old = "fdiv (bs_bandwidth b) (int_to_float (int (length (bs_members b))))"
  let ?new = "fdiv (bs_bandwidth b) (int_to_float (int (length ms)))"
  have n: "0 \<le> n" and rec: "bs_recompute now ?b = (Inr (), b2)"
    using assms(6) by (auto simp: bs_add_member_def bind_op_def ms_def split: if_splits sum.splits prod.splits)
  have inv: "bs_inv ?b" and ne: "k' \<noteq> k"
    using assms(1,3,4) n by (auto simp: bs_inv_def ms_def member_bytes_update)
  have bytes: "member_bytes ms k' = member_bytes (bs_members b) k'" and din: "din k' ms"
    using assms(4) ne by (simp_all add: ms_def member_bytes_def dict_simps)
  have len: "length ms = Suc (length (bs_members b))"
    using assms(3) by (metis length_map dkeys_update dict_in_iff length_append_singleton list.set_map ms_def)
  have pos: "1 \<le> int_to_float (int (length (bs_members b)))"
    using assms(4) fl_mono[of 1 "of_nat (length (bs_members b))"]
    by (cases "bs_members b") (auto simp: int_to_float_def)
  have "int_to_float (int (length (bs_members b))) \<le> int_to_float (int (length ms))"
    unfolding int_to_float_def len by (intro fl_mono) simp
  then have "?new \<le> ?old"
    using pos assms(1) unfolding fdiv_def bs_inv_def
    by (intro fl_mono divide_left_mono) auto
  moreover have "t1 = now + transfer_ps (member_bytes (bs_members b) k') ?old"
    using bs_recompute_equal[OF assms(1,2,4,5)] assms(7) by simp
  moreover have "t2 = now + transfer_ps (member_bytes (bs_members b) k') ?new \<and> 0 < ?new"
    using bs_recompute_equal[OF inv _ _ rec, of k'] assms(2,8) din bytes by simp
  ultimately show ?thesis using transfer_ps_antimono by auto
qed

lemma byte_server_equal_share_monotone_witness:
  "\<exists>t1 t2. completion_of (bs_members (snd (bs_recompute 0 (sample_server Equal_Share)))) ''hi'' = Some t1 \<and>
     completion_of (bs_members (snd (bs_add_member ''lo'' 50 0 0 (sample_server Equal_Share)))) ''hi'' = Some t2 \<and>
     t1 \<le> t2"
proof -
  let ?b = "sample_server Equal_Share"
  have 1: "fst (bs_recompute 0 ?b) = Inr ()" "completion_of (bs_members (snd (bs_recompute 0 ?b))) ''hi'' = Some 200"
    by code_simp+
  have 2: "fst (bs_add_member ''lo'' 50 0 0 ?b) = Inr 200"
    "completion_of (bs_members (snd (bs_add_member ''lo'' 50 0 0 ?b))) ''hi'' = Some 400"
    by code_simp+
  have "(200::int) \<le> 400"
  proof (rule byte_server_equal_share_monotone[OF sample_server_inv])
    show "bs_recompute 0 ?b = (Inr (), snd (bs_recompute 0 ?b))" using 1(1) by (metis prod.collapse)
    show "bs_add_member ''lo'' 50 0 0 ?b = (Inr 200, snd (bs_add_member ''lo'' 50 0 0 ?b))"
      using 2(1) by (metis prod.collapse)
  qed (use 1(2) 2(2) in \<open>simp_all add: sample_server_def\<close>)
  with 1(2) 2(2) show ?thesis by blast
qed

text \<open>A capacity resource never hands out more than it has: whatever sequence of
  allocations and releases runs, the invariant holds in between, the units in use equal
  the units granted minus the units given back, and a grant is between 0 and the request.\<close>

theorem capacity_allocate_safe:
  assumes "cr_inv r" and "0 < n"
  shows "\<exists>g r'. cr_allocate m n r = (Inr g, r') \<and> cr_inv r' \<and> cr_used r' = cr_used r + g \<and>
    g = max 0 (min n (cr_available r)) \<and> cr_used r' \<le> cr_capacity r"
proof -
  have "cr_acquire_view m n r = Inr (max 0 (min n (cr_available r)), snd (cr_allocate m n r))"
    and a: "cr_allocate m n r = (Inr (max 0 (min n (cr_available r))), snd (cr_allocate m n r))"
    using assms(2) by (auto simp: cr_acquire_view_def cr_allocate_def Let_def)
  from cap.acquire_grants[OF assms(1) this(1)] cap.acquire_never_exceeds[OF assms(1) this(1)] a
  show ?thesis by (auto simp: cr_used_def)
qed

theorem capacity_allocate_safe_witness:
  "\<exists>g r'. cr_allocate ''b'' 5 \<lparr>cr_name = ''c'', cr_capacity = 4, cr_allow_partial = False,
      cr_allocated = [(''a'', 3)]\<rparr> = (Inr g, r') \<and> g = 1 \<and> cr_used r' = 4"
proof -
  let ?r = "\<lparr>cr_name = ''c'', cr_capacity = 4, cr_allow_partial = False, cr_allocated = [(''a'', 3)]\<rparr>"
  have "cr_inv ?r" by (simp add: cr_inv_def cr_used_def held_sum_def holdings_ok_def)
  from capacity_allocate_safe[OF this, of 5 "''b''"] show ?thesis
    by (auto simp: cr_used_def cr_available_def held_sum_def)
qed

end
