(* ===== verification/Sched_Admission.thy ===== *)
theory Sched_Admission
  imports Py_Prelude Py_Float
begin

text \<open>
  Admission control, \<open>sim/scheduler/admission.py\<close>: \<open>check\<close> tests four independent
  dimensions, \<open>admit\<close> records a reservation, \<open>release\<close> takes it back. The bandwidth
  fractions are floats; memory and counts are integers. A set of resource names is a list
  (only membership in it is used).
\<close>

record admission_info =
  ai_memory_bytes :: int
  ai_bandwidth_fraction :: rat
  ai_priority :: int
  ai_exclusive_resources :: "string list"

record admission_result =
  ar_admitted :: bool
  ar_reason :: string
  ar_checks :: "(string, bool) dict"

record admission =
  ad_memory_available :: int
  ad_max_inflight :: int
  ad_max_bandwidth :: rat
  ad_memory_used :: int
  ad_inflight :: "(string, admission_info) dict"
  ad_bandwidth_used :: rat

definition admission_new :: "int \<Rightarrow> int \<Rightarrow> rat \<Rightarrow> admission result" where
  "admission_new memory_available max_inflight max_bandwidth =
     (if memory_available < 0 then Inl (ValueError ''memory_available_bytes'')
      else if max_inflight \<le> 0 then Inl (ValueError ''max_inflight_jobs'')
      else if \<not> (0 < max_bandwidth \<and> max_bandwidth \<le> 1) then Inl (ValueError ''max_bandwidth_fraction'')
      else Inr \<lparr>ad_memory_available = memory_available, ad_max_inflight = max_inflight,
                ad_max_bandwidth = max_bandwidth, ad_memory_used = 0, ad_inflight = [],
                ad_bandwidth_used = 0\<rparr>)"

definition memory_free :: "admission \<Rightarrow> int" where
  "memory_free a = ad_memory_available a - ad_memory_used a"

definition inflight_count :: "admission \<Rightarrow> int" where
  "inflight_count a = int (length (ad_inflight a))"

definition is_admitted :: "string \<Rightarrow> admission \<Rightarrow> bool" where
  "is_admitted job_id a \<longleftrightarrow> din job_id (ad_inflight a)"

text \<open>The literal \<open>1e-12\<close>.\<close>

definition bw_slack :: rat where
  "bw_slack = fl (1 / 10 ^ 12)"

text \<open>\<open>', '.join(failed)\<close>\<close>

fun join_comma :: "string list \<Rightarrow> string" where
  "join_comma [] = ''''"
| "join_comma [s] = s"
| "join_comma (s # t # ss) = s @ '', '' @ join_comma (t # ss)"

definition blocking :: "int \<Rightarrow> string list \<Rightarrow> (string, int) dict \<Rightarrow> bool" where
  \<comment> \<open>a required resource held at a strictly lower priority; an absent holder counts as \<open>inf\<close>\<close>
  "blocking priority exclusive holders \<longleftrightarrow>
     list_ex (\<lambda>res. case map_of holders res of None \<Rightarrow> False | Some p \<Rightarrow> p < priority) exclusive"

definition check :: "string \<Rightarrow> int \<Rightarrow> rat \<Rightarrow> int \<Rightarrow> string list \<Rightarrow> (string, int) dict \<Rightarrow> admission \<Rightarrow> admission_result" where
  "check job_id memory_bytes bandwidth_fraction priority exclusive holders a =
     (let memory_ok = memory_free a \<ge> memory_bytes;
          inflight_ok = inflight_count a < ad_max_inflight a;
          bw_ok = fadd (ad_bandwidth_used a) bandwidth_fraction \<le> fadd (ad_max_bandwidth a) bw_slack;
          blocking_ok = \<not> blocking priority exclusive holders;
          checks = [(''memory'', memory_ok), (''inflight'', inflight_ok), (''bandwidth'', bw_ok),
                    (''lower_priority_blocking'', blocking_ok)];
          admitted = list_all snd checks;
          failed = map fst (filter (\<lambda>c. \<not> snd c) checks);
          reason = (if admitted then ''''
                    else ''admission rejected for '' @ job_id @ '': '' @ join_comma failed)
      in \<lparr>ar_admitted = admitted, ar_reason = reason, ar_checks = checks\<rparr>)"

definition admit :: "string \<Rightarrow> int \<Rightarrow> rat \<Rightarrow> int \<Rightarrow> string list \<Rightarrow> (string, int) dict \<Rightarrow> admission \<Rightarrow> admission_result \<times> admission" where
  "admit job_id memory_bytes bandwidth_fraction priority exclusive holders a =
     (let r = check job_id memory_bytes bandwidth_fraction priority exclusive holders a
      in if \<not> ar_admitted r then (r, a)
         else (\<lparr>ar_admitted = True, ar_reason = '''', ar_checks = ar_checks r\<rparr>,
               a\<lparr>ad_memory_used := ad_memory_used a + memory_bytes,
                 ad_bandwidth_used := fadd (ad_bandwidth_used a) bandwidth_fraction,
                 ad_inflight := AList.update job_id
                   \<lparr>ai_memory_bytes = memory_bytes, ai_bandwidth_fraction = bandwidth_fraction,
                    ai_priority = priority, ai_exclusive_resources = exclusive\<rparr> (ad_inflight a)\<rparr>))"

definition admission_release :: "string \<Rightarrow> admission \<Rightarrow> bool \<times> admission" where
  "admission_release job_id a =
     (case map_of (ad_inflight a) job_id of
        None \<Rightarrow> (False, a)
      | Some info \<Rightarrow>
          (True, a\<lparr>ad_inflight := AList.delete job_id (ad_inflight a),
                   ad_memory_used := ad_memory_used a - ai_memory_bytes info,
                   ad_bandwidth_used := fsub (ad_bandwidth_used a) (ai_bandwidth_fraction info)\<rparr>))"

section \<open>Accounting\<close>

definition memory_reserved :: "admission \<Rightarrow> int" where
  "memory_reserved a = sum_list (map (\<lambda>e. ai_memory_bytes (snd e)) (ad_inflight a))"

text \<open>
  The accounting invariant: the memory in use is the sum of the reservations, which are
  not negative, and stays within what is available; the number of jobs and the bandwidth
  in use stay within their limits.
\<close>

definition admission_inv :: "admission \<Rightarrow> bool" where
  "admission_inv a \<longleftrightarrow>
     dict_ok (ad_inflight a) \<and>
     (\<forall>k i. map_of (ad_inflight a) k = Some i \<longrightarrow> 0 \<le> ai_memory_bytes i \<and> 0 \<le> ai_bandwidth_fraction i) \<and>
     ad_memory_used a = memory_reserved a \<and>
     ad_memory_used a \<le> ad_memory_available a \<and>
     inflight_count a \<le> ad_max_inflight a \<and>
     is_float (ad_bandwidth_used a) \<and>
     ad_bandwidth_used a \<le> fadd (ad_max_bandwidth a) bw_slack"

lemma check_admitted_iff:
  "ar_admitted (check j m b p ex hs a) \<longleftrightarrow>
     m \<le> memory_free a \<and> inflight_count a < ad_max_inflight a \<and>
     fadd (ad_bandwidth_used a) b \<le> fadd (ad_max_bandwidth a) bw_slack \<and> \<not> blocking p ex hs"
  by (simp add: check_def Let_def)

lemma blocking_no_exclusive [simp]: "\<not> blocking p [] hs"
  by (simp add: blocking_def)

lemma length_update_new: "\<not> din k d \<Longrightarrow> length (AList.update k v d) = Suc (length d)"
  by (induction d) auto

lemma admit_inv:
  assumes "admission_inv a" and "\<not> is_admitted j a" and "0 \<le> m" and "0 \<le> b"
  shows "admission_inv (snd (admit j m b p ex hs a))"
proof (cases "ar_admitted (check j m b p ex hs a)")
  case False
  with assms(1) show ?thesis by (simp add: admit_def Let_def)
next
  case True
  have new: "map_of (ad_inflight a) j = None" using assms(2) by (simp add: is_admitted_def)
  show ?thesis
    using True assms(1,3,4) sum_update_new[OF new, of ai_memory_bytes] length_update_new[of "ad_inflight a" j] new
    by (simp add: admit_def Let_def admission_inv_def memory_reserved_def check_admitted_iff
        memory_free_def inflight_count_def dict_simps) (simp add: fadd_def)
qed

lemma length_delete_present: "dict_ok d \<Longrightarrow> din k d \<Longrightarrow> length d = Suc (length (AList.delete k d))"
  by (induction d) (auto simp: dict_in_iff)

lemma admission_release_inv:
  assumes "admission_inv a"
  shows "admission_inv (snd (admission_release j a))"
proof (cases "map_of (ad_inflight a) j")
  case None
  with assms show ?thesis by (simp add: admission_release_def)
next
  case (Some i)
  have ok: "dict_ok (ad_inflight a)" and nn: "0 \<le> ai_memory_bytes i" "0 \<le> ai_bandwidth_fraction i"
    and fl: "is_float (ad_bandwidth_used a)"
    using assms Some by (auto simp: admission_inv_def)
  have bw: "fsub (ad_bandwidth_used a) (ai_bandwidth_fraction i) \<le> ad_bandwidth_used a"
    using fl_mono[of "ad_bandwidth_used a - ai_bandwidth_fraction i" "ad_bandwidth_used a"] nn fl
    by (simp add: fsub_def is_float_def)
  have le: "ad_memory_used a - ai_memory_bytes i \<le> ad_memory_available a"
    using assms nn by (simp add: admission_inv_def)
  show ?thesis
    using assms Some le bw sum_delete[OF ok Some, of ai_memory_bytes] length_delete_present[OF ok, of j]
    by (auto simp: admission_release_def admission_inv_def memory_reserved_def inflight_count_def
        dict_simps fsub_def split: if_splits)
qed

lemma admission_new_inv: "admission_new m n b = Inr a \<Longrightarrow> admission_inv a"
proof -
  assume "admission_new m n b = Inr a"
  then have a: "a = \<lparr>ad_memory_available = m, ad_max_inflight = n, ad_max_bandwidth = b,
      ad_memory_used = 0, ad_inflight = [], ad_bandwidth_used = 0\<rparr>" "0 \<le> m" "0 < n" "0 < b"
    by (auto simp: admission_new_def split: if_splits)
  have "0 \<le> bw_slack" by (simp add: bw_slack_def fl_nonneg)
  with a have "0 \<le> fadd b bw_slack" unfolding fadd_def by (intro fl_nonneg) simp
  with a show ?thesis
    by (simp add: admission_inv_def memory_reserved_def inflight_count_def is_float_def)
qed

section \<open>Properties\<close>



text \<open>\<open>admit\<close> agrees with \<open>check\<close>: it admits exactly when memory, job count, bandwidth
  and the blocking test all pass, it changes nothing when it rejects, and a rejection
  gives a reason that names the job.\<close>

theorem admit_iff_check:
  "let (r, a') = admit j m b p ex hs a in
     (ar_admitted r \<longleftrightarrow> m \<le> memory_free a \<and> inflight_count a < ad_max_inflight a \<and>
        fadd (ad_bandwidth_used a) b \<le> fadd (ad_max_bandwidth a) bw_slack \<and> \<not> blocking p ex hs) \<and>
     (if ar_admitted r then is_admitted j a' \<and> memory_free a' = memory_free a - m
      else a' = a \<and> (\<exists>s. ar_reason r = ''admission rejected for '' @ j @ '': '' @ s))"
proof (cases "ar_admitted (check j m b p ex hs a)")
  case True
  then show ?thesis
    by (simp add: admit_def Let_def check_admitted_iff memory_free_def is_admitted_def dict_simps)
next
  case False
  have "ar_reason (check j m b p ex hs a) = ''admission rejected for '' @ j @ '': '' @
    join_comma (map fst (filter (\<lambda>c. \<not> snd c) (ar_checks (check j m b p ex hs a))))"
    using False by (simp only: check_def Let_def admission_result.simps if_False)
  with False check_admitted_iff[of j m b p ex hs a] show ?thesis
    by (auto simp: admit_def Let_def)
qed

text \<open>Admitting the same job id twice leaks: the second reservation overwrites the first, so
  after one release the memory of the first is still counted although no job is in flight.\<close>

theorem readmission_leaks:
  assumes "admission_inv a" and "ad_inflight a = []" and "0 < m"
    and "ar_admitted (fst (admit j m b p ex hs a))"
    and "ar_admitted (fst (admit j m' b' p' ex' hs' (snd (admit j m b p ex hs a))))"
  defines "a2 \<equiv> snd (admission_release j (snd (admit j m' b' p' ex' hs' (snd (admit j m b p ex hs a)))))"
  shows "ad_inflight a2 = [] \<and> ad_memory_used a2 = m"
proof -
  have "ad_memory_used a = 0" using assms(1,2) by (simp add: admission_inv_def memory_reserved_def)
  with assms(2,4,5) show ?thesis
    by (simp add: a2_def admit_def Let_def admission_release_def split: if_splits)
qed

theorem readmission_leaks_witness:
  "let a = \<lparr>ad_memory_available = 10, ad_max_inflight = 4, ad_max_bandwidth = 1, ad_memory_used = 0,
       ad_inflight = [], ad_bandwidth_used = 0\<rparr>
   in ad_memory_used (snd (admission_release ''j'' (snd (admit ''j'' 5 0 0 [] []
        (snd (admit ''j'' 3 0 0 [] [] a)))))) = 3"
proof -
  define a where "a = \<lparr>ad_memory_available = 10, ad_max_inflight = 4, ad_max_bandwidth = 1,
    ad_memory_used = 0, ad_inflight = [], ad_bandwidth_used = 0\<rparr>"
  have "0 \<le> bw_slack" by (simp add: bw_slack_def fl_nonneg)
  then have bw: "0 \<le> fadd 1 bw_slack" unfolding fadd_def by (intro fl_nonneg) simp
  have inv: "admission_inv a"
    using bw by (simp add: a_def admission_inv_def memory_reserved_def inflight_count_def is_float_def)
  have one: "ar_admitted (fst (admit ''j'' 3 0 0 [] [] a))"
    and two: "ar_admitted (fst (admit ''j'' 5 0 0 [] [] (snd (admit ''j'' 3 0 0 [] [] a))))"
    using bw by (simp_all add: a_def admit_def Let_def check_admitted_iff memory_free_def
        inflight_count_def fadd_def)
  from readmission_leaks[OF inv _ _ one two] show ?thesis
    by (simp add: a_def)
qed

end
