(* ===== verification/Sched_Kernel.thy ===== *)
theory Sched_Kernel
  imports Sched_Events Py_Float
begin

text \<open>
  The discrete-event kernel of \<open>sim/scheduler/kernel.py\<close>: job handles and their states,
  registration with cycle detection, rejection, work consumption, completion with the
  waking of dependents, coalesced dispatch events, and the event loop \<open>run_until\<close> with its
  zero-time livelock check.

  Event payloads. The kernel itself queues two closures, the release of a job and the
  dispatch (\<open>Release\<close>, \<open>Dispatch\<close>); a client may queue closures of its own, of which the
  kernel only knows that they are called with the kernel: \<open>Client c\<close>, interpreted by a
  parameter of the loop. A payload that is not callable is \<open>Inert\<close>. The client's state \<open>'w\<close>
  travels with the kernel, so a closure is an operation on the pair.

  A job handle is shared by \<open>jobs\<close>, \<open>completed\<close> and \<open>rejected\<close>; the last two hold job ids
  here (ids are unique, and no operation drops a job). \<open>metadata\<close> is never read by the
  kernel and is left out.
\<close>

section \<open>Jobs\<close>

datatype job_state = PENDING | READY | RUNNING | COMPLETED | REJECTED

record job =
  jb_job_id :: string
  jb_release_ps :: int
  jb_deadline_ps :: int
  jb_work_ps :: int
  jb_remaining_ps :: int
  jb_state :: job_state
  jb_priority_class :: int
  jb_relative_deadline_ps :: int
  jb_depends_on :: "string list"

type_synonym jobs = "(string, job) dict"

datatype 'c payload = Release string | Dispatch | Client 'c | Inert

record 'c kernel =
  k_frequency_mhz :: int
  k_ps_per_cycle :: rat
  k_now_ps :: int
  k_queue :: "'c payload event_queue"
  k_jobs :: jobs
  k_completed :: "string list"
  k_rejected :: "string list"
  k_has_callback :: bool
  k_completed_ids :: "string set"
  k_rejected_ids :: "string set"
  k_next_dispatch_time :: "int option"

definition kernel_new :: "int \<Rightarrow> bool \<Rightarrow> 'c kernel result" where
  "kernel_new frequency_mhz has_callback =
     (if frequency_mhz \<le> 0 then Inl (ConfigError ''frequency_mhz'')
      else Inr \<lparr>k_frequency_mhz = frequency_mhz,
                k_ps_per_cycle = fdiv_int 1000000 frequency_mhz,
                k_now_ps = 0, k_queue = empty_queue, k_jobs = [], k_completed = [], k_rejected = [],
                k_has_callback = has_callback, k_completed_ids = {}, k_rejected_ids = {},
                k_next_dispatch_time = None\<rparr>)"

definition cycles_to_ps :: "int \<Rightarrow> 'c kernel \<Rightarrow> int result" where
  "cycles_to_ps cycles k =
     (if cycles < 0 then Inl (SchedulerError ''cycles must be non-negative'')
      else if cycles = 0 then Inr 0
      else Inr \<lceil>fmul (int_to_float cycles) (k_ps_per_cycle k)\<rceil>)"

definition microseconds_to_ps :: "rat \<Rightarrow> int result" where
  "microseconds_to_ps us =
     (if us < 0 then Inl (SchedulerError ''us must be non-negative'')
      else Inr \<lceil>fmul us (int_to_float 1000000)\<rceil>)"

section \<open>Cycle detection\<close>

text \<open>
  The explicit-stack search of \<open>_detect_cycle\<close>. The head of the list is the top of the
  stack; the \<open>for\<close> loop leaves the dependencies on it in reverse. \<open>True\<close> means that the
  error is raised.
\<close>

definition unvisited :: "jobs \<Rightarrow> string list \<Rightarrow> nat" where
  "unvisited js visited = length (filter (\<lambda>k. k \<notin> set visited) (dkeys js))"

function detect_loop :: "jobs \<Rightarrow> string \<Rightarrow> string list \<Rightarrow> string list \<Rightarrow> bool" where
  "detect_loop js start visited [] = False"
| "detect_loop js start visited (current # stack) =
     (if current \<in> set visited
      then (if current = start then True else detect_loop js start visited stack)
      else (case map_of js current of
              None \<Rightarrow> detect_loop js start (current # visited) stack
            | Some job \<Rightarrow>
                detect_loop js start (current # visited) (rev (jb_depends_on job) @ stack)))"
  by pat_completeness auto

lemma unvisited_mono: "unvisited js (x # vs) \<le> unvisited js vs"
  unfolding unvisited_def by (induction js) auto

lemma unvisited_less: "map_of js x = Some j \<Longrightarrow> x \<notin> set vs \<Longrightarrow> unvisited js (x # vs) < unvisited js vs"
  unfolding unvisited_def
proof (induction js)
  case Nil
  then show ?case by simp
next
  case (Cons e js)
  have "length (filter (\<lambda>k. k \<notin> set (x # vs)) (dkeys js)) \<le> length (filter (\<lambda>k. k \<notin> set vs) (dkeys js))"
    using unvisited_mono[of js x vs] by (simp only: unvisited_def)
  with Cons show ?case by (cases e) (auto split: if_splits)
qed

termination detect_loop
  by (relation "measures [\<lambda>(js, s, vs, st). unvisited js vs, \<lambda>(js, s, vs, st). length st]")
     (auto simp: unvisited_less intro: le_neq_implies_less unvisited_mono)

definition detect_cycle :: "jobs \<Rightarrow> string \<Rightarrow> bool" where
  "detect_cycle js start = detect_loop js start [] [start]"

text \<open>The dependency relation the search walks.\<close>

definition dep_edges :: "jobs \<Rightarrow> (string \<times> string) set" where
  "dep_edges js = {(a, b). \<exists>j. map_of js a = Some j \<and> b \<in> set (jb_depends_on j)}"

lemma dep_edges_iff: "(a, b) \<in> dep_edges js \<longleftrightarrow> (\<exists>j. map_of js a = Some j \<and> b \<in> set (jb_depends_on j))"
  by (simp add: dep_edges_def)

lemma detect_loop_sound:
  "detect_loop js s vs st \<Longrightarrow> (\<forall>v \<in> set st. v \<noteq> s \<or> s \<notin> set vs \<longrightarrow> (s, v) \<in> (dep_edges js)\<^sup>*) \<Longrightarrow>
   (\<forall>v \<in> set st. s \<in> set vs \<longrightarrow> (s, v) \<in> (dep_edges js)\<^sup>+) \<Longrightarrow>
   (s \<in> set vs \<or> (\<exists>st'. st = s # st' \<and> set st' = {})) \<Longrightarrow>
   (s, s) \<in> (dep_edges js)\<^sup>+"
proof (induction js s vs st rule: detect_loop.induct)
  case (1 js s vs)
  then show ?case by simp
next
  case (2 js s vs c st)
  show ?case
  proof (cases "c \<in> set vs")
    case True
    with 2 show ?thesis by (auto split: if_splits)
  next
    case False
    show ?thesis
    proof (cases "map_of js c")
      case None
      with False 2 show ?thesis by auto
    next
      case (Some j)
      have reach: "(s, c) \<in> (dep_edges js)\<^sup>*" using "2.prems"(2,4) False by auto
      have new: "\<forall>v \<in> set (jb_depends_on j). (s, v) \<in> (dep_edges js)\<^sup>+"
        using reach Some by (metis dep_edges_iff rtrancl_into_trancl1)
      have old: "\<forall>v \<in> set st. (s, v) \<in> (dep_edges js)\<^sup>+"
        using "2.prems"(3,4) by auto
      show ?thesis
      proof (rule "2.IH"(3)[OF False Some])
        show "detect_loop js s (c # vs) (rev (jb_depends_on j) @ st)"
          using "2.prems"(1) False Some by simp
      qed (use new old "2.prems"(4) trancl_into_rtrancl in \<open>fastforce+\<close>)
    qed
  qed
qed

lemma detect_loop_complete:
  "\<not> detect_loop js s vs st \<Longrightarrow> s \<in> set vs \<Longrightarrow>
   (\<forall>v \<in> set vs. \<forall>w. (v, w) \<in> dep_edges js \<longrightarrow> (w \<in> set vs \<and> w \<noteq> s) \<or> w \<in> set st) \<Longrightarrow>
   \<exists>W. set vs \<subseteq> W \<and> (\<forall>v \<in> W. \<forall>w. (v, w) \<in> dep_edges js \<longrightarrow> w \<in> W \<and> w \<noteq> s)"
proof (induction js s vs st rule: detect_loop.induct)
  case (1 js s vs)
  then show ?case by auto
next
  case (2 js s vs c st)
  show ?case
  proof (cases "c \<in> set vs")
    case True
    with "2.prems" show ?thesis
      by (intro "2.IH"(1)) (auto split: if_splits)
  next
    case False
    have sc: "c \<noteq> s" using False "2.prems"(2) by auto
    show ?thesis
    proof (cases "map_of js c")
      case None
      have "\<exists>W. set (c # vs) \<subseteq> W \<and> (\<forall>v \<in> W. \<forall>w. (v, w) \<in> dep_edges js \<longrightarrow> w \<in> W \<and> w \<noteq> s)"
        using False None "2.prems" sc by (intro "2.IH"(2)) (auto simp: dep_edges_iff)
      then show ?thesis by auto
    next
      case (Some j)
      have "\<exists>W. set (c # vs) \<subseteq> W \<and> (\<forall>v \<in> W. \<forall>w. (v, w) \<in> dep_edges js \<longrightarrow> w \<in> W \<and> w \<noteq> s)"
        using False Some "2.prems" sc by (intro "2.IH"(3)) (auto simp: dep_edges_iff)
      then show ?thesis by auto
    qed
  qed
qed

lemma detect_cycle_iff: "detect_cycle js s \<longleftrightarrow> (s, s) \<in> (dep_edges js)\<^sup>+"
proof
  assume "detect_cycle js s"
  then show "(s, s) \<in> (dep_edges js)\<^sup>+"
    unfolding detect_cycle_def by (rule detect_loop_sound) auto
next
  assume cyc: "(s, s) \<in> (dep_edges js)\<^sup>+"
  show "detect_cycle js s"
  proof (rule ccontr)
    assume no: "\<not> detect_cycle js s"
    obtain j where j: "map_of js s = Some j"
      using cyc by (meson dep_edges_iff tranclD)
    have "\<not> detect_loop js s [s] (rev (jb_depends_on j))"
      using no j by (simp add: detect_cycle_def)
    then obtain W where W: "s \<in> W" "\<forall>v \<in> W. \<forall>w. (v, w) \<in> dep_edges js \<longrightarrow> w \<in> W \<and> w \<noteq> s"
      using detect_loop_complete[of js s "[s]" "rev (jb_depends_on j)"] j
      by (auto simp: dep_edges_iff)
    have "\<And>w. (s, w) \<in> (dep_edges js)\<^sup>+ \<Longrightarrow> w \<in> W \<and> w \<noteq> s"
      by (erule trancl_induct) (use W in blast)+
    with cyc show False by blast
  qed
qed

section \<open>The operations\<close>

text \<open>A write to a job handle, reached by its id.\<close>

definition upd_job :: "string \<Rightarrow> (job \<Rightarrow> job) \<Rightarrow> 'c kernel \<Rightarrow> 'c kernel" where
  "upd_job i f k = k\<lparr>k_jobs := AList.map_entry i f (k_jobs k)\<rparr>"

definition get_job :: "string \<Rightarrow> 'c kernel \<Rightarrow> job result" where
  "get_job i k = (case map_of (k_jobs k) i of
     None \<Rightarrow> Inl (SchedulerError ''unknown job_id'') | Some j \<Rightarrow> Inr j)"

definition get_job_op :: "string \<Rightarrow> ('c kernel, job) op" where
  "get_job_op i k = (get_job i k, k)"

definition dependencies_satisfied :: "jobs \<Rightarrow> job \<Rightarrow> bool" where
  "dependencies_satisfied js j = list_all (\<lambda>dep. jb_state (dget js dep j) = COMPLETED) (jb_depends_on j)"

definition make_ready_job :: "job \<Rightarrow> job" where
  "make_ready_job j = (if jb_state j = PENDING then j\<lparr>jb_state := READY\<rparr> else j)"

definition make_ready :: "string \<Rightarrow> 'c kernel \<Rightarrow> 'c kernel" where
  "make_ready i = upd_job i make_ready_job"

definition kpush :: "int \<Rightarrow> event_phase \<Rightarrow> 'c payload \<Rightarrow> ('c kernel, 'c payload event) op" where
  "kpush t ph x k = (case push t ph x (k_queue k) of
     Inl e \<Rightarrow> (Inl e, k) | Inr (ev, q) \<Rightarrow> (Inr ev, k\<lparr>k_queue := q\<rparr>))"

definition schedule_dispatch :: "int \<Rightarrow> ('c kernel, unit) op" where
  "schedule_dispatch t k =
     (if \<not> k_has_callback k then ret () k
      else if (case k_next_dispatch_time k of None \<Rightarrow> False | Some n \<Rightarrow> n \<le> t) then ret () k
      else bind_op (kpush t DISPATCH Dispatch) (\<lambda>_. ret ()) (k\<lparr>k_next_dispatch_time := Some t\<rparr>))"

definition new_job :: "string \<Rightarrow> int \<Rightarrow> int \<Rightarrow> int \<Rightarrow> int \<Rightarrow> string list \<Rightarrow> job" where
  "new_job job_id work_ps release_ps rel_deadline priority_class depends_on =
     \<lparr>jb_job_id = job_id, jb_release_ps = release_ps, jb_deadline_ps = release_ps + rel_deadline,
      jb_work_ps = work_ps, jb_remaining_ps = work_ps, jb_state = PENDING,
      jb_priority_class = priority_class, jb_relative_deadline_ps = rel_deadline,
      jb_depends_on = depends_on\<rparr>"

definition register_job ::
  "string \<Rightarrow> int \<Rightarrow> int \<Rightarrow> int option \<Rightarrow> int \<Rightarrow> string list \<Rightarrow> ('c kernel, unit) op" where
  "register_job job_id work_ps release_ps relative_deadline_ps priority_class depends_on k =
     (let rel_deadline = (case relative_deadline_ps of None \<Rightarrow> work_ps | Some d \<Rightarrow> d);
          dep_set = remdups depends_on;
          job = new_job job_id work_ps release_ps rel_deadline priority_class dep_set
      in if job_id = [] then raise_op (ConfigError ''job_id'') k
      else if din job_id (k_jobs k) then raise_op (ConfigError ''job_id'') k
      else if work_ps < 0 then raise_op (SchedulerError ''work_ps must be non-negative'') k
      else if release_ps < k_now_ps k then raise_op (SchedulerError ''release_ps is in the past'') k
      else if rel_deadline < 0
        then raise_op (SchedulerError ''relative_deadline_ps must be non-negative'') k
      else if job_id \<in> set dep_set then raise_op (SchedulerError ''job depends on itself'') k
      else
        let k1 = k\<lparr>k_jobs := AList.update job_id job (k_jobs k)\<rparr>
        in if detect_cycle (k_jobs k1) job_id
           then raise_op (SchedulerError ''cyclic dependency detected'') k1
           else if release_ps = k_now_ps k1 \<and> dependencies_satisfied (k_jobs k1) job
           then schedule_dispatch release_ps (make_ready job_id k1)
           else if release_ps = k_now_ps k1 then ret () k1
           else bind_op (kpush release_ps RELEASE (Release job_id)) (\<lambda>_. ret ()) k1)"

definition reject_job :: "string \<Rightarrow> ('c kernel, unit) op" where
  "reject_job i = bind_op (get_job_op i) (\<lambda>_. modify_op (\<lambda>k.
     (upd_job i (\<lambda>j. j\<lparr>jb_state := REJECTED\<rparr>) k)
       \<lparr>k_rejected := k_rejected k @ [i], k_rejected_ids := insert i (k_rejected_ids k)\<rparr>))"

definition schedule :: "int \<Rightarrow> event_phase \<Rightarrow> 'c payload \<Rightarrow> ('c kernel, 'c payload event) op" where
  "schedule time_ps phase x k =
     (if time_ps < k_now_ps k then raise_op (SchedulerError ''cannot schedule event'') k
      else kpush time_ps phase x k)"

definition cancel_event :: "'c payload event \<Rightarrow> ('c kernel, bool) op" where
  "cancel_event e k = (case cancel e (k_queue k) of (b, q) \<Rightarrow> (Inr b, k\<lparr>k_queue := q\<rparr>))"

definition release_payload :: "string \<Rightarrow> ('c kernel, unit) op" where
  "release_payload i = bind_op (get_job_op i) (\<lambda>job k.
     if jb_state job \<noteq> PENDING then ret () k
     else if dependencies_satisfied (k_jobs k) job
     then let k1 = make_ready i k in schedule_dispatch (k_now_ps k1) k1
     else ret () k)"

definition jobs_in_state :: "job_state \<Rightarrow> 'c kernel \<Rightarrow> job list" where
  "jobs_in_state st k = filter (\<lambda>j. jb_state j = st) (dvalues (k_jobs k))"

definition ready_jobs :: "'c kernel \<Rightarrow> job list" where
  "ready_jobs k = sort_key jb_job_id (jobs_in_state READY k)"

definition running_jobs :: "'c kernel \<Rightarrow> job list" where
  "running_jobs k = jobs_in_state RUNNING k"

definition consume_work :: "string \<Rightarrow> int \<Rightarrow> ('c kernel, unit) op" where
  "consume_work i duration_ps = bind_op (get_job_op i) (\<lambda>job.
     if jb_state job \<noteq> RUNNING then raise_op (SchedulerError ''cannot consume work'')
     else if duration_ps < 0
       then raise_op (SchedulerError ''consume_work duration must be non-negative'')
     else if jb_remaining_ps job < duration_ps then raise_op (SchedulerError ''job over-consumed'')
     else modify_op (upd_job i (\<lambda>j. j\<lparr>jb_remaining_ps := jb_remaining_ps j - duration_ps\<rparr>)))"

text \<open>The loop of \<open>_complete_job_internal\<close> over \<open>jobs.values()\<close>: every test reads the states
  the earlier iterations left.\<close>

fun wake_dependents :: "string list \<Rightarrow> 'c kernel \<Rightarrow> 'c kernel" where
  "wake_dependents [] k = k"
| "wake_dependents (i # is) k = wake_dependents is (case map_of (k_jobs k) i of
     None \<Rightarrow> k
   | Some other \<Rightarrow>
       if jb_state other = PENDING \<and> dependencies_satisfied (k_jobs k) other
          \<and> jb_release_ps other \<le> k_now_ps k
       then make_ready i k else k)"

definition mark_completed :: "string \<Rightarrow> 'c kernel \<Rightarrow> 'c kernel" where
  "mark_completed i k =
     (upd_job i (\<lambda>j. j\<lparr>jb_remaining_ps := 0, jb_state := COMPLETED\<rparr>) k)
       \<lparr>k_completed := (if i \<in> set (k_completed k) then k_completed k else k_completed k @ [i]),
        k_completed_ids := insert i (k_completed_ids k)\<rparr>"

definition complete_job_internal :: "string \<Rightarrow> ('c kernel, unit) op" where
  "complete_job_internal i k =
     (let k1 = mark_completed i k;
          k2 = wake_dependents (dkeys (k_jobs k1)) k1
      in if jobs_in_state READY k2 \<noteq> [] then schedule_dispatch (k_now_ps k2) k2 else ret () k2)"

definition complete_job :: "string \<Rightarrow> ('c kernel, unit) op" where
  "complete_job i = bind_op (get_job_op i) (\<lambda>job.
     if jb_state job = COMPLETED then ret ()
     else if jb_state job \<noteq> RUNNING then raise_op (SchedulerError ''cannot complete job'')
     else complete_job_internal i)"

definition consume_elapsed_job :: "int \<Rightarrow> string \<Rightarrow> ('c kernel, unit) op" where
  "consume_elapsed_job delta i k = (case map_of (k_jobs k) i of
     None \<Rightarrow> ret () k
   | Some job \<Rightarrow>
       if jb_state job \<noteq> RUNNING then ret () k
       else let consumed = min delta (jb_remaining_ps job);
                k1 = upd_job i (\<lambda>j. j\<lparr>jb_remaining_ps := jb_remaining_ps j - consumed\<rparr>) k
            in if jb_remaining_ps job - consumed = 0 then complete_job_internal i k1 else ret () k1)"

definition consume_elapsed_work :: "int \<Rightarrow> ('c kernel, unit) op" where
  "consume_elapsed_work previous_time_ps k =
     (let delta = k_now_ps k - previous_time_ps
      in if delta \<le> 0 then ret () k
         else for_op (dkeys (k_jobs k)) (consume_elapsed_job delta) k)"

section \<open>The event loop\<close>

text \<open>
  What the kernel is parametrised by: the closures a client queues and the dispatch
  callback, both operations on the kernel together with the client's own state \<open>'w\<close>.
\<close>

type_synonym ('c, 'w) kworld = "'c kernel \<times> 'w"

record ('c, 'w) kernel_env =
  env_client :: "'c \<Rightarrow> (('c, 'w) kworld, unit) op"
  env_callback :: "job list \<Rightarrow> (('c, 'w) kworld, unit) op"

definition on_kernel :: "('c kernel, 'a) op \<Rightarrow> (('c, 'w) kworld, 'a) op" where
  "on_kernel = zoom_op fst (\<lambda>k s. (k, snd s))"

definition dispatch_payload :: "('c, 'w) kernel_env \<Rightarrow> (('c, 'w) kworld, unit) op" where
  "dispatch_payload env =
     seq_op (on_kernel (modify_op (\<lambda>k. k\<lparr>k_next_dispatch_time := None\<rparr>))) (\<lambda>s.
       if \<not> k_has_callback (fst s) then ret () s
       else let ready = ready_jobs (fst s)
            in if ready \<noteq> [] then env_callback env ready s else ret () s)"

fun run_payload :: "('c, 'w) kernel_env \<Rightarrow> 'c payload \<Rightarrow> (('c, 'w) kworld, unit) op" where
  "run_payload env (Release i) = on_kernel (release_payload i)"
| "run_payload env Dispatch = dispatch_payload env"
| "run_payload env (Client c) = env_client env c"
| "run_payload env Inert = ret ()"

text \<open>\<open>any(self.jobs[jid].remaining_ps < old_remaining[jid] for jid in old_remaining)\<close>, which
  stops at the first hit and raises on a job that is gone.\<close>

fun any_dropped :: "jobs \<Rightarrow> (string \<times> int) list \<Rightarrow> bool result" where
  "any_dropped js [] = Inr False"
| "any_dropped js ((i, r) # old) = (case map_of js i of
     None \<Rightarrow> Inl (KeyError i)
   | Some j \<Rightarrow> if jb_remaining_ps j < r then Inr True else any_dropped js old)"

definition ids_in_state :: "job_state \<Rightarrow> 'c kernel \<Rightarrow> string list" where
  "ids_in_state st k = map fst (filter (\<lambda>(i, j). jb_state j = st) (k_jobs k))"

text \<open>The \<open>progress\<close> expression: \<open>k0\<close> is the kernel when the event \<open>ev\<close> was popped, \<open>k\<close> the one
  its payload left.\<close>

definition made_progress :: "'c payload event \<Rightarrow> 'c kernel \<Rightarrow> 'c kernel \<Rightarrow> bool result" where
  "made_progress ev k0 k =
     (let old_remaining = map (\<lambda>(i, j). (i, jb_remaining_ps j))
            (filter (\<lambda>(i, j). jb_state j = RUNNING) (k_jobs k0));
          newly_running = filter (\<lambda>i. i \<notin> set (ids_in_state RUNNING k0)) (ids_in_state RUNNING k);
          idle_dispatch = (ev_phase ev = DISPATCH \<and> ids_in_state READY k0 = [])
      in if k_now_ps k0 < k_now_ps k \<or> length (k_completed k0) < length (k_completed k)
            \<or> newly_running \<noteq> [] \<or> idle_dispatch
         then Inr True
         else any_dropped (k_jobs k) old_remaining)"

text \<open>One iteration of the loop, once the guards have let the event through.\<close>

definition process_event ::
  "('c, 'w) kernel_env \<Rightarrow> 'c payload event \<Rightarrow> 'c kernel \<Rightarrow> (('c, 'w) kworld, unit) op" where
  "process_event env ev k0 =
     (if ev_time_ps ev < k_now_ps k0
      then raise_op (SchedulerError ''event is before current time'')
      else seq_op (on_kernel (modify_op (\<lambda>k. k\<lparr>k_now_ps := ev_time_ps ev\<rparr>)))
          (seq_op (on_kernel (consume_elapsed_work (k_now_ps k0)))
          (seq_op (run_payload env (ev_payload ev))
          (\<lambda>s. case made_progress ev k0 (fst s) of
                 Inl e \<Rightarrow> raise_op e s
               | Inr True \<Rightarrow> ret () s
               | Inr False \<Rightarrow> raise_op (SchedulerError ''zero-time livelock detected'') s))))"

definition loop_event :: "int option \<Rightarrow> int option \<Rightarrow> int \<Rightarrow> 'c kernel \<Rightarrow> 'c payload event option" where
  \<comment> \<open>the three guards at the head of the loop: the event it goes on with\<close>
  "loop_event end_time_ps max_events event_count k = (case peek (k_queue k) of
     None \<Rightarrow> None
   | Some ev \<Rightarrow>
       if (case end_time_ps of None \<Rightarrow> False | Some t \<Rightarrow> t < ev_time_ps ev) then None
       else if (case max_events of None \<Rightarrow> False | Some m \<Rightarrow> m \<le> event_count) then None
       else Some ev)"

definition step_event :: "('c, 'w) kernel_env \<Rightarrow> (('c, 'w) kworld, unit) op" where
  \<comment> \<open>\<open>self.queue.pop()\<close> and the rest of the body\<close>
  "step_event env s = (case pop (k_queue (fst s)) of
     (None, q) \<Rightarrow> raise_op (ValueError ''pop from an empty queue'') s
   | (Some ev, q) \<Rightarrow> let k0 = (fst s)\<lparr>k_queue := q\<rparr> in process_event env ev k0 (k0, snd s))"

text \<open>
  The loop. It need not end, so it takes fuel: \<open>None\<close> says that the fuel ran out. With a
  \<open>max_events\<close> that many iterations are enough (\<open>run_until_terminates\<close>).
\<close>

fun run_loop ::
  "nat \<Rightarrow> ('c, 'w) kernel_env \<Rightarrow> int option \<Rightarrow> int option \<Rightarrow> int \<Rightarrow> ('c, 'w) kworld
   \<Rightarrow> ((py_error + unit) \<times> ('c, 'w) kworld) option" where
  "run_loop 0 env end_time_ps max_events event_count s = None"
| "run_loop (Suc n) env end_time_ps max_events event_count s =
     (case loop_event end_time_ps max_events event_count (fst s) of
        None \<Rightarrow> Some (ret () s)
      | Some _ \<Rightarrow> (case step_event env s of
            (Inl e, s') \<Rightarrow> Some (Inl e, s')
          | (Inr _, s') \<Rightarrow> run_loop n env end_time_ps max_events (event_count + 1) s'))"

definition run_until ::
  "nat \<Rightarrow> ('c, 'w) kernel_env \<Rightarrow> int option \<Rightarrow> int option \<Rightarrow> ('c, 'w) kworld
   \<Rightarrow> ((py_error + unit) \<times> ('c, 'w) kworld) option" where
  "run_until fuel env end_time_ps max_events = run_loop fuel env end_time_ps max_events 0"

text \<open>\<open>run_until_complete\<close>: each turn runs \<open>run_until(max_events=1)\<close>, for which a fuel of two
  is enough.\<close>

fun run_complete_loop ::
  "nat \<Rightarrow> ('c, 'w) kernel_env \<Rightarrow> int \<Rightarrow> ('c, 'w) kworld \<Rightarrow> (py_error + unit) \<times> ('c, 'w) kworld" where
  "run_complete_loop 0 env max_time_ps s = ret () s"
| "run_complete_loop (Suc n) env max_time_ps s =
     (if list_all (\<lambda>j. jb_state j \<notin> {PENDING, READY, RUNNING}) (dvalues (k_jobs (fst s)))
      then ret () s
      else case peek (k_queue (fst s)) of
        None \<Rightarrow> ret () s
      | Some ev \<Rightarrow>
          if max_time_ps < ev_time_ps ev then ret () s
          else case run_until 2 env None (Some 1) s of
            Some (Inr _, s') \<Rightarrow> run_complete_loop n env max_time_ps s'
          | Some (Inl e, s') \<Rightarrow> (Inl e, s')
          | None \<Rightarrow> ret () s)"

definition run_until_complete ::
  "('c, 'w) kernel_env \<Rightarrow> int \<Rightarrow> nat \<Rightarrow> ('c, 'w) kworld \<Rightarrow> (py_error + unit) \<times> ('c, 'w) kworld" where
  "run_until_complete env max_time_ps max_events = run_complete_loop max_events env max_time_ps"

end
