(* ===== verification/Sched_Kernel_Inv.thy ===== *)
theory Sched_Kernel_Inv
  imports Sched_Kernel
begin

text \<open>
  The invariant of the discrete-event kernel of \<open>sim/scheduler/kernel.py\<close> and its proofs:
  every operation keeps it, whether it returns or raises. It says that no event lies in the
  past, that ready, running and completed jobs had their dependencies completed first, and
  that an announced dispatch is queued. What the single operations do (completion, waking,
  charging elapsed work, registration, conversion) is here as well; the event loop and the
  interface to the kernel's client are in \<open>Sched_Kernel_Client\<close>.
\<close>

section \<open>The invariant\<close>

text \<open>
  A job that has left \<open>PENDING\<close> by the kernel's doing has all its dependencies among the
  completed jobs: the promise that makes \<open>depends_on\<close> an order of execution.
\<close>

definition job_ok :: "string list \<Rightarrow> string \<Rightarrow> job \<Rightarrow> bool" where
  "job_ok completed i j \<longleftrightarrow>
     jb_job_id j = i \<and> 0 \<le> jb_remaining_ps j \<and>
     (jb_state j = COMPLETED \<longrightarrow> i \<in> set completed) \<and>
     (jb_state j \<in> {READY, RUNNING, COMPLETED} \<longrightarrow> set (jb_depends_on j) \<subseteq> set completed)"

definition jobs_ok :: "string list \<Rightarrow> jobs \<Rightarrow> bool" where
  "jobs_ok completed js \<longleftrightarrow> dict_ok js \<and> (\<forall>i j. map_of js i = Some j \<longrightarrow> job_ok completed i j)"

text \<open>The dispatch event that \<open>_next_dispatch_time\<close> announces is in the queue; \<open>inflight\<close> while
  the event is popped and its payload has not run.\<close>

definition dispatch_ok :: "'c kernel \<Rightarrow> bool" where
  "dispatch_ok k \<longleftrightarrow> (\<forall>n. k_next_dispatch_time k = Some n \<longrightarrow>
     (\<exists>e \<in> set (live (k_queue k)). ev_payload e = Dispatch \<and> ev_phase e = DISPATCH \<and> ev_time_ps e = n))"

definition clock_ok :: "'c kernel \<Rightarrow> bool" where
  "clock_ok k \<longleftrightarrow> queue_inv (k_queue k) \<and> 0 \<le> k_now_ps k \<and>
     (\<forall>e \<in> set (live (k_queue k)). k_now_ps k \<le> ev_time_ps e)"

definition kernel_inv :: "bool \<Rightarrow> 'c kernel \<Rightarrow> bool" where
  "kernel_inv inflight k \<longleftrightarrow>
     clock_ok k \<and> jobs_ok (k_completed k) (k_jobs k) \<and>
     distinct (k_completed k) \<and> set (k_completed k) \<subseteq> set (dkeys (k_jobs k)) \<and>
     k_completed_ids k = set (k_completed k) \<and> k_rejected_ids k = set (k_rejected k) \<and>
     (inflight \<or> dispatch_ok k)"

text \<open>The form that is kept: between two events the clock stands.\<close>

definition kernel_at :: "int \<Rightarrow> bool \<Rightarrow> 'c kernel \<Rightarrow> bool" where
  "kernel_at t inflight k \<longleftrightarrow> kernel_inv inflight k \<and> k_now_ps k = t"

lemma kernel_new_inv: "kernel_new f cb = Inr k \<Longrightarrow> kernel_inv False k"
  by (auto simp: kernel_new_def kernel_inv_def clock_ok_def jobs_ok_def dispatch_ok_def
      queue_inv_empty[unfolded empty_queue_def] live_def empty_queue_def split: if_splits)

section \<open>Job updates\<close>

lemma map_of_map_entry_apply [dict_simps]:
  "map_of (AList.map_entry i f d) x = (if x = i then map_option f (map_of d i) else map_of d x)"
  by (induction d) auto

lemma dkeys_map_entry [simp]: "dkeys (AList.map_entry i f d) = dkeys d"
  by (induction d) auto

lemma dict_ok_map_entry [simp]: "dict_ok (AList.map_entry i f d) = dict_ok d"
  by (simp add: dict_ok_def)

lemma fst_set_map_entry [simp]: "fst ` set (AList.map_entry i f d) = fst ` set d"
  by (metis dkeys_map_entry list.set_map)

lemma jobs_ok_map_entry:
  assumes "jobs_ok cs js" and "\<And>j. map_of js i = Some j \<Longrightarrow> job_ok cs i j \<Longrightarrow> job_ok cs i (f j)"
  shows "jobs_ok cs (AList.map_entry i f js)"
  using assms by (auto simp: jobs_ok_def dict_simps)

lemma job_ok_mono: "job_ok cs i j \<Longrightarrow> set cs \<subseteq> set cs' \<Longrightarrow> job_ok cs' i j"
  by (auto simp: job_ok_def)

lemma jobs_ok_mono: "jobs_ok cs js \<Longrightarrow> set cs \<subseteq> set cs' \<Longrightarrow> jobs_ok cs' js"
  by (auto simp: jobs_ok_def intro: job_ok_mono)

lemma kernel_inv_job_update:
  assumes "kernel_inv d k" and "\<And>j. map_of (k_jobs k) i = Some j \<Longrightarrow> job_ok (k_completed k) i j
    \<Longrightarrow> job_ok (k_completed k) i (f j)"
  shows "kernel_inv d (upd_job i f k)"
  using assms(1) jobs_ok_map_entry[of "k_completed k" "k_jobs k" i f] assms(2)
  by (auto simp: kernel_inv_def upd_job_def clock_ok_def dispatch_ok_def)

lemma upd_job_now [simp]: "k_now_ps (upd_job i f k) = k_now_ps k"
  by (simp add: upd_job_def)

lemma upd_job_queue [simp]: "k_queue (upd_job i f k) = k_queue k"
  "k_next_dispatch_time (upd_job i f k) = k_next_dispatch_time k"
  "k_completed (upd_job i f k) = k_completed k" "k_has_callback (upd_job i f k) = k_has_callback k"
  "dkeys (k_jobs (upd_job i f k)) = dkeys (k_jobs k)"
  by (simp_all add: upd_job_def)

lemma kernel_at_job_update:
  assumes "kernel_at t d k" and "\<And>j. map_of (k_jobs k) i = Some j \<Longrightarrow> job_ok (k_completed k) i j
    \<Longrightarrow> job_ok (k_completed k) i (f j)"
  shows "kernel_at t d (upd_job i f k)"
  using assms by (simp add: kernel_at_def kernel_inv_job_update)

text \<open>A dependency counts as satisfied only when it is a registered, completed job; the
  default of \<open>jobs.get(dep, job)\<close> is the waiting job itself, which is not.\<close>

lemma dependencies_satisfied_completed:
  assumes "jobs_ok cs js" and "dependencies_satisfied js j" and "jb_state j \<noteq> COMPLETED"
  shows "set (jb_depends_on j) \<subseteq> set cs"
proof
  fix x assume "x \<in> set (jb_depends_on j)"
  then have "jb_state (dget js x j) = COMPLETED"
    using assms(2) by (simp add: dependencies_satisfied_def list_all_iff)
  with assms(1,3) show "x \<in> set cs"
    by (auto simp: dget_def jobs_ok_def job_ok_def split: option.splits)
qed

lemma make_ready_at:
  assumes "kernel_at t d k" and "map_of (k_jobs k) i = Some j" and "dependencies_satisfied (k_jobs k) j"
    and "jb_state j = PENDING"
  shows "kernel_at t d (make_ready i k)"
proof -
  have "set (jb_depends_on j) \<subseteq> set (k_completed k)"
    using assms by (intro dependencies_satisfied_completed[of _ "k_jobs k"])
      (auto simp: kernel_at_def kernel_inv_def)
  with assms show ?thesis
    unfolding make_ready_def by (intro kernel_at_job_update) (auto simp: make_ready_job_def job_ok_def)
qed

section \<open>Each operation keeps the invariant\<close>

lemma insort_key_in [simp]: "set (insort_key f x xs) = insert x (set xs)"
  by (rule set_insort_key)

lemma kernel_at_push:
  assumes "kernel_at t d k" and "push s ph x (k_queue k) = Inr (e, q)" and "t \<le> s"
  shows "kernel_at t d (k\<lparr>k_queue := q\<rparr>)"
  using assms push_inv[OF _ assms(2)] push_live[OF _ assms(2)] push_event[OF assms(2)]
  by (auto simp: kernel_at_def kernel_inv_def clock_ok_def dispatch_ok_def)

lemma kpush_at: "kernel_at t d k \<Longrightarrow> t \<le> s \<Longrightarrow> kernel_at t d (snd (kpush s ph x k))"
  by (auto simp: kpush_def kernel_at_push split: sum.splits)

lemma schedule_dispatch_at:
  assumes "kernel_at t d k" and "t \<le> s"
  shows "kernel_at t d (snd (schedule_dispatch s k))"
proof -
  let ?k = "k\<lparr>k_next_dispatch_time := Some s\<rparr>"
  have at: "kernel_at t True ?k"
    using assms by (auto simp: kernel_at_def kernel_inv_def clock_ok_def dispatch_ok_def)
  have "0 \<le> s" using assms by (simp add: kernel_at_def kernel_inv_def clock_ok_def)
  then obtain e q where p: "push s DISPATCH Dispatch (k_queue k) = Inr (e, q)"
    by (auto simp: push_def Let_def)
  have "kernel_at t True (?k\<lparr>k_queue := q\<rparr>)" using at p assms(2) by (intro kernel_at_push) auto
  moreover have "dispatch_ok (?k\<lparr>k_queue := q\<rparr>)"
    using push_live[OF _ p] push_event[OF p] assms(1)
    by (auto simp: dispatch_ok_def kernel_at_def kernel_inv_def clock_ok_def)
  ultimately have "kernel_at t d (?k\<lparr>k_queue := q\<rparr>)" by (simp add: kernel_at_def kernel_inv_def)
  then show ?thesis
    using assms(1) p by (auto simp: schedule_dispatch_def kpush_def op_simps bind_op_def)
qed

lemma schedule_dispatch_now: "kernel_at t d k \<Longrightarrow> kernel_at t d (snd (schedule_dispatch (k_now_ps k) k))"
  by (rule schedule_dispatch_at) (auto simp: kernel_at_def)

lemma get_job_op_simps [op_simps]:
  "get_job_op i k = (case map_of (k_jobs k) i of None \<Rightarrow> (Inl (SchedulerError ''unknown job_id''), k)
     | Some j \<Rightarrow> (Inr j, k))"
  by (simp add: get_job_op_def get_job_def split: option.splits)

lemma keeps_get_job_bind:
  assumes "\<And>k j. P k \<Longrightarrow> map_of (k_jobs k) i = Some j \<Longrightarrow> P (snd (f j k))"
  shows "keeps P (bind_op (get_job_op i) f)"
  using assms by (auto simp: keeps_def bind_op_def op_simps split: option.splits)

lemma register_job_keeps: "keeps (kernel_at t d) (register_job i work rel dl prio deps)"
proof (rule keepsI)
  fix k :: "'c kernel" assume k: "kernel_at t d k"
  let ?job = "new_job i work rel (case dl of None \<Rightarrow> work | Some x \<Rightarrow> x) prio (remdups deps)"
  let ?k1 = "k\<lparr>k_jobs := AList.update i ?job (k_jobs k)\<rparr>"
  let ?guards = "i \<noteq> [] \<and> \<not> din i (k_jobs k) \<and> 0 \<le> work \<and> t \<le> rel"
  have k1: "kernel_at t d ?k1" if ?guards
    using k that
    by (auto simp: kernel_at_def kernel_inv_def clock_ok_def dispatch_ok_def jobs_ok_def job_ok_def
        new_job_def dict_simps)
  have j1: "map_of (k_jobs ?k1) i = Some ?job" by (simp add: dict_simps)
  have p1: "jb_state ?job = PENDING" by (simp add: new_job_def)
  have ready: "kernel_at t d (make_ready i ?k1)" if ?guards "dependencies_satisfied (k_jobs ?k1) ?job"
    using make_ready_at[OF k1 j1 _ p1] that by simp
  have now: "k_now_ps k = t" using k by (simp add: kernel_at_def)
  show "kernel_at t d (snd (register_job i work rel dl prio deps k))"
  proof (cases ?guards)
    case True
    have "kernel_at t d (snd (schedule_dispatch rel (make_ready i ?k1)))"
      if "dependencies_satisfied (k_jobs ?k1) ?job"
      using schedule_dispatch_at[OF ready[OF True that]] True by simp
    moreover have "kernel_at t d (snd (kpush rel RELEASE (Release i) ?k1))"
      using kpush_at[OF k1[OF True]] True by simp
    ultimately show ?thesis
      using k k1[OF True] now True
      by (auto simp: register_job_def Let_def op_simps bind_op_def split: prod.splits sum.splits)
  next
    case False
    with k now show ?thesis by (auto simp: register_job_def Let_def op_simps)
  qed
qed

lemma reject_job_keeps: "keeps (kernel_at t d) (reject_job i)"
  unfolding reject_job_def
proof (rule keeps_get_job_bind)
  fix k :: "'c kernel" and j assume k: "kernel_at t d k" and "map_of (k_jobs k) i = Some j"
  have "kernel_at t d (upd_job i (\<lambda>j. j\<lparr>jb_state := REJECTED\<rparr>) k)"
    using k by (intro kernel_at_job_update) (auto simp: job_ok_def)
  then show "kernel_at t d (snd (modify_op (\<lambda>k. (upd_job i (\<lambda>j. j\<lparr>jb_state := REJECTED\<rparr>) k)
      \<lparr>k_rejected := k_rejected k @ [i], k_rejected_ids := insert i (k_rejected_ids k)\<rparr>) k))"
    using k by (auto simp: op_simps kernel_at_def kernel_inv_def clock_ok_def dispatch_ok_def upd_job_def)
qed

lemma schedule_keeps: "keeps (kernel_at t d) (schedule s ph x)"
  by (rule keepsI) (auto simp: schedule_def op_simps kernel_at_def[of t d] intro!: kpush_at[unfolded kernel_at_def])

text \<open>Cancelling keeps it too, unless the event is the kernel's own dispatch event.\<close>

lemma cancel_event_at:
  assumes k: "kernel_at t d k" and s: "ev_seq e < eq_seq (k_queue k)"
    and own: "d \<or> k_next_dispatch_time k = None \<or> (\<forall>x \<in> set (live (k_queue k)). ev_seq x = ev_seq e \<longrightarrow> ev_payload x \<noteq> Dispatch)"
  shows "kernel_at t d (snd (cancel_event e k))"
proof -
  have "queue_inv (snd (cancel e (k_queue k)))"
    using k s by (intro cancel_inv) (auto simp: kernel_at_def kernel_inv_def clock_ok_def)
  then show ?thesis
    using k own cancel_live[of e "k_queue k"]
    by (fastforce simp: cancel_event_def kernel_at_def kernel_inv_def clock_ok_def dispatch_ok_def
        split: prod.splits)
qed

lemma release_payload_keeps: "keeps (kernel_at t d) (release_payload i)"
  unfolding release_payload_def
  by (rule keeps_get_job_bind)
    (auto simp: op_simps Let_def intro!: schedule_dispatch_now make_ready_at)

lemma consume_work_keeps: "keeps (kernel_at t d) (consume_work i n)"
  unfolding consume_work_def
proof (rule keeps_get_job_bind)
  fix k :: "'c kernel" and j assume k: "kernel_at t d k" and j: "map_of (k_jobs k) i = Some j"
  have "kernel_at t d (upd_job i (\<lambda>j. j\<lparr>jb_remaining_ps := jb_remaining_ps j - n\<rparr>) k)"
    if "n \<le> jb_remaining_ps j"
    using k j that by (intro kernel_at_job_update) (auto simp: job_ok_def)
  with k show "kernel_at t d (snd ((if jb_state j \<noteq> RUNNING then raise_op (SchedulerError ''cannot consume work'')
      else if n < 0 then raise_op (SchedulerError ''consume_work duration must be non-negative'')
      else if jb_remaining_ps j < n then raise_op (SchedulerError ''job over-consumed'')
      else modify_op (upd_job i (\<lambda>j. j\<lparr>jb_remaining_ps := jb_remaining_ps j - n\<rparr>))) k))"
    by (auto simp: op_simps)
qed

lemma wake_dependents_at: "kernel_at t d k \<Longrightarrow> kernel_at t d (wake_dependents is k)"
proof (induction "is" k rule: wake_dependents.induct)
  case (2 i "is" k)
  have "kernel_at t d (case map_of (k_jobs k) i of None \<Rightarrow> k | Some other \<Rightarrow>
      if jb_state other = PENDING \<and> dependencies_satisfied (k_jobs k) other
        \<and> jb_release_ps other \<le> k_now_ps k then make_ready i k else k)"
    using "2.prems" make_ready_at by (auto split: option.splits)
  with "2.IH" show ?case by simp
qed simp

text \<open>Completing is the one write that adds to \<open>completed\<close>; it needs the job to have had its
  dependencies, which a running job has.\<close>

lemma mark_completed_at:
  assumes k: "kernel_at t d k" and j: "map_of (k_jobs k) i = Some j" and r: "jb_state j = RUNNING"
  shows "kernel_at t d (mark_completed i k)"
proof -
  let ?cs = "if i \<in> set (k_completed k) then k_completed k else k_completed k @ [i]"
  have cs: "set ?cs = insert i (set (k_completed k))" by auto
  have "jobs_ok ?cs (k_jobs k)"
    using k by (auto simp: kernel_at_def kernel_inv_def intro: jobs_ok_mono)
  then have "jobs_ok ?cs (AList.map_entry i (\<lambda>j. j\<lparr>jb_remaining_ps := 0, jb_state := COMPLETED\<rparr>) (k_jobs k))"
    using j r by (intro jobs_ok_map_entry) (auto simp: job_ok_def)
  moreover have "i \<in> set (dkeys (k_jobs k))" using j by (force dest: map_of_SomeD)
  ultimately show ?thesis
    using k by (auto simp: mark_completed_def upd_job_def kernel_at_def kernel_inv_def clock_ok_def
        dispatch_ok_def split: if_splits)
qed

lemma complete_job_internal_at:
  assumes "kernel_at t d k" and "map_of (k_jobs k) i = Some j" and "jb_state j = RUNNING"
  shows "kernel_at t d (snd (complete_job_internal i k))"
  using wake_dependents_at[OF mark_completed_at[OF assms]]
  by (auto simp: complete_job_internal_def Let_def op_simps intro!: schedule_dispatch_now)

lemma complete_job_keeps: "keeps (kernel_at t d) (complete_job i)"
  unfolding complete_job_def
  by (rule keeps_get_job_bind) (auto simp: op_simps intro: complete_job_internal_at)

lemma consume_elapsed_job_keeps: "0 \<le> dt \<Longrightarrow> keeps (kernel_at t d) (consume_elapsed_job dt i)"
proof (rule keepsI)
  fix k :: "'c kernel" assume dt: "0 \<le> dt" and k: "kernel_at t d k"
  show "kernel_at t d (snd (consume_elapsed_job dt i k))"
  proof (cases "map_of (k_jobs k) i")
    case None
    with k show ?thesis by (simp add: consume_elapsed_job_def op_simps)
  next
    case (Some j)
    let ?f = "\<lambda>j'. j'\<lparr>jb_remaining_ps := jb_remaining_ps j' - min dt (jb_remaining_ps j)\<rparr>"
    have k1: "kernel_at t d (upd_job i ?f k)"
      using k Some by (intro kernel_at_job_update) (auto simp: job_ok_def)
    have "kernel_at t d (snd (complete_job_internal i (upd_job i ?f k)))" if "jb_state j = RUNNING"
      using that Some by (intro complete_job_internal_at[OF k1, of _ "?f j"]) (auto simp: upd_job_def dict_simps)
    with k k1 Some show ?thesis by (auto simp: consume_elapsed_job_def Let_def op_simps)
  qed
qed

lemma consume_elapsed_work_keeps: "keeps (kernel_at t d) (consume_elapsed_work t0)"
proof (rule keepsI)
  fix k :: "'c kernel" assume "kernel_at t d k"
  then show "kernel_at t d (snd (consume_elapsed_work t0 k))"
    by (auto simp: consume_elapsed_work_def Let_def op_simps
        intro!: keepsD[OF keeps_for[OF consume_elapsed_job_keeps]])
qed

lemmas kernel_ops_keep = register_job_keeps reject_job_keeps schedule_keeps release_payload_keeps
  consume_work_keeps complete_job_keeps consume_elapsed_work_keeps

section \<open>Popping the next event\<close>

lemma pop_now:
  assumes "kernel_at t False k" and "pop (k_queue k) = (Some ev, q)"
  shows "t \<le> ev_time_ps ev" and "kernel_at t True (k\<lparr>k_queue := q\<rparr>)"
    and "ev_payload ev \<noteq> Dispatch \<Longrightarrow> kernel_at t False (k\<lparr>k_queue := q\<rparr>)"
    and "\<forall>e \<in> set (live q). ev_time_ps ev \<le> ev_time_ps e"
proof -
  have qi: "queue_inv (k_queue k)" using assms(1) by (simp add: kernel_at_def kernel_inv_def clock_ok_def)
  note h = eq.pop_some[OF qi assms(2)]
  have l: "live (k_queue k) = ev # live q" and q: "queue_inv q" using h by auto
  show "t \<le> ev_time_ps ev"
    using assms(1) l by (simp add: kernel_at_def kernel_inv_def clock_ok_def)
  show "kernel_at t True (k\<lparr>k_queue := q\<rparr>)"
    using assms(1) l q by (auto simp: kernel_at_def kernel_inv_def clock_ok_def)
  show "kernel_at t False (k\<lparr>k_queue := q\<rparr>)" if "ev_payload ev \<noteq> Dispatch"
    using assms(1) l q that by (fastforce simp: kernel_at_def kernel_inv_def clock_ok_def dispatch_ok_def)
  show "\<forall>e \<in> set (live q). ev_time_ps ev \<le> ev_time_ps e"
    using live_sorted[OF qi] l by (auto dest: event_key_time)
qed

text \<open>With a bound on the events, that many iterations (and one more for the guard) are
  enough.\<close>

lemma run_loop_enough:
  "m - n < int fuel \<Longrightarrow> 0 < fuel \<Longrightarrow> run_loop fuel env e (Some m) n s \<noteq> None"
proof (induction fuel arbitrary: n s)
  case 0
  then show ?case by simp
next
  case (Suc fuel)
  show ?case
  proof (cases "loop_event e (Some m) n (fst s)")
    case None
    then show ?thesis by simp
  next
    case (Some ev)
    then have "n < m" by (auto simp: loop_event_def split: option.splits if_splits)
    with Suc.prems(1) have "m - (n + 1) < int fuel" "0 < fuel" by auto
    with Suc.IH Some show ?thesis by (auto split: sum.splits prod.splits)
  qed
qed

lemma run_until_max_events:
  "run_until (Suc (nat m)) env e (Some m) s \<noteq> None"
  unfolding run_until_def by (rule run_loop_enough) simp_all

section \<open>What the operations do\<close>

lemma dget_map_entry_state:
  "(\<And>j. jb_state (f j) = COMPLETED \<longleftrightarrow> jb_state j = COMPLETED) \<Longrightarrow>
   jb_state (dget (AList.map_entry i f js) x d) = COMPLETED \<longleftrightarrow> jb_state (dget js x d) = COMPLETED"
  by (auto simp: dget_def dict_simps split: option.splits)

lemma dependencies_satisfied_make_ready [simp]:
  "dependencies_satisfied (AList.map_entry i make_ready_job js) j = dependencies_satisfied js j"
  by (simp add: dependencies_satisfied_def dget_map_entry_state make_ready_job_def)

text \<open>The test under which \<open>_complete_job_internal\<close> wakes a job.\<close>

definition wakes :: "'c kernel \<Rightarrow> job \<Rightarrow> bool" where
  "wakes k j \<longleftrightarrow> jb_state j = PENDING \<and> dependencies_satisfied (k_jobs k) j \<and> jb_release_ps j \<le> k_now_ps k"

lemma make_ready_fields [simp]:
  "dependencies_satisfied (k_jobs (make_ready i k)) j = dependencies_satisfied (k_jobs k) j"
  "k_now_ps (make_ready i k) = k_now_ps k"
  by (simp_all add: make_ready_def upd_job_def)

lemma wakes_make_ready [simp]: "wakes (make_ready i k) j = wakes k j"
  by (simp add: wakes_def make_ready_def upd_job_def)

lemma wake_dependents_jobs:
  "map_of (k_jobs (wake_dependents is k)) i =
   map_option (\<lambda>j. if i \<in> set is \<and> wakes k j then j\<lparr>jb_state := READY\<rparr> else j) (map_of (k_jobs k) i)"
proof (induction "is" k rule: wake_dependents.induct)
  case (1 k)
  then show ?case by (simp add: option.map_ident)
next
  case (2 x "is" k)
  have *: "wakes k j \<Longrightarrow> make_ready_job j = j\<lparr>jb_state := READY\<rparr>" for j
    by (simp add: wakes_def make_ready_job_def)
  have **: "\<not> wakes k (j\<lparr>jb_state := READY\<rparr>)" for j by (simp add: wakes_def)
  let ?b = "\<lambda>other. jb_state other = PENDING \<and> dependencies_satisfied (k_jobs k) other
      \<and> jb_release_ps other \<le> k_now_ps k"
  have b: "?b = wakes k" by (auto simp: wakes_def fun_eq_iff)
  let ?k2 = "case map_of (k_jobs k) x of None \<Rightarrow> k | Some other \<Rightarrow> if ?b other then make_ready x k else k"
  have step: "wake_dependents (x # is) k = wake_dependents is ?k2" by simp
  show ?case
  proof (cases "\<exists>o'. map_of (k_jobs k) x = Some o' \<and> wakes k o'")
    case True
    then obtain o' where o: "map_of (k_jobs k) x = Some o'" "wakes k o'" by auto
    then have k2: "?k2 = make_ready x k" by (simp add: wakes_def)
    have "map_of (k_jobs (make_ready x k)) i =
        (if i = x then Some (o'\<lparr>jb_state := READY\<rparr>) else map_of (k_jobs k) i)"
      using o * by (simp add: make_ready_def upd_job_def dict_simps)
    then show ?thesis using "2.IH"[unfolded k2] step[unfolded k2] o **
      by (auto simp del: wake_dependents.simps)
  next
    case False
    then have k2: "?k2 = k" by (auto simp: wakes_def split: option.splits)
    from "2.IH"[unfolded k2] step[unfolded k2] False show ?thesis
      by (cases "map_of (k_jobs k) i") (auto simp del: wake_dependents.simps)
  qed
qed

lemma wake_dependents_fields [simp]:
  "k_now_ps (wake_dependents is k) = k_now_ps k" "k_queue (wake_dependents is k) = k_queue k"
  "k_next_dispatch_time (wake_dependents is k) = k_next_dispatch_time k"
  "k_has_callback (wake_dependents is k) = k_has_callback k"
  "k_completed (wake_dependents is k) = k_completed k"
  by (induction "is" k rule: wake_dependents.induct) (auto simp: make_ready_def split: option.splits)

text \<open>A dispatch request at the present time leaves a dispatch event at that time in the
  queue: coalescing loses none.\<close>

lemma schedule_dispatch_queued:
  assumes "kernel_inv False k" and "k_has_callback k"
  shows "\<exists>e \<in> set (live (k_queue (snd (schedule_dispatch (k_now_ps k) k)))).
    ev_payload e = Dispatch \<and> ev_phase e = DISPATCH \<and> ev_time_ps e = k_now_ps k"
proof (cases "\<exists>n. k_next_dispatch_time k = Some n \<and> n \<le> k_now_ps k")
  case True
  then obtain n where n: "k_next_dispatch_time k = Some n" "n \<le> k_now_ps k" by auto
  then obtain e where e: "e \<in> set (live (k_queue k))" "ev_payload e = Dispatch" "ev_phase e = DISPATCH"
      "ev_time_ps e = n"
    using assms(1) by (auto simp: kernel_inv_def dispatch_ok_def)
  moreover have "k_now_ps k \<le> ev_time_ps e"
    using assms(1) e(1) by (simp add: kernel_inv_def clock_ok_def)
  ultimately have "ev_time_ps e = k_now_ps k" using n by simp
  with e n assms(2) show ?thesis by (auto simp: schedule_dispatch_def op_simps)
next
  case False
  have t: "0 \<le> k_now_ps k" using assms(1) by (simp add: kernel_inv_def clock_ok_def)
  then obtain e q where p: "push (k_now_ps k) DISPATCH Dispatch (k_queue k) = Inr (e, q)"
    by (auto simp: push_def Let_def)
  have qi: "queue_inv (k_queue k)" using assms(1) by (simp add: kernel_inv_def clock_ok_def)
  have "e \<in> set (live q)" using push_live[OF qi p] by simp
  moreover have "snd (schedule_dispatch (k_now_ps k) k) =
      k\<lparr>k_next_dispatch_time := Some (k_now_ps k), k_queue := q\<rparr>"
    using False assms(2) p
    by (auto simp: schedule_dispatch_def kpush_def bind_op_def op_simps split: option.splits)
  ultimately show ?thesis using push_event[OF p] by auto
qed

lemma schedule_dispatch_jobs [simp]: "k_jobs (snd (schedule_dispatch t k)) = k_jobs k"
  by (auto simp: schedule_dispatch_def kpush_def bind_op_def op_simps split: option.splits sum.splits prod.splits)

lemma schedule_dispatch_ok:
  "kernel_inv d k \<Longrightarrow> fst (schedule_dispatch (k_now_ps k) k) = Inr ()"
  by (auto simp: schedule_dispatch_def kpush_def bind_op_def op_simps push_def Let_def kernel_inv_def
      clock_ok_def split: option.splits)

lemma complete_job_running:
  assumes "map_of (k_jobs k) i = Some j" and "jb_state j = RUNNING"
  shows "complete_job i k = complete_job_internal i k"
  using assms by (simp add: complete_job_def bind_op_def op_simps)

lemma complete_job_internal_jobs:
  "k_jobs (snd (complete_job_internal i k)) =
   k_jobs (wake_dependents (dkeys (k_jobs k)) (mark_completed i k))"
  by (simp add: complete_job_internal_def Let_def op_simps mark_completed_def upd_job_def)

text \<open>Completing a running job wakes its dependents: every job that waits, has all its
  dependencies completed and its release behind it is \<open>READY\<close> afterwards, no other job
  changes its state, and with a dispatch callback the event that will dispatch the woken
  jobs is queued at the present time.\<close>

lemma complete_job_wakes_dependents:
  assumes "kernel_at t False k" and "map_of (k_jobs k) i = Some j" and "jb_state j = RUNNING"
  defines "k' \<equiv> snd (complete_job i k)"
  shows "fst (complete_job i k) = Inr ()"
    and "map_of (k_jobs k') i = Some (j\<lparr>jb_remaining_ps := 0, jb_state := COMPLETED\<rparr>)"
    and "\<forall>x o'. x \<noteq> i \<longrightarrow> map_of (k_jobs k) x = Some o' \<longrightarrow> map_of (k_jobs k') x =
      Some (if wakes (mark_completed i k) o' then o'\<lparr>jb_state := READY\<rparr> else o')"
    and "k_has_callback k \<longrightarrow> ready_jobs k' \<noteq> [] \<longrightarrow> (\<exists>e \<in> set (live (k_queue k')).
      ev_payload e = Dispatch \<and> ev_phase e = DISPATCH \<and> ev_time_ps e = t)"
proof -
  let ?m = "mark_completed i k" and ?w = "wake_dependents (dkeys (k_jobs k)) (mark_completed i k)"
  have m: "kernel_at t False ?m" by (rule mark_completed_at[OF assms(1-3)])
  have w: "kernel_at t False ?w" by (rule wake_dependents_at[OF m])
  have k': "k' = snd (complete_job_internal i k)"
    unfolding k'_def using assms(2,3) by (simp add: complete_job_running)
  have c: "complete_job_internal i k =
      (if jobs_in_state READY ?w \<noteq> [] then schedule_dispatch (k_now_ps ?w) ?w else ret () ?w)"
    by (simp add: complete_job_internal_def Let_def mark_completed_def upd_job_def)
  have "fst (schedule_dispatch (k_now_ps ?w) ?w) = Inr ()"
    using schedule_dispatch_ok[of False ?w] w by (simp only: kernel_at_def)
  then show "fst (complete_job i k) = Inr ()"
    using c assms(2,3) by (simp add: complete_job_running op_simps del: wake_dependents_fields)
  have keys: "x \<in> set (dkeys (k_jobs k))" if "map_of (k_jobs k) x = Some o'" for x o'
    using that by (force dest: map_of_SomeD)
  have mj: "map_of (k_jobs ?m) x = (if x = i then Some (j\<lparr>jb_remaining_ps := 0, jb_state := COMPLETED\<rparr>)
      else map_of (k_jobs k) x)" for x
    using assms(2) by (simp add: mark_completed_def upd_job_def dict_simps)
  have jobs: "k_jobs k' = k_jobs ?w" using k' by (simp add: complete_job_internal_jobs)
  show "map_of (k_jobs k') i = Some (j\<lparr>jb_remaining_ps := 0, jb_state := COMPLETED\<rparr>)"
    using jobs mj by (simp add: wake_dependents_jobs wakes_def)
  show "\<forall>x o'. x \<noteq> i \<longrightarrow> map_of (k_jobs k) x = Some o' \<longrightarrow> map_of (k_jobs k') x =
      Some (if wakes (mark_completed i k) o' then o'\<lparr>jb_state := READY\<rparr> else o')"
    using jobs mj keys by (simp add: wake_dependents_jobs)
  show "k_has_callback k \<longrightarrow> ready_jobs k' \<noteq> [] \<longrightarrow> (\<exists>e \<in> set (live (k_queue k')).
      ev_payload e = Dispatch \<and> ev_phase e = DISPATCH \<and> ev_time_ps e = t)"
  proof (intro impI)
    assume cb: "k_has_callback k" and r: "ready_jobs k' \<noteq> []"
    have "jobs_in_state READY ?w \<noteq> []"
      using r jobs by (metis jobs_in_state_def ready_jobs_def sort_key_simps(1))
    then have "k' = snd (schedule_dispatch (k_now_ps ?w) ?w)" using k' c by simp
    moreover have "k_has_callback ?w" using cb by (simp add: mark_completed_def)
    ultimately show "\<exists>e \<in> set (live (k_queue k')).
        ev_payload e = Dispatch \<and> ev_phase e = DISPATCH \<and> ev_time_ps e = t"
      using schedule_dispatch_queued[of ?w] w unfolding kernel_at_def by metis
  qed
qed


section \<open>Work consumed by the passing of time\<close>

text \<open>What \<open>delta\<close> picoseconds do to a job: \<open>j\<close> before, \<open>j'\<close> after, when its turn in the loop
  has come (\<open>mine\<close>) or not.\<close>

definition elapsed :: "int \<Rightarrow> bool \<Rightarrow> job \<Rightarrow> job \<Rightarrow> bool" where
  "elapsed delta mine j j' \<longleftrightarrow>
     (if mine \<and> jb_state j = RUNNING
      then jb_remaining_ps j' = jb_remaining_ps j - min delta (jb_remaining_ps j) \<and>
           jb_state j' = (if jb_remaining_ps j \<le> delta then COMPLETED else RUNNING)
      else jb_remaining_ps j' = jb_remaining_ps j \<and>
           (jb_state j' = jb_state j \<or> jb_state j = PENDING \<and> jb_state j' = READY))"

lemma complete_job_internal_effect:
  assumes "kernel_at t d k" and "map_of (k_jobs k) i = Some j" and "jb_state j = RUNNING"
  shows "fst (complete_job_internal i k) = Inr ()"
    and "map_of (k_jobs (snd (complete_job_internal i k))) x =
      (if x = i then Some (j\<lparr>jb_remaining_ps := 0, jb_state := COMPLETED\<rparr>)
       else map_option (\<lambda>o'. if wakes (mark_completed i k) o' then o'\<lparr>jb_state := READY\<rparr> else o')
         (map_of (k_jobs k) x))"
proof -
  let ?w = "wake_dependents (dkeys (k_jobs k)) (mark_completed i k)"
  have w: "kernel_at t d ?w" by (rule wake_dependents_at[OF mark_completed_at[OF assms]])
  have "complete_job_internal i k =
      (if jobs_in_state READY ?w \<noteq> [] then schedule_dispatch (k_now_ps ?w) ?w else ret () ?w)"
    by (simp add: complete_job_internal_def Let_def mark_completed_def upd_job_def)
  moreover have "fst (schedule_dispatch (k_now_ps ?w) ?w) = Inr ()"
    using schedule_dispatch_ok[of d ?w] w by (simp only: kernel_at_def)
  ultimately show "fst (complete_job_internal i k) = Inr ()"
    by (simp add: op_simps del: wake_dependents_fields)
  have "x \<in> set (dkeys (k_jobs k))" if "map_of (k_jobs k) x = Some o'" for o'
    using that by (force dest: map_of_SomeD)
  moreover have "map_of (k_jobs (mark_completed i k)) x =
      (if x = i then Some (j\<lparr>jb_remaining_ps := 0, jb_state := COMPLETED\<rparr>) else map_of (k_jobs k) x)"
    using assms(2) by (simp add: mark_completed_def upd_job_def dict_simps)
  ultimately show "map_of (k_jobs (snd (complete_job_internal i k))) x =
      (if x = i then Some (j\<lparr>jb_remaining_ps := 0, jb_state := COMPLETED\<rparr>)
       else map_option (\<lambda>o'. if wakes (mark_completed i k) o' then o'\<lparr>jb_state := READY\<rparr> else o')
         (map_of (k_jobs k) x))"
    by (cases "map_of (k_jobs k) x")
      (auto simp: complete_job_internal_jobs wake_dependents_jobs wakes_def)
qed

lemma consume_elapsed_job_effect:
  assumes k: "kernel_at t d k" and dt: "0 \<le> dt"
  shows "fst (consume_elapsed_job dt i k) = Inr ()"
    and "map_of (k_jobs k) x = Some j \<Longrightarrow>
      \<exists>j'. map_of (k_jobs (snd (consume_elapsed_job dt i k))) x = Some j' \<and> elapsed dt (x = i) j j'"
proof -
  have "fst (consume_elapsed_job dt i k) = Inr () \<and> (map_of (k_jobs k) x = Some j \<longrightarrow>
      (\<exists>j'. map_of (k_jobs (snd (consume_elapsed_job dt i k))) x = Some j' \<and> elapsed dt (x = i) j j'))"
  proof (cases "\<exists>ji. map_of (k_jobs k) i = Some ji \<and> jb_state ji = RUNNING")
    case False
    then have "consume_elapsed_job dt i k = ret () k"
      by (auto simp: consume_elapsed_job_def split: option.splits)
    with False show ?thesis by (auto simp: op_simps elapsed_def)
  next
    case True
    then obtain ji where ji: "map_of (k_jobs k) i = Some ji" "jb_state ji = RUNNING" by auto
    let ?f = "\<lambda>j'. j'\<lparr>jb_remaining_ps := jb_remaining_ps j' - min dt (jb_remaining_ps ji)\<rparr>"
    let ?k1 = "upd_job i ?f k"
    have k1: "kernel_at t d ?k1" using k ji by (intro kernel_at_job_update) (auto simp: job_ok_def)
    have j1: "map_of (k_jobs ?k1) y = (if y = i then Some (?f ji) else map_of (k_jobs k) y)" for y
      using ji by (simp add: upd_job_def dict_simps)
    have r1: "jb_state (?f ji) = RUNNING" using ji by simp
    have "map_of (k_jobs ?k1) i = Some (?f ji)" by (simp add: j1)
    note ce = complete_job_internal_effect[OF k1 this r1]
    have e: "consume_elapsed_job dt i k =
        (if jb_remaining_ps ji \<le> dt then complete_job_internal i ?k1 else ret () ?k1)"
      using ji by (auto simp: consume_elapsed_job_def Let_def min_def)
    show ?thesis
    proof (cases "jb_remaining_ps ji \<le> dt")
      case True
      then have c: "consume_elapsed_job dt i k = complete_job_internal i ?k1" using e by simp
      show ?thesis
      proof (cases "x = i")
        case True
        with ce(2)[of x] have "map_of (k_jobs (snd (complete_job_internal i ?k1))) x =
            Some ((?f ji)\<lparr>jb_remaining_ps := 0, jb_state := COMPLETED\<rparr>)" by simp
        then have m: "map_of (k_jobs (snd (consume_elapsed_job dt i k))) x =
            Some ((?f ji)\<lparr>jb_remaining_ps := 0, jb_state := COMPLETED\<rparr>)" by (simp only: c)
        have "fst (consume_elapsed_job dt i k) = Inr ()" using ce(1) by (simp only: c)
        with m ji True \<open>jb_remaining_ps ji \<le> dt\<close> show ?thesis by (auto simp: elapsed_def)
      next
        case False
        with ce(2)[of x] j1[of x] have "map_of (k_jobs (snd (complete_job_internal i ?k1))) x =
            map_option (\<lambda>o'. if wakes (mark_completed i ?k1) o' then o'\<lparr>jb_state := READY\<rparr> else o')
              (map_of (k_jobs k) x)" by simp
        then have m: "map_of (k_jobs (snd (consume_elapsed_job dt i k))) x =
            map_option (\<lambda>o'. if wakes (mark_completed i ?k1) o' then o'\<lparr>jb_state := READY\<rparr> else o')
              (map_of (k_jobs k) x)" by (simp only: c)
        have "fst (consume_elapsed_job dt i k) = Inr ()" using ce(1) by (simp only: c)
        with m False show ?thesis by (simp add: elapsed_def wakes_def)
      qed
    next
      case False
      with e j1[of x] ji show ?thesis by (auto simp: elapsed_def op_simps min_def)
    qed
  qed
  then show "fst (consume_elapsed_job dt i k) = Inr ()"
    and "map_of (k_jobs k) x = Some j \<Longrightarrow>
      \<exists>j'. map_of (k_jobs (snd (consume_elapsed_job dt i k))) x = Some j' \<and> elapsed dt (x = i) j j'"
    by auto
qed

lemma elapsed_trans:
  "elapsed dt b j j1 \<Longrightarrow> elapsed dt c j1 j2 \<Longrightarrow> \<not> (b \<and> c) \<Longrightarrow> elapsed dt (b \<or> c) j j2"
  by (auto simp: elapsed_def split: if_splits)

lemma consume_elapsed_loop:
  assumes "kernel_at t d k" and "0 \<le> dt" and "distinct is"
  shows "fst (for_op is (consume_elapsed_job dt) k) = Inr () \<and>
    (\<forall>x j. map_of (k_jobs k) x = Some j \<longrightarrow>
      (\<exists>j'. map_of (k_jobs (snd (for_op is (consume_elapsed_job dt) k))) x = Some j' \<and>
        elapsed dt (x \<in> set is) j j'))"
  using assms
proof (induction "is" arbitrary: k)
  case Nil
  then show ?case by (simp add: op_simps elapsed_def)
next
  case (Cons i "is")
  let ?k1 = "snd (consume_elapsed_job dt i k)"
  note e = consume_elapsed_job_effect[OF Cons.prems(1,2)]
  have k1: "kernel_at t d ?k1" by (rule keepsD[OF consume_elapsed_job_keeps[OF Cons.prems(2)] Cons.prems(1)])
  have f: "for_op (i # is) (consume_elapsed_job dt) k = for_op is (consume_elapsed_job dt) ?k1"
    using e(1)[of i] by (cases "consume_elapsed_job dt i k") (simp add: seq_op_def bind_op_def)
  have ih: "fst (for_op is (consume_elapsed_job dt) ?k1) = Inr () \<and>
    (\<forall>x j. map_of (k_jobs ?k1) x = Some j \<longrightarrow>
      (\<exists>j'. map_of (k_jobs (snd (for_op is (consume_elapsed_job dt) ?k1))) x = Some j' \<and>
        elapsed dt (x \<in> set is) j j'))"
    using Cons.IH[OF k1 Cons.prems(2)] Cons.prems(3) by simp
  have "\<exists>j'. map_of (k_jobs (snd (for_op is (consume_elapsed_job dt) ?k1))) x = Some j' \<and>
      elapsed dt (x \<in> set (i # is)) j j'" if x: "map_of (k_jobs k) x = Some j" for x j
  proof -
    obtain j1 where j1: "map_of (k_jobs ?k1) x = Some j1" "elapsed dt (x = i) j j1"
      using e(2)[OF x] by auto
    obtain j2 where j2: "map_of (k_jobs (snd (for_op is (consume_elapsed_job dt) ?k1))) x = Some j2"
        "elapsed dt (x \<in> set is) j1 j2"
      using ih j1(1) by blast
    have "elapsed dt (x = i \<or> x \<in> set is) j j2"
      using elapsed_trans[OF j1(2) j2(2)] Cons.prems(3) by auto
    with j2(1) show ?thesis by auto
  qed
  with ih f show ?case by simp
qed

section \<open>Properties of the kernel\<close>


text \<open>C2. Completing a running job succeeds and wakes its dependents: the job has no work left,
  every job that waits, has all its dependencies completed and its release behind it is
  \<open>READY\<close> afterwards, no other job changes, and with a dispatch callback the event that will
  dispatch the woken jobs is queued at the present time.\<close>

theorem complete_job_correct:
  assumes "kernel_at t False k" and "map_of (k_jobs k) i = Some j" and "jb_state j = RUNNING"
  shows "case complete_job i k of (r, k') \<Rightarrow>
    r = Inr () \<and>
    map_of (k_jobs k') i = Some (j\<lparr>jb_remaining_ps := 0, jb_state := COMPLETED\<rparr>) \<and>
    (\<forall>x o'. x \<noteq> i \<longrightarrow> map_of (k_jobs k) x = Some o' \<longrightarrow> map_of (k_jobs k') x =
      Some (if wakes (mark_completed i k) o' then o'\<lparr>jb_state := READY\<rparr> else o')) \<and>
    (k_has_callback k \<longrightarrow> ready_jobs k' \<noteq> [] \<longrightarrow> (\<exists>e \<in> set (live (k_queue k')).
      ev_payload e = Dispatch \<and> ev_phase e = DISPATCH \<and> ev_time_ps e = t))"
  using complete_job_wakes_dependents[OF assms] by (auto split: prod.splits)

text \<open>C4. When the clock has advanced, every running job has consumed the elapsed time, at
  most what it had left, and is completed exactly when that was all of it; no other job's
  work is touched, and the only other change is that waiting jobs become ready.\<close>

theorem consume_elapsed_work_correct:
  assumes "kernel_at t d k" and "t0 < t" and "map_of (k_jobs k) x = Some j"
  shows "fst (consume_elapsed_work t0 k) = Inr () \<and>
    (\<exists>j'. map_of (k_jobs (snd (consume_elapsed_work t0 k))) x = Some j' \<and> elapsed (t - t0) True j j')"
proof -
  have "x \<in> set (dkeys (k_jobs k))" using assms(3) by (force dest: map_of_SomeD)
  moreover have "distinct (dkeys (k_jobs k))"
    using assms(1) by (simp add: kernel_at_def kernel_inv_def jobs_ok_def dict_ok_def)
  moreover have "consume_elapsed_work t0 k = for_op (dkeys (k_jobs k)) (consume_elapsed_job (t - t0)) k"
    using assms(1,2) by (simp add: consume_elapsed_work_def Let_def kernel_at_def)
  ultimately show ?thesis
    using consume_elapsed_loop[OF assms(1), of "t - t0" "dkeys (k_jobs k)"] assms(2,3) by fastforce
qed


text \<open>A kernel at time 5 with a callback, a running job with 3 of its 10 picoseconds left and
  a job that waits for it, and a job that waits for one not registered: the input of the witnesses.\<close>

definition sample_kernel :: "unit kernel" where
  "sample_kernel = \<lparr>k_frequency_mhz = 1000, k_ps_per_cycle = 1000, k_now_ps = 5,
     k_queue = empty_queue,
     k_jobs = [(''a'', (new_job ''a'' 10 0 10 0 [])\<lparr>jb_state := RUNNING, jb_remaining_ps := 3\<rparr>),
               (''b'', new_job ''b'' 4 0 9 1 [''a'']),
               (''d'', new_job ''d'' 2 0 6 1 [''e''])],
     k_completed = [], k_rejected = [], k_has_callback = True, k_completed_ids = {},
     k_rejected_ids = {}, k_next_dispatch_time = None\<rparr>"

lemma sample_kernel_at: "kernel_at 5 False sample_kernel"
  by (auto simp: sample_kernel_def kernel_at_def kernel_inv_def clock_ok_def dispatch_ok_def
      queue_inv_empty live_def empty_queue_def queue_inv_empty[unfolded empty_queue_def] jobs_ok_def
      job_ok_def new_job_def split: if_splits)

lemma complete_job_correct_witness:
  "case complete_job ''a'' sample_kernel of (r, k') \<Rightarrow>
    r = Inr () \<and> map_of (k_jobs k') ''b'' = Some ((new_job ''b'' 4 0 9 1 [''a''])\<lparr>jb_state := READY\<rparr>)"
proof -
  let ?j = "(new_job ''a'' 10 0 10 0 [])\<lparr>jb_state := RUNNING, jb_remaining_ps := 3\<rparr>"
  have "map_of (k_jobs sample_kernel) ''a'' = Some ?j" "jb_state ?j = RUNNING"
    by (simp_all add: sample_kernel_def)
  note c = complete_job_correct[OF sample_kernel_at this]
  have "map_of (k_jobs sample_kernel) ''b'' = Some (new_job ''b'' 4 0 9 1 [''a''])"
    by (simp add: sample_kernel_def)
  moreover have "wakes (mark_completed ''a'' sample_kernel) (new_job ''b'' 4 0 9 1 [''a''])"
    by (simp add: sample_kernel_def wakes_def mark_completed_def upd_job_def new_job_def
        dependencies_satisfied_def)
  ultimately show ?thesis using c by (auto split: prod.splits)
qed

lemma consume_elapsed_work_correct_witness:
  "fst (consume_elapsed_work 2 sample_kernel) = Inr () \<and>
   (\<exists>j'. map_of (k_jobs (snd (consume_elapsed_work 2 sample_kernel))) ''a'' = Some j' \<and>
     jb_state j' = COMPLETED \<and> jb_remaining_ps j' = 0)"
proof -
  let ?j = "(new_job ''a'' 10 0 10 0 [])\<lparr>jb_state := RUNNING, jb_remaining_ps := 3\<rparr>"
  have "map_of (k_jobs sample_kernel) ''a'' = Some ?j" by (simp add: sample_kernel_def)
  from consume_elapsed_work_correct[OF sample_kernel_at _ this, of 2] show ?thesis
    by (auto simp: elapsed_def)
qed

lemma acyclic_new_source:
  assumes a: "acyclic r" and i: "\<And>x y. (x, y) \<in> s \<Longrightarrow> x = i" and n: "(i, i) \<notin> (r \<union> s)\<^sup>+"
  shows "acyclic (r \<union> s)"
proof (rule acyclicI, intro allI notI)
  fix v assume v: "(v, v) \<in> (r \<union> s)\<^sup>+"
  have split: "(v, w) \<in> r\<^sup>+ \<or> (v, i) \<in> (r \<union> s)\<^sup>* \<and> (i, w) \<in> (r \<union> s)\<^sup>+"
    if "(v, w) \<in> (r \<union> s)\<^sup>+" for w
    using that
  proof (induction rule: trancl_induct)
    case (base y)
    then show ?case using i by auto
  next
    case (step y z)
    show ?case
    proof (cases "y = i")
      case True
      with step show ?thesis by (meson r_into_trancl trancl_into_rtrancl)
    next
      case False
      with step i have "(y, z) \<in> r" by auto
      with step show ?thesis by (meson trancl.trancl_into_trancl)
    qed
  qed
  from split[OF v] a have "(v, i) \<in> (r \<union> s)\<^sup>*" "(i, v) \<in> (r \<union> s)\<^sup>+"
    by (auto simp: acyclic_def)
  then have "(i, i) \<in> (r \<union> s)\<^sup>+" by simp
  with n show False by simp
qed

text \<open>C5. Registration and dependency cycles: on a job that passes the other checks the cycle
  error is raised exactly when the new job reaches itself through \<open>depends_on\<close>; a
  registration that returns keeps the dependency graph acyclic; and after the cycle error
  the job nevertheless stays in \<open>jobs\<close>, \<open>PENDING\<close>, where nothing will ever release it.\<close>

theorem register_job_cycle_check:
  fixes k :: "'c kernel" and prio :: int
  assumes "i \<noteq> []" and "\<not> din i (k_jobs k)" and "0 \<le> work" and "k_now_ps k \<le> rel"
    and "\<And>x. dl = Some x \<Longrightarrow> 0 \<le> x" and "i \<notin> set deps" and "kernel_inv False k"
  defines "job \<equiv> new_job i work rel (case dl of None \<Rightarrow> work | Some x \<Rightarrow> x) prio (remdups deps)"
  shows "case register_job i work rel dl prio deps k of (r, k') \<Rightarrow>
    (if (i, i) \<in> (dep_edges (AList.update i job (k_jobs k)))\<^sup>+
     then r = Inl (SchedulerError ''cyclic dependency detected'') \<and> map_of (k_jobs k') i = Some job
     else r = Inr () \<and> (acyclic (dep_edges (k_jobs k)) \<longrightarrow> acyclic (dep_edges (k_jobs k'))))"
proof -
  let ?js = "AList.update i job (k_jobs k)" and ?k1 = "k\<lparr>k_jobs := AList.update i job (k_jobs k)\<rparr>"
  have rel: "0 \<le> rel" and q: "clock_ok k" using assms(4,7) by (auto simp: kernel_inv_def clock_ok_def)
  have nn: "0 \<le> (case dl of None \<Rightarrow> work | Some x \<Rightarrow> x)" using assms(3,5) by (auto split: option.splits)
  have r: "register_job i work rel dl prio deps k =
      (if detect_cycle ?js i then raise_op (SchedulerError ''cyclic dependency detected'') ?k1
       else if rel = k_now_ps ?k1 \<and> dependencies_satisfied ?js job then schedule_dispatch rel (make_ready i ?k1)
       else if rel = k_now_ps ?k1 then ret () ?k1
       else bind_op (kpush rel RELEASE (Release i)) (\<lambda>_. ret ()) ?k1)"
    using assms(1-4,6) nn by (simp add: register_job_def Let_def job_def)
  have edges: "dep_edges ?js = dep_edges (k_jobs k) \<union> {(i, d) |d. d \<in> set deps}"
    using assms(2) by (auto simp: dep_edges_def dict_simps job_def new_job_def split: if_splits)
  have acy: "acyclic (dep_edges ?js)"
    if "acyclic (dep_edges (k_jobs k))" and "(i, i) \<notin> (dep_edges ?js)\<^sup>+"
    using acyclic_new_source[OF that(1), where i = i and s = "{(i, d) |d. d \<in> set deps}"] that(2) unfolding edges by auto
  have mk: "dep_edges (k_jobs (make_ready i ?k1)) = dep_edges ?js"
    by (auto simp: dep_edges_def make_ready_def upd_job_def dict_simps make_ready_job_def split: if_splits)
  have kp: "fst (bind_op (kpush rel RELEASE (Release i)) (\<lambda>_. ret ()) ?k1) = Inr () \<and>
      k_jobs (snd (bind_op (kpush rel RELEASE (Release i)) (\<lambda>_. ret ()) ?k1)) = ?js"
    using rel by (simp add: kpush_def push_def Let_def bind_op_def op_simps)
  have sd: "fst (schedule_dispatch rel k2) = Inr ()" for k2 :: "'c kernel"
    using rel by (auto simp: schedule_dispatch_def kpush_def push_def Let_def bind_op_def op_simps split: option.splits)
  show ?thesis
  proof (cases "(i, i) \<in> (dep_edges ?js)\<^sup>+")
    case True
    then have "detect_cycle ?js i" by (simp add: detect_cycle_iff)
    with True r show ?thesis by (simp add: op_simps dict_simps)
  next
    case False
    then have "\<not> detect_cycle ?js i" by (simp add: detect_cycle_iff)
    with False r kp sd[of "make_ready i ?k1"] mk acy[OF _ False] show ?thesis
      by (auto simp: op_simps split: prod.splits) (metis fst_conv schedule_dispatch_jobs snd_conv)+
  qed
qed

lemma register_job_cycle_check_witness:
  "fst (register_job ''e'' 1 7 None 0 [''d''] sample_kernel)
     = Inl (SchedulerError ''cyclic dependency detected'') \<and>
   din ''e'' (k_jobs (snd (register_job ''e'' 1 7 None 0 [''d''] sample_kernel)))"
proof -
  have "detect_cycle (AList.update ''e'' (new_job ''e'' 1 7 1 0 [''d'']) (k_jobs sample_kernel)) ''e''"
    by (simp add: detect_cycle_def sample_kernel_def new_job_def)
  then show ?thesis
    using register_job_cycle_check[of "''e''" sample_kernel 1 7 None "[''d'']" 0] sample_kernel_at
    by (auto simp: detect_cycle_iff kernel_at_def sample_kernel_def[THEN arg_cong[of _ _ k_now_ps]]
        sample_kernel_def[THEN arg_cong[of _ _ k_jobs]] split: prod.splits)
qed


text \<open>C6. \<open>run_until\<close> with a bound on the events returns or raises after at most that many
  iterations, whatever the client's closures and callback do.\<close>

theorem run_until_terminates:
  "\<exists>r. run_until (Suc (nat m)) env end_time (Some m) s = Some r"
  using run_until_max_events[of m env end_time s] by blast

text \<open>A client without closures of its own, for running the kernel on its own events.\<close>

definition idle_env :: "(unit, unit) kernel_env" where
  "idle_env = \<lparr>env_client = \<lambda>_. ret (), env_callback = \<lambda>_. ret ()\<rparr>"

definition release_both :: "(unit kernel, unit) op" where
  "release_both = seq_op (register_job ''a'' 1 5 None 0 []) (register_job ''b'' 1 5 None 0 [])"

text \<open>Two jobs released at the same later time, on a fresh kernel without a dispatcher:
  the second release event neither advances the clock nor consumes work, so \<open>run_until\<close>
  raises the livelock error although the event made its job ready.\<close>

theorem simultaneous_releases_raise:
  "case kernel_new 1000 False of Inl _ \<Rightarrow> False | Inr k \<Rightarrow>
     fst (release_both k) = Inr () \<and>
     (case run_until 5 idle_env None None (snd (release_both k), ()) of None \<Rightarrow> False | Some (r, (k', _)) \<Rightarrow>
        r = Inl (SchedulerError ''zero-time livelock detected'') \<and>
        map jb_job_id (ready_jobs k') = [''a'', ''b''])"
  by code_simp


lemma ps_per_cycle_nonneg: "kernel_new f cb = Inr k \<Longrightarrow> 0 \<le> k_ps_per_cycle k"
  by (auto simp: kernel_new_def fdiv_int_def split: if_splits intro!: fl_nonneg)

lemma cycles_to_ps_value:
  "0 \<le> c \<Longrightarrow> cycles_to_ps c k = Inr \<lceil>fmul (int_to_float c) (k_ps_per_cycle k)\<rceil>"
  by (auto simp: cycles_to_ps_def fmul_def int_to_float_def)

lemma cycle_quotient:
  assumes "0 < f" and "f * q = (1000000::int)"
  shows "1 \<le> q" and "q \<le> 1000000" and "1000000 div f = q"
proof -
  have "0 < f * q" using assms(2) by simp
  then show q: "1 \<le> q" using assms(1) by (simp add: zero_less_mult_iff)
  have "1 * q \<le> f * q" using assms(1) q by (intro mult_right_mono) auto
  then show "q \<le> 1000000" using assms(2) by linarith
  show "1000000 div f = q" using assms by (metis nonzero_mult_div_cancel_left less_irrefl)
qed

text \<open>When a cycle is a whole number \<open>q\<close> of picoseconds, no rounding happens up to \<open>2^53\<close>.\<close>

lemma exact_cycles:
  assumes "0 < f" and "f * q = 1000000" and "0 \<le> c" and "c * q \<le> 2 ^ 53"
  shows "\<lceil>fmul (int_to_float c) (fdiv_int 1000000 f)\<rceil> = c * q"
proof -
  note q = cycle_quotient[OF assms(1,2)]
  have "(of_int 1000000 :: rat) / of_int f = of_int q"
    unfolding assms(2)[symmetric] using assms(1) by simp
  then have pq: "fdiv_int 1000000 f = of_int q"
    using fl_int[of q] q by (simp add: fdiv_int_def)
  have "c \<le> 2 ^ 53" using mult_left_mono[of 1 q c] assms(3,4) q(1) by simp
  then have "int_to_float c = of_int c" using assms(3) fl_int[of c] by (simp add: int_to_float_def)
  then have "fmul (int_to_float c) (fdiv_int 1000000 f) = of_int (c * q)"
    using fl_int[of "c * q"] pq assms(3,4) q(1) unfolding fmul_def by simp
  then have "\<lceil>fmul (int_to_float c) (fdiv_int 1000000 f)\<rceil> = \<lceil>rat_of_int (c * q)\<rceil>" by (simp only:)
  then show ?thesis by (simp only: ceiling_of_int)
qed

text \<open>The conversion of cycles is total and monotone on non-negative counts, and exact when
  a cycle is a whole number of picoseconds and the product stays within \<open>2^53\<close>.\<close>

theorem cycles_to_ps_correct:
  assumes "kernel_new f cb = Inr k" and "0 \<le> c" and "c \<le> c'"
  shows "\<exists>n n'. cycles_to_ps c k = Inr n \<and> cycles_to_ps c' k = Inr n' \<and> 0 \<le> n \<and> n \<le> n' \<and>
    (f dvd 1000000 \<and> c * (1000000 div f) \<le> 2 ^ 53 \<longrightarrow> n = c * (1000000 div f))"
proof -
  let ?p = "k_ps_per_cycle k"
  have p: "0 \<le> ?p" by (rule ps_per_cycle_nonneg[OF assms(1)])
  have m: "fmul (int_to_float c) ?p \<le> fmul (int_to_float c') ?p"
    unfolding fmul_def int_to_float_def using assms(3) p by (intro fl_mono mult_right_mono) auto
  have nn: "0 \<le> fmul (int_to_float c) ?p"
    unfolding fmul_def int_to_float_def using assms(2) p by (intro fl_nonneg mult_nonneg_nonneg) auto
  have ex: "\<lceil>fmul (int_to_float c) ?p\<rceil> = c * (1000000 div f)"
    if d: "f dvd 1000000" and b: "c * (1000000 div f) \<le> 2 ^ 53"
  proof -
    have f: "0 < f" and k: "?p = fdiv_int 1000000 f"
      using assms(1) by (auto simp: kernel_new_def split: if_splits)
    obtain q where q: "f * q = 1000000" using d by (metis dvdE)
    have qd: "1000000 div f = q" using cycle_quotient(3)[OF f q] .
    show ?thesis using exact_cycles[OF f q assms(2)] b unfolding k qd by blast
  qed
  have z: "0 \<le> \<lceil>fmul (int_to_float c) ?p\<rceil>" using nn by linarith
  show ?thesis
    using cycles_to_ps_value[of c k] cycles_to_ps_value[of c' k] assms(2,3) ceiling_mono[OF m] ex z
    by auto
qed

lemma cycles_to_ps_correct_witness:
  "\<exists>k. kernel_new 1000 False = (Inr k :: unit kernel result) \<and> cycles_to_ps 7 k = Inr 7000"
proof -
  obtain k :: "unit kernel" where k: "kernel_new 1000 False = Inr k" by (auto simp: kernel_new_def)
  then show ?thesis using cycles_to_ps_correct[OF k, of 7 7] by auto
qed

end
