(* ===== verification/Sched_Kernel_Client.thy ===== *)
theory Sched_Kernel_Client
  imports Sched_Kernel_Inv
begin

text \<open>
  The interface between the event kernel and the client that runs on it, as the locale
  \<open>kernel_client\<close>: what the client promises of its closures, what the kernel's own actions
  leave alone (\<open>own_step\<close>), and what the event loop then guarantees, whatever events are
  queued. The scenario runner is the client it is interpreted on.
\<close>

section \<open>What the kernel's own actions may change\<close>

text \<open>Between two closures the kernel moves the clock, charges work, releases and wakes jobs and
  queues events; it never forgets a sequence number, registers a job, or changes
  dependencies, and without a callback it announces no dispatch.\<close>

definition job_frame :: "jobs \<Rightarrow> (string \<times> string list) list" where
  "job_frame js = map (\<lambda>(i, j). (i, jb_depends_on j)) js"

definition own_step :: "'c kernel \<Rightarrow> 'c kernel \<Rightarrow> bool" where
  "own_step k k' \<longleftrightarrow> eq_seq (k_queue k) \<le> eq_seq (k_queue k') \<and> k_has_callback k' = k_has_callback k \<and>
     (k_has_callback k \<or> k_next_dispatch_time k \<noteq> None \<or> k_next_dispatch_time k' = None) \<and>
     job_frame (k_jobs k') = job_frame (k_jobs k)"

lemma own_step_refl [simp]: "own_step k k"
  by (auto simp: own_step_def)

lemma own_step_trans: "own_step a b \<Longrightarrow> own_step b c \<Longrightarrow> own_step a c"
  by (auto simp: own_step_def)

definition own :: "('c kernel, 'a) op \<Rightarrow> bool" where
  "own m \<longleftrightarrow> (\<forall>k. own_step k (snd (m k)))"

lemma own_ret: "own (ret x)"
  by (simp add: own_def op_simps)

lemma own_seq: "own m \<Longrightarrow> own n \<Longrightarrow> own (seq_op m n)"
  by (fastforce simp: own_def seq_op_def bind_op_def split: prod.splits sum.splits intro: own_step_trans)

lemma own_for: "(\<And>x. own (f x)) \<Longrightarrow> own (for_op xs f)"
  by (induction xs) (auto intro: own_ret own_seq)

lemma job_frame_map_entry:
  "(\<And>j. jb_depends_on (f j) = jb_depends_on j) \<Longrightarrow> job_frame (AList.map_entry i f js) = job_frame js"
  by (induction js) (auto simp: job_frame_def)

lemma own_upd_job: "(\<And>j. jb_depends_on (f j) = jb_depends_on j) \<Longrightarrow> own_step k (upd_job i f k)"
  by (auto simp: own_step_def upd_job_def job_frame_map_entry)

lemma own_make_ready: "own_step k (make_ready i k)"
  unfolding make_ready_def by (rule own_upd_job) (simp add: make_ready_job_def)

lemma push_seq: "push t p x q = Inr (e, q') \<Longrightarrow> eq_seq q' = Suc (eq_seq q) \<and> ev_seq e = eq_seq q"
  by (auto simp: push_def Let_def split: if_splits)

lemma own_schedule_dispatch: "own_step k (snd (schedule_dispatch t k))"
  by (auto simp: own_step_def schedule_dispatch_def op_simps bind_op_def kpush_def
      split: option.splits sum.splits prod.splits dest: push_seq)

lemma own_wake: "own_step k (wake_dependents is k)"
proof (induction "is" k rule: wake_dependents.induct)
  case (2 i "is" k)
  then show ?case
    by (auto split: option.splits if_splits intro: own_step_trans[OF own_make_ready])
qed simp

lemma own_mark_completed: "own_step k (mark_completed i k)"
  by (auto simp: own_step_def mark_completed_def upd_job_def intro!: job_frame_map_entry[symmetric]
      job_frame_map_entry)

lemma own_complete_internal: "own_step k (snd (complete_job_internal i k))"
proof -
  have "own_step k (wake_dependents (dkeys (k_jobs (mark_completed i k))) (mark_completed i k))"
    by (rule own_step_trans[OF own_mark_completed own_wake])
  then show ?thesis
    by (auto simp: complete_job_internal_def Let_def op_simps
        intro: own_step_trans[OF _ own_schedule_dispatch])
qed

lemma own_consume_elapsed_job: "own (consume_elapsed_job dt i)"
  unfolding own_def
proof
  fix k :: "'c kernel"
  show "own_step k (snd (consume_elapsed_job dt i k))"
    by (auto simp: consume_elapsed_job_def Let_def op_simps split: option.splits
        intro!: own_upd_job own_step_trans[OF own_upd_job own_complete_internal])
qed

lemma own_consume_loop: "own (for_op xs (consume_elapsed_job dt))"
  by (rule own_for) (rule own_consume_elapsed_job)

lemma own_consume_elapsed_work: "own (consume_elapsed_work t0)"
  using own_consume_loop by (auto simp: own_def consume_elapsed_work_def Let_def op_simps)

lemma own_release_payload: "own (release_payload i)"
  by (auto simp: own_def release_payload_def bind_op_def op_simps Let_def split: option.splits
      intro: own_step_trans[OF own_make_ready own_schedule_dispatch])

lemma own_complete_job: "own (complete_job i)"
  by (auto simp: own_def complete_job_def bind_op_def op_simps own_complete_internal split: option.splits)

lemma own_pop: "own_step k (k\<lparr>k_queue := snd (pop (k_queue k))\<rparr>)"
  by (auto simp: own_step_def)

lemma own_clock: "own_step k (k\<lparr>k_now_ps := t\<rparr>)" "own_step k (k\<lparr>k_next_dispatch_time := None\<rparr>)"
  by (auto simp: own_step_def)

section \<open>The client's contract\<close>

locale kernel_client =
  fixes env :: "('c, 'w) kernel_env" and winv :: "'c kernel \<Rightarrow> 'w \<Rightarrow> bool"
  assumes client_keeps: "kernel_at t False k \<Longrightarrow> winv k w \<Longrightarrow> env_client env c (k, w) = (r, (k', w'))
      \<Longrightarrow> kernel_at t False k' \<and> (is_ok r \<longrightarrow> winv k' w')"
    and callback_keeps: "kernel_at t False k \<Longrightarrow> winv k w \<Longrightarrow> env_callback env ready (k, w) = (r, (k', w'))
      \<Longrightarrow> kernel_at t False k' \<and> (is_ok r \<longrightarrow> winv k' w')"
    and winv_own: "winv k w \<Longrightarrow> own_step k k' \<Longrightarrow> winv k' w"
begin

definition world_at :: "int \<Rightarrow> bool \<Rightarrow> ('c, 'w) kworld \<Rightarrow> bool" where
  "world_at t d s \<longleftrightarrow> kernel_at t d (fst s) \<and> winv (fst s) (snd s)"

text \<open>What a payload leaves: the kernel as it must be, and the client too unless it raised.\<close>

definition outcome :: "int \<Rightarrow> (py_error + unit) \<times> ('c, 'w) kworld \<Rightarrow> bool" where
  "outcome t rs \<longleftrightarrow> (\<exists>d. kernel_at t d (fst (snd rs))) \<and> (is_ok (fst rs) \<longrightarrow> world_at t False (snd rs))"

lemma on_kernel_world:
  assumes "keeps (kernel_at t d) m" and "own m" and "world_at t d s"
  shows "world_at t d (snd (on_kernel m s))"
proof -
  have "snd (on_kernel m s) = (snd (m (fst s)), snd s)"
    by (simp add: on_kernel_def zoom_op_def split: prod.splits)
  with assms show ?thesis by (auto simp: world_at_def own_def intro: keepsD winv_own)
qed

lemma world_outcome: "world_at t False s \<Longrightarrow> outcome t (r, s)"
  by (auto simp: outcome_def world_at_def)

lemma client_outcome: "world_at t False s \<Longrightarrow> outcome t (env_client env c s)"
  using client_keeps[of t "fst s" "snd s" c "fst (env_client env c s)" "fst (snd (env_client env c s))"
      "snd (snd (env_client env c s))"]
  by (auto simp: outcome_def world_at_def)

lemma callback_outcome: "world_at t False s \<Longrightarrow> outcome t (env_callback env ready s)"
  using callback_keeps[of t "fst s" "snd s" ready "fst (env_callback env ready s)"
      "fst (snd (env_callback env ready s))" "snd (snd (env_callback env ready s))"]
  by (auto simp: outcome_def world_at_def)

lemma dispatch_payload_outcome:
  assumes "world_at t True s"
  shows "outcome t (dispatch_payload env s)"
proof -
  have "kernel_at t False ((fst s)\<lparr>k_next_dispatch_time := None\<rparr>)"
    using assms by (auto simp: world_at_def kernel_at_def kernel_inv_def clock_ok_def dispatch_ok_def)
  then have "world_at t False ((fst s)\<lparr>k_next_dispatch_time := None\<rparr>, snd s)"
    using assms winv_own[OF _ own_clock(2)] by (simp add: world_at_def)
  then show ?thesis
    by (auto simp: dispatch_payload_def seq_op_def bind_op_def on_kernel_def zoom_op_def op_simps Let_def
        intro: callback_outcome world_outcome)
qed

lemma run_payload_outcome:
  assumes "world_at t (p = Dispatch) s"
  shows "outcome t (run_payload env p s)"
proof (cases p)
  case (Release i)
  with assms have "world_at t False (snd (on_kernel (release_payload i) s))"
    by (intro on_kernel_world[OF release_payload_keeps own_release_payload]) simp
  then show ?thesis
    using Release world_outcome[of t "snd (on_kernel (release_payload i) s)" "fst (on_kernel (release_payload i) s)"]
    by simp
next
  case Dispatch
  with assms show ?thesis by (simp add: dispatch_payload_outcome)
next
  case (Client c)
  with assms show ?thesis by (simp add: client_outcome)
next
  case Inert
  with assms show ?thesis by (simp add: op_simps world_outcome)
qed

section \<open>The loop\<close>

text \<open>One iteration: the clock moves to the event, never back.\<close>

lemma process_event_outcome:
  assumes k1: "world_at (ev_time_ps ev) (ev_payload ev = Dispatch) ((fst s)\<lparr>k_now_ps := ev_time_ps ev\<rparr>, snd s)"
    and le: "k_now_ps k0 \<le> ev_time_ps ev"
  shows "outcome (ev_time_ps ev) (process_event env ev k0 s)"
proof -
  let ?t = "ev_time_ps ev" and ?s1 = "((fst s)\<lparr>k_now_ps := ev_time_ps ev\<rparr>, snd s)"
  obtain r2 s2 where c: "on_kernel (consume_elapsed_work (k_now_ps k0)) ?s1 = (r2, s2)"
    by (cases "on_kernel (consume_elapsed_work (k_now_ps k0)) ?s1")
  have w2: "world_at ?t (ev_payload ev = Dispatch) s2"
    using on_kernel_world[OF consume_elapsed_work_keeps own_consume_elapsed_work k1, of "k_now_ps k0"] c by simp
  obtain r3 s3 where p: "run_payload env (ev_payload ev) s2 = (r3, s3)"
    by (cases "run_payload env (ev_payload ev) s2")
  have w3: "outcome ?t (r3, s3)" using run_payload_outcome[OF w2] p by simp
  have r2: "r2 = Inr ()"
  proof -
    have "fst (consume_elapsed_work (k_now_ps k0) ((fst s)\<lparr>k_now_ps := ev_time_ps ev\<rparr>)) = Inr ()"
    proof (cases "k_now_ps k0 < ev_time_ps ev")
      case True
      with k1 show ?thesis
        using consume_elapsed_loop[of ?t "ev_payload ev = Dispatch" "(fst s)\<lparr>k_now_ps := ev_time_ps ev\<rparr>"
            "?t - k_now_ps k0" "dkeys (k_jobs (fst s))"]
        by (simp add: consume_elapsed_work_def Let_def world_at_def kernel_at_def kernel_inv_def jobs_ok_def dict_ok_def)
    next
      case False
      then show ?thesis by (simp add: consume_elapsed_work_def Let_def op_simps)
    qed
    with c show ?thesis by (auto simp: on_kernel_def zoom_op_def split: prod.splits)
  qed
  have "process_event env ev k0 s = (case r3 of Inl e \<Rightarrow> (Inl e, s3) | Inr _ \<Rightarrow>
        (case made_progress ev k0 (fst s3) of
           Inl e \<Rightarrow> (Inl e, s3) | Inr True \<Rightarrow> (Inr (), s3)
         | Inr False \<Rightarrow> (Inl (SchedulerError ''zero-time livelock detected''), s3)))"
    using le c p r2
    by (simp add: process_event_def seq_op_def bind_op_def on_kernel_def zoom_op_def op_simps
        split: sum.splits prod.splits bool.splits)
  with w3 show ?thesis by (auto simp: outcome_def split: sum.splits bool.splits)
qed

lemma step_event_outcome:
  assumes s: "world_at t False s" and p: "pop (k_queue (fst s)) = (Some ev, q)"
  shows "t \<le> ev_time_ps ev \<and> outcome (ev_time_ps ev) (step_event env s)"
proof -
  let ?d = "ev_payload ev = Dispatch" and ?k0 = "(fst s)\<lparr>k_queue := q\<rparr>"
  note pn = pop_now[OF s[unfolded world_at_def, THEN conjunct1] p]
  have k0: "kernel_at t ?d ?k0" using pn(2,3) by (cases ?d) auto
  have "own_step (fst s) (?k0\<lparr>k_now_ps := ev_time_ps ev\<rparr>)"
    using own_step_trans[OF own_pop[of "fst s"] own_clock(1)[of _ "ev_time_ps ev"]] p by simp
  with s have "winv (?k0\<lparr>k_now_ps := ev_time_ps ev\<rparr>) (snd s)" by (auto simp: world_at_def intro: winv_own)
  moreover have "kernel_at (ev_time_ps ev) ?d (?k0\<lparr>k_now_ps := ev_time_ps ev\<rparr>)"
    using k0 pn(1,4) s by (auto simp: world_at_def kernel_at_def kernel_inv_def clock_ok_def dispatch_ok_def)
  ultimately show ?thesis
    using process_event_outcome[of ev "(?k0, snd s)" ?k0] pn(1) k0 p
    by (simp add: step_event_def Let_def kernel_at_def world_at_def)
qed

lemma loop_event_pop:
  assumes "world_at t False s" and "loop_event e m n (fst s) = Some ev"
  obtains q where "pop (k_queue (fst s)) = (Some ev, q)"
proof -
  have qi: "queue_inv (k_queue (fst s))"
    using assms(1) by (simp add: world_at_def kernel_at_def kernel_inv_def clock_ok_def)
  have "peek (k_queue (fst s)) = Some ev"
    using assms(2) by (auto simp: loop_event_def split: option.splits if_splits)
  then have "fst (pop (k_queue (fst s))) = Some ev" using pop_peek[OF qi] by simp
  then show ?thesis using that by (cases "pop (k_queue (fst s))") auto
qed

lemma run_loop_outcome:
  "run_loop fuel env e m n s = Some rs \<Longrightarrow> world_at t False s \<Longrightarrow> \<exists>t' \<ge> t. outcome t' rs"
proof (induction fuel arbitrary: n s t)
  case 0
  then show ?case by simp
next
  case (Suc fuel)
  show ?case
  proof (cases "loop_event e m n (fst s)")
    case None
    with Suc.prems show ?thesis by (auto simp: op_simps intro!: exI[of _ t] world_outcome)
  next
    case (Some ev)
    obtain q where p: "pop (k_queue (fst s)) = (Some ev, q)" by (rule loop_event_pop[OF Suc.prems(2) Some])
    obtain r1 s1 where st: "step_event env s = (r1, s1)" by (cases "step_event env s")
    have o1: "outcome (ev_time_ps ev) (r1, s1)" and t: "t \<le> ev_time_ps ev"
      using step_event_outcome[OF Suc.prems(2) p] st by auto
    show ?thesis
    proof (cases r1)
      case (Inl x)
      with Suc.prems(1) Some st o1 t show ?thesis by auto
    next
      case (Inr u)
      then have "\<exists>t' \<ge> ev_time_ps ev. outcome t' rs"
        using Suc.IH[of "n + 1" s1 "ev_time_ps ev"] Suc.prems(1) Some st o1 by (simp add: outcome_def)
      with t show ?thesis by (meson order_trans)
    qed
  qed
qed

lemma run_until_outcome:
  "run_until fuel env e m s = Some rs \<Longrightarrow> world_at t False s \<Longrightarrow> \<exists>t' \<ge> t. outcome t' rs"
  unfolding run_until_def by (rule run_loop_outcome)

lemma run_complete_outcome:
  "world_at t False s \<Longrightarrow> \<exists>t' \<ge> t. outcome t' (run_complete_loop n env mt s)"
proof (induction n arbitrary: s t)
  case 0
  then show ?case by (auto simp: op_simps intro!: exI[of _ t] world_outcome)
next
  case (Suc n)
  obtain rs1 where ru: "run_until 2 env None (Some 1) s = Some rs1"
    using run_until_max_events[of 1 env None s] by (auto simp: numeral_2_eq_2)
  obtain t1 where t1: "t \<le> t1" "outcome t1 rs1" using run_until_outcome[OF ru Suc.prems] by auto
  have stay: "\<exists>t' \<ge> t. outcome t' (ret () s)"
    using Suc.prems by (auto simp: op_simps intro!: exI[of _ t] world_outcome)
  obtain r1 s1 where rs1: "rs1 = (r1, s1)" by (cases rs1)
  have go: "\<exists>t' \<ge> t. outcome t' (case r1 of Inl e \<Rightarrow> (Inl e, s1) | Inr _ \<Rightarrow> run_complete_loop n env mt s1)"
  proof (cases r1)
    case (Inl x)
    with t1 rs1 show ?thesis by auto
  next
    case (Inr u)
    with t1 rs1 Suc.IH[of t1 s1] show ?thesis by (auto simp: outcome_def intro: order_trans)
  qed
  show ?case
  proof (cases "list_all (\<lambda>j. jb_state j \<notin> {PENDING, READY, RUNNING}) (dvalues (k_jobs (fst s)))")
    case True
    with stay show ?thesis by simp
  next
    case False
    have e: "run_complete_loop (Suc n) env mt s = (case peek (k_queue (fst s)) of
        None \<Rightarrow> ret () s
      | Some ev \<Rightarrow> if mt < ev_time_ps ev then ret () s
          else (case r1 of Inl e \<Rightarrow> (Inl e, s1) | Inr _ \<Rightarrow> run_complete_loop n env mt s1))"
      using False ru rs1 by (simp only: run_complete_loop.simps if_False option.case prod.case split: sum.splits)
    with stay go show ?thesis by (auto split: option.splits)
  qed
qed

end

end
