(* ===== verification/Sched_Metrics.thy ===== *)
theory Sched_Metrics
  imports Py_Prelude Py_Float
begin

text \<open>
  The temporal metrics of \<open>sim/scheduler/metrics.py\<close>: unit conversions, the per-job
  record, the nearest-rank percentile, the union of busy intervals, the collector with one
  operation per \<open>record_*\<close> method, and \<open>compute\<close>, which turns what was recorded into the
  scenario's metrics.

  The counts and the latency lists that \<open>compute\<close> builds once for the window and once per
  class are one group of definitions here, applied to the two job lists. Floats are the
  binary64 values of \<open>Py_Float\<close>.
\<close>

section \<open>Unit conversions\<close>

definition ps_to_ms :: "int \<Rightarrow> rat" where
  "ps_to_ms ps = fdiv_int ps 1000000000"

definition ps_to_us :: "int \<Rightarrow> rat" where
  "ps_to_us ps = fdiv_int ps 1000000"

definition ms_to_ps :: "rat \<Rightarrow> int" where
  "ms_to_ps ms = round_half_even (fmul ms (int_to_float 1000000000))"

lemma ps_to_ms_mono: "a \<le> b \<Longrightarrow> ps_to_ms a \<le> ps_to_ms b"
  unfolding ps_to_ms_def fdiv_int_def by (intro fl_mono divide_right_mono) simp_all

lemma ms_to_ps_mono: "a \<le> b \<Longrightarrow> ms_to_ps a \<le> ms_to_ps b"
  unfolding ms_to_ps_def fmul_def int_to_float_def
  by (intro round_half_even_mono fl_mono mult_right_mono) (simp_all add: fl_nonneg)

section \<open>Records\<close>

datatype job_outcome = Completed | Dropped | Replaced | Rejected | Timeout

record metric_record =
  mr_job_id :: string
  mr_class_id :: string
  mr_arrival_ps :: int
  mr_deadline_ps :: int
  mr_is_warmup :: bool
  mr_is_measurement :: bool
  mr_work_ps :: int
  mr_resource_requirements :: "(string, int) dict"
  mr_start_ps :: "int option"
  mr_complete_ps :: "int option"
  mr_outcome :: job_outcome
  mr_observation_age_ps :: int

definition latency_ps :: "metric_record \<Rightarrow> int option" where
  "latency_ps r = map_option (\<lambda>c. c - mr_arrival_ps r) (mr_complete_ps r)"

definition start_latency_ps :: "metric_record \<Rightarrow> int option" where
  "start_latency_ps r = map_option (\<lambda>s. s - mr_arrival_ps r) (mr_start_ps r)"

record class_metrics =
  cm_class_id :: string
  cm_released_count :: nat
  cm_completed_count :: nat
  cm_dropped_count :: nat
  cm_replaced_count :: nat
  cm_rejected_count :: nat
  cm_timeout_count :: nat
  cm_deadline_miss_count :: nat
  cm_completed_throughput_hz :: rat
  cm_latency_p50_ms :: rat
  cm_latency_p99_ms :: rat
  cm_latency_max_ms :: rat
  cm_start_latency_p50_ms :: rat
  cm_start_latency_p99_ms :: rat
  cm_observation_age_p50_ms :: rat
  cm_observation_age_p99_ms :: rat
  cm_offered_load_ratio :: rat
  cm_achieved_utilization :: rat

record resource_utilization =
  ru_resource_name :: string
  ru_busy_time_ps :: int
  ru_window_time_ps :: int
  ru_utilization :: rat

record scenario_metrics =
  sm_window_start_ps :: int
  sm_window_end_ps :: int
  sm_window_time_ps :: int
  sm_released_count :: nat
  sm_completed_count :: nat
  sm_dropped_count :: nat
  sm_replaced_count :: nat
  sm_rejected_count :: nat
  sm_timeout_count :: nat
  sm_deadline_miss_count :: nat
  sm_completed_throughput_hz :: rat
  sm_latency_p50_ms :: rat
  sm_latency_p99_ms :: rat
  sm_latency_max_ms :: rat
  sm_start_latency_p50_ms :: rat
  sm_start_latency_p99_ms :: rat
  sm_observation_age_p50_ms :: rat
  sm_observation_age_p99_ms :: rat
  sm_peak_queue :: int
  sm_bytes_total :: int
  sm_energy_joules :: rat
  sm_resource_utilization :: "resource_utilization list"
  sm_class_metrics :: "class_metrics list"
  sm_recovery_time_ps :: "int option"
  sm_stable :: bool

section \<open>Percentiles\<close>

definition rank_of :: "rat \<Rightarrow> nat \<Rightarrow> int" where
  "rank_of percentile n =
     (let rank = \<lceil>fmul (fdiv percentile 100) (int_to_float (int n))\<rceil> in max 1 (min rank (int n)))"

definition nearest_rank_percentile :: "rat list \<Rightarrow> rat \<Rightarrow> rat" where
  "nearest_rank_percentile sorted_values percentile =
     (if sorted_values = [] then 0
      else sorted_values ! nat (rank_of percentile (length sorted_values) - 1))"

definition percentile_ms :: "int list \<Rightarrow> rat \<times> rat \<times> rat" where
  "percentile_ms values_ps =
     (let sorted_ms = sort (map ps_to_ms values_ps)
      in (nearest_rank_percentile sorted_ms 50, nearest_rank_percentile sorted_ms 99,
          if sorted_ms = [] then 0 else last sorted_ms))"

section \<open>Busy intervals\<close>

fun union_loop :: "int \<Rightarrow> int \<Rightarrow> int \<Rightarrow> (int \<times> int) list \<Rightarrow> int" where
  "union_loop acc cur_start cur_end [] = acc + (cur_end - cur_start)"
| "union_loop acc cur_start cur_end ((start, end') # rest) =
     (if start \<le> cur_end then union_loop acc cur_start (max cur_end end') rest
      else union_loop (acc + (cur_end - cur_start)) start end' rest)"

definition union_intervals_length :: "(int \<times> int) list \<Rightarrow> int" where
  "union_intervals_length intervals =
     (case sort intervals of [] \<Rightarrow> 0 | (s, e) # rest \<Rightarrow> union_loop 0 s e rest)"

section \<open>The collector\<close>

record collector =
  mc_jobs :: "(string, metric_record) dict"
  mc_resource_intervals :: "(string, (int \<times> int) list) dict"
  mc_class_resource_intervals :: "(string, (int \<times> int) list) dict"
  mc_queue_sizes :: "(string, (int \<times> int) list) dict"
  mc_bytes_total :: int
  mc_energy_joules :: rat
  mc_recovery_time_ps :: "int option"

definition collector_new :: collector where
  "collector_new = \<lparr>mc_jobs = [], mc_resource_intervals = [], mc_class_resource_intervals = [],
     mc_queue_sizes = [], mc_bytes_total = 0, mc_energy_joules = 0, mc_recovery_time_ps = None\<rparr>"

definition record_arrival ::
  "string \<Rightarrow> string \<Rightarrow> int \<Rightarrow> int \<Rightarrow> bool \<Rightarrow> bool \<Rightarrow> int \<Rightarrow> (string, int) dict \<Rightarrow> (collector, unit) op" where
  "record_arrival job_id class_id arrival_ps deadline_ps is_warmup is_measurement work_ps reqs c =
     (if din job_id (mc_jobs c) then raise_op (ConfigError ''metrics.job_id'') c
      else ret () (c\<lparr>mc_jobs := AList.update job_id
        \<lparr>mr_job_id = job_id, mr_class_id = class_id, mr_arrival_ps = arrival_ps,
         mr_deadline_ps = deadline_ps, mr_is_warmup = is_warmup, mr_is_measurement = is_measurement,
         mr_work_ps = work_ps, mr_resource_requirements = reqs, mr_start_ps = None,
         mr_complete_ps = None, mr_outcome = Completed, mr_observation_age_ps = 0\<rparr> (mc_jobs c)\<rparr>))"

text \<open>\<open>self._jobs[job_id]\<close>, then writes to the record's attributes.\<close>

definition on_record :: "string \<Rightarrow> (metric_record \<Rightarrow> metric_record) \<Rightarrow> (collector, unit) op" where
  "on_record job_id f c = (case map_of (mc_jobs c) job_id of
     None \<Rightarrow> raise_op (KeyError job_id) c
   | Some r \<Rightarrow> ret () (c\<lparr>mc_jobs := AList.update job_id (f r) (mc_jobs c)\<rparr>))"

definition record_start :: "string \<Rightarrow> int \<Rightarrow> (collector, unit) op" where
  "record_start job_id start_ps = on_record job_id (\<lambda>r.
     if (case mr_start_ps r of None \<Rightarrow> True | Some s \<Rightarrow> start_ps < s)
     then r\<lparr>mr_start_ps := Some start_ps\<rparr> else r)"

definition record_complete :: "string \<Rightarrow> int \<Rightarrow> (collector, unit) op" where
  "record_complete job_id complete_ps =
     on_record job_id (\<lambda>r. r\<lparr>mr_complete_ps := Some complete_ps, mr_outcome := Completed\<rparr>)"

definition record_outcome :: "job_outcome \<Rightarrow> string \<Rightarrow> (collector, unit) op" where
  "record_outcome out job_id = on_record job_id (\<lambda>r. r\<lparr>mr_outcome := out\<rparr>)"

definition record_drop :: "string \<Rightarrow> (collector, unit) op" where
  "record_drop = record_outcome Dropped"

definition record_replace :: "string \<Rightarrow> (collector, unit) op" where
  "record_replace = record_outcome Replaced"

definition record_reject :: "string \<Rightarrow> (collector, unit) op" where
  "record_reject = record_outcome Rejected"

definition record_timeout :: "string \<Rightarrow> (collector, unit) op" where
  "record_timeout = record_outcome Timeout"

definition record_observation_age :: "string \<Rightarrow> int \<Rightarrow> (collector, unit) op" where
  "record_observation_age job_id age_ps = on_record job_id (\<lambda>r. r\<lparr>mr_observation_age_ps := age_ps\<rparr>)"

text \<open>\<open>d.setdefault(k, []).append(x)\<close>\<close>

definition append_to :: "string \<Rightarrow> 'a \<Rightarrow> (string, 'a list) dict \<Rightarrow> (string, 'a list) dict" where
  "append_to k x d = AList.update k (dget d k [] @ [x]) d"

definition record_resource_busy ::
  "string \<Rightarrow> int \<Rightarrow> int \<Rightarrow> string option \<Rightarrow> collector \<Rightarrow> collector" where
  "record_resource_busy resource_name start_ps end_ps class_id c =
     (if end_ps \<le> start_ps then c
      else let c1 = c\<lparr>mc_resource_intervals :=
                 append_to resource_name (start_ps, end_ps) (mc_resource_intervals c)\<rparr>
           in case class_id of None \<Rightarrow> c1
              | Some cid \<Rightarrow> c1\<lparr>mc_class_resource_intervals :=
                  append_to (cid @ '':'' @ resource_name) (start_ps, end_ps) (mc_class_resource_intervals c1)\<rparr>)"

definition record_queue_size :: "string \<Rightarrow> int \<Rightarrow> int \<Rightarrow> collector \<Rightarrow> collector" where
  "record_queue_size queue_name size' now_ps c =
     c\<lparr>mc_queue_sizes := append_to queue_name (now_ps, size') (mc_queue_sizes c)\<rparr>"

definition record_bytes :: "int \<Rightarrow> collector \<Rightarrow> collector" where
  "record_bytes b c = (if 0 < b then c\<lparr>mc_bytes_total := mc_bytes_total c + b\<rparr> else c)"

definition record_energy :: "rat \<Rightarrow> collector \<Rightarrow> collector" where
  "record_energy j c = (if 0 < j then c\<lparr>mc_energy_joules := fadd (mc_energy_joules c) j\<rparr> else c)"

definition record_recovery_time :: "int \<Rightarrow> collector \<Rightarrow> collector" where
  "record_recovery_time t c =
     (if (case mc_recovery_time_ps c of None \<Rightarrow> True | Some r \<Rightarrow> t < r)
      then c\<lparr>mc_recovery_time_ps := Some t\<rparr> else c)"

section \<open>Computation\<close>

definition measurement_jobs :: "collector \<Rightarrow> metric_record list" where
  "measurement_jobs c =
     (let js = dvalues (mc_jobs c);
          m = filter (\<lambda>j. mr_is_measurement j \<and> \<not> mr_is_warmup j) js
      in if m = [] then filter (\<lambda>j. \<not> mr_is_warmup j) js else m)"

definition with_outcome :: "job_outcome \<Rightarrow> metric_record list \<Rightarrow> metric_record list" where
  "with_outcome out = filter (\<lambda>j. mr_outcome j = out)"

definition deadline_misses :: "metric_record list \<Rightarrow> metric_record list" where
  "deadline_misses = filter (\<lambda>j.
     (mr_outcome j = Completed \<and> (case mr_complete_ps j of None \<Rightarrow> False | Some t \<Rightarrow> mr_deadline_ps j < t))
     \<or> mr_outcome j \<in> {Dropped, Replaced, Timeout})"

definition latencies_of :: "metric_record list \<Rightarrow> int list" where
  "latencies_of js = List.map_filter latency_ps js"

definition start_latencies_of :: "metric_record list \<Rightarrow> int list" where
  "start_latencies_of js = List.map_filter start_latency_ps js"

definition ages_of :: "metric_record list \<Rightarrow> int list" where
  "ages_of js = filter (\<lambda>a. 0 < a) (map mr_observation_age_ps js)"

definition throughput :: "nat \<Rightarrow> int \<Rightarrow> rat" where
  "throughput n window_time_ps =
     (if 0 < window_time_ps then fdiv_int (int n * 1000000000000) window_time_ps else 0)"

definition clip :: "int \<Rightarrow> int \<Rightarrow> (int \<times> int) list \<Rightarrow> (int \<times> int) list" where
  "clip ws we ivs = map (\<lambda>(s, e). (max s ws, min e we)) (filter (\<lambda>(s, e). ws < e \<and> s < we) ivs)"

text \<open>\<open>int / int\<close> where the divisor may be zero.\<close>

definition checked_div :: "int \<Rightarrow> int \<Rightarrow> rat result" where
  "checked_div a b = (if b = 0 then Inl ZeroDivisionError else Inr (fdiv_int a b))"

definition compute_class ::
  "collector \<Rightarrow> metric_record list \<Rightarrow> int \<Rightarrow> int \<Rightarrow> int \<Rightarrow> int \<Rightarrow> string \<Rightarrow> class_metrics result" where
  "compute_class c released ws we window_time_ps compute_capacity cid =
     (let jobs = filter (\<lambda>j. mr_class_id j = cid) released;
          completed = with_outcome Completed jobs;
          (lat50, lat99, latmax) = percentile_ms (latencies_of completed);
          (st50, st99, _) = percentile_ms (start_latencies_of jobs);
          (age50, age99, _) = percentile_ms (ages_of jobs)
      in bind_res
           (if 0 < window_time_ps \<and> jobs \<noteq> []
            then checked_div (sum_list (map mr_work_ps jobs)
                   * Max (set (map (\<lambda>j. dget (mr_resource_requirements j) ''compute'' 1) jobs)))
                   (window_time_ps * compute_capacity)
            else Inr 0) (\<lambda>load.
         bind_res
           (if 0 < window_time_ps
            then checked_div (union_intervals_length
                   (clip ws we (dget (mc_class_resource_intervals c) (cid @ '':compute'') [])))
                   (window_time_ps * compute_capacity)
            else Inr 0) (\<lambda>util.
         Inr \<lparr>cm_class_id = cid, cm_released_count = length jobs,
              cm_completed_count = length completed,
              cm_dropped_count = length (with_outcome Dropped jobs),
              cm_replaced_count = length (with_outcome Replaced jobs),
              cm_rejected_count = length (with_outcome Rejected jobs),
              cm_timeout_count = length (with_outcome Timeout jobs),
              cm_deadline_miss_count = length (deadline_misses jobs),
              cm_completed_throughput_hz = throughput (length completed) window_time_ps,
              cm_latency_p50_ms = lat50, cm_latency_p99_ms = lat99, cm_latency_max_ms = latmax,
              cm_start_latency_p50_ms = st50, cm_start_latency_p99_ms = st99,
              cm_observation_age_p50_ms = age50, cm_observation_age_p99_ms = age99,
              cm_offered_load_ratio = load, cm_achieved_utilization = util\<rparr>)))"

definition compute_resource ::
  "int \<Rightarrow> int \<Rightarrow> int \<Rightarrow> string \<Rightarrow> (int \<times> int) list \<Rightarrow> resource_utilization" where
  "compute_resource ws we window_time_ps name intervals =
     (let busy = union_intervals_length (clip ws we intervals)
      in \<lparr>ru_resource_name = name, ru_busy_time_ps = busy, ru_window_time_ps = window_time_ps,
          ru_utilization = (if 0 < window_time_ps then fdiv_int busy window_time_ps else 0)\<rparr>)"

definition peak_queue :: "(string, (int \<times> int) list) dict \<Rightarrow> int" where
  "peak_queue d = fold (\<lambda>(_, size') p. if p < size' then size' else p) (concat (dvalues d)) 0"

definition compute_metrics ::
  "int option \<Rightarrow> int option \<Rightarrow> int \<Rightarrow> collector \<Rightarrow> scenario_metrics result" where
  "compute_metrics window_start_ps window_end_ps compute_capacity c =
     (let released = measurement_jobs c;
          arrivals = map mr_arrival_ps released;
          ws = (case window_start_ps of Some t \<Rightarrow> t
                | None \<Rightarrow> if arrivals = [] then 0 else Min (set arrivals));
          we = (case window_end_ps of Some t \<Rightarrow> t
                | None \<Rightarrow> if arrivals = [] then ws else Max (set arrivals));
          window_time_ps = max 0 (we - ws);
          completed = with_outcome Completed released;
          dropped = with_outcome Dropped released;
          replaced = with_outcome Replaced released;
          timed_out = with_outcome Timeout released;
          misses = deadline_misses released;
          (lat50, lat99, latmax) = percentile_ms (latencies_of completed);
          (st50, st99, _) = percentile_ms (start_latencies_of released);
          (age50, age99, _) = percentile_ms (ages_of released);
          class_ids = sort (remdups (map mr_class_id released))
      in bind_res (map_result (compute_class c released ws we window_time_ps compute_capacity) class_ids)
         (\<lambda>class_ms.
           Inr \<lparr>sm_window_start_ps = ws, sm_window_end_ps = we, sm_window_time_ps = window_time_ps,
                sm_released_count = length released, sm_completed_count = length completed,
                sm_dropped_count = length dropped, sm_replaced_count = length replaced,
                sm_rejected_count = length (with_outcome Rejected released),
                sm_timeout_count = length timed_out, sm_deadline_miss_count = length misses,
                sm_completed_throughput_hz = throughput (length completed) window_time_ps,
                sm_latency_p50_ms = lat50, sm_latency_p99_ms = lat99, sm_latency_max_ms = latmax,
                sm_start_latency_p50_ms = st50, sm_start_latency_p99_ms = st99,
                sm_observation_age_p50_ms = age50, sm_observation_age_p99_ms = age99,
                sm_peak_queue = peak_queue (mc_queue_sizes c), sm_bytes_total = mc_bytes_total c,
                sm_energy_joules = mc_energy_joules c,
                sm_resource_utilization =
                  map (\<lambda>name. compute_resource ws we window_time_ps name
                         (dget (mc_resource_intervals c) name []))
                      (sort (dkeys (mc_resource_intervals c))),
                sm_class_metrics = class_ms, sm_recovery_time_ps = mc_recovery_time_ps c,
                sm_stable = (dropped = [] \<and> replaced = [] \<and> timed_out = [] \<and> misses = [])\<rparr>))"

section \<open>The covered length of a list of intervals\<close>

definition covered :: "(int \<times> int) list \<Rightarrow> int set" where
  "covered ivs = (\<Union>(s, e) \<in> set ivs. {s..<e})"

lemma covered_simps [simp]: "covered [] = {}" "covered ((s, e) # ivs) = {s..<e} \<union> covered ivs"
  by (auto simp: covered_def)

lemma finite_covered [simp]: "finite (covered ivs)"
  by (auto simp: covered_def)

lemma union_loop_covered:
  "cs \<le> ce \<Longrightarrow> sorted (map fst ((cs, ce) # ivs)) \<Longrightarrow> \<forall>(s, e) \<in> set ivs. s \<le> e \<Longrightarrow>
   union_loop acc cs ce ivs = acc + int (card ({cs..<ce} \<union> covered ivs))"
proof (induction acc cs ce ivs rule: union_loop.induct)
  case (1 acc cs ce)
  then show ?case by simp
next
  case (2 acc cs ce s e ivs)
  show ?case
  proof (cases "s \<le> ce")
    case True
    then have "{cs..<ce} \<union> ({s..<e} \<union> covered ivs) = {cs..<max ce e} \<union> covered ivs"
      using 2(3-5) by auto
    with True 2 show ?thesis by (simp add: le_max_iff_disj)
  next
    case False
    have "{cs..<ce} \<inter> covered ((s, e) # ivs) = {}"
      using False 2(4) by (fastforce simp: covered_def)
    then have "card ({cs..<ce} \<union> covered ((s, e) # ivs)) = card {cs..<ce} + card (covered ((s, e) # ivs))"
      by (intro card_Un_disjoint) auto
    with False 2 show ?thesis by simp
  qed
qed

lemma union_intervals_covered:
  assumes "\<forall>(s, e) \<in> set ivs. s \<le> e"
  shows "union_intervals_length ivs = int (card (covered ivs))"
proof -
  have c: "covered (sort ivs) = covered ivs" by (simp add: covered_def)
  have fst_mono: "sorted (map fst xs)" if "sorted xs" for xs :: "(int \<times> int) list"
    using that by (induction xs) (auto simp: less_eq_prod_def)
  show ?thesis
  proof (cases "sort ivs")
    case Nil
    with c show ?thesis by (simp add: union_intervals_length_def)
  next
    case (Cons p rest)
    obtain s e where p: "p = (s, e)" by (cases p)
    have m: "set (sort ivs) = insert (s, e) (set rest)" using Cons p by simp
    then have "s \<le> e" "\<forall>(s, e) \<in> set rest. s \<le> e" using assms by auto
    moreover have "sorted (map fst ((s, e) # rest))" by (metis Cons p fst_mono sorted_sort)
    ultimately have "union_loop 0 s e rest = int (card (covered ((s, e) # rest)))"
      by (simp add: union_loop_covered)
    with c Cons p show ?thesis by (simp add: union_intervals_length_def)
  qed
qed

lemma clip_ordered: "ws \<le> we \<Longrightarrow> \<forall>(s, e) \<in> set ivs. s < e \<Longrightarrow> \<forall>(s, e) \<in> set (clip ws we ivs). s \<le> e"
  by (fastforce simp: clip_def)

lemma covered_clip:
  "covered (clip ws we ivs) = covered ivs \<inter> {ws..<we}"
  by (fastforce simp: covered_def clip_def)

lemma busy_bounds:
  assumes "\<forall>(s, e) \<in> set ivs. s < e" and "ws \<le> we"
  shows "union_intervals_length (clip ws we ivs) = int (card (covered ivs \<inter> {ws..<we}))"
    and "0 \<le> union_intervals_length (clip ws we ivs)"
    and "union_intervals_length (clip ws we ivs) \<le> we - ws"
proof -
  show u: "union_intervals_length (clip ws we ivs) = int (card (covered ivs \<inter> {ws..<we}))"
    using union_intervals_covered[OF clip_ordered[OF assms(2,1)]] by (simp add: covered_clip)
  then show "0 \<le> union_intervals_length (clip ws we ivs)" by simp
  have "card (covered ivs \<inter> {ws..<we}) \<le> card {ws..<we}" by (intro card_mono) auto
  with u assms(2) show "union_intervals_length (clip ws we ivs) \<le> we - ws" by simp
qed

lemma fdiv_int_unit: "0 \<le> a \<Longrightarrow> a \<le> b \<Longrightarrow> 0 < b \<Longrightarrow> 0 \<le> fdiv_int a b \<and> fdiv_int a b \<le> 1"
  unfolding fdiv_int_def using fl_nonneg[of "of_int a / of_int b"] fl_mono[of "of_int a / of_int b" 1] by simp

section \<open>The collector's invariant\<close>

definition intervals_ok :: "(string, (int \<times> int) list) dict \<Rightarrow> bool" where
  "intervals_ok d \<longleftrightarrow> dict_ok d \<and> (\<forall>k ivs. map_of d k = Some ivs \<longrightarrow> (\<forall>(s, e) \<in> set ivs. s < e))"

definition collector_inv :: "collector \<Rightarrow> bool" where
  "collector_inv c \<longleftrightarrow>
     dict_ok (mc_jobs c) \<and> (\<forall>i r. map_of (mc_jobs c) i = Some r \<longrightarrow> mr_job_id r = i) \<and>
     intervals_ok (mc_resource_intervals c) \<and> intervals_ok (mc_class_resource_intervals c) \<and>
     0 \<le> mc_bytes_total c \<and> 0 \<le> mc_energy_joules c"

lemma collector_new_inv: "collector_inv collector_new"
  by (simp add: collector_inv_def collector_new_def intervals_ok_def)

lemma record_arrival_keeps: "keeps collector_inv (record_arrival i cid a d w m wk rq)"
  by (rule keepsI) (auto simp: record_arrival_def op_simps collector_inv_def dict_simps)

lemma on_record_keeps:
  assumes "\<And>r. mr_job_id (f r) = mr_job_id r"
  shows "keeps collector_inv (on_record i f)"
  by (rule keepsI) (auto simp: on_record_def op_simps collector_inv_def dict_simps assms split: option.splits)

lemma record_start_keeps: "keeps collector_inv (record_start i t)"
  unfolding record_start_def by (rule on_record_keeps) simp

lemma record_complete_keeps: "keeps collector_inv (record_complete i t)"
  unfolding record_complete_def by (rule on_record_keeps) simp

lemma record_outcome_keeps: "keeps collector_inv (record_outcome out i)"
  unfolding record_outcome_def by (rule on_record_keeps) simp

lemma record_observation_age_keeps: "keeps collector_inv (record_observation_age i t)"
  unfolding record_observation_age_def by (rule on_record_keeps) simp

lemma append_to_ok: "intervals_ok d \<Longrightarrow> s < e \<Longrightarrow> intervals_ok (append_to k (s, e) d)"
  by (cases "map_of d k") (fastforce simp: intervals_ok_def append_to_def dict_simps dget_def)+

lemma record_resource_busy_inv: "collector_inv c \<Longrightarrow> collector_inv (record_resource_busy n s e cid c)"
  by (auto simp: record_resource_busy_def Let_def collector_inv_def append_to_ok split: option.splits)

lemma record_queue_size_inv: "collector_inv c \<Longrightarrow> collector_inv (record_queue_size n s t c)"
  by (simp add: record_queue_size_def collector_inv_def)

lemma record_bytes_inv: "collector_inv c \<Longrightarrow> collector_inv (record_bytes b c)"
  by (simp add: record_bytes_def collector_inv_def)

lemma record_energy_inv: "collector_inv c \<Longrightarrow> collector_inv (record_energy j c)"
  by (simp add: record_energy_def collector_inv_def fadd_def fl_nonneg)

lemma record_recovery_time_inv: "collector_inv c \<Longrightarrow> collector_inv (record_recovery_time t c)"
  by (simp add: record_recovery_time_def collector_inv_def)

lemmas collector_keeps = record_arrival_keeps record_start_keeps record_complete_keeps
  record_outcome_keeps record_observation_age_keeps

lemmas collector_invs = record_resource_busy_inv record_queue_size_inv record_bytes_inv
  record_energy_inv record_recovery_time_inv

section \<open>Percentiles\<close>

lemma rank_of_bounds: "0 < n \<Longrightarrow> 1 \<le> rank_of p n \<and> rank_of p n \<le> int n"
  by (auto simp: rank_of_def Let_def)

lemma rank_of_mono: "p \<le> q \<Longrightarrow> rank_of p n \<le> rank_of q n"
proof -
  assume "p \<le> q"
  then have "fmul (fdiv p 100) (int_to_float (int n)) \<le> fmul (fdiv q 100) (int_to_float (int n))"
    unfolding fmul_def fdiv_def int_to_float_def
    by (intro fl_mono mult_right_mono divide_right_mono) (auto intro: fl_nonneg)
  then show ?thesis unfolding rank_of_def Let_def by (meson ceiling_mono max.mono min.mono order_refl)
qed

lemma nearest_rank_nth:
  "xs \<noteq> [] \<Longrightarrow> nearest_rank_percentile xs p = xs ! nat (rank_of p (length xs) - 1) \<and>
   nat (rank_of p (length xs) - 1) < length xs"
  using rank_of_bounds[of "length xs" p] by (auto simp: nearest_rank_percentile_def nat_less_iff)

lemma nearest_rank_mono:
  assumes "sorted xs" and "p \<le> q"
  shows "nearest_rank_percentile xs p \<le> nearest_rank_percentile xs q"
proof (cases "xs = []")
  case True
  then show ?thesis by (simp add: nearest_rank_percentile_def)
next
  case False
  have "nat (rank_of p (length xs) - 1) \<le> nat (rank_of q (length xs) - 1)"
    using rank_of_mono[OF assms(2), of "length xs"] by simp
  then show ?thesis using False assms(1) nearest_rank_nth by (simp add: sorted_nth_mono)
qed

lemma nearest_rank_le_last:
  assumes "sorted xs" and "xs \<noteq> []"
  shows "nearest_rank_percentile xs p \<le> last xs"
proof -
  have "nat (rank_of p (length xs) - 1) \<le> length xs - 1" using nearest_rank_nth[OF assms(2), of p] by linarith
  then show ?thesis
    using assms nearest_rank_nth[OF assms(2), of p] by (simp add: last_conv_nth sorted_nth_mono)
qed

lemma nearest_rank_member: "xs \<noteq> [] \<Longrightarrow> nearest_rank_percentile xs p \<in> set xs"
  using nearest_rank_nth[of xs p] by simp

text \<open>The median's rank is exact: half of the count, rounded up.\<close>

lemma rank_of_50:
  assumes "0 < n" and "n \<le> 2 ^ 53"
  shows "rank_of 50 n = (int n + 1) div 2"
proof -
  have h: "fdiv 50 100 = (1 / 2 :: rat)"
    using fl_representable[of 1 "-1"] by (simp add: fdiv_def power_int_minus)
  have "int n \<le> 2 ^ 53" using assms(2) by (metis of_nat_le_iff of_nat_numeral of_nat_power)
  then have "fl (of_int (int n) * 2 powi (-1)) = of_int (int n) * 2 powi (-1)" "fl (of_int (int n)) = of_int (int n)"
    by (intro fl_representable fl_int; simp)+
  then have "fmul (fdiv 50 100) (int_to_float (int n)) = of_int (int n) / 2"
    by (simp add: fmul_def h int_to_float_def power_int_minus)
  moreover have "\<lceil>rat_of_int (int n) / 2\<rceil> = (int n + 1) div 2"
  proof (rule ceiling_unique)
    have "int n \<le> 2 * ((int n + 1) div 2)" "2 * ((int n + 1) div 2) \<le> int n + 1" by linarith+
    then have "rat_of_int (int n) \<le> of_int (2 * ((int n + 1) div 2))"
      "rat_of_int (2 * ((int n + 1) div 2)) \<le> of_int (int n + 1)"
      by (simp_all only: of_int_le_iff)
    then have a: "rat_of_int (int n) \<le> 2 * of_int ((int n + 1) div 2)"
      "2 * rat_of_int ((int n + 1) div 2) \<le> of_int (int n) + 1"
      by (simp_all only: of_int_mult of_int_add of_int_numeral of_int_1)
    show "rat_of_int ((int n + 1) div 2) - 1 < rat_of_int (int n) / 2" using a(2) by simp
    show "rat_of_int (int n) / 2 \<le> rat_of_int ((int n + 1) div 2)" using a(1) by simp
  qed
  moreover have "max 1 (min ((int n + 1) div 2) (int n)) = (int n + 1) div 2"
    using assms(1) by (auto simp: max_def min_def)
  ultimately show ?thesis unfolding rank_of_def Let_def by (simp only: )
qed


section \<open>Properties of the metrics\<close>

lemma outcome_partition:
  "length js = length (with_outcome Completed js) + length (with_outcome Dropped js)
    + length (with_outcome Replaced js) + length (with_outcome Rejected js) + length (with_outcome Timeout js)"
proof (induction js)
  case Nil
  then show ?case by (simp add: with_outcome_def)
next
  case (Cons j js)
  then show ?case by (cases "mr_outcome j") (simp_all add: with_outcome_def)
qed

lemma checked_div_ok: "b \<noteq> 0 \<Longrightarrow> checked_div a b = Inr (fdiv_int a b)"
  by (simp add: checked_div_def)

lemma compute_class_total:
  "cap \<noteq> 0 \<Longrightarrow> \<exists>m. compute_class c js ws we wt cap cid = Inr m \<and> cm_class_id m = cid \<and>
    cm_released_count m = length (filter (\<lambda>j. mr_class_id j = cid) js) \<and>
    cm_completed_count m = length (with_outcome Completed (filter (\<lambda>j. mr_class_id j = cid) js))"
  by (auto simp: compute_class_def Let_def checked_div_def split: prod.splits)

lemma compute_metrics_total:
  assumes "cap \<noteq> 0"
  shows "\<exists>m. compute_metrics w0 w1 cap c = Inr m"
proof -
  obtain g where "\<And>ws we wt cid. compute_class c (measurement_jobs c) ws we wt cap cid = Inr (g ws we wt cid)"
    using compute_class_total[OF assms] by metis
  then have "\<And>ws we wt ids. map_result (compute_class c (measurement_jobs c) ws we wt cap) ids
      = Inr (map (g ws we wt) ids)"
    by (intro map_result_total) simp
  then show ?thesis by (simp add: compute_metrics_def Let_def split: prod.splits)
qed

lemma map_result_set: "map_result f xs = Inr ys \<Longrightarrow> y \<in> set ys \<Longrightarrow> \<exists>x \<in> set xs. f x = Inr y"
  by (induction xs arbitrary: ys) (auto simp: bind_res_Inr_iff)

lemma map_result_sum:
  "map_result f xs = Inr ys \<Longrightarrow> (\<And>x y. f x = Inr y \<Longrightarrow> h y = g x) \<Longrightarrow> map h ys = map g xs"
  by (induction xs arbitrary: ys) (auto simp: bind_res_Inr_iff)

lemma count_by_class:
  "distinct ids \<Longrightarrow> set (map mr_class_id js) \<subseteq> set ids \<Longrightarrow>
   sum_list (map (\<lambda>cid. length (filter (\<lambda>j. mr_class_id j = cid) js)) ids) = length js"
proof (induction js)
  case Nil
  then show ?case by simp
next
  case (Cons j js)
  have "sum_list (map (\<lambda>cid. length (filter (\<lambda>j. mr_class_id j = cid) (j # js))) ids) =
      sum_list (map (\<lambda>cid. (if mr_class_id j = cid then 1 else 0) +
        length (filter (\<lambda>j. mr_class_id j = cid) js)) ids)"
    by (intro arg_cong[where f = sum_list] map_cong) auto
  also have "\<dots> = sum_list (map (\<lambda>cid. if mr_class_id j = cid then 1 else 0) ids) + length js"
    using Cons by (simp add: sum_list_addf)
  also have "sum_list (map (\<lambda>cid. if mr_class_id j = cid then 1 else 0) ids) = (1::nat)"
    using Cons.prems by (simp add: sum_list_distinct_conv_sum_set)
  finally show ?case by simp
qed

lemma collector_intervals:
  "collector_inv c \<Longrightarrow> \<forall>(s, e) \<in> set (dget (mc_resource_intervals c) name []). s < e"
  by (cases "map_of (mc_resource_intervals c) name") (simp_all add: collector_inv_def intervals_ok_def dget_def)

lemma compute_resource_bounds:
  assumes "\<forall>(s, e) \<in> set ivs. s < e"
    and u_def: "u = compute_resource ws we (max 0 (we - ws)) name ivs"
  shows "0 \<le> ru_utilization u \<and> ru_utilization u \<le> 1 \<and> ru_resource_name u = name \<and>
    (ws \<le> we \<longrightarrow> ru_busy_time_ps u = int (card (covered ivs \<inter> {ws..<we})))"
proof (cases "ws < we")
  case True
  note b = busy_bounds[OF assms(1), of ws we]
  from True b fdiv_int_unit[of "union_intervals_length (clip ws we ivs)" "we - ws"] show ?thesis
    by (simp add: u_def compute_resource_def Let_def)
next
  case False
  with busy_bounds[OF assms(1), of ws we] show ?thesis by (simp add: u_def compute_resource_def Let_def)
qed



text \<open>C9. The covered length: for intervals in any order, overlapping or nested or touching,
  the sweep of \<open>_union_intervals_length\<close> is the number of points in their union.\<close>

theorem union_intervals_length_correct:
  assumes "\<forall>(s, e) \<in> set ivs. s \<le> e"
  shows "union_intervals_length ivs = int (card (\<Union>(s, e) \<in> set ivs. {s..<e}))"
  using union_intervals_covered[OF assms] by (simp add: covered_def)

lemma union_intervals_length_correct_witness:
  "union_intervals_length [(4, 6), (0, 3), (1, 2), (6, 7)] = int (card ({4..<6} \<union> {0..<3} \<union> {1..<2} \<union> {6..<7::int}))"
  using union_intervals_length_correct[of "[(4, 6), (0, 3), (1, 2), (6, 7)]"] by (simp add: Un_assoc)

text \<open>The percentiles \<open>_percentile_ms\<close> reports are ordered, and each is one of the measured
  values; the median is the value whose rank is half of the count, rounded up.\<close>

theorem percentile_ms_correct:
  assumes "vs \<noteq> []" and "length vs \<le> 2 ^ 53"
  shows "case percentile_ms vs of (p50, p99, m) \<Rightarrow>
    p50 \<le> p99 \<and> p99 \<le> m \<and> {p50, p99, m} \<subseteq> ps_to_ms ` set vs \<and>
    (\<forall>v \<in> set vs. ps_to_ms v \<le> m) \<and> p50 = sort (map ps_to_ms vs) ! ((length vs - 1) div 2)"
proof -
  let ?s = "sort (map ps_to_ms vs)"
  have ne: "?s \<noteq> []" using assms(1) by (metis list.map_disc_iff set_empty set_sort)
  have st: "set ?s = ps_to_ms ` set vs" by simp
  have idx: "nat (rank_of 50 (length ?s) - 1) = (length vs - 1) div 2"
  proof -
    obtain k where k: "length vs = Suc k" using assms(1) by (cases vs) auto
    have "rank_of 50 (length vs) = (int (length vs) + 1) div 2" using rank_of_50 assms by simp
    moreover have "(int (Suc k) + 1) div 2 - 1 = int (k div 2)" by simp
    ultimately show ?thesis using k by simp
  qed
  have last: "\<forall>v \<in> set vs. ps_to_ms v \<le> last ?s"
  proof
    fix v assume "v \<in> set vs"
    then obtain i where i: "i < length ?s" "?s ! i = ps_to_ms v" using st by (metis image_eqI in_set_conv_nth)
    then have "?s ! i \<le> ?s ! (length ?s - 1)" by (intro sorted_nth_mono) auto
    with i ne show "ps_to_ms v \<le> last ?s" by (simp add: last_conv_nth)
  qed
  have "nearest_rank_percentile ?s 50 \<in> set ?s" "nearest_rank_percentile ?s 99 \<in> set ?s" "last ?s \<in> set ?s"
    using ne by (auto intro: nearest_rank_member simp del: set_sort)
  then show ?thesis
    using ne last idx nearest_rank_mono[of ?s 50 99] nearest_rank_le_last[of ?s 99] nearest_rank_nth[OF ne, of 50]
    unfolding st percentile_ms_def Let_def by simp
qed

lemma percentile_ms_correct_witness:
  "fst (percentile_ms [5000000000, 1000000000, 2000000000]) = sort (map ps_to_ms [5000000000, 1000000000, 2000000000]) ! 1"
  using percentile_ms_correct[of "[5000000000, 1000000000, 2000000000]"] by (simp split: prod.splits)

text \<open>A job that arrives and never starts is reported as completed on time: its record
  starts with the outcome \<open>COMPLETED\<close>, so \<open>compute\<close> counts it, without a latency, and calls
  the run stable.\<close>

theorem unfinished_job_counts_as_completed:
  "case compute_metrics (Some 0) (Some t) 1
      (snd (record_arrival j cid a d False True wk rq collector_new)) of
     Inl _ \<Rightarrow> False
   | Inr m \<Rightarrow> sm_completed_count m = 1 \<and> sm_deadline_miss_count m = 0 \<and> sm_stable m \<and>
       sm_latency_max_ms m = 0"
proof -
  let ?c = "snd (record_arrival j cid a d False True wk rq collector_new)"
  obtain m where m: "compute_metrics (Some 0) (Some t) 1 ?c = Inr m"
    using compute_metrics_total[of 1 "Some 0" "Some t"] by auto
  then show ?thesis
    by (auto simp: compute_metrics_def Let_def bind_res_Inr_iff record_arrival_def collector_new_def op_simps
        measurement_jobs_def with_outcome_def deadline_misses_def latencies_of_def latency_ps_def
        List.map_filter_def percentile_ms_def split: prod.splits)
qed

end
