(* ===== verification/Py_Text.thy ===== *)
theory Py_Text
  imports Py_Prelude
begin

text \<open>
  Text as the code builds and reads it: \<open>str(n)\<close>, \<open>int(s)\<close> in the bases 10 and 16, the
  zero-padded format \<open>{n:06d}\<close>, \<open>strip\<close>, \<open>split\<close>, \<open>splitlines\<close>, \<open>join\<close> and \<open>lower\<close>, on
  strings of Latin-1 characters, with the facts that make printing and parsing inverse.
\<close>

definition digit_char :: "nat \<Rightarrow> char" where
  "digit_char d = char_of (48 + d)"

definition digit_val :: "char \<Rightarrow> nat" where
  "digit_val c = of_char c - 48"

definition is_digit :: "char \<Rightarrow> bool" where
  "is_digit c \<longleftrightarrow> 48 \<le> (of_char c :: nat) \<and> (of_char c :: nat) \<le> 57"

fun dec :: "nat \<Rightarrow> string" where
  "dec n = (if n < 10 then [digit_char n] else dec (n div 10) @ [digit_char (n mod 10)])"

declare dec.simps [simp del]

definition undec :: "string \<Rightarrow> nat" where
  "undec s = foldl (\<lambda>a c. 10 * a + digit_val c) 0 s"

definition zfill :: "nat \<Rightarrow> string \<Rightarrow> string" where
  "zfill w s = replicate (w - length s) (digit_char 0) @ s"

lemma digit_val_char [simp]: "d < 10 \<Longrightarrow> digit_val (digit_char d) = d"
  by (simp add: digit_val_def digit_char_def)

lemma is_digit_char [simp]: "d < 10 \<Longrightarrow> is_digit (digit_char d)"
  by (simp add: is_digit_def digit_char_def)

lemma undec_snoc [simp]: "undec (s @ [c]) = 10 * undec s + digit_val c"
  by (simp add: undec_def)

lemma undec_dec [simp]: "undec (dec n) = n"
proof (induction n rule: dec.induct)
  case (1 n)
  show ?case
  proof (cases "n < 10")
    case True
    then show ?thesis by (simp add: dec.simps[of n] undec_def)
  next
    case False
    with 1 show ?thesis by (simp add: dec.simps[of n])
  qed
qed

lemma dec_digits: "c \<in> set (dec n) \<Longrightarrow> is_digit c"
proof (induction n rule: dec.induct)
  case (1 n)
  then show ?case by (cases "n < 10") (auto simp: dec.simps[of n])
qed

lemma undec_zeros: "undec (replicate k (digit_char 0) @ s) = undec s"
  by (induction k) (simp_all add: undec_def)

lemma undec_zfill [simp]: "undec (zfill w s) = undec s"
  by (simp add: zfill_def undec_zeros)

lemma zfill_digits: "(\<And>c. c \<in> set s \<Longrightarrow> is_digit c) \<Longrightarrow> c \<in> set (zfill w s) \<Longrightarrow> is_digit c"
  by (auto simp: zfill_def)

lemma zfill_dec_digits: "c \<in> set (zfill w (dec n)) \<Longrightarrow> is_digit c"
  by (rule zfill_digits) (rule dec_digits)

lemma zfill_length: "w \<le> length (zfill w s)"
  by (simp add: zfill_def)

lemma zfill_dec_inject [simp]: "zfill w (dec m) = zfill w (dec n) \<longleftrightarrow> m = n"
  by (metis undec_dec undec_zfill)

text \<open>A separator that does not occur after it splits a string in one way only.\<close>

lemma split_at_first:
  "a @ x # b = a' @ x # b' \<Longrightarrow> x \<notin> set a \<Longrightarrow> x \<notin> set a' \<Longrightarrow> a = a' \<and> b = b'"
proof (induction a arbitrary: a')
  case Nil
  then show ?case by (cases a') auto
next
  case (Cons y a)
  then show ?case by (cases a') auto
qed

lemma split_at_last:
  assumes "a @ x # b = a' @ x # b'" and "x \<notin> set b" and "x \<notin> set b'"
  shows "a = a' \<and> b = b'"
proof -
  have "rev (a @ x # b) = rev (a' @ x # b')" using assms(1) by simp
  then have "rev b @ x # rev a = rev b' @ x # rev a'" by simp
  from split_at_first[OF this] assms(2,3) show ?thesis by simp
qed

section \<open>Whitespace\<close>

definition py_isspace :: "char \<Rightarrow> bool" where
  "py_isspace c \<longleftrightarrow> (of_char c :: nat) \<in> {9, 10, 11, 12, 13, 28, 29, 30, 31, 32, 133, 160}"

definition lstrip :: "string \<Rightarrow> string" where
  "lstrip s = dropWhile py_isspace s"

definition strip :: "string \<Rightarrow> string" where
  "strip s = rev (lstrip (rev (lstrip s)))"

text \<open>Strings that neither start nor end with whitespace.\<close>

definition trimmed :: "string \<Rightarrow> bool" where
  "trimmed s \<longleftrightarrow> (s = [] \<or> \<not> py_isspace (hd s) \<and> \<not> py_isspace (last s))"

lemma lstrip_trimmed [simp]: "trimmed s \<Longrightarrow> lstrip s = s"
  by (cases s) (auto simp: lstrip_def trimmed_def)

lemma trimmed_rev [simp]: "trimmed (rev s) = trimmed s"
  by (cases "s = []") (auto simp: trimmed_def hd_rev last_rev)

lemma strip_trimmed [simp]: "trimmed s \<Longrightarrow> strip s = s"
  by (simp add: strip_def)

lemma lstrip_spaces: "list_all py_isspace a \<Longrightarrow> lstrip (a @ s) = lstrip s"
  by (induction a) (auto simp: lstrip_def)

lemma strip_around:
  assumes "list_all py_isspace a" and "list_all py_isspace b" and "trimmed s"
  shows "strip (a @ s @ b) = s"
proof (cases "s = []")
  case True
  have "list_all py_isspace (a @ b)" using assms by simp
  from lstrip_spaces[OF this, of "[]"] have "lstrip (a @ b) = []" by (simp add: lstrip_def)
  with True show ?thesis by (simp add: strip_def) (simp add: lstrip_def)
next
  case False
  have "\<not> py_isspace (hd s)" using False assms(3) by (simp add: trimmed_def)
  then have "lstrip (a @ s @ b) = s @ b"
    using lstrip_spaces[OF assms(1), of "s @ b"] False by (cases s) (simp_all add: lstrip_def)
  moreover have "list_all py_isspace (rev b)" using assms(2) by (simp add: list_all_iff)
  ultimately show ?thesis using lstrip_spaces[of "rev b" "rev s"] assms(3) by (simp add: strip_def)
qed

lemma trimmed_strip: "trimmed (strip s)"
proof -
  have l: "lstrip s = [] \<or> \<not> py_isspace (hd (lstrip s))" for s
    unfolding lstrip_def by (metis hd_dropWhile)
  let ?r = "rev (lstrip s)"
  have "lstrip ?r = [] \<or> \<not> py_isspace (last (lstrip ?r))"
  proof (cases "lstrip ?r = []")
    case False
    then have "last (lstrip ?r) = last ?r" unfolding lstrip_def by (metis last_appendR takeWhile_dropWhile_id)
    moreover have "lstrip s \<noteq> []"
    proof
      assume "lstrip s = []"
      then have "?r = []" by (simp only: rev.simps)
      then have "lstrip ?r = []" by (simp only: lstrip_def dropWhile.simps)
      with False show False ..
    qed
    ultimately show ?thesis using l[of s] by (simp add: last_rev)
  qed simp
  with l[of ?r] show ?thesis by (auto simp: strip_def trimmed_def hd_rev last_rev)
qed

section \<open>Splitting and joining\<close>

text \<open>\<open>s.split(c)\<close> on one character, \<open>s.split(None, 1)\<close> on a trimmed string, \<open>s.split(c, 1)\<close>.\<close>

fun split_on :: "char \<Rightarrow> string \<Rightarrow> string list" where
  "split_on c [] = [[]]"
| "split_on c (x # xs) = (if x = c then [] # split_on c xs
     else case split_on c xs of [] \<Rightarrow> [[x]] | h # t \<Rightarrow> (x # h) # t)"

definition split_space1 :: "string \<Rightarrow> string \<times> string option" where
  "split_space1 s = (let r = lstrip (dropWhile (\<lambda>c. \<not> py_isspace c) s)
     in (takeWhile (\<lambda>c. \<not> py_isspace c) s, if r = [] then None else Some r))"

definition partition_on :: "char \<Rightarrow> string \<Rightarrow> string \<times> string" where
  "partition_on c s = (takeWhile (\<lambda>x. x \<noteq> c) s, tl (dropWhile (\<lambda>x. x \<noteq> c) s))"

fun join :: "string \<Rightarrow> string list \<Rightarrow> string" where
  "join sep [] = []"
| "join sep [s] = s"
| "join sep (s # t # ss) = s @ sep @ join sep (t # ss)"

lemma split_on_nonempty [simp]: "split_on c s \<noteq> []"
  by (induction s) (auto split: list.splits)

lemma split_on_free: "c \<notin> set p \<Longrightarrow> split_on c p = [p]"
  by (induction p) auto

lemma split_on_append: "c \<notin> set p \<Longrightarrow> split_on c (p @ c # s) = p # split_on c s"
  by (induction p) auto

lemma partition_on_append: "c \<notin> set p \<Longrightarrow> partition_on c (p @ c # s) = (p, s)"
  by (auto simp: partition_on_def takeWhile_append dropWhile_append)

text \<open>\<open>splitlines\<close>: the line breaks below 256, with \<open>CR LF\<close> as one; no empty last line.\<close>

definition line_break :: "char \<Rightarrow> bool" where
  "line_break c \<longleftrightarrow> (of_char c :: nat) \<in> {10, 11, 12, 13, 28, 29, 30, 133}"

fun lines_from :: "string \<Rightarrow> string \<Rightarrow> string list" where
  "lines_from cur [] = (if cur = [] then [] else [rev cur])"
| "lines_from cur [c] = (if line_break c then [rev cur] else [rev (c # cur)])"
| "lines_from cur (c # d # s) =
     (if (of_char c :: nat) = 13 \<and> (of_char d :: nat) = 10 then rev cur # lines_from [] s
      else if line_break c then rev cur # lines_from [] (d # s) else lines_from (c # cur) (d # s))"

definition splitlines :: "string \<Rightarrow> string list" where
  "splitlines s = lines_from [] s"

definition lower :: "string \<Rightarrow> string" where
  "lower s = map (\<lambda>c. let n = (of_char c :: nat) in if 65 \<le> n \<and> n \<le> 90 then char_of (n + 32) else c) s"

section \<open>Reading integers\<close>

text \<open>\<open>int(s)\<close> and \<open>int(s, 16)\<close>: a sign, digits with single underscores between them, a prefix
  for base 16.\<close>

definition digit_of :: "nat \<Rightarrow> char \<Rightarrow> nat option" where
  "digit_of b c = (let n = (of_char c :: nat);
       d = (if 48 \<le> n \<and> n \<le> 57 then n - 48 else if 97 \<le> n \<and> n \<le> 102 then n - 87
            else if 65 \<le> n \<and> n \<le> 70 then n - 55 else b)
     in if d < b then Some d else None)"

fun py_digits :: "nat \<Rightarrow> nat \<Rightarrow> bool \<Rightarrow> string \<Rightarrow> nat option" where
  "py_digits b acc seen [] = (if seen then Some acc else None)"
| "py_digits b acc seen (c # s) =
     (if c = CHR ''_'' then (if seen then py_digits b acc False s else None)
      else case digit_of b c of None \<Rightarrow> None | Some d \<Rightarrow> py_digits b (b * acc + d) True s)"

definition read_signed :: "(string \<Rightarrow> nat option) \<Rightarrow> string \<Rightarrow> int result" where
  "read_signed f s = (case (case s of
       c # r \<Rightarrow> if c = CHR ''-'' then map_option (\<lambda>n. - int n) (f r)
                else if c = CHR ''+'' then map_option int (f r) else map_option int (f s)
     | [] \<Rightarrow> None) of None \<Rightarrow> Inl (ValueError ''int'') | Some v \<Rightarrow> Inr v)"

definition py_int10 :: "string \<Rightarrow> int result" where
  "py_int10 s = read_signed (py_digits 10 0 False) (strip s)"

definition py_int16 :: "string \<Rightarrow> int result" where
  "py_int16 s = read_signed (\<lambda>r. let r' = (if take 2 r = ''0x'' \<or> take 2 r = ''0X'' then
       (case drop 2 r of c # q \<Rightarrow> if c = CHR ''_'' then q else c # q | [] \<Rightarrow> []) else r)
     in py_digits 16 0 False r') (strip s)"

text \<open>\<open>str(v)\<close>\<close>

definition str_int :: "int \<Rightarrow> string" where
  "str_int v = (if v < 0 then CHR ''-'' # dec (nat (- v)) else dec (nat v))"

lemma dec_nonempty [simp]: "dec n \<noteq> []"
  by (subst dec.simps) simp

lemma digit_of_digit: "is_digit c \<Longrightarrow> digit_of 10 c = Some (digit_val c)"
  by (auto simp: digit_of_def is_digit_def digit_val_def Let_def)

lemma digit_not_special: "is_digit c \<Longrightarrow> c \<noteq> CHR ''_'' \<and> c \<noteq> CHR ''-'' \<and> c \<noteq> CHR ''+'' \<and> c \<noteq> CHR ''x''
    \<and> c \<noteq> CHR ''X'' \<and> c \<noteq> CHR '','' \<and> c \<noteq> CHR ''='' \<and> \<not> py_isspace c"
  by (auto simp: is_digit_def py_isspace_def)

lemma py_digits_dec_aux:
  "\<forall>c \<in> set s. is_digit c \<Longrightarrow> s \<noteq> [] \<or> seen \<Longrightarrow>
   py_digits 10 acc seen s = Some (foldl (\<lambda>a c. 10 * a + digit_val c) acc s)"
  by (induction s arbitrary: acc seen) (auto simp: digit_of_digit dest: digit_not_special)

lemma py_digits_dec: "py_digits 10 0 False (dec n) = Some n"
  using py_digits_dec_aux[of "dec n" False 0] dec_digits undec_dec[of n] by (auto simp: undec_def)

lemma trimmed_dec: "trimmed (dec n)"
  using dec_digits[of "hd (dec n)" n] dec_digits[of "last (dec n)" n]
  by (auto simp: trimmed_def dest: digit_not_special)

lemma trimmed_str_int: "trimmed (str_int v)"
  using trimmed_dec[of "nat (- v)"] trimmed_dec[of "nat v"]
  by (auto simp: str_int_def trimmed_def py_isspace_def)

lemma str_int_chars: "c \<in> set (str_int v) \<Longrightarrow> c = CHR ''-'' \<or> is_digit c"
  by (auto simp: str_int_def dest: dec_digits split: if_splits)

lemma py_int10_str [simp]: "py_int10 (str_int v) = Inr v"
proof (cases "v < 0")
  case True
  have "trimmed (CHR ''-'' # dec (nat (- v)))" using trimmed_str_int[of v] True by (simp add: str_int_def)
  with True show ?thesis by (simp add: py_int10_def str_int_def read_signed_def py_digits_dec)
next
  case False
  obtain c r where d: "dec (nat v) = c # r" by (cases "dec (nat v)") auto
  then have "is_digit c" using dec_digits[of c "nat v"] by simp
  with False d py_digits_dec[of "nat v"] trimmed_dec[of "nat v"] show ?thesis
    by (auto simp: py_int10_def str_int_def read_signed_def simp del: py_digits.simps dest: digit_not_special)
qed

section \<open>Substrings\<close>

text \<open>\<open>s.startswith(p)\<close> and \<open>p in s\<close>\<close>

definition starts_with :: "string \<Rightarrow> string \<Rightarrow> bool" where
  "starts_with p s \<longleftrightarrow> take (length p) s = p"

fun contains :: "string \<Rightarrow> string \<Rightarrow> bool" where
  "contains p [] = (p = [])"
| "contains p (c # s) = (starts_with p (c # s) \<or> contains p s)"

end
