(* ===== verification/Py_Bits.thy ===== *)
theory Py_Bits
  imports Py_Prelude "HOL-Library.Word"
begin

text \<open>
  Bit fields of Python integers: unbounded two's complement, so \<open>&\<close>, \<open>|\<close>, \<open><<\<close> and \<open>>>\<close>
  are \<open>AND\<close>, \<open>OR\<close>, \<open>push_bit\<close> and \<open>drop_bit\<close> on \<open>int\<close>. A mask literal is read as
  \<open>take_bit\<close>; packing disjoint fields and extracting one is then decided bit by bit.
\<close>

unbundle bit_operations_syntax

named_theorems mask_lits \<open>mask literals as take_bit\<close>

lemma and_mask_lit [mask_lits]:
  "x AND (0x1::int) = take_bit 1 x" "x AND (0x3::int) = take_bit 2 x" "x AND (0x7::int) = take_bit 3 x"
  "x AND (0xF::int) = take_bit 4 x" "x AND (0x1F::int) = take_bit 5 x" "x AND (0x7F::int) = take_bit 7 x"
  "x AND (0xFF::int) = take_bit 8 x" "x AND (0x3FF::int) = take_bit 10 x" "x AND (0xFFF::int) = take_bit 12 x"
  "x AND (0xFFFF::int) = take_bit 16 x" "x AND (0xFFFFFFFF::int) = take_bit 32 x"
  by (simp_all add: take_bit_eq_mask mask_eq_exp_minus_1)

lemma take_bit_lit_mod: "take_bit n (x::int) = x mod 2 ^ n"
  by (simp add: take_bit_eq_mod)

text \<open>Extraction of the field at \<open>lo\<close> of width \<open>w\<close> skips what lies above and below it.\<close>

lemma field_of_or [simp]:
  "take_bit w (drop_bit lo (a OR b)) = take_bit w (drop_bit lo a) OR take_bit w (drop_bit lo (b::int))"
  by (simp add: take_bit_or drop_bit_or)

lemma field_above: "lo + w \<le> n \<Longrightarrow> take_bit w (drop_bit lo (push_bit n (x::int))) = 0"
  by (rule bit_eqI) (auto simp: bit_simps)

lemma field_below: "n + k \<le> lo \<Longrightarrow> take_bit w (drop_bit lo (push_bit n (take_bit k (x::int)))) = 0"
  by (rule bit_eqI) (auto simp: bit_simps)

lemma field_here: "take_bit w (drop_bit n (push_bit n (x::int))) = take_bit w x"
  by (rule bit_eqI) (auto simp: bit_simps)

lemma field_last: "k \<le> lo \<Longrightarrow> take_bit w (drop_bit lo (take_bit k (x::int))) = 0"
  by (rule bit_eqI) (auto simp: bit_simps)

lemma low_above: "w \<le> n \<Longrightarrow> take_bit w (push_bit n (x::int)) = 0"
  by (rule bit_eqI) (auto simp: bit_simps)

lemma low_of_or [simp]: "take_bit w (a OR b) = take_bit w a OR take_bit w (b::int)"
  by (rule take_bit_or)

lemmas field_simps' = field_above field_below field_here field_last low_above

lemma field_bounds: "0 \<le> take_bit w (x::int)" "take_bit w x < 2 ^ w"
  by simp_all


lemma push_bound: "k + w \<le> n \<Longrightarrow> take_bit n (push_bit k (take_bit w (x::int))) = push_bit k (take_bit w x)"
  by (rule bit_eqI) (auto simp: bit_simps)

lemma take_bit_bound: "take_bit n x = x \<Longrightarrow> 0 \<le> x \<and> x < 2 ^ n" for x :: int
  by (metis field_bounds)

lemma take_bit_id: "0 \<le> x \<Longrightarrow> x < 2 ^ n \<Longrightarrow> take_bit n x = x" for x :: int
  by (simp add: take_bit_int_eq_self_iff)

text \<open>A word reassembled from its fields.\<close>

lemma split_field: "push_bit n (drop_bit n x) OR take_bit n x = (x::int)"
  by (rule bit_eqI) (auto simp: bit_simps)

end
