(* ===== verification/Scen_Schema.thy ===== *)
theory Scen_Schema
  imports Sched_Metrics Py_Text
begin

text \<open>
  The scenario schema, \<open>sim/scenarios/schema.py\<close>: arrival patterns, workload classes and
  scenarios, their field constraints and model validators, the default of the deadline and
  the timeout, release times and the class lookup. A failed validation is a
  \<open>ValueError\<close> (pydantic's \<open>ValidationError\<close> is one), whatever the number of failed
  checks; \<open>metadata\<close> and descriptions are left out.
\<close>

datatype queue_policy = FIFO | MAILBOX_LATEST

datatype arrival_mode = PERIODIC | TRACE

record arrival_pattern =
  ap_mode :: arrival_mode
  ap_period_ms :: "rat option"
  ap_count :: "int option"
  ap_offset_ms :: rat
  ap_releases_ms :: "rat list"

record workload_class =
  wc_id :: string
  wc_arrival :: arrival_pattern
  wc_work_ms :: rat
  wc_relative_deadline_ms :: "rat option"
  wc_timeout_ms :: "rat option"
  wc_priority :: int
  wc_queue_policy :: queue_policy
  wc_queue_capacity :: int
  wc_stream_id :: "string option"
  wc_resource_requirements :: "(string, int) dict"
  wc_memory_bytes :: int
  wc_bandwidth_fraction :: rat
  wc_admission_excluded :: bool

record scenario =
  sc_name :: string
  sc_seed :: int
  sc_warmup_count :: int
  sc_measurement_count :: int
  sc_drain :: bool
  sc_max_simulation_time_ms :: rat
  sc_recovery_phase_start_ms :: "rat option"
  sc_workload_ref :: "string option"
  sc_classes :: "workload_class list"
  sc_compute_capacity :: int
  sc_resources :: "(string, int) dict"
  sc_memory_available_bytes :: int
  sc_max_inflight_jobs :: int
  sc_max_bandwidth_fraction :: rat
  sc_preemption_enabled :: bool

section \<open>Validation\<close>

definition guard_res :: "bool \<Rightarrow> string \<Rightarrow> unit result" where
  "guard_res ok msg = (if ok then Inr () else Inl (ValueError msg))"

fun all_guards :: "(bool \<times> string) list \<Rightarrow> unit result" where
  "all_guards [] = Inr ()"
| "all_guards ((ok, msg) # gs) = bind_res (guard_res ok msg) (\<lambda>_. all_guards gs)"

lemma guard_res_ok [simp]: "guard_res b m = Inr () \<longleftrightarrow> b"
  by (simp add: guard_res_def)

lemma all_guards_ok: "all_guards gs = Inr () \<longleftrightarrow> (\<forall>g \<in> set gs. fst g)"
  by (induction gs rule: all_guards.induct) (auto simp: bind_res_Inr_iff)

lemma eq_sort_iff: "xs = sort xs \<longleftrightarrow> sorted xs"
  by (metis sorted_sort sorted_sort_id)

definition is_positive :: "'a::{zero,ord} option \<Rightarrow> bool" where
  "is_positive v = (case v of None \<Rightarrow> False | Some x \<Rightarrow> 0 < x)"

definition validate_arrival :: "arrival_pattern \<Rightarrow> arrival_pattern result" where
  "validate_arrival p = bind_res (all_guards
     ((case ap_count p of None \<Rightarrow> True | Some c \<Rightarrow> \<not> c \<le> 0, ''count must be positive'') #
      (case ap_mode p of
         PERIODIC \<Rightarrow>
           [(is_positive (ap_period_ms p), ''periodic mode requires positive period_ms''),
            (is_positive (ap_count p), ''periodic mode requires positive count''),
            (\<not> ap_offset_ms p < 0, ''offset_ms must be non-negative'')]
       | TRACE \<Rightarrow>
           [(ap_releases_ms p \<noteq> [], ''trace mode requires non-empty releases_ms''),
            (\<not> list_ex (\<lambda>r. r < 0) (ap_releases_ms p), ''release times must be non-negative''),
            (ap_releases_ms p = sort (ap_releases_ms p), ''releases_ms must be sorted ascending'')])))
     (\<lambda>_. Inr p)"

text \<open>\<open>not v or not v.strip()\<close>: only whitespace.\<close>

definition blank :: "string \<Rightarrow> bool" where
  "blank s \<longleftrightarrow> list_all py_isspace s"

definition deadline_defaults :: "workload_class \<Rightarrow> workload_class" where
  "deadline_defaults c =
     (let c1 = (if wc_relative_deadline_ms c = None
                then c\<lparr>wc_relative_deadline_ms := Some (wc_work_ms c)\<rparr> else c)
      in if wc_timeout_ms c1 = None then c1\<lparr>wc_timeout_ms := wc_relative_deadline_ms c1\<rparr> else c1)"

definition validate_class :: "workload_class \<Rightarrow> workload_class result" where
  "validate_class c = bind_res (validate_arrival (wc_arrival c)) (\<lambda>_. bind_res (all_guards
     [(\<not> blank (wc_id c), ''class id must be non-empty''),
      (0 < wc_work_ms c, ''work_ms''),
      (1 \<le> wc_queue_capacity c, ''queue_capacity''),
      (0 \<le> wc_memory_bytes c, ''memory_bytes''),
      (0 \<le> wc_bandwidth_fraction c, ''bandwidth_fraction'')])
     (\<lambda>_. Inr (deadline_defaults c)))"

definition validate_scenario :: "scenario \<Rightarrow> scenario result" where
  "validate_scenario s = bind_res (map_result validate_class (sc_classes s)) (\<lambda>cs. bind_res (all_guards
     [(\<not> blank (sc_name s), ''scenario name must be non-empty''),
      (0 \<le> sc_warmup_count s, ''warmup_count''),
      (1 \<le> sc_measurement_count s, ''measurement_count''),
      (sc_classes s \<noteq> [], ''classes''),
      (1 \<le> sc_compute_capacity s, ''compute_capacity''),
      (0 \<le> sc_memory_available_bytes s, ''memory_available_bytes''),
      (1 \<le> sc_max_inflight_jobs s, ''max_inflight_jobs''),
      (0 < sc_max_bandwidth_fraction s, ''max_bandwidth_fraction''),
      (sc_max_bandwidth_fraction s \<le> 1, ''max_bandwidth_fraction''),
      (distinct (map wc_id cs), ''workload class ids must be unique'')])
     (\<lambda>_. Inr (s\<lparr>sc_classes := cs\<rparr>)))"

section \<open>Derived values\<close>

definition period_ps :: "arrival_pattern \<Rightarrow> int result" where
  "period_ps p =
     (if ap_mode p \<noteq> PERIODIC then Inl (ValueError ''period_ps only defined for periodic arrivals'')
      else case ap_period_ms p of None \<Rightarrow> Inl (ValueError ''period_ms'') | Some x \<Rightarrow> Inr (ms_to_ps x))"

definition release_times_ps :: "arrival_pattern \<Rightarrow> int list" where
  "release_times_ps p = (case ap_mode p of
     PERIODIC \<Rightarrow> map (\<lambda>i. ms_to_ps (fadd (ap_offset_ms p) (fmul (int_to_float (int i)) (the (ap_period_ms p)))))
       [0..<nat (the (ap_count p))]
   | TRACE \<Rightarrow> map ms_to_ps (ap_releases_ms p))"

definition work_ps :: "workload_class \<Rightarrow> int" where
  "work_ps c = ms_to_ps (wc_work_ms c)"

text \<open>\<open>a or b\<close> on an optional float: \<open>None\<close> and \<open>0.0\<close> are false.\<close>

definition or_float :: "rat option \<Rightarrow> rat \<Rightarrow> rat" where
  "or_float v d = (case v of None \<Rightarrow> d | Some x \<Rightarrow> if x = 0 then d else x)"

definition relative_deadline_ps :: "workload_class \<Rightarrow> int" where
  "relative_deadline_ps c = ms_to_ps (or_float (wc_relative_deadline_ms c) (wc_work_ms c))"

definition class_timeout_ps :: "workload_class \<Rightarrow> int" where
  "class_timeout_ps c =
     ms_to_ps (or_float (wc_timeout_ms c) (or_float (wc_relative_deadline_ms c) (wc_work_ms c)))"

definition get_class :: "scenario \<Rightarrow> string \<Rightarrow> workload_class result" where
  "get_class s cid = (case find (\<lambda>c. wc_id c = cid) (sc_classes s) of
     None \<Rightarrow> Inl (ConfigError ''classes'') | Some c \<Rightarrow> Inr c)"

section \<open>What validation gives\<close>

definition arrival_ok :: "arrival_pattern \<Rightarrow> bool" where
  "arrival_ok p \<longleftrightarrow> (case ap_mode p of
     PERIODIC \<Rightarrow> (\<exists>x. ap_period_ms p = Some x \<and> 0 < x) \<and> (\<exists>n. ap_count p = Some n \<and> 0 < n) \<and> 0 \<le> ap_offset_ms p
   | TRACE \<Rightarrow> ap_releases_ms p \<noteq> [] \<and> (\<forall>r \<in> set (ap_releases_ms p). 0 \<le> r) \<and> sorted (ap_releases_ms p))"

lemma validate_arrival_ok: "validate_arrival p = Inr q \<Longrightarrow> q = p \<and> arrival_ok p"
  by (auto simp: validate_arrival_def bind_res_Inr_iff all_guards_ok arrival_ok_def is_positive_def
      list_ex_iff not_less eq_sort_iff split: arrival_mode.splits option.splits)

definition class_ok :: "workload_class \<Rightarrow> bool" where
  "class_ok c \<longleftrightarrow> arrival_ok (wc_arrival c) \<and> \<not> blank (wc_id c) \<and> 0 < wc_work_ms c \<and>
     1 \<le> wc_queue_capacity c \<and> 0 \<le> wc_memory_bytes c \<and> 0 \<le> wc_bandwidth_fraction c \<and>
     wc_relative_deadline_ms c \<noteq> None \<and> wc_timeout_ms c \<noteq> None"

lemma deadline_defaults_fields [simp]:
  "wc_id (deadline_defaults c) = wc_id c" "wc_arrival (deadline_defaults c) = wc_arrival c"
  "wc_work_ms (deadline_defaults c) = wc_work_ms c"
  "wc_queue_capacity (deadline_defaults c) = wc_queue_capacity c"
  "wc_memory_bytes (deadline_defaults c) = wc_memory_bytes c"
  "wc_bandwidth_fraction (deadline_defaults c) = wc_bandwidth_fraction c"
  by (simp_all add: deadline_defaults_def Let_def)

lemma deadline_defaults_set:
  "wc_relative_deadline_ms (deadline_defaults c) \<noteq> None \<and> wc_timeout_ms (deadline_defaults c) \<noteq> None"
  by (auto simp: deadline_defaults_def Let_def)

lemma validate_class_ok: "validate_class c = Inr c' \<Longrightarrow> class_ok c' \<and> wc_id c' = wc_id c"
  using deadline_defaults_set[of c]
  by (auto simp: validate_class_def bind_res_Inr_iff all_guards_ok class_ok_def dest: validate_arrival_ok)

definition scenario_ok :: "scenario \<Rightarrow> bool" where
  "scenario_ok s \<longleftrightarrow> (\<forall>c \<in> set (sc_classes s). class_ok c) \<and> distinct (map wc_id (sc_classes s)) \<and>
     sc_classes s \<noteq> [] \<and> 0 \<le> sc_warmup_count s \<and> 1 \<le> sc_measurement_count s \<and>
     1 \<le> sc_compute_capacity s \<and> 0 \<le> sc_memory_available_bytes s \<and> 1 \<le> sc_max_inflight_jobs s \<and>
     0 < sc_max_bandwidth_fraction s \<and> sc_max_bandwidth_fraction s \<le> 1"

lemma validate_scenario_ok:
  assumes "validate_scenario s = Inr s'"
  shows "scenario_ok s'"
proof -
  from assms obtain cs where cs: "map_result validate_class (sc_classes s) = Inr cs"
    and g: "s' = s\<lparr>sc_classes := cs\<rparr>" "distinct (map wc_id cs)" "sc_classes s \<noteq> []" "0 \<le> sc_warmup_count s"
      "1 \<le> sc_measurement_count s" "1 \<le> sc_compute_capacity s" "0 \<le> sc_memory_available_bytes s"
      "1 \<le> sc_max_inflight_jobs s" "0 < sc_max_bandwidth_fraction s" "sc_max_bandwidth_fraction s \<le> 1"
    by (auto simp: validate_scenario_def bind_res_Inr_iff all_guards_ok)
  have "\<forall>c \<in> set cs. class_ok c" using map_result_set[OF cs] validate_class_ok by blast
  moreover have "cs \<noteq> []" using map_result_length[OF cs] g(3) by auto
  ultimately show ?thesis using g by (simp add: scenario_ok_def)
qed

lemma get_class_mem: "get_class s cid = Inr c \<Longrightarrow> c \<in> set (sc_classes s) \<and> wc_id c = cid"
  by (auto simp: get_class_def find_Some_iff split: option.splits)

lemma get_class_ok:
  assumes "scenario_ok s" and "get_class s cid = Inr c"
  shows "class_ok c \<and> wc_id c = cid \<and> c \<in> set (sc_classes s)"
  using assms by (auto simp: get_class_def scenario_ok_def find_Some_iff split: option.splits)

lemma get_class_total: "c \<in> set (sc_classes s) \<Longrightarrow> \<exists>c'. get_class s (wc_id c) = Inr c'"
  by (auto simp: get_class_def find_None_iff split: option.splits)

lemma get_class_self:
  assumes "scenario_ok s" and "c \<in> set (sc_classes s)"
  shows "get_class s (wc_id c) = Inr c"
proof -
  obtain c' where c': "get_class s (wc_id c) = Inr c'" using get_class_total[OF assms(2)] by auto
  with get_class_ok[OF assms(1) c'] have "c' = c"
    using assms by (auto simp: scenario_ok_def distinct_map dest: inj_onD)
  with c' show ?thesis by simp
qed

text \<open>Release times of a valid pattern rise, and are not negative: for periodic arrivals this
  needs that rounding at each step is monotone.\<close>

lemma ms_to_ps_0 [simp]: "ms_to_ps 0 = 0"
  using round_half_even_of_int[of 0] by (simp add: ms_to_ps_def fmul_def)

lemma ms_to_ps_nonneg: "0 \<le> x \<Longrightarrow> 0 \<le> ms_to_ps x"
  using ms_to_ps_mono[of 0 x] by simp

lemma work_ps_nonneg: "class_ok c \<Longrightarrow> 0 \<le> work_ps c"
  by (simp add: class_ok_def work_ps_def ms_to_ps_nonneg)

lemma release_times_sorted:
  assumes "arrival_ok p"
  shows "sorted (release_times_ps p) \<and> (\<forall>t \<in> set (release_times_ps p). 0 \<le> t) \<and> release_times_ps p \<noteq> []"
proof (cases "ap_mode p")
  case PERIODIC
  with assms obtain x n where x: "ap_period_ms p = Some x" "0 < x" and n: "ap_count p = Some n" "0 < n"
    and off: "0 \<le> ap_offset_ms p" by (auto simp: arrival_ok_def)
  let ?f = "\<lambda>i::nat. fadd (ap_offset_ms p) (fmul (int_to_float (int i)) x)"
  have mono: "?f i \<le> ?f j" if "i \<le> j" for i j
    unfolding fadd_def fmul_def int_to_float_def using that x(2)
    by (intro fl_mono add_left_mono mult_right_mono) simp_all
  have "0 \<le> ?f i" for i
    unfolding fadd_def fmul_def int_to_float_def using off x(2)
    by (intro fl_nonneg add_nonneg_nonneg mult_nonneg_nonneg) (simp_all add: fl_nonneg)
  moreover have "sorted (map (\<lambda>i. ms_to_ps (?f i)) [0..<nat n])"
    by (auto simp: sorted_iff_nth_mono intro!: ms_to_ps_mono mono)
  ultimately show ?thesis using PERIODIC x n by (auto simp: release_times_ps_def intro: ms_to_ps_nonneg)
next
  case TRACE
  with assms have s: "sorted (ap_releases_ms p)" "\<forall>r \<in> set (ap_releases_ms p). 0 \<le> r" "ap_releases_ms p \<noteq> []"
    by (auto simp: arrival_ok_def)
  then have "sorted (map ms_to_ps (ap_releases_ms p))"
    by (auto simp: sorted_iff_nth_mono intro!: ms_to_ps_mono)
  with TRACE s show ?thesis by (auto simp: release_times_ps_def intro: ms_to_ps_nonneg)
qed


definition sample_class :: workload_class where
  "sample_class = \<lparr>wc_id = ''cam'', wc_arrival = \<lparr>ap_mode = PERIODIC, ap_period_ms = Some 10, ap_count = Some 3,
       ap_offset_ms = 0, ap_releases_ms = []\<rparr>, wc_work_ms = 2, wc_relative_deadline_ms = Some 5,
     wc_timeout_ms = Some 5, wc_priority = 1, wc_queue_policy = FIFO, wc_queue_capacity = 2,
     wc_stream_id = None, wc_resource_requirements = [(''compute'', 1)], wc_memory_bytes = 0,
     wc_bandwidth_fraction = 0, wc_admission_excluded = False\<rparr>"

definition sample_scenario :: scenario where
  "sample_scenario = \<lparr>sc_name = ''s'', sc_seed = 0, sc_warmup_count = 1, sc_measurement_count = 2, sc_drain = True,
     sc_max_simulation_time_ms = 1000, sc_recovery_phase_start_ms = None, sc_workload_ref = None,
     sc_classes = [sample_class], sc_compute_capacity = 1, sc_resources = [],
     sc_memory_available_bytes = 100, sc_max_inflight_jobs = 4, sc_max_bandwidth_fraction = 1,
     sc_preemption_enabled = True\<rparr>"

lemma sample_scenario_valid: "validate_scenario sample_scenario = Inr sample_scenario"
  by code_simp


end
