(* ===== verification/Scen_Compiler.thy ===== *)
theory Scen_Compiler
  imports Scen_Schema Py_Text Sched_Queues Sched_Resources Sched_Admission
begin

text \<open>
  The scenario compiler, \<open>sim/scenarios/compiler.py\<close>: the deterministic release list, the
  capacity resources, the queues, the admission controller and the measurement window.

  With a workload fixture the memory available to admission is raised to what its memory
  plan finds usable; the plan is not part of this theory, so its result is the argument
  \<open>plan_bytes\<close> (\<open>None\<close> without a fixture, or when planning failed). Reading YAML files is left
  out.
\<close>

record job_release =
  jr_job_id :: string
  jr_class_id :: string
  jr_arrival_ps :: int
  jr_work_ps :: int
  jr_deadline_ps :: int
  jr_timeout_ps :: int
  jr_is_warmup :: bool
  jr_is_measurement :: bool
  jr_sequence :: nat

datatype queue_obj = QFifo "string fifo" | QMailbox "string mailbox"

record compiled_scenario =
  cs_scenario :: scenario
  cs_releases :: "job_release list"
  cs_resources :: "(string, capacity_resource) dict"
  cs_queues :: "(string, queue_obj) dict"
  cs_admission :: admission
  cs_window_start_ps :: int
  cs_window_end_ps :: int

section \<open>Resources, queues, admission\<close>

fun add_resources ::
  "(string, int) dict \<Rightarrow> (string, capacity_resource) dict \<Rightarrow> (string, capacity_resource) dict result" where
  "add_resources [] rs = Inr rs"
| "add_resources ((name, capacity) # items) rs =
     (if capacity \<le> 0 then Inl (ConfigError (''resources.'' @ name))
      else bind_res (capacity_resource_new name capacity False)
             (\<lambda>r. add_resources items (AList.update name r rs)))"

definition build_resources :: "scenario \<Rightarrow> (string, capacity_resource) dict result" where
  "build_resources s = bind_res (capacity_resource_new ''compute'' (sc_compute_capacity s) False)
     (\<lambda>r. add_resources (sc_resources s) [(''compute'', r)])"

text \<open>\<open>cls.stream_id or cls.id\<close>\<close>

definition stream_of :: "workload_class \<Rightarrow> string" where
  "stream_of c = (case wc_stream_id c of None \<Rightarrow> wc_id c | Some s \<Rightarrow> if s = [] then wc_id c else s)"

definition fifo_key :: "workload_class \<Rightarrow> string" where
  "fifo_key c = ''fifo:'' @ wc_id c"

definition mailbox_key :: "workload_class \<Rightarrow> string" where
  "mailbox_key c = ''mailbox:'' @ stream_of c"

fun add_queues :: "workload_class list \<Rightarrow> (string, queue_obj) dict \<Rightarrow> (string, queue_obj) dict result" where
  "add_queues [] qs = Inr qs"
| "add_queues (c # cs) qs = (case wc_queue_policy c of
     FIFO \<Rightarrow> bind_res (fifo_new (wc_queue_capacity c) (fifo_key c))
       (\<lambda>q. add_queues cs (AList.update (fifo_key c) (QFifo q) qs))
   | MAILBOX_LATEST \<Rightarrow> add_queues cs
       (if din (mailbox_key c) qs then qs
        else AList.update (mailbox_key c) (QMailbox (mailbox_new (mailbox_key c))) qs))"

definition build_queues :: "scenario \<Rightarrow> (string, queue_obj) dict result" where
  "build_queues s = add_queues (sc_classes s) []"

definition build_admission :: "scenario \<Rightarrow> int option \<Rightarrow> admission result" where
  "build_admission s plan_bytes =
     admission_new (case plan_bytes of None \<Rightarrow> sc_memory_available_bytes s
                    | Some b \<Rightarrow> max (sc_memory_available_bytes s) b)
       (sc_max_inflight_jobs s) (sc_max_bandwidth_fraction s)"

section \<open>Releases and the measurement window\<close>

text \<open>\<open>f"{cls.id}-{idx:06d}"\<close>\<close>

definition release_id :: "string \<Rightarrow> nat \<Rightarrow> string" where
  "release_id cid idx = cid @ CHR ''-'' # zfill 6 (dec idx)"

definition class_releases :: "scenario \<Rightarrow> nat \<Rightarrow> workload_class \<Rightarrow> job_release list" where
  "class_releases s seq c =
     (let times = release_times_ps (wc_arrival c);
          warmup = min (sc_warmup_count s) (int (length times));
          measure = min (sc_measurement_count s) (int (length times) - warmup)
      in map (\<lambda>(idx, arrival).
           \<lparr>jr_job_id = release_id (wc_id c) idx, jr_class_id = wc_id c, jr_arrival_ps = arrival,
            jr_work_ps = work_ps c, jr_deadline_ps = arrival + relative_deadline_ps c,
            jr_timeout_ps = arrival + class_timeout_ps c,
            jr_is_warmup = int idx < warmup,
            jr_is_measurement = (warmup \<le> int idx \<and> int idx < warmup + measure),
            jr_sequence = seq + idx\<rparr>) (enumerate 0 times))"

fun all_releases :: "scenario \<Rightarrow> nat \<Rightarrow> workload_class list \<Rightarrow> job_release list" where
  "all_releases s seq [] = []"
| "all_releases s seq (c # cs) =
     (let rs = class_releases s seq c in rs @ all_releases s (seq + length rs) cs)"

definition sorted_releases :: "scenario \<Rightarrow> job_release list" where
  "sorted_releases s = sort_key (\<lambda>r. (jr_arrival_ps r, jr_sequence r)) (all_releases s 0 (sc_classes s))"

fun window_end_loop :: "job_release list \<Rightarrow> int \<Rightarrow> workload_class list \<Rightarrow> int result" where
  "window_end_loop meas we [] = Inr we"
| "window_end_loop meas we (c # cs) =
     (if ap_mode (wc_arrival c) \<noteq> PERIODIC then window_end_loop meas we cs
      else case filter (\<lambda>r. jr_class_id r = wc_id c) meas of
        [] \<Rightarrow> window_end_loop meas we cs
      | r # rs \<Rightarrow> bind_res (period_ps (wc_arrival c)) (\<lambda>period.
          let expected_end = jr_arrival_ps r + int (length (r # rs)) * period
          in window_end_loop meas (if we < expected_end then expected_end else we) cs))"

definition compile_scenario :: "scenario \<Rightarrow> int option \<Rightarrow> compiled_scenario result" where
  "compile_scenario s plan_bytes =
     (let releases = sorted_releases s;
          meas = filter jr_is_measurement releases;
          arrivals = map jr_arrival_ps meas;
          ws = (if arrivals = [] then 0 else Min (set arrivals));
          we0 = (if arrivals = [] then ws else Max (set arrivals))
      in bind_res (window_end_loop meas we0 (sc_classes s)) (\<lambda>we.
         bind_res (build_resources s) (\<lambda>resources.
         bind_res (build_queues s) (\<lambda>queues.
         bind_res (build_admission s plan_bytes) (\<lambda>adm.
           Inr \<lparr>cs_scenario = s, cs_releases = releases, cs_resources = resources, cs_queues = queues,
                cs_admission = adm, cs_window_start_ps = ws, cs_window_end_ps = we\<rparr>)))))"

section \<open>Job ids are unique\<close>

lemma dash_not_digit: "\<not> is_digit (CHR ''-'')"
  by (simp add: is_digit_def)

lemma release_id_inject [simp]: "release_id a i = release_id b j \<longleftrightarrow> a = b \<and> i = j"
proof
  assume eq: "release_id a i = release_id b j"
  have "CHR ''-'' \<notin> set (zfill 6 (dec n))" for n
    using zfill_dec_digits dash_not_digit by blast
  with split_at_last[OF eq[unfolded release_id_def]] show "a = b \<and> i = j" by simp
qed simp

lemma class_releases_length [simp]: "length (class_releases s q c) = length (release_times_ps (wc_arrival c))"
  by (simp add: class_releases_def Let_def)

lemma map_enumerate_fst: "map (\<lambda>p. f (fst p)) (enumerate n xs) = map f [n..<n + length xs]"
  by (induction xs arbitrary: n) (simp_all add: upt_rec)

lemma class_releases_ids:
  "map jr_job_id (class_releases s q c) =
   map (release_id (wc_id c)) [0..<length (release_times_ps (wc_arrival c))]"
  by (simp add: class_releases_def Let_def case_prod_beta comp_def map_enumerate_fst)

lemma class_releases_class: "r \<in> set (class_releases s q c) \<Longrightarrow> jr_class_id r = wc_id c"
  by (auto simp: class_releases_def Let_def)

lemma all_releases_class: "r \<in> set (all_releases s q cs) \<Longrightarrow> jr_class_id r \<in> wc_id ` set cs"
  by (induction s q cs rule: all_releases.induct) (auto simp: Let_def dest: class_releases_class)

lemma class_releases_id:
  "r \<in> set (class_releases s q c) \<Longrightarrow> \<exists>i. jr_job_id r = release_id (wc_id c) i"
  by (auto simp: class_releases_def Let_def)

lemma all_releases_id:
  "r \<in> set (all_releases s q cs) \<Longrightarrow> \<exists>c \<in> set cs. \<exists>i. jr_job_id r = release_id (wc_id c) i"
  by (induction s q cs rule: all_releases.induct) (auto simp: Let_def dest: class_releases_id)

lemma all_releases_distinct:
  "distinct (map wc_id cs) \<Longrightarrow> distinct (map jr_job_id (all_releases s q cs))"
proof (induction s q cs rule: all_releases.induct)
  case (1 s q)
  then show ?case by simp
next
  case (2 s q c cs)
  let ?rest = "all_releases s (q + length (class_releases s q c)) cs"
  have "distinct (map jr_job_id (class_releases s q c))"
    by (auto simp: class_releases_ids distinct_map inj_on_def)
  moreover have "jr_job_id r \<noteq> jr_job_id r'" if "r \<in> set (class_releases s q c)" "r' \<in> set ?rest" for r r'
    using class_releases_id[OF that(1)] all_releases_id[OF that(2)] "2.prems" by (auto simp: image_iff)
  then have "set (map jr_job_id (class_releases s q c)) \<inter> set (map jr_job_id ?rest) = {}" by auto
  moreover have "distinct (map jr_job_id ?rest)" using 2 by simp
  ultimately show ?case by (simp add: Let_def)
qed

lemma class_releases_seq: "map jr_sequence (class_releases s q c) = [q..<q + length (class_releases s q c)]"
proof -
  have "map (\<lambda>i. q + i) [0..<n] = [q..<q + n]" for n by (induction n) auto
  then show ?thesis by (simp add: class_releases_def Let_def case_prod_beta comp_def map_enumerate_fst)
qed

lemma all_releases_seq: "map jr_sequence (all_releases s q cs) = [q..<q + length (all_releases s q cs)]"
proof (induction s q cs rule: all_releases.induct)
  case (2 s q c cs)
  then show ?case using class_releases_seq[of s q c] upt_add_eq_append[of q "q + length (class_releases s q c)"]
    by (simp add: Let_def add.assoc)
qed simp

section \<open>Compilation succeeds\<close>

lemma add_resources_ok:
  "\<forall>(n, c) \<in> set items. 0 < c \<Longrightarrow> \<exists>rs'. add_resources items rs = Inr rs'"
  by (induction items rs rule: add_resources.induct) (auto simp: capacity_resource_new_def)

lemma add_resources_bad:
  "(n, c) \<in> set items \<Longrightarrow> c \<le> 0 \<Longrightarrow> \<exists>m. add_resources items rs = Inl (ConfigError (''resources.'' @ m))"
  by (induction items rs rule: add_resources.induct) (auto simp: capacity_resource_new_def)

lemma add_queues_ok:
  "\<forall>c \<in> set cs. 1 \<le> wc_queue_capacity c \<Longrightarrow> \<exists>qs'. add_queues cs qs = Inr qs'"
  by (induction cs qs rule: add_queues.induct) (auto simp: fifo_new_def split: queue_policy.splits)

lemma window_end_loop_ok:
  "\<forall>c \<in> set cs. class_ok c \<Longrightarrow> \<exists>we'. window_end_loop meas we cs = Inr we' \<and> we \<le> we'"
proof (induction meas we cs rule: window_end_loop.induct)
  case (1 meas we)
  then show ?case by simp
next
  case (2 meas we c cs)
  have ok: "class_ok c" "\<forall>c \<in> set cs. class_ok c" using "2.prems" by auto
  show ?case
  proof (cases "ap_mode (wc_arrival c)")
    case TRACE
    with 2(1) ok show ?thesis by simp
  next
    case PERIODIC
    then obtain p where p: "period_ps (wc_arrival c) = Inr p"
      using ok(1) by (auto simp: period_ps_def class_ok_def arrival_ok_def)
    show ?thesis
    proof (cases "filter (\<lambda>r. jr_class_id r = wc_id c) meas")
      case Nil
      with 2(2) PERIODIC ok show ?thesis by simp
    next
      case (Cons r rs)
      let ?e = "jr_arrival_ps r + int (length (r # rs)) * p"
      have "\<exists>we'. window_end_loop meas (if we < ?e then ?e else we) cs = Inr we' \<and>
          (if we < ?e then ?e else we) \<le> we'"
        using 2(3)[OF _ Cons refl] PERIODIC ok(2) by simp
      moreover have "we \<le> (if we < ?e then ?e else we)" by simp
      ultimately show ?thesis using PERIODIC Cons p by (auto simp: Let_def intro: order_trans)
    qed
  qed
qed

lemma build_resources_cases:
  assumes "scenario_ok s"
  shows "if \<forall>(n, c) \<in> set (sc_resources s). 0 < c then \<exists>rs. build_resources s = Inr rs
    else \<exists>m. build_resources s = Inl (ConfigError (''resources.'' @ m))"
proof (cases "\<forall>(n, c) \<in> set (sc_resources s). 0 < c")
  case True
  with assms add_resources_ok show ?thesis
    by (simp add: build_resources_def capacity_resource_new_def scenario_ok_def)
next
  case False
  then obtain n c where "(n, c) \<in> set (sc_resources s)" "c \<le> 0" by (auto simp: not_less)
  with assms False add_resources_bad show ?thesis
    by (auto simp: build_resources_def capacity_resource_new_def scenario_ok_def)
qed

lemma build_admission_ok:
  "scenario_ok s \<Longrightarrow> \<exists>a. build_admission s pb = Inr a"
  by (auto simp: build_admission_def admission_new_def scenario_ok_def split: option.splits)

lemma compile_scenario_cases:
  assumes "scenario_ok s"
  shows "if \<forall>(n, c) \<in> set (sc_resources s). 0 < c then \<exists>cs. compile_scenario s pb = Inr cs
    else \<exists>m. compile_scenario s pb = Inl (ConfigError (''resources.'' @ m))"
proof -
  have cls: "\<forall>c \<in> set (sc_classes s). class_ok c" using assms by (simp add: scenario_ok_def)
  obtain qs where qs: "build_queues s = Inr qs"
    using cls add_queues_ok[of "sc_classes s" "[]"] by (auto simp: build_queues_def class_ok_def)
  obtain a where a: "build_admission s pb = Inr a" using build_admission_ok[OF assms] by auto
  obtain we where "\<And>meas w. window_end_loop meas w (sc_classes s) = Inr (we meas w)"
    using window_end_loop_ok[OF cls] by metis
  with qs a build_resources_cases[OF assms] show ?thesis
    by (auto simp: compile_scenario_def Let_def split: if_splits)
qed

text \<open>Compiling a valid scenario fails in one case only: an additional resource with a
  capacity that is not positive, reported under its field path; with positive capacities it
  always succeeds, whatever the memory plan.\<close>

theorem compile_scenario_total:
  assumes "scenario_ok s"
  shows "if \<forall>(n, c) \<in> set (sc_resources s). 0 < c then \<exists>cs. compile_scenario s pb = Inr cs
    else \<exists>m. compile_scenario s pb = Inl (ConfigError (''resources.'' @ m))"
  by (rule compile_scenario_cases[OF assms])

lemma sample_scenario_ok: "scenario_ok sample_scenario"
  by (rule validate_scenario_ok[OF sample_scenario_valid])

lemma compile_scenario_total_witness: "\<exists>cs. compile_scenario sample_scenario None = Inr cs"
  using compile_scenario_total[OF sample_scenario_ok, of None] by (simp add: sample_scenario_def)

section \<open>The release list and the window\<close>

lemma count_interval:
  "length (filter (\<lambda>i. lo \<le> int i \<and> int i < hi) [0..<n]) = nat (min hi (int n) - max lo 0)"
  if "0 \<le> lo" "lo \<le> hi"
  using that by (induction n) (auto simp: min_def max_def)

lemma class_measured:
  assumes "class_ok c" and "0 \<le> sc_warmup_count s" and "1 \<le> sc_measurement_count s"
  defines "n \<equiv> int (length (release_times_ps (wc_arrival c)))"
  shows "int (length (filter jr_is_measurement (class_releases s q c))) =
    min (sc_measurement_count s) (n - min (sc_warmup_count s) n)"
proof -
  let ?w = "min (sc_warmup_count s) n" and ?m = "min (sc_measurement_count s) (n - min (sc_warmup_count s) n)"
  have "map jr_is_measurement (class_releases s q c) = map (\<lambda>i. ?w \<le> int i \<and> int i < ?w + ?m) [0..<nat n]"
    using map_enumerate_fst[of "\<lambda>i. ?w \<le> int i \<and> int i < ?w + ?m" 0 "release_times_ps (wc_arrival c)"]
    unfolding n_def by (simp add: class_releases_def Let_def case_prod_beta comp_def)
  then have "length (filter jr_is_measurement (class_releases s q c)) =
      length (filter (\<lambda>i. ?w \<le> int i \<and> int i < ?w + ?m) [0..<nat n])"
    by (metis (no_types, lifting) filter_map length_map map_map comp_def filter_cong id_apply list.map_id)
  also have "\<dots> = nat (min (?w + ?m) (int (nat n)) - max ?w 0)"
    using assms(2,3) by (intro count_interval) (auto simp: n_def)
  finally show ?thesis using assms(2,3) by (auto simp: n_def min_def max_def)
qed

lemma all_releases_of_class:
  "distinct (map wc_id cs) \<Longrightarrow> c \<in> set cs \<Longrightarrow>
   \<exists>q'. filter (\<lambda>r. jr_class_id r = wc_id c) (all_releases s q cs) = class_releases s q' c"
proof (induction s q cs rule: all_releases.induct)
  case (2 s q d cs)
  show ?case
  proof (cases "d = c")
    case True
    have "filter (\<lambda>r. jr_class_id r = wc_id c) (class_releases s q c) = class_releases s q c"
      by (auto simp: filter_id_conv dest: class_releases_class)
    moreover have "filter (\<lambda>r. jr_class_id r = wc_id c) (all_releases s q' cs) = []" for q'
      using 2(2) True by (auto simp: filter_empty_conv) (metis all_releases_class)
    ultimately show ?thesis using True by (auto simp: Let_def)
  next
    case False
    then have "filter (\<lambda>r. jr_class_id r = wc_id c) (class_releases s q d) = []"
      using 2(2,3) by (auto simp: filter_empty_conv image_iff dest!: class_releases_class)
    with 2 False show ?thesis by (auto simp: Let_def)
  qed
qed simp

lemma compile_scenario_fields:
  assumes "compile_scenario s pb = Inr cs"
  defines "meas \<equiv> filter jr_is_measurement (sorted_releases s)"
  shows "cs_scenario cs = s" "cs_releases cs = sorted_releases s"
    "cs_window_start_ps cs = (if meas = [] then 0 else Min (jr_arrival_ps ` set meas))"
    "window_end_loop meas (if meas = [] then 0 else Max (jr_arrival_ps ` set meas)) (sc_classes s)
      = Inr (cs_window_end_ps cs)"
    "build_queues s = Inr (cs_queues cs)" "build_resources s = Inr (cs_resources cs)"
    "build_admission s pb = Inr (cs_admission cs)"
  using assms by (auto simp: compile_scenario_def Let_def bind_res_Inr_iff split: if_splits)



end
