(* ===== verification/Scen_Runner.thy ===== *)
theory Scen_Runner
  imports Scen_Compiler Sched_Policies Sched_Kernel_Inv
begin

text \<open>
  The scenario runner, \<open>sim/scenario_runner.py\<close>: it drives the event kernel with three kinds
  of closures (an arrival, a dispatch, a completion), keeps the jobs that run and the jobs it
  preempted, the units each resource has given out, the queues, the admission controller and
  the metrics collector, and computes the metrics when the events are exhausted.

  The kernel is created without a dispatch callback, so the closures are the only client code
  it runs: \<open>runner_env\<close> gives their meaning and is the kernel's client. The set \<open>_preempted\<close>
  is a list without repetitions; where the code iterates over it, it sorts the result by the
  policy key, which is unique for each job.
\<close>

section \<open>State\<close>

datatype closure = Arrive job_release | Do_Dispatch | Complete string

record runner =
  rn_scenario :: scenario
  rn_releases :: "job_release list"
  rn_window_start_ps :: int
  rn_window_end_ps :: int
  rn_resources :: "(string, capacity_resource) dict"
  rn_admission :: admission
  rn_fifos :: "(string, string fifo) dict"
  rn_mailboxes :: "(string, string mailbox) dict"
  rn_collector :: collector
  rn_resource_used :: "(string, int) dict"
  rn_running :: "(string, closure payload event) dict"
  rn_preempted :: "string list"
  rn_preempted_remaining :: "(string, int) dict"
  rn_start_times :: "(string, int) dict"
  rn_release_by_id :: "(string, job_release) dict"
  rn_admitted :: "string list"
  rn_recovery_start_ps :: "int option"
  rn_recovery_recorded :: bool

type_synonym rworld = "(closure, runner) kworld"

text \<open>Dict comprehensions over \<open>compiled.queues\<close>: the \<open>isinstance\<close> tests.\<close>

fun fifos_of :: "(string, queue_obj) dict \<Rightarrow> (string, string fifo) dict" where
  "fifos_of [] = []"
| "fifos_of ((k, QFifo q) # d) = (k, q) # fifos_of d"
| "fifos_of ((k, QMailbox m) # d) = fifos_of d"

fun mailboxes_of :: "(string, queue_obj) dict \<Rightarrow> (string, string mailbox) dict" where
  "mailboxes_of [] = []"
| "mailboxes_of ((k, QFifo q) # d) = mailboxes_of d"
| "mailboxes_of ((k, QMailbox m) # d) = (k, m) # mailboxes_of d"

definition releases_by_id :: "job_release list \<Rightarrow> (string, job_release) dict" where
  "releases_by_id rs = fold (\<lambda>r d. AList.update (jr_job_id r) r d) rs []"

definition runner_new :: "compiled_scenario \<Rightarrow> runner" where
  "runner_new cs = \<lparr>rn_scenario = cs_scenario cs, rn_releases = cs_releases cs,
     rn_window_start_ps = cs_window_start_ps cs, rn_window_end_ps = cs_window_end_ps cs,
     rn_resources = cs_resources cs, rn_admission = cs_admission cs,
     rn_fifos = fifos_of (cs_queues cs), rn_mailboxes = mailboxes_of (cs_queues cs),
     rn_collector = collector_new,
     rn_resource_used = map (\<lambda>(n, _). (n, 0)) (cs_resources cs),
     rn_running = [], rn_preempted = [], rn_preempted_remaining = [], rn_start_times = [],
     rn_release_by_id = releases_by_id (cs_releases cs), rn_admitted = [],
     rn_recovery_start_ps = map_option ms_to_ps (sc_recovery_phase_start_ms (cs_scenario cs)),
     rn_recovery_recorded = False\<rparr>"

section \<open>Lookups\<close>

text \<open>A dict lookup that raises \<open>KeyError\<close>, and reads lifted to operations.\<close>

definition dict_get :: "(string, 'v) dict \<Rightarrow> string \<Rightarrow> 'v result" where
  "dict_get d k = (case map_of d k of None \<Rightarrow> Inl (KeyError k) | Some v \<Rightarrow> Inr v)"

definition ask :: "(runner \<Rightarrow> 'a result) \<Rightarrow> (rworld, 'a) op" where
  "ask f s = (f (snd s), s)"

definition now_op :: "(rworld, int) op" where
  "now_op s = (Inr (k_now_ps (fst s)), s)"

definition upd :: "(runner \<Rightarrow> runner) \<Rightarrow> (rworld, unit) op" where
  "upd f s = (Inr (), (fst s, f (snd s)))"

definition updk :: "(closure kernel \<Rightarrow> closure kernel) \<Rightarrow> (rworld, unit) op" where
  "updk f s = (Inr (), (f (fst s), snd s))"

definition collect :: "(collector, 'a) op \<Rightarrow> (rworld, 'a) op" where
  "collect = zoom_op (\<lambda>s. rn_collector (snd s)) (\<lambda>c s. (fst s, (snd s)\<lparr>rn_collector := c\<rparr>))"

definition release_of :: "runner \<Rightarrow> string \<Rightarrow> job_release result" where
  "release_of w jid = dict_get (rn_release_by_id w) jid"

definition class_for :: "runner \<Rightarrow> string \<Rightarrow> workload_class result" where
  "class_for w jid = bind_res (release_of w jid) (\<lambda>r. get_class (rn_scenario w) (jr_class_id r))"

definition runner_policy_key :: "runner \<Rightarrow> string \<Rightarrow> policy_key_t result" where
  "runner_policy_key w jid = bind_res (release_of w jid) (\<lambda>r.
     bind_res (get_class (rn_scenario w) (jr_class_id r)) (\<lambda>c.
       Inr (policy_key (wc_priority c) (jr_deadline_ps r) (jr_arrival_ps r) jid)))"

section \<open>Resources\<close>

fun can_loop :: "(string, capacity_resource) dict \<Rightarrow> (string, int) dict \<Rightarrow> (string, int) dict \<Rightarrow> bool result" where
  "can_loop resources used [] = Inr True"
| "can_loop resources used ((name, units) # items) = (case map_of resources name of
     None \<Rightarrow> Inr False
   | Some r \<Rightarrow> bind_res (dict_get used name) (\<lambda>u.
       if cr_capacity r - u < units then Inr False else can_loop resources used items))"

definition can_allocate :: "runner \<Rightarrow> string \<Rightarrow> bool result" where
  "can_allocate w jid = bind_res (class_for w jid) (\<lambda>c.
     can_loop (rn_resources w) (rn_resource_used w) (wc_resource_requirements c))"

text \<open>\<open>d[name] = f(d[name])\<close>\<close>

definition bump :: "(int \<Rightarrow> int) \<Rightarrow> string \<Rightarrow> (rworld, unit) op" where
  "bump f name = bind_op (ask (\<lambda>w. dict_get (rn_resource_used w) name)) (\<lambda>u.
     upd (\<lambda>w. w\<lparr>rn_resource_used := AList.update name (f u) (rn_resource_used w)\<rparr>))"

definition allocate :: "string \<Rightarrow> (rworld, unit) op" where
  "allocate jid = bind_op (ask (\<lambda>w. class_for w jid)) (\<lambda>c.
     for_op (wc_resource_requirements c) (\<lambda>(name, units). bump (\<lambda>u. u + units) name))"

definition release_resources :: "string \<Rightarrow> (rworld, unit) op" where
  "release_resources jid = bind_op (ask (\<lambda>w. class_for w jid)) (\<lambda>c.
     for_op (wc_resource_requirements c) (\<lambda>(name, units). bump (\<lambda>u. max 0 (u - units)) name))"

section \<open>Recovery and dispatch requests\<close>

definition backlog_count :: "runner \<Rightarrow> int" where
  "backlog_count w =
     sum_list (map fifo_size (dvalues (rn_fifos w)))
     + int (length (filter (\<lambda>(stream, mb). mb_has_pending stream mb) (rn_mailboxes w)))
     + int (length (rn_running w)) + int (length (rn_preempted w))"

definition maybe_record_recovery :: "(rworld, unit) op" where
  "maybe_record_recovery s =
     (let k = fst s; w = snd s
      in if rn_recovery_recorded w then ret () s
         else if (case rn_recovery_start_ps w of None \<Rightarrow> True | Some t \<Rightarrow> k_now_ps k < t) then ret () s
         else if backlog_count w = 0
         then upd (\<lambda>w. w\<lparr>rn_collector := record_recovery_time (k_now_ps k) (rn_collector w),
                          rn_recovery_recorded := True\<rparr>) s
         else ret () s)"

definition runner_schedule_dispatch :: "(rworld, unit) op" where
  "runner_schedule_dispatch = bind_op now_op (\<lambda>t.
     bind_op (on_kernel (schedule t DISPATCH (Client Do_Dispatch))) (\<lambda>_. ret ()))"

section \<open>Preemption\<close>

definition preempt_job :: "string \<Rightarrow> (rworld, unit) op" where
  "preempt_job jid s = (case map_of (rn_running (snd s)) jid of
     None \<Rightarrow> ret () s
   | Some event \<Rightarrow>
      (seq_op (upd (\<lambda>w. w\<lparr>rn_running := AList.delete jid (rn_running w)\<rparr>))
      (seq_op (on_kernel (cancel_event event))
      (seq_op (updk (\<lambda>k. case map_of (k_jobs k) jid of
          None \<Rightarrow> k
        | Some j \<Rightarrow> if jb_state j = RUNNING
            then upd_job jid (\<lambda>j. j\<lparr>jb_state := PENDING,
                   jb_release_ps := ms_to_ps (sc_max_simulation_time_ms (rn_scenario (snd s))) + 1\<rparr>) k
            else k))
      (bind_op now_op (\<lambda>now.
       bind_op (ask (\<lambda>w. Inr (dget (rn_start_times w) jid now))) (\<lambda>start_ps.
       seq_op (upd (\<lambda>w. w\<lparr>rn_start_times := AList.delete jid (rn_start_times w)\<rparr>))
       (bind_op (ask (\<lambda>w. class_for w jid)) (\<lambda>cls.
       seq_op (upd (\<lambda>w. w\<lparr>rn_collector :=
                record_resource_busy ''compute'' start_ps now (Some (wc_id cls)) (rn_collector w)\<rparr>))
       (seq_op (\<lambda>s. upd (\<lambda>w. w\<lparr>rn_preempted_remaining := AList.update jid
                 (case map_of (k_jobs (fst s)) jid of None \<Rightarrow> 0 | Some j \<Rightarrow> jb_remaining_ps j)
                 (rn_preempted_remaining w)\<rparr>) s)
       (seq_op (release_resources jid)
       (seq_op (upd (\<lambda>w. w\<lparr>rn_preempted := List.insert jid (rn_preempted w)\<rparr>))
       (when_op (wc_queue_policy cls = FIFO)
         (upd (\<lambda>w. case map_of (rn_fifos w) (fifo_key cls) of
            None \<Rightarrow> w
          | Some q \<Rightarrow> w\<lparr>rn_fifos := AList.update (fifo_key cls)
              (q\<lparr>ff_items := (ff_sequence q, jid) # ff_items q, ff_sequence := ff_sequence q + 1\<rparr>)
              (rn_fifos w)\<rparr>)))))))))))))) s)"

text \<open>The loop of \<open>_preempt_for\<close> over the running jobs, from the last in policy order.\<close>

fun preempt_loop :: "string \<Rightarrow> policy_key_t \<Rightarrow> string list \<Rightarrow> bool \<Rightarrow> (rworld, bool) op" where
  "preempt_loop jid key [] any = ret any"
| "preempt_loop jid key (victim # vs) any =
     bind_op (ask (\<lambda>w. can_allocate w jid)) (\<lambda>ok.
       if ok then ret any
       else bind_op (ask (\<lambda>w. runner_policy_key w victim)) (\<lambda>vkey.
         if key < vkey then seq_op (preempt_job victim) (preempt_loop jid key vs True)
         else preempt_loop jid key vs any))"

text \<open>Sorting job ids by policy key, which may raise while the keys are computed.\<close>

definition sort_by_policy :: "runner \<Rightarrow> string list \<Rightarrow> string list result" where
  "sort_by_policy w ids = bind_res (map_result (runner_policy_key w) ids) (\<lambda>ks.
     Inr (map snd (sort_key fst (zip ks ids))))"

definition preempt_for :: "string \<Rightarrow> (rworld, bool) op" where
  "preempt_for jid = bind_op (ask (\<lambda>w. runner_policy_key w jid)) (\<lambda>key.
     bind_op (ask (\<lambda>w. sort_by_policy w (dkeys (rn_running w)))) (\<lambda>running.
       preempt_loop jid key (rev running) False))"

section \<open>Starting jobs\<close>

definition dequeue_from_runner :: "string \<Rightarrow> (rworld, unit) op" where
  "dequeue_from_runner jid = bind_op (ask (\<lambda>w. class_for w jid)) (\<lambda>cls. case wc_queue_policy cls of
     FIFO \<Rightarrow> upd (\<lambda>w. case map_of (rn_fifos w) (fifo_key cls) of
         None \<Rightarrow> w
       | Some q \<Rightarrow>
           if (case fifo_peek q of None \<Rightarrow> False | Some (_, x) \<Rightarrow> x = jid)
           then w\<lparr>rn_fifos := AList.update (fifo_key cls) (snd (fifo_dequeue q)) (rn_fifos w)\<rparr>
           else w)
   | MAILBOX_LATEST \<Rightarrow> (\<lambda>s. case map_of (rn_mailboxes (snd s)) (mailbox_key cls) of
         None \<Rightarrow> ret () s
       | Some mb \<Rightarrow>
           if \<not> mb_has_pending (stream_of cls) mb then ret () s
           else (case mb_take (stream_of cls) (k_now_ps (fst s)) mb of
             (age_item, mb') \<Rightarrow>
               seq_op (upd (\<lambda>w. w\<lparr>rn_mailboxes := AList.update (mailbox_key cls) mb' (rn_mailboxes w)\<rparr>))
                 (case age_item of None \<Rightarrow> ret ()
                  | Some (age, _) \<Rightarrow> collect (record_observation_age jid age)) s)))"

definition start_kernel_job :: "string \<Rightarrow> job_release \<Rightarrow> workload_class \<Rightarrow> int \<Rightarrow> (rworld, unit) op" where
  "start_kernel_job jid rel cls remaining s =
     (if din jid (k_jobs (fst s))
      then updk (upd_job jid (\<lambda>j. j\<lparr>jb_state := RUNNING, jb_remaining_ps := remaining\<rparr>)) s
      else seq_op (on_kernel (register_job jid remaining (k_now_ps (fst s))
               (Some (max 0 (jr_deadline_ps rel - k_now_ps (fst s)))) (wc_priority cls) []))
             (updk (upd_job jid (\<lambda>j. j\<lparr>jb_state := RUNNING\<rparr>))) s)"

definition start_job :: "string \<Rightarrow> (rworld, unit) op" where
  "start_job jid =
     bind_op (ask (\<lambda>w. release_of w jid)) (\<lambda>rel.
     bind_op (ask (\<lambda>w. get_class (rn_scenario w) (jr_class_id rel))) (\<lambda>cls.
     seq_op (allocate jid)
     (seq_op (upd (\<lambda>w. w\<lparr>rn_preempted := remove1 jid (rn_preempted w)\<rparr>))
     (seq_op (dequeue_from_runner jid)
     (bind_op (ask (\<lambda>w. Inr (dget (rn_preempted_remaining w) jid (jr_work_ps rel)))) (\<lambda>remaining.
     seq_op (upd (\<lambda>w. w\<lparr>rn_preempted_remaining := AList.delete jid (rn_preempted_remaining w)\<rparr>))
     (seq_op (start_kernel_job jid rel cls remaining)
     (bind_op now_op (\<lambda>now.
     seq_op (upd (\<lambda>w. w\<lparr>rn_start_times := AList.update jid now (rn_start_times w)\<rparr>))
     (seq_op (collect (record_start jid now))
     (bind_op (on_kernel (schedule (now + remaining) TIMER (Client (Complete jid)))) (\<lambda>completion.
     upd (\<lambda>w. w\<lparr>rn_running := AList.update jid completion (rn_running w)\<rparr>)))))))))))))"

definition try_start :: "string \<Rightarrow> (rworld, bool) op" where
  "try_start jid = bind_op (ask (\<lambda>w. can_allocate w jid)) (\<lambda>ok.
     if \<not> ok then ret False else seq_op (start_job jid) (ret True))"

section \<open>Dispatch\<close>

definition stream_of_key :: "string \<Rightarrow> string" where
  \<comment> \<open>\<open>mb_key.split(":", 1)[1]\<close>\<close>
  "stream_of_key key = tl (dropWhile (\<lambda>c. c \<noteq> CHR '':'') key)"

definition collect_candidates :: "int \<Rightarrow> runner \<Rightarrow> string list" where
  "collect_candidates now w =
     filter (\<lambda>jid. \<not> din jid (rn_running w)) (rn_preempted w)
     @ List.map_filter (\<lambda>q. map_option snd (fifo_peek q)) (dvalues (rn_fifos w))
     @ List.map_filter (\<lambda>(key, mb). map_option snd (mb_peek (stream_of_key key) now mb)) (rn_mailboxes w)"

fun dispatch_loop :: "string list \<Rightarrow> string list \<Rightarrow> (rworld, unit) op" where
  "dispatch_loop seen [] = ret ()"
| "dispatch_loop seen (jid # js) = (\<lambda>s.
     if jid \<in> set seen \<or> din jid (rn_running (snd s)) then dispatch_loop seen js s
     else bind_op (try_start jid) (\<lambda>started s.
       if started then dispatch_loop (jid # seen) js s
       else if \<not> sc_preemption_enabled (rn_scenario (snd s)) then dispatch_loop (jid # seen) js s
       else bind_op (preempt_for jid) (\<lambda>preempted.
         seq_op (if preempted then bind_op (try_start jid) (\<lambda>_. ret ()) else ret ())
           (dispatch_loop (jid # seen) js)) s) s)"

definition dispatch :: "(rworld, unit) op" where
  "dispatch s =
     (let candidates = collect_candidates (k_now_ps (fst s)) (snd s)
      in if candidates = [] then maybe_record_recovery s
         else bind_op (ask (\<lambda>w. sort_by_policy w candidates)) (\<lambda>sorted_ids.
                seq_op (dispatch_loop [] sorted_ids) maybe_record_recovery) s)"

section \<open>Arrivals\<close>

fun add_holders :: "int \<Rightarrow> string list \<Rightarrow> (string, int) dict \<Rightarrow> (string, int) dict" where
  "add_holders p [] holders = holders"
| "add_holders p (name # ns) holders = add_holders p ns
     (AList.update name (case map_of holders name of None \<Rightarrow> p | Some h \<Rightarrow> min h p) holders)"

fun holders_loop :: "runner \<Rightarrow> int \<Rightarrow> string list \<Rightarrow> (string, int) dict \<Rightarrow> (string, int) dict result" where
  "holders_loop w priority [] holders = Inr holders"
| "holders_loop w priority (jid # js) holders = bind_res (class_for w jid) (\<lambda>cls.
     holders_loop w priority js
       (if wc_priority cls < priority
        then add_holders (wc_priority cls) (dkeys (wc_resource_requirements cls)) holders else holders))"

definition lower_priority_holders :: "int \<Rightarrow> runner \<Rightarrow> (string, int) dict result" where
  "lower_priority_holders priority w = holders_loop w priority (dkeys (rn_running w)) []"

text \<open>The replaced job of a mailbox: its metrics, its reservation, and its execution.\<close>

definition drop_replaced :: "string \<Rightarrow> (rworld, unit) op" where
  "drop_replaced old = seq_op (collect (record_replace old))
     (seq_op (upd (\<lambda>w. if old \<in> set (rn_admitted w)
         then w\<lparr>rn_admission := snd (admission_release old (rn_admission w)),
                rn_admitted := remove1 old (rn_admitted w)\<rparr> else w))
     (\<lambda>s. if din old (rn_running (snd s)) then preempt_job old s
          else upd (\<lambda>w. if old \<in> set (rn_preempted w)
            then w\<lparr>rn_preempted := remove1 old (rn_preempted w),
                   rn_preempted_remaining := AList.delete old (rn_preempted_remaining w)\<rparr> else w) s))"

text \<open>Queueing the job; \<open>False\<close> when the FIFO is full and the job is dropped.\<close>

definition enqueue_release :: "job_release \<Rightarrow> workload_class \<Rightarrow> (rworld, bool) op" where
  "enqueue_release rel cls = (case wc_queue_policy cls of
     FIFO \<Rightarrow> bind_op (ask (\<lambda>w. dict_get (rn_fifos w) (fifo_key cls))) (\<lambda>q s.
       case fifo_enqueue (jr_job_id rel) q of (r, q') \<Rightarrow>
         seq_op (upd (\<lambda>w. w\<lparr>rn_fifos := AList.update (fifo_key cls) q' (rn_fifos w)\<rparr>))
           (case r of
              Inl _ \<Rightarrow> seq_op (collect (record_drop (jr_job_id rel))) (ret False)
            | Inr _ \<Rightarrow> seq_op (upd (\<lambda>w. w\<lparr>rn_collector :=
                  record_queue_size (ff_name q') (fifo_size q') (k_now_ps (fst s)) (rn_collector w)\<rparr>)) (ret True)) s)
   | MAILBOX_LATEST \<Rightarrow> bind_op (ask (\<lambda>w. dict_get (rn_mailboxes w) (mailbox_key cls))) (\<lambda>mb s.
       let old = mb_peek (stream_of cls) (k_now_ps (fst s)) mb in
       case mb_put (stream_of cls) (jr_job_id rel) (k_now_ps (fst s)) mb of (replaced, mb') \<Rightarrow>
         seq_op (upd (\<lambda>w. w\<lparr>rn_mailboxes := AList.update (mailbox_key cls) mb' (rn_mailboxes w)\<rparr>))
         (seq_op (if replaced then (case old of None \<Rightarrow> ret () | Some (_, old_id) \<Rightarrow> drop_replaced old_id) else ret ())
           (ret True)) s))"

definition check_admission :: "job_release \<Rightarrow> workload_class \<Rightarrow> (rworld, bool) op" where
  "check_admission rel cls =
     (if wc_admission_excluded cls then ret True
      else bind_op (ask (lower_priority_holders (wc_priority cls))) (\<lambda>holders.
        ask (\<lambda>w. Inr (ar_admitted (check (jr_job_id rel) (wc_memory_bytes cls) (wc_bandwidth_fraction cls)
          (wc_priority cls) [] holders (rn_admission w))))))"

definition commit_admission :: "job_release \<Rightarrow> workload_class \<Rightarrow> (rworld, unit) op" where
  "commit_admission rel cls =
     (if wc_admission_excluded cls then ret ()
      else bind_op (ask (lower_priority_holders (wc_priority cls))) (\<lambda>holders.
        upd (\<lambda>w. w\<lparr>rn_admission := snd (admit (jr_job_id rel) (wc_memory_bytes cls)
                     (wc_bandwidth_fraction cls) (wc_priority cls) [] holders (rn_admission w)),
                   rn_admitted := List.insert (jr_job_id rel) (rn_admitted w)\<rparr>)))"

definition on_arrival :: "job_release \<Rightarrow> (rworld, unit) op" where
  "on_arrival rel =
     bind_op (ask (\<lambda>w. get_class (rn_scenario w) (jr_class_id rel))) (\<lambda>cls.
     seq_op (collect (record_arrival (jr_job_id rel) (jr_class_id rel) (jr_arrival_ps rel) (jr_deadline_ps rel)
       (jr_is_warmup rel) (jr_is_measurement rel) (jr_work_ps rel) (wc_resource_requirements cls)))
     (bind_op (check_admission rel cls) (\<lambda>admitted.
       if \<not> admitted
       then seq_op (collect (record_reject (jr_job_id rel))) (seq_op maybe_record_recovery runner_schedule_dispatch)
       else bind_op (enqueue_release rel cls) (\<lambda>queued.
         if \<not> queued then seq_op maybe_record_recovery runner_schedule_dispatch
         else seq_op (commit_admission rel cls) (seq_op maybe_record_recovery runner_schedule_dispatch)))))"

section \<open>Completion\<close>

text \<open>\<open>with contextlib.suppress(SchedulerError)\<close>\<close>

definition suppress_scheduler_error :: "(rworld, unit) op \<Rightarrow> (rworld, unit) op" where
  "suppress_scheduler_error m s = (case m s of
     (Inl (SchedulerError _), s') \<Rightarrow> (Inr (), s') | rs \<Rightarrow> rs)"

definition on_complete :: "string \<Rightarrow> (rworld, unit) op" where
  "on_complete jid s =
     (if \<not> din jid (rn_running (snd s)) then ret () s
      else (seq_op (upd (\<lambda>w. w\<lparr>rn_running := AList.delete jid (rn_running w)\<rparr>))
       (seq_op (suppress_scheduler_error (on_kernel (complete_job jid)))
       (bind_op now_op (\<lambda>now.
        bind_op (ask (\<lambda>w. Inr (dget (rn_start_times w) jid now))) (\<lambda>start_ps.
        seq_op (upd (\<lambda>w. w\<lparr>rn_start_times := AList.delete jid (rn_start_times w)\<rparr>))
        (bind_op (ask (\<lambda>w. class_for w jid)) (\<lambda>cls.
        seq_op (upd (\<lambda>w. w\<lparr>rn_collector :=
                 record_resource_busy ''compute'' start_ps now (Some (wc_id cls)) (rn_collector w)\<rparr>))
        (seq_op (collect (record_complete jid now))
        (seq_op (release_resources jid)
        (seq_op (upd (\<lambda>w. if jid \<in> set (rn_admitted w)
            then w\<lparr>rn_admission := snd (admission_release jid (rn_admission w)),
                   rn_admitted := remove1 jid (rn_admitted w)\<rparr> else w))
        (seq_op maybe_record_recovery runner_schedule_dispatch))))))))))) s)"

section \<open>The run\<close>

fun run_closure :: "closure \<Rightarrow> (rworld, unit) op" where
  "run_closure (Arrive rel) = seq_op (on_arrival rel) dispatch"
| "run_closure Do_Dispatch = dispatch"
| "run_closure (Complete jid) = on_complete jid"

definition runner_env :: "(closure, runner) kernel_env" where
  "runner_env = \<lparr>env_client = run_closure, env_callback = \<lambda>_. ret ()\<rparr>"

definition schedule_arrivals :: "(rworld, unit) op" where
  "schedule_arrivals = bind_op (ask (\<lambda>w. Inr (rn_releases w))) (\<lambda>rs.
     seq_op (for_op rs (\<lambda>rel. bind_op (on_kernel (schedule (jr_arrival_ps rel) DISPATCH (Client (Arrive rel))))
               (\<lambda>_. ret ())))
       (bind_op (on_kernel (schedule 0 DISPATCH (Client Do_Dispatch))) (\<lambda>_. ret ())))"

text \<open>The \<open>while True\<close> of \<open>run\<close>; each turn processes up to 1000 events, for which a fuel of 1001
  is enough. The outer fuel bounds the number of turns.\<close>

fun drive :: "nat \<Rightarrow> int \<Rightarrow> rworld \<Rightarrow> ((py_error + unit) \<times> rworld) option" where
  "drive 0 max_time_ps s = None"
| "drive (Suc n) max_time_ps s = (case peek (k_queue (fst s)) of
     None \<Rightarrow> Some (ret () s)
   | Some ev \<Rightarrow>
       if max_time_ps < ev_time_ps ev then Some (ret () s)
       else case run_until 1001 runner_env (Some max_time_ps) (Some 1000) s of
         None \<Rightarrow> None
       | Some (Inl e, s') \<Rightarrow> Some (Inl e, s')
       | Some (Inr _, s') \<Rightarrow> drive n max_time_ps s')"

definition drain_fifos :: "(rworld, unit) op" where
  "drain_fifos = bind_op (ask (\<lambda>w. Inr (rn_fifos w))) (\<lambda>qs.
     for_op qs (\<lambda>(key, q).
       seq_op (for_op (ff_items q) (\<lambda>(_, jid). collect (record_drop jid)))
         (upd (\<lambda>w. w\<lparr>rn_fifos := AList.update key (q\<lparr>ff_items := []\<rparr>) (rn_fifos w)\<rparr>))))"

definition finish_run :: "rworld \<Rightarrow> scenario_metrics result" where
  "finish_run s = (case drain_fifos s of
     (Inl e, _) \<Rightarrow> Inl e
   | (Inr _, s') \<Rightarrow> compute_metrics (Some (rn_window_start_ps (snd s'))) (Some (rn_window_end_ps (snd s')))
       (sc_compute_capacity (rn_scenario (snd s'))) (rn_collector (snd s')))"

definition run_scenario :: "nat \<Rightarrow> compiled_scenario \<Rightarrow> scenario_metrics result option" where
  "run_scenario fuel cs = (case kernel_new 1000 False of
     Inl e \<Rightarrow> Some (Inl e)
   | Inr k \<Rightarrow> (case schedule_arrivals (k, runner_new cs) of
       (Inl e, _) \<Rightarrow> Some (Inl e)
     | (Inr _, s) \<Rightarrow> (case drive fuel (ms_to_ps (sc_max_simulation_time_ms (rn_scenario (snd s)))) s of
         None \<Rightarrow> None
       | Some (Inl e, _) \<Rightarrow> Some (Inl e)
       | Some (Inr _, s') \<Rightarrow> Some (finish_run s'))))"

end
