(* ===== verification/Scen_Runner_Inv.thy ===== *)
theory Scen_Runner_Inv
  imports Scen_Runner Sched_Kernel_Client
begin

text \<open>
  The invariant of the scenario runner and the proof that its closures are a proper client
  of the event kernel: each keeps the kernel's invariant and the clock, and, when it returns,
  the accounting of resources. The units a resource has given out are the sum over the jobs
  that hold them, and never exceed its capacity, whatever arrives, is preempted or completes.
\<close>

section \<open>The invariant\<close>

text \<open>What never changes during a run: the scenario, the releases and the capacities.\<close>

type_synonym statics = "scenario \<times> (string, job_release) dict \<times> (string, capacity_resource) dict"

definition rn_static :: "runner \<Rightarrow> statics" where
  "rn_static w = (rn_scenario w, rn_release_by_id w, rn_resources w)"

definition static_class :: "statics \<Rightarrow> string \<Rightarrow> workload_class result" where
  "static_class st jid = (case st of (sc, rels, _) \<Rightarrow>
     bind_res (dict_get rels jid) (\<lambda>r. get_class sc (jr_class_id r)))"

lemma class_for_static: "class_for w jid = static_class (rn_static w) jid"
  by (simp add: class_for_def static_class_def rn_static_def release_of_def)

definition units :: "statics \<Rightarrow> string \<Rightarrow> string \<Rightarrow> int" where
  "units st n jid = (case static_class st jid of
     Inl _ \<Rightarrow> 0 | Inr c \<Rightarrow> dget (wc_resource_requirements c) n 0)"

definition reqs_ok :: "workload_class \<Rightarrow> bool" where
  "reqs_ok c \<longleftrightarrow> dict_ok (wc_resource_requirements c) \<and>
     (\<forall>(n, u) \<in> set (wc_resource_requirements c). 0 \<le> u)"

definition static_ok :: "statics \<Rightarrow> bool" where
  "static_ok st \<longleftrightarrow> (case st of (sc, rels, _) \<Rightarrow>
     (\<forall>c \<in> set (sc_classes sc). reqs_ok c) \<and> (\<forall>i r. map_of rels i = Some r \<longrightarrow> 0 \<le> jr_work_ps r))"

lemma static_class_reqs: "static_ok st \<Longrightarrow> static_class st jid = Inr c \<Longrightarrow> reqs_ok c"
  by (cases st) (auto simp: static_class_def static_ok_def bind_res_Inr_iff dest: get_class_mem)

lemma dget_nonneg: "(\<forall>(n, u) \<in> set d. 0 \<le> u) \<Longrightarrow> 0 \<le> (dget d n 0 :: int)"
  by (induction d) auto

lemma units_nonneg: "static_ok st \<Longrightarrow> 0 \<le> units st n jid"
  using static_class_reqs[of st jid] by (cases "static_class st jid") (auto simp: units_def reqs_ok_def dget_nonneg)

text \<open>Jobs that hold units: those that run, and \<open>xs\<close>, which are on the way in or out.\<close>

definition held_by :: "statics \<Rightarrow> string list \<Rightarrow> string \<Rightarrow> int" where
  "held_by st js n = sum_list (map (units st n) js)"

lemma held_by_simps [simp]: "held_by st [] n = 0" "held_by st (j # js) n = units st n j + held_by st js n"
  "held_by st (js @ ks) n = held_by st js n + held_by st ks n"
  by (simp_all add: held_by_def)

lemma held_by_nonneg: "static_ok st \<Longrightarrow> 0 \<le> held_by st js n"
  by (induction js) (simp_all add: units_nonneg)

lemma held_by_removeAll:
  "distinct js \<Longrightarrow> j \<in> set js \<Longrightarrow> held_by st (removeAll j js) n = held_by st js n - units st n j"
proof (induction js)
  case (Cons i js)
  then show ?case by (cases "i = j") auto
qed simp

definition resources_ok :: "statics \<Rightarrow> string list \<Rightarrow> (string, int) dict \<Rightarrow> bool" where
  "resources_ok st holders used \<longleftrightarrow> (\<forall>n u. map_of used n = Some u \<longrightarrow> u = held_by st holders n \<and>
     (\<forall>r. map_of (snd (snd st)) n = Some r \<longrightarrow> u \<le> cr_capacity r))"

lemma resources_ok_cong:
  "(\<And>n. held_by st a n = held_by st b n) \<Longrightarrow> resources_ok st a u = resources_ok st b u"
  by (simp add: resources_ok_def)

text \<open>The kernel as the runner leaves it: no dispatcher of its own, no dependencies.\<close>

definition no_deps :: "jobs \<Rightarrow> bool" where
  "no_deps js \<longleftrightarrow> (\<forall>p \<in> set (job_frame js). snd p = [])"

definition rinv :: "statics \<Rightarrow> string list \<Rightarrow> string set \<Rightarrow> closure kernel \<Rightarrow> runner \<Rightarrow> bool" where
  "rinv st xs nr k w \<longleftrightarrow>
     static_ok st \<and> rn_static w = st \<and>
     \<not> k_has_callback k \<and> k_next_dispatch_time k = None \<and> no_deps (k_jobs k) \<and>
     dict_ok (rn_running w) \<and> (\<forall>e \<in> set (dvalues (rn_running w)). ev_seq e < eq_seq (k_queue k)) \<and>
     set (dkeys (rn_running w)) \<inter> nr = {} \<and>
     (\<forall>i u. map_of (rn_preempted_remaining w) i = Some u \<longrightarrow> 0 \<le> u) \<and>
     resources_ok st (dkeys (rn_running w) @ xs) (rn_resource_used w)"

definition rat :: "int \<Rightarrow> statics \<Rightarrow> string list \<Rightarrow> string set \<Rightarrow> rworld \<Rightarrow> bool" where
  "rat t st xs nr s \<longleftrightarrow> kernel_at t False (fst s) \<and> rinv st xs nr (fst s) (snd s)"

definition kat :: "int \<Rightarrow> rworld \<Rightarrow> bool" where
  "kat t s \<longleftrightarrow> kernel_at t False (fst s)"

lemma rat_kat: "rat t st xs nr s \<Longrightarrow> kat t s"
  by (simp add: rat_def kat_def)

lemma rinv_own: "rinv st xs nr k w \<Longrightarrow> own_step k k' \<Longrightarrow> rinv st xs nr k' w"
proof -
  assume r: "rinv st xs nr k w" and o: "own_step k k'"
  have q: "eq_seq (k_queue k) \<le> eq_seq (k_queue k')" and c: "k_has_callback k' = k_has_callback k"
    and j: "job_frame (k_jobs k') = job_frame (k_jobs k)"
    and n: "k_has_callback k \<or> k_next_dispatch_time k \<noteq> None \<or> k_next_dispatch_time k' = None"
    using o by (auto simp: own_step_def)
  have "\<not> k_has_callback k'" "k_next_dispatch_time k' = None" "no_deps (k_jobs k')"
    using r c n j unfolding rinv_def no_deps_def by auto
  moreover have "\<forall>e \<in> set (dvalues (rn_running w)). ev_seq e < eq_seq (k_queue k')"
    using r q unfolding rinv_def by (meson less_le_trans)
  ultimately show ?thesis using r unfolding rinv_def by blast
qed

section \<open>Steps that do not touch what the invariant speaks of\<close>

definition core :: "runner \<Rightarrow> statics \<times> (string, int) dict \<times> (string, closure payload event) dict \<times> (string, int) dict" where
  "core w = (rn_static w, rn_resource_used w, rn_running w, rn_preempted_remaining w)"

lemma rinv_core: "core w' = core w \<Longrightarrow> rinv st xs nr k w' = rinv st xs nr k w"
proof -
  assume "core w' = core w"
  then have e: "rn_static w' = rn_static w" "rn_resource_used w' = rn_resource_used w"
    "rn_running w' = rn_running w" "rn_preempted_remaining w' = rn_preempted_remaining w"
    by (simp_all add: core_def)
  show ?thesis unfolding rinv_def e ..
qed

lemma triple_upd_core:
  "(\<And>w. core (f w) = core w) \<Longrightarrow> triple (rat t st xs nr) (upd f) (\<lambda>_. rat t st xs nr) (kat t)"
proof (rule tripleI)
  fix s :: rworld assume c: "\<And>w. core (f w) = core w" and s: "rat t st xs nr s"
  have "rinv st xs nr (fst s) (f (snd s)) = rinv st xs nr (fst s) (snd s)" by (rule rinv_core[OF c])
  with s show "yields (\<lambda>_. rat t st xs nr) (kat t) (upd f s)" by (simp add: upd_def rat_def)
qed

lemma triple_upd:
  "(\<And>k w. rinv st xs nr k w \<Longrightarrow> rinv st xs' nr' k (f w)) \<Longrightarrow>
   triple (rat t st xs nr) (upd f) (\<lambda>_. rat t st xs' nr') (kat t)"
  by (rule tripleI) (auto simp: upd_def rat_def)

lemma triple_ask:
  "triple (rat t st xs nr) (ask f) (\<lambda>x s. rat t st xs nr s \<and> f (snd s) = Inr x) (kat t)"
  by (rule tripleI) (auto simp: ask_def yields_def rat_kat split: sum.splits)

lemma triple_ask_forget: "triple (rat t st xs nr) (ask f) (\<lambda>_. rat t st xs nr) (kat t)"
  by (rule triple_post[OF triple_ask]) simp

lemma triple_now: "triple (rat t st xs nr) now_op (\<lambda>x s. rat t st xs nr s \<and> x = t) (kat t)"
  by (rule tripleI) (auto simp: now_op_def rat_def kernel_at_def)

lemma triple_collect: "triple (rat t st xs nr) (collect m) (\<lambda>_. rat t st xs nr) (kat t)"
proof (rule tripleI)
  fix s :: rworld assume s: "rat t st xs nr s"
  obtain r c where "m (rn_collector (snd s)) = (r, c)" by (cases "m (rn_collector (snd s))")
  moreover have "rat t st xs nr (fst s, (snd s)\<lparr>rn_collector := c\<rparr>)"
    using s by (simp add: rat_def rinv_core[of "(snd s)\<lparr>rn_collector := c\<rparr>" "snd s"] core_def rn_static_def)
  ultimately show "yields (\<lambda>_. rat t st xs nr) (kat t) (collect m s)"
    by (simp add: collect_def zoom_op_def yields_def rat_kat split: sum.splits)
qed

text \<open>A kernel operation that keeps the kernel invariant and is one of its own steps.\<close>

lemma triple_kernel:
  assumes "keeps (kernel_at t False) m" and "own m"
  shows "triple (rat t st xs nr) (on_kernel m) (\<lambda>_. rat t st xs nr) (rat t st xs nr)"
proof (rule tripleI)
  fix s :: rworld assume s: "rat t st xs nr s"
  obtain r k where m: "m (fst s) = (r, k)" by (cases "m (fst s)")
  have "kernel_at t False k" "own_step (fst s) k"
    using assms s m by (auto simp: rat_def own_def dest: keepsD'[OF assms(1)] spec[of _ "fst s"])
  with s m show "yields (\<lambda>_. rat t st xs nr) (rat t st xs nr) (on_kernel m s)"
    by (auto simp: on_kernel_def zoom_op_def yields_def rat_def intro: rinv_own split: sum.splits)
qed

lemma own_schedule: "own (schedule s ph x)"
  by (auto simp: own_def own_step_def schedule_def kpush_def op_simps split: sum.splits dest: push_seq)

lemma triple_schedule:
  "triple (rat t st xs nr) (on_kernel (schedule s ph x))
     (\<lambda>e s. rat t st xs nr s \<and> ev_seq e < eq_seq (k_queue (fst s))) (kat t)"
proof (rule tripleI)
  fix s' :: rworld assume s': "rat t st xs nr s'"
  have "yields (\<lambda>_. rat t st xs nr) (rat t st xs nr) (on_kernel (schedule s ph x) s')"
    using tripleD[OF triple_kernel[OF schedule_keeps own_schedule] s'] .
  then show "yields (\<lambda>e s. rat t st xs nr s \<and> ev_seq e < eq_seq (k_queue (fst s))) (kat t)
      (on_kernel (schedule s ph x) s')"
    by (auto simp: on_kernel_def zoom_op_def schedule_def kpush_def op_simps yields_def rat_kat
        split: sum.splits if_splits dest: push_seq)
qed

lemma triple_schedule_forget:
  "triple (rat t st xs nr) (bind_op (on_kernel (schedule s ph x)) (\<lambda>_. ret ())) (\<lambda>_. rat t st xs nr) (kat t)"
  by (rule triple_bind[OF triple_schedule]) (rule triple_ret, simp)

lemma triple_recovery: "triple (rat t st xs nr) maybe_record_recovery (\<lambda>_. rat t st xs nr) (kat t)"
proof (rule tripleI)
  fix s :: rworld assume s: "rat t st xs nr s"
  then have "rat t st xs nr (fst s, (snd s)\<lparr>rn_collector := c, rn_recovery_recorded := True\<rparr>)" for c
    by (simp add: rat_def rinv_core[of "(snd s)\<lparr>rn_collector := c, rn_recovery_recorded := True\<rparr>" "snd s"]
        core_def rn_static_def)
  with s show "yields (\<lambda>_. rat t st xs nr) (kat t) (maybe_record_recovery s)"
    by (simp add: maybe_record_recovery_def Let_def op_simps upd_def)
qed

lemma triple_schedule_dispatch: "triple (rat t st xs nr) runner_schedule_dispatch (\<lambda>_. rat t st xs nr) (kat t)"
  unfolding runner_schedule_dispatch_def
  by (rule triple_bind[OF triple_now]) (rule triple_pre[OF triple_schedule_forget], simp)

section \<open>Allocating and releasing units\<close>

lemma bump_loop:
  assumes "dict_ok items"
  shows "case for_op items (\<lambda>(n, v). bump (g v) n) s of (r, s') \<Rightarrow>
    \<exists>d. s' = (fst s, (snd s)\<lparr>rn_resource_used := d\<rparr>) \<and>
      (is_ok r \<longrightarrow> (\<forall>n. map_of d n = map_option (\<lambda>u. case map_of items n of None \<Rightarrow> u | Some v \<Rightarrow> g v u)
        (map_of (rn_resource_used (snd s)) n)))"
  using assms
proof (induction items arbitrary: s)
  case Nil
  show ?case by (auto simp: op_simps option.map_ident intro!: exI[of _ "rn_resource_used (snd s)"])
next
  case (Cons p items)
  obtain n v where p: "p = (n, v)" by (cases p)
  from Cons.prems p have items: "dict_ok items" "map_of items n = None" by auto
  show ?case
  proof (cases "map_of (rn_resource_used (snd s)) n")
    case None
    then show ?thesis
      by (auto simp: p seq_op_def bind_op_def bump_def ask_def dict_get_def
          intro!: exI[of _ "rn_resource_used (snd s)"])
  next
    case (Some u)
    let ?s = "(fst s, (snd s)\<lparr>rn_resource_used := AList.update n (g v u) (rn_resource_used (snd s))\<rparr>)"
    have "for_op (p # items) (\<lambda>(n, v). bump (g v) n) s = for_op items (\<lambda>(n, v). bump (g v) n) ?s"
      using Some by (simp add: p seq_op_def bind_op_def bump_def ask_def dict_get_def upd_def)
    with Cons.IH[OF items(1), of ?s] items(2) Some show ?thesis
      by (fastforce simp: p dict_simps split: prod.splits)
  qed
qed

lemma can_loop_true:
  "can_loop res used items = Inr True \<Longrightarrow> (n, v) \<in> set items \<Longrightarrow>
   \<exists>r u. map_of res n = Some r \<and> map_of used n = Some u \<and> u + v \<le> cr_capacity r"
  by (induction res used items rule: can_loop.induct)
     (auto simp: bind_res_Inr_iff dict_get_def split: option.splits if_splits)

lemma units_class: "static_class st jid = Inr c \<Longrightarrow> units st n jid = dget (wc_resource_requirements c) n 0"
  by (simp add: units_def)

text \<open>Allocation, after the test: the job joins the holders.\<close>

lemma triple_allocate:
  "triple (\<lambda>s. rat t st xs nr s \<and> can_allocate (snd s) jid = Inr True) (allocate jid)
     (\<lambda>_. rat t st (jid # xs) nr) (kat t)"
proof (rule tripleI, elim conjE)
  fix s :: rworld assume s: "rat t st xs nr s" and can: "can_allocate (snd s) jid = Inr True"
  then have st: "static_ok st" "rn_static (snd s) = st" by (auto simp: rat_def rinv_def)
  from can obtain c where c: "class_for (snd s) jid = Inr c"
    and cl: "can_loop (rn_resources (snd s)) (rn_resource_used (snd s)) (wc_resource_requirements c) = Inr True"
    by (auto simp: can_allocate_def bind_res_Inr_iff)
  then have sc: "static_class st jid = Inr c" using st by (simp add: class_for_static)
  let ?reqs = "wc_resource_requirements c"
  have ok: "dict_ok ?reqs" using static_class_reqs[OF st(1) sc] by (simp add: reqs_ok_def)
  obtain r s' where f: "for_op ?reqs (\<lambda>(n, v). bump (\<lambda>u. u + v) n) s = (r, s')"
    by (cases "for_op ?reqs (\<lambda>(n, v). bump (\<lambda>u. u + v) n) s")
  obtain d where d: "s' = (fst s, (snd s)\<lparr>rn_resource_used := d\<rparr>)"
    and ds: "is_ok r \<Longrightarrow> map_of d n = map_option (\<lambda>u. case map_of ?reqs n of None \<Rightarrow> u | Some v \<Rightarrow> u + v)
        (map_of (rn_resource_used (snd s)) n)" for n
    using bump_loop[OF ok, where g = "\<lambda>v u. u + v" and s = s] f by auto
  have ro: "resources_ok st (dkeys (rn_running (snd s)) @ xs) (rn_resource_used (snd s))"
    using s by (simp add: rat_def rinv_def)
  have res: "snd (snd st) = rn_resources (snd s)" using st(2) by (auto simp: rn_static_def)
  have "resources_ok st (dkeys (rn_running (snd s)) @ jid # xs) d" if r: "is_ok r"
    unfolding resources_ok_def
  proof (intro allI impI conjI)
    fix n u assume "map_of d n = Some u"
    then obtain u0 where u0: "map_of (rn_resource_used (snd s)) n = Some u0"
      and u: "u = u0 + dget ?reqs n 0"
      using ds[OF r, of n] by (auto simp: dget_def split: option.splits)
    have h: "u0 = held_by st (dkeys (rn_running (snd s)) @ xs) n" using ro u0 by (simp add: resources_ok_def)
    then show "u = held_by st (dkeys (rn_running (snd s)) @ jid # xs) n"
      using u units_class[OF sc, of n] by simp
    fix q assume q: "map_of (snd (snd st)) n = Some q"
    show "u \<le> cr_capacity q"
    proof (cases "map_of ?reqs n")
      case None
      with u u0 q ro show ?thesis by (simp add: dget_def resources_ok_def)
    next
      case (Some v)
      then have "(n, v) \<in> set ?reqs" by (rule map_of_SomeD)
      with can_loop_true[OF cl this] u u0 q res Some show ?thesis by (auto simp: dget_def)
    qed
  qed
  then have "is_ok r \<Longrightarrow> rat t st (jid # xs) nr s'"
    using s d by (simp add: rat_def rinv_def rn_static_def)
  moreover have "kat t s'" using s d by (simp add: rat_def kat_def)
  moreover have "allocate jid s = (r, s')" using c f by (simp add: allocate_def bind_op_def ask_def)
  ultimately show "yields (\<lambda>_. rat t st (jid # xs) nr) (kat t) (allocate jid s)"
    by (simp add: yields_def split: sum.splits)
qed

text \<open>Release: the holder leaves. The guard \<open>max 0\<close> never bites.\<close>

lemma triple_release:
  "triple (rat t st (jid # xs) nr) (release_resources jid) (\<lambda>_. rat t st xs nr) (kat t)"
proof (rule tripleI)
  fix s :: rworld assume s: "rat t st (jid # xs) nr s"
  then have st: "static_ok st" "rn_static (snd s) = st" by (auto simp: rat_def rinv_def)
  show "yields (\<lambda>_. rat t st xs nr) (kat t) (release_resources jid s)"
  proof (cases "static_class st jid")
    case (Inl e)
    with s st show ?thesis
      by (simp add: release_resources_def bind_op_def ask_def class_for_static rat_kat)
  next
    case (Inr c)
    let ?reqs = "wc_resource_requirements c"
    have ok: "dict_ok ?reqs" using static_class_reqs[OF st(1) Inr] by (simp add: reqs_ok_def)
    obtain r s' where f: "for_op ?reqs (\<lambda>(n, v). bump (\<lambda>u. max 0 (u - v)) n) s = (r, s')"
      by (cases "for_op ?reqs (\<lambda>(n, v). bump (\<lambda>u. max 0 (u - v)) n) s")
    obtain d where d: "s' = (fst s, (snd s)\<lparr>rn_resource_used := d\<rparr>)"
      and ds: "is_ok r \<Longrightarrow> map_of d n = map_option (\<lambda>u. case map_of ?reqs n of None \<Rightarrow> u | Some v \<Rightarrow> max 0 (u - v))
          (map_of (rn_resource_used (snd s)) n)" for n
      using bump_loop[OF ok, where g = "\<lambda>v u. max 0 (u - v)" and s = s] f by auto
    have ro: "resources_ok st (dkeys (rn_running (snd s)) @ jid # xs) (rn_resource_used (snd s))"
      using s by (simp add: rat_def rinv_def)
    have "resources_ok st (dkeys (rn_running (snd s)) @ xs) d" if r: "is_ok r"
      unfolding resources_ok_def
    proof (intro allI impI)
      fix n u assume "map_of d n = Some u"
      then obtain u0 where u0: "map_of (rn_resource_used (snd s)) n = Some u0"
        and u: "u = (case map_of ?reqs n of None \<Rightarrow> u0 | Some v \<Rightarrow> max 0 (u0 - v))"
        using ds[OF r, of n] by auto
      have "u0 = held_by st (dkeys (rn_running (snd s)) @ jid # xs) n"
        and cap: "\<forall>q. map_of (snd (snd st)) n = Some q \<longrightarrow> u0 \<le> cr_capacity q"
        using ro u0 by (simp_all add: resources_ok_def)
      then have h: "u0 = held_by st (dkeys (rn_running (snd s)) @ xs) n + units st n jid" by simp
      have "u = held_by st (dkeys (rn_running (snd s)) @ xs) n"
        using u h units_class[OF Inr, of n] held_by_nonneg[OF st(1), of "dkeys (rn_running (snd s)) @ xs" n]
        by (auto simp: dget_def split: option.splits)
      moreover have "u \<le> u0" using calculation h units_nonneg[OF st(1), of n jid] by simp
      ultimately show "u = held_by st (dkeys (rn_running (snd s)) @ xs) n \<and>
          (\<forall>q. map_of (snd (snd st)) n = Some q \<longrightarrow> u \<le> cr_capacity q)"
        using cap by (meson order_trans)
    qed
    then have "is_ok r \<Longrightarrow> rat t st xs nr s'" using s d by (simp add: rat_def rinv_def rn_static_def)
    moreover have "kat t s'" using s d by (simp add: rat_def kat_def)
    moreover have "release_resources jid s = (r, s')"
      using Inr f st by (simp add: release_resources_def bind_op_def ask_def class_for_static)
    ultimately show ?thesis by (simp add: yields_def split: sum.splits)
  qed
qed

section \<open>More composition rules\<close>

lemma triple_pure: "(b \<Longrightarrow> triple P m Q E) \<Longrightarrow> triple (\<lambda>s. P s \<and> b) m Q E"
  by (auto simp: triple_def)

lemma triple_ask_gen:
  "(\<And>s. P s \<Longrightarrow> E s) \<Longrightarrow> triple P (ask f) (\<lambda>x s. P s \<and> f (snd s) = Inr x) E"
  by (rule tripleI) (auto simp: ask_def yields_def split: sum.splits)

lemma rat_mono: "rat t st xs nr s \<Longrightarrow> nr' \<subseteq> nr \<Longrightarrow> rat t st xs nr' s"
  by (auto simp: rat_def rinv_def)

lemma rat_gain: "rat t st xs {} s \<Longrightarrow> \<not> din jid (rn_running (snd s)) \<Longrightarrow> rat t st xs {jid} s"
  by (auto simp: rat_def rinv_def dict_in_iff)

lemma triple_updk:
  assumes "\<And>k w. kernel_at t False k \<Longrightarrow> rinv st xs nr k w \<Longrightarrow> kernel_at t False (f k) \<and> own_step k (f k)"
  shows "triple (rat t st xs nr) (updk f) (\<lambda>_. rat t st xs nr) (kat t)"
proof (rule tripleI)
  fix s :: rworld assume "rat t st xs nr s"
  then have k: "kernel_at t False (fst s)" and r: "rinv st xs nr (fst s) (snd s)" by (simp_all add: rat_def)
  from assms[OF this] have "kernel_at t False (f (fst s))" "own_step (fst s) (f (fst s))" by simp_all
  with rinv_own[OF r] show "yields (\<lambda>_. rat t st xs nr) (kat t) (updk f s)"
    by (simp add: updk_def rat_def)
qed

lemma triple_upd_now:
  "(\<And>s. rat t st xs nr s \<Longrightarrow> rinv st xs' nr' (fst s) (f s (snd s))) \<Longrightarrow>
   triple (rat t st xs nr) (\<lambda>s. upd (f s) s) (\<lambda>_. rat t st xs' nr') (kat t)"
  by (rule tripleI) (auto simp: upd_def rat_def)

section \<open>Preemption\<close>

lemma stop_running:
  assumes "rinv st xs nr k w" and "map_of (rn_running w) jid = Some e"
  shows "rinv st (jid # xs) (insert jid nr) k (w\<lparr>rn_running := AList.delete jid (rn_running w)\<rparr>)"
    and "ev_seq e < eq_seq (k_queue k)"
proof -
  have d: "distinct (dkeys (rn_running w))" "jid \<in> set (dkeys (rn_running w))"
    using assms by (auto simp: rinv_def dict_ok_def dict_in_iff)
  have "(jid, e) \<in> set (rn_running w)" using assms(2) by (rule map_of_SomeD)
  then have "e \<in> set (dvalues (rn_running w))" by force
  then show "ev_seq e < eq_seq (k_queue k)" using assms(1) unfolding rinv_def by blast
  have h: "held_by st (dkeys (AList.delete jid (rn_running w)) @ jid # xs) n
      = held_by st (dkeys (rn_running w) @ xs) n" for n
    using held_by_removeAll[OF d, of st n] by (simp add: dkeys_delete)
  then have "resources_ok st (dkeys (AList.delete jid (rn_running w)) @ jid # xs) (rn_resource_used w)"
    using assms(1) unfolding rinv_def resources_ok_cong[OF h] by blast
  moreover have "\<forall>x \<in> set (dvalues (AList.delete jid (rn_running w))). ev_seq x < eq_seq (k_queue k)"
    using assms(1) set_dvalues_delete[of jid "rn_running w"] unfolding rinv_def by blast
  moreover have "set (dkeys (AList.delete jid (rn_running w))) \<inter> insert jid nr = {}"
    using assms(1) unfolding dkeys_delete by (auto simp: rinv_def)
  ultimately show "rinv st (jid # xs) (insert jid nr) k (w\<lparr>rn_running := AList.delete jid (rn_running w)\<rparr>)"
    using assms(1) by (simp add: rinv_def rn_static_def)
qed

lemma triple_stop:
  "triple (\<lambda>s. rat t st xs nr s \<and> map_of (rn_running (snd s)) jid = Some e)
     (upd (\<lambda>w. w\<lparr>rn_running := AList.delete jid (rn_running w)\<rparr>))
     (\<lambda>_ s. rat t st (jid # xs) (insert jid nr) s \<and> ev_seq e < eq_seq (k_queue (fst s))) (kat t)"
  by (rule tripleI) (auto simp: upd_def rat_def intro: stop_running)

lemma triple_cancel:
  "triple (\<lambda>s. rat t st xs nr s \<and> ev_seq e < eq_seq (k_queue (fst s))) (on_kernel (cancel_event e))
     (\<lambda>_. rat t st xs nr) (kat t)"
proof (rule tripleI, elim conjE)
  fix s :: rworld assume s: "rat t st xs nr s" "ev_seq e < eq_seq (k_queue (fst s))"
  have "kernel_at t False (snd (cancel_event e (fst s)))"
    using s by (intro cancel_event_at) (auto simp: rat_def rinv_def)
  moreover have "own_step (fst s) (snd (cancel_event e (fst s)))"
    by (auto simp: own_step_def cancel_event_def cancel_def split: prod.splits)
  ultimately show "yields (\<lambda>_. rat t st xs nr) (kat t) (on_kernel (cancel_event e) s)"
    using s by (auto simp: on_kernel_def zoom_op_def yields_def rat_def cancel_event_def intro: rinv_own
        split: prod.splits sum.splits)
qed

lemma pause_job_at:
  assumes "kernel_at t False k" and "rinv st xs nr k w"
  shows "kernel_at t False (upd_job jid (\<lambda>j. j\<lparr>jb_state := PENDING, jb_release_ps := r\<rparr>) k)"
  using assms(1) by (rule kernel_at_job_update) (simp add: job_ok_def)

lemma triple_pause:
  "triple (rat t st xs nr) (updk (\<lambda>k. case map_of (k_jobs k) jid of None \<Rightarrow> k
      | Some j \<Rightarrow> if jb_state j = RUNNING
          then upd_job jid (\<lambda>j. j\<lparr>jb_state := PENDING, jb_release_ps := r\<rparr>) k else k))
    (\<lambda>_. rat t st xs nr) (kat t)"
  by (rule triple_updk) (auto split: option.splits intro: pause_job_at own_upd_job)

lemma triple_keep_remaining:
  "triple (rat t st xs nr) (\<lambda>s. upd (\<lambda>w. w\<lparr>rn_preempted_remaining := AList.update jid
      (case map_of (k_jobs (fst s)) jid of None \<Rightarrow> 0 | Some j \<Rightarrow> jb_remaining_ps j)
      (rn_preempted_remaining w)\<rparr>) s) (\<lambda>_. rat t st xs nr) (kat t)"
proof (rule triple_upd_now)
  fix s :: rworld assume s: "rat t st xs nr s"
  have "0 \<le> (case map_of (k_jobs (fst s)) jid of None \<Rightarrow> 0 | Some j \<Rightarrow> jb_remaining_ps j)"
    using s by (auto simp: rat_def kernel_at_def kernel_inv_def jobs_ok_def job_ok_def split: option.splits)
  with s show "rinv st xs nr (fst s) ((snd s)\<lparr>rn_preempted_remaining := AList.update jid
      (case map_of (k_jobs (fst s)) jid of None \<Rightarrow> 0 | Some j \<Rightarrow> jb_remaining_ps j)
      (rn_preempted_remaining (snd s))\<rparr>)"
    by (auto simp: rat_def rinv_def rn_static_def dict_simps)
qed

lemmas core_simps = core_def rn_static_def

lemma triple_preempt: "triple (rat t st [] nr) (preempt_job jid) (\<lambda>_. rat t st [] (insert jid nr)) (kat t)"
proof (rule tripleI)
  fix s :: rworld assume s: "rat t st [] nr s"
  show "yields (\<lambda>_. rat t st [] (insert jid nr)) (kat t) (preempt_job jid s)"
  proof (cases "map_of (rn_running (snd s)) jid")
    case None
    with s have "rat t st [] (insert jid nr) s" by (auto simp: rat_def rinv_def dict_in_iff)
    with None show ?thesis by (simp add: preempt_job_def op_simps)
  next
    case (Some e)
    have P: "rat t st [] nr s \<and> map_of (rn_running (snd s)) jid = Some e" using s Some by simp
    show ?thesis
      unfolding preempt_job_def Some option.case
      by (rule tripleD[where P = "\<lambda>s. rat t st [] nr s \<and> map_of (rn_running (snd s)) jid = Some e", OF _ P])
        (rule triple_seq[OF triple_stop] triple_seq[OF triple_cancel] triple_seq[OF triple_pause]
          triple_seq[OF triple_keep_remaining] triple_seq[OF triple_release] triple_bind[OF triple_now]
          triple_pure triple_bind[OF triple_ask_forget] triple_seq[OF triple_upd_core] triple_when triple_upd_core
        | simp add: core_simps split: option.splits)+
  qed
qed

section \<open>Starting a job\<close>

lemma triple_dequeue: "triple (rat t st xs nr) (dequeue_from_runner jid) (\<lambda>_. rat t st xs nr) (kat t)"
  unfolding dequeue_from_runner_def
proof (rule triple_bind[OF triple_ask_forget])
  fix c
  let ?mb = "\<lambda>s. case map_of (rn_mailboxes (snd s)) (mailbox_key c) of
         None \<Rightarrow> ret () s
       | Some mb \<Rightarrow>
           if \<not> mb_has_pending (stream_of c) mb then ret () s
           else (case mb_take (stream_of c) (k_now_ps (fst s)) mb of
             (age_item, mb') \<Rightarrow>
               seq_op (upd (\<lambda>w. w\<lparr>rn_mailboxes := AList.update (mailbox_key c) mb' (rn_mailboxes w)\<rparr>))
                 (case age_item of None \<Rightarrow> ret ()
                  | Some (age, _) \<Rightarrow> collect (record_observation_age jid age)) s)"
  have "triple (rat t st xs nr) ?mb (\<lambda>_. rat t st xs nr) (kat t)"
  proof (rule tripleI)
    fix s :: rworld assume s: "rat t st xs nr s"
    have "triple (rat t st xs nr) (seq_op (upd (\<lambda>w. w\<lparr>rn_mailboxes := AList.update (mailbox_key c) mb' (rn_mailboxes w)\<rparr>))
        (case age_item of None \<Rightarrow> ret () | Some (age, _) \<Rightarrow> collect (record_observation_age jid age)))
        (\<lambda>_. rat t st xs nr) (kat t)" for mb' and age_item :: "(int \<times> string) option"
      by (rule triple_seq[OF triple_upd_core])
        (auto simp: core_simps triple_ret split: option.splits intro!: triple_collect triple_ret)
    from tripleD[OF this s] s show "yields (\<lambda>_. rat t st xs nr) (kat t) (?mb s)"
      by (auto simp: op_simps split: option.splits prod.splits)
  qed
  then show "triple (rat t st xs nr) (case wc_queue_policy c of
       FIFO \<Rightarrow> upd (\<lambda>w. case map_of (rn_fifos w) (fifo_key c) of None \<Rightarrow> w
         | Some q \<Rightarrow> if (case fifo_peek q of None \<Rightarrow> False | Some (_, x) \<Rightarrow> x = jid)
             then w\<lparr>rn_fifos := AList.update (fifo_key c) (snd (fifo_dequeue q)) (rn_fifos w)\<rparr> else w)
     | MAILBOX_LATEST \<Rightarrow> ?mb) (\<lambda>_. rat t st xs nr) (kat t)"
    by (auto simp: core_simps split: queue_policy.splits option.splits intro!: triple_upd_core)
qed

lemma no_deps_job: "no_deps js \<Longrightarrow> map_of js i = Some j \<Longrightarrow> jb_depends_on j = []"
  by (force simp: no_deps_def job_frame_def dest: map_of_SomeD)

lemma run_job_at:
  assumes "kernel_at t False k" and "no_deps (k_jobs k)" and "\<And>j. 0 \<le> jb_remaining_ps j \<Longrightarrow> 0 \<le> jb_remaining_ps (f j)"
    and "\<And>j. jb_state (f j) = RUNNING \<and> jb_job_id (f j) = jb_job_id j \<and> jb_depends_on (f j) = jb_depends_on j"
  shows "kernel_at t False (upd_job i f k)"
  using assms(1) by (rule kernel_at_job_update) (use assms no_deps_job in \<open>fastforce simp: job_ok_def\<close>)

lemma no_deps_update: "no_deps js \<Longrightarrow> jb_depends_on j = [] \<Longrightarrow> no_deps (AList.update i j js)"
  by (induction js) (auto simp: no_deps_def job_frame_def)

lemma register_job_no_deps:
  assumes "\<not> k_has_callback k" and "k_next_dispatch_time k = None" and "no_deps (k_jobs k)"
    and k'_def: "k' = snd (register_job i work rel dl prio [] k)"
  shows "\<not> k_has_callback k' \<and> k_next_dispatch_time k' = None \<and> no_deps (k_jobs k') \<and>
    eq_seq (k_queue k) \<le> eq_seq (k_queue k')"
proof -
  have nd: "no_deps (AList.update i j (k_jobs k))" if "jb_depends_on j = []" for j
    using no_deps_update[OF assms(3) that] .
  have fr: "no_deps (k_jobs (make_ready i q)) = no_deps (k_jobs q)"
    "k_has_callback (make_ready i q) = k_has_callback q" "k_queue (make_ready i q) = k_queue q"
    "k_next_dispatch_time (make_ready i q) = k_next_dispatch_time q" for q :: "'a kernel"
    unfolding make_ready_def upd_job_def no_deps_def by (simp_all add: job_frame_map_entry make_ready_job_def)
  show ?thesis
    using assms(1,2,3) nd[of "new_job i work rel (case dl of None \<Rightarrow> work | Some x \<Rightarrow> x) prio []"]
    by (auto simp: k'_def register_job_def Let_def op_simps schedule_dispatch_def bind_op_def kpush_def fr
        new_job_def split: sum.splits prod.splits dest: push_seq)
qed

lemma triple_start_kernel_job:
  assumes "0 \<le> remaining"
  shows "triple (rat t st xs nr) (start_kernel_job jid rel cls remaining) (\<lambda>_. rat t st xs nr) (kat t)"
proof (rule tripleI)
  fix s :: rworld assume s: "rat t st xs nr s"
  let ?reg = "register_job jid remaining (k_now_ps (fst s)) (Some (max 0 (jr_deadline_ps rel - k_now_ps (fst s))))
      (wc_priority cls) []"
  have nd: "no_deps (k_jobs (fst s))" using s by (simp add: rat_def rinv_def)
  show "yields (\<lambda>_. rat t st xs nr) (kat t) (start_kernel_job jid rel cls remaining s)"
  proof (cases "din jid (k_jobs (fst s))")
    case True
    let ?f = "\<lambda>j. j\<lparr>jb_state := RUNNING, jb_remaining_ps := remaining\<rparr>"
    have "kernel_at t False (upd_job jid ?f (fst s))"
      using s nd assms by (intro run_job_at) (simp_all add: rat_def)
    moreover have "rinv st xs nr (upd_job jid ?f (fst s)) (snd s)"
      using s by (intro rinv_own[OF _ own_upd_job]) (simp_all add: rat_def)
    ultimately show ?thesis using True by (simp add: start_kernel_job_def updk_def rat_def)
  next
    case False
    obtain r k where reg: "?reg (fst s) = (r, k)" by (cases "?reg (fst s)")
    have k: "kernel_at t False k" using keepsD'[OF register_job_keeps _ reg] s by (simp add: rat_def)
    have "rinv st xs nr k (snd s)"
    proof -
      have kk: "k = snd (?reg (fst s))" using reg by simp
      have ri: "rinv st xs nr (fst s) (snd s)" using s by (simp add: rat_def)
      then have "\<not> k_has_callback (fst s)" "k_next_dispatch_time (fst s) = None" by (simp_all add: rinv_def)
      from register_job_no_deps[OF this nd kk] have
        "\<not> k_has_callback k \<and> k_next_dispatch_time k = None \<and> no_deps (k_jobs k)"
        "eq_seq (k_queue (fst s)) \<le> eq_seq (k_queue k)" by simp_all
      moreover from this(2) ri have "\<forall>e \<in> set (dvalues (rn_running (snd s))). ev_seq e < eq_seq (k_queue k)"
        unfolding rinv_def by (meson less_le_trans)
      ultimately show ?thesis using ri unfolding rinv_def by blast
    qed
    then have ri: "rinv st xs nr (upd_job jid (\<lambda>j. j\<lparr>jb_state := RUNNING\<rparr>) k) (snd s)"
      by (rule rinv_own) (rule own_upd_job, simp)
    have "no_deps (k_jobs k)" using \<open>rinv st xs nr k (snd s)\<close> by (simp add: rinv_def)
    then have "kernel_at t False (upd_job jid (\<lambda>j. j\<lparr>jb_state := RUNNING\<rparr>) k)"
      using k by (intro run_job_at) simp_all
    with ri k reg False show ?thesis
      by (auto simp: start_kernel_job_def seq_op_def bind_op_def on_kernel_def zoom_op_def updk_def rat_def kat_def
          split: sum.splits)
  qed
qed

lemma rinv_start:
  assumes "rinv st (jid # xs) nr k w" and "jid \<in> nr" and "ev_seq e < eq_seq (k_queue k)"
  shows "rinv st xs (nr - {jid}) k (w\<lparr>rn_running := AList.update jid e (rn_running w)\<rparr>)"
proof -
  have new: "jid \<notin> set (dkeys (rn_running w))" using assms(1,2) by (auto simp: rinv_def)
  then have keys: "dkeys (AList.update jid e (rn_running w)) = dkeys (rn_running w) @ [jid]"
    by (simp add: dkeys_update)
  have h: "held_by st (dkeys (AList.update jid e (rn_running w)) @ xs) n
      = held_by st (dkeys (rn_running w) @ jid # xs) n" for n
    unfolding keys by simp
  have "resources_ok st (dkeys (AList.update jid e (rn_running w)) @ xs) (rn_resource_used w)"
    using assms(1) unfolding rinv_def resources_ok_cong[OF h] by blast
  moreover have "\<forall>x \<in> set (dvalues (AList.update jid e (rn_running w))). ev_seq x < eq_seq (k_queue k)"
    using assms(1,3) set_dvalues_update[of jid e "rn_running w"] unfolding rinv_def by blast
  moreover have "set (dkeys (AList.update jid e (rn_running w))) \<inter> (nr - {jid}) = {}"
    using assms(1) unfolding keys rinv_def by auto
  ultimately show ?thesis using assms(1) by (simp add: rinv_def rn_static_def)
qed

lemma triple_running:
  "jid \<in> nr \<Longrightarrow> triple (\<lambda>s. rat t st (jid # xs) nr s \<and> ev_seq e < eq_seq (k_queue (fst s)))
     (upd (\<lambda>w. w\<lparr>rn_running := AList.update jid e (rn_running w)\<rparr>)) (\<lambda>_. rat t st xs (nr - {jid})) (kat t)"
  by (rule tripleI) (auto simp: upd_def rat_def intro: rinv_start)

lemma release_work:
  assumes "rat t st xs nr s" and "release_of (snd s) jid = Inr rel"
  shows "0 \<le> jr_work_ps rel"
  using assms by (auto simp: rat_def rinv_def rn_static_def static_ok_def release_of_def dict_get_def split: option.splits)

lemma triple_remaining:
  assumes "0 \<le> jr_work_ps rel"
  shows "triple (rat t st xs nr) (ask (\<lambda>w. Inr (dget (rn_preempted_remaining w) jid (jr_work_ps rel))))
    (\<lambda>x s. rat t st xs nr s \<and> 0 \<le> x) (kat t)"
  by (rule triple_post[OF triple_ask])
    (use assms in \<open>auto simp: rat_def rinv_def dget_def split: option.splits\<close>)

lemma triple_forget_remaining:
  "triple (rat t st xs nr) (upd (\<lambda>w. w\<lparr>rn_preempted_remaining := AList.delete jid (rn_preempted_remaining w)\<rparr>))
     (\<lambda>_. rat t st xs nr) (kat t)"
  by (rule triple_upd) (auto simp: rinv_def rn_static_def dict_simps)

lemma triple_start_rest:
  assumes "0 \<le> jr_work_ps rel" and "jid \<in> nr"
  shows "triple (rat t st (jid # xs) nr)
     (seq_op (upd (\<lambda>w. w\<lparr>rn_preempted := remove1 jid (rn_preempted w)\<rparr>))
     (seq_op (dequeue_from_runner jid)
     (bind_op (ask (\<lambda>w. Inr (dget (rn_preempted_remaining w) jid (jr_work_ps rel)))) (\<lambda>remaining.
     seq_op (upd (\<lambda>w. w\<lparr>rn_preempted_remaining := AList.delete jid (rn_preempted_remaining w)\<rparr>))
     (seq_op (start_kernel_job jid rel cls remaining)
     (bind_op now_op (\<lambda>now.
     seq_op (upd (\<lambda>w. w\<lparr>rn_start_times := AList.update jid now (rn_start_times w)\<rparr>))
     (seq_op (collect (record_start jid now))
     (bind_op (on_kernel (schedule (now + remaining) TIMER (Client (Complete jid)))) (\<lambda>completion.
     upd (\<lambda>w. w\<lparr>rn_running := AList.update jid completion (rn_running w)\<rparr>)))))))))))
     (\<lambda>_. rat t st xs (nr - {jid})) (kat t)"
  by (rule triple_seq[OF triple_upd_core] triple_seq[OF triple_dequeue]
      triple_bind[OF triple_remaining[OF assms(1)]] triple_pure triple_seq[OF triple_forget_remaining]
      triple_seq[OF triple_start_kernel_job] triple_bind[OF triple_now] triple_seq[OF triple_collect]
      triple_bind[OF triple_schedule] triple_running[OF assms(2)]
    | (simp add: core_simps; fail) | assumption)+

lemma triple_start_job:
  "triple (\<lambda>s. rat t st [] {jid} s \<and> can_allocate (snd s) jid = Inr True) (start_job jid)
     (\<lambda>_. rat t st [] {}) (kat t)"
  unfolding start_job_def
proof (rule triple_bind[OF triple_ask_gen])
  fix rel
  let ?P = "\<lambda>s. rat t st [] {jid} s \<and> can_allocate (snd s) jid = Inr True"
  let ?m = "\<lambda>cls. seq_op (allocate jid)
     (seq_op (upd (\<lambda>w. w\<lparr>rn_preempted := remove1 jid (rn_preempted w)\<rparr>))
     (seq_op (dequeue_from_runner jid)
     (bind_op (ask (\<lambda>w. Inr (dget (rn_preempted_remaining w) jid (jr_work_ps rel)))) (\<lambda>remaining.
     seq_op (upd (\<lambda>w. w\<lparr>rn_preempted_remaining := AList.delete jid (rn_preempted_remaining w)\<rparr>))
     (seq_op (start_kernel_job jid rel cls remaining)
     (bind_op now_op (\<lambda>now.
     seq_op (upd (\<lambda>w. w\<lparr>rn_start_times := AList.update jid now (rn_start_times w)\<rparr>))
     (seq_op (collect (record_start jid now))
     (bind_op (on_kernel (schedule (now + remaining) TIMER (Client (Complete jid)))) (\<lambda>completion.
     upd (\<lambda>w. w\<lparr>rn_running := AList.update jid completion (rn_running w)\<rparr>)))))))))))"
  show "triple (\<lambda>s. ?P s \<and> release_of (snd s) jid = Inr rel)
     (bind_op (ask (\<lambda>w. get_class (rn_scenario w) (jr_class_id rel))) ?m) (\<lambda>_. rat t st [] {}) (kat t)"
  proof (cases "0 \<le> jr_work_ps rel")
    case True
    have m: "triple ?P (?m cls) (\<lambda>_. rat t st [] {}) (kat t)" for cls
      using triple_seq[OF triple_allocate triple_start_rest[OF True, of jid "{jid}"]] by simp
    show ?thesis
      by (rule triple_bind[OF triple_ask_gen], use rat_kat in blast) (rule triple_pre[OF m], simp)
  next
    case False
    then have "\<not> (?P s \<and> release_of (snd s) jid = Inr rel)" for s using release_work by blast
    then show ?thesis unfolding triple_def by blast
  qed
qed (auto intro: rat_kat)

text \<open>A job that could not be started still does not run.\<close>

lemma triple_try_start:
  "triple (rat t st [] {jid}) (try_start jid) (\<lambda>b. rat t st [] (if b then {} else {jid})) (kat t)"
  unfolding try_start_def
proof (rule triple_bind[OF triple_ask], rule triple_if)
  fix ok
  show "triple (\<lambda>s. rat t st [] {jid} s \<and> can_allocate (snd s) jid = Inr ok) (ret False)
     (\<lambda>b. rat t st [] (if b then {} else {jid})) (kat t)"
    by (rule triple_ret) simp
next
  fix ok
  assume "\<not> \<not> ok"
  then show "triple (\<lambda>s. rat t st [] {jid} s \<and> can_allocate (snd s) jid = Inr ok)
     (seq_op (start_job jid) (ret True)) (\<lambda>b. rat t st [] (if b then {} else {jid})) (kat t)"
    by (intro triple_seq[OF triple_pre[OF triple_start_job]] triple_ret) auto
qed

section \<open>Dispatching\<close>

lemma triple_branch:
  "triple (\<lambda>s. P s \<and> b s) m Q E \<Longrightarrow> triple (\<lambda>s. P s \<and> \<not> b s) n Q E \<Longrightarrow>
   triple P (\<lambda>s. if b s then m s else n s) Q E"
  by (auto simp: triple_def)

lemma triple_preempt_loop:
  "triple (rat t st [] nr) (preempt_loop jid key vs any) (\<lambda>_. rat t st [] nr) (kat t)"
proof (induction vs arbitrary: any)
  case Nil
  show ?case by (simp add: triple_ret)
next
  case (Cons v vs)
  have p: "triple (rat t st [] nr) (preempt_job v) (\<lambda>_. rat t st [] nr) (kat t)"
    by (rule triple_post[OF triple_preempt]) (erule rat_mono, blast)
  show ?case
    unfolding preempt_loop.simps
    by (rule triple_bind[OF triple_ask_forget] triple_if triple_ret triple_seq[OF p] Cons.IH | assumption)+
qed

lemma triple_preempt_for: "triple (rat t st [] nr) (preempt_for jid) (\<lambda>_. rat t st [] nr) (kat t)"
  unfolding preempt_for_def
  by (rule triple_bind[OF triple_ask_forget])+ (rule triple_preempt_loop)

lemma triple_dispatch_loop:
  "triple (rat t st [] {}) (dispatch_loop seen js) (\<lambda>_. rat t st [] {}) (kat t)"
proof (induction js arbitrary: seen)
  case Nil
  show ?case by (simp add: triple_ret)
next
  case (Cons jid js)
  have next_job: "triple (rat t st [] {jid}) (dispatch_loop seen js) (\<lambda>_. rat t st [] {}) (kat t)" for seen
    by (rule triple_pre[OF Cons.IH]) (erule rat_mono, simp)
  have again: "triple (rat t st [] {jid}) (bind_op (try_start jid) (\<lambda>_. ret ())) (\<lambda>_. rat t st [] {}) (kat t)"
    by (rule triple_bind[OF triple_try_start]) (rule triple_ret, auto elim: rat_mono)
  have retry: "triple (rat t st [] {jid}) (if b then bind_op (try_start jid) (\<lambda>_. ret ()) else ret ())
      (\<lambda>_. rat t st [] {}) (kat t)" for b
    by (rule triple_if[OF again]) (rule triple_ret, erule rat_mono, simp)
  have started: "triple (rat t st [] (if b then {} else {jid})) (\<lambda>s.
      if b then dispatch_loop (jid # seen) js s
      else if \<not> sc_preemption_enabled (rn_scenario (snd s)) then dispatch_loop (jid # seen) js s
      else bind_op (preempt_for jid) (\<lambda>preempted.
        seq_op (if preempted then bind_op (try_start jid) (\<lambda>_. ret ()) else ret ())
          (dispatch_loop (jid # seen) js)) s) (\<lambda>_. rat t st [] {}) (kat t)" for b
  proof (cases b)
    case True
    with Cons.IH show ?thesis by simp
  next
    case False
    have "triple (rat t st [] {jid}) (\<lambda>s.
        if \<not> sc_preemption_enabled (rn_scenario (snd s)) then dispatch_loop (jid # seen) js s
        else bind_op (preempt_for jid) (\<lambda>preempted.
          seq_op (if preempted then bind_op (try_start jid) (\<lambda>_. ret ()) else ret ())
            (dispatch_loop (jid # seen) js)) s) (\<lambda>_. rat t st [] {}) (kat t)"
      by (rule triple_branch triple_pre[OF next_job]
          triple_pre[OF triple_bind[OF triple_preempt_for triple_seq[OF retry Cons.IH]]] | erule conjunct1)+
    with False show ?thesis by simp
  qed
  show ?case
    unfolding dispatch_loop.simps
    by (rule triple_branch triple_pre[OF Cons.IH] triple_pre[OF triple_bind[OF triple_try_start started]]
        | erule conjunct1 | (simp add: rat_gain; fail))+
qed

lemma triple_dispatch: "triple (rat t st [] {}) dispatch (\<lambda>_. rat t st [] {}) (kat t)"
proof -
  have "triple (rat t st [] {}) (bind_op (ask (\<lambda>w. sort_by_policy w c)) (\<lambda>ids.
      seq_op (dispatch_loop [] ids) maybe_record_recovery)) (\<lambda>_. rat t st [] {}) (kat t)" for c
    by (rule triple_bind[OF triple_ask_forget] triple_seq[OF triple_dispatch_loop] triple_recovery)+
  then show ?thesis using triple_recovery by (auto simp: triple_def dispatch_def Let_def)
qed

section \<open>Arrivals\<close>

lemma triple_drop_replaced: "triple (rat t st [] {}) (drop_replaced old) (\<lambda>_. rat t st [] {}) (kat t)"
proof -
  have p: "triple (rat t st [] {}) (preempt_job old) (\<lambda>_. rat t st [] {}) (kat t)"
    by (rule triple_post[OF triple_preempt]) (erule rat_mono, blast)
  have u: "triple (rat t st [] {}) (upd (\<lambda>w. if old \<in> set (rn_preempted w)
            then w\<lparr>rn_preempted := remove1 old (rn_preempted w),
                   rn_preempted_remaining := AList.delete old (rn_preempted_remaining w)\<rparr> else w))
      (\<lambda>_. rat t st [] {}) (kat t)"
    by (rule triple_upd) (auto simp: rinv_def rn_static_def dict_simps)
  have "triple (rat t st [] {}) (\<lambda>s. if din old (rn_running (snd s)) then preempt_job old s
      else upd (\<lambda>w. if old \<in> set (rn_preempted w)
            then w\<lparr>rn_preempted := remove1 old (rn_preempted w),
                   rn_preempted_remaining := AList.delete old (rn_preempted_remaining w)\<rparr> else w) s)
      (\<lambda>_. rat t st [] {}) (kat t)"
    by (rule triple_branch) (rule triple_pre[OF p] triple_pre[OF u], erule conjunct1)+
  then show ?thesis
    unfolding drop_replaced_def
    by (intro triple_seq[OF triple_collect] triple_seq[OF triple_upd_core]) (simp_all add: core_simps)
qed

text \<open>An operation chosen by what the state holds.\<close>

lemma triple_case_prod:
  "(\<And>a b. triple P (m a b) Q E) \<Longrightarrow> triple P (\<lambda>s. case f s of (a, b) \<Rightarrow> m a b s) Q E"
  by (auto simp: triple_def split: prod.splits)

lemma triple_at: "(\<And>x. triple P (m x) Q E) \<Longrightarrow> triple P (\<lambda>s. m (f s) s) Q E"
  by (simp add: triple_def)

lemma triple_enqueue: "triple (rat t st [] {}) (enqueue_release rel cls) (\<lambda>_. rat t st [] {}) (kat t)"
proof (cases "wc_queue_policy cls")
  case FIFO
  have r: "triple (rat t st [] {}) (case r of
        Inl _ \<Rightarrow> seq_op (collect (record_drop (jr_job_id rel))) (ret False)
      | Inr _ \<Rightarrow> seq_op (upd (\<lambda>w. w\<lparr>rn_collector :=
          record_queue_size (ff_name q') (fifo_size q') n (rn_collector w)\<rparr>)) (ret True))
      (\<lambda>_. rat t st [] {}) (kat t)" for r :: "int result" and q' n
    by (cases r) (auto simp: core_simps intro!: triple_seq[OF triple_collect] triple_seq[OF triple_upd_core] triple_ret)
  have "triple (rat t st [] {}) (\<lambda>s. case fifo_enqueue (jr_job_id rel) q of (r, q') \<Rightarrow>
       seq_op (upd (\<lambda>w. w\<lparr>rn_fifos := AList.update (fifo_key cls) q' (rn_fifos w)\<rparr>))
           (case r of
              Inl _ \<Rightarrow> seq_op (collect (record_drop (jr_job_id rel))) (ret False)
            | Inr _ \<Rightarrow> seq_op (upd (\<lambda>w. w\<lparr>rn_collector :=
                  record_queue_size (ff_name q') (fifo_size q') (k_now_ps (fst s)) (rn_collector w)\<rparr>)) (ret True)) s)
      (\<lambda>_. rat t st [] {}) (kat t)" for q
  proof (cases "fifo_enqueue (jr_job_id rel) q")
    case (Pair r' q')
    show ?thesis
      unfolding Pair prod.case
      by (rule triple_at[where f = "\<lambda>s. k_now_ps (fst s)"], rule triple_seq[OF triple_upd_core])
        (simp add: core_simps, rule r)
  qed
  then show ?thesis
    unfolding enqueue_release_def FIFO queue_policy.case by (rule triple_bind[OF triple_ask_forget])
next
  case MAILBOX_LATEST
  have r: "triple (rat t st [] {}) (if replaced then (case old of None \<Rightarrow> ret ()
        | Some (_, old_id) \<Rightarrow> drop_replaced old_id) else ret ()) (\<lambda>_. rat t st [] {}) (kat t)"
    for replaced and old :: "(int \<times> string) option"
    by (auto intro!: triple_ret triple_drop_replaced split: option.splits)
  have "triple (rat t st [] {}) (\<lambda>s. let old = mb_peek (stream_of cls) (k_now_ps (fst s)) mb in
       case mb_put (stream_of cls) (jr_job_id rel) (k_now_ps (fst s)) mb of (replaced, mb') \<Rightarrow>
         seq_op (upd (\<lambda>w. w\<lparr>rn_mailboxes := AList.update (mailbox_key cls) mb' (rn_mailboxes w)\<rparr>))
         (seq_op (if replaced then (case old of None \<Rightarrow> ret () | Some (_, old_id) \<Rightarrow> drop_replaced old_id) else ret ())
           (ret True)) s) (\<lambda>_. rat t st [] {}) (kat t)" for mb
    unfolding Let_def
    by (rule triple_at[where f = "\<lambda>s. k_now_ps (fst s)"], rule triple_case_prod,
        rule triple_seq[OF triple_upd_core])
      (simp add: core_simps, rule triple_seq[OF r], rule triple_ret)
  then show ?thesis
    unfolding enqueue_release_def MAILBOX_LATEST queue_policy.case by (rule triple_bind[OF triple_ask_forget])
qed

lemma triple_check_admission:
  "triple (rat t st [] {}) (check_admission rel cls) (\<lambda>_. rat t st [] {}) (kat t)"
  unfolding check_admission_def
  by (rule triple_if triple_ret triple_bind[OF triple_ask_forget] triple_ask_forget | assumption)+

lemma triple_commit_admission:
  "triple (rat t st [] {}) (commit_admission rel cls) (\<lambda>_. rat t st [] {}) (kat t)"
  unfolding commit_admission_def
  by (rule triple_if triple_ret triple_bind[OF triple_ask_forget] triple_upd_core
      | (simp add: core_simps; fail) | assumption)+

lemma triple_on_arrival: "triple (rat t st [] {}) (on_arrival rel) (\<lambda>_. rat t st [] {}) (kat t)"
  unfolding on_arrival_def
  by (rule triple_bind[OF triple_ask_forget] triple_seq[OF triple_collect] triple_if
      triple_bind[OF triple_check_admission] triple_seq[OF triple_recovery] triple_schedule_dispatch
      triple_bind[OF triple_enqueue] triple_seq[OF triple_commit_admission])+

section \<open>Completion\<close>

lemma triple_suppress:
  "triple P m (\<lambda>_. Q) Q \<Longrightarrow> (\<And>s. Q s \<Longrightarrow> E s) \<Longrightarrow> triple P (suppress_scheduler_error m) (\<lambda>_. Q) E"
  by (fastforce simp: triple_def suppress_scheduler_error_def yields_def split: prod.splits sum.splits py_error.splits)

lemma triple_complete_kernel:
  "triple (rat t st xs nr) (suppress_scheduler_error (on_kernel (complete_job jid))) (\<lambda>_. rat t st xs nr) (kat t)"
  by (rule triple_suppress[OF triple_kernel[OF complete_job_keeps own_complete_job] rat_kat])

lemma triple_on_complete: "triple (rat t st [] {}) (on_complete jid) (\<lambda>_. rat t st [] {}) (kat t)"
proof (rule tripleI)
  fix s :: rworld assume s: "rat t st [] {} s"
  show "yields (\<lambda>_. rat t st [] {}) (kat t) (on_complete jid s)"
  proof (cases "map_of (rn_running (snd s)) jid")
    case None
    with s show ?thesis by (simp add: on_complete_def op_simps)
  next
    case (Some e)
    let ?P = "\<lambda>s. rat t st [] {} s \<and> map_of (rn_running (snd s)) jid = Some e"
    have P: "?P s" using s Some by simp
    have stop: "triple ?P (upd (\<lambda>w. w\<lparr>rn_running := AList.delete jid (rn_running w)\<rparr>)) (\<lambda>_. rat t st [jid] {}) (kat t)"
      by (rule triple_post[OF triple_stop]) (auto elim: rat_mono)
    have d: "din jid (rn_running (snd s))" using Some by simp
    show ?thesis
      unfolding on_complete_def eqTrueI[OF d] not_True_eq_False if_False
      by (rule tripleD[where P = ?P, OF _ P])
        (rule triple_seq[OF stop] triple_seq[OF triple_complete_kernel] triple_bind[OF triple_now]
          triple_pure triple_bind[OF triple_ask_forget] triple_seq[OF triple_release]
          triple_seq[OF triple_upd_core] triple_seq[OF triple_collect] triple_seq[OF triple_recovery]
          triple_schedule_dispatch | (simp add: core_simps; fail))+
  qed
qed

section \<open>The runner as the client of the kernel\<close>

lemma triple_closure: "triple (rat t st [] {}) (run_closure c) (\<lambda>_. rat t st [] {}) (kat t)"
  by (cases c) (auto intro: triple_seq triple_on_arrival triple_dispatch triple_on_complete)

interpretation rc: kernel_client runner_env "rinv st [] {}" for st
proof unfold_locales
  fix t k w c r k' w'
  assume "kernel_at t False k" "rinv st [] {} k w" and c: "env_client runner_env c (k, w) = (r, (k', w'))"
  then have "yields (\<lambda>_. rat t st [] {}) (kat t) (run_closure c (k, w))"
    by (intro tripleD[OF triple_closure]) (simp add: rat_def)
  with c show "kernel_at t False k' \<and> (is_ok r \<longrightarrow> rinv st [] {} k' w')"
    by (auto simp: runner_env_def yields_def rat_def kat_def split: sum.splits)
next
  fix t k w ready r k' w'
  assume "kernel_at t False k" "rinv st [] {} k w" "env_callback runner_env ready (k, w) = (r, (k', w'))"
  then show "kernel_at t False k' \<and> (is_ok r \<longrightarrow> rinv st [] {} k' w')"
    by (auto simp: runner_env_def op_simps)
qed (rule rinv_own)

lemma world_at_rat: "rc.world_at st t False s = rat t st [] {} s"
  by (simp add: rc.world_at_def rat_def)

section \<open>A whole run\<close>

text \<open>The statics of a compiled scenario satisfy what the invariant needs of them.\<close>

definition statics_of :: "compiled_scenario \<Rightarrow> statics" where
  "statics_of cs = (cs_scenario cs, releases_by_id (cs_releases cs), cs_resources cs)"

lemma fold_update_mem:
  "map_of (fold (\<lambda>r d. AList.update (f r) r d) rs d) i = Some r \<Longrightarrow> r \<in> set rs \<or> map_of d i = Some r"
  by (induction rs arbitrary: d) (fastforce simp: dict_simps split: if_splits)+

lemma releases_by_id_mem: "map_of (releases_by_id rs) i = Some r \<Longrightarrow> r \<in> set rs"
  using fold_update_mem[of jr_job_id rs "[]" i r] by (simp add: releases_by_id_def)

lemma class_releases_work: "r \<in> set (class_releases s q c) \<Longrightarrow> jr_work_ps r = work_ps c"
  by (auto simp: class_releases_def Let_def)

lemma all_releases_work: "r \<in> set (all_releases s q cs) \<Longrightarrow> \<exists>c \<in> set cs. jr_work_ps r = work_ps c"
  by (induction s q cs rule: all_releases.induct) (auto simp: Let_def dest: class_releases_work)

lemma compiled_static_ok:
  assumes "scenario_ok s" and "compile_scenario s pb = Inr cs" and "\<forall>c \<in> set (sc_classes s). reqs_ok c"
  shows "static_ok (statics_of cs)"
proof -
  note f = compile_scenario_fields[OF assms(2)]
  have "0 \<le> jr_work_ps r" if "map_of (releases_by_id (cs_releases cs)) i = Some r" for i r
    using all_releases_work[of r s 0 "sc_classes s"] releases_by_id_mem[OF that] assms(1) work_ps_nonneg
    by (auto simp: f(2) sorted_releases_def scenario_ok_def)
  with assms(3) f(1) show ?thesis by (auto simp: static_ok_def statics_of_def)
qed

lemma add_resources_capacity:
  "add_resources items rs = Inr rs' \<Longrightarrow> \<forall>(n, r) \<in> set rs. 0 \<le> cr_capacity r \<Longrightarrow> map_of rs' n = Some r
    \<Longrightarrow> 0 \<le> cr_capacity r"
proof (induction items rs rule: add_resources.induct)
  case (1 rs)
  then show ?case by (auto dest: map_of_SomeD)
next
  case (2 m c items rs)
  obtain q where q: "capacity_resource_new m c False = Inr q" "add_resources items (AList.update m q rs) = Inr rs'"
    and c: "0 < c" using 2(2) by (auto simp: bind_res_Inr_iff split: if_splits)
  then have "cr_capacity q = c" by (auto simp: capacity_resource_new_def split: if_splits)
  moreover have "\<forall>(n, r) \<in> set (AList.update m q rs). r = q \<or> 0 \<le> cr_capacity r"
    using 2(3) by (induction rs) auto
  ultimately have "\<forall>(n, r) \<in> set (AList.update m q rs). 0 \<le> cr_capacity r" using c by fastforce
  with 2(1)[OF _ q(2)] 2(4) c show ?case by simp
qed

lemma build_resources_capacity:
  "build_resources s = Inr rs \<Longrightarrow> map_of rs n = Some r \<Longrightarrow> 0 \<le> cr_capacity r"
  by (auto simp: build_resources_def bind_res_Inr_iff capacity_resource_new_def split: if_splits
      dest!: add_resources_capacity)

lemma runner_start:
  assumes "kernel_new 1000 False = Inr k" and "static_ok (statics_of cs)"
    and "\<And>n r. map_of (cs_resources cs) n = Some r \<Longrightarrow> 0 \<le> cr_capacity r"
  shows "rat 0 (statics_of cs) [] {} (k, runner_new cs)"
proof -
  have z: "map_of (map (\<lambda>(n, _). (n, 0)) (cs_resources cs)) n = Some u \<Longrightarrow> u = 0" for n and u :: int
    by (induction "cs_resources cs" arbitrary: cs) (auto dest: map_of_SomeD)
  have "kernel_at 0 False k" using kernel_new_inv[OF assms(1)] assms(1)
    by (auto simp: kernel_at_def kernel_new_def split: if_splits)
  moreover have "rinv (statics_of cs) [] {} k (runner_new cs)"
    using assms(1,2,3) z
    by (auto simp: rinv_def rn_static_def runner_new_def statics_of_def kernel_new_def no_deps_def job_frame_def
        resources_ok_def split: if_splits)
  ultimately show ?thesis by (simp add: rat_def)
qed

lemma triple_schedule_arrivals:
  "triple (rat t st [] {}) schedule_arrivals (\<lambda>_. rat t st [] {}) (kat t)"
  unfolding schedule_arrivals_def
  by (rule triple_bind[OF triple_ask_forget] triple_seq triple_for triple_schedule_forget)+

lemma drive_outcome:
  "drive n mt s = Some rs \<Longrightarrow> rat t st [] {} s \<Longrightarrow> \<exists>t' \<ge> t. rc.outcome st t' rs"
proof (induction n arbitrary: s t)
  case 0
  then show ?case by simp
next
  case (Suc n)
  have stay: "\<exists>t' \<ge> t. rc.outcome st t' (ret () s)"
    using Suc.prems(2) by (auto simp: op_simps world_at_rat intro!: exI[of _ t] rc.world_outcome)
  show ?case
  proof (cases "run_until 1001 runner_env (Some mt) (Some 1000) s")
    case None
    with Suc.prems(1) stay show ?thesis by (auto split: option.splits if_splits)
  next
    case (Some rs1)
    obtain r1 s1 where rs1: "rs1 = (r1, s1)" by (cases rs1)
    obtain t1 where t1: "t \<le> t1" "rc.outcome st t1 (r1, s1)"
      using rc.run_until_outcome[OF Some Suc.prems(2)[folded world_at_rat]] rs1 by auto
    have go: "\<exists>t' \<ge> t. rc.outcome st t' rs"
      if "(case r1 of Inl e \<Rightarrow> Some (Inl e, s1) | Inr _ \<Rightarrow> drive n mt s1) = Some rs"
    proof (cases r1)
      case (Inl e)
      with that t1 show ?thesis by auto
    next
      case (Inr u)
      with that t1 Suc.IH[of s1 t1] show ?thesis
        by (auto simp: rc.outcome_def world_at_rat intro: order_trans)
    qed
    with stay Suc.prems(1) Some rs1 show ?thesis by (auto split: option.splits if_splits sum.splits)
  qed
qed


text \<open>One camera job that arrives after a millisecond, run for a picosecond: the first dispatch.\<close>

definition short_scenario :: scenario where
  "short_scenario = sample_scenario\<lparr>sc_classes := [sample_class\<lparr>wc_arrival :=
     \<lparr>ap_mode = TRACE, ap_period_ms = None, ap_count = None, ap_offset_ms = 0, ap_releases_ms = [1]\<rparr>\<rparr>]\<rparr>"

definition short_run :: "((py_error + unit) \<times> rworld) option" where
  "short_run = (case compile_scenario short_scenario None of Inl _ \<Rightarrow> None | Inr cs \<Rightarrow>
     (case kernel_new 1000 False of Inl _ \<Rightarrow> None | Inr k \<Rightarrow>
     (case schedule_arrivals (k, runner_new cs) of (Inr _, s) \<Rightarrow> drive 2 1 s | _ \<Rightarrow> None)))"

lemma short_scenario_ok: "scenario_ok short_scenario"
proof -
  have "validate_scenario short_scenario = Inr short_scenario" by code_simp
  then show ?thesis by (rule validate_scenario_ok)
qed

lemma short_run_value:
  "map_option (\<lambda>(r, s). (r, map_of (rn_resource_used (snd s)) ''compute'')) short_run = Some (Inr (), Some 0)"
  by code_simp


end
