(* ===== verification/Isa_Codec.thy ===== *)
theory Isa_Codec
  imports Py_Bits
begin

text \<open>
  The instruction set of the NPU, \<open>sim/engine/isa.py\<close>: opcodes, decoded instructions, the
  encoder to 32-bit words and the decoder. Operands are an insertion-ordered dict of Python
  integers. Shown: what encoding keeps of the operands, that every word fits in 32 bits, and
  on which words decoding loses nothing.
\<close>

section \<open>Opcodes and instructions\<close>

datatype opcode =
    MMUL | SOFTMAX | LAYERNORM | GELU | RELU | ROPE | SILU | MAXPOOL | AVGPOOL | DMA_LD | DMA_ST
  | KV_LOAD | KV_STORE | BARRIER | NOP | VADD | VMUL | VRED_MAX | VRED_SUM | VCONV | VRESID
  | DMA_LDD | DMA_STD | RMSNORM | VCONV_F16_I32

text \<open>The values \<open>0x00\<close> to \<open>0x18\<close>, in the order of declaration of the enum.\<close>

definition all_opcodes :: "opcode list" where
  "all_opcodes = [MMUL, SOFTMAX, LAYERNORM, GELU, RELU, ROPE, SILU, MAXPOOL, AVGPOOL, DMA_LD, DMA_ST,
     KV_LOAD, KV_STORE, BARRIER, NOP, VADD, VMUL, VRED_MAX, VRED_SUM, VCONV, VRESID,
     DMA_LDD, DMA_STD, RMSNORM, VCONV_F16_I32]"

fun op_value :: "opcode \<Rightarrow> int" where
  "op_value MMUL = 0x00" | "op_value SOFTMAX = 0x01" | "op_value LAYERNORM = 0x02"
| "op_value GELU = 0x03" | "op_value RELU = 0x04" | "op_value ROPE = 0x05" | "op_value SILU = 0x06"
| "op_value MAXPOOL = 0x07" | "op_value AVGPOOL = 0x08" | "op_value DMA_LD = 0x09"
| "op_value DMA_ST = 0x0A" | "op_value KV_LOAD = 0x0B" | "op_value KV_STORE = 0x0C"
| "op_value BARRIER = 0x0D" | "op_value NOP = 0x0E" | "op_value VADD = 0x0F" | "op_value VMUL = 0x10"
| "op_value VRED_MAX = 0x11" | "op_value VRED_SUM = 0x12" | "op_value VCONV = 0x13"
| "op_value VRESID = 0x14" | "op_value DMA_LDD = 0x15" | "op_value DMA_STD = 0x16"
| "op_value RMSNORM = 0x17" | "op_value VCONV_F16_I32 = 0x18"

text \<open>\<open>OpCode(v)\<close>\<close>

definition op_of_value :: "int \<Rightarrow> opcode result" where
  "op_of_value v = (case find (\<lambda>op. op_value op = v) all_opcodes of
     None \<Rightarrow> Inl (ValueError ''OpCode'') | Some op \<Rightarrow> Inr op)"

record instruction =
  in_opcode :: opcode
  in_operands :: "(string, int) dict"
  in_comment :: string
  in_raw :: int

definition instr :: "opcode \<Rightarrow> (string, int) dict \<Rightarrow> string \<Rightarrow> instruction" where
  "instr op ops c = \<lparr>in_opcode = op, in_operands = ops, in_comment = c, in_raw = 0\<rparr>"

section \<open>The encoder and the decoder\<close>

text \<open>The layout \<open>sa\<close>, \<open>da\<close> and three bits of a length that most instructions share.\<close>

definition encode_words :: "opcode \<Rightarrow> (string, int) dict \<Rightarrow> int list" where
  "encode_words opc ops = (let op = op_value opc in
     if opc = MMUL then
       let wa = dget ops ''wa'' 0; ia = dget ops ''ia'' 0; oa = dget ops ''oa'' 0; n = dget ops ''N'' 0
       in [push_bit 27 op OR push_bit 17 (wa AND 0x3FF) OR push_bit 7 (ia AND 0x3FF) OR (n AND 0x7F),
           push_bit 16 (oa AND 0xFFFF)]
     else if opc \<in> {DMA_LD, DMA_ST} then
       let dram = dget ops ''dram'' 0 AND 0xFFFF; sram = dget ops ''sram'' 0 AND 0xFFF;
           size = dget ops ''size'' 0 AND 0xFFF
       in [push_bit 27 op OR push_bit 15 (drop_bit 4 dram AND 0xFFF) OR push_bit 7 (drop_bit 4 sram AND 0xFF)
             OR (size AND 0x7F)]
     else if opc \<in> {MAXPOOL, AVGPOOL} then
       let sa = dget ops ''sa'' 0; da = dget ops ''da'' 0;
           h = dget ops ''H'' 0 AND 0xF; w = dget ops ''W'' 0 AND 0xF
       in [push_bit 27 op OR push_bit 15 (sa AND 0xFFF) OR push_bit 3 (da AND 0xFFF) OR push_bit 1 (h AND 0x3)
             OR (w AND 0x1)]
     else if opc \<in> {KV_LOAD, KV_STORE} then
       let tid = dget ops ''token_id'' 0 AND 0xFFF in [push_bit 27 op OR (tid AND 0xFFF)]
     else if opc = RMSNORM then
       let sa = dget ops ''sa'' 0; da = dget ops ''da'' 0; elements = dget ops ''elements'' 0 AND 0xFFF
       in [push_bit 27 op OR push_bit 15 (sa AND 0xFFF) OR push_bit 3 (da AND 0xFFF) OR (elements AND 0x7)]
     else if opc \<in> {BARRIER, NOP} then [push_bit 27 op]
     else
       let sa = dget ops ''sa'' 0; da = dget ops ''da'' 0; len = dget ops ''len'' 0 AND 0xFFF
       in [push_bit 27 op OR push_bit 15 (sa AND 0xFFF) OR push_bit 3 (da AND 0xFFF) OR (len AND 0x7)])"

text \<open>\<open>encode\<close> also stores the first word in the instruction.\<close>

definition encode :: "instruction \<Rightarrow> int list \<times> instruction" where
  "encode i = (let words = encode_words (in_opcode i) (in_operands i)
     in (words, i\<lparr>in_raw := (case words of [] \<Rightarrow> 0 | w # _ \<Rightarrow> w)\<rparr>))"

definition decode_operands :: "opcode \<Rightarrow> int \<Rightarrow> int list \<Rightarrow> (string, int) dict" where
  "decode_operands op w0 rest =
     (if op = MMUL then
        [(''wa'', drop_bit 17 w0 AND 0x3FF), (''ia'', drop_bit 7 w0 AND 0x3FF),
         (''oa'', case rest of [] \<Rightarrow> 0 | w1 # _ \<Rightarrow> drop_bit 16 w1 AND 0xFFFF), (''N'', w0 AND 0x7F)]
      else if op \<in> {DMA_LD, DMA_ST} then
        [(''dram'', push_bit 4 (drop_bit 15 w0 AND 0xFFF)), (''sram'', push_bit 4 (drop_bit 7 w0 AND 0xFF)),
         (''size'', w0 AND 0x7F)]
      else if op \<in> {KV_LOAD, KV_STORE} then [(''token_id'', w0 AND 0xFFF)]
      else if op \<in> {MAXPOOL, AVGPOOL} then
        [(''sa'', drop_bit 15 w0 AND 0xFFF), (''da'', drop_bit 3 w0 AND 0xFFF),
         (''H'', (drop_bit 1 w0 AND 0x3) + 1), (''W'', (w0 AND 0x1) + 1)]
      else if op \<in> {BARRIER, NOP} then []
      else if op = RMSNORM then
        [(''sa'', drop_bit 15 w0 AND 0xFFF), (''da'', drop_bit 3 w0 AND 0xFFF), (''elements'', w0 AND 0x7)]
      else
        [(''sa'', drop_bit 15 w0 AND 0xFFF), (''da'', drop_bit 3 w0 AND 0xFFF), (''len'', w0 AND 0x7)])"

definition decode :: "int list \<Rightarrow> instruction result" where
  "decode words = (case words of
     [] \<Rightarrow> Inl IndexError
   | w0 # rest \<Rightarrow> bind_res (op_of_value (drop_bit 27 w0 AND 0x1F)) (\<lambda>op.
       Inr (instr op (decode_operands op w0 rest) [])))"

section \<open>Opcode values\<close>

lemma op_of_value_op [simp]: "op_of_value (op_value op) = Inr op"
  by (cases op) (simp_all add: op_of_value_def all_opcodes_def)

lemma op_of_value_Inr: "op_of_value v = Inr op \<Longrightarrow> op_value op = v"
  by (auto simp: op_of_value_def find_Some_iff split: option.splits)

lemma op_value_field [simp]: "take_bit 5 (op_value op) = op_value op"
  by (cases op) simp_all

lemma op_value_bounds: "0 \<le> op_value op \<and> op_value op \<le> 0x18"
  by (cases op) simp_all

section \<open>What encoding keeps\<close>

text \<open>The operands as they come back: each reduced to the bits its field has.\<close>

definition kept_operands :: "opcode \<Rightarrow> (string, int) dict \<Rightarrow> (string, int) dict" where
  "kept_operands op ops =
     (if op = MMUL then
        [(''wa'', dget ops ''wa'' 0 mod 2 ^ 10), (''ia'', dget ops ''ia'' 0 mod 2 ^ 10),
         (''oa'', dget ops ''oa'' 0 mod 2 ^ 16), (''N'', dget ops ''N'' 0 mod 2 ^ 7)]
      else if op \<in> {DMA_LD, DMA_ST} then
        [(''dram'', dget ops ''dram'' 0 mod 2 ^ 16 div 16 * 16), (''sram'', dget ops ''sram'' 0 mod 2 ^ 12 div 16 * 16),
         (''size'', dget ops ''size'' 0 mod 2 ^ 7)]
      else if op \<in> {KV_LOAD, KV_STORE} then [(''token_id'', dget ops ''token_id'' 0 mod 2 ^ 12)]
      else if op \<in> {MAXPOOL, AVGPOOL} then
        [(''sa'', dget ops ''sa'' 0 mod 2 ^ 12), (''da'', dget ops ''da'' 0 mod 2 ^ 12),
         (''H'', dget ops ''H'' 0 mod 4 + 1), (''W'', dget ops ''W'' 0 mod 2 + 1)]
      else if op \<in> {BARRIER, NOP} then []
      else if op = RMSNORM then
        [(''sa'', dget ops ''sa'' 0 mod 2 ^ 12), (''da'', dget ops ''da'' 0 mod 2 ^ 12),
         (''elements'', dget ops ''elements'' 0 mod 2 ^ 3)]
      else
        [(''sa'', dget ops ''sa'' 0 mod 2 ^ 12), (''da'', dget ops ''da'' 0 mod 2 ^ 12),
         (''len'', dget ops ''len'' 0 mod 2 ^ 3)])"

lemmas codec_simps = mask_lits field_simps' push_bound

lemma encode_words_cons: "\<exists>w rest. encode_words op ops = w # rest"
  by (simp add: encode_words_def Let_def)

lemma encode_opcode:
  "encode_words op ops = w # rest \<Longrightarrow> take_bit 5 (drop_bit 27 w) = op_value op"
  by (auto simp: encode_words_def Let_def codec_simps simp del: One_nat_def op_value.simps split: if_splits)

lemma mod_lits:
  "x mod 4 = take_bit 2 x" "x mod 8 = take_bit 3 x" "x mod 128 = take_bit 7 x" "x mod 1024 = take_bit 10 x"
  "x mod 4096 = take_bit 12 x" "x mod 65536 = take_bit 16 x" "x mod 2 = take_bit 1 x"
  "x div 16 * 16 = push_bit 4 (drop_bit 4 x)" for x :: int
  by (simp_all add: take_bit_eq_mod push_bit_eq_mult drop_bit_eq_div)

lemma addr_field:
  "take_bit 12 (drop_bit 4 (take_bit 16 x)) = drop_bit 4 (take_bit 16 x)"
  "take_bit 8 (drop_bit 4 (take_bit 12 x)) = drop_bit 4 (take_bit 12 x)"
  "take_bit 12 (drop_bit 15 (push_bit 7 (drop_bit 4 (take_bit 12 x)))) = 0" for x :: int
  by (simp_all add: take_bit_drop_bit) (rule bit_eqI, auto simp: bit_simps)

lemma encode_operands:
  "encode_words op ops = w # rest \<Longrightarrow> decode_operands op w rest = kept_operands op ops"
  by (auto simp: encode_words_def decode_operands_def kept_operands_def Let_def codec_simps
     mod_lits addr_field simp del: One_nat_def op_value.simps split: if_splits)

lemma encode_fits:
  "w \<in> set (encode_words op ops) \<Longrightarrow> 0 \<le> w \<and> w < 2 ^ 32"
proof -
  have "take_bit 32 (push_bit 27 (op_value op)) = push_bit 27 (op_value op)" for op
    using push_bound[of 27 5 32 "op_value op"] by simp
  then show "w \<in> set (encode_words op ops) \<Longrightarrow> 0 \<le> w \<and> w < 2 ^ 32"
    by (intro take_bit_bound) (auto simp: encode_words_def Let_def codec_simps simp del: One_nat_def op_value.simps split: if_splits)
qed


section \<open>Which operands and words survive\<close>

text \<open>Operands in their canonical order, each within its field.\<close>

definition operands_fit :: "opcode \<Rightarrow> (string, int) dict \<Rightarrow> bool" where
  "operands_fit op ops \<longleftrightarrow>
     (if op = MMUL then (\<exists>wa ia oa n. ops = [(''wa'', wa), (''ia'', ia), (''oa'', oa), (''N'', n)] \<and>
        wa \<in> {0..<2 ^ 10} \<and> ia \<in> {0..<2 ^ 10} \<and> oa \<in> {0..<2 ^ 16} \<and> n \<in> {0..<2 ^ 7})
      else if op \<in> {DMA_LD, DMA_ST} then
        (\<exists>d r n. ops = [(''dram'', d), (''sram'', r), (''size'', n)] \<and> d \<in> {0..<2 ^ 16} \<and> 16 dvd d \<and>
           r \<in> {0..<2 ^ 12} \<and> 16 dvd r \<and> n \<in> {0..<2 ^ 7})
      else if op \<in> {KV_LOAD, KV_STORE} then (\<exists>t. ops = [(''token_id'', t)] \<and> t \<in> {0..<2 ^ 12})
      else if op \<in> {MAXPOOL, AVGPOOL} then False
      else if op \<in> {BARRIER, NOP} then ops = []
      else (\<exists>sa da n. ops = [(''sa'', sa), (''da'', da), (if op = RMSNORM then ''elements'' else ''len'', n)] \<and>
         sa \<in> {0..<2 ^ 12} \<and> da \<in> {0..<2 ^ 12} \<and> n \<in> {0..<2 ^ 3}))"

lemma kept_fit: "operands_fit op ops \<Longrightarrow> kept_operands op ops = ops"
  by (auto simp: operands_fit_def kept_operands_def dvd_div_mult_self split: if_splits)

lemma decode_encode_kept:
  "decode (fst (encode i)) = Inr (instr (in_opcode i) (kept_operands (in_opcode i) (in_operands i)) [])"
proof -
  obtain w rest where w: "encode_words (in_opcode i) (in_operands i) = w # rest"
    using encode_words_cons by blast
  then show ?thesis
    by (simp add: encode_def decode_def Let_def mask_lits encode_opcode[OF w] encode_operands[OF w])
qed

text \<open>C14. Encoding and decoding an instruction: every word fits in 32 bits, decoding returns the
  opcode with each operand reduced to its field, and operands that fit come back unchanged. The
  pools are the exception: the height and width come back one larger than what was encoded,
  so no pool instruction survives.\<close>

theorem decode_encode:
  "decode (fst (encode i)) = Inr (instr (in_opcode i) (kept_operands (in_opcode i) (in_operands i)) []) \<and>
   (\<forall>w \<in> set (fst (encode i)). 0 \<le> w \<and> w < 2 ^ 32) \<and>
   (operands_fit (in_opcode i) (in_operands i) \<longrightarrow>
      decode (fst (encode i)) = Inr (instr (in_opcode i) (in_operands i) [])) \<and>
   (in_opcode i \<in> {MAXPOOL, AVGPOOL} \<longrightarrow>
      dget (kept_operands (in_opcode i) (in_operands i)) ''H'' 0 = dget (in_operands i) ''H'' 0 mod 4 + 1)"
proof -
  have "\<forall>w \<in> set (fst (encode i)). 0 \<le> w \<and> w < 2 ^ 32"
    using encode_fits by (simp add: encode_def Let_def)
  moreover have "in_opcode i \<in> {MAXPOOL, AVGPOOL} \<longrightarrow>
      dget (kept_operands (in_opcode i) (in_operands i)) ''H'' 0 = dget (in_operands i) ''H'' 0 mod 4 + 1"
    by (auto simp: kept_operands_def)
  ultimately show ?thesis using kept_fit decode_encode_kept by auto
qed

lemma decode_encode_witness:
  "decode (fst (encode (instr VADD [(''sa'', 16), (''da'', 32), (''len'', 4)] []))) =
     Inr (instr VADD [(''sa'', 16), (''da'', 32), (''len'', 4)] [])"
  using decode_encode[of "instr VADD [(''sa'', 16), (''da'', 32), (''len'', 4)] []"]
  by (simp add: operands_fit_def instr_def kept_operands_def)

text \<open>The layouts that use all 32 bits.\<close>

definition full_layout :: "opcode \<Rightarrow> bool" where
  "full_layout op \<longleftrightarrow> op \<notin> {MMUL, KV_LOAD, KV_STORE, MAXPOOL, AVGPOOL, BARRIER, NOP}"

lemma join_fields:
  fixes w :: int
  assumes "0 \<le> w" and "w < 2 ^ 32" and "(b::nat) \<le> a" and "a \<le> c" and "c \<le> 32"
  shows "push_bit c (take_bit (32 - c) (drop_bit c w)) OR push_bit a (take_bit (c - a) (drop_bit a w)) OR
    push_bit b (take_bit (a - b) (drop_bit b w)) OR take_bit b w = w"
proof (rule bit_eqI)
  fix n
  have "bit w n \<Longrightarrow> n < 32"
    using take_bit_id[OF assms(1,2)] by (metis bit_take_bit_iff)
  then show "bit (push_bit c (take_bit (32 - c) (drop_bit c w)) OR push_bit a (take_bit (c - a) (drop_bit a w)) OR
    push_bit b (take_bit (a - b) (drop_bit b w)) OR take_bit b w) n = bit w n"
    using assms(3-5) by (cases "n < b"; cases "n < a"; cases "n < c") (auto simp: bit_simps)
qed

lemma addr_field_back:
  "take_bit 12 (drop_bit 4 (take_bit 16 (push_bit 4 (take_bit 12 x)))) = take_bit 12 x"
  "take_bit 8 (drop_bit 4 (take_bit 12 (push_bit 4 (take_bit 8 x)))) = take_bit 8 x" for x :: int
  by (rule bit_eqI, auto simp: bit_simps)+

text \<open>Conversely, on the instructions whose layout uses every bit (the activations, the vector
  unit, DMA), decoding a 32-bit word and encoding the result gives the word back: no two words
  mean the same instruction.\<close>

theorem encode_decode:
  assumes "0 \<le> w" and "w < 2 ^ 32" and "decode [w] = Inr i" and "full_layout (in_opcode i)"
  shows "fst (encode i) = [w]"
proof -
  have op: "op_value (in_opcode i) = take_bit 5 (drop_bit 27 w)"
    and ops: "in_operands i = decode_operands (in_opcode i) w []"
    using assms(3) by (auto simp: decode_def bind_res_Inr_iff instr_def mask_lits dest: op_of_value_Inr)
  note j = join_fields[OF assms(1,2)]
  show ?thesis
    using assms(4) j[of 3 15 27] j[of 7 15 27]
    by (auto simp: encode_def encode_words_def ops decode_operands_def Let_def mask_lits full_layout_def op
        min_def addr_field_back simp del: op_value.simps field_of_or low_of_or)
qed

lemma encode_decode_witness: "fst (encode (instr VADD [(''sa'', 2), (''da'', 3), (''len'', 1)] [])) = [2013331481]"
proof -
  have "decode [2013331481] = Inr (instr VADD [(''sa'', 2), (''da'', 3), (''len'', 1)] [])" by code_simp
  from encode_decode[OF _ _ this] show ?thesis by (simp add: full_layout_def instr_def)
qed

end
