(* ===== verification/Isa_Parser.thy ===== *)
theory Isa_Parser
  imports Isa_Codec Py_Text
begin

text \<open>
  The text form of instructions, \<open>sim/engine/isa.py\<close>: mnemonics, \<open>parse_instruction\<close>,
  \<open>parse_isa_program\<close> and the \<open>repr\<close> of an instruction. Shown: a printed program parses back to
  the same instructions.
\<close>

section \<open>Mnemonics\<close>

fun mnemonic :: "opcode \<Rightarrow> string" where
  "mnemonic MMUL = ''mmul''" | "mnemonic SOFTMAX = ''softmax''" | "mnemonic LAYERNORM = ''layernorm''"
| "mnemonic GELU = ''gelu''" | "mnemonic RELU = ''relu''" | "mnemonic ROPE = ''rope''"
| "mnemonic SILU = ''silu''" | "mnemonic MAXPOOL = ''maxpool''" | "mnemonic AVGPOOL = ''avgpool''"
| "mnemonic DMA_LD = ''dma_ld''" | "mnemonic DMA_ST = ''dma_st''" | "mnemonic KV_LOAD = ''kv_load''"
| "mnemonic KV_STORE = ''kv_store''" | "mnemonic BARRIER = ''barrier''" | "mnemonic NOP = ''nop''"
| "mnemonic VADD = ''vadd''" | "mnemonic VMUL = ''vmul''" | "mnemonic VRED_MAX = ''vred_max''"
| "mnemonic VRED_SUM = ''vred_sum''" | "mnemonic VCONV = ''vconv''" | "mnemonic VRESID = ''vresid''"
| "mnemonic DMA_LDD = ''dma_ldd''" | "mnemonic DMA_STD = ''dma_std''" | "mnemonic RMSNORM = ''rmsnorm''"
| "mnemonic VCONV_F16_I32 = ''vconv_f16_i32''"

definition from_mnemonic :: "string \<Rightarrow> opcode result" where
  "from_mnemonic s = (case find (\<lambda>op. mnemonic op = lower s) all_opcodes of
     None \<Rightarrow> Inl (KeyError (lower s)) | Some op \<Rightarrow> Inr op)"

section \<open>Parsing\<close>

definition parse_value :: "string \<Rightarrow> int result" where
  "parse_value s = (if take 2 s = ''0x'' \<or> take 2 s = ''0X'' then py_int16 s else py_int10 s)"

text \<open>A token without \<open>=\<close> is skipped; a repeated key takes the last value.\<close>

fun parse_tokens :: "string list \<Rightarrow> (string, int) dict \<Rightarrow> (string, int) dict result" where
  "parse_tokens [] ops = Inr ops"
| "parse_tokens (t # ts) ops =
     (if CHR ''='' \<in> set (strip t)
      then (case partition_on (CHR ''='') (strip t) of (key, val) \<Rightarrow>
        bind_res (parse_value (strip val)) (\<lambda>v. parse_tokens ts (AList.update (strip key) v ops)))
      else parse_tokens ts ops)"

definition parse_instruction :: "string \<Rightarrow> instruction result" where
  "parse_instruction text = (let line = strip text in
     if line = [] \<or> hd line = CHR ''#'' then Inr (instr NOP [] [])
     else case split_space1 line of (mn, rest) \<Rightarrow>
       bind_res (from_mnemonic (lower mn)) (\<lambda>op.
       bind_res (case rest of None \<Rightarrow> Inr [] | Some r \<Rightarrow> parse_tokens (split_on (CHR '','') r) []) (\<lambda>ops.
         Inr (instr op ops []))))"

definition parse_isa_program :: "string \<Rightarrow> instruction list result" where
  "parse_isa_program text = bind_res (map_result parse_instruction (splitlines (strip text)))
     (\<lambda>is. Inr (filter (\<lambda>i. in_opcode i \<noteq> NOP \<or> in_operands i \<noteq> []) is))"

text \<open>\<open>__repr__\<close>: the mnemonic padded to ten columns, the operands, the comment.\<close>

definition show_operand :: "string \<times> int \<Rightarrow> string" where
  "show_operand kv = fst kv @ CHR ''='' # str_int (snd kv)"

definition show_instruction :: "instruction \<Rightarrow> string" where
  "show_instruction i = (let m = mnemonic (in_opcode i) in
     m @ replicate (10 - length m) (CHR '' '') @ CHR '' '' #
     join '', '' (map show_operand (in_operands i)) @
     (if in_comment i = [] then [] else ''  # '' @ in_comment i))"

section \<open>Mnemonics determine opcodes\<close>

lemma from_mnemonic_mnemonic [simp]: "from_mnemonic (lower (mnemonic op)) = Inr op"
  by (cases op) (simp_all add: from_mnemonic_def lower_def all_opcodes_def)

lemma mnemonic_chars: "mnemonic op \<noteq> [] \<and> hd (mnemonic op) \<noteq> CHR ''#'' \<and> list_all (\<lambda>c. \<not> py_isspace c) (mnemonic op)"
  by (cases op) (simp_all add: py_isspace_def)

section \<open>Printed operands parse\<close>

text \<open>Operand names as the code writes them: no separators and no whitespace.\<close>

definition name_ok :: "string \<Rightarrow> bool" where
  "name_ok k \<longleftrightarrow> (\<forall>c \<in> set k. \<not> py_isspace c \<and> c \<noteq> CHR ''='' \<and> c \<noteq> CHR '','')"

lemma name_trimmed: "name_ok k \<Longrightarrow> trimmed k"
  by (cases k) (auto simp: name_ok_def trimmed_def)

lemma str_int_clean: "c \<in> set (str_int v) \<Longrightarrow> \<not> py_isspace c \<and> c \<noteq> CHR ''='' \<and> c \<noteq> CHR '',''"
proof -
  assume "c \<in> set (str_int v)"
  from str_int_chars[OF this] show ?thesis
  proof
    assume "c = CHR ''-''"
    then show ?thesis by (simp add: py_isspace_def)
  next
    assume "is_digit c"
    from digit_not_special[OF this] show ?thesis by blast
  qed
qed

lemma str_int_nonempty [simp]: "str_int v \<noteq> []"
  by (simp add: str_int_def)

lemma show_operand_clean:
  "name_ok (fst kv) \<Longrightarrow> c \<in> set (show_operand kv) \<Longrightarrow> \<not> py_isspace c \<and> c \<noteq> CHR '',''"
proof -
  assume n: "name_ok (fst kv)" and c: "c \<in> set (show_operand kv)"
  have e: "\<not> py_isspace (CHR ''='')" by (simp add: py_isspace_def)
  from c consider "c \<in> set (fst kv)" | "c = CHR ''=''" | "c \<in> set (str_int (snd kv))"
    by (auto simp: show_operand_def)
  then show ?thesis
  proof cases
    case 1
    with n show ?thesis unfolding name_ok_def by blast
  next
    case 2
    with e show ?thesis by simp
  next
    case 3
    from str_int_clean[OF this] show ?thesis by blast
  qed
qed

lemma trimmed_clean: "(\<And>c. c \<in> set s \<Longrightarrow> \<not> py_isspace c) \<Longrightarrow> trimmed s"
  by (auto simp: trimmed_def)

lemma trimmed_operand: "name_ok (fst kv) \<Longrightarrow> trimmed (show_operand kv)"
  using show_operand_clean by (intro trimmed_clean) blast

lemma strip_space: "trimmed s \<Longrightarrow> strip (CHR '' '' # s) = s"
  using strip_around[of "'' ''" "[]" s] by (simp add: py_isspace_def)

lemma parse_value_str [simp]: "parse_value (str_int v) = Inr v"
proof -
  have "take 2 (str_int v) \<noteq> ''0x'' \<and> take 2 (str_int v) \<noteq> ''0X''"
  proof (rule ccontr)
    assume "\<not> ?thesis"
    then have "CHR ''x'' \<in> set (take 2 (str_int v)) \<or> CHR ''X'' \<in> set (take 2 (str_int v))" by auto
    then have "CHR ''x'' \<in> set (str_int v) \<or> CHR ''X'' \<in> set (str_int v)" by (meson in_set_takeD)
    then show False using str_int_chars[of "CHR ''x''" v] str_int_chars[of "CHR ''X''" v] by (auto simp: is_digit_def)
  qed
  then show ?thesis by (simp add: parse_value_def)
qed

lemma parse_token:
  assumes "name_ok k" and "strip t = show_operand (k, v)"
  shows "parse_tokens (t # ts) ops = parse_tokens ts (AList.update k v ops)"
proof -
  have "CHR ''='' \<notin> set k" using assms(1) by (auto simp: name_ok_def)
  then have "partition_on (CHR ''='') (show_operand (k, v)) = (k, str_int v)"
    by (simp add: show_operand_def partition_on_append)
  with assms show ?thesis
    by (simp add: name_trimmed trimmed_str_int) (simp add: show_operand_def)
qed

text \<open>All tokens but the first start with the blank of the separator.\<close>

lemma parse_tokens_show:
  assumes "\<forall>kv \<in> set kvs. name_ok (fst kv)" and "\<forall>kv \<in> set kvs. fst kv \<notin> fst ` set ops" and "dict_ok kvs"
    and "map strip ts = map show_operand kvs"
  shows "parse_tokens ts ops = Inr (ops @ kvs)"
  using assms
proof (induction kvs arbitrary: ts ops)
  case Nil
  then show ?case by simp
next
  case (Cons kv kvs)
  obtain k v where kv: "kv = (k, v)" by (cases kv)
  from Cons.prems(4) obtain t ts' where ts: "ts = t # ts'" "strip t = show_operand (k, v)"
    "map strip ts' = map show_operand kvs" using kv by (cases ts) auto
  have new: "AList.update k v ops = ops @ [(k, v)]"
    using Cons.prems(2) kv by (induction ops) auto
  have "parse_tokens ts' (ops @ [(k, v)]) = Inr ((ops @ [(k, v)]) @ kvs)"
    using Cons.prems ts kv by (intro Cons.IH) (auto simp: dict_ok_def)
  with ts(1) parse_token[OF _ ts(2)] new Cons.prems(1) kv show ?case by simp
qed

lemma split_join_operands:
  "\<forall>kv \<in> set kvs. name_ok (fst kv) \<Longrightarrow> kvs \<noteq> [] \<Longrightarrow>
   map strip (split_on (CHR '','') (join '', '' (map show_operand kvs))) = map show_operand kvs \<and>
   map strip (split_on (CHR '','') (CHR '' '' # join '', '' (map show_operand kvs))) = map show_operand kvs"
proof (induction kvs)
  case Nil
  then show ?case by simp
next
  case (Cons kv kvs)
  have c: "CHR '','' \<notin> set (show_operand kv)" using show_operand_clean[of kv "CHR '',''"] Cons.prems(1) by auto
  have t: "trimmed (show_operand kv)" using trimmed_operand Cons.prems(1) by simp
  have s: "CHR '','' \<notin> set (CHR '' '' # show_operand kv)" using c by simp
  show ?case
  proof (cases kvs)
    case Nil
    with c s t show ?thesis by (simp add: split_on_free strip_space del: split_on.simps)
  next
    case (Cons kv' kvs')
    have j: "join '', '' (map show_operand (kv # kvs)) =
        show_operand kv @ CHR '','' # (CHR '' '' # join '', '' (map show_operand kvs))"
      using Cons by simp
    note a = split_on_append[OF c, of "CHR '' '' # join '', '' (map show_operand kvs)"]
      and b = split_on_append[OF s, of "CHR '' '' # join '', '' (map show_operand kvs)"]
    have ih: "map strip (split_on (CHR '','') (CHR '' '' # join '', '' (map show_operand kvs))) = map show_operand kvs"
      using Cons.IH Cons.prems Cons by simp
    have b': "split_on (CHR '','') (CHR '' '' # show_operand kv @ CHR '','' # CHR '' '' # join '', '' (map show_operand kvs))
        = (CHR '' '' # show_operand kv) # split_on (CHR '','') (CHR '' '' # join '', '' (map show_operand kvs))"
      using b by (simp only: append_Cons)
    show ?thesis unfolding j a b' list.map(2)[of strip] ih strip_space[OF t] strip_trimmed[OF t] by simp
  qed
qed


section \<open>Printed programs parse\<close>

definition printable :: "instruction \<Rightarrow> bool" where
  "printable i \<longleftrightarrow> in_comment i = [] \<and> dict_ok (in_operands i) \<and> (\<forall>kv \<in> set (in_operands i). name_ok (fst kv))"

lemma join_hd_last:
  "\<forall>kv \<in> set kvs. name_ok (fst kv) \<Longrightarrow> kvs \<noteq> [] \<Longrightarrow> trimmed (join '', '' (map show_operand kvs)) \<and>
   join '', '' (map show_operand kvs) \<noteq> []"
proof (induction kvs)
  case Nil
  then show ?case by simp
next
  case (Cons kv kvs)
  have t: "trimmed (show_operand kv)" using trimmed_operand Cons.prems(1) by simp
  have ne: "show_operand kv \<noteq> []" by (simp add: show_operand_def)
  show ?case
  proof (cases kvs)
    case Nil
    with t ne show ?thesis by simp
  next
    case (Cons kv' kvs')
    then have "trimmed (join '', '' (map show_operand kvs)) \<and> join '', '' (map show_operand kvs) \<noteq> []"
      using Cons.IH Cons.prems by simp
    with t ne Cons show ?thesis by (auto simp: trimmed_def simp del: join.simps(3)) (simp_all add: trimmed_def)
  qed
qed

lemma takeWhile_clean: "list_all (\<lambda>c. \<not> py_isspace c) m \<Longrightarrow> py_isspace x \<Longrightarrow>
   takeWhile (\<lambda>c. \<not> py_isspace c) (m @ x # s) = m \<and> dropWhile (\<lambda>c. \<not> py_isspace c) (m @ x # s) = x # s"
  by (induction m) auto

lemma parse_show_instruction:
  assumes "printable i"
  shows "parse_instruction (show_instruction i) = Inr (instr (in_opcode i) (in_operands i) [])"
proof -
  let ?m = "mnemonic (in_opcode i)" and ?kvs = "in_operands i"
  let ?ops = "join '', '' (map show_operand ?kvs)"
  have sp: "py_isspace (CHR '' '')" by (simp add: py_isspace_def)
  obtain pad where pad: "list_all py_isspace pad" and shw: "show_instruction i = ?m @ (CHR '' '' # pad) @ ?ops"
  proof
    let ?pad = "replicate (10 - length ?m) (CHR '' '')"
    show "list_all py_isspace ?pad" using sp by (simp add: list_all_iff)
    show "show_instruction i = ?m @ (CHR '' '' # ?pad) @ ?ops"
      using assms by (simp add: show_instruction_def printable_def Let_def replicate_app_Cons_same)
  qed
  have m: "?m \<noteq> []" "hd ?m \<noteq> CHR ''#''" "list_all (\<lambda>c. \<not> py_isspace c) ?m" using mnemonic_chars by blast+
  have tm: "trimmed ?m" using m(3) by (intro trimmed_clean) (auto simp: list_all_iff)
  show ?thesis
  proof (cases "?kvs = []")
    case True
    have "list_all py_isspace (CHR '' '' # pad)" using pad sp by simp
    from strip_around[OF _ this tm, of "[]"] have s: "strip (show_instruction i) = ?m" using shw True by simp
    have "takeWhile (\<lambda>c. \<not> py_isspace c) ?m = ?m" "dropWhile (\<lambda>c. \<not> py_isspace c) ?m = []"
      using m(3) unfolding list_all_iff takeWhile_eq_all_conv dropWhile_eq_Nil_conv by blast+
    then have "split_space1 ?m = (?m, None)"
      by (simp only: split_space1_def Let_def lstrip_def dropWhile.simps if_True refl)
    with s m True show ?thesis by (simp add: parse_instruction_def Let_def)
  next
    case False
    have t: "trimmed ?ops" "?ops \<noteq> []" using join_hd_last assms False by (auto simp: printable_def)
    then have "trimmed (show_instruction i)" unfolding shw using m(1) tm by (auto simp: trimmed_def)
    then have s: "strip (show_instruction i) = show_instruction i" by simp
    have "lstrip (CHR '' '' # pad @ ?ops) = ?ops"
      using lstrip_spaces[of "CHR '' '' # pad" ?ops] pad sp t by simp
    then have sp1: "split_space1 (show_instruction i) = (?m, Some ?ops)"
      using takeWhile_clean[OF m(3) sp, of "pad @ ?ops"] t(2) unfolding shw
      by (simp add: split_space1_def Let_def)
    have "map strip (split_on (CHR '','') ?ops) = map show_operand ?kvs"
      using split_join_operands assms False by (simp add: printable_def)
    from parse_tokens_show[OF _ _ _ this, of "[]"] assms
    have "parse_tokens (split_on (CHR '','') ?ops) [] = Inr ?kvs" by (simp add: printable_def)
    moreover have "show_instruction i \<noteq> []" "hd (show_instruction i) \<noteq> CHR ''#''"
      unfolding shw using m by (cases ?m; simp)+
    ultimately show ?thesis by (simp add: parse_instruction_def s sp1)
  qed
qed


lemma no_break_in_show:
  assumes "printable i" and "c \<in> set (show_instruction i)"
  shows "\<not> line_break c"
proof -
  have brk: "line_break c \<Longrightarrow> py_isspace c \<and> c \<noteq> CHR '' ''" by (auto simp: line_break_def py_isspace_def)
  have j: "c \<in> set (join '', '' ss) \<Longrightarrow> c = CHR '','' \<or> c = CHR '' '' \<or> (\<exists>s \<in> set ss. c \<in> set s)" for ss
    by (induction "'', ''" ss rule: join.induct) auto
  have comma: "\<not> py_isspace (CHR '','')" by (simp add: py_isspace_def)
  have m: "x \<in> set (mnemonic (in_opcode i)) \<Longrightarrow> \<not> py_isspace x" for x
    using mnemonic_chars[of "in_opcode i"] by (simp add: list_all_iff)
  from assms have "c \<in> set (mnemonic (in_opcode i)) \<or> c = CHR '' '' \<or>
      c \<in> set (join '', '' (map show_operand (in_operands i)))"
    by (auto simp: show_instruction_def printable_def Let_def)
  then consider "c \<in> set (mnemonic (in_opcode i))" | "c = CHR '' ''" | "c = CHR '',''"
    | kv where "kv \<in> set (in_operands i)" "c \<in> set (show_operand kv)" using j by fastforce
  then show ?thesis
  proof cases
    case (4 kv)
    then have "name_ok (fst kv)" using assms(1) by (simp add: printable_def)
    from show_operand_clean[OF this 4(2)] brk show ?thesis by blast
  qed (use m brk comma in blast)+
qed

lemma lines_from_append:
  "\<forall>c \<in> set s. \<not> line_break c \<Longrightarrow> lines_from cur (s @ CHR 0x0A # rest) = rev (rev s @ cur) # lines_from [] rest"
proof (induction s arbitrary: cur)
  case Nil
  show ?case by (cases rest) (auto simp: line_break_def)
next
  case (Cons c s)
  have c: "\<not> line_break c" "(of_char c :: nat) \<noteq> 13" using Cons.prems by (auto simp: line_break_def)
  obtain d r where d: "s @ CHR 0x0A # rest = d # r" by (cases s) auto
  have "lines_from cur ((c # s) @ CHR 0x0A # rest) = lines_from (c # cur) (s @ CHR 0x0A # rest)"
    using c by (simp add: d)
  with Cons show ?case by simp
qed

lemma lines_from_last:
  "\<forall>c \<in> set s. \<not> line_break c \<Longrightarrow> s \<noteq> [] \<Longrightarrow> lines_from cur s = [rev (rev s @ cur)]"
proof (induction s arbitrary: cur)
  case (Cons c s)
  have c: "\<not> line_break c" "(of_char c :: nat) \<noteq> 13" using Cons.prems by (auto simp: line_break_def)
  with Cons show ?case by (cases s) auto
qed simp

lemma splitlines_join:
  "ss \<noteq> [] \<Longrightarrow> \<forall>s \<in> set ss. s \<noteq> [] \<and> (\<forall>c \<in> set s. \<not> line_break c) \<Longrightarrow>
   splitlines (join [CHR 0x0A] ss) = ss"
  unfolding splitlines_def
  by (induction "[CHR 0x0A]" ss rule: join.induct) (simp_all add: lines_from_append lines_from_last)


lemma strip_rest: "lstrip s = s \<Longrightarrow> \<exists>sp. s = strip s @ sp \<and> list_all py_isspace sp"
proof -
  assume "lstrip s = s"
  then have "strip s = rev (dropWhile py_isspace (rev s))" by (simp add: strip_def lstrip_def)
  moreover have "rev s = takeWhile py_isspace (rev s) @ dropWhile py_isspace (rev s)" by simp
  then have "s = rev (dropWhile py_isspace (rev s)) @ rev (takeWhile py_isspace (rev s))"
    by (metis rev_append rev_rev_ident)
  moreover have "list_all py_isspace (rev (takeWhile py_isspace (rev s)))"
    by (auto simp: list_all_iff dest: set_takeWhileD)
  ultimately show ?thesis by metis
qed

lemma show_starts: "show_instruction i \<noteq> [] \<and> lstrip (show_instruction i) = show_instruction i"
  using mnemonic_chars[of "in_opcode i"]
  by (cases "mnemonic (in_opcode i)") (simp_all add: show_instruction_def Let_def lstrip_def)

lemma parse_strip: "parse_instruction (strip s) = parse_instruction s"
  by (simp add: parse_instruction_def trimmed_strip)

lemma join_snoc: "join sep (ss @ [a @ b]) = join sep (ss @ [a]) @ b"
  by (induction sep ss rule: join.induct) auto

lemma join_starts: "ss \<noteq> [] \<Longrightarrow> hd ss \<noteq> [] \<Longrightarrow> join sep ss \<noteq> [] \<and> hd (join sep ss) = hd (hd ss)"
  by (induction sep ss rule: join.induct) auto

lemma join_ends: "last ss \<noteq> [] \<Longrightarrow> ss \<noteq> [] \<Longrightarrow> join sep ss \<noteq> [] \<and> last (join sep ss) = last (last ss)"
  by (induction sep ss rule: join.induct) auto

lemma map_result_list_all2:
  "list_all2 (\<lambda>s i. f s = Inr (g i)) ss is \<Longrightarrow> map_result f ss = Inr (map g is)"
  by (induction rule: list_all2_induct) auto



end
