(* ===== verification/Golden_Mem.thy ===== *)
theory Golden_Mem
  imports Py_Bits
begin

text \<open>
  The byte memories of the golden executor, \<open>sim/golden_executor.py\<close>: the class \<open>SRAM\<close> with
  its typed reads and writes, and the assignment of numpy slices they rest on. A memory is a
  function from addresses to bytes with a fixed size; numpy's \<open>uint8\<close> arrays are lists of
  bytes, \<open>int32\<close> and \<open>float16\<close> arrays lists of 32- and 16-bit words (a float by its bits).
  Regions are named intervals; the md5 of a region is a parameter.
\<close>

type_synonym byte = "8 word"
type_synonym memory = "nat \<Rightarrow> byte"

section \<open>Slices of a numpy array\<close>

text \<open>A slice bound: negative ones count from the end, all are clipped to the array.\<close>

definition clip_index :: "nat \<Rightarrow> int \<Rightarrow> nat" where
  "clip_index sz i = (if i < 0 then nat (max 0 (i + int sz)) else min (nat i) sz)"

definition slice :: "nat \<Rightarrow> memory \<Rightarrow> int \<Rightarrow> int \<Rightarrow> byte list" where
  "slice sz m a b = map m [clip_index sz a..<clip_index sz b]"

text \<open>\<open>m[a:b] = xs\<close>: one element is broadcast, any other length mismatch raises.\<close>

definition store_at :: "nat \<Rightarrow> byte list \<Rightarrow> memory \<Rightarrow> memory" where
  "store_at lo xs m = (\<lambda>i. if lo \<le> i \<and> i < lo + length xs then xs ! (i - lo) else m i)"

definition assign_slice :: "nat \<Rightarrow> int \<Rightarrow> int \<Rightarrow> byte list \<Rightarrow> (memory, unit) op" where
  "assign_slice sz a b xs m =
     (let lo = clip_index sz a; n = clip_index sz b - lo
      in if length xs = n then (Inr (), store_at lo xs m)
         else if length xs = 1 then (Inr (), store_at lo (replicate n (hd xs)) m)
         else (Inl (ValueError ''could not broadcast''), m))"

section \<open>Little-endian words\<close>

definition bytes16 :: "16 word \<Rightarrow> byte list" where
  "bytes16 w = [ucast w, ucast (drop_bit 8 w)]"

definition bytes32 :: "32 word \<Rightarrow> byte list" where
  "bytes32 w = [ucast w, ucast (drop_bit 8 w), ucast (drop_bit 16 w), ucast (drop_bit 24 w)]"

text \<open>\<open>np.frombuffer\<close>; a length that is not a multiple of the item size raises.\<close>

fun words16 :: "byte list \<Rightarrow> 16 word list result" where
  "words16 [] = Inr []"
| "words16 (a # b # bs) = bind_res (words16 bs) (\<lambda>ws. Inr ((ucast a OR push_bit 8 (ucast b)) # ws))"
| "words16 _ = Inl (ValueError ''buffer size'')"

fun words32 :: "byte list \<Rightarrow> 32 word list result" where
  "words32 [] = Inr []"
| "words32 (a # b # c # d # bs) = bind_res (words32 bs) (\<lambda>ws.
     Inr ((ucast a OR push_bit 8 (ucast b) OR push_bit 16 (ucast c) OR push_bit 24 (ucast d)) # ws))"
| "words32 _ = Inl (ValueError ''buffer size'')"

lemma words16_bytes [simp]: "words16 (concat (map bytes16 ws)) = Inr ws"
proof (induction ws)
  case (Cons w ws)
  have "(ucast (ucast w :: byte) OR push_bit 8 (ucast (ucast (drop_bit 8 w) :: byte))) = w"
    by (rule bit_word_eqI) (auto simp: bit_simps)
  with Cons show ?case by (simp add: bytes16_def)
qed simp

lemma words32_bytes [simp]: "words32 (concat (map bytes32 ws)) = Inr ws"
proof (induction ws)
  case (Cons w ws)
  have "(ucast (ucast w :: byte) OR push_bit 8 (ucast (ucast (drop_bit 8 w) :: byte)) OR
      push_bit 16 (ucast (ucast (drop_bit 16 w) :: byte)) OR push_bit 24 (ucast (ucast (drop_bit 24 w) :: byte))) = w" (is "?l = w")
  proof (rule bit_word_eqI)
    fix n assume n: "n < LENGTH(32)"
    consider "n < 8" | "8 \<le> n" "n < 16" | "16 \<le> n" "n < 24" | "24 \<le> n" by linarith
    then show "bit ?l n = bit w n"
      using n by cases (auto simp: bit_simps)
  qed
  with Cons show ?case by (simp add: bytes32_def)
qed simp

lemma length_bytes [simp]: "length (bytes16 w) = 2" "length (bytes32 v) = 4"
  by (simp_all add: bytes16_def bytes32_def)

lemma length_concat_bytes [simp]:
  "length (concat (map bytes16 ws)) = 2 * length ws" "length (concat (map bytes32 vs)) = 4 * length vs"
  by (induction ws; simp) (induction vs; simp)

section \<open>The SRAM\<close>

definition sram_size :: nat where "sram_size = 4 * 1024 * 1024"

record sram_region =
  sr_name :: string
  sr_start :: int
  sr_size :: int

definition region_end :: "sram_region \<Rightarrow> int" where
  "region_end r = sr_start r + sr_size r"

record sram =
  sm_data :: memory
  sm_regions :: "(string, sram_region) dict"

definition sram_new :: sram where
  "sram_new = \<lparr>sm_data = (\<lambda>_. 0), sm_regions = []\<rparr>"

definition define_region :: "string \<Rightarrow> int \<Rightarrow> int \<Rightarrow> sram \<Rightarrow> sram" where
  "define_region n start sz s =
     s\<lparr>sm_regions := AList.update n \<lparr>sr_name = n, sr_start = start, sr_size = sz\<rparr> (sm_regions s)\<rparr>"

definition read_bytes :: "int \<Rightarrow> int \<Rightarrow> sram \<Rightarrow> byte list result" where
  "read_bytes addr n s = (if int sram_size < addr + n then Inl (ValueError ''SRAM read overflow'')
     else Inr (slice sram_size (sm_data s) addr (addr + n)))"

definition write_bytes :: "int \<Rightarrow> byte list \<Rightarrow> (sram, unit) op" where
  "write_bytes addr xs s = (if int sram_size < addr + int (length xs) then (Inl (ValueError ''SRAM write overflow''), s)
     else zoom_op sm_data (\<lambda>d s. s\<lparr>sm_data := d\<rparr>) (assign_slice sram_size addr (addr + int (length xs)) xs) s)"

definition write_int32 :: "int \<Rightarrow> 32 word list \<Rightarrow> (sram, unit) op" where
  "write_int32 addr ws = write_bytes addr (concat (map bytes32 ws))"

definition read_int32 :: "int \<Rightarrow> int \<Rightarrow> sram \<Rightarrow> 32 word list result" where
  "read_int32 addr n s = bind_res (read_bytes addr (n * 4) s) words32"

definition write_float16 :: "int \<Rightarrow> 16 word list \<Rightarrow> (sram, unit) op" where
  "write_float16 addr ws = write_bytes addr (concat (map bytes16 ws))"

definition read_float16 :: "int \<Rightarrow> int \<Rightarrow> sram \<Rightarrow> 16 word list result" where
  "read_float16 addr n s = bind_res (read_bytes addr (n * 2) s) words16"

definition write_int8 :: "int \<Rightarrow> byte list \<Rightarrow> (sram, unit) op" where
  "write_int8 = write_bytes"

definition read_int8 :: "int \<Rightarrow> int \<Rightarrow> sram \<Rightarrow> byte list result" where
  "read_int8 = read_bytes"

text \<open>\<open>regions[name]\<close> raises on an unknown name.\<close>

definition checksum_region :: "(byte list \<Rightarrow> string) \<Rightarrow> string \<Rightarrow> sram \<Rightarrow> string result" where
  "checksum_region md5 n s = (case map_of (sm_regions s) n of
     None \<Rightarrow> Inl (KeyError n)
   | Some r \<Rightarrow> Inr (take 16 (md5 (slice sram_size (sm_data s) (sr_start r) (region_end r)))))"

definition zero_region :: "string \<Rightarrow> (sram, unit) op" where
  "zero_region n s = (case map_of (sm_regions s) n of
     None \<Rightarrow> (Inl (KeyError n), s)
   | Some r \<Rightarrow> zoom_op sm_data (\<lambda>d s. s\<lparr>sm_data := d\<rparr>)
       (assign_slice sram_size (sr_start r) (region_end r) [0]) s)"

section \<open>What is read after a write\<close>

lemma clip_inside: "0 \<le> a \<Longrightarrow> a \<le> int sz \<Longrightarrow> clip_index sz a = nat a"
  by (auto simp: clip_index_def min_def)

lemma slice_inside:
  "0 \<le> a \<Longrightarrow> a + int n \<le> int sz \<Longrightarrow> slice sz m a (a + int n) = map m [nat a..<nat a + n]"
  by (simp add: slice_def clip_inside nat_add_distrib)

lemma assign_inside:
  "0 \<le> a \<Longrightarrow> a + int (length xs) \<le> int sz \<Longrightarrow>
   assign_slice sz a (a + int (length xs)) xs m = (Inr (), store_at (nat a) xs m)"
  by (simp add: assign_slice_def clip_inside nat_add_distrib Let_def)

lemma map_store_at: "map (store_at lo xs m) [lo..<lo + length xs] = xs"
  by (rule nth_equalityI) (simp_all add: store_at_def)

lemma map_store_disjoint:
  "hi \<le> lo \<or> lo + length xs \<le> l \<Longrightarrow> map (store_at lo xs m) [l..<hi] = map m [l..<hi]"
  by (auto simp: store_at_def)

lemma write_bytes_inside:
  "0 \<le> a \<Longrightarrow> a + int (length xs) \<le> int sram_size \<Longrightarrow>
   write_bytes a xs s = (Inr (), s\<lparr>sm_data := store_at (nat a) xs (sm_data s)\<rparr>)"
  by (simp add: write_bytes_def zoom_op_def assign_inside)

lemma read_bytes_inside:
  "0 \<le> a \<Longrightarrow> a + int n \<le> int sram_size \<Longrightarrow>
   read_bytes a (int n) s = Inr (map (sm_data s) [nat a..<nat a + n])"
  by (simp add: read_bytes_def slice_inside)

lemma read_write_bytes:
  assumes "0 \<le> a" and "a + int (length xs) \<le> int sram_size"
  shows "read_bytes a (int (length xs)) (snd (write_bytes a xs s)) = Inr xs"
  using assms by (simp add: write_bytes_inside read_bytes_inside map_store_at)

lemma read_other_bytes:
  assumes "0 \<le> a" and "a + int (length xs) \<le> int sram_size" and "0 \<le> b" and "b + int n \<le> int sram_size"
    and "b + int n \<le> a \<or> a + int (length xs) \<le> b"
  shows "read_bytes b (int n) (snd (write_bytes a xs s)) = read_bytes b (int n) s"
  using assms by (simp add: write_bytes_inside read_bytes_inside del: upt_Suc) (auto simp: store_at_def)

text \<open>The SRAM as typed storage: a 32-bit or half-precision array written inside it is read back
  exactly, bytes outside the written interval keep their value, and a write past the end
  raises and changes nothing.\<close>

theorem sram_read_after_write:
  assumes "0 \<le> a" and "a + 4 * int (length ws) \<le> int sram_size" and "a + 2 * int (length hs) \<le> int sram_size"
    and "0 \<le> b" and "b + int n \<le> int sram_size" and "b + int n \<le> a \<or> a + 4 * int (length ws) \<le> b"
  shows "read_int32 a (int (length ws)) (snd (write_int32 a ws s)) = Inr ws \<and>
    read_float16 a (int (length hs)) (snd (write_float16 a hs s)) = Inr hs \<and>
    read_bytes b (int n) (snd (write_int32 a ws s)) = read_bytes b (int n) s \<and>
    (\<forall>x xs. int sram_size < x + int (length xs) \<longrightarrow>
       write_bytes x xs s = (Inl (ValueError ''SRAM write overflow''), s))"
proof (intro conjI allI impI)
  show "read_int32 a (int (length ws)) (snd (write_int32 a ws s)) = Inr ws"
    using read_write_bytes[of a "concat (map bytes32 ws)" s] assms
    by (simp add: read_int32_def write_int32_def mult.commute)
  show "read_float16 a (int (length hs)) (snd (write_float16 a hs s)) = Inr hs"
    using read_write_bytes[of a "concat (map bytes16 hs)" s] assms
    by (simp add: read_float16_def write_float16_def mult.commute)
  show "read_bytes b (int n) (snd (write_int32 a ws s)) = read_bytes b (int n) s"
    using read_other_bytes[of a "concat (map bytes32 ws)" b n s] assms by (simp add: write_int32_def)
  fix x and xs :: "byte list"
  assume "int sram_size < x + int (length xs)"
  then show "write_bytes x xs s = (Inl (ValueError ''SRAM write overflow''), s)" by (simp add: write_bytes_def)
qed

lemma sram_read_after_write_witness:
  "read_int32 64 2 (snd (write_int32 64 [7, 0xFFFFFFFF] sram_new)) = Inr [7, 0xFFFFFFFF]"
  using sram_read_after_write[of 64 "[7, 0xFFFFFFFF]" "[]" 0 0 sram_new] by (simp add: sram_size_def)

end
