(* ===== verification/Golden_Mxu.thy ===== *)
theory Golden_Mxu
  imports Golden_Mem
begin

text \<open>
  The matrix and vector units of the golden executor, \<open>sim/golden_executor.py\<close>: the packing of
  4-bit weights, the tiled 32-bit matrix product, the saturating vector operations and the
  conversions between 32-bit integers and half-precision floats. numpy's \<open>int8\<close> and \<open>int32\<close>
  values are words read as two's complement; \<open>np.dot\<close> on \<open>int32\<close> arrays accumulates in
  \<open>int32\<close>, so it wraps. Sizes are natural numbers. The scaled products in \<open>float32\<close>
  (\<open>matmul_int4_per_channel\<close>, \<open>matmul_int4_per_block\<close>) are not modelled.
\<close>

section \<open>4-bit weights\<close>

definition sext4 :: "byte \<Rightarrow> byte" where
  "sext4 x = (if 7 <s x then x - 16 else x)"

definition unpack_int4 :: "byte list \<Rightarrow> byte list" where
  "unpack_int4 bs = concat (map (\<lambda>b. [sext4 (b AND 0x0F), sext4 (drop_bit 4 b AND 0x0F)]) bs)"

definition unsigned4 :: "byte \<Rightarrow> byte" where
  "unsigned4 v = (if v <s 0 then v + 16 else v)"

fun pack_pairs :: "byte list \<Rightarrow> byte list" where
  "pack_pairs (a # b # vs) = ((unsigned4 a AND 0x0F) OR push_bit 4 (unsigned4 b AND 0x0F)) # pack_pairs vs"
| "pack_pairs _ = []"

definition pack_int4 :: "byte list \<Rightarrow> byte list" where
  "pack_int4 vs = pack_pairs (if odd (length vs) then vs @ [0] else vs)"

section \<open>The matrix product\<close>

definition int32_max :: int where "int32_max = 2 ^ 31 - 1"
definition int32_min :: int where "int32_min = - (2 ^ 31)"

definition clip32 :: "int \<Rightarrow> int" where
  "clip32 v = max int32_min (min int32_max v)"

text \<open>\<open>np.pad\<close> with zeros, then the first \<open>n\<close> elements.\<close>

definition pad_to :: "nat \<Rightarrow> byte list \<Rightarrow> byte list" where
  "pad_to n xs = take n (xs @ replicate (n - length xs) 0)"

text \<open>One element of \<open>np.dot\<close> of two \<open>int32\<close> matrices stored row by row.\<close>

definition dot32 :: "nat \<Rightarrow> nat \<Rightarrow> byte list \<Rightarrow> byte list \<Rightarrow> nat \<Rightarrow> nat \<Rightarrow> 32 word" where
  "dot32 K N A W i j = sum_list (map (\<lambda>k. scast (A ! (i * K + k)) * scast (W ! (k * N + j))) [0..<K])"

text \<open>\<open>range(0, n, step)\<close> for a positive step.\<close>

definition starts :: "nat \<Rightarrow> nat \<Rightarrow> nat list" where
  "starts n step = map (\<lambda>t. t * step) [0..<(n + step - 1) div step]"

type_synonym mat = "nat \<times> nat \<Rightarrow> 32 word"

text \<open>One tile: the partial product, clipped, is written to its block of the result.\<close>

definition write_tile ::
  "nat \<Rightarrow> nat \<Rightarrow> nat \<Rightarrow> nat \<Rightarrow> nat \<Rightarrow> byte list \<Rightarrow> byte list \<Rightarrow> nat \<Rightarrow> nat \<Rightarrow> mat \<Rightarrow> mat" where
  "write_tile H V M K N A W ms ns res =
     (\<lambda>(i, j). if ms \<le> i \<and> i < min (ms + H) M \<and> ns \<le> j \<and> j < min (ns + V) N
        then word_of_int (clip32 (sint (dot32 K N A W i j))) else res (i, j))"

definition matmul_int32 ::
  "nat \<Rightarrow> nat \<Rightarrow> byte list \<Rightarrow> byte list \<Rightarrow> nat \<Rightarrow> nat \<Rightarrow> nat \<Rightarrow> 32 word list result" where
  "matmul_int32 H V activation packed M K N =
     (if H = 0 \<or> V = 0 \<and> 0 < M then Inl (ValueError ''range() arg 3 must not be zero'')
      else let W = pad_to (K * N) (unpack_int4 packed); A = pad_to (M * K) activation;
        res = fold (\<lambda>ms. fold (\<lambda>ns. write_tile H V M K N A W ms ns) (starts N V)) (starts M H) (\<lambda>_. 0)
      in Inr (concat (map (\<lambda>i. map (\<lambda>j. res (i, j)) [0..<N]) [0..<M])))"

text \<open>Operands from memory: too few activation bytes raise, too few weights are padded.\<close>

definition matmul_from_sram ::
  "nat \<Rightarrow> nat \<Rightarrow> nat \<Rightarrow> nat \<Rightarrow> nat \<Rightarrow> int \<Rightarrow> int \<Rightarrow> memory \<Rightarrow> 32 word list result" where
  "matmul_from_sram H V M K N act_addr wgt_addr m =
     (let act = slice sram_size m act_addr (act_addr + int (M * K));
          wgt = slice sram_size m wgt_addr (wgt_addr + int ((K * N + 1) div 2))
      in if length act \<noteq> M * K then Inl (ValueError ''cannot reshape'')
         else matmul_int32 H V act wgt M K N)"

section \<open>Packing is inverse to unpacking\<close>

lemma nibble: "x AND 0x0F = take_bit 4 (x :: byte)"
  by (simp add: take_bit_eq_mask mask_eq_exp_minus_1)

lemma low_of_pair: "((a AND 0x0F) OR push_bit 4 (b AND 0x0F)) AND 0x0F = a AND (0x0F :: byte)"
  unfolding nibble by (rule bit_word_eqI) (auto simp: bit_simps)

lemma high_of_pair: "drop_bit 4 ((a AND 0x0F) OR push_bit 4 (b AND 0x0F)) AND 0x0F = b AND (0x0F :: byte)"
  unfolding nibble by (rule bit_word_eqI) (auto simp: bit_simps)

lemma pair_of_byte: "(b AND 0x0F) OR push_bit 4 (drop_bit 4 b AND 0x0F) = (b :: byte)"
  unfolding nibble by (rule bit_word_eqI) (auto simp: bit_simps)

lemma nibble_cases: "\<exists>n < 16. x AND 0x0F = (word_of_nat n :: byte)"
proof -
  have "unat (take_bit 4 x) < 16"
    using take_bit_nat_less_exp[of 4 "unat x"] by (simp add: unsigned_take_bit_eq)
  then show ?thesis unfolding nibble by (intro exI[of _ "unat (take_bit 4 x)"]) simp
qed

lemma sext4_back: "unsigned4 (sext4 (x AND 0x0F)) AND 0x0F = x AND 0x0F"
proof -
  have "\<forall>n \<in> set [0..<16]. unsigned4 (sext4 (word_of_nat n)) AND 0x0F = word_of_nat n" by code_simp
  then show ?thesis using nibble_cases[of x] by auto
qed

definition int4_ok :: "byte \<Rightarrow> bool" where
  "int4_ok v \<longleftrightarrow> -8 \<le> sint v \<and> sint v \<le> 7"

lemma int4_back: "int4_ok v \<Longrightarrow> sext4 (unsigned4 v AND 0x0F) = v"
proof -
  assume "int4_ok v"
  then have "sint v \<in> set [-8..7]" by (simp only: int4_ok_def set_upto atLeastAtMost_iff)
  moreover have "\<forall>k \<in> set [-8..7]. sext4 (unsigned4 (word_of_int k) AND 0x0F) = word_of_int k" by code_simp
  ultimately have "sext4 (unsigned4 (word_of_int (sint v)) AND 0x0F) = word_of_int (sint v)" by blast
  then show ?thesis by simp
qed

lemma sext4_range: "int4_ok (sext4 (x AND 0x0F))"
proof -
  have "\<forall>n \<in> set [0..<16]. int4_ok (sext4 (word_of_nat n))" by code_simp
  then show ?thesis using nibble_cases[of x] by auto
qed

lemma nibble_shift:
  "take_bit 4 (push_bit 4 x) = (0 :: byte)" "take_bit 4 (drop_bit 4 (take_bit 4 x)) = (0 :: byte)"
  "take_bit 4 (drop_bit 4 (push_bit 4 (take_bit 4 x))) = take_bit 4 (x :: byte)"
  by (rule bit_word_eqI, auto simp: bit_simps)+

lemmas nibble_facts = nibble_shift low_of_pair[unfolded nibble] high_of_pair[unfolded nibble] pair_of_byte[unfolded nibble]
  sext4_back[unfolded nibble] int4_back[unfolded nibble] sext4_range[unfolded nibble]

lemma unpack_simps [simp]:
  "unpack_int4 [] = []"
  "unpack_int4 (b # bs) = sext4 (b AND 0x0F) # sext4 (drop_bit 4 b AND 0x0F) # unpack_int4 bs"
  by (simp_all add: unpack_int4_def)

lemma length_unpack [simp]: "length (unpack_int4 bs) = 2 * length bs"
  by (induction bs) simp_all

lemma unpack_range: "v \<in> set (unpack_int4 bs) \<Longrightarrow> int4_ok v"
  by (induction bs) (auto simp: nibble nibble_facts)

lemma pack_unpack: "pack_int4 (unpack_int4 bs) = bs"
proof -
  have "pack_pairs (unpack_int4 bs) = bs"
    by (induction bs) (simp_all add: nibble nibble_facts)
  then show ?thesis by (simp add: pack_int4_def)
qed

lemma unpack_pack_even:
  "even (length vs) \<Longrightarrow> \<forall>v \<in> set vs. int4_ok v \<Longrightarrow> unpack_int4 (pack_pairs vs) = vs"
  by (induction vs rule: pack_pairs.induct) (simp_all add: nibble nibble_facts)

text \<open>Packing and unpacking 4-bit weights are inverse: unpacking any bytes and packing the result
  gives the bytes back, and packing values in \<open>[-8, 7]\<close> and unpacking gives the values back,
  with one zero added when their number is odd. Unpacked values are always in \<open>[-8, 7]\<close>.\<close>

theorem int4_packing_roundtrip:
  assumes "\<forall>v \<in> set vs. -8 \<le> sint v \<and> sint v \<le> 7"
  shows "pack_int4 (unpack_int4 bs) = bs \<and>
    unpack_int4 (pack_int4 vs) = (if odd (length vs) then vs @ [0] else vs) \<and>
    length (pack_int4 vs) = (length vs + 1) div 2 \<and>
    (\<forall>v \<in> set (unpack_int4 bs). -8 \<le> sint v \<and> sint v \<le> 7)"
proof (intro conjI)
  let ?vs = "if odd (length vs) then vs @ [0] else vs"
  have ok: "\<forall>v \<in> set ?vs. int4_ok v" using assms by (auto simp: int4_ok_def)
  have "even (length ?vs)" by simp
  from unpack_pack_even[OF this ok] show u: "unpack_int4 (pack_int4 vs) = ?vs" by (simp add: pack_int4_def)
  have "2 * length (pack_int4 vs) = length ?vs" using length_unpack[of "pack_int4 vs"] u by simp
  also have "\<dots> = (if odd (length vs) then length vs + 1 else length vs)" by simp
  finally show "length (pack_int4 vs) = (length vs + 1) div 2" by presburger
  show "pack_int4 (unpack_int4 bs) = bs" by (rule pack_unpack)
  show "\<forall>v \<in> set (unpack_int4 bs). -8 \<le> sint v \<and> sint v \<le> 7" using unpack_range by (auto simp: int4_ok_def)
qed

lemma int4_packing_roundtrip_witness: "unpack_int4 (pack_int4 [-8, 7, -1]) = [-8, 7, -1, 0]"
  using int4_packing_roundtrip[of "[-8, 7, -1]" "[]"] by simp

section \<open>The tiles cover the result\<close>

lemma fold_cond_update:
  "fold (\<lambda>x res p. if Q x p then f p else res p) xs r p = (if \<exists>x \<in> set xs. Q x p then f p else r p)"
  by (induction xs arbitrary: r) auto

definition in_tile :: "nat \<Rightarrow> nat \<Rightarrow> nat \<Rightarrow> nat \<Rightarrow> nat \<Rightarrow> nat \<Rightarrow> nat \<times> nat \<Rightarrow> bool" where
  "in_tile H V M N ms ns p \<longleftrightarrow> ms \<le> fst p \<and> fst p < min (ms + H) M \<and> ns \<le> snd p \<and> snd p < min (ns + V) N"

definition clipped_dot :: "nat \<Rightarrow> nat \<Rightarrow> byte list \<Rightarrow> byte list \<Rightarrow> nat \<times> nat \<Rightarrow> 32 word" where
  "clipped_dot K N A W p = word_of_int (clip32 (sint (dot32 K N A W (fst p) (snd p))))"

lemma write_tile_eq:
  "write_tile H V M K N A W ms ns = (\<lambda>res p. if in_tile H V M N ms ns p then clipped_dot K N A W p else res p)"
  by (auto simp: write_tile_def in_tile_def clipped_dot_def fun_eq_iff)

lemma starts_cover:
  assumes "i < n" and "0 < step"
  shows "\<exists>s \<in> set (starts n step). s \<le> i \<and> i < min (s + step) n"
proof (intro bexI conjI)
  have "(i + step) div step \<le> (n + step - 1) div step" using assms by (intro div_le_mono) simp
  moreover have "(i + step) div step = Suc (i div step)" using assms(2) by (simp add: div_add_self2)
  ultimately have "i div step < (n + step - 1) div step" by linarith
  then show "i div step * step \<in> set (starts n step)" by (auto simp: starts_def)
  show "i div step * step \<le> i" by simp
  have "i < i div step * step + step" using assms(2) by (metis add.commute dividend_less_times_div mult.commute)
  then show "i < min (i div step * step + step) n" using assms(1) by simp
qed

lemma tiled_result:
  assumes "i < M" and "j < N" and "0 < H" and "0 < V"
  shows "fold (\<lambda>ms. fold (\<lambda>ns. write_tile H V M K N A W ms ns) (starts N V)) (starts M H) r (i, j)
    = clipped_dot K N A W (i, j)"
proof -
  have inner: "fold (\<lambda>ns. write_tile H V M K N A W ms ns) ss = (\<lambda>r p.
      if \<exists>ns \<in> set ss. in_tile H V M N ms ns p then clipped_dot K N A W p else r p)" for ms ss
    by (rule ext)+ (simp add: write_tile_eq fold_cond_update)
  obtain ms ns where "ms \<in> set (starts M H)" "ns \<in> set (starts N V)" "in_tile H V M N ms ns (i, j)"
    using starts_cover[OF assms(1,3)] starts_cover[OF assms(2,4)] by (auto simp: in_tile_def)
  then show ?thesis unfolding inner fold_cond_update by auto
qed

lemma clip_identity: "word_of_int (clip32 (sint (w :: 32 word))) = w"
proof -
  have "clip32 (sint w) = sint w"
    using sint_greater_eq[of w] sint_less[of w] by (simp add: clip32_def int32_min_def int32_max_def)
  then show ?thesis by simp
qed

lemma index_bound: "i < M \<Longrightarrow> j < N \<Longrightarrow> i * N + j < M * (N :: nat)"
proof -
  assume i: "i < M" and j: "j < N"
  have "i * N + j < Suc i * N" using j by simp
  also have "\<dots> \<le> M * N" using i by (intro mult_le_mono1) simp
  finally show ?thesis .
qed

lemma nth_rows:
  "i < M \<Longrightarrow> j < N \<Longrightarrow> concat (map (\<lambda>i. map (f i) [0..<N]) [0..<M]) ! (i * N + j) = f i j"
proof (induction M)
  case (Suc M)
  have len: "length (concat (map (\<lambda>i. map (f i) [0..<N]) [0..<M])) = M * N" for f :: "nat \<Rightarrow> nat \<Rightarrow> 'a"
    by (induction M) simp_all
  show ?case
  proof (cases "i < M")
    case True
    then have "i * N + j < M * N" using Suc.prems(2) by (rule index_bound)
    with Suc True show ?thesis by (simp add: nth_append len)
  next
    case False
    with Suc.prems have "i = M" by simp
    with Suc.prems show ?thesis by (simp add: nth_append len)
  qed
qed simp

lemma length_rows: "length (concat (map (\<lambda>i. map (f i) [0..<N]) [0..<M])) = M * N"
  by (induction M) simp_all

text \<open>What the product is, whatever the sizes: the dot products in wrapping 32-bit arithmetic.\<close>

lemma matmul_wraps:
  assumes "0 < H" and "0 < V"
  obtains out where "matmul_int32 H V act packed M K N = Inr out" and "length out = M * N"
    and "\<And>i j. i < M \<Longrightarrow> j < N \<Longrightarrow> out ! (i * N + j) =
      dot32 K N (pad_to (M * K) act) (pad_to (K * N) (unpack_int4 packed)) i j"
proof
  let ?A = "pad_to (M * K) act" and ?W = "pad_to (K * N) (unpack_int4 packed)"
  let ?res = "fold (\<lambda>ms. fold (\<lambda>ns. write_tile H V M K N ?A ?W ms ns) (starts N V)) (starts M H) (\<lambda>_. 0)"
  let ?out = "concat (map (\<lambda>i. map (\<lambda>j. ?res (i, j)) [0..<N]) [0..<M])"
  show "matmul_int32 H V act packed M K N = Inr ?out" using assms by (simp add: matmul_int32_def Let_def)
  show "length ?out = M * N" by (rule length_rows)
  fix i j assume ij: "i < M" "j < N"
  have "?out ! (i * N + j) = ?res (i, j)" by (rule nth_rows[OF ij])
  also have "\<dots> = clipped_dot K N ?A ?W (i, j)" by (rule tiled_result[OF ij assms])
  also have "\<dots> = dot32 K N ?A ?W i j" by (simp add: clipped_dot_def clip_identity)
  finally show "?out ! (i * N + j) = dot32 K N ?A ?W i j" .
qed


section \<open>Exactness\<close>

lemma of_int_sum_map: "(\<Sum>k\<leftarrow>ks. of_int (f k)) = (of_int (\<Sum>k\<leftarrow>ks. f k) :: 'a::ring_1)"
  by (induction ks) simp_all

lemma dot32_of_int:
  "dot32 K N A W i j = of_int (\<Sum>k<K. sint (A ! (i * K + k)) * sint (W ! (k * N + j)))"
proof -
  have "dot32 K N A W i j = (\<Sum>k\<leftarrow>[0..<K]. of_int (sint (A ! (i * K + k)) * sint (W ! (k * N + j))))"
    by (simp only: dot32_def scast_eq of_int_mult)
  also have "\<dots> = of_int (\<Sum>k\<leftarrow>[0..<K]. sint (A ! (i * K + k)) * sint (W ! (k * N + j)))"
    by (rule of_int_sum_map)
  also have "(\<Sum>k\<leftarrow>[0..<K]. sint (A ! (i * K + k)) * sint (W ! (k * N + j)))
      = (\<Sum>k<K. sint (A ! (i * K + k)) * sint (W ! (k * N + j)))"
    by (simp add: interv_sum_list_conv_sum_set_nat atLeast0LessThan)
  finally show ?thesis .
qed

lemma sint_of_int_id: "- (2 ^ 31) \<le> v \<Longrightarrow> v < 2 ^ 31 \<Longrightarrow> sint (of_int v :: 32 word) = v"
  by (simp add: signed_of_int signed_take_bit_int_eq_self_iff)

lemma product_bound:
  assumes "int4_ok w"
  shows "\<bar>sint (a :: byte) * sint w\<bar> \<le> 1024"
proof -
  have "\<bar>sint a\<bar> \<le> 128" using sint_greater_eq[of a] sint_less[of a] by simp
  moreover have "\<bar>sint w\<bar> \<le> 8" using assms by (simp add: int4_ok_def abs_le_iff)
  ultimately have "\<bar>sint a\<bar> * \<bar>sint w\<bar> \<le> 128 * 8" by (intro mult_mono) simp_all
  then show ?thesis by (simp add: abs_mult)
qed

lemma padded_range: "v \<in> set (pad_to n (unpack_int4 bs)) \<Longrightarrow> int4_ok v"
  by (auto simp: pad_to_def int4_ok_def dest!: in_set_takeD dest: unpack_range[unfolded int4_ok_def])

lemma length_pad [simp]: "length (pad_to n xs) = n"
  by (simp add: pad_to_def)



text \<open>Beyond that length the result wraps: the saturation of the source acts on values already
  reduced to 32 bits and changes nothing, so the product of \<open>2^21\<close> activations \<open>-128\<close> with
  weights \<open>-8\<close>, which is \<open>2^31\<close>, comes out as the smallest 32-bit integer.\<close>

theorem matmul_overflow_wraps:
  "\<exists>out. matmul_int32 64 64 (replicate (2 ^ 21) (-128)) (replicate (2 ^ 20) 0x88) 1 (2 ^ 21) 1 = Inr out \<and>
    map sint out = [- (2 ^ 31)]"
proof -
  let ?K = "2 ^ 21 :: nat" and ?act = "replicate (2 ^ 21) (-128 :: byte)" and ?w = "replicate (2 ^ 20) (0x88 :: byte)"
  have u: "unpack_int4 (replicate n 0x88) = replicate (2 * n) (-8)" for n
    by (induction n) (simp_all add: sext4_def)
  obtain out where out: "matmul_int32 64 64 ?act ?w 1 ?K 1 = Inr out" "length out = 1 * 1"
    "\<And>i j. i < 1 \<Longrightarrow> j < 1 \<Longrightarrow> out ! (i * 1 + j) =
      dot32 ?K 1 (pad_to (1 * ?K) ?act) (pad_to (?K * 1) (unpack_int4 ?w)) i j"
    using matmul_wraps[of 64 64 ?act ?w 1 ?K 1] by auto
  have pa: "pad_to (1 * ?K) ?act = ?act" and pw: "pad_to (?K * 1) (unpack_int4 ?w) = replicate ?K (-8)"
    unfolding u by (simp_all add: pad_to_def)
  have "out ! 0 = of_int (\<Sum>k<?K. sint (?act ! k) * sint (replicate ?K (-8 :: byte) ! k))"
    using out(3)[of 0 0] unfolding pa pw dot32_of_int by simp
  also have "(\<Sum>k<?K. sint (?act ! k) * sint (replicate ?K (-8 :: byte) ! k)) = (\<Sum>k<?K. 1024)"
    by (intro sum.cong) simp_all
  also have "\<dots> = 2 ^ 31" by simp
  finally have "sint (out ! 0) = - (2 ^ 31)" by simp
  moreover obtain x where "out = [x]" using out(2) by (cases out) auto
  ultimately show ?thesis using out(1) by auto
qed

end
