(* ===== verification/Golden_Vector.thy ===== *)
theory Golden_Vector
  imports Golden_Mxu "HOL-Library.Log_Nat"
begin

text \<open>
  The vector unit of the golden executor, \<open>GoldenVector\<close> in \<open>sim/golden_executor.py\<close>: saturating
  32-bit element-wise operations, the residual addition and the conversions between 32-bit
  integers and half-precision floats, bit by bit. A half-precision value is its 16 bits; its
  integer part is what a cast to \<open>int32\<close> gives. What numpy's cast makes of an infinity or a
  NaN is undefined there, and a parameter here.
\<close>

section \<open>Element-wise operations\<close>

definition sat_add :: "32 word \<Rightarrow> 32 word \<Rightarrow> 32 word" where
  "sat_add a b = word_of_int (clip32 (sint (scast a + scast b :: 64 word)))"

definition sat_mul :: "32 word \<Rightarrow> 32 word \<Rightarrow> 32 word" where
  "sat_mul a b = word_of_int (clip32 (sint (scast a * scast b :: 64 word)))"

definition vec_add :: "32 word list \<Rightarrow> 32 word list \<Rightarrow> 32 word list" where
  "vec_add = map2 sat_add"

definition vec_mul :: "32 word list \<Rightarrow> 32 word list \<Rightarrow> 32 word list" where
  "vec_mul = map2 sat_mul"

section \<open>Half precision\<close>

text \<open>Rounding a natural number to \<open>p\<close> significant bits, to nearest, ties to even.\<close>

definition round_sig :: "nat \<Rightarrow> int \<Rightarrow> int" where
  "round_sig p n = (if bitlen n \<le> int p then n
     else let u = 2 ^ nat (bitlen n - int p); q = n div u; r = n mod u
       in (if u < 2 * r \<or> u = 2 * r \<and> odd q then q + 1 else q) * u)"

definition half_max :: int where "half_max = 65504"

definition encode_half :: "int \<Rightarrow> int" where
  "encode_half n = (if n = 0 then 0 else let b = bitlen n
     in (b + 14) * 1024 + ((if b \<le> 11 then n * 2 ^ nat (11 - b) else n div 2 ^ nat (b - 11)) - 1024))"

definition conv_i32_to_f16 :: "32 word \<Rightarrow> 16 word" where
  "conv_i32_to_f16 w = (let v = sint w;
       h = encode_half (round_sig 11 (min half_max (round_sig 24 \<bar>v\<bar>)))
     in word_of_int (if v < 0 then 0x8000 + h else h))"

text \<open>The fields of a half: sign, exponent, fraction, and the integer part of a finite one.\<close>

definition half_sign :: "16 word \<Rightarrow> bool" where "half_sign h \<longleftrightarrow> uint h div 0x8000 = 1"
definition half_exp :: "16 word \<Rightarrow> int" where "half_exp h = uint h div 1024 mod 32"
definition half_frac :: "16 word \<Rightarrow> int" where "half_frac h = uint h mod 1024"

definition half_trunc :: "16 word \<Rightarrow> int" where
  "half_trunc h = (let e = half_exp h; m = 1024 + half_frac h;
       n = (if e = 0 then 0 else if 25 \<le> e then m * 2 ^ nat (e - 25) else m div 2 ^ nat (25 - e))
     in if half_sign h then - n else n)"

definition half_special :: "16 word \<Rightarrow> bool" where "half_special h \<longleftrightarrow> half_exp h = 31"

definition conv_f16_to_i32 :: "16 word \<Rightarrow> 32 word" where
  "conv_f16_to_i32 h = (if half_special h then word_of_int (if half_sign h then int32_min else int32_max)
     else word_of_int (half_trunc h))"

definition residual_add :: "(16 word \<Rightarrow> 32 word) \<Rightarrow> 16 word list \<Rightarrow> 32 word list \<Rightarrow> 32 word list" where
  "residual_add cast_special original delta = map2 (\<lambda>h d.
     sat_add (if half_special h then cast_special h else word_of_int (half_trunc h)) d) original delta"

section \<open>Saturating arithmetic is exact or extreme\<close>

lemma sint32_range: "- (2 ^ 31) \<le> sint (a :: 32 word) \<and> sint a < 2 ^ 31"
  using sint_greater_eq[of a] sint_less[of a] by simp

lemma sint_of_int64_id: "- (2 ^ 63) \<le> v \<Longrightarrow> v < 2 ^ 63 \<Longrightarrow> sint (of_int v :: 64 word) = v"
  by (simp add: signed_of_int signed_take_bit_int_eq_self_iff)

lemma clip32_range: "- (2 ^ 31) \<le> clip32 v \<and> clip32 v < 2 ^ 31"
  by (auto simp: clip32_def int32_min_def int32_max_def)

lemma sint_clip: "sint (word_of_int (clip32 v) :: 32 word) = clip32 v"
  using sint_of_int_id clip32_range by blast

lemma sat_add_exact: "sint (sat_add a b) = clip32 (sint a + sint b)"
proof -
  have "sint (scast a + scast b :: 64 word) = sint a + sint b"
    unfolding scast_eq of_int_add[symmetric] using sint32_range[of a] sint32_range[of b]
    by (intro sint_of_int64_id) simp_all
  then show ?thesis by (simp only: sat_add_def sint_clip)
qed

lemma sat_mul_exact: "sint (sat_mul a b) = clip32 (sint a * sint b)"
proof -
  have "\<bar>sint a\<bar> \<le> 2 ^ 31" "\<bar>sint b\<bar> \<le> 2 ^ 31" using sint32_range[of a] sint32_range[of b] by linarith+
  then have "\<bar>sint a\<bar> * \<bar>sint b\<bar> \<le> 2 ^ 31 * 2 ^ 31" by (intro mult_mono) simp_all
  then have "\<bar>sint a * sint b\<bar> \<le> 2 ^ 62" by (simp add: abs_mult)
  then have "sint (scast a * scast b :: 64 word) = sint a * sint b"
    unfolding scast_eq of_int_mult[symmetric] by (intro sint_of_int64_id) (simp_all add: abs_le_iff)
  then show ?thesis by (simp only: sat_mul_def sint_clip)
qed

text \<open>The vector unit saturates: each element of a sum or product is the exact integer result
  when that fits 32 bits, and the nearest 32-bit integer otherwise; the 64-bit intermediate
  never overflows.\<close>

theorem vector_ops_saturate:
  assumes "i < length a" and "length a = length b"
  shows "sint (vec_add a b ! i) = max (- (2 ^ 31)) (min (2 ^ 31 - 1) (sint (a ! i) + sint (b ! i))) \<and>
    sint (vec_mul a b ! i) = max (- (2 ^ 31)) (min (2 ^ 31 - 1) (sint (a ! i) * sint (b ! i))) \<and>
    length (vec_add a b) = length a \<and> length (vec_mul a b) = length a"
proof -
  have "sint (vec_add a b ! i) = clip32 (sint (a ! i) + sint (b ! i))"
    "sint (vec_mul a b ! i) = clip32 (sint (a ! i) * sint (b ! i))"
    using assms by (simp_all add: vec_add_def vec_mul_def sat_add_exact sat_mul_exact)
  then show ?thesis using assms by (simp add: vec_add_def vec_mul_def clip32_def int32_min_def int32_max_def)
qed

lemma vector_ops_saturate_witness: "sint (vec_add [0x7FFFFFFF, 5] [1, -7] ! 0) = 2 ^ 31 - 1"
  using vector_ops_saturate[of 0 "[0x7FFFFFFF, 5]" "[1, -7]"] by simp


section \<open>Conversions\<close>

lemma bitlen_of: "0 < n \<Longrightarrow> 2 ^ nat (bitlen n - 1) \<le> n \<and> n < 2 ^ nat (bitlen n) \<and> 1 \<le> bitlen n"
  using bitlen_bounds[of n] by (simp add: bitlen_def floorlog_def)

lemma bitlen_leI: "0 \<le> n \<Longrightarrow> n < 2 ^ k \<Longrightarrow> bitlen n \<le> int k"
proof (cases "n = 0")
  case False
  assume "0 \<le> n" "n < 2 ^ k"
  with False bitlen_of[of n] have "(2::int) ^ nat (bitlen n - 1) < 2 ^ k" by linarith
  then have "nat (bitlen n - 1) < k" by (rule power_less_imp_less_exp[rotated]) simp
  then show ?thesis by linarith
qed simp

text \<open>Rounding stays within half a unit of the last bit kept, and is a multiple of that unit.\<close>

lemma round_sig_unit:
  fixes n :: int and p :: nat
  assumes "0 \<le> n" and u: "u = 2 ^ nat (bitlen n - int p)"
  shows "u dvd round_sig p n \<and> 2 * \<bar>round_sig p n - n\<bar> \<le> u \<and> 0 \<le> round_sig p n"
proof (cases "bitlen n \<le> int p")
  case True
  then show ?thesis using assms by (simp add: round_sig_def)
next
  case False
  let ?q = "n div u" and ?r = "n mod u"
  have n: "n = ?q * u + ?r" by simp
  have r: "0 \<le> ?r" "?r < u" using u by simp_all
  have q: "0 \<le> ?q" using assms by (simp add: pos_imp_zdiv_nonneg_iff)
  have "round_sig p n = (if u < 2 * ?r \<or> u = 2 * ?r \<and> odd ?q then ?q + 1 else ?q) * u"
    using False u by (simp add: round_sig_def Let_def)
  then consider "round_sig p n = (?q + 1) * u" "u \<le> 2 * ?r" | "round_sig p n = ?q * u" "2 * ?r \<le> u"
    by (force split: if_splits)
  then show ?thesis
  proof cases
    case 1
    have d: "round_sig p n - n = u - ?r" using 1(1) n by (simp add: algebra_simps)
    have "2 * \<bar>round_sig p n - n\<bar> \<le> u" unfolding d using 1(2) r by (simp add: abs_of_nonneg)
    moreover have "0 \<le> round_sig p n" using 1(1) q u by simp
    moreover have "u dvd round_sig p n" using 1(1) by simp
    ultimately show ?thesis by blast
  next
    case 2
    have d: "round_sig p n - n = - ?r" using 2(1) n by linarith
    have "2 * \<bar>round_sig p n - n\<bar> \<le> u" unfolding d using 2(2) r by simp
    moreover have "0 \<le> round_sig p n" using 2(1) q u by simp
    moreover have "u dvd round_sig p n" using 2(1) by simp
    ultimately show ?thesis by blast
  qed
qed

lemma round_sig_small: "0 \<le> n \<Longrightarrow> n < 2 ^ p \<Longrightarrow> round_sig p n = n"
  using bitlen_leI[of n p] by (simp add: round_sig_def)

lemma uint16_id: "0 \<le> x \<Longrightarrow> x < 0x10000 \<Longrightarrow> uint (word_of_int x :: 16 word) = x"
  by (simp add: unsigned_of_int take_bit_int_eq_self_iff)

lemma sign_bit_div: "(0x8000 + x) div 1024 = 32 + x div 1024" "(0x8000 + x) mod 1024 = x mod 1024" for x :: int
  using div_mult_self1[of 1024 x 32] mod_mult_self1[of x 32 1024] by (simp_all add: add.commute)

lemma field_split: "0 \<le> f \<Longrightarrow> f < 1024 \<Longrightarrow> (e * 1024 + f) div 1024 = e \<and> (e * 1024 + f) mod 1024 = f" for e f :: int
  by simp

lemma half_trunc_fields:
  assumes "half_exp h = e" and "half_frac h = m - 1024" and "e \<noteq> 0" and "e \<noteq> 31"
    and "(if 25 \<le> e then m * 2 ^ nat (e - 25) else m div 2 ^ nat (25 - e)) = n"
  shows "\<not> half_special h \<and> half_trunc h = (if half_sign h then - n else n)"
  using assms by (auto simp: half_special_def half_trunc_def Let_def)

lemma half_fields:
  assumes "1 \<le> e" and "e \<le> 30" and "1024 \<le> m" and "m < 2048"
  defines "h \<equiv> e * 1024 + (m - 1024)"
  shows "half_exp (word_of_int h) = e \<and> half_frac (word_of_int h) = m - 1024 \<and> \<not> half_sign (word_of_int h) \<and>
    half_exp (word_of_int (0x8000 + h)) = e \<and> half_frac (word_of_int (0x8000 + h)) = m - 1024 \<and>
    half_sign (word_of_int (0x8000 + h))"
proof -
  have h: "0 \<le> h" "h < 0x8000" using assms by simp_all
  then have u: "uint (word_of_int h :: 16 word) = h" "uint (word_of_int (0x8000 + h) :: 16 word) = 0x8000 + h"
    by (intro uint16_id; simp)+
  have "h div 1024 = e" "h mod 1024 = m - 1024" using field_split[of "m - 1024" e] assms(3,4) unfolding h_def by simp_all
  moreover have "(0x8000 + h) div 1024 = 32 + e" "(0x8000 + h) mod 1024 = m - 1024"
    using calculation sign_bit_div[of h] by simp_all
  moreover have "h div 0x8000 = 0" "(0x8000 + h) div 0x8000 = 1" using h by simp_all
  ultimately show ?thesis
    using assms(1,2) unfolding half_exp_def half_frac_def half_sign_def u by simp
qed


text \<open>The integer part of an encoded half is the number, when it has at most 11 significant bits.\<close>

lemma half_trunc_encode:
  assumes "0 < n" and "n \<le> half_max" and "2 ^ nat (bitlen n - 11) dvd n"
  shows "\<not> half_special (word_of_int (encode_half n)) \<and> half_trunc (word_of_int (encode_half n)) = n \<and>
    \<not> half_special (word_of_int (0x8000 + encode_half n)) \<and> half_trunc (word_of_int (0x8000 + encode_half n)) = - n"
proof -
  define b m where b_def: "b = bitlen n"
    and m_def: "m = (if b \<le> 11 then n * 2 ^ nat (11 - b) else n div 2 ^ nat (b - 11))"
  have bb: "2 ^ nat (b - 1) \<le> n" "n < 2 ^ nat b" "1 \<le> b" using bitlen_of[OF assms(1)] by (simp_all add: b_def)
  have b16: "b \<le> 16" using bitlen_leI[of n 16] assms(1,2) by (simp add: half_max_def b_def)
  have val: "(if 25 \<le> b + 14 then m * 2 ^ nat (b + 14 - 25) else m div 2 ^ nat (25 - (b + 14))) = n"
    and m: "1024 \<le> m" "m < 2048"
  proof -
    consider "b \<le> 10" | "b = 11" | "12 \<le> b" by linarith
    then have "(if 25 \<le> b + 14 then m * 2 ^ nat (b + 14 - 25) else m div 2 ^ nat (25 - (b + 14))) = n \<and>
      1024 \<le> m \<and> m < 2048"
    proof cases
      case 1
      let ?k = "nat (11 - b)"
      have k: "nat (b - 1) + ?k = 10" "nat b + ?k = 11" using 1 bb(3) by linarith+
      have "2 ^ nat (b - 1) * 2 ^ ?k \<le> n * 2 ^ ?k" using bb(1) by (intro mult_right_mono) simp_all
      moreover have "n * 2 ^ ?k < 2 ^ nat b * 2 ^ ?k" using bb(2) by (intro mult_strict_right_mono) simp_all
      ultimately have "1024 \<le> n * 2 ^ ?k" "n * 2 ^ ?k < 2048" unfolding power_add[symmetric] k by simp_all
      moreover have "nat (25 - (b + 14)) = ?k" by simp
      ultimately show ?thesis using 1 by (simp add: m_def)
    next
      case 2
      with bb show ?thesis by (simp add: m_def)
    next
      case 3
      let ?k = "nat (b - 11)"
      obtain q where q: "n = 2 ^ ?k * q" using assms(3) by (auto simp: b_def elim: dvdE)
      have k: "nat (b - 1) = ?k + 10" "nat b = ?k + 11" using 3 by linarith+
      have "(2::int) ^ ?k * 1024 \<le> 2 ^ ?k * q" "2 ^ ?k * q < (2::int) ^ ?k * 2048"
        using bb(1,2) unfolding k power_add q by simp_all
      then have "1024 \<le> q" "q < 2048" by simp_all
      moreover have "nat (b + 14 - 25) = ?k" by simp
      ultimately show ?thesis using 3 q by (simp add: m_def)
    qed
    then show "(if 25 \<le> b + 14 then m * 2 ^ nat (b + 14 - 25) else m div 2 ^ nat (25 - (b + 14))) = n"
      and "1024 \<le> m" and "m < 2048" by blast+
  qed
  have e: "encode_half n = (b + 14) * 1024 + (m - 1024)" using assms(1) by (simp add: encode_half_def Let_def b_def m_def)
  have f: "half_exp (word_of_int (encode_half n)) = b + 14 \<and> half_frac (word_of_int (encode_half n)) = m - 1024 \<and>
      \<not> half_sign (word_of_int (encode_half n)) \<and> half_exp (word_of_int (0x8000 + encode_half n)) = b + 14 \<and>
      half_frac (word_of_int (0x8000 + encode_half n)) = m - 1024 \<and> half_sign (word_of_int (0x8000 + encode_half n))"
    unfolding e using half_fields[of "b + 14" m] bb(3) b16 m by simp
  have ne: "b + 14 \<noteq> 0" "b + 14 \<noteq> 31" using bb(3) b16 by linarith+
  show ?thesis
    using half_trunc_fields[OF _ _ ne val, of "word_of_int (encode_half n)"]
      half_trunc_fields[OF _ _ ne val, of "word_of_int (0x8000 + encode_half n)"] f by presburger
qed


text \<open>Rounding to 11 bits below the largest half stays there and leaves 11 bits.\<close>

lemma round11:
  assumes "0 \<le> n" and "n \<le> half_max"
  defines "r \<equiv> round_sig 11 n"
  shows "0 \<le> r \<and> r \<le> half_max \<and> 2 ^ nat (bitlen r - 11) dvd r \<and>
    2 * \<bar>r - n\<bar> \<le> 2 ^ nat (bitlen n - 11)"
proof (cases "bitlen n \<le> 11")
  case True
  then show ?thesis using assms by (simp add: round_sig_def)
next
  case False
  define s where "s = nat (bitlen n - 11)"
  define u where "u = (2::int) ^ s"
  have u: "u dvd r" "2 * \<bar>r - n\<bar> \<le> u" "0 \<le> r"
    using round_sig_unit[of n u 11] assms(1) by (simp_all add: r_def u_def s_def)
  have b: "n < 2 ^ (s + 11)" "0 < n"
  proof -
    show n0: "0 < n" using False assms(1) by (cases "n = 0") simp_all
    have "nat (bitlen n) = s + 11" using False by (simp add: s_def)
    with bitlen_of[OF n0] show "n < 2 ^ (s + 11)" by metis
  qed
  have "s \<le> 5" using bitlen_leI[of n 16] assms(1,2) by (simp add: half_max_def s_def)
  then have "s \<in> {0, 1, 2, 3, 4, 5}" by auto
  then have hm: "u dvd half_max" "u * 2048 = 2 ^ (s + 11)" by (auto simp: half_max_def u_def power_add)
  obtain c where c: "r = u * c" using u(1) by (elim dvdE)
  obtain d where d: "half_max = u * d" using hm(1) by (elim dvdE)
  have up: "0 < u" by (simp add: u_def)
  have lin: "x < y + v" if "2 * \<bar>x - z\<bar> \<le> v" "z \<le> y" "0 < v" for x y z v :: int
    using that by (auto simp: abs_if split: if_splits)
  have "r < half_max + u" by (rule lin[OF u(2) assms(2) up])
  then have "r < u * (d + 1)" unfolding d by (simp add: algebra_simps)
  then have "c \<le> d" using c up by (simp add: mult_less_cancel_left_pos)
  then have rm: "r \<le> half_max" unfolding c d using up by (intro mult_left_mono) simp_all
  have "r < 2 ^ (s + 11) \<or> r = 2 ^ (s + 11)"
  proof -
    have "r < 2 ^ (s + 11) + u" by (rule lin[OF u(2) less_imp_le[OF b(1)] up])
    then have "r < u * 2048 + u" by (simp only: hm(2))
    then have "u * c < u * 2049" unfolding c by simp
    then have "c \<le> 2048" using up by simp
    then have "r \<le> u * 2048" using c up by simp
    then show ?thesis unfolding hm(2) by linarith
  qed
  then have "2 ^ nat (bitlen r - 11) dvd r"
  proof
    assume "r < 2 ^ (s + 11)"
    then have "nat (bitlen r - 11) \<le> s" using bitlen_leI[of r "s + 11"] u(3) by simp
    then have "(2::int) ^ nat (bitlen r - 11) dvd u" unfolding u_def by (rule le_imp_power_dvd)
    then show ?thesis using u(1) by (rule dvd_trans)
  next
    assume r: "r = 2 ^ (s + 11)"
    have "bitlen r \<le> int (s + 12)" using u(3) by (intro bitlen_leI) (simp_all add: r)
    then have "nat (bitlen r - 11) \<le> s + 11" by linarith
    then show ?thesis unfolding r by (rule le_imp_power_dvd)
  qed
  with u(2,3) rm show ?thesis by (simp add: u_def s_def)
qed

text \<open>Converting to half precision and back: the result is the input clipped to \<open>65504\<close> and
  rounded to 11 significant bits, symmetrically in the sign; it is the input itself up to
  \<open>2048\<close>, and never an infinity.\<close>

theorem half_conversion_roundtrip:
  defines "r \<equiv> \<lambda>w. round_sig 11 (min half_max (round_sig 24 \<bar>sint w\<bar>))"
  shows "sint (conv_f16_to_i32 (conv_i32_to_f16 w)) = sgn (sint w) * r w \<and>
    \<not> half_special (conv_i32_to_f16 w) \<and> 0 \<le> r w \<and> r w \<le> 65504 \<and>
    (\<bar>sint w\<bar> \<le> 2048 \<longrightarrow> conv_f16_to_i32 (conv_i32_to_f16 w) = w)"
proof -
  let ?v = "sint w" and ?r = "r w"
  have c: "0 \<le> min half_max (round_sig 24 \<bar>?v\<bar>)" "min half_max (round_sig 24 \<bar>?v\<bar>) \<le> half_max"
    using round_sig_unit[OF _ refl, of "\<bar>?v\<bar>" 24] by (simp_all add: half_max_def)
  have r0: "0 \<le> ?r" "?r \<le> half_max" "2 ^ nat (bitlen ?r - 11) dvd ?r"
    using round11[OF c] by (simp_all add: r_def)
  have small: "\<bar>?v\<bar> \<le> 2048 \<Longrightarrow> ?r = \<bar>?v\<bar>"
  proof -
    assume v: "\<bar>?v\<bar> \<le> 2048"
    then have "round_sig 24 \<bar>?v\<bar> = \<bar>?v\<bar>" by (intro round_sig_small) simp_all
    then have e: "?r = round_sig 11 \<bar>?v\<bar>" using v by (simp add: r_def half_max_def)
    show "?r = \<bar>?v\<bar>"
    proof (cases "\<bar>?v\<bar> < 2048")
      case True
      then show ?thesis unfolding e by (intro round_sig_small) simp_all
    next
      case False
      with v have "\<bar>?v\<bar> = 2048" by simp
      moreover have "round_sig 11 2048 = 2048" by code_simp
      ultimately show ?thesis using e by simp
    qed
  qed
  have conv: "conv_i32_to_f16 w = word_of_int (if ?v < 0 then 0x8000 + encode_half ?r else encode_half ?r)"
    by (simp only: conv_i32_to_f16_def Let_def r_def)
  have main: "\<not> half_special (conv_i32_to_f16 w) \<and> half_trunc (conv_i32_to_f16 w) = sgn ?v * ?r"
  proof (cases "?r = 0")
    case True
    have "\<not> half_special (word_of_int 0)" "half_trunc (word_of_int 0) = 0"
      "\<not> half_special (word_of_int 0x8000)" "half_trunc (word_of_int 0x8000) = 0" by code_simp+
    then show ?thesis using True by (simp add: conv encode_half_def)
  next
    case False
    then have "0 < ?r" using r0(1) by simp
    from half_trunc_encode[OF this r0(2,3)] have
      "\<not> half_special (conv_i32_to_f16 w) \<and> half_trunc (conv_i32_to_f16 w) = (if ?v < 0 then - ?r else ?r)"
      unfolding conv by presburger
    moreover have "?v \<noteq> 0" using False small by auto
    ultimately show ?thesis by (simp add: sgn_if)
  qed
  have "sint (word_of_int (sgn ?v * ?r) :: 32 word) = sgn ?v * ?r"
    using r0(1,2) by (intro sint_of_int_id) (auto simp: sgn_if half_max_def)
  then have val: "sint (conv_f16_to_i32 (conv_i32_to_f16 w)) = sgn ?v * ?r"
    using main by (simp add: conv_f16_to_i32_def)
  have "\<bar>?v\<bar> \<le> 2048 \<longrightarrow> conv_f16_to_i32 (conv_i32_to_f16 w) = w"
  proof
    assume "\<bar>?v\<bar> \<le> 2048"
    then have "sgn ?v * ?r = ?v" using small by (simp add: sgn_if)
    then show "conv_f16_to_i32 (conv_i32_to_f16 w) = w" using val by (metis signed_word_eqI)
  qed
  with val main r0 show ?thesis by (simp add: half_max_def)
qed

lemma half_conversion_roundtrip_witness: "conv_f16_to_i32 (conv_i32_to_f16 (-1234)) = -1234"
  using half_conversion_roundtrip[of "-1234"] by simp

end
