(* ===== verification/Golden_Dma.thy ===== *)
theory Golden_Dma
  imports Golden_Mem
begin

text \<open>
  The DMA engine and the network of the golden executor, \<open>sim/golden_executor.py\<close>: 64-bit
  descriptors with their validation, encoding and decoding, loads and stores between DRAM and
  SRAM, descriptor chains, packets and their delivery. The payload of a packet is its bytes.
\<close>

section \<open>Descriptors\<close>

record dma_desc =
  dd_dram :: int
  dd_sram :: int
  dd_size :: int
  dd_direction :: int
  dd_last :: bool
  dd_channel :: int
  dd_cycle_cost :: int

text \<open>Construction, with the checks of \<open>__post_init__\<close> in their order.\<close>

definition desc_new :: "int \<Rightarrow> int \<Rightarrow> int \<Rightarrow> int \<Rightarrow> bool \<Rightarrow> int \<Rightarrow> int \<Rightarrow> dma_desc result" where
  "desc_new dram sram sz dir lst ch cost =
     (if dir \<notin> {0, 1} then Inl (ValueError ''direction'')
      else if ch \<notin> {0, 1, 2, 3} then Inl (ValueError ''channel'')
      else if \<not> (0 \<le> sz \<and> sz \<le> 4095) \<and> sz \<noteq> 4096 then Inl (ValueError ''size'')
      else if \<not> (0 \<le> sram \<and> sram < 0x10000) then Inl (ValueError ''sram_addr'')
      else if \<not> (0 \<le> dram \<and> dram < 0x100000000) then Inl (ValueError ''dram_addr'')
      else Inr \<lparr>dd_dram = dram, dd_sram = sram, dd_size = sz, dd_direction = dir, dd_last = lst,
                dd_channel = ch, dd_cycle_cost = cost\<rparr>)"

definition actual_size :: "dma_desc \<Rightarrow> int" where
  "actual_size d = (if dd_size d = 0 then 4096 else dd_size d)"

definition encode_desc :: "dma_desc \<Rightarrow> int" where
  "encode_desc d = (let sz = (if dd_size d = 4096 then 0 else dd_size d) in
     push_bit 32 (dd_dram d AND 0xFFFFFFFF) OR push_bit 16 (dd_sram d AND 0xFFFF) OR push_bit 4 (sz AND 0xFFF)
     OR push_bit 3 (dd_direction d AND 0x1) OR push_bit 2 (if dd_last d then 1 else 0) OR (dd_channel d AND 0x3))"

definition decode_desc :: "int \<Rightarrow> dma_desc result" where
  "decode_desc w = desc_new (drop_bit 32 w AND 0xFFFFFFFF) (drop_bit 16 w AND 0xFFFF) (drop_bit 4 w AND 0xFFF)
     (drop_bit 3 w AND 0x1) ((drop_bit 2 w AND 0x1) \<noteq> 0) (w AND 0x3) 0"

definition desc_ok :: "dma_desc \<Rightarrow> bool" where
  "desc_ok d \<longleftrightarrow> dd_direction d \<in> {0, 1} \<and> dd_channel d \<in> {0, 1, 2, 3} \<and> 0 \<le> dd_size d \<and> dd_size d \<le> 4096 \<and>
     0 \<le> dd_sram d \<and> dd_sram d < 0x10000 \<and> 0 \<le> dd_dram d \<and> dd_dram d < 0x100000000"

lemma desc_new_ok: "desc_new dram sram sz dir lst ch cost = Inr d \<longleftrightarrow> desc_ok d \<and>
    d = \<lparr>dd_dram = dram, dd_sram = sram, dd_size = sz, dd_direction = dir, dd_last = lst,
         dd_channel = ch, dd_cycle_cost = cost\<rparr>"
proof -
  have sz: "\<not> (0 \<le> sz \<and> sz \<le> 4095) \<and> sz \<noteq> 4096 \<longleftrightarrow> \<not> (0 \<le> sz \<and> sz \<le> 4096)" by presburger
  show ?thesis
    unfolding desc_new_def desc_ok_def sz
    by (cases "dir \<in> {0, 1}"; cases "ch \<in> {0, 1, 2, 3}"; cases "0 \<le> sz \<and> sz \<le> 4096";
        cases "0 \<le> sram \<and> sram < 0x10000"; cases "0 \<le> dram \<and> dram < 0x100000000")
      (simp_all del: insert_iff, (force simp del: insert_iff)+)
qed

section \<open>Loads, stores and chains\<close>

definition dram_size :: nat where "dram_size = 256 * 1024 * 1024"

definition execute_load :: "dma_desc \<Rightarrow> memory \<Rightarrow> (sram, unit) op" where
  "execute_load d dram = write_bytes (dd_sram d) (slice dram_size dram (dd_dram d) (dd_dram d + actual_size d))"

definition execute_store :: "dma_desc \<Rightarrow> sram \<Rightarrow> (memory, unit) op" where
  "execute_store d s dram = (case read_bytes (dd_sram d) (actual_size d) s of
     Inl e \<Rightarrow> (Inl e, dram)
   | Inr bs \<Rightarrow> assign_slice dram_size (dd_dram d) (dd_dram d + actual_size d) bs dram)"

text \<open>The loop of \<open>build_weight_load_chain\<close>; \<open>None\<close> when it does not return.\<close>

partial_function (option) chain_loop ::
  "int \<Rightarrow> int \<Rightarrow> int \<Rightarrow> int \<Rightarrow> int \<Rightarrow> dma_desc list result option" where
  "chain_loop sram_base dram_base chunk remaining offset =
     (if remaining \<le> 0 then Some (Inr [])
      else let sz = min chunk remaining in
        case desc_new (dram_base + offset) (sram_base + offset) sz 0 (remaining \<le> chunk) 0 0 of
          Inl e \<Rightarrow> Some (Inl e)
        | Inr d \<Rightarrow> Option.bind (chain_loop sram_base dram_base chunk (remaining - sz) (offset + sz))
            (\<lambda>r. Some (bind_res r (\<lambda>ds. Inr (d # ds)))))"

definition build_weight_load_chain :: "int \<Rightarrow> int \<Rightarrow> int \<Rightarrow> int \<Rightarrow> dma_desc list result option" where
  "build_weight_load_chain sram_base dram_base total_bytes chunk = chain_loop sram_base dram_base chunk total_bytes 0"

section \<open>The network\<close>

record noc_packet =
  np_src :: int
  np_dst :: int
  np_payload :: "byte list"
  np_id :: int
  np_priority :: int
  np_size :: int

definition packet_new :: "int \<Rightarrow> int \<Rightarrow> byte list \<Rightarrow> int \<Rightarrow> int \<Rightarrow> int \<Rightarrow> noc_packet" where
  "packet_new src dst payload pid prio sz =
     \<lparr>np_src = src, np_dst = dst, np_payload = payload, np_id = pid, np_priority = prio,
      np_size = (if sz = 0 \<and> payload \<noteq> [] then int (length payload) else sz)\<rparr>"

record net_state =
  ns_active :: "int list option"
  ns_congestion :: "(int \<times> int, int) dict"

definition route_packet :: "noc_packet \<Rightarrow> net_state \<Rightarrow> bool" where
  "route_packet p ns =
     (if (case ns_active ns of None \<Rightarrow> False | Some act \<Rightarrow> np_dst p \<notin> set act) then False
      else \<not> (case map_of (ns_congestion ns) (np_src p, np_dst p) of None \<Rightarrow> False | Some c \<Rightarrow> 0 < c))"

text \<open>A \<open>bytearray\<close> is a list; assigning a slice replaces it.\<close>

definition deliver_payload :: "noc_packet \<Rightarrow> int \<Rightarrow> (byte list, unit) op" where
  "deliver_payload p addr mem =
     (let raw = np_payload p; lo = clip_index (length mem) addr;
          hi = max lo (clip_index (length mem) (addr + int (length raw)))
      in if int (length mem) < addr + int (length raw) then (Inl (ValueError ''NoC payload overflow''), mem)
         else (Inr (), take lo mem @ raw @ drop hi mem))"

definition build_transfer_packet :: "int \<Rightarrow> int \<Rightarrow> byte list \<Rightarrow> int \<Rightarrow> noc_packet" where
  "build_transfer_packet src dst data prio = packet_new src dst data 0 prio (int (length data))"

section \<open>Descriptors survive encoding\<close>

lemma flag_field: "(if b then 1 else (0::int)) = take_bit 1 (of_bool b)"
  by simp

lemma desc_fields:
  "take_bit 32 (drop_bit 32 (encode_desc d)) = take_bit 32 (dd_dram d)"
  "take_bit 16 (drop_bit 16 (encode_desc d)) = take_bit 16 (dd_sram d)"
  "take_bit 12 (drop_bit 4 (encode_desc d)) = take_bit 12 (if dd_size d = 4096 then 0 else dd_size d)"
  "take_bit 1 (drop_bit 3 (encode_desc d)) = take_bit 1 (dd_direction d)"
  "take_bit 1 (drop_bit 2 (encode_desc d)) = take_bit 1 (of_bool (dd_last d))"
  "take_bit 2 (encode_desc d) = take_bit 2 (dd_channel d)"
  unfolding encode_desc_def Let_def flag_field
  by (simp_all only: mask_lits)
    (simp_all add: field_simps' del: One_nat_def take_bit_of_1 take_bit_Suc_0)

lemma decode_encode_fields:
  "decode_desc (encode_desc d) = desc_new (take_bit 32 (dd_dram d)) (take_bit 16 (dd_sram d))
     (take_bit 12 (if dd_size d = 4096 then 0 else dd_size d)) (take_bit 1 (dd_direction d))
     (take_bit 1 (of_bool (dd_last d) :: int) \<noteq> 0) (take_bit 2 (dd_channel d)) 0"
  unfolding decode_desc_def by (simp only: mask_lits desc_fields)


definition normal_desc :: "dma_desc \<Rightarrow> dma_desc" where
  "normal_desc d = d\<lparr>dd_size := (if dd_size d = 4096 then 0 else dd_size d), dd_cycle_cost := 0\<rparr>"

lemma normal_desc_simps [simp]:
  "actual_size (normal_desc d) = actual_size d" "dd_dram (normal_desc d) = dd_dram d"
  "dd_sram (normal_desc d) = dd_sram d" "dd_last (normal_desc d) = dd_last d"
  by (simp_all add: normal_desc_def actual_size_def)

lemma decode_encode_desc: "desc_ok d \<Longrightarrow> decode_desc (encode_desc d) = Inr (normal_desc d)"
  unfolding decode_encode_fields desc_new_ok desc_ok_def normal_desc_def
  by (auto simp: take_bit_id)

lemma or_bound: "0 \<le> a \<Longrightarrow> 0 \<le> b \<Longrightarrow> a < 2 ^ n \<Longrightarrow> b < 2 ^ n \<Longrightarrow> a OR b < 2 ^ n" for a b :: int
  by (metis or_nonnegative_int_iff take_bit_int_eq_self_iff take_bit_or)

lemma encode_desc_bound: "0 \<le> encode_desc d \<and> encode_desc d < 2 ^ 64"
proof -
  have "take_bit 64 (encode_desc d) = encode_desc d"
    unfolding encode_desc_def Let_def flag_field
    by (simp add: mask_lits push_bound take_bit_take_bit del: One_nat_def take_bit_of_1 take_bit_Suc_0)
  then show ?thesis by (metis take_bit_bound)
qed


lemma join_slot: "push_bit k (take_bit n (drop_bit k w)) OR take_bit k w = take_bit (k + n) (w::int)"
  by (rule bit_eqI) (auto simp: bit_simps)

lemma slots_of_word:
  "push_bit 32 (take_bit 32 (drop_bit 32 w)) OR push_bit 16 (take_bit 16 (drop_bit 16 w)) OR
   push_bit 4 (take_bit 12 (drop_bit 4 w)) OR push_bit 3 (take_bit 1 (drop_bit 3 w)) OR
   push_bit 2 (take_bit 1 (drop_bit 2 w)) OR take_bit 2 w = take_bit 64 (w::int)"
  using join_slot[of 2 1 w] join_slot[of 3 1 w] join_slot[of 4 12 w] join_slot[of 16 16 w] join_slot[of 32 32 w]
  by (simp only: arith_simps numeral_plus_one)

lemma one_bit: "(if take_bit 1 x \<noteq> 0 then 1 else 0) = take_bit 1 (x::int)" "take_bit 1 (x::int) \<in> {0, 1}"
  by (simp_all add: take_bit_lit_mod) auto

lemma two_bits: "take_bit 2 (x::int) \<in> {0, 1, 2, 3}"
proof -
  have "0 \<le> x mod 4" "x mod 4 < 4" by simp_all
  then show ?thesis by (simp add: take_bit_lit_mod) linarith
qed

lemma decode_desc_total:
  obtains d where "decode_desc w = Inr d" and "desc_ok d" and "encode_desc d = take_bit 64 w"
proof
  let ?d = "\<lparr>dd_dram = take_bit 32 (drop_bit 32 w), dd_sram = take_bit 16 (drop_bit 16 w),
     dd_size = take_bit 12 (drop_bit 4 w), dd_direction = take_bit 1 (drop_bit 3 w),
     dd_last = take_bit 1 (drop_bit 2 w) \<noteq> 0, dd_channel = take_bit 2 w, dd_cycle_cost = 0\<rparr>"
  have b: "take_bit 12 (drop_bit 4 w) < 4096" "take_bit 16 (drop_bit 16 w) < 65536" "take_bit 32 (drop_bit 32 w) < 4294967296"
    using field_bounds(2)[of 12 "drop_bit 4 w"] field_bounds(2)[of 16 "drop_bit 16 w"]
      field_bounds(2)[of 32 "drop_bit 32 w"] by simp_all
  show ok: "desc_ok ?d"
    using one_bit(2)[of "drop_bit 3 w"] two_bits[of w] b
    by (simp add: desc_ok_def del: insert_iff One_nat_def take_bit_of_1 take_bit_Suc_0)
  then show "decode_desc w = Inr ?d"
    unfolding decode_desc_def mask_lits desc_new_ok by simp
  show "encode_desc ?d = take_bit 64 w"
    unfolding encode_desc_def Let_def
    by (simp only: mask_lits) (use b(1) in \<open>simp add: one_bit(1) take_bit_take_bit slots_of_word
      del: One_nat_def take_bit_of_1 take_bit_Suc_0\<close>)
qed

text \<open>C17. DMA descriptors survive their 64-bit encoding: every validated descriptor encodes into 64 bits
  and decodes to itself, up to the encoding of size 4096 as 0, which keeps the bytes moved;
  every 64-bit word decodes, to a valid descriptor that encodes to the same word.\<close>

theorem descriptor_roundtrip:
  assumes "desc_ok d"
  shows "0 \<le> encode_desc d \<and> encode_desc d < 2 ^ 64 \<and>
    decode_desc (encode_desc d) =
      Inr (d\<lparr>dd_size := (if dd_size d = 4096 then 0 else dd_size d), dd_cycle_cost := 0\<rparr>) \<and>
    (\<forall>d'. decode_desc (encode_desc d) = Inr d' \<longrightarrow> actual_size d' = actual_size d) \<and>
    (\<forall>w. 0 \<le> w \<and> w < 2 ^ 64 \<longrightarrow>
       (case decode_desc w of Inl e \<Rightarrow> False | Inr d' \<Rightarrow> desc_ok d' \<and> encode_desc d' = w))"
proof -
  have "case decode_desc w of Inl e \<Rightarrow> False | Inr d' \<Rightarrow> desc_ok d' \<and> encode_desc d' = w"
    if "0 \<le> w \<and> w < 2 ^ 64" for w
  proof -
    obtain d' where "decode_desc w = Inr d'" "desc_ok d'" "encode_desc d' = take_bit 64 w"
      by (rule decode_desc_total)
    moreover have "take_bit 64 w = w" by (rule take_bit_id) (use that in blast)+
    ultimately show ?thesis by simp
  qed
  then show ?thesis
    unfolding decode_encode_desc[OF assms] normal_desc_def[symmetric] using encode_desc_bound[of d] by simp
qed

lemma descriptor_roundtrip_witness:
  "decode_desc (encode_desc \<lparr>dd_dram = 0x12345678, dd_sram = 0x9ABC, dd_size = 4096, dd_direction = 1,
      dd_last = True, dd_channel = 3, dd_cycle_cost = 7\<rparr>) =
   Inr \<lparr>dd_dram = 0x12345678, dd_sram = 0x9ABC, dd_size = 0, dd_direction = 1,
      dd_last = True, dd_channel = 3, dd_cycle_cost = 0\<rparr>"
  using descriptor_roundtrip[of "\<lparr>dd_dram = 0x12345678, dd_sram = 0x9ABC, dd_size = 4096, dd_direction = 1,
      dd_last = True, dd_channel = 3, dd_cycle_cost = 7\<rparr>", THEN conjunct2, THEN conjunct2, THEN conjunct1]
  by (simp add: desc_ok_def)

section \<open>A chain copies one block\<close>

text \<open>What a load chain should be: valid load descriptors, one after the other from \<open>sb\<close> and \<open>db\<close>,
  \<open>n\<close> bytes in all, exactly the last one flagged.\<close>

fun chain_ok :: "int \<Rightarrow> int \<Rightarrow> int \<Rightarrow> dma_desc list \<Rightarrow> bool" where
  "chain_ok sb db n [] \<longleftrightarrow> n = 0"
| "chain_ok sb db n (d # ds) \<longleftrightarrow> desc_ok d \<and> dd_sram d = sb \<and> dd_dram d = db \<and> dd_direction d = 0 \<and>
     dd_last d = (ds = []) \<and> 0 < dd_size d \<and>
     chain_ok (sb + dd_size d) (db + dd_size d) (n - dd_size d) ds"

definition block :: "memory \<Rightarrow> int \<Rightarrow> int \<Rightarrow> byte list" where
  "block m a n = map m [nat a..<nat a + nat n]"

lemma length_block [simp]: "length (block m a n) = nat n"
  by (simp add: block_def)

lemma block_append: "0 \<le> a \<Longrightarrow> 0 \<le> n \<Longrightarrow> 0 \<le> k \<Longrightarrow> block m a n @ block m (a + n) k = block m a (n + k)"
  by (simp add: block_def nat_add_distrib upt_add_eq_append[symmetric] flip: map_append)
    (metis add.assoc le_add1 upt_add_eq_append map_append)

lemma store_at_append: "store_at (lo + length xs) ys (store_at lo xs m) = store_at lo (xs @ ys) m"
  by (rule ext) (auto simp: store_at_def nth_append diff_diff_left)

lemma store_at_Nil [simp]: "store_at lo [] m = m"
  by (rule ext) (auto simp: store_at_def)

lemma seq_op_Inr: "m s = (Inr x, t) \<Longrightarrow> seq_op m n s = n t"
  by (simp add: seq_op_def bind_op_def)

lemma execute_load_inside:
  assumes "desc_ok d" and "dd_dram d + actual_size d \<le> int dram_size"
  shows "execute_load d dram s =
    (Inr (), s\<lparr>sm_data := store_at (nat (dd_sram d)) (block dram (dd_dram d) (actual_size d)) (sm_data s)\<rparr>)"
proof -
  have b: "0 \<le> dd_dram d" "0 \<le> actual_size d" "0 \<le> dd_sram d" "dd_sram d + actual_size d \<le> 65536 + 4096"
    using assms(1) by (auto simp: desc_ok_def actual_size_def)
  have "slice dram_size dram (dd_dram d) (dd_dram d + actual_size d) = block dram (dd_dram d) (actual_size d)"
    using slice_inside[of "dd_dram d" "nat (actual_size d)" dram_size dram] b(1,2) assms(2) by (simp add: block_def)
  then show ?thesis
    using b by (simp add: execute_load_def write_bytes_inside sram_size_def)
qed

lemma chain_ok_length: "chain_ok sb db n ds \<Longrightarrow> 0 \<le> n"
proof (induction ds arbitrary: sb db n)
  case (Cons d ds)
  from Cons.prems have "0 < dd_size d" and "chain_ok (sb + dd_size d) (db + dd_size d) (n - dd_size d) ds" by simp_all
  with Cons.IH show ?case by fastforce
qed simp

lemma chain_ok_copies:
  assumes "chain_ok sb db n ds" and "db + n \<le> int dram_size" and "0 \<le> sb" and "0 \<le> db"
  shows "for_op ds (\<lambda>d. execute_load d dram) s =
    (Inr (), s\<lparr>sm_data := store_at (nat sb) (block dram db n) (sm_data s)\<rparr>)"
  using assms
proof (induction ds arbitrary: sb db n s)
  case Nil
  then show ?case by (simp add: op_simps block_def)
next
  case (Cons d ds)
  let ?k = "dd_size d"
  from Cons.prems have d: "desc_ok d" "dd_sram d = sb" "dd_dram d = db" "actual_size d = ?k" "0 < ?k"
    and ds: "chain_ok (sb + ?k) (db + ?k) (n - ?k) ds" by (simp_all add: actual_size_def)
  have le: "0 \<le> n - ?k" using ds by (rule chain_ok_length)
  have one: "execute_load d dram s = (Inr (), s\<lparr>sm_data := store_at (nat sb) (block dram db ?k) (sm_data s)\<rparr>)"
    using execute_load_inside[OF d(1)] d le Cons.prems(2) by simp
  have sb': "nat (sb + ?k) = nat sb + length (block dram db ?k)"
    using Cons.prems(3) d(5) by (simp add: nat_add_distrib)
  have app: "block dram db ?k @ block dram (db + ?k) (n - ?k) = block dram db n"
    using block_append[of db ?k "n - ?k" dram] le d(5) Cons.prems(4) by simp
  let ?t = "s\<lparr>sm_data := store_at (nat sb) (block dram db ?k) (sm_data s)\<rparr>"
  have "for_op (d # ds) (\<lambda>d. execute_load d dram) s = for_op ds (\<lambda>d. execute_load d dram) ?t"
    unfolding for_op.simps by (rule seq_op_Inr[where m = "execute_load d dram"]) (rule one)
  also have "\<dots> = (Inr (), ?t\<lparr>sm_data := store_at (nat (sb + ?k)) (block dram (db + ?k) (n - ?k)) (sm_data ?t)\<rparr>)"
    using Cons.prems d(5) by (intro Cons.IH[OF ds]) simp_all
  also have "\<dots> = (Inr (), s\<lparr>sm_data := store_at (nat sb) (block dram db n) (sm_data s)\<rparr>)"
    unfolding sb' by (simp add: store_at_append app del: length_block)
  finally show ?case .
qed

lemma chain_loop_ok:
  assumes "1 \<le> chunk" and "chunk \<le> 4096" and "0 \<le> n" and "0 \<le> sb + off" and "0 \<le> db + off"
    and "sb + off + n \<le> 0x10000" and "db + off + n \<le> 0x100000000"
  shows "\<exists>ds. chain_loop sb db chunk n off = Some (Inr ds) \<and> chain_ok (sb + off) (db + off) n ds"
  using assms
proof (induction "nat n" arbitrary: n off rule: less_induct)
  case less
  show ?case
  proof (cases "n = 0")
    case True
    then show ?thesis by (subst chain_loop.simps) simp
  next
    case False
    define k where "k = min chunk n"
    have k: "0 < k" "k \<le> n" "k \<le> 4096" using False less.prems by (auto simp: k_def)
    let ?d = "\<lparr>dd_dram = db + off, dd_sram = sb + off, dd_size = k, dd_direction = 0, dd_last = (n \<le> chunk),
         dd_channel = 0, dd_cycle_cost = 0\<rparr>"
    have ok: "desc_ok ?d" using k less.prems by (simp add: desc_ok_def)
    then have new: "desc_new (db + off) (sb + off) k 0 (n \<le> chunk) 0 0 = Inr ?d" by (simp add: desc_new_ok)
    obtain ds where ds: "chain_loop sb db chunk (n - k) (off + k) = Some (Inr ds)"
      "chain_ok (sb + (off + k)) (db + (off + k)) (n - k) ds"
      using less.hyps[of "n - k" "off + k"] less.prems k by auto
    have "chain_loop sb db chunk n off = Some (Inr (?d # ds))"
      using False less.prems k by (subst chain_loop.simps) (simp add: ds new flip: k_def)
    moreover have "(n \<le> chunk) = (ds = [])"
    proof -
      have "n \<le> chunk \<longleftrightarrow> n - k = 0" by (auto simp: k_def)
      moreover have "n - k = 0 \<longleftrightarrow> ds = []"
        using ds(2) chain_ok_length by (cases ds) fastforce+
      ultimately show ?thesis by simp
    qed
    then have "chain_ok (sb + off) (db + off) n (?d # ds)" using ok ds(2) k by (simp add: add.assoc)
    ultimately show ?thesis by blast
  qed
qed

text \<open>Building a weight-load chain of \<open>n\<close> bytes with a chunk size from 1 to 4096, inside the
  address ranges, returns a chain that is contiguous, complete and flagged on its last descriptor
  only; executing its descriptors in order succeeds and copies exactly the \<open>n\<close> bytes at \<open>db\<close> in
  DRAM to \<open>sb\<close> in SRAM, whatever the chunk size.\<close>

theorem weight_load_chain_copies:
  assumes "1 \<le> chunk" and "chunk \<le> 4096" and "0 \<le> n" and "0 \<le> sb" and "0 \<le> db"
    and "sb + n \<le> 0x10000" and "db + n \<le> int dram_size"
  shows "\<exists>ds. build_weight_load_chain sb db n chunk = Some (Inr ds) \<and> chain_ok sb db n ds \<and>
    (\<forall>dram s. for_op ds (\<lambda>d. execute_load d dram) s =
       (Inr (), s\<lparr>sm_data := store_at (nat sb) (block dram db n) (sm_data s)\<rparr>))"
proof -
  have "db + n \<le> 0x100000000" using assms(7) by (simp add: dram_size_def)
  then obtain ds where ds: "build_weight_load_chain sb db n chunk = Some (Inr ds)" "chain_ok sb db n ds"
    using chain_loop_ok[of chunk n sb 0 db] assms by (auto simp: build_weight_load_chain_def)
  then show ?thesis using chain_ok_copies[OF ds(2) assms(7,4,5)] by blast
qed

lemma weight_load_chain_copies_witness:
  "\<exists>ds. build_weight_load_chain 256 4096 10000 4096 = Some (Inr ds) \<and> chain_ok 256 4096 10000 ds"
  using weight_load_chain_copies[of 4096 10000 256 4096] by (auto simp: dram_size_def)

definition stuck_chain :: "int \<Rightarrow> int \<Rightarrow> int \<Rightarrow> int \<Rightarrow> int \<Rightarrow> bool" where
  "stuck_chain sb db chunk n off \<longleftrightarrow> chunk = 0 \<and> 0 < n \<and> 0 \<le> sb + off \<and> sb + off < 0x10000 \<and>
     0 \<le> db + off \<and> db + off < 0x100000000"

lemma chain_loop_zero:
  assumes "chain_loop sb db chunk n off = Some r"
  shows "\<not> stuck_chain sb db chunk n off"
proof (rule chain_loop.raw_induct[where P = "\<lambda>sb db chunk n off r. \<not> stuck_chain sb db chunk n off", OF _ assms],
    goal_cases)
  case (1 f sb db chunk n off r)
  show ?case
  proof (rule ccontr)
    assume "\<not> ?thesis"
    then have a: "stuck_chain sb db chunk n off" by simp
    then have "desc_new (db + off) (sb + off) 0 0 (n \<le> 0) 0 0 = Inr
        \<lparr>dd_dram = db + off, dd_sram = sb + off, dd_size = 0, dd_direction = 0, dd_last = (n \<le> 0),
         dd_channel = 0, dd_cycle_cost = 0\<rparr>"
      by (simp add: desc_new_ok desc_ok_def stuck_chain_def)
    with 1(2) a obtain r' where "f sb db 0 n off = Some r'"
      by (auto simp: bind_eq_Some_conv stuck_chain_def)
    from 1(1)[OF this] a show False by (simp add: stuck_chain_def)
  qed
qed

text \<open>With a chunk size of 0 the loop of the chain builder makes no progress: a transfer of at least one
  byte inside the address ranges never returns; a negative chunk size raises.\<close>

theorem zero_chunk_never_returns:
  assumes "0 < n" and "0 \<le> sb" and "sb < 0x10000" and "0 \<le> db" and "db < 0x100000000"
  shows "build_weight_load_chain sb db n 0 = None \<and>
    (\<forall>c < 0. build_weight_load_chain sb db n c = Some (Inl (ValueError ''size'')))"
proof (intro conjI allI impI)
  show "build_weight_load_chain sb db n 0 = None"
    using chain_loop_zero[of sb db 0 n 0] assms unfolding build_weight_load_chain_def stuck_chain_def by fastforce
  fix c :: int assume "c < 0"
  then show "build_weight_load_chain sb db n c = Some (Inl (ValueError ''size''))"
    using assms(1) unfolding build_weight_load_chain_def
    by (subst chain_loop.simps) (simp add: desc_new_def min_def)
qed

lemma zero_chunk_never_returns_witness: "build_weight_load_chain 0 0 100 0 = None"
  using zero_chunk_never_returns[of 100 0 0] by simp

section \<open>Packets arrive\<close>

text \<open>Delivering a packet whose payload fits copies its bytes to the address and nothing else: the memory
  keeps its size, the payload is read back, every byte outside is unchanged. One that does not
  fit raises and leaves the memory alone, and a packet built without a size has the payload's.\<close>

theorem packet_delivery:
  assumes "0 \<le> addr" and "addr + int (length (np_payload p)) \<le> int (length mem)"
  shows "\<exists>mem'. deliver_payload p addr mem = (Inr (), mem') \<and> length mem' = length mem \<and>
      take (length (np_payload p)) (drop (nat addr) mem') = np_payload p \<and>
      take (nat addr) mem' = take (nat addr) mem \<and>
      drop (nat addr + length (np_payload p)) mem' = drop (nat addr + length (np_payload p)) mem \<and>
    (\<forall>q b. int (length mem) < b + int (length (np_payload q)) \<longrightarrow>
       snd (deliver_payload q b mem) = mem \<and> fst (deliver_payload q b mem) \<noteq> Inr ()) \<and>
    np_size (build_transfer_packet 0 1 (np_payload p) 0) = int (length (np_payload p))"
proof -
  let ?n = "length (np_payload p)"
  have c: "clip_index (length mem) addr = nat addr" "clip_index (length mem) (addr + int ?n) = nat addr + ?n"
    using assms by (simp_all add: clip_inside nat_add_distrib)
  have len: "nat addr + ?n \<le> length mem" using assms by linarith
  have "deliver_payload p addr mem =
      (Inr (), take (nat addr) mem @ np_payload p @ drop (nat addr + ?n) mem)"
    using assms by (simp add: deliver_payload_def Let_def c)
  then show ?thesis
    using len by (auto simp: deliver_payload_def Let_def build_transfer_packet_def packet_new_def)
qed

lemma packet_delivery_witness:
  "\<exists>mem'. deliver_payload (build_transfer_packet 0 1 [1, 2] 0) 1 [9, 9, 9, 9] = (Inr (), mem') \<and>
     take 2 (drop 1 mem') = [1, 2]"
  using packet_delivery[of 1 "build_transfer_packet 0 1 [1, 2] 0" "[9, 9, 9, 9]"]
  by (auto simp: build_transfer_packet_def packet_new_def numeral_2_eq_2)

end
