(* ===== verification/Hw_Dma.thy ===== *)
theory Hw_Dma
  imports Py_Float
begin

text \<open>
  The DMA bandwidth model of \<open>sim/models/dma.py\<close>: the configured engine, the cycles of one
  transfer, requests queued per channel under the two arbitration modes, the cycles of a
  channel and of the engine, and the estimate of a weight load, which queues a request and takes
  one away again. Bandwidths are floats (\<open>Py_Float\<close>). The configuration is the record of the
  values its keys convert to, \<open>None\<close> where a key with a default is missing.
\<close>

section \<open>Units\<close>

definition bandwidth_gbps_to_bytes_per_cycle :: "rat \<Rightarrow> rat \<Rightarrow> rat result" where
  "bandwidth_gbps_to_bytes_per_cycle bw freq =
     (if freq \<le> 0 then Inl (ValueError ''frequency_mhz'') else Inr (fdiv (fmul bw 1000) freq))"

section \<open>Requests and the engine\<close>

record dma_request =
  dq_type :: string
  dq_size :: int
  dq_direction :: string
  dq_blocks :: int
  dq_priority :: int

record dma_config =
  dc_burst_size :: int
  dc_descriptor_overhead :: int
  dc_max_pending :: "int option"
  dc_num_channels :: "int option"
  dc_fifo_depth :: "int option"
  dc_max_burst_length :: "int option"
  dc_multi_block_mode :: "string option"
  dc_ll_prefetch :: "bool option"
  dc_arbitration :: "string option"
  dc_frequency_mhz :: "rat option"
  dc_bandwidth_gbps :: "rat option"
  dc_efficiency :: "rat option"
  dc_efficiency_random :: "rat option"
  dc_random_penalty :: "int option"

record dma_model =
  dm_burst_size :: int
  dm_descriptor_overhead :: int
  dm_max_pending :: int
  dm_num_channels :: int
  dm_fifo_depth :: int
  dm_max_burst_length :: int
  dm_multi_block_mode :: string
  dm_ll_prefetch :: bool
  dm_arbitration :: string
  dm_queues :: "dma_request list list"
  dm_bw :: rat
  dm_random_penalty :: int
  dm_eff_weight :: rat
  dm_eff_kv :: rat

definition or_default :: "'a option \<Rightarrow> 'a \<Rightarrow> 'a" where
  "or_default x d = (case x of None \<Rightarrow> d | Some v \<Rightarrow> v)"

definition dma_new :: "dma_config \<Rightarrow> dma_model result" where
  "dma_new c = (let n = or_default (dc_num_channels c) 2 in
     bind_res (bandwidth_gbps_to_bytes_per_cycle (or_default (dc_bandwidth_gbps c) (fl 51.2))
                 (or_default (dc_frequency_mhz c) 1000)) (\<lambda>bw.
     Inr \<lparr>dm_burst_size = dc_burst_size c, dm_descriptor_overhead = dc_descriptor_overhead c,
          dm_max_pending = or_default (dc_max_pending c) 16, dm_num_channels = n,
          dm_fifo_depth = or_default (dc_fifo_depth c) 64,
          dm_max_burst_length = or_default (dc_max_burst_length c) 8,
          dm_multi_block_mode = or_default (dc_multi_block_mode c) ''linked_list'',
          dm_ll_prefetch = or_default (dc_ll_prefetch c) True,
          dm_arbitration = or_default (dc_arbitration c) ''round_robin'',
          dm_queues = replicate (nat n) [], dm_bw = bw,
          dm_random_penalty = or_default (dc_random_penalty c) 40,
          dm_eff_weight = fmul bw (or_default (dc_efficiency c) (fl 0.85)),
          dm_eff_kv = fmul bw (or_default (dc_efficiency_random c) (fl 0.5))\<rparr>))"

section \<open>One transfer\<close>

datatype access_type = SEQUENTIAL | RANDOM

text \<open>\<open>size / eff_bw\<close> is a float, so the sum is one: each addition rounds. A bandwidth of 0 or less
  gives the int 0, and the sum stays exact.\<close>

definition estimate_transfer :: "dma_model \<Rightarrow> int \<Rightarrow> string \<Rightarrow> access_type \<Rightarrow> int result" where
  "estimate_transfer m sz dir acc =
     (if sz \<le> 0 then Inr 0
      else if dm_burst_size m = 0 then Inl ZeroDivisionError
      else let bursts = \<lceil>fdiv_int sz (dm_burst_size m)\<rceil>;
               eff = (if acc = RANDOM then dm_eff_kv m else dm_eff_weight m);
               penalty = (if acc = RANDOM then dm_random_penalty m else 0)
           in if 0 < eff
              then Inr \<lceil>fadd (fadd (fadd (int_to_float (dm_descriptor_overhead m)) (fdiv (int_to_float sz) eff))
                          (int_to_float bursts)) (int_to_float penalty)\<rceil>
              else Inr (dm_descriptor_overhead m + bursts + penalty))"

section \<open>Channels\<close>

text \<open>Python's \<open>%\<close> with a zero modulus raises; otherwise the result has the sign of the modulus, as \<open>mod\<close>.\<close>

definition allocate_channel :: "dma_model \<Rightarrow> string \<Rightarrow> int result" where
  "allocate_channel m t =
     (let base = (if t = ''kv_access'' then 1 else if t = ''output_store'' then 2 else 0)
      in if dm_num_channels m = 0 then Inl ZeroDivisionError else Inr (base mod dm_num_channels m))"

definition type_priority :: "string \<Rightarrow> int" where
  "type_priority t = (if t = ''weight_load'' then 2 else if t = ''kv_access'' then 1 else 0)"

text \<open>The insertion point: the first queued request of a lower priority, else the end.\<close>

fun insert_by_priority :: "dma_request \<Rightarrow> dma_request list \<Rightarrow> dma_request list" where
  "insert_by_priority r [] = [r]"
| "insert_by_priority r (q # qs) =
     (if type_priority (dq_type q) < type_priority (dq_type r) then r # q # qs else q # insert_by_priority r qs)"

text \<open>\<open>xs[i]\<close>: negative indices count from the end, others out of range raise.\<close>

definition py_index :: "'a list \<Rightarrow> int \<Rightarrow> nat result" where
  "py_index xs i = (if 0 \<le> i \<and> i < int (length xs) then Inr (nat i)
     else if i < 0 \<and> - int (length xs) \<le> i then Inr (nat (i + int (length xs))) else Inl IndexError)"

definition enqueue :: "dma_request \<Rightarrow> (dma_model, int) op" where
  "enqueue r m = (case allocate_channel m (dq_type r) of Inl e \<Rightarrow> (Inl e, m)
   | Inr ch \<Rightarrow> (case py_index (dm_queues m) ch of Inl e \<Rightarrow> (Inl e, m)
     | Inr i \<Rightarrow> (Inr ch, m\<lparr>dm_queues := (dm_queues m)[i :=
         (if dm_arbitration m = ''fixed_priority'' then insert_by_priority r (dm_queues m ! i)
          else dm_queues m ! i @ [r])]\<rparr>)))"

definition request_cycles :: "dma_model \<Rightarrow> dma_request \<Rightarrow> int result" where
  "request_cycles m r = bind_res (estimate_transfer m (dq_size r) (dq_direction r) SEQUENTIAL) (\<lambda>t.
     Inr (t + dq_blocks r * dm_descriptor_overhead m +
       (if dm_multi_block_mode m = ''linked_list''
        then (let ll = dq_blocks r * 2 in if dm_ll_prefetch m then max 1 (ll div 2) else ll) else 0)))"

definition queue_cycles :: "dma_model \<Rightarrow> dma_request list \<Rightarrow> int result" where
  "queue_cycles m q =
     (if q = [] then Inr 0
      else bind_res (map_result (request_cycles m) q) (\<lambda>cs.
        let queued = sum_list (map dq_size q); capacity = dm_fifo_depth m * dm_burst_size m
        in if capacity < queued
           then (if dm_burst_size m = 0 then Inl ZeroDivisionError
                 else Inr (sum_list cs + \<lceil>fdiv_int (queued - capacity) (dm_burst_size m)\<rceil>))
           else Inr (sum_list cs)))"

definition estimate_channel_cycles :: "dma_model \<Rightarrow> int \<Rightarrow> int result" where
  "estimate_channel_cycles m ch =
     bind_res (py_index (dm_queues m) ch) (\<lambda>i. queue_cycles m (dm_queues m ! i))"

text \<open>\<open>max\<close> of an empty sequence raises.\<close>

definition estimate_total_cycles :: "dma_model \<Rightarrow> int result" where
  "estimate_total_cycles m =
     (if dm_num_channels m = 0 then Inr 0
      else bind_res (map_result (estimate_channel_cycles m) (map int [0..<nat (dm_num_channels m)])) (\<lambda>cs.
        if cs = [] then Inl (ValueError ''max() arg is an empty sequence'') else Inr (Max (set cs))))"

text \<open>The weight load: queue, estimate, and pop the last request of its channel.\<close>

definition estimate_weight_load :: "int \<Rightarrow> int \<Rightarrow> int \<Rightarrow> (dma_model, int) op" where
  "estimate_weight_load k n bits m =
     (let r = \<lparr>dq_type = ''weight_load'', dq_size = \<lceil>fdiv_int (k * n * bits) 8\<rceil>, dq_direction = ''load'',
               dq_blocks = 1, dq_priority = 0\<rparr>
      in case enqueue r m of (Inl e, m1) \<Rightarrow> (Inl e, m1)
       | (Inr _, m1) \<Rightarrow> (case estimate_total_cycles m1 of Inl e \<Rightarrow> (Inl e, m1)
         | Inr c \<Rightarrow> (case allocate_channel m1 ''weight_load'' of Inl e \<Rightarrow> (Inl e, m1)
           | Inr ch \<Rightarrow> (case py_index (dm_queues m1) ch of Inl e \<Rightarrow> (Inl e, m1)
             | Inr i \<Rightarrow> (Inr c, m1\<lparr>dm_queues := (dm_queues m1)[i := butlast (dm_queues m1 ! i)]\<rparr>)))))"

definition estimate_effective :: "int \<Rightarrow> int \<Rightarrow> int \<times> int" where
  "estimate_effective transfer compute = (max 0 (transfer - compute), min transfer compute)"

section \<open>A longer transfer never costs less\<close>

lemma fdiv_int_mono: "a \<le> b \<Longrightarrow> 0 < k \<Longrightarrow> fdiv_int a k \<le> fdiv_int b k"
  by (simp add: fdiv_int_def fl_mono divide_right_mono)

lemma fadd_mono: "a \<le> b \<Longrightarrow> c \<le> d \<Longrightarrow> fadd a c \<le> fadd b d"
  by (simp add: fadd_def fl_mono add_mono)

lemma fdiv_mono: "a \<le> b \<Longrightarrow> 0 < k \<Longrightarrow> fdiv a k \<le> fdiv b k"
  by (simp add: fdiv_def fl_mono divide_right_mono)

lemma int_to_float_mono: "a \<le> b \<Longrightarrow> int_to_float a \<le> int_to_float b"
  by (simp add: int_to_float_def fl_mono)

lemma int_to_float_nonneg: "0 \<le> a \<Longrightarrow> 0 \<le> int_to_float a"
  by (simp add: int_to_float_def fl_nonneg)

lemma fadd_nonneg: "0 \<le> a \<Longrightarrow> 0 \<le> b \<Longrightarrow> 0 \<le> fadd a b"
  by (simp add: fadd_def fl_nonneg)

lemma fdiv_nonneg: "0 \<le> a \<Longrightarrow> 0 < b \<Longrightarrow> 0 \<le> fdiv a b"
  by (simp add: fdiv_def fl_nonneg)

lemma fadd_ge_left: "is_float a \<Longrightarrow> 0 \<le> b \<Longrightarrow> a \<le> fadd a b"
  using fl_mono[of a "a + b"] by (simp add: fadd_def is_float_def)

lemma float_sum_ge:
  assumes "is_float a" and "0 \<le> b" and "0 \<le> c" and "0 \<le> d"
  shows "a \<le> fadd (fadd (fadd a b) c) d"
proof -
  have "a \<le> fadd a b" using assms by (intro fadd_ge_left) simp_all
  also have "\<dots> \<le> fadd (fadd a b) c" using assms by (intro fadd_ge_left) (simp_all add: fadd_def)
  also have "\<dots> \<le> fadd (fadd (fadd a b) c) d" using assms by (intro fadd_ge_left) (simp_all add: fadd_def)
  finally show ?thesis .
qed

definition engine_ok :: "dma_model \<Rightarrow> bool" where
  "engine_ok m \<longleftrightarrow> 0 < dm_burst_size m \<and> 0 \<le> dm_descriptor_overhead m \<and> 0 \<le> dm_random_penalty m \<and>
     1 \<le> dm_num_channels m \<and> length (dm_queues m) = nat (dm_num_channels m)"

lemma bursts_nonneg: "0 < b \<Longrightarrow> 0 \<le> sz \<Longrightarrow> 0 \<le> \<lceil>fdiv_int sz b\<rceil>"
proof -
  assume "0 < b" "0 \<le> sz"
  then have "0 \<le> fdiv_int sz b" by (simp add: fdiv_int_def fl_nonneg)
  then show ?thesis by linarith
qed

text \<open>A transfer estimate always returns on a well-formed engine, is never negative, and is monotone in
  the size: rounding in the float sum never makes a longer transfer cheaper. A positive
  transfer costs at least the descriptor overhead (up to \<open>2^53\<close> cycles).\<close>

theorem transfer_estimate_monotone:
  assumes "engine_ok m" and "a \<le> b"
  shows "\<exists>c d. estimate_transfer m a dir acc = Inr c \<and> estimate_transfer m b dir acc = Inr d \<and> 0 \<le> c \<and> c \<le> d \<and>
    (0 < a \<and> dm_descriptor_overhead m \<le> 2 ^ 53 \<longrightarrow> dm_descriptor_overhead m \<le> c)"
proof -
  define ov bs eff pen where "ov = dm_descriptor_overhead m" and "bs = dm_burst_size m"
    and "eff = (if acc = RANDOM then dm_eff_kv m else dm_eff_weight m)"
    and "pen = (if acc = RANDOM then dm_random_penalty m else 0)"
  have ok: "0 \<le> ov" "0 < bs" "0 \<le> pen" using assms(1) by (auto simp: engine_ok_def ov_def bs_def pen_def)
  define B where "B x = \<lceil>fdiv_int x bs\<rceil>" for x
  define F where "F x = fadd (fadd (fadd (int_to_float ov) (fdiv (int_to_float x) eff)) (int_to_float (B x))) (int_to_float pen)" for x
  define E where "E x = (if x \<le> 0 then 0 else if 0 < eff then \<lceil>F x\<rceil> else ov + B x + pen)" for x
  have E: "estimate_transfer m x dir acc = Inr (E x)" for x
    using ok by (simp add: estimate_transfer_def E_def F_def B_def ov_def bs_def eff_def pen_def Let_def)
  have B0: "0 \<le> x \<Longrightarrow> 0 \<le> B x" for x using ok(2) bursts_nonneg by (simp add: B_def)
  have Bm: "x \<le> y \<Longrightarrow> B x \<le> B y" for x y using ok(2) by (simp add: B_def ceiling_mono fdiv_int_mono)
  have ov_le: "int_to_float ov \<le> F x" if "0 \<le> x" "0 < eff" for x
    unfolding F_def using that ok(3) B0[OF that(1)]
    by (intro float_sum_ge fdiv_nonneg int_to_float_nonneg) (simp_all add: int_to_float_def)
  have F0: "0 \<le> F x" if "0 \<le> x" "0 < eff" for x
    using ov_le[OF that] int_to_float_nonneg[OF ok(1)] by linarith
  have E0: "0 \<le> E x" for x using F0[of x] B0[of x] ok by (auto simp: E_def)
  have Fm: "F x \<le> F y" if "x \<le> y" "0 < eff" for x y
    unfolding F_def using that Bm by (intro fadd_mono fdiv_mono int_to_float_mono) simp_all
  have Em: "E a \<le> E b"
  proof (cases "a \<le> 0")
    case True
    then have "E a = 0" by (simp add: E_def)
    then show ?thesis using E0[of b] by simp
  next
    case False
    then have "E b = (if 0 < eff then \<lceil>F b\<rceil> else ov + B b + pen)" "E a = (if 0 < eff then \<lceil>F a\<rceil> else ov + B a + pen)"
      using assms(2) by (auto simp: E_def)
    then show ?thesis using Fm[OF assms(2)] Bm[OF assms(2)] by (simp add: ceiling_mono)
  qed
  have "ov \<le> E a" if "0 < a" "ov \<le> 2 ^ 53"
  proof (cases "0 < eff")
    case True
    have "of_int ov \<le> F a" using ov_le[of a] True that ok(1) int_to_float_exact[of ov] by simp
    then show ?thesis using that(1) True by (simp add: E_def le_ceiling_iff)
  next
    case False
    then show ?thesis using that(1) B0[of a] ok(3) by (simp add: E_def)
  qed
  then show ?thesis using E E0 Em by (auto simp: ov_def)
qed


definition small_engine :: "string \<Rightarrow> dma_request list list \<Rightarrow> dma_model" where
  "small_engine arb qs = \<lparr>dm_burst_size = 256, dm_descriptor_overhead = 5, dm_max_pending = 16,
     dm_num_channels = int (length qs), dm_fifo_depth = 64, dm_max_burst_length = 8,
     dm_multi_block_mode = ''linked_list'', dm_ll_prefetch = True, dm_arbitration = arb, dm_queues = qs,
     dm_bw = 51, dm_random_penalty = 40, dm_eff_weight = 43, dm_eff_kv = 25\<rparr>"

lemma transfer_estimate_monotone_witness:
  "\<exists>c d. estimate_transfer (small_engine ''round_robin'' [[], []]) 1000 ''load'' RANDOM = Inr c \<and>
     estimate_transfer (small_engine ''round_robin'' [[], []]) 4096 ''load'' RANDOM = Inr d \<and> 5 \<le> c \<and> c \<le> d"
proof -
  let ?m = "small_engine ''round_robin'' [[], []]"
  have "engine_ok ?m" and "dm_descriptor_overhead ?m = 5" by (simp_all add: engine_ok_def small_engine_def)
  then show ?thesis using transfer_estimate_monotone[of ?m 1000 4096 "''load''" RANDOM] by auto
qed

section \<open>Queues under fixed priority\<close>

definition prio :: "dma_request \<Rightarrow> int" where
  "prio r = type_priority (dq_type r)"

abbreviation by_priority :: "dma_request list \<Rightarrow> bool" where
  "by_priority q \<equiv> sorted_wrt (\<lambda>x y. prio y \<le> prio x) q"

lemma insert_by_priority_append:
  "\<exists>pre post. q = pre @ post \<and> insert_by_priority r q = pre @ r # post \<and> (\<forall>x\<in>set pre. prio r \<le> prio x) \<and>
     (post = [] \<or> prio (hd post) < prio r)"
proof (induction q)
  case Nil
  show ?case by simp
next
  case (Cons x q)
  then obtain pre post where IH: "q = pre @ post" "insert_by_priority r q = pre @ r # post"
    "\<forall>x\<in>set pre. prio r \<le> prio x" "post = [] \<or> prio (hd post) < prio r" by blast
  show ?case
  proof (cases "prio x < prio r")
    case True
    then have "insert_by_priority r (x # q) = [] @ r # (x # q)" by (simp add: prio_def)
    with True show ?thesis by (intro exI[of _ "[]"] exI[of _ "x # q"]) simp
  next
    case False
    then have "insert_by_priority r (x # q) = (x # pre) @ r # post" using IH by (simp add: prio_def)
    with False IH show ?thesis by (intro exI[of _ "x # pre"] exI[of _ post]) auto
  qed
qed

lemma insert_by_priority_sorted:
  assumes "by_priority q"
  shows "by_priority (insert_by_priority r q)"
proof -
  obtain pre post where q: "q = pre @ post" "insert_by_priority r q = pre @ r # post"
    "\<forall>x\<in>set pre. prio r \<le> prio x" "post = [] \<or> prio (hd post) < prio r"
    using insert_by_priority_append by blast
  have "\<forall>y\<in>set post. prio y \<le> prio r"
    using assms q(1,4) by (cases post) (auto simp: sorted_wrt_append)
  then show ?thesis using assms q(1-3) by (auto simp: sorted_wrt_append)
qed


definition queues_sorted :: "dma_model \<Rightarrow> bool" where
  "queues_sorted m \<longleftrightarrow> (\<forall>q\<in>set (dm_queues m). by_priority q)"

lemma enqueue_cases:
  assumes "engine_ok m"
  obtains i where "enqueue r m = (Inr (int i), m\<lparr>dm_queues := (dm_queues m)[i :=
      (if dm_arbitration m = ''fixed_priority'' then insert_by_priority r (dm_queues m ! i)
       else dm_queues m ! i @ [r])]\<rparr>)"
    and "i < length (dm_queues m)" and "allocate_channel m (dq_type r) = Inr (int i)"
proof -
  define ch where "ch = (if dq_type r = ''kv_access'' then 1 else if dq_type r = ''output_store'' then 2 else 0) mod dm_num_channels m"
  have n: "1 \<le> dm_num_channels m" "length (dm_queues m) = nat (dm_num_channels m)"
    using assms by (simp_all add: engine_ok_def)
  have ch: "0 \<le> ch" "ch < int (length (dm_queues m))" using n by (auto simp: ch_def)
  have al: "allocate_channel m (dq_type r) = Inr ch" using n(1) by (simp add: allocate_channel_def ch_def)
  show thesis
    using that[of "nat ch"] ch al by (simp add: enqueue_def py_index_def)
qed

lemma enqueue_keeps_engine: "engine_ok m \<Longrightarrow> engine_ok (snd (enqueue r m))"
  by (rule enqueue_cases[of m r]) (simp_all add: engine_ok_def)

lemma enqueue_keeps_sorted:
  assumes "engine_ok m" and "queues_sorted m" and "dm_arbitration m = ''fixed_priority''"
  shows "queues_sorted (snd (enqueue r m))"
proof -
  obtain i where i: "enqueue r m = (Inr (int i), m\<lparr>dm_queues := (dm_queues m)[i := insert_by_priority r (dm_queues m ! i)]\<rparr>)"
    "i < length (dm_queues m)"
    by (rule enqueue_cases[OF assms(1), of r]) (simp add: assms(3))
  then show ?thesis
    using assms(2) insert_by_priority_sorted[of "dm_queues m ! i" r] unfolding i(1) queues_sorted_def
    by (auto dest!: subsetD[OF set_update_subset_insert])
qed

section \<open>A weight-load estimate and the queues\<close>

lemma map_result_ok: "(\<And>x. x \<in> set xs \<Longrightarrow> is_ok (f x)) \<Longrightarrow> is_ok (map_result f xs)"
proof (induction xs)
  case (Cons x xs)
  from Cons.prems[of x] obtain y where "f x = Inr y" by (auto simp: is_ok_def split: sum.splits)
  moreover from Cons obtain ys where "map_result f xs = Inr ys" by (auto simp: is_ok_def split: sum.splits)
  ultimately show ?case by simp
qed simp

lemma is_ok_bind: "is_ok m \<Longrightarrow> (\<And>x. is_ok (f x)) \<Longrightarrow> is_ok (bind_res m f)"
  by (cases m) simp_all

lemma request_cycles_ok: "dm_burst_size m \<noteq> 0 \<Longrightarrow> is_ok (request_cycles m r)"
  by (simp add: request_cycles_def estimate_transfer_def Let_def is_ok_bind)

lemma queue_cycles_ok: "dm_burst_size m \<noteq> 0 \<Longrightarrow> is_ok (queue_cycles m q)"
  by (simp add: queue_cycles_def Let_def is_ok_bind map_result_ok request_cycles_ok)

lemma estimate_total_ok:
  assumes "engine_ok m"
  shows "is_ok (estimate_total_cycles m)"
proof -
  have "is_ok (estimate_channel_cycles m ch)" if "ch \<in> set (map int [0..<nat (dm_num_channels m)])" for ch
    using that assms queue_cycles_ok[of m] by (auto simp: estimate_channel_cycles_def py_index_def engine_ok_def)
  then have "is_ok (map_result (estimate_channel_cycles m) (map int [0..<nat (dm_num_channels m)]))"
    by (rule map_result_ok)
  then obtain cs where cs: "map_result (estimate_channel_cycles m) (map int [0..<nat (dm_num_channels m)]) = Inr cs"
    by (auto simp: is_ok_def split: sum.splits)
  have "length cs = nat (dm_num_channels m)" using map_result_length[OF cs] by simp
  then have "cs \<noteq> []" using assms by (auto simp: engine_ok_def)
  then show ?thesis by (simp add: estimate_total_cycles_def cs)
qed

lemma insert_butlast_iff:
  assumes "prio r = 2"
  shows "butlast (insert_by_priority r q) = q \<longleftrightarrow> (\<forall>x\<in>set q. prio x = 2)"
proof -
  obtain pre post where q: "q = pre @ post" "insert_by_priority r q = pre @ r # post"
    "\<forall>x\<in>set pre. prio r \<le> prio x" "post = [] \<or> prio (hd post) < prio r"
    using insert_by_priority_append by blast
  have le: "prio x \<le> 2" for x by (simp add: prio_def type_priority_def)
  show ?thesis
  proof (cases post)
    case Nil
    then show ?thesis using q(1-3) le assms by (auto simp: butlast_append intro: antisym)
  next
    case (Cons p ps)
    then have "prio p < 2" using q(4) assms by simp
    moreover have "butlast (insert_by_priority r q) = pre @ r # butlast (p # ps)"
      unfolding q(2) Cons by (simp add: butlast_append)
    ultimately show ?thesis using q(1) Cons assms by auto
  qed
qed

text \<open>\<open>estimate_weight_load\<close> on a well-formed engine always returns an estimate, and in FIFO arbitration
  leaves the engine exactly as it was. Under fixed priority it does so if and only if channel 0
  holds weight loads alone: otherwise its request goes before a lower-priority one, and the pop
  at the end removes that channel's last request, a transfer the caller had queued.\<close>

theorem weight_load_estimate_effect:
  assumes "engine_ok m"
  shows "\<exists>c m'. estimate_weight_load k n bits m = (Inr c, m') \<and>
    (dm_arbitration m \<noteq> ''fixed_priority'' \<longrightarrow> m' = m) \<and>
    (dm_arbitration m = ''fixed_priority'' \<longrightarrow>
       (m' = m \<longleftrightarrow> (\<forall>r\<in>set (dm_queues m ! 0). dq_type r = ''weight_load'')))"
proof -
  define r where "r = \<lparr>dq_type = ''weight_load'', dq_size = \<lceil>fdiv_int (k * n * bits) 8\<rceil>, dq_direction = ''load'',
      dq_blocks = 1, dq_priority = 0\<rparr>"
  let ?q = "dm_queues m ! 0"
  define q' where "q' = (if dm_arbitration m = ''fixed_priority'' then insert_by_priority r ?q else ?q @ [r])"
  define m1 where "m1 = m\<lparr>dm_queues := (dm_queues m)[0 := q']\<rparr>"
  have n: "1 \<le> dm_num_channels m" "0 < length (dm_queues m)" using assms by (auto simp: engine_ok_def)
  have en: "enqueue r m = (Inr 0, m1)"
    using n by (simp add: enqueue_def allocate_channel_def py_index_def m1_def q'_def r_def)
  have "engine_ok m1" using assms by (simp add: engine_ok_def m1_def)
  then obtain c where c: "estimate_total_cycles m1 = Inr c"
    using estimate_total_ok[of m1] by (auto simp: is_ok_def split: sum.splits)
  have al: "allocate_channel m1 ''weight_load'' = Inr 0" "py_index (dm_queues m1) 0 = Inr 0"
    using n by (simp_all add: allocate_channel_def py_index_def m1_def)
  have run: "estimate_weight_load k n bits m =
      (Inr c, m1\<lparr>dm_queues := (dm_queues m1)[0 := butlast (dm_queues m1 ! 0)]\<rparr>)"
    using en c al by (simp add: estimate_weight_load_def Let_def flip: r_def)
  have m': "m1\<lparr>dm_queues := (dm_queues m1)[0 := butlast (dm_queues m1 ! 0)]\<rparr> = m\<lparr>dm_queues := (dm_queues m)[0 := butlast q']\<rparr>"
    using n(2) by (simp add: m1_def)
  have same: "m\<lparr>dm_queues := (dm_queues m)[0 := x]\<rparr> = m \<longleftrightarrow> x = ?q" for x
    by (metis dma_model.select_convs(10) dma_model.surjective dma_model.update_convs(10) list_update_id n(2) nth_list_update_eq)
  have "prio r = 2" by (simp add: prio_def r_def type_priority_def)
  moreover have "prio x = 2 \<longleftrightarrow> dq_type x = ''weight_load''" for x by (simp add: prio_def type_priority_def)
  ultimately show ?thesis
    using run insert_butlast_iff[of r ?q] by (auto simp: m' same q'_def)
qed

lemma weight_load_estimate_effect_witness:
  "\<exists>c m'. estimate_weight_load 64 64 4 (small_engine ''fixed_priority''
      [[\<lparr>dq_type = ''output_store'', dq_size = 512, dq_direction = ''store'', dq_blocks = 1, dq_priority = 0\<rparr>], []])
    = (Inr c, m') \<and> m' \<noteq> small_engine ''fixed_priority''
      [[\<lparr>dq_type = ''output_store'', dq_size = 512, dq_direction = ''store'', dq_blocks = 1, dq_priority = 0\<rparr>], []]"
proof -
  let ?m = "small_engine ''fixed_priority''
      [[\<lparr>dq_type = ''output_store'', dq_size = 512, dq_direction = ''store'', dq_blocks = 1, dq_priority = 0\<rparr>], []]"
  have "engine_ok ?m" by (simp add: engine_ok_def small_engine_def)
  moreover have "dm_arbitration ?m = ''fixed_priority''" "\<not> (\<forall>r\<in>set (dm_queues ?m ! 0). dq_type r = ''weight_load'')"
    by (simp_all add: small_engine_def)
  ultimately show ?thesis using weight_load_estimate_effect[of ?m 64 64 4] by blast
qed

end
