(* ===== verification/Golden_Exec.thy ===== *)
theory Golden_Exec
  imports Golden_Vector Golden_Dma Hw_Dma Isa_Codec
begin

text \<open>
  The instruction executor of \<open>sim/golden_executor.py\<close>, class \<open>GoldenExecutor\<close>: its state
  (SRAM, DRAM, DMA engine, the snapshottable counters), one definition per instruction and
  \<open>step\<close>, which dispatches on the opcode, with the order of reads, computations, writes and
  counter updates of the code, so that an exception leaves the state where the code leaves it.
  A descriptor chain is a loop that may not end, so a step returns an option.

  The float pipeline of the special function unit (numpy \<open>float32\<close> tables and reductions), md5
  and numpy's undefined casts are fields of the environment: functions on half-precision bit
  patterns. numpy reads a dimension of \<open>-1\<close> as inferred; MMUL with \<open>K = -1\<close> is outside the model,
  any other negative dimension raises there as here.
\<close>

section \<open>State and environment\<close>

record exec_state =
  xs_cycle :: int
  xs_pc :: int
  xs_sram_checksum :: string
  xs_mxu_hash :: string
  xs_sfu_hash :: string

record npu =
  nx_sram :: sram
  nx_dram :: memory
  nx_dma :: dma_model
  nx_state :: exec_state

type_synonym halves = "16 word list"

record golden_env =
  ge_md5 :: "byte list \<Rightarrow> string"
  ge_softmax :: "halves \<Rightarrow> halves result"
  ge_layernorm :: "halves \<Rightarrow> halves result"
  ge_gelu :: "halves \<Rightarrow> halves result"
  ge_silu :: "halves \<Rightarrow> halves result"
  ge_relu :: "halves \<Rightarrow> halves result"
  ge_rmsnorm :: "halves \<Rightarrow> halves result"
  ge_rotate :: "int \<Rightarrow> halves \<Rightarrow> halves"
  ge_max4 :: "halves \<Rightarrow> 16 word"
  ge_mean4 :: "halves \<Rightarrow> 16 word"
  ge_vmax :: "halves \<Rightarrow> 16 word result"
  ge_vsum :: "halves \<Rightarrow> 16 word result"
  ge_cast_special :: "16 word \<Rightarrow> 32 word"

definition array_h :: nat where "array_h = 64"
definition array_w :: nat where "array_w = 64"

text \<open>The constructor: the DMA model is built from a fixed configuration, in which \<open>channels\<close> and
  \<open>bandwidth_bytes_per_cycle\<close> are keys that \<open>DMAModel\<close> does not read.\<close>

definition golden_dma_config :: dma_config where
  "golden_dma_config = \<lparr>dc_burst_size = 256, dc_descriptor_overhead = 5, dc_max_pending = Some 16,
     dc_num_channels = None, dc_fifo_depth = None, dc_max_burst_length = None, dc_multi_block_mode = None,
     dc_ll_prefetch = None, dc_arbitration = None, dc_frequency_mhz = None, dc_bandwidth_gbps = None,
     dc_efficiency = None, dc_efficiency_random = None, dc_random_penalty = None\<rparr>"

definition executor_new :: "npu result" where
  "executor_new = bind_res (dma_new golden_dma_config) (\<lambda>dma. Inr
     \<lparr>nx_sram = define_region ''vector_io'' 0x300000 (256 * 1024)
        (define_region ''sfu_io'' 0x2C0000 (256 * 1024)
        (define_region ''accumulator'' 0x280000 (256 * 1024)
        (define_region ''activation'' 0x200000 (512 * 1024)
        (define_region ''weight_pong'' 0x100000 (1024 * 1024)
        (define_region ''weight_ping'' 0 (1024 * 1024) sram_new))))),
      nx_dram = (\<lambda>_. 0), nx_dma = dma,
      nx_state = \<lparr>xs_cycle = 0, xs_pc = 0, xs_sram_checksum = '''', xs_mxu_hash = '''', xs_sfu_hash = ''''\<rparr>\<rparr>)"

definition snapshot :: "golden_env \<Rightarrow> npu \<Rightarrow> exec_state" where
  "snapshot env s = (nx_state s)\<lparr>xs_sram_checksum :=
     take 16 (ge_md5 env (map (sm_data (nx_sram s)) [0..<sram_size]))\<rparr>"

section \<open>Steps of an instruction\<close>

definition of_state :: "(npu \<Rightarrow> 'a result) \<Rightarrow> (npu, 'a) op" where
  "of_state f s = (f s, s)"

definition on_sram :: "(sram, 'a) op \<Rightarrow> (npu, 'a) op" where
  "on_sram = zoom_op nx_sram (\<lambda>m s. s\<lparr>nx_sram := m\<rparr>)"

definition add_cycles :: "int \<Rightarrow> (npu, unit) op" where
  "add_cycles n = modify_op (\<lambda>s. s\<lparr>nx_state := (nx_state s)\<lparr>xs_cycle := xs_cycle (nx_state s) + n\<rparr>\<rparr>)"

definition set_mxu_hash :: "string \<Rightarrow> (npu, unit) op" where
  "set_mxu_hash h = modify_op (\<lambda>s. s\<lparr>nx_state := (nx_state s)\<lparr>xs_mxu_hash := h\<rparr>\<rparr>)"

definition set_sfu_hash :: "string \<Rightarrow> (npu, unit) op" where
  "set_sfu_hash h = modify_op (\<lambda>s. s\<lparr>nx_state := (nx_state s)\<lparr>xs_sfu_hash := h\<rparr>\<rparr>)"

definition hash_output :: "golden_env \<Rightarrow> 32 word list \<Rightarrow> string" where
  "hash_output env ws = take 16 (ge_md5 env (concat (map bytes32 ws)))"

definition estimate_mxu_cycles :: "int \<Rightarrow> int \<Rightarrow> int \<Rightarrow> int" where
  "estimate_mxu_cycles M K N = (M + int array_h - 1) div int array_h * ((N + int array_w - 1) div int array_w) *
     ((K + int array_h - 1) div int array_h)"

definition exec_mmul :: "golden_env \<Rightarrow> (string, int) dict \<Rightarrow> (npu, unit) op" where
  "exec_mmul env ops =
     (let wa = dget ops ''wa'' 0; ia = dget ops ''ia'' 0; oa = dget ops ''oa'' 0;
          N = dget ops ''N'' 2560; M = dget ops ''M'' 1; K = dget ops ''K'' 2560
      in if M < 0 \<or> K < 0 \<or> N < 0 then raise_op (ValueError ''negative dimension'')
         else bind_op (of_state (\<lambda>s. matmul_from_sram array_h array_w (nat M) (nat K) (nat N) ia wa (sm_data (nx_sram s)))) (\<lambda>r.
           seq_op (on_sram (write_int32 oa r)) (seq_op (set_mxu_hash (hash_output env r))
             (add_cycles (estimate_mxu_cycles M K N)))))"

text \<open>The common shape of SOFTMAX, LAYERNORM, GELU, SILU, RELU and RMSNORM.\<close>

definition exec_sfu :: "golden_env \<Rightarrow> (halves \<Rightarrow> halves result) \<Rightarrow> int \<Rightarrow> int \<Rightarrow> int \<Rightarrow> int \<Rightarrow> (npu, unit) op" where
  "exec_sfu env f sa da len cycles =
     bind_op (of_state (\<lambda>s. bind_res (read_float16 sa len (nx_sram s)) f)) (\<lambda>out.
       seq_op (on_sram (write_float16 da out))
         (seq_op (set_sfu_hash (take 16 (ge_md5 env (concat (map bytes16 out))))) (add_cycles cycles)))"

definition exp_lut_entries :: int where "exp_lut_entries = 4096"

text \<open>\<open>x[a:b]\<close> of a one-dimensional array.\<close>

definition lslice :: "'a list \<Rightarrow> int \<Rightarrow> int \<Rightarrow> 'a list" where
  "lslice xs a b = drop (clip_index (length xs) a) (take (clip_index (length xs) b) xs)"

text \<open>\<open>rope_hw\<close> with 32 query heads and 2 key heads of 128: \<open>reshape\<close> raises on any other length.\<close>

definition rope_hw :: "golden_env \<Rightarrow> int \<Rightarrow> halves \<Rightarrow> halves \<Rightarrow> (halves \<times> halves) result" where
  "rope_hw env pos q k =
     (if length q \<noteq> 32 * 128 then Inl (ValueError ''cannot reshape'')
      else if length k \<noteq> 2 * 128 then Inl (ValueError ''cannot reshape'')
      else Inr (ge_rotate env pos q, ge_rotate env pos k))"

definition rope_pair :: "golden_env \<Rightarrow> int \<Rightarrow> int \<Rightarrow> halves \<Rightarrow> halves result" where
  "rope_pair env pos len inp = (let mid = len div 2 in
     bind_res (rope_hw env pos (lslice inp 0 mid) (lslice inp mid (mid + mid div 8))) (\<lambda>(q, k). Inr (q @ k)))"

text \<open>A pool over 2 by 2 windows; \<open>np.zeros\<close> raises on a negative dimension.\<close>

definition exec_pool :: "(halves \<Rightarrow> 16 word) \<Rightarrow> (string, int) dict \<Rightarrow> (npu, unit) op" where
  "exec_pool f ops =
     (let sa = dget ops ''sa'' 0; da = dget ops ''da'' 0; H = dget ops ''H'' 2; W = dget ops ''W'' 2;
          oh = H div 2; ow = W div 2
      in bind_op (of_state (\<lambda>s. read_float16 sa (H * W) (nx_sram s))) (\<lambda>inp.
        if H < 0 \<or> W < 0 then raise_op (ValueError ''negative dimensions'')
        else if length inp \<noteq> nat (H * W) then raise_op (ValueError ''cannot reshape'')
        else seq_op (on_sram (write_float16 da (concat (map (\<lambda>i. map (\<lambda>j.
               f [inp ! (2 * i * nat W + 2 * j), inp ! (2 * i * nat W + 2 * j + 1),
                  inp ! ((2 * i + 1) * nat W + 2 * j), inp ! ((2 * i + 1) * nat W + 2 * j + 1)])
               [0..<nat ow]) [0..<nat oh]))))
             (add_cycles (oh * ow div 128 + 2))))"

definition set_dram :: "(memory, 'a) op \<Rightarrow> (npu, 'a) op" where
  "set_dram = zoom_op nx_dram (\<lambda>m s. s\<lparr>nx_dram := m\<rparr>)"

definition dma_cycles :: "int \<Rightarrow> string \<Rightarrow> (npu, unit) op" where
  "dma_cycles sz dir = bind_op (of_state (\<lambda>s. estimate_transfer (nx_dma s) sz dir SEQUENTIAL)) add_cycles"

definition exec_dma_ld :: "(string, int) dict \<Rightarrow> (npu, unit) op" where
  "exec_dma_ld ops =
     (let dram = dget ops ''dram'' 0; sa = dget ops ''sram'' 0; sz = dget ops ''size'' 0
      in bind_op (get_op (\<lambda>s. slice dram_size (nx_dram s) dram (dram + sz))) (\<lambda>bs.
           seq_op (on_sram (write_bytes sa bs)) (dma_cycles sz ''load'')))"

definition exec_dma_st :: "(string, int) dict \<Rightarrow> (npu, unit) op" where
  "exec_dma_st ops =
     (let sa = dget ops ''sram'' 0; dram = dget ops ''dram'' 0; sz = dget ops ''size'' 0
      in bind_op (of_state (\<lambda>s. read_bytes sa sz (nx_sram s))) (\<lambda>bs.
           seq_op (set_dram (assign_slice dram_size dram (dram + sz) bs)) (dma_cycles sz ''store'')))"

section \<open>Vector instructions\<close>

text \<open>numpy broadcasts one element, and raises on any other difference in length.\<close>

definition broadcast2 :: "('a list \<Rightarrow> 'b list \<Rightarrow> 'c) \<Rightarrow> 'a list \<Rightarrow> 'b list \<Rightarrow> 'c result" where
  "broadcast2 f a b =
     (if length a = length b then Inr (f a b)
      else if length a = 1 then Inr (f (replicate (length b) (hd a)) b)
      else if length b = 1 then Inr (f a (replicate (length a) (hd b)))
      else Inl (ValueError ''operands could not be broadcast together''))"

definition exec_vbin :: "(32 word list \<Rightarrow> 32 word list \<Rightarrow> 32 word list) \<Rightarrow> (string, int) dict \<Rightarrow> (npu, unit) op" where
  "exec_vbin f ops =
     (let sa = dget ops ''sa'' 0; da = dget ops ''da'' 0; len = dget ops ''len'' 2560
      in bind_op (of_state (\<lambda>s. bind_res (read_int32 sa len (nx_sram s)) (\<lambda>a.
           bind_res (read_int32 (sa + len * 4) len (nx_sram s)) (broadcast2 f a)))) (\<lambda>out.
         seq_op (on_sram (write_int32 da out)) (add_cycles (len div 128 + 1))))"

definition exec_vred :: "(halves \<Rightarrow> 16 word result) \<Rightarrow> (string, int) dict \<Rightarrow> (npu, unit) op" where
  "exec_vred f ops =
     (let sa = dget ops ''sa'' 0; da = dget ops ''da'' 0; len = dget ops ''len'' 2560
      in bind_op (of_state (\<lambda>s. bind_res (read_float16 sa len (nx_sram s)) f)) (\<lambda>v.
         seq_op (on_sram (write_float16 da [v])) (add_cycles (len div 128 + 3))))"

definition exec_vconv :: "(string, int) dict \<Rightarrow> (npu, unit) op" where
  "exec_vconv ops =
     (let sa = dget ops ''sa'' 0; da = dget ops ''da'' 0; len = dget ops ''len'' 2560
      in bind_op (of_state (\<lambda>s. read_int32 sa len (nx_sram s))) (\<lambda>inp.
         seq_op (on_sram (write_float16 da (map conv_i32_to_f16 inp))) (add_cycles (len div 128 + 2))))"

definition exec_vconv_f16_i32 :: "(string, int) dict \<Rightarrow> (npu, unit) op" where
  "exec_vconv_f16_i32 ops =
     (let sa = dget ops ''sa'' 0; da = dget ops ''da'' 0; len = dget ops ''len'' 2560
      in bind_op (of_state (\<lambda>s. read_float16 sa len (nx_sram s))) (\<lambda>inp.
         seq_op (on_sram (write_int32 da (map conv_f16_to_i32 inp))) (add_cycles (len div 128 + 2))))"

definition exec_vresid :: "golden_env \<Rightarrow> (string, int) dict \<Rightarrow> (npu, unit) op" where
  "exec_vresid env ops =
     (let sa = dget ops ''sa'' 0; sb = dget ops ''sb'' (sa + 1024); da = dget ops ''da'' 0; len = dget ops ''len'' 2560
      in bind_op (of_state (\<lambda>s. bind_res (read_float16 sa len (nx_sram s)) (\<lambda>a.
           bind_res (read_int32 sb len (nx_sram s)) (broadcast2 (residual_add (ge_cast_special env)) a)))) (\<lambda>out.
         seq_op (on_sram (write_int32 da out)) (add_cycles (len div 128 + 1))))"

section \<open>Descriptor chains\<close>

text \<open>\<open>int.from_bytes(raw, "little")\<close>, of eight bytes, or fewer at the end of the DRAM.\<close>

fun le_word :: "byte list \<Rightarrow> int" where
  "le_word [] = 0"
| "le_word (b # bs) = uint b + 256 * le_word bs"

definition desc_at :: "memory \<Rightarrow> int \<Rightarrow> dma_desc result" where
  "desc_at dram a = decode_desc (le_word (slice dram_size dram a (a + 8)))"

text \<open>One round of the loop: whether the descriptor was the last.\<close>

definition chain_round ::
  "(dma_desc \<Rightarrow> (npu, unit) op) \<Rightarrow> string \<Rightarrow> int \<Rightarrow> (npu, bool) op" where
  "chain_round transfer dir a =
     bind_op (of_state (\<lambda>s. desc_at (nx_dram s) a)) (\<lambda>d.
       seq_op (transfer d) (seq_op (dma_cycles (actual_size d) dir) (ret (dd_last d))))"

definition load_transfer :: "dma_desc \<Rightarrow> (npu, unit) op" where
  "load_transfer d s = on_sram (execute_load d (nx_dram s)) s"

definition store_transfer :: "dma_desc \<Rightarrow> (npu, unit) op" where
  "store_transfer d s = set_dram (execute_store d (nx_sram s)) s"

partial_function (option) ldd_chain :: "int \<Rightarrow> npu \<Rightarrow> ((py_error + unit) \<times> npu) option" where
  "ldd_chain a s = (case chain_round load_transfer ''load'' a s of
     (Inl e, t) \<Rightarrow> Some (Inl e, t)
   | (Inr fin, t) \<Rightarrow> if fin then Some (Inr (), t) else ldd_chain (a + 8) t)"

partial_function (option) std_chain :: "int \<Rightarrow> npu \<Rightarrow> ((py_error + unit) \<times> npu) option" where
  "std_chain a s = (case chain_round store_transfer ''store'' a s of
     (Inl e, t) \<Rightarrow> Some (Inl e, t)
   | (Inr fin, t) \<Rightarrow> if fin then Some (Inr (), t) else std_chain (a + 8) t)"

declare ldd_chain.simps [code] std_chain.simps [code]

section \<open>One instruction\<close>

text \<open>The instructions that are not loops.\<close>

definition exec_simple :: "golden_env \<Rightarrow> opcode \<Rightarrow> (string, int) dict \<Rightarrow> (npu, unit) op" where
  "exec_simple env opc ops =
     (let sa = dget ops ''sa'' 0; da = dget ops ''da'' 0; len = dget ops ''len'' 2560
      in case opc of
        NOP \<Rightarrow> add_cycles 1
      | BARRIER \<Rightarrow> add_cycles 5
      | MMUL \<Rightarrow> exec_mmul env ops
      | SOFTMAX \<Rightarrow> exec_sfu env (ge_softmax env) sa da len (len div exp_lut_entries + 8)
      | LAYERNORM \<Rightarrow> exec_sfu env (ge_layernorm env) sa da len (len div 128 + 6)
      | GELU \<Rightarrow> exec_sfu env (ge_gelu env) sa da len (len div 128 + 4)
      | SILU \<Rightarrow> exec_sfu env (ge_silu env) sa da len (len div 128 + 4)
      | RELU \<Rightarrow> exec_sfu env (ge_relu env) sa da len (len div 128 + 1)
      | ROPE \<Rightarrow> exec_sfu env (rope_pair env (dget ops ''pos'' 0) len) sa da len (len div 128 + 12)
      | RMSNORM \<Rightarrow> (let elements = dget ops ''elements'' 0 in
          if elements \<le> 0 then raise_op (ValueError ''RMSNORM requires elements > 0'')
          else exec_sfu env (ge_rmsnorm env) sa da elements (elements div 128 * 2 + 10))
      | MAXPOOL \<Rightarrow> exec_pool (ge_max4 env) ops
      | AVGPOOL \<Rightarrow> exec_pool (ge_mean4 env) ops
      | DMA_LD \<Rightarrow> exec_dma_ld ops
      | DMA_ST \<Rightarrow> exec_dma_st ops
      | VADD \<Rightarrow> exec_vbin vec_add ops
      | VMUL \<Rightarrow> exec_vbin vec_mul ops
      | VRED_MAX \<Rightarrow> exec_vred (ge_vmax env) ops
      | VRED_SUM \<Rightarrow> exec_vred (ge_vsum env) ops
      | VCONV \<Rightarrow> exec_vconv ops
      | VCONV_F16_I32 \<Rightarrow> exec_vconv_f16_i32 ops
      | VRESID \<Rightarrow> exec_vresid env ops
      | KV_LOAD \<Rightarrow> add_cycles 5
      | KV_STORE \<Rightarrow> add_cycles 5
      | _ \<Rightarrow> raise_op (ValueError ''Unknown opcode''))"

definition exec_op :: "golden_env \<Rightarrow> instruction \<Rightarrow> npu \<Rightarrow> ((py_error + unit) \<times> npu) option" where
  "exec_op env i s =
     (if in_opcode i = DMA_LDD then ldd_chain (dget (in_operands i) ''sa'' 0) s
      else if in_opcode i = DMA_STD then std_chain (dget (in_operands i) ''sa'' 0) s
      else Some (exec_simple env (in_opcode i) (in_operands i) s))"

text \<open>\<open>step\<close>: the snapshot is taken before, the program counter advances after.\<close>

definition bump_pc :: "npu \<Rightarrow> npu" where
  "bump_pc s = s\<lparr>nx_state := (nx_state s)\<lparr>xs_pc := xs_pc (nx_state s) + 1\<rparr>\<rparr>"

definition step :: "golden_env \<Rightarrow> instruction \<Rightarrow> npu \<Rightarrow> ((py_error + exec_state) \<times> npu) option" where
  "step env i s = (case exec_op env i s of
     None \<Rightarrow> None
   | Some (Inl e, t) \<Rightarrow> Some (Inl e, t)
   | Some (Inr _, t) \<Rightarrow> Some (Inr (snapshot env s), bump_pc t))"

text \<open>\<open>execute_program\<close> without converters: the trace of the snapshots.\<close>

fun run_program :: "golden_env \<Rightarrow> instruction list \<Rightarrow> npu \<Rightarrow> ((py_error + exec_state list) \<times> npu) option" where
  "run_program env [] s = Some (Inr [], s)"
| "run_program env (i # is) s = (case step env i s of
     None \<Rightarrow> None
   | Some (Inl e, t) \<Rightarrow> Some (Inl e, t)
   | Some (Inr x, t) \<Rightarrow> (case run_program env is t of
       None \<Rightarrow> None
     | Some (Inl e, u) \<Rightarrow> Some (Inl e, u)
     | Some (Inr xs, u) \<Rightarrow> Some (Inr (x # xs), u)))"

section \<open>An exception leaves the machine as it was\<close>

text \<open>What an operation other than a store may touch; \<open>atomic\<close> operations raise only in their
  initial state, \<open>sure\<close> ones do not raise.\<close>

definition frame :: "memory \<Rightarrow> int \<Rightarrow> dma_model \<Rightarrow> npu \<Rightarrow> bool" where
  "frame D p E s \<longleftrightarrow> nx_dram s = D \<and> xs_pc (nx_state s) = p \<and> nx_dma s = E"

definition dma_set :: "npu \<Rightarrow> bool" where
  "dma_set s \<longleftrightarrow> dm_burst_size (nx_dma s) \<noteq> 0"

definition atomic :: "(npu, 'a) op \<Rightarrow> bool" where
  "atomic m \<longleftrightarrow> (\<forall>s e t. dma_set s \<longrightarrow> m s = (Inl e, t) \<longrightarrow> t = s)"

definition sure :: "(npu, 'a) op \<Rightarrow> bool" where
  "sure m \<longleftrightarrow> (\<forall>s. dma_set s \<longrightarrow> is_ok (fst (m s)))"

definition quiet :: "(npu, 'a) op \<Rightarrow> bool" where
  "quiet m \<longleftrightarrow> (\<forall>s. snd (m s) = s)"

named_theorems atomic_intros \<open>composition rules of atomic operations\<close>

lemma frame_keeps [keeps_intros]:
  "keeps (frame D p E) (of_state f)" "keeps (frame D p E) (on_sram m)" "keeps (frame D p E) (add_cycles n)"
  "keeps (frame D p E) (set_mxu_hash h)" "keeps (frame D p E) (set_sfu_hash h)"
  by (auto simp: keeps_def frame_def of_state_def on_sram_def zoom_op_def add_cycles_def set_mxu_hash_def
      set_sfu_hash_def modify_op_def split: prod.splits)

lemma frame_dma_cycles [keeps_intros]: "keeps (frame D p E) (dma_cycles sz dir)"
  unfolding dma_cycles_def by (intro keeps_intros)

lemma dma_set_keeps:
  assumes "\<And>D p E. keeps (frame D p E) m"
  shows "keeps dma_set m"
proof (rule keepsI)
  fix s assume "dma_set s"
  moreover have "frame (nx_dram s) (xs_pc (nx_state s)) (nx_dma s) (snd (m s))"
    using assms by (rule keepsD) (simp add: frame_def)
  ultimately show "dma_set (snd (m s))" by (simp add: frame_def dma_set_def)
qed

lemma quiet_of_state [atomic_intros]: "quiet (of_state f)" "quiet (get_op g)"
  by (simp_all add: quiet_def of_state_def get_op_def)

lemma sure_intros [atomic_intros]:
  "sure (add_cycles n)" "sure (set_mxu_hash h)" "sure (set_sfu_hash h)" "sure (dma_cycles sz dir)"
  by (auto simp: sure_def add_cycles_def set_mxu_hash_def set_sfu_hash_def modify_op_def dma_cycles_def bind_op_def
      of_state_def estimate_transfer_def dma_set_def Let_def)

lemma sure_seq [atomic_intros]: "sure m \<Longrightarrow> keeps dma_set m \<Longrightarrow> sure n \<Longrightarrow> sure (seq_op m n)"
  unfolding sure_def
proof (intro allI impI)
  fix s assume m: "\<forall>s. dma_set s \<longrightarrow> is_ok (fst (m s))" "keeps dma_set m" "\<forall>s. dma_set s \<longrightarrow> is_ok (fst (n s))" "dma_set s"
  obtain r t where r: "m s = (r, t)" by (cases "m s")
  with m obtain x where x: "r = Inr x" by (cases r) (auto simp: is_ok_def dest!: spec[of _ s])
  have "dma_set t" using keepsD'[OF m(2,4) r] .
  with m(3) show "is_ok (fst (seq_op m n s))" unfolding seq_op_def bind_op_def r x by simp
qed

lemma atomic_raise [atomic_intros]: "atomic (raise_op e)"
  by (simp add: atomic_def raise_op_def)

lemma atomic_sure: "sure m \<Longrightarrow> atomic m"
  by (fastforce simp: atomic_def sure_def)

lemma atomic_bind [atomic_intros]: "quiet m \<Longrightarrow> (\<And>x. atomic (f x)) \<Longrightarrow> atomic (bind_op m f)"
  unfolding atomic_def
proof (intro allI impI)
  fix s e t
  assume m: "quiet m" "\<And>x. \<forall>s e t. dma_set s \<longrightarrow> f x s = (Inl e, t) \<longrightarrow> t = s" "dma_set s" "bind_op m f s = (Inl e, t)"
  obtain r where r: "m s = (r, s)" using m(1) by (cases "m s") (metis quiet_def snd_conv)
  show "t = s" using m(2-4) r by (cases r) (auto simp: bind_op_def)
qed

lemma atomic_seq [atomic_intros]: "atomic m \<Longrightarrow> keeps dma_set m \<Longrightarrow> sure n \<Longrightarrow> atomic (seq_op m n)"
  unfolding atomic_def
proof (intro allI impI)
  fix s e t
  assume m: "\<forall>s e t. dma_set s \<longrightarrow> m s = (Inl e, t) \<longrightarrow> t = s" "keeps dma_set m" "sure n" "dma_set s"
    "seq_op m n s = (Inl e, t)"
  obtain r u where r: "m s = (r, u)" by (cases "m s")
  show "t = s"
  proof (cases r)
    case (Inl e')
    then show ?thesis using m r by (auto simp: seq_op_def bind_op_def)
  next
    case (Inr x)
    have "is_ok (fst (n u))" using m(3) keepsD'[OF m(2,4) r] by (simp add: sure_def)
    then show ?thesis using m(5) r Inr by (auto simp: seq_op_def bind_op_def)
  qed
qed

lemma atomic_if [atomic_intros]: "atomic m \<Longrightarrow> atomic n \<Longrightarrow> atomic (if b then m else n)"
  by simp

lemma keeps_dma_set [atomic_intros]:
  "keeps dma_set (on_sram m)" "keeps dma_set (add_cycles n)" "keeps dma_set (set_mxu_hash h)"
  "keeps dma_set (set_sfu_hash h)" "keeps dma_set (set_dram w)"
  by (auto intro!: keeps_intros dma_set_keeps[of "on_sram m"] dma_set_keeps[of "add_cycles n"]
      dma_set_keeps[of "set_mxu_hash h"] dma_set_keeps[of "set_sfu_hash h"])
    (auto simp: keeps_def set_dram_def zoom_op_def dma_set_def split: prod.splits)

lemma assign_slice_atomic: "assign_slice n a b xs m = (Inl e, t) \<Longrightarrow> t = m"
  by (auto simp: assign_slice_def Let_def split: if_splits)

lemma write_bytes_atomic: "write_bytes a xs s = (Inl e, t) \<Longrightarrow> t = s"
  by (auto simp: write_bytes_def zoom_op_def dest: assign_slice_atomic split: if_splits prod.splits)

lemma atomic_writes [atomic_intros]:
  "atomic (on_sram (write_bytes a xs))" "atomic (on_sram (write_int32 a ws))"
  "atomic (on_sram (write_float16 a hs))" "atomic (set_dram (assign_slice n b c xs))"
  by (auto simp: atomic_def on_sram_def set_dram_def write_int32_def write_float16_def zoom_op_def
      dest: write_bytes_atomic assign_slice_atomic split: prod.splits)

lemmas exec_defs = exec_mmul_def exec_sfu_def exec_pool_def exec_dma_ld_def exec_dma_st_def exec_vbin_def exec_vred_def
  exec_vconv_def exec_vconv_f16_i32_def exec_vresid_def Let_def

lemma atomic_simple: "atomic (exec_simple env opc ops)"
  unfolding exec_simple_def exec_defs
  by (cases opc; simp only: opcode.simps; intro atomic_intros atomic_sure)

lemma frame_simple:
  assumes "opc \<noteq> DMA_ST"
  shows "keeps (frame D p E) (exec_simple env opc ops)"
  using assms unfolding exec_simple_def exec_defs
  by (cases opc; simp only: opcode.simps simp_thms; (intro keeps_intros)?)


lemma frame_dma_st: "keeps (\<lambda>s. xs_pc (nx_state s) = p \<and> nx_dma s = E) (exec_simple env DMA_ST ops)"
proof -
  have k: "keeps (\<lambda>s. xs_pc (nx_state s) = p \<and> nx_dma s = E) (set_dram m)" for m :: "(memory, unit) op"
    by (auto simp: keeps_def set_dram_def zoom_op_def split: prod.splits)
  have o: "keeps (\<lambda>s. xs_pc (nx_state s) = p \<and> nx_dma s = E) (of_state f)" for f :: "npu \<Rightarrow> 'a result"
    by (simp add: keeps_def of_state_def)
  have c: "keeps (\<lambda>s. xs_pc (nx_state s) = p \<and> nx_dma s = E) (dma_cycles sz dir)" for sz dir
    by (auto simp: keeps_def dma_cycles_def bind_op_def of_state_def add_cycles_def modify_op_def split: sum.splits)
  show ?thesis
    unfolding exec_simple_def exec_defs by (simp only: opcode.simps) (intro keeps_intros k o c)
qed

text \<open>C20. Every instruction other than a descriptor chain returns. If it raises, the machine is exactly as
  before: SRAM, DRAM, DMA engine, counters and program counter. If it returns, it gives the
  snapshot of the state before, advances the program counter by one, leaves the DMA engine
  alone, and leaves the DRAM alone unless it is DMA_ST.\<close>

theorem step_is_atomic:
  assumes "dm_burst_size (nx_dma s) \<noteq> 0" and "in_opcode i \<notin> {DMA_LDD, DMA_STD}"
  shows "(\<exists>e. step env i s = Some (Inl e, s)) \<or>
    (\<exists>t. step env i s = Some (Inr (snapshot env s), t) \<and> xs_pc (nx_state t) = xs_pc (nx_state s) + 1 \<and>
         nx_dma t = nx_dma s \<and> (in_opcode i \<noteq> DMA_ST \<longrightarrow> nx_dram t = nx_dram s))"
proof -
  obtain r u where run: "exec_simple env (in_opcode i) (in_operands i) s = (r, u)" by (cases "exec_simple env (in_opcode i) (in_operands i) s")
  have ex: "exec_op env i s = Some (r, u)" using assms(2) run by (simp add: exec_op_def)
  have P: "xs_pc (nx_state u) = xs_pc (nx_state s) \<and> nx_dma u = nx_dma s \<and> (in_opcode i \<noteq> DMA_ST \<longrightarrow> nx_dram u = nx_dram s)"
  proof (cases "in_opcode i = DMA_ST")
    case True
    show ?thesis using keepsD'[OF frame_dma_st _ run[unfolded True], of "xs_pc (nx_state s)" "nx_dma s"] True by simp
  next
    case False
    show ?thesis
      using keepsD'[OF frame_simple[OF False] _ run, of "nx_dram s" "xs_pc (nx_state s)" "nx_dma s"] by (simp add: frame_def)
  qed
  show ?thesis
  proof (cases r)
    case (Inl e)
    then have "u = s" using atomic_simple[of env "in_opcode i" "in_operands i"] run assms(1)
      by (auto simp: atomic_def dma_set_def)
    then show ?thesis using ex Inl by (simp add: step_def)
  next
    case (Inr x)
    then show ?thesis using ex P by (auto simp: step_def bump_pc_def)
  qed
qed

section \<open>When a descriptor chain ends\<close>

definition last_at :: "memory \<Rightarrow> int \<Rightarrow> bool" where
  "last_at dram a = (case desc_at dram a of Inl e \<Rightarrow> False | Inr d \<Rightarrow> dd_last d)"

lemma desc_at_total: obtains d where "desc_at dram a = Inr d" and "desc_ok d"
  unfolding desc_at_def by (rule decode_desc_total)

lemma length_slice: "0 \<le> a \<Longrightarrow> 0 \<le> k \<Longrightarrow> length (slice n m a (a + k)) \<le> nat k"
  by (auto simp: slice_def clip_index_def)

lemma execute_load_returns:
  assumes "desc_ok d"
  shows "\<exists>t. execute_load d dram s = (Inr (), t)"
proof -
  let ?xs = "slice dram_size dram (dd_dram d) (dd_dram d + actual_size d)"
  have "int (length ?xs) \<le> 4096" using length_slice[of "dd_dram d" "actual_size d" dram_size dram] assms
    by (auto simp: desc_ok_def actual_size_def split: if_splits)
  then show ?thesis
    using assms unfolding execute_load_def by (subst write_bytes_inside) (auto simp: desc_ok_def sram_size_def)
qed

lemma load_round:
  assumes "dma_set s"
  shows "\<exists>t. chain_round load_transfer dir a s = (Inr (last_at (nx_dram s) a), t) \<and>
    nx_dram t = nx_dram s \<and> nx_dma t = nx_dma s \<and>
    (\<forall>d. desc_at (nx_dram s) a = Inr d \<longrightarrow> nx_sram t = snd (execute_load d (nx_dram s) (nx_sram s)))"
proof -
  obtain d where d: "desc_at (nx_dram s) a = Inr d" "desc_ok d" by (rule desc_at_total)
  obtain m where m: "execute_load d (nx_dram s) (nx_sram s) = (Inr (), m)"
    using execute_load_returns[OF d(2)] by blast
  have "\<exists>c. estimate_transfer (nx_dma s) (actual_size d) dir SEQUENTIAL = Inr c"
    using assms unfolding estimate_transfer_def dma_set_def Let_def by simp
  then obtain c where "estimate_transfer (nx_dma s) (actual_size d) dir SEQUENTIAL = Inr c" by blast
  then show ?thesis
    by (auto simp: chain_round_def bind_op_def seq_op_def of_state_def d load_transfer_def on_sram_def zoom_op_def m
        dma_cycles_def add_cycles_def modify_op_def ret_def last_at_def)
qed

lemma ldd_ends:
  "dma_set s \<Longrightarrow> last_at (nx_dram s) (a + 8 * int n) \<Longrightarrow> \<exists>t. ldd_chain a s = Some (Inr (), t)"
proof (induction n arbitrary: a s)
  case 0
  then show ?case using load_round[OF 0(1), of "''load''" a] by (subst ldd_chain.simps) auto
next
  case (Suc n)
  obtain t where t: "chain_round load_transfer ''load'' a s = (Inr (last_at (nx_dram s) a), t)"
    "nx_dram t = nx_dram s" "nx_dma t = nx_dma s"
    using load_round[OF Suc.prems(1)] by blast
  have "\<exists>u. ldd_chain (a + 8) t = Some (Inr (), u)"
    using Suc.IH[of t "a + 8"] Suc.prems t by (simp add: dma_set_def algebra_simps)
  then show ?case by (subst ldd_chain.simps) (auto simp: t)
qed

lemma ldd_needs_last:
  assumes "ldd_chain a s = Some r"
  shows "dma_set s \<longrightarrow> (\<exists>n. last_at (nx_dram s) (a + 8 * int n))"
proof (rule ldd_chain.raw_induct[where P = "\<lambda>a s r. dma_set s \<longrightarrow> (\<exists>n. last_at (nx_dram s) (a + 8 * int n))",
    OF _ assms], goal_cases)
  case (1 f a s r)
  show ?case
  proof
    assume s: "dma_set s"
    obtain t where t: "chain_round load_transfer ''load'' a s = (Inr (last_at (nx_dram s) a), t)"
      "nx_dram t = nx_dram s" "nx_dma t = nx_dma s"
      using load_round[OF s] by blast
    show "\<exists>n. last_at (nx_dram s) (a + 8 * int n)"
    proof (cases "last_at (nx_dram s) a")
      case True
      then show ?thesis by (intro exI[of _ 0]) simp
    next
      case False
      then have "f (a + 8) t = Some r" using 1(2) t by simp
      from 1(1)[OF this] s t obtain n where "last_at (nx_dram s) (a + 8 + 8 * int n)" by (auto simp: dma_set_def)
      then show ?thesis by (intro exI[of _ "Suc n"]) (simp add: algebra_simps)
    qed
  qed
qed

lemma not_last_past_end: "int dram_size \<le> a \<Longrightarrow> \<not> last_at dram a"
proof -
  assume "int dram_size \<le> a"
  then have "slice dram_size dram a (a + 8) = []" by (simp add: slice_def clip_index_def)
  then show ?thesis by (simp add: last_at_def desc_at_def decode_desc_def desc_new_def)
qed

text \<open>C19. A load descriptor chain (DMA_LDD) never raises: it returns if and only if one of the descriptors at
  \<open>a\<close>, \<open>a + 8\<close>, ... inside the DRAM has its last flag set, and otherwise the instruction never
  returns, for behind the end of the DRAM the loop reads zeros for ever.\<close>

theorem load_chain_ends_iff:
  assumes "dm_burst_size (nx_dma s) \<noteq> 0"
  shows "((\<exists>x t. step env (instr DMA_LDD [(''sa'', a)] c) s = Some (Inr x, t)) \<longleftrightarrow>
      (\<exists>n. a + 8 * int n < int dram_size \<and> last_at (nx_dram s) (a + 8 * int n))) \<and>
    ((\<nexists>n. a + 8 * int n < int dram_size \<and> last_at (nx_dram s) (a + 8 * int n)) \<longleftrightarrow>
      step env (instr DMA_LDD [(''sa'', a)] c) s = None)"
proof -
  have s: "dma_set s" using assms by (simp add: dma_set_def)
  let ?L = "\<exists>n. last_at (nx_dram s) (a + 8 * int n)"
  have L: "(\<exists>n. a + 8 * int n < int dram_size \<and> last_at (nx_dram s) (a + 8 * int n)) = ?L"
    using not_last_past_end[of _ "nx_dram s"] by (meson not_less)
  have step: "step env (instr DMA_LDD [(''sa'', a)] c) s = (case ldd_chain a s of None \<Rightarrow> None
     | Some (Inl e, t) \<Rightarrow> Some (Inl e, t) | Some (Inr _, t) \<Rightarrow> Some (Inr (snapshot env s), bump_pc t))"
    by (simp add: step_def exec_op_def instr_def dget_def)
  show ?thesis
  proof (cases ?L)
    case True
    then obtain t where "ldd_chain a s = Some (Inr (), t)" using ldd_ends[OF s] by blast
    then show ?thesis unfolding L step using True by simp
  next
    case False
    then have "ldd_chain a s = None" using ldd_needs_last[of a s] s by (cases "ldd_chain a s") auto
    then show ?thesis unfolding L step using False by simp
  qed
qed


section \<open>A built chain, stored in DRAM, is executed\<close>

fun le_bytes :: "nat \<Rightarrow> int \<Rightarrow> byte list" where
  "le_bytes 0 w = []"
| "le_bytes (Suc n) w = word_of_int w # le_bytes n (w div 256)"

lemma length_le_bytes [simp]: "length (le_bytes n w) = n"
  by (induction n arbitrary: w) simp_all

lemma le_word_bytes: "le_word (le_bytes n w) = w mod 256 ^ n"
proof (induction n arbitrary: w)
  case (Suc n)
  have "w mod 256 + 256 * (w div 256 mod 256 ^ n) = w mod (256 * 256 ^ n)"
    by (simp add: zmod_zmult2_eq)
  with Suc show ?case by (simp add: uint_word_of_int)
qed simp

text \<open>The descriptors of a chain as bytes in DRAM, one after the other.\<close>

definition chain_bytes :: "dma_desc list \<Rightarrow> byte list" where
  "chain_bytes ds = concat (map (\<lambda>d. le_bytes 8 (encode_desc d)) ds)"

lemma length_chain_bytes [simp]: "length (chain_bytes ds) = 8 * length ds"
  by (induction ds) (simp_all add: chain_bytes_def)

lemma block_prefix:
  assumes "0 \<le> a" and "block m a (int (length (xs @ ys))) = xs @ ys"
  shows "block m a (int (length xs)) = xs" and "block m (a + int (length xs)) (int (length ys)) = ys"
  using block_append[OF assms(1), of "int (length xs)" "int (length ys)" m] assms(2)
  by (simp_all add: append_eq_append_conv)

lemma desc_at_chain:
  assumes "block dram a (int (length (chain_bytes (d # ds)))) = chain_bytes (d # ds)" and "0 \<le> a"
    and "a + 8 \<le> int dram_size" and "desc_ok d"
  shows "desc_at dram a = Inr (normal_desc d)"
    and "block dram (a + 8) (int (length (chain_bytes ds))) = chain_bytes ds"
proof -
  let ?b = "le_bytes 8 (encode_desc d)"
  have eq: "chain_bytes (d # ds) = ?b @ chain_bytes ds" by (simp add: chain_bytes_def)
  have b: "block dram a 8 = ?b" and r: "block dram (a + 8) (int (length (chain_bytes ds))) = chain_bytes ds"
    using block_prefix[OF assms(2), of dram ?b "chain_bytes ds"] assms(1) unfolding eq by simp_all
  have "slice dram_size dram a (a + 8) = block dram a 8"
    using slice_inside[of a 8 dram_size dram] assms(2,3) by (simp add: block_def)
  moreover have "le_word ?b = encode_desc d"
    using encode_desc_bound[of d] by (simp add: le_word_bytes)
  ultimately show "desc_at dram a = Inr (normal_desc d)"
    using decode_encode_desc[OF assms(4)] b by (simp add: desc_at_def)
  show "block dram (a + 8) (int (length (chain_bytes ds))) = chain_bytes ds" by (rule r)
qed

lemma ldd_runs_chain:
  assumes "chain_ok sb db n ds" and "ds \<noteq> []" and "dma_set s" and "0 \<le> a"
    and "a + 8 * int (length ds) \<le> int dram_size"
    and "block (nx_dram s) a (int (length (chain_bytes ds))) = chain_bytes ds"
  shows "\<exists>t. ldd_chain a s = Some (Inr (), t) \<and> nx_dram t = nx_dram s \<and>
    nx_sram t = snd (for_op ds (\<lambda>d. execute_load d (nx_dram s)) (nx_sram s))"
  using assms
proof (induction ds arbitrary: sb db n a s)
  case (Cons d ds)
  have d: "desc_ok d" "dd_last d = (ds = [])" using Cons.prems(1) by simp_all
  have at: "desc_at (nx_dram s) a = Inr (normal_desc d)"
    and rest: "block (nx_dram s) (a + 8) (int (length (chain_bytes ds))) = chain_bytes ds"
    using desc_at_chain[OF Cons.prems(6,4) _ d(1)] Cons.prems(5) by simp_all
  have same: "execute_load (normal_desc d) = execute_load d" by (rule ext) (simp add: execute_load_def)
  obtain t where t: "chain_round load_transfer ''load'' a s = (Inr (ds = []), t)" "nx_dram t = nx_dram s"
    "nx_dma t = nx_dma s" "nx_sram t = snd (execute_load d (nx_dram s) (nx_sram s))"
    using load_round[OF Cons.prems(3), of "''load''" a] at d(2) by (auto simp: last_at_def same)
  obtain m where m: "execute_load d (nx_dram s) (nx_sram s) = (Inr (), m)" using execute_load_returns[OF d(1)] by blast
  show ?case
  proof (cases "ds = []")
    case True
    then show ?thesis using t m by (subst ldd_chain.simps) (simp add: seq_op_def bind_op_def ret_def)
  next
    case False
    have "chain_ok (sb + dd_size d) (db + dd_size d) (n - dd_size d) ds" using Cons.prems(1) by simp
    from Cons.IH[OF this False, of t "a + 8"] Cons.prems(3-5) rest t
    obtain u where "ldd_chain (a + 8) t = Some (Inr (), u)" "nx_dram u = nx_dram s"
      "nx_sram u = snd (for_op ds (\<lambda>d. execute_load d (nx_dram s)) m)"
      using m by (auto simp: dma_set_def)
    then show ?thesis using t m False by (subst ldd_chain.simps) (simp add: seq_op_def bind_op_def)
  qed
qed simp

text \<open>C18. Weight loading end to end: build the chain for \<open>n\<close> bytes, encode its descriptors as little-endian
  words at \<open>a\<close> in DRAM, execute DMA_LDD there. The instruction returns and the SRAM afterwards
  is the SRAM before with the \<open>n\<close> DRAM bytes at \<open>db\<close> copied to \<open>sb\<close>, the DRAM untouched.\<close>

theorem descriptor_chain_end_to_end:
  assumes "1 \<le> chunk" and "chunk \<le> 4096" and "0 < n" and "0 \<le> sb" and "0 \<le> db"
    and "sb + n \<le> 0x10000" and "db + n \<le> int dram_size" and "dm_burst_size (nx_dma s) \<noteq> 0"
    and "build_weight_load_chain sb db n chunk = Some (Inr ds)"
    and "0 \<le> a" and "a + 8 * int (length ds) \<le> int dram_size"
    and "block (nx_dram s) a (8 * int (length ds)) = chain_bytes ds"
  shows "\<exists>t. step env (instr DMA_LDD [(''sa'', a)] c) s = Some (Inr (snapshot env s), t) \<and> nx_dram t = nx_dram s \<and>
    nx_sram t = (nx_sram s)\<lparr>sm_data := store_at (nat sb) (block (nx_dram s) db n) (sm_data (nx_sram s))\<rparr>"
proof -
  have "db + n \<le> 0x100000000" using assms(7) by (simp add: dram_size_def)
  then have ok: "chain_ok sb db n ds"
    using chain_loop_ok[of chunk n sb 0 db] assms(1-6,9) by (auto simp: build_weight_load_chain_def)
  then have ne: "ds \<noteq> []" using assms(3) by auto
  obtain t where t: "ldd_chain a s = Some (Inr (), t)" "nx_dram t = nx_dram s"
    "nx_sram t = snd (for_op ds (\<lambda>d. execute_load d (nx_dram s)) (nx_sram s))"
    using ldd_runs_chain[OF ok ne, of s a] assms(8,10-12) by (auto simp: dma_set_def)
  have copy: "for_op ds (\<lambda>d. execute_load d (nx_dram s)) (nx_sram s) =
      (Inr (), (nx_sram s)\<lparr>sm_data := store_at (nat sb) (block (nx_dram s) db n) (sm_data (nx_sram s))\<rparr>)"
    using chain_ok_copies[OF ok assms(7,4,5)] .
  show ?thesis using t copy by (simp add: step_def exec_op_def instr_def dget_def bump_pc_def)
qed

section \<open>Concrete machines\<close>

definition tiny_npu :: "memory \<Rightarrow> npu" where
  "tiny_npu dram = \<lparr>nx_sram = sram_new, nx_dram = dram, nx_dma = small_engine ''round_robin'' [[], []],
     nx_state = \<lparr>xs_cycle = 0, xs_pc = 0, xs_sram_checksum = '''', xs_mxu_hash = '''', xs_sfu_hash = ''''\<rparr>\<rparr>"

lemma tiny_npu_simps [simp]: "nx_dram (tiny_npu D) = D" "dm_burst_size (nx_dma (tiny_npu D)) = 256"
    "nx_sram (tiny_npu D) = sram_new" "xs_pc (nx_state (tiny_npu D)) = 0"
  by (simp_all add: tiny_npu_def small_engine_def)

definition tiny_desc :: dma_desc where
  "tiny_desc = \<lparr>dd_dram = 4096, dd_sram = 0, dd_size = 5, dd_direction = 0, dd_last = True, dd_channel = 0, dd_cycle_cost = 0\<rparr>"

lemma descriptor_chain_end_to_end_witness:
  "\<forall>env c. \<exists>t. step env (instr DMA_LDD [(''sa'', 0)] c) (tiny_npu (store_at 0 (chain_bytes [tiny_desc]) (\<lambda>_. 7))) =
       Some (Inr (snapshot env (tiny_npu (store_at 0 (chain_bytes [tiny_desc]) (\<lambda>_. 7)))), t) \<and>
     sm_data (nx_sram t) 4 = 7"
proof (intro allI)
  fix env c
  let ?D = "store_at 0 (chain_bytes [tiny_desc]) (\<lambda>_. 7)"
  have len: "length (chain_bytes [tiny_desc]) = 8" by simp
  have ch: "build_weight_load_chain 0 4096 5 4096 = Some (Inr [tiny_desc])"
    unfolding build_weight_load_chain_def
    by (subst chain_loop.simps, subst chain_loop.simps) (simp add: desc_new_def tiny_desc_def)
  have b: "block ?D 0 (8 * int (length [tiny_desc])) = chain_bytes [tiny_desc]"
    using map_store_at[of 0 "chain_bytes [tiny_desc]" "\<lambda>_. 7"] unfolding block_def len by simp
  have seven: "block ?D 4096 5 ! 4 = 7" by (simp add: block_def store_at_def)
  obtain t where t: "step env (instr DMA_LDD [(''sa'', 0)] c) (tiny_npu ?D) = Some (Inr (snapshot env (tiny_npu ?D)), t)"
    "nx_sram t = (nx_sram (tiny_npu ?D))\<lparr>sm_data := store_at (nat 0) (block (nx_dram (tiny_npu ?D)) 4096 5) (sm_data (nx_sram (tiny_npu ?D)))\<rparr>"
    using descriptor_chain_end_to_end[of 4096 5 0 4096 "tiny_npu ?D" "[tiny_desc]" 0] ch b by (auto simp: dram_size_def)
  have "sm_data (nx_sram t) 4 = 7" unfolding t(2) using seven by (simp add: store_at_def)
  with t(1) show "\<exists>t. step env (instr DMA_LDD [(''sa'', 0)] c) (tiny_npu ?D) = Some (Inr (snapshot env (tiny_npu ?D)), t) \<and>
     sm_data (nx_sram t) 4 = 7" by blast
qed

lemma load_chain_ends_iff_witness: "\<forall>env c. step env (instr DMA_LDD [(''sa'', 0)] c) (tiny_npu (\<lambda>_. 0)) = None"
proof -
  have le: "le_word (replicate n 0) = 0" for n by (induction n) simp_all
  have "slice dram_size (\<lambda>_. 0) a b = replicate (length (slice dram_size (\<lambda>_. 0) a b)) 0" for a b
    by (simp add: slice_def map_replicate_const)
  then have "le_word (slice dram_size (\<lambda>_. 0) a b) = 0" for a b by (metis le)
  then have "\<not> last_at (\<lambda>_. 0) x" for x by (simp add: last_at_def desc_at_def decode_desc_def desc_new_def)
  then show ?thesis using load_chain_ends_iff[of "tiny_npu (\<lambda>_. 0)" _ 0] by simp
qed

lemma step_is_atomic_witness:
  "\<forall>env c. \<exists>t. step env (instr NOP [] c) (tiny_npu (\<lambda>_. 0)) = Some (Inr (snapshot env (tiny_npu (\<lambda>_. 0))), t) \<and>
     xs_pc (nx_state t) = 1"
proof (intro allI)
  fix env c
  have "\<not> (\<exists>e. step env (instr NOP [] c) (tiny_npu (\<lambda>_. 0)) = Some (Inl e, tiny_npu (\<lambda>_. 0)))"
    by (simp add: step_def exec_op_def instr_def exec_simple_def Let_def add_cycles_def modify_op_def)
  then show "\<exists>t. step env (instr NOP [] c) (tiny_npu (\<lambda>_. 0)) = Some (Inr (snapshot env (tiny_npu (\<lambda>_. 0))), t) \<and>
     xs_pc (nx_state t) = 1"
    using step_is_atomic[of "tiny_npu (\<lambda>_. 0)" "instr NOP [] c" env] by (auto simp: instr_def)
qed

section \<open>The rotary embedding instruction\<close>

lemma words16_length: "words16 bs = Inr ws \<Longrightarrow> 2 * length ws = length bs"
  by (induction bs arbitrary: ws rule: words16.induct) (auto simp: bind_res_Inr_iff)

lemma read_float16_length:
  assumes "read_float16 sa len s = Inr inp" and "0 \<le> sa" and "0 \<le> len"
  shows "length inp = nat len"
proof -
  obtain bs where bs: "read_bytes sa (len * 2) s = Inr bs" "words16 bs = Inr inp"
    using assms(1) by (auto simp: read_float16_def bind_res_Inr_iff)
  have "bs = slice sram_size (sm_data s) sa (sa + int (nat (len * 2)))" "sa + len * 2 \<le> int sram_size"
    using bs(1) assms(3) by (auto simp: read_bytes_def split: if_splits)
  then have "length bs = nat (len * 2)"
    using assms(2,3) slice_inside[of sa "nat (len * 2)" sram_size "sm_data s"] by simp
  then show ?thesis using words16_length[OF bs(2)] assms(3) by linarith
qed

lemma length_lslice: "length (lslice xs a b) = clip_index (length xs) b - clip_index (length xs) a"
proof -
  have "clip_index (length xs) b \<le> length xs" by (auto simp: clip_index_def)
  then show ?thesis by (simp add: lslice_def)
qed

lemma rope_shapes_differ:
  assumes "read_float16 sa len s = Inr inp" and "0 \<le> sa"
  shows "\<exists>e. rope_pair env pos len inp = Inl e"
proof -
  define mid where "mid = len div 2"
  have "\<not> (length (lslice inp 0 mid) = 4096 \<and> length (lslice inp mid (mid + mid div 8)) = 256)"
  proof (cases "0 \<le> len")
    case True
    have "0 \<le> mid" "0 \<le> mid div 8" "mid + mid div 8 \<le> len" using True by (simp_all add: mid_def)
    moreover have "int (length inp) = len" using read_float16_length[OF assms True] True by simp
    ultimately have "clip_index (length inp) mid = nat mid" "clip_index (length inp) 0 = 0"
      "clip_index (length inp) (mid + mid div 8) = nat mid + nat (mid div 8)"
      by (simp_all add: clip_inside nat_add_distrib)
    then have "length (lslice inp 0 mid) = nat mid" "length (lslice inp mid (mid + mid div 8)) = nat (mid div 8)"
      by (simp_all add: length_lslice)
    then show ?thesis by auto
  next
    case False
    then have "mid < 0" "mid div 8 < 0" by (simp_all add: mid_def)
    then have "length (lslice inp mid (mid + mid div 8)) = 0" by (simp add: length_lslice clip_index_def)
    then show ?thesis by simp
  qed
  then show ?thesis by (auto simp: rope_pair_def rope_hw_def Let_def mid_def[symmetric])
qed

text \<open>The ROPE instruction can never be executed: for every source address that is not negative, every
  length and position and every content of the memory, the step raises and changes nothing. The key
  half of the input has an eighth of the query half's length, but 2 heads against 32 need a sixteenth.\<close>

theorem rope_always_raises:
  assumes "0 \<le> dget ops ''sa'' 0"
  shows "\<exists>e. step env (instr ROPE ops c) s = Some (Inl e, s)"
proof -
  let ?sa = "dget ops ''sa'' 0" and ?len = "dget ops ''len'' 2560" and ?pos = "dget ops ''pos'' 0"
  have "\<exists>e. bind_res (read_float16 ?sa ?len (nx_sram s)) (rope_pair env ?pos ?len) = Inl e"
  proof (cases "read_float16 ?sa ?len (nx_sram s)")
    case (Inr inp)
    then show ?thesis using rope_shapes_differ[OF Inr assms] by simp
  qed simp
  then show ?thesis
    by (auto simp: step_def exec_op_def instr_def exec_simple_def exec_sfu_def bind_op_def of_state_def Let_def)
qed

lemma rope_always_raises_witness:
  "\<forall>env c D. \<exists>e. step env (instr ROPE [(''len'', 8192)] c) (tiny_npu D) = Some (Inl e, tiny_npu D)"
  using rope_always_raises[of "[(''len'', 8192)]"] by (simp add: dget_def)

end
