(* ===== verification/Golden_Chain.thy ===== *)
theory Golden_Chain
  imports Golden_Exec
begin

text \<open>
  Chains of operations with automatic type conversion, \<open>GoldenExecutor._insert_dtype_converters\<close>
  and \<open>run_op_chain\<close> in \<open>sim/golden_executor.py\<close>: the element types each opcode consumes and
  produces, the addresses and counts read from the operands, the converters inserted
  between instructions that do not fit, and the execution of the expanded chain.
\<close>

section \<open>Types and operands\<close>

datatype dtype = Int8 | Int32 | Fp16

definition input_dtype :: "opcode \<Rightarrow> dtype option" where
  "input_dtype opc =
     (if opc = MMUL then Some Int8
      else if opc \<in> {SOFTMAX, LAYERNORM, GELU, RELU, ROPE, SILU, MAXPOOL, AVGPOOL, RMSNORM, VCONV_F16_I32} then Some Fp16
      else if opc \<in> {VADD, VMUL, VRED_MAX, VRED_SUM, VCONV, VRESID} then Some Int32
      else None)"

definition output_dtype :: "opcode \<Rightarrow> dtype option" where
  "output_dtype opc =
     (if opc \<in> {MMUL, VADD, VMUL, VCONV_F16_I32, VRESID} then Some Int32
      else if opc \<in> {SOFTMAX, LAYERNORM, GELU, RELU, ROPE, SILU, MAXPOOL, AVGPOOL, RMSNORM, VRED_MAX, VRED_SUM, VCONV}
        then Some Fp16
      else None)"

text \<open>\<open>get("da") or get("oa")\<close>: a missing or zero \<open>da\<close> falls through.\<close>

definition get_dst_addr :: "instruction \<Rightarrow> int option" where
  "get_dst_addr i = (case map_of (in_operands i) ''da'' of
     Some a \<Rightarrow> if a \<noteq> 0 then Some a else map_of (in_operands i) ''oa''
   | None \<Rightarrow> map_of (in_operands i) ''oa'')"

definition src_key :: "opcode \<Rightarrow> string" where
  "src_key opc = (if opc = MMUL then ''ia'' else if opc = VRESID then ''sb'' else ''sa'')"

definition set_src_addr :: "instruction \<Rightarrow> int \<Rightarrow> instruction" where
  "set_src_addr i a = i\<lparr>in_operands := AList.update (src_key (in_opcode i)) a (in_operands i)\<rparr>"

definition get_src_addr :: "instruction \<Rightarrow> int option" where
  "get_src_addr i = (if in_opcode i = MMUL then map_of (in_operands i) ''ia'' else map_of (in_operands i) ''sa'')"

definition get_element_count :: "instruction \<Rightarrow> int" where
  "get_element_count i = (let ops = in_operands i in
     if in_opcode i = MMUL then dget ops ''M'' 1 * dget ops ''N'' 2560
     else if in_opcode i = RMSNORM then dget ops ''elements'' 0
     else dget ops ''len'' 0)"

section \<open>Inserting converters\<close>

datatype chain_item = Run instruction | Int8Clip int int int

definition round64 :: "int \<Rightarrow> int" where
  "round64 x = (x + 63) div 64 * 64"

definition converter :: "opcode \<Rightarrow> int \<Rightarrow> int \<Rightarrow> int \<Rightarrow> instruction" where
  "converter opc src dst len = instr opc [(''sa'', src), (''da'', dst), (''len'', len)] ''''"

text \<open>What one instruction becomes after \<open>p\<close>, and the next free scratch address.\<close>

definition expand_one :: "instruction \<Rightarrow> int \<Rightarrow> instruction \<Rightarrow> (chain_item list \<times> int) result" where
  "expand_one p scratch i = (case (output_dtype (in_opcode p), input_dtype (in_opcode i)) of
     (Some po, Some ni) \<Rightarrow>
       if po = ni then Inr ([Run i], scratch)
       else let len = get_element_count p in
         (case get_dst_addr p of
            None \<Rightarrow> Inl (ValueError ''Cannot chain'')
          | Some dst \<Rightarrow>
              if po = Int32 \<and> ni = Fp16 then
                Inr ([Run (converter VCONV dst scratch len), Run (set_src_addr i scratch)], scratch + round64 (len * 2))
              else if po = Fp16 \<and> ni = Int32 then
                Inr ([Run (converter VCONV_F16_I32 dst scratch len), Run (set_src_addr i scratch)],
                     scratch + round64 (len * 4))
              else if po = Fp16 \<and> ni = Int8 then
                let int8 = scratch + round64 (len * 4) in
                Inr ([Run (converter VCONV_F16_I32 dst scratch len), Int8Clip scratch int8 len,
                      Run (set_src_addr i int8)], int8 + round64 (len * 1))
              else Inl (ValueError ''Unsupported dtype transition''))
   | _ \<Rightarrow> Inr ([Run i], scratch))"

fun insert_after :: "instruction \<Rightarrow> int \<Rightarrow> instruction list \<Rightarrow> chain_item list result" where
  "insert_after p scratch [] = Inr []"
| "insert_after p scratch (i # is) = bind_res (expand_one p scratch i) (\<lambda>(xs, scratch').
     bind_res (insert_after i scratch' is) (\<lambda>ys. Inr (xs @ ys)))"

definition insert_dtype_converters :: "instruction list \<Rightarrow> int \<Rightarrow> chain_item list result" where
  "insert_dtype_converters prog scratch = (case prog of [] \<Rightarrow> Inr []
     | i # is \<Rightarrow> bind_res (insert_after i scratch is) (\<lambda>ys. Inr (Run i # ys)))"

section \<open>Running a chain\<close>

definition clip8 :: "32 word \<Rightarrow> byte" where
  "clip8 w = word_of_int (max (-128) (min 127 (sint w)))"

definition int8_clip :: "int \<Rightarrow> int \<Rightarrow> int \<Rightarrow> (npu, unit) op" where
  "int8_clip src dst len = bind_op (of_state (\<lambda>s. read_int32 src len (nx_sram s))) (\<lambda>ws.
     on_sram (write_int8 dst (map clip8 ws)))"

fun run_items :: "golden_env \<Rightarrow> chain_item list \<Rightarrow> npu \<Rightarrow> ((py_error + exec_state list) \<times> npu) option" where
  "run_items env [] s = Some (Inr [], s)"
| "run_items env (Int8Clip src dst len # xs) s = (case int8_clip src dst len s of
     (Inl e, t) \<Rightarrow> Some (Inl e, t)
   | (Inr _, t) \<Rightarrow> run_items env xs t)"
| "run_items env (Run i # xs) s = (case step env i s of
     None \<Rightarrow> None
   | Some (Inl e, t) \<Rightarrow> Some (Inl e, t)
   | Some (Inr x, t) \<Rightarrow> (case run_items env xs t of
       None \<Rightarrow> None
     | Some (Inl e, u) \<Rightarrow> Some (Inl e, u)
     | Some (Inr ys, u) \<Rightarrow> Some (Inr (x # ys), u)))"

definition run_op_chain :: "golden_env \<Rightarrow> instruction list \<Rightarrow> int \<Rightarrow> npu \<Rightarrow> ((py_error + exec_state list) \<times> npu) option" where
  "run_op_chain env prog scratch s = (case insert_dtype_converters prog scratch of
     Inl e \<Rightarrow> Some (Inl e, s) | Inr xs \<Rightarrow> run_items env xs s)"

definition execute_program :: "golden_env \<Rightarrow> instruction list \<Rightarrow> bool \<Rightarrow> npu \<Rightarrow> ((py_error + exec_state list) \<times> npu) option" where
  "execute_program env prog auto s = (if auto then run_op_chain env prog 0x380000 s else run_program env prog s)"

section \<open>The expanded chain fits together\<close>

fun item_output :: "chain_item \<Rightarrow> dtype option" where
  "item_output (Run i) = output_dtype (in_opcode i)"
| "item_output (Int8Clip _ _ _) = Some Int8"

fun item_input :: "chain_item \<Rightarrow> dtype option" where
  "item_input (Run i) = input_dtype (in_opcode i)"
| "item_input (Int8Clip _ _ _) = Some Int32"

text \<open>Neighbours agree on the element type, where both have one.\<close>

definition fits :: "dtype option \<Rightarrow> dtype option \<Rightarrow> bool" where
  "fits a b \<longleftrightarrow> a = None \<or> b = None \<or> a = b"

fun typed_chain :: "chain_item list \<Rightarrow> bool" where
  "typed_chain (a # b # xs) \<longleftrightarrow> fits (item_output a) (item_input b) \<and> typed_chain (b # xs)"
| "typed_chain _ \<longleftrightarrow> True"

text \<open>The original program, in order, up to source addresses; whatever else is there is a converter.\<close>

definition same_but_source :: "instruction \<Rightarrow> instruction \<Rightarrow> bool" where
  "same_but_source i j \<longleftrightarrow> in_opcode j = in_opcode i \<and> in_comment j = in_comment i \<and> in_raw j = in_raw i \<and>
     (\<forall>k\<in>set (map fst (in_operands i) @ map fst (in_operands j)).
        k \<noteq> src_key (in_opcode i) \<longrightarrow> map_of (in_operands j) k = map_of (in_operands i) k)"

fun covers :: "instruction list \<Rightarrow> chain_item list \<Rightarrow> bool" where
  "covers is [] \<longleftrightarrow> is = []"
| "covers is (Int8Clip _ _ _ # xs) \<longleftrightarrow> covers is xs"
| "covers is (Run j # xs) \<longleftrightarrow>
     (case is of [] \<Rightarrow> False | i # is' \<Rightarrow> same_but_source i j \<and> covers is' xs) \<or>
     in_opcode j \<in> {VCONV, VCONV_F16_I32} \<and> covers is xs"

lemma fits_refl [simp]: "fits t t"
  by (simp add: fits_def)

lemma same_but_source_refl [simp]: "same_but_source i i"
  by (simp add: same_but_source_def)

lemma same_but_source_set [simp]: "same_but_source i (set_src_addr i a)"
  by (auto simp: same_but_source_def set_src_addr_def dict_simps)

lemma set_src_opcode [simp]: "in_opcode (set_src_addr i a) = in_opcode i"
  by (simp add: set_src_addr_def)

lemma converter_opcode [simp]: "in_opcode (converter opc a b n) = opc"
  by (simp add: converter_def instr_def)

lemma conv_types [simp]: "output_dtype VCONV = Some Fp16" "input_dtype VCONV = Some Int32"
    "output_dtype VCONV_F16_I32 = Some Int32" "input_dtype VCONV_F16_I32 = Some Fp16"
  by (simp_all add: output_dtype_def input_dtype_def)

text \<open>One step of the expansion, as far as types go: it ends in the instruction itself.\<close>

lemma expand_one_shape:
  assumes "expand_one p scratch i = Inr (xs, scratch')"
  obtains pre j where "xs = pre @ [Run j]" and "same_but_source i j" and "in_opcode j = in_opcode i"
    and "\<And>a. item_output a = output_dtype (in_opcode p) \<Longrightarrow> typed_chain (a # xs)"
    and "\<And>is ys. covers is ys \<Longrightarrow> covers (i # is) (xs @ ys)"
proof -
  let ?P = "\<lambda>xs. \<exists>pre j. xs = pre @ [Run j] \<and> same_but_source i j \<and> in_opcode j = in_opcode i \<and>
      (\<forall>a. item_output a = output_dtype (in_opcode p) \<longrightarrow> typed_chain (a # xs)) \<and>
      (\<forall>is ys. covers is ys \<longrightarrow> covers (i # is) (xs @ ys))"
  have one: "?P [Run j] \<or> \<not> (same_but_source i j \<and> in_opcode j = in_opcode i \<and>
      fits (output_dtype (in_opcode p)) (input_dtype (in_opcode i)))" for j
    by (intro disjCI exI[of _ "[]"] exI[of _ j]) auto
  have two: "?P [Run (converter c x y n), Run (set_src_addr i a)]"
    if "c \<in> {VCONV, VCONV_F16_I32}" "output_dtype (in_opcode p) = input_dtype c" "output_dtype c = input_dtype (in_opcode i)" for c x y n a
    using that by (intro exI[of _ "[Run (converter c x y n)]"] exI[of _ "set_src_addr i a"]) (auto simp: fits_def)
  have three: "?P [Run (converter VCONV_F16_I32 x y n), Int8Clip u v w, Run (set_src_addr i a)]"
    if "output_dtype (in_opcode p) = Some Fp16" "input_dtype (in_opcode i) = Some Int8" for x y n a u v w
    using that by (intro exI[of _ "[Run (converter VCONV_F16_I32 x y n), Int8Clip u v w]"] exI[of _ "set_src_addr i a"])
      (auto simp: fits_def)
  have "?P xs"
  proof (cases "fits (output_dtype (in_opcode p)) (input_dtype (in_opcode i))")
    case True
    then have "xs = [Run i]" using assms by (auto simp: expand_one_def fits_def split: option.splits)
    then show ?thesis using one[of i] True by simp
  next
    case False
    then obtain po ni dst where t: "output_dtype (in_opcode p) = Some po" "input_dtype (in_opcode i) = Some ni" "po \<noteq> ni"
      "get_dst_addr p = Some dst"
      using assms by (auto simp: expand_one_def fits_def Let_def split: option.splits)
    show ?thesis
      using assms t by (cases po; cases ni) (auto simp: expand_one_def Let_def intro!: two three)
  qed
  then show thesis using that by blast
qed

lemma typed_chain_append:
  "typed_chain (xs @ [a]) \<Longrightarrow> typed_chain (a # ys) \<Longrightarrow> typed_chain (xs @ a # ys)"
proof (induction xs)
  case (Cons x xs)
  then show ?case by (cases xs) simp_all
qed simp

text \<open>The two ways the expansion can fail.\<close>

definition bad_pair :: "instruction \<Rightarrow> instruction \<Rightarrow> bool" where
  "bad_pair p i \<longleftrightarrow> output_dtype (in_opcode p) = Some Int32 \<and> input_dtype (in_opcode i) = Some Int8 \<or>
     \<not> fits (output_dtype (in_opcode p)) (input_dtype (in_opcode i)) \<and> get_dst_addr p = None"

lemma input_output_cases:
  "output_dtype opc \<noteq> Some Int8" by (simp add: output_dtype_def)

lemma expand_one_error: "expand_one p scratch i = Inl e \<Longrightarrow> bad_pair p i"
  using input_output_cases[of "in_opcode p"]
  by (cases "output_dtype (in_opcode p)"; cases "input_dtype (in_opcode i)"; cases "get_dst_addr p";
      cases "the (output_dtype (in_opcode p))"; cases "the (input_dtype (in_opcode i))")
    (simp_all add: expand_one_def bad_pair_def fits_def Let_def split: if_splits)

lemma insert_after_result:
  "case insert_after p scratch is of
     Inr xs \<Rightarrow> (\<forall>a. item_output a = output_dtype (in_opcode p) \<longrightarrow> typed_chain (a # xs)) \<and> covers is xs
   | Inl e \<Rightarrow> \<exists>pre q i post. p # is = pre @ q # i # post \<and> bad_pair q i"
proof (induction "is" arbitrary: p scratch)
  case Nil
  then show ?case by simp
next
  case (Cons i "is")
  show ?case
  proof (cases "expand_one p scratch i")
    case (Inl e)
    then show ?thesis using expand_one_error[OF Inl] by (auto intro: exI[of _ "[]"])
  next
    case (Inr r)
    obtain xs scratch' where r: "r = (xs, scratch')" by (cases r)
    obtain pre j where x: "xs = pre @ [Run j]" "same_but_source i j" "in_opcode j = in_opcode i"
      "\<And>a. item_output a = output_dtype (in_opcode p) \<Longrightarrow> typed_chain (a # xs)"
      "\<And>is ys. covers is ys \<Longrightarrow> covers (i # is) (xs @ ys)"
      using expand_one_shape[OF Inr[unfolded r]] by blast
    show ?thesis
    proof (cases "insert_after i scratch' is")
      case (Inl e)
      then obtain pre q k post where "i # is = pre @ q # k # post" "bad_pair q k" using Cons.IH[of i scratch'] by auto
      then have "p # i # is = (p # pre) @ q # k # post \<and> bad_pair q k" by simp
      then have "\<exists>pre q k post. p # i # is = pre @ q # k # post \<and> bad_pair q k" by blast
      moreover have "insert_after p scratch (i # is) = Inl e" using Inr r Inl by simp
      ultimately show ?thesis by (simp del: insert_after.simps)
    next
      case ys: (Inr ys)
      then have IH: "item_output (Run j) = output_dtype (in_opcode i) \<Longrightarrow> typed_chain (Run j # ys)" "covers is ys"
        using Cons.IH[of i scratch'] by auto
      have "typed_chain (a # xs @ ys)" if "item_output a = output_dtype (in_opcode p)" for a
        using typed_chain_append[of "a # pre" "Run j" ys] x(4)[OF that] IH(1) x(3) x(1) by simp
      then show ?thesis using Inr r ys x(5)[OF IH(2)] by simp
    qed
  qed
qed

text \<open>Automatic type conversion is sound: the expansion of a program is a chain in which every two
  neighbours agree on the element type, and which contains the program's instructions in order,
  unchanged up to the source address, with nothing but converters added. It fails only on a pair for which
  no conversion exists: 32-bit output into an 8-bit input, or no destination address to convert from.\<close>

theorem converters_make_types_fit:
  "case insert_dtype_converters prog scratch of
     Inr xs \<Rightarrow> typed_chain xs \<and> covers prog xs
   | Inl e \<Rightarrow> \<exists>pre p i post. prog = pre @ p # i # post \<and> bad_pair p i"
proof (cases prog)
  case Nil
  then show ?thesis by (simp add: insert_dtype_converters_def)
next
  case (Cons i "is")
  show ?thesis
  proof (cases "insert_after i scratch is")
    case (Inl e)
    then show ?thesis using insert_after_result[of i "is" scratch] Cons by (simp add: insert_dtype_converters_def)
  next
    case (Inr xs)
    then have "typed_chain (Run i # xs)" "covers is xs" using insert_after_result[of i "is" scratch] by simp_all
    then show ?thesis using Inr Cons by (simp add: insert_dtype_converters_def)
  qed
qed

section \<open>Programs that need no converter\<close>

lemma insert_after_fitting: "typed_chain (map Run (p # is)) \<Longrightarrow> insert_after p scratch is = Inr (map Run is)"
proof (induction "is" arbitrary: p)
  case (Cons i "is")
  have "expand_one p scratch i = Inr ([Run i], scratch)"
    using Cons.prems by (auto simp: expand_one_def fits_def split: option.splits)
  then show ?case using Cons by simp
qed simp

lemma run_items_plain: "run_items env (map Run is) s = run_program env is s"
  by (induction "is" arbitrary: s) (simp_all split: option.splits prod.splits sum.splits)

text \<open>On a program whose neighbouring instructions already agree, switching the automatic conversion on
  changes nothing: same trace, same exception, same machine, same non-termination.\<close>

theorem converters_off_when_fitting:
  assumes "typed_chain (map Run prog)"
  shows "execute_program env prog True s = execute_program env prog False s"
proof (cases prog)
  case Nil
  then show ?thesis by (simp add: execute_program_def run_op_chain_def insert_dtype_converters_def)
next
  case (Cons i "is")
  then have "insert_dtype_converters prog 0x380000 = Inr (map Run prog)"
    using assms insert_after_fitting[of i "is"] by (simp add: insert_dtype_converters_def)
  then show ?thesis by (simp add: execute_program_def run_op_chain_def run_items_plain)
qed

lemma converters_off_when_fitting_witness:
  "\<forall>env c s. execute_program env [instr VADD [] c, instr VCONV [] c, instr GELU [] c] True s =
   execute_program env [instr VADD [] c, instr VCONV [] c, instr GELU [] c] False s"
  by (intro allI, rule converters_off_when_fitting) (simp add: instr_def fits_def output_dtype_def input_dtype_def)

end
