(* ===== verification/Hw_Timeline.thy ===== *)
theory Hw_Timeline
  imports Sched_Kernel_Inv
begin

text \<open>
  The single-core timeline of \<open>sim/engine/timeline.py\<close>: operations placed one after the other on
  the kernel's picosecond clock, the overlap flag of transfers, and the breakdown of events by
  module. Each \<open>add_*\<close> method is an operation on the state; the text report is not modelled.
\<close>

section \<open>Events and the timeline\<close>

record tl_event =
  te_module :: string
  te_op :: string
  te_start :: int
  te_end :: int
  te_layer :: int
  te_overlapped :: bool

record core_timeline =
  ct_core_id :: int
  ct_events :: "tl_event list"
  ct_kernel :: "unit kernel"
  ct_mxu_busy_ps :: int

definition core_new :: "int \<Rightarrow> int \<Rightarrow> core_timeline result" where
  "core_new core_id freq = bind_res (kernel_new freq False) (\<lambda>k.
     Inr \<lparr>ct_core_id = core_id, ct_events = [], ct_kernel = k, ct_mxu_busy_ps = 0\<rparr>)"

definition ct_now :: "core_timeline \<Rightarrow> int" where
  "ct_now t = k_now_ps (ct_kernel t)"

definition set_now :: "int \<Rightarrow> core_timeline \<Rightarrow> core_timeline" where
  "set_now n t = t\<lparr>ct_kernel := (ct_kernel t)\<lparr>k_now_ps := n\<rparr>\<rparr>"

definition ps_to_cycles :: "core_timeline \<Rightarrow> int \<Rightarrow> int" where
  "ps_to_cycles t ps = ps * k_frequency_mhz (ct_kernel t) div 1000000"

definition append_event :: "string \<Rightarrow> string \<Rightarrow> int \<Rightarrow> int \<Rightarrow> int \<Rightarrow> bool \<Rightarrow> (core_timeline, tl_event) op" where
  "append_event md opn start en layer ov t =
     (let ev = \<lparr>te_module = md, te_op = opn, te_start = ps_to_cycles t start, te_end = ps_to_cycles t en,
                te_layer = layer, te_overlapped = ov\<rparr>
      in (Inr ev, t\<lparr>ct_events := ct_events t @ [ev]\<rparr>))"

text \<open>\<open>add_sfu\<close>, \<open>add_vector\<close> and \<open>add_kv\<close> differ in the md name alone.\<close>

definition add_serial :: "string \<Rightarrow> string \<Rightarrow> int \<Rightarrow> int \<Rightarrow> (core_timeline, tl_event) op" where
  "add_serial md opn cycles layer t = (case cycles_to_ps cycles (ct_kernel t) of
     Inl e \<Rightarrow> (Inl e, t)
   | Inr d \<Rightarrow> let start = ct_now t in append_event md opn start (start + d) layer False (set_now (start + d) t))"

definition add_mxu :: "string \<Rightarrow> int \<Rightarrow> int \<Rightarrow> (core_timeline, tl_event) op" where
  "add_mxu opn cycles layer t = (case cycles_to_ps cycles (ct_kernel t) of
     Inl e \<Rightarrow> (Inl e, t)
   | Inr d \<Rightarrow> let start = ct_now t; en = start + d in
       append_event ''mxu'' opn start en layer False
         (set_now en (t\<lparr>ct_mxu_busy_ps := max (ct_mxu_busy_ps t) en\<rparr>)))"

definition add_sfu :: "string \<Rightarrow> int \<Rightarrow> int \<Rightarrow> (core_timeline, tl_event) op" where
  "add_sfu = add_serial ''sfu''"

definition add_vector :: "string \<Rightarrow> int \<Rightarrow> int \<Rightarrow> (core_timeline, tl_event) op" where
  "add_vector = add_serial ''vector''"

definition add_kv :: "string \<Rightarrow> int \<Rightarrow> int \<Rightarrow> (core_timeline, tl_event) op" where
  "add_kv = add_serial ''kv''"

text \<open>\<open>add_dma_parallel\<close> and \<open>add_noc\<close>\<close>

definition add_parallel :: "string \<Rightarrow> string \<Rightarrow> int \<Rightarrow> int \<Rightarrow> (core_timeline, tl_event) op" where
  "add_parallel md opn cycles layer t = (case cycles_to_ps cycles (ct_kernel t) of
     Inl e \<Rightarrow> (Inl e, t)
   | Inr d \<Rightarrow> let start = ct_now t; en = start + d in
       append_event md opn start en layer (d \<le> ct_mxu_busy_ps t - start)
         (if ct_now t < en then set_now en t else t))"

definition add_dma_parallel :: "string \<Rightarrow> int \<Rightarrow> int \<Rightarrow> (core_timeline, tl_event) op" where
  "add_dma_parallel = add_parallel ''dma''"

definition add_noc :: "string \<Rightarrow> int \<Rightarrow> int \<Rightarrow> (core_timeline, tl_event) op" where
  "add_noc = add_parallel ''noc''"

definition total_cycles :: "core_timeline \<Rightarrow> int" where
  "total_cycles t = ps_to_cycles t (ct_now t)"

text \<open>The setter of \<open>_current_cycle\<close>, the only way time goes back.\<close>

definition set_current_cycle :: "int \<Rightarrow> (core_timeline, unit) op" where
  "set_current_cycle cycles t = (case cycles_to_ps cycles (ct_kernel t) of
     Inl e \<Rightarrow> (Inl e, t) | Inr d \<Rightarrow> (Inr (), set_now d t))"

section \<open>The breakdown\<close>

definition breakdown_key :: "tl_event \<Rightarrow> string" where
  "breakdown_key ev = (let m = te_module ev in
     if m = ''dma'' \<and> te_overlapped ev then ''DMA (hidden)''
     else if m = ''noc'' \<and> te_overlapped ev then ''noc_latency''
     else if m = ''mxu'' then ''MXU'' else if m = ''sfu'' then ''SFU'' else if m = ''vector'' then ''Vector''
     else if m = ''dma'' then ''DMA (stall)'' else if m = ''kv'' then ''KV Cache''
     else if m = ''riscv'' then ''RISC-V'' else if m = ''noc'' then ''noc_latency'' else m)"

definition count_event :: "tl_event \<Rightarrow> (string, int) dict \<Rightarrow> (string, int) dict" where
  "count_event ev d = AList.update (breakdown_key ev) (dget d (breakdown_key ev) 0 + (te_end ev - te_start ev)) d"

definition breakdown_events :: "tl_event list \<Rightarrow> (string, int) dict" where
  "breakdown_events evs = (let d = fold count_event evs []
     in if map_of d ''noc_contention'' = None then AList.update ''noc_contention'' 0 d else d)"

section \<open>A history of operations\<close>

datatype tl_call = Mxu string int int | Sfu string int int | Vec string int int | Kv string int int
  | Dma string int int | Noc string int int

fun call :: "tl_call \<Rightarrow> (core_timeline, tl_event) op" where
  "call (Mxu n c l) = add_mxu n c l"
| "call (Sfu n c l) = add_sfu n c l"
| "call (Vec n c l) = add_vector n c l"
| "call (Kv n c l) = add_kv n c l"
| "call (Dma n c l) = add_dma_parallel n c l"
| "call (Noc n c l) = add_noc n c l"

fun call_cycles :: "tl_call \<Rightarrow> int" where
  "call_cycles (Mxu n c l) = c" | "call_cycles (Sfu n c l) = c" | "call_cycles (Vec n c l) = c"
| "call_cycles (Kv n c l) = c" | "call_cycles (Dma n c l) = c" | "call_cycles (Noc n c l) = c"

fun calls :: "tl_call list \<Rightarrow> (core_timeline, unit) op" where
  "calls [] = ret ()"
| "calls (c # cs) = bind_op (call c) (\<lambda>_. calls cs)"

text \<open>Time is where the operations so far have brought it, and the matrix unit is idle by then.\<close>

definition timeline_at :: "int \<Rightarrow> int \<Rightarrow> int \<Rightarrow> core_timeline \<Rightarrow> bool" where
  "timeline_at f p n t \<longleftrightarrow> 0 < f \<and> f * p = 1000000 \<and> k_frequency_mhz (ct_kernel t) = f \<and>
     k_ps_per_cycle (ct_kernel t) = fdiv_int 1000000 f \<and> ct_now t = n * p \<and> ct_mxu_busy_ps t \<le> ct_now t"

lemma timeline_cycles:
  assumes "timeline_at f p n t" and "0 \<le> c" and "c * p \<le> 2 ^ 53"
  shows "cycles_to_ps c (ct_kernel t) = Inr (c * p)"
  using assms exact_cycles[of f p c] cycles_to_ps_value[of c "ct_kernel t"] by (simp add: timeline_at_def)

lemma timeline_ps:
  assumes "timeline_at f p n t"
  shows "ps_to_cycles t (m * p) = m"
proof -
  have "m * p * f = m * (f * p)" by (simp add: ac_simps)
  also have "\<dots> = m * 1000000" using assms by (simp add: timeline_at_def)
  finally have "m * p * f div 1000000 = m * 1000000 div 1000000" by (rule arg_cong)
  then have "m * p * f div 1000000 = m" by simp
  moreover have "k_frequency_mhz (ct_kernel t) = f" using assms by (simp add: timeline_at_def)
  ultimately show ?thesis by (simp only: ps_to_cycles_def)
qed

text \<open>What every operation amounts to: time and the matrix unit move to the end, an event is appended.\<close>

lemma call_shape:
  assumes "timeline_at f p n t" and "0 \<le> call_cycles k" and "call_cycles k * p \<le> 2 ^ 53"
  shows "\<exists>md opn layer ov u. call k t = append_event md opn (n * p) ((n + call_cycles k) * p) layer ov u \<and>
    timeline_at f p (n + call_cycles k) u \<and> ct_events u = ct_events t \<and> (ov \<longrightarrow> call_cycles k = 0)"
proof -
  define c where "c = call_cycles k"
  have cp: "cycles_to_ps c (ct_kernel t) = Inr (c * p)" unfolding c_def by (rule timeline_cycles[OF assms])
  have t: "ct_now t = n * p" "ct_mxu_busy_ps t \<le> n * p" "0 < f" "f * p = 1000000" using assms(1) by (simp_all add: timeline_at_def)
  have p1: "1 \<le> p" using cycle_quotient(1)[OF t(3,4)] .
  have c0: "0 \<le> c" using assms(2) by (simp add: c_def)
  have cp0: "0 \<le> c * p" using c0 p1 by simp
  have sum: "n * p + c * p = (n + c) * p" by (simp add: distrib_right)
  have at: "timeline_at f p (n + c) u" if "ct_kernel u = (ct_kernel t)\<lparr>k_now_ps := (n + c) * p\<rparr>"
    "ct_mxu_busy_ps u \<le> (n + c) * p" for u
    using that assms(1) by (simp add: timeline_at_def ct_now_def)
  have mx: "timeline_at f p (n + c) (set_now ((n + c) * p) (t\<lparr>ct_mxu_busy_ps := max (ct_mxu_busy_ps t) ((n + c) * p)\<rparr>))"
    using t(2) cp0 sum by (intro at) (simp_all add: set_now_def)
  have se: "timeline_at f p (n + c) (set_now ((n + c) * p) t)"
    using t(2) cp0 sum by (intro at) (simp_all add: set_now_def)
  have par: "timeline_at f p (n + c) (if ct_now t < (n + c) * p then set_now ((n + c) * p) t else t)"
  proof (cases "0 < c")
    case True
    then have "0 < c * p" using p1 by simp
    then show ?thesis using se t(1) sum by simp
  next
    case False
    then show ?thesis using c0 t(1) assms(1) by simp
  qed
  have ov: "c * p \<le> ct_mxu_busy_ps t - n * p \<Longrightarrow> c = 0"
  proof -
    assume "c * p \<le> ct_mxu_busy_ps t - n * p"
    then have "c * p = 0" using t(2) cp0 by linarith
    then show "c = 0" using p1 by simp
  qed
  have serial: "add_serial md opn c layer t = append_event md opn (n * p) ((n + c) * p) layer False (set_now ((n + c) * p) t)"
    "add_mxu opn c layer t = append_event ''mxu'' opn (n * p) ((n + c) * p) layer False
       (set_now ((n + c) * p) (t\<lparr>ct_mxu_busy_ps := max (ct_mxu_busy_ps t) ((n + c) * p)\<rparr>))"
    "add_parallel md opn c layer t = append_event md opn (n * p) ((n + c) * p) layer (c * p \<le> ct_mxu_busy_ps t - n * p)
       (if ct_now t < (n + c) * p then set_now ((n + c) * p) t else t)" for md opn layer
    by (simp_all add: add_serial_def add_mxu_def add_parallel_def cp Let_def t(1) sum)
  have ev: "ct_events (set_now x t) = ct_events t" "ct_events (set_now x (t\<lparr>ct_mxu_busy_ps := y\<rparr>)) = ct_events t" for x y
    by (simp_all add: set_now_def)
  let ?P = "\<lambda>r. \<exists>md opn layer ov u. r = append_event md opn (n * p) ((n + c) * p) layer ov u \<and>
    timeline_at f p (n + c) u \<and> ct_events u = ct_events t \<and> (ov \<longrightarrow> c = 0)"
  have A: "?P (add_serial md opn c layer t)" for md opn layer using serial(1) se ev(1) by blast
  have B: "?P (add_mxu opn c layer t)" for opn layer using serial(2) mx ev(2) by blast
  have C: "?P (add_parallel md opn c layer t)" for md opn layer
  proof (intro exI conjI)
    show "add_parallel md opn c layer t = append_event md opn (n * p) ((n + c) * p) layer (c * p \<le> ct_mxu_busy_ps t - n * p)
       (if ct_now t < (n + c) * p then set_now ((n + c) * p) t else t)" by (rule serial(3))
  qed (use par ov in \<open>simp_all add: ev(1)\<close>)
  have "?P (call k t)"
    using A B C c_def
    by (cases k) (simp_all only: call.simps call_cycles.simps add_sfu_def add_vector_def add_kv_def add_dma_parallel_def add_noc_def)
  then show ?thesis by (simp only: c_def)
qed

lemma call_advances:
  assumes "timeline_at f p n t" and "0 \<le> call_cycles k" and "call_cycles k * p \<le> 2 ^ 53"
  shows "\<exists>ev u. call k t = (Inr ev, u) \<and> timeline_at f p (n + call_cycles k) u \<and> ct_events u = ct_events t @ [ev] \<and>
    te_start ev = n \<and> te_end ev = n + call_cycles k \<and> (te_overlapped ev \<longrightarrow> call_cycles k = 0)"
proof -
  obtain md opn layer ov u where k: "call k t = append_event md opn (n * p) ((n + call_cycles k) * p) layer ov u"
    "timeline_at f p (n + call_cycles k) u" "ct_events u = ct_events t" "ov \<longrightarrow> call_cycles k = 0"
    using call_shape[OF assms] by blast
  have "timeline_at f p (n + call_cycles k) (u\<lparr>ct_events := x\<rparr>)" for x
    using k(2) by (simp add: timeline_at_def ct_now_def)
  then show ?thesis
    using k timeline_ps[OF k(2)] by (simp add: append_event_def Let_def)
qed

lemma calls_advance:
  assumes "timeline_at f p n t" and "\<forall>k\<in>set ks. 0 \<le> call_cycles k \<and> call_cycles k * p \<le> 2 ^ 53"
  shows "\<exists>u evs. calls ks t = (Inr (), u) \<and> timeline_at f p (n + sum_list (map call_cycles ks)) u \<and>
    ct_events u = ct_events t @ evs \<and> length evs = length ks \<and>
    (\<forall>i<length ks. te_start (evs ! i) = n + sum_list (map call_cycles (take i ks)) \<and>
       te_end (evs ! i) = te_start (evs ! i) + call_cycles (ks ! i) \<and>
       (te_overlapped (evs ! i) \<longrightarrow> call_cycles (ks ! i) = 0))"
  using assms
proof (induction ks arbitrary: n t)
  case Nil
  then show ?case by (simp add: ret_def)
next
  case (Cons k ks)
  obtain ev u where k: "call k t = (Inr ev, u)" "timeline_at f p (n + call_cycles k) u" "ct_events u = ct_events t @ [ev]"
    "te_start ev = n" "te_end ev = n + call_cycles k" "te_overlapped ev \<longrightarrow> call_cycles k = 0"
    using call_advances[OF Cons.prems(1), of k] Cons.prems(2) by auto
  obtain v evs where v: "calls ks u = (Inr (), v)" "timeline_at f p (n + call_cycles k + sum_list (map call_cycles ks)) v"
    "ct_events v = ct_events u @ evs" "length evs = length ks"
    "\<forall>i<length ks. te_start (evs ! i) = n + call_cycles k + sum_list (map call_cycles (take i ks)) \<and>
       te_end (evs ! i) = te_start (evs ! i) + call_cycles (ks ! i) \<and> (te_overlapped (evs ! i) \<longrightarrow> call_cycles (ks ! i) = 0)"
    using Cons.IH[OF k(2)] Cons.prems(2) by auto
  have "calls (k # ks) t = (Inr (), v)" using k(1) v(1) by (simp add: bind_op_def)
  moreover have "\<forall>i<length (k # ks). te_start ((ev # evs) ! i) = n + sum_list (map call_cycles (take i (k # ks))) \<and>
       te_end ((ev # evs) ! i) = te_start ((ev # evs) ! i) + call_cycles ((k # ks) ! i) \<and>
       (te_overlapped ((ev # evs) ! i) \<longrightarrow> call_cycles ((k # ks) ! i) = 0)"
    using k(4-6) v(5) by (auto simp: nth_Cons' less_Suc_eq_0_disj)
  ultimately show ?case using v k(3) by (intro exI[of _ v] exI[of _ "ev # evs"]) (simp add: add.assoc)
qed

section \<open>The breakdown accounts for every cycle\<close>

lemma count_event_sum:
  assumes "dict_ok d"
  shows "dict_ok (count_event ev d) \<and> sum_list (map snd (count_event ev d)) = sum_list (map snd d) + (te_end ev - te_start ev)"
proof (cases "map_of d (breakdown_key ev)")
  case None
  then show ?thesis
    using sum_update_new[of d "breakdown_key ev" "\<lambda>x. x" "te_end ev - te_start ev"] assms
    by (simp add: count_event_def dget_def)
next
  case (Some u)
  then show ?thesis
    using sum_update_old[of d "breakdown_key ev" u "\<lambda>x. x" "u + (te_end ev - te_start ev)"] assms
    by (simp add: count_event_def dget_def)
qed

lemma fold_count_sum:
  assumes "dict_ok d"
  shows "dict_ok (fold count_event evs d) \<and>
    sum_list (map snd (fold count_event evs d)) = sum_list (map snd d) + sum_list (map (\<lambda>e. te_end e - te_start e) evs)"
  using assms
proof (induction evs arbitrary: d)
  case (Cons e evs)
  then show ?case using count_event_sum[OF Cons.prems, of e] Cons.IH[of "count_event e d"] by simp
qed simp

lemma breakdown_sum: "sum_list (map snd (breakdown_events evs)) = sum_list (map (\<lambda>e. te_end e - te_start e) evs)"
proof -
  note f = fold_count_sum[of "[]" evs, simplified]
  show ?thesis
    using f sum_update_new[of "fold count_event evs []" "''noc_contention''" "\<lambda>x. x" 0]
    by (simp add: breakdown_events_def Let_def)
qed

text \<open>On a core whose cycle is a whole number of picoseconds, any sequence of operations of non-negative
  length is laid out back to back: each event starts at the sum of the lengths before it, the
  total is the sum of all, and the breakdown by module adds up to exactly that total. Nothing ever
  overlaps: an event flagged as overlapped has length 0, so no transfer is ever hidden behind the
  matrix unit.\<close>

theorem timeline_is_sequential:
  assumes "core_new core f = Inr t" and "f * p = 1000000"
    and "\<forall>k\<in>set ks. 0 \<le> call_cycles k \<and> call_cycles k * p \<le> 2 ^ 53"
  shows "\<exists>u. calls ks t = (Inr (), u) \<and> total_cycles u = sum_list (map call_cycles ks) \<and>
    length (ct_events u) = length ks \<and>
    (\<forall>i<length ks. te_start (ct_events u ! i) = sum_list (map call_cycles (take i ks)) \<and>
       te_end (ct_events u ! i) = te_start (ct_events u ! i) + call_cycles (ks ! i) \<and>
       (te_overlapped (ct_events u ! i) \<longrightarrow> call_cycles (ks ! i) = 0)) \<and>
    sum_list (map snd (breakdown_events (ct_events u))) = total_cycles u"
proof -
  have t: "timeline_at f p 0 t" "ct_events t = []"
    using assms(1,2) by (auto simp: core_new_def kernel_new_def timeline_at_def ct_now_def bind_res_Inr_iff split: if_splits)
  obtain u where u: "calls ks t = (Inr (), u)" "timeline_at f p (sum_list (map call_cycles ks)) u"
    "length (ct_events u) = length ks"
    "\<forall>i<length ks. te_start (ct_events u ! i) = sum_list (map call_cycles (take i ks)) \<and>
       te_end (ct_events u ! i) = te_start (ct_events u ! i) + call_cycles (ks ! i) \<and>
       (te_overlapped (ct_events u ! i) \<longrightarrow> call_cycles (ks ! i) = 0)"
    using calls_advance[OF t(1) assms(3)] t(2) by auto
  have tot: "total_cycles u = sum_list (map call_cycles ks)"
    using timeline_ps[OF u(2), of "sum_list (map call_cycles ks)"] u(2) by (simp add: total_cycles_def timeline_at_def)
  have "map (\<lambda>e. te_end e - te_start e) (ct_events u) = map call_cycles ks"
    using u(3,4) by (intro nth_equalityI) simp_all
  then have "sum_list (map snd (breakdown_events (ct_events u))) = total_cycles u" by (simp add: breakdown_sum tot)
  with u(1,3,4) tot show ?thesis by blast
qed

lemma timeline_is_sequential_witness:
  "\<exists>t u. core_new 0 1000 = Inr t \<and> calls [Mxu ''qk'' 40 0, Dma ''w'' 25 0, Sfu ''softmax'' 5 0] t = (Inr (), u) \<and>
     total_cycles u = 70"
proof -
  obtain t where t: "core_new 0 1000 = Inr t" by (auto simp: core_new_def kernel_new_def)
  then show ?thesis
    using timeline_is_sequential[OF t, of 1000 "[Mxu ''qk'' 40 0, Dma ''w'' 25 0, Sfu ''softmax'' 5 0]"] by auto
qed

end
