(* ===== verification/Hw_Multicore.thy ===== *)
theory Hw_Multicore
  imports Hw_Timeline
begin

text \<open>
  The multi-core timeline of \<open>sim/engine/multicore.py\<close>: the cycles of a FIFO transfer and of a
  crossbar access, and the two working modes. Properties of \<open>CrossbarConfig\<close> that only rename a
  field are left out. Cycle counts and picoseconds are integers, contention is a float.
\<close>

section \<open>Configuration and construction\<close>

record fifo_config =
  ff_size_bytes :: int
  ff_width_bits :: int
  ff_latency_cycles :: int
  ff_bidirectional :: bool

record crossbar_config =
  xb_ports :: int
  xb_bandwidth_gbps :: rat
  xb_hop_latency :: int
  xb_flit_width_bits :: int
  xb_vcs :: int
  xb_buffer_depth :: int
  xb_arbitration :: string
  xb_routing :: string
  xb_pipeline_stages :: int

definition default_fifo :: fifo_config where
  "default_fifo = \<lparr>ff_size_bytes = 4096, ff_width_bits = 256, ff_latency_cycles = 2, ff_bidirectional = True\<rparr>"

definition default_crossbar :: crossbar_config where
  "default_crossbar = \<lparr>xb_ports = 4, xb_bandwidth_gbps = 500, xb_hop_latency = 3, xb_flit_width_bits = 256,
     xb_vcs = 2, xb_buffer_depth = 4, xb_arbitration = ''round_robin'', xb_routing = ''destination_tag'',
     xb_pipeline_stages = 3\<rparr>"

record multicore =
  mc_num_cores :: int
  mc_cores :: "core_timeline list"
  mc_fifo :: fifo_config
  mc_xbar :: crossbar_config

definition multicore_new :: "int \<Rightarrow> fifo_config option \<Rightarrow> crossbar_config option \<Rightarrow> multicore result" where
  "multicore_new n ff xb = bind_res (map_result (\<lambda>i. core_new (int i) 1000) [0..<nat n]) (\<lambda>cores.
     Inr \<lparr>mc_num_cores = n, mc_cores = cores,
          mc_fifo = (case ff of None \<Rightarrow> default_fifo | Some c \<Rightarrow> c),
          mc_xbar = (case xb of None \<Rightarrow> default_crossbar | Some c \<Rightarrow> c)\<rparr>)"

section \<open>Transfers\<close>

definition fifo_transfer_cycles :: "multicore \<Rightarrow> int \<Rightarrow> int \<Rightarrow> int result" where
  "fifo_transfer_cycles mc elements element_bytes =
     (let bpc = ff_width_bits (mc_fifo mc) div 8
      in if bpc = 0 then Inl ZeroDivisionError
         else Inr (\<lceil>fdiv_int (elements * element_bytes) bpc\<rceil> + ff_latency_cycles (mc_fifo mc)))"

definition fifo_transfer_ps :: "multicore \<Rightarrow> int \<Rightarrow> int \<Rightarrow> int \<Rightarrow> int result" where
  "fifo_transfer_ps mc elements element_bytes freq =
     bind_res (fifo_transfer_cycles mc elements element_bytes) (\<lambda>c.
       bind_res (kernel_new freq False) (\<lambda>k. cycles_to_ps c (k :: unit kernel)))"

definition xbar_access_cycles :: "multicore \<Rightarrow> int \<Rightarrow> rat \<Rightarrow> int result" where
  "xbar_access_cycles mc sz contention =
     (let xb = mc_xbar mc; flit_bytes = xb_flit_width_bits xb div 8
      in if flit_bytes = 0 then Inl ZeroDivisionError
         else let flits = max 1 \<lceil>fdiv_int sz flit_bytes\<rceil>;
                  base = xb_hop_latency xb * xb_pipeline_stages xb + (flits - 1);
                  active = max 1 (fmul contention (int_to_float (xb_ports xb)));
                  penalty = fmul (int_to_float (xb_hop_latency xb)) active
           in if contention \<le> 0 then Inr (max 1 (py_trunc (fadd (int_to_float base) 0)))
              else if flits \<le> xb_buffer_depth xb then Inr (max 1 (py_trunc (fadd (int_to_float base) penalty)))
              else if xb_vcs xb = 0 then Inl ZeroDivisionError
              else Inr (max 1 (py_trunc (fadd (int_to_float base)
                     (fadd penalty (fdiv_int (flits - xb_buffer_depth xb) (xb_vcs xb)))))))"

section \<open>Pipeline mode\<close>

text \<open>The progress of every core and the clock, in picoseconds.\<close>

type_synonym pipe_state = "int list \<times> int"

text \<open>\<open>i % n\<close> and \<open>progress[i]\<close> of the code, for the core of a layer.\<close>

definition core_of :: "int \<Rightarrow> int \<Rightarrow> int list \<Rightarrow> nat result" where
  "core_of n i progress = (if n = 0 then Inl ZeroDivisionError
     else let c = i mod n in
       if 0 \<le> c \<and> c < int (length progress) then Inr (nat c)
       else if c < 0 \<and> - int (length progress) \<le> c then Inr (nat (c + int (length progress)))
       else Inl IndexError)"

definition pipeline_layer ::
  "multicore \<Rightarrow> int \<Rightarrow> unit kernel \<Rightarrow> int list \<Rightarrow> int \<Rightarrow> int \<Rightarrow> int \<Rightarrow> pipe_state \<Rightarrow> pipe_state result" where
  "pipeline_layer mc freq k per_layer activation num_layers i st =
     (let (progress, now) = st; n = mc_num_cores mc
      in if n = 0 then Inl ZeroDivisionError
         else bind_res (cycles_to_ps (if i < int (length per_layer) then per_layer ! nat i else 1000) k) (\<lambda>work.
           bind_res (core_of n i progress) (\<lambda>c.
             let p1 = progress[c := max (progress ! c) now + work]; now1 = Max (set p1)
             in if (i + 1) mod n \<noteq> i mod n \<and> i < num_layers - 1
                then bind_res (fifo_transfer_ps mc activation 2 freq) (\<lambda>ff.
                  let p2 = p1[c := p1 ! c + ff] in Inr (p2, Max (set p2)))
                else Inr (p1, now1))))"

fun pipeline_loop ::
  "multicore \<Rightarrow> int \<Rightarrow> unit kernel \<Rightarrow> int list \<Rightarrow> int \<Rightarrow> int \<Rightarrow> int list \<Rightarrow> pipe_state \<Rightarrow> pipe_state result" where
  "pipeline_loop mc freq k per_layer activation num_layers [] st = Inr st"
| "pipeline_loop mc freq k per_layer activation num_layers (i # is) st =
     bind_res (pipeline_layer mc freq k per_layer activation num_layers i st)
       (pipeline_loop mc freq k per_layer activation num_layers is)"

record pipeline_report =
  pr_total_cycles :: int
  pr_core_max :: int
  pr_fifo_overhead :: int
  pr_fifo_effective :: int
  pr_core_progress :: "int list"

definition simulate_pipeline :: "multicore \<Rightarrow> int list list \<Rightarrow> int list \<Rightarrow> int \<Rightarrow> pipeline_report result" where
  "simulate_pipeline mc assignments per_layer activation =
     (let freq = (case mc_cores mc of [] \<Rightarrow> 1000 | c # _ \<Rightarrow> k_frequency_mhz (ct_kernel c));
          num_layers = sum_list (map (\<lambda>l. int (length l)) assignments)
      in bind_res (kernel_new freq False) (\<lambda>k.
         bind_res (pipeline_loop mc freq k per_layer activation num_layers (map int [0..<nat num_layers])
                     (replicate (nat (mc_num_cores mc)) 0, 0)) (\<lambda>(progress, now).
         bind_res (fifo_transfer_cycles mc activation 2) (\<lambda>ff.
         let m = (if progress = [] then 0 else Max (set progress)); mcyc = m * freq div 1000000 in
         Inr \<lparr>pr_total_cycles = mcyc, pr_core_max = mcyc, pr_fifo_overhead = ff * num_layers,
              pr_fifo_effective = m * freq div 1000000 - mcyc, pr_core_progress = progress\<rparr>))))"

section \<open>Data parallelism\<close>

record data_parallel_report =
  dp_base_tok_per_s :: rat
  dp_num_cores :: int
  dp_effective_tok_per_s :: rat
  dp_contention_penalty :: rat
  dp_bw_per_core_gbps :: rat

definition simulate_data_parallel :: "multicore \<Rightarrow> int \<Rightarrow> data_parallel_report result" where
  "simulate_data_parallel mc per_token_cycles =
     (let n = mc_num_cores mc;
          base = (if 0 < per_token_cycles then fdiv 1000000 (int_to_float per_token_cycles) else 0);
          penalty = max (fl 0.5) (fsub 1 (fmul (int_to_float (n - 1)) (fl 0.05)))
      in if n = 0 then Inl ZeroDivisionError
         else Inr \<lparr>dp_base_tok_per_s = base, dp_num_cores = n,
                dp_effective_tok_per_s = fmul (fmul base (int_to_float n)) penalty,
                dp_contention_penalty = penalty, dp_bw_per_core_gbps = fdiv (fl 51.2) (int_to_float n)\<rparr>)"

section \<open>The pipeline is serial\<close>

definition layer_cycles :: "int list \<Rightarrow> int \<Rightarrow> int" where
  "layer_cycles per_layer i = (if i < int (length per_layer) then per_layer ! nat i else 1000)"

definition pipe_inv :: "multicore \<Rightarrow> int \<Rightarrow> pipe_state \<Rightarrow> bool" where
  "pipe_inv mc T st \<longleftrightarrow> (case st of (progress, now) \<Rightarrow>
     length progress = nat (mc_num_cores mc) \<and> now = T * 1000 \<and> progress \<noteq> [] \<and> Max (set progress) = now)"

definition clock_1000 :: "unit kernel \<Rightarrow> bool" where
  "clock_1000 k \<longleftrightarrow> k_frequency_mhz k = 1000 \<and> k_ps_per_cycle k = fdiv_int 1000000 1000"

lemma clock_cycles: "clock_1000 k \<Longrightarrow> 0 \<le> c \<Longrightarrow> c \<le> 2 ^ 40 \<Longrightarrow> cycles_to_ps c k = Inr (c * 1000)"
  using exact_cycles[of 1000 1000 c] cycles_to_ps_value[of c k] by (simp add: clock_1000_def)

lemma Max_update:
  assumes "c < length xs" and "Max (set xs) \<le> v"
  shows "Max (set (xs[c := v])) = v" and "Max (set xs) = m \<Longrightarrow> xs ! c \<le> m"
proof -
  have "\<forall>x\<in>set xs. x \<le> v" using assms(2) by (meson List.finite_set Max_ge order_trans)
  moreover have "set (xs[c := v]) \<subseteq> insert v (set xs)" by (rule set_update_subset_insert)
  moreover have "v \<in> set (xs[c := v])" using assms(1) by (simp add: set_update_memI)
  ultimately show "Max (set (xs[c := v])) = v" by (intro Max_eqI) auto
  show "Max (set xs) = m \<Longrightarrow> xs ! c \<le> m" using assms(1) by auto
qed

definition boundary :: "multicore \<Rightarrow> int \<Rightarrow> int \<Rightarrow> bool" where
  "boundary mc L i \<longleftrightarrow> 2 \<le> mc_num_cores mc \<and> i < L - 1"

lemma next_core: "1 \<le> n \<Longrightarrow> (i + 1) mod n \<noteq> i mod n \<longleftrightarrow> 2 \<le> (n::int)"
proof -
  assume n: "1 \<le> n"
  have "(i + 1) mod n = i mod n \<longleftrightarrow> n dvd 1" by (simp add: mod_eq_dvd_iff)
  then show ?thesis using n zdvd_imp_le[of n 1] by auto
qed

lemma pipeline_layer_step:
  assumes "pipe_inv mc T st" and "1 \<le> mc_num_cores mc" and "clock_1000 k" and "0 \<le> i"
    and "0 \<le> layer_cycles per i" and "layer_cycles per i \<le> 2 ^ 40"
    and "fifo_transfer_cycles mc act 2 = Inr ff" and "0 \<le> ff" and "ff \<le> 2 ^ 40"
  shows "\<exists>st'. pipeline_layer mc 1000 k per act L i st = Inr st' \<and>
    pipe_inv mc (T + layer_cycles per i + (if boundary mc L i then ff else 0)) st'"
proof -
  obtain pr now where st: "st = (pr, now)" by (cases st)
  let ?n = "mc_num_cores mc" and ?w = "layer_cycles per i"
  have inv: "length pr = nat ?n" "now = T * 1000" "pr \<noteq> []" "Max (set pr) = now" using assms(1) by (simp_all add: pipe_inv_def st)
  define c where "c = nat (i mod ?n)"
  have c: "core_of ?n i pr = Inr c" "c < length pr"
    using assms(2) inv(1) by (auto simp: core_of_def c_def Let_def nat_less_iff)
  have w: "cycles_to_ps ?w k = Inr (?w * 1000)" using clock_cycles assms(3,5,6) by blast
  have fps: "fifo_transfer_ps mc act 2 1000 = Inr (ff * 1000)"
    using clock_cycles[of _ ff] assms(7-9) by (simp add: fifo_transfer_ps_def kernel_new_def clock_1000_def)
  let ?p1 = "pr[c := now + ?w * 1000]"
  have le: "Max (set pr) \<le> now + ?w * 1000" using inv(4) assms(5) by simp
  have m1: "Max (set ?p1) = now + ?w * 1000" by (rule Max_update(1)[OF c(2) le])
  have mx: "max (pr ! c) now = now" using Max_update(2)[OF c(2) le inv(4)] by simp
  have le2: "Max (set ?p1) \<le> ?p1 ! c + ff * 1000" using m1 assms(8) c(2) by simp
  have m2: "Max (set (?p1[c := ?p1 ! c + ff * 1000])) = ?p1 ! c + ff * 1000"
    using c(2) le2 by (intro Max_update(1)) simp_all
  have run: "pipeline_layer mc 1000 k per act L i st =
      (if boundary mc L i then Inr (?p1[c := ?p1 ! c + ff * 1000], Max (set (?p1[c := ?p1 ! c + ff * 1000])))
       else Inr (?p1, Max (set ?p1)))"
    using assms(2) w c(1) fps next_core[OF assms(2), of i]
    by (simp add: pipeline_layer_def st Let_def mx boundary_def layer_cycles_def[symmetric])
  show ?thesis
    unfolding run using inv c(2) m1 m2
    by (simp add: pipe_inv_def algebra_simps split: if_splits del: list_update_overwrite)
qed

lemma pipeline_loop_total:
  assumes "pipe_inv mc T st" and "1 \<le> mc_num_cores mc" and "clock_1000 k"
    and "\<forall>i\<in>set is. 0 \<le> i \<and> 0 \<le> layer_cycles per i \<and> layer_cycles per i \<le> 2 ^ 40"
    and "fifo_transfer_cycles mc act 2 = Inr ff" and "0 \<le> ff" and "ff \<le> 2 ^ 40"
  shows "\<exists>st'. pipeline_loop mc 1000 k per act L is st = Inr st' \<and>
    pipe_inv mc (T + sum_list (map (\<lambda>i. layer_cycles per i + (if boundary mc L i then ff else 0)) is)) st'"
  using assms(1,4)
proof (induction "is" arbitrary: T st)
  case (Cons i "is")
  have i: "0 \<le> i" "0 \<le> layer_cycles per i" "layer_cycles per i \<le> 2 ^ 40" using Cons.prems(2) by simp_all
  obtain st1 where s: "pipeline_layer mc 1000 k per act L i st = Inr st1"
    "pipe_inv mc (T + layer_cycles per i + (if boundary mc L i then ff else 0)) st1"
    using pipeline_layer_step[OF Cons.prems(1) assms(2,3) i assms(5-7), of L] by blast
  from Cons.IH[OF s(2)] Cons.prems(2) show ?case by (auto simp: s(1) add.assoc)
qed simp

lemma boundary_sum:
  assumes "0 \<le> L"
  shows "sum_list (map (\<lambda>i. if boundary mc L i then ff else 0) (map int [0..<nat L])) =
    (if 2 \<le> mc_num_cores mc then max 0 (L - 1) * ff else 0)"
proof -
  have "sum_list (map (\<lambda>i. if int i < int N then ff else 0) [0..<n]) = int (min n N) * ff" for n N
    by (induction n) (auto simp: min_def algebra_simps)
  from this[of "nat (L - 1)" "nat L"] show ?thesis
    using assms by (simp add: boundary_def comp_def min_def) (auto simp: max_def nat_diff_distrib)
qed

text \<open>Pipeline mode gains nothing from its cores. For every assignment of layers to two or more cores
  the reported total is the sum of the cycles of all layers plus one FIFO transfer per layer boundary,
  the same for any number of cores and longer than on one core, where it is the plain sum; the
  reported effective FIFO time is always 0.\<close>

theorem pipeline_is_serial:
  assumes "multicore_new n ff_cfg xb_cfg = Inr mc" and "1 \<le> n"
    and "\<forall>c\<in>set per. 0 \<le> c \<and> c \<le> 2 ^ 40"
    and "fifo_transfer_cycles mc act 2 = Inr ff" and "0 \<le> ff" and "ff \<le> 2 ^ 40"
  shows "\<exists>r. simulate_pipeline mc assignments per act = Inr r \<and> pr_fifo_effective r = 0 \<and>
    (let L = sum_list (map (\<lambda>l. int (length l)) assignments) in
     pr_total_cycles r = sum_list (map (layer_cycles per) (map int [0..<nat L])) + (if 2 \<le> n then max 0 (L - 1) * ff else 0))"
proof -
  define L where "L = sum_list (map (\<lambda>l. int (length l)) assignments)"
  have L0: "0 \<le> L" unfolding L_def by (intro sum_list_nonneg) auto
  have nc: "mc_num_cores mc = n" using assms(1) by (auto simp: multicore_new_def bind_res_Inr_iff)
  have cores: "case mc_cores mc of [] \<Rightarrow> False | c # _ \<Rightarrow> k_frequency_mhz (ct_kernel c) = 1000"
  proof -
    obtain cs where cs: "map_result (\<lambda>i. core_new (int i) 1000) [0..<nat n] = Inr cs" "mc_cores mc = cs"
      using assms(1) by (auto simp: multicore_new_def bind_res_Inr_iff)
    obtain m where "nat n = Suc m" using assms(2) by (cases "nat n") auto
    then have "[0..<nat n] = 0 # [1..<nat n]" by (simp add: upt_conv_Cons)
    then show ?thesis using cs by (auto simp: bind_res_Inr_iff core_new_def kernel_new_def split: list.splits)
  qed
  obtain k :: "unit kernel" where k: "kernel_new 1000 False = Inr k" "clock_1000 k" by (auto simp: kernel_new_def clock_1000_def)
  have per: "0 \<le> layer_cycles per i \<and> layer_cycles per i \<le> 2 ^ 40" if "0 \<le> i" for i
    using assms(3) that by (auto simp: layer_cycles_def)
  have i0: "pipe_inv mc 0 (replicate (nat (mc_num_cores mc)) 0, 0)" using assms(2) nc by (simp add: pipe_inv_def)
  obtain pr now where run: "pipeline_loop mc 1000 k per act L (map int [0..<nat L]) (replicate (nat (mc_num_cores mc)) 0, 0) = Inr (pr, now)"
    "pipe_inv mc (sum_list (map (\<lambda>i. layer_cycles per i + (if boundary mc L i then ff else 0)) (map int [0..<nat L]))) (pr, now)"
    using pipeline_loop_total[OF i0 _ k(2) _ assms(4-6), of "map int [0..<nat L]" per L] assms(2) nc per by auto
  have fr: "(case mc_cores mc of [] \<Rightarrow> 1000 | c # _ \<Rightarrow> k_frequency_mhz (ct_kernel c)) = 1000"
    using cores by (simp split: list.splits)
  have "simulate_pipeline mc assignments per act = Inr \<lparr>pr_total_cycles = now * 1000 div 1000000,
      pr_core_max = now * 1000 div 1000000, pr_fifo_overhead = ff * L, pr_fifo_effective = 0, pr_core_progress = pr\<rparr>"
    using run k(1) assms(4) fr by (simp add: simulate_pipeline_def Let_def flip: L_def) (simp add: pipe_inv_def)
  moreover have "now * 1000 div 1000000 = sum_list (map (layer_cycles per) (map int [0..<nat L])) +
      (if 2 \<le> n then max 0 (L - 1) * ff else 0)"
    using run(2) unfolding sum_list_addf boundary_sum[OF L0] nc by (simp add: pipe_inv_def)
  ultimately show ?thesis unfolding L_def[symmetric] by simp
qed


lemma pipeline_is_serial_witness:
  "\<exists>mc r. multicore_new 4 None None = Inr mc \<and> simulate_pipeline mc [[0, 1], [2, 3]] [100, 200, 300, 400] 2560 = Inr r \<and>
     pr_total_cycles r = 1486"
proof -
  have k: "\<exists>c. core_new (int i) 1000 = Inr c" for i by (simp add: core_new_def kernel_new_def)
  then obtain mc where mc: "multicore_new 4 None None = Inr mc"
    by (auto simp: multicore_new_def core_new_def kernel_new_def upt_rec)
  have "mc_fifo mc = default_fifo" using mc by (auto simp: multicore_new_def bind_res_Inr_iff)
  then have "fifo_transfer_cycles mc 2560 2 = Inr (\<lceil>fdiv_int 5120 32\<rceil> + 2)"
    by (simp add: fifo_transfer_cycles_def default_fifo_def)
  moreover have "fdiv_int 5120 32 = of_int 160" using fl_int[of 160] by (simp add: fdiv_int_def)
  ultimately have ff: "fifo_transfer_cycles mc 2560 2 = Inr 162" by simp
  show ?thesis
    using pipeline_is_serial[OF mc _ _ ff, of "[100, 200, 300, 400]" "[[0, 1], [2, 3]]"] mc
    by (auto simp: layer_cycles_def upt_rec Let_def)
qed

end
