(* ===== verification/Hw_Compiler.thy ===== *)
theory Hw_Compiler
  imports Isa_Codec Py_Text
begin

text \<open>
  The instruction compiler of \<open>sim/engine/compiler.py\<close>: the address allocator, which records every
  allocation and hands out the base of the scratch region, and the compilation of a trace of
  matrix products to a program.
\<close>

section \<open>Addresses\<close>

record region =
  rg_base :: int
  rg_size :: int

record address_allocator =
  aa_regions :: "(string, region) dict"
  aa_allocations :: "(string \<times> int \<times> int) list"

definition allocator_new :: address_allocator where
  "allocator_new = \<lparr>aa_regions =
     [(''wbuf'', \<lparr>rg_base = 0x00000, rg_size = 0x20000\<rparr>), (''ibuf'', \<lparr>rg_base = 0x20000, rg_size = 0x10000\<rparr>),
      (''ibuf2'', \<lparr>rg_base = 0x30000, rg_size = 0x10000\<rparr>), (''obuf'', \<lparr>rg_base = 0x40000, rg_size = 0x20000\<rparr>),
      (''scratch'', \<lparr>rg_base = 0x60000, rg_size = 0x20000\<rparr>)], aa_allocations = []\<rparr>"

definition aa_next :: "string \<Rightarrow> address_allocator \<Rightarrow> int result" where
  "aa_next name a = (case map_of (aa_regions a) name of None \<Rightarrow> Inl (KeyError name) | Some r \<Rightarrow> Inr (rg_base r))"

definition aa_alloc :: "string \<Rightarrow> int \<Rightarrow> int \<Rightarrow> (address_allocator, int) op" where
  "aa_alloc name elements elem_size a = (case aa_next ''scratch'' a of Inl e \<Rightarrow> (Inl e, a)
     | Inr addr \<Rightarrow> (Inr addr, a\<lparr>aa_allocations := aa_allocations a @ [(name, addr, elements * elem_size)]\<rparr>))"

definition aa_reset :: "address_allocator \<Rightarrow> address_allocator" where
  "aa_reset a = a\<lparr>aa_allocations := []\<rparr>"

section \<open>The compiler\<close>

record npu_compiler =
  nc_num_cores :: int
  nc_addr :: address_allocator

definition compiler_new :: "int \<Rightarrow> npu_compiler" where
  "compiler_new n = \<lparr>nc_num_cores = n, nc_addr = allocator_new\<rparr>"

text \<open>One entry of the trace: \<open>(M, K, N, layer, op_name)\<close>.\<close>

type_synonym trace_entry = "int \<times> int \<times> int \<times> int \<times> string"

definition next_op :: "string \<Rightarrow> (address_allocator, int) op" where
  "next_op name a = (aa_next name a, a)"

text \<open>At a change of layer: barrier, weights, prefetch of the cache.\<close>

definition layer_prologue :: "bool \<Rightarrow> int \<Rightarrow> trace_entry \<Rightarrow> (address_allocator, instruction list) op" where
  "layer_prologue preloaded prev e = (case e of (M, K, N, layer, nm) \<Rightarrow>
     if layer = prev then ret []
     else bind_op (if preloaded then ret []
         else bind_op (aa_alloc ''weight'' (K * N) 4) (\<lambda>w. bind_op (next_op ''wbuf'') (\<lambda>s.
           ret [instr DMA_LD [(''dram'', w), (''sram'', s), (''size'', K * N)] (''Load W layer='' @ str_int layer)]))) (\<lambda>ld.
       ret ((if 0 \<le> prev then [instr BARRIER [] ''''] else []) @ ld @
         [instr KV_LOAD [(''token_id'', layer)] (''KV prefetch layer='' @ str_int layer)])))"

definition sfu_ops :: "string \<Rightarrow> int \<Rightarrow> instruction list" where
  "sfu_ops nm oa =
     (if nm = ''O_proj'' then
        [instr SOFTMAX [(''sa'', oa), (''da'', oa), (''len'', 2560)] ''Post-attention softmax'',
         instr LAYERNORM [(''sa'', oa), (''da'', oa), (''len'', 2560)] ''Post-attention layernorm'',
         instr ROPE [(''sa'', oa), (''da'', oa), (''len'', 2560)] ''RoPE position encoding'']
      else if nm = ''FFN_down'' then
        [instr GELU [(''sa'', oa), (''da'', oa), (''len'', 9728)] ''FFN GELU activation'',
         instr LAYERNORM [(''sa'', oa), (''da'', oa), (''len'', 2560)] ''Post-FFN layernorm'']
      else [])"

definition times_sign :: string where "times_sign = [CHR 0xD7]"

definition mmul_comment :: "trace_entry \<Rightarrow> string" where
  "mmul_comment e = (case e of (M, K, N, layer, nm) \<Rightarrow>
     nm @ '' ('' @ str_int M @ times_sign @ str_int K @ times_sign @ str_int N @ '')'')"

definition compile_entry :: "bool \<Rightarrow> int \<Rightarrow> trace_entry \<Rightarrow> (address_allocator, instruction list) op" where
  "compile_entry preloaded prev e = (case e of (M, K, N, layer, nm) \<Rightarrow>
     bind_op (layer_prologue preloaded prev e) (\<lambda>pro.
     bind_op (aa_alloc ''input'' (M * K) 4) (\<lambda>ia.
     bind_op (aa_alloc ''output'' (M * N) 4) (\<lambda>oa.
     bind_op (next_op ''wbuf'') (\<lambda>wa.
     bind_op (aa_alloc ''input_next'' (M * K) 4) (\<lambda>next_ia.
     bind_op (next_op ''ibuf'') (\<lambda>ib.
     ret (pro @ [instr MMUL [(''wa'', wa), (''ia'', ia), (''oa'', oa), (''N'', N)] (mmul_comment e),
                 instr DMA_LD [(''dram'', next_ia), (''sram'', ib), (''size'', M * K)] ''Prefetch activation''] @
          sfu_ops nm oa @
          [instr KV_STORE [(''token_id'', layer)] (''KV persist layer='' @ str_int layer)]))))))))"

fun compile_entries :: "bool \<Rightarrow> int \<Rightarrow> trace_entry list \<Rightarrow> (address_allocator, instruction list) op" where
  "compile_entries preloaded prev [] = ret []"
| "compile_entries preloaded prev (e # es) = bind_op (compile_entry preloaded prev e) (\<lambda>p.
     bind_op (compile_entries preloaded (fst (snd (snd (snd e)))) es) (\<lambda>q. ret (p @ q)))"

definition compile_decode :: "trace_entry list \<Rightarrow> bool \<Rightarrow> (npu_compiler, instruction list) op" where
  "compile_decode trace preloaded = bind_op
     (zoom_op nc_addr (\<lambda>a c. c\<lparr>nc_addr := a\<rparr>) (compile_entries preloaded (- 1) trace)) (\<lambda>p.
       ret (p @ [instr BARRIER [] '''', instr NOP [] ''decode complete'']))"

definition compile_prefill :: "trace_entry list \<Rightarrow> int \<Rightarrow> (npu_compiler, instruction list) op" where
  "compile_prefill trace prompt_len = compile_decode trace False"

section \<open>What is compiled\<close>

text \<open>The program as a function of the trace: every allocated address is the base of the scratch region.\<close>

definition prologue_code :: "bool \<Rightarrow> int \<Rightarrow> trace_entry \<Rightarrow> instruction list" where
  "prologue_code preloaded prev e = (case e of (M, K, N, layer, nm) \<Rightarrow>
     if layer = prev then []
     else (if 0 \<le> prev then [instr BARRIER [] ''''] else []) @
       (if preloaded then [] else
         [instr DMA_LD [(''dram'', 0x60000), (''sram'', 0), (''size'', K * N)] (''Load W layer='' @ str_int layer)]) @
       [instr KV_LOAD [(''token_id'', layer)] (''KV prefetch layer='' @ str_int layer)])"

definition entry_code :: "bool \<Rightarrow> int \<Rightarrow> trace_entry \<Rightarrow> instruction list" where
  "entry_code preloaded prev e = (case e of (M, K, N, layer, nm) \<Rightarrow>
     prologue_code preloaded prev e @
     [instr MMUL [(''wa'', 0), (''ia'', 0x60000), (''oa'', 0x60000), (''N'', N)] (mmul_comment e),
      instr DMA_LD [(''dram'', 0x60000), (''sram'', 0x20000), (''size'', M * K)] ''Prefetch activation''] @
     sfu_ops nm 0x60000 @ [instr KV_STORE [(''token_id'', layer)] (''KV persist layer='' @ str_int layer)])"

fun trace_code :: "bool \<Rightarrow> int \<Rightarrow> trace_entry list \<Rightarrow> instruction list" where
  "trace_code preloaded prev [] = []"
| "trace_code preloaded prev (e # es) = entry_code preloaded prev e @ trace_code preloaded (fst (snd (snd (snd e)))) es"

definition std_regions :: "address_allocator \<Rightarrow> bool" where
  "std_regions a \<longleftrightarrow> aa_regions a = aa_regions allocator_new"

lemma std_addresses:
  assumes "std_regions a"
  shows "aa_next ''wbuf'' a = Inr 0" "aa_next ''ibuf'' a = Inr 0x20000" "aa_next ''scratch'' a = Inr 0x60000"
  using assms by (simp_all add: aa_next_def std_regions_def allocator_new_def)

lemma std_alloc: "std_regions a \<Longrightarrow> \<exists>b. aa_alloc nm n k a = (Inr 0x60000, b) \<and> std_regions b"
  using std_addresses(3)[of a] by (simp add: aa_alloc_def std_regions_def)

lemma layer_prologue_code:
  assumes "std_regions a"
  shows "\<exists>b. layer_prologue preloaded prev e a = (Inr (prologue_code preloaded prev e), b) \<and> std_regions b"
proof -
  obtain M K N layer nm where e: "e = (M, K, N, layer, nm)" by (metis prod_cases5)
  obtain b where b: "aa_alloc ''weight'' (K * N) 4 a = (Inr 0x60000, b)" "std_regions b"
    using std_alloc[OF assms] by blast
  show ?thesis
    using assms b by (auto simp: layer_prologue_def prologue_code_def e bind_op_def ret_def next_op_def std_addresses)
qed

lemma compile_entry_code:
  assumes "std_regions a"
  shows "\<exists>b. compile_entry preloaded prev e a = (Inr (entry_code preloaded prev e), b) \<and> std_regions b"
proof -
  obtain M K N layer nm where e: "e = (M, K, N, layer, nm)" by (metis prod_cases5)
  obtain b where b: "layer_prologue preloaded prev (M, K, N, layer, nm) a = (Inr (prologue_code preloaded prev e), b)" "std_regions b"
    using layer_prologue_code[OF assms, of preloaded prev e] e by auto
  obtain c where c: "aa_alloc ''input'' (M * K) 4 b = (Inr 0x60000, c)" "std_regions c" using std_alloc[OF b(2)] by blast
  obtain d where d: "aa_alloc ''output'' (M * N) 4 c = (Inr 0x60000, d)" "std_regions d" using std_alloc[OF c(2)] by blast
  obtain f where f: "aa_alloc ''input_next'' (M * K) 4 d = (Inr 0x60000, f)" "std_regions f" using std_alloc[OF d(2)] by blast
  show ?thesis
    using b c d f by (auto simp: compile_entry_def entry_code_def e bind_op_def ret_def next_op_def std_addresses)
qed

lemma compile_entries_code:
  "std_regions a \<Longrightarrow> \<exists>b. compile_entries preloaded prev es a = (Inr (trace_code preloaded prev es), b) \<and> std_regions b"
proof (induction es arbitrary: prev a)
  case Nil
  then show ?case by (simp add: ret_def)
next
  case (Cons e es)
  obtain b where b: "compile_entry preloaded prev e a = (Inr (entry_code preloaded prev e), b)" "std_regions b"
    using compile_entry_code[OF Cons.prems] by blast
  then show ?case using Cons.IH[OF b(2), of "fst (snd (snd (snd e)))"] by (auto simp: bind_op_def ret_def)
qed

lemma compile_decode_code:
  "std_regions (nc_addr c) \<Longrightarrow> \<exists>c'. compile_decode trace preloaded c =
     (Inr (trace_code preloaded (- 1) trace @ [instr BARRIER [] '''', instr NOP [] ''decode complete'']), c') \<and>
     std_regions (nc_addr c')"
  using compile_entries_code[of "nc_addr c" preloaded "- 1" trace]
  by (auto simp: compile_decode_def zoom_op_def bind_op_def ret_def)

abbreviation with_opcode :: "opcode \<Rightarrow> instruction list \<Rightarrow> instruction list" where
  "with_opcode opc p \<equiv> filter (\<lambda>i. in_opcode i = opc) p"

lemma sfu_ops_opcodes: "with_opcode MMUL (sfu_ops nm a) = []" "with_opcode KV_STORE (sfu_ops nm a) = []"
  by (simp_all add: sfu_ops_def instr_def)

lemma entry_products:
  "map in_operands (with_opcode MMUL (entry_code preloaded prev (M, K, N, layer, nm))) =
     [[(''wa'', 0), (''ia'', 0x60000), (''oa'', 0x60000), (''N'', N)]]"
  "map in_operands (with_opcode KV_STORE (entry_code preloaded prev (M, K, N, layer, nm))) = [[(''token_id'', layer)]]"
  by (simp_all add: entry_code_def prologue_code_def sfu_ops_opcodes) (simp_all add: instr_def)

lemma trace_products:
  "map in_operands (with_opcode MMUL (trace_code preloaded prev es)) =
     map (\<lambda>(M, K, N, layer, nm). [(''wa'', 0), (''ia'', 0x60000), (''oa'', 0x60000), (''N'', N)]) es"
  "map in_operands (with_opcode KV_STORE (trace_code preloaded prev es)) = map (\<lambda>(M, K, N, layer, nm). [(''token_id'', layer)]) es"
  by (induction es arbitrary: prev) (auto simp: entry_products)

text \<open>Compiling a decode trace never fails and gives one product and one cache store per entry, in the
  order of the trace, closed by a barrier. But the allocator hands out one address: every
  product writes its result over its own input, and after encoding and decoding, where the
  address fields have 10 and 16 bits, both are 0 and \<open>N\<close> is reduced modulo 128.\<close>

theorem compiled_products_alias:
  "\<exists>p c'. compile_decode trace preloaded (compiler_new n) = (Inr p, c') \<and>
     map in_operands (with_opcode MMUL p) =
       map (\<lambda>(M, K, N, layer, nm). [(''wa'', 0), (''ia'', 0x60000), (''oa'', 0x60000), (''N'', N)]) trace \<and>
     map in_operands (with_opcode KV_STORE p) = map (\<lambda>(M, K, N, layer, nm). [(''token_id'', layer)]) trace \<and>
     drop (length p - 2) p = [instr BARRIER [] '''', instr NOP [] ''decode complete''] \<and>
     map (\<lambda>i. decode (fst (encode i))) (with_opcode MMUL p) =
       map (\<lambda>(M, K, N, layer, nm). Inr (instr MMUL [(''wa'', 0), (''ia'', 0), (''oa'', 0), (''N'', N mod 128)] [])) trace"
proof -
  let ?b = "[instr BARRIER [] '''', instr NOP [] ''decode complete'']"
  let ?p = "trace_code preloaded (- 1) trace @ ?b"
  obtain c' where c: "compile_decode trace preloaded (compiler_new n) = (Inr ?p, c')"
    using compile_decode_code[of "compiler_new n" trace preloaded] by (auto simp: compiler_new_def std_regions_def)
  have b: "with_opcode MMUL ?b = []" "with_opcode KV_STORE ?b = []" by (simp_all add: instr_def)
  have m: "map in_operands (with_opcode MMUL ?p) =
      map (\<lambda>(M, K, N, layer, nm). [(''wa'', 0), (''ia'', 0x60000), (''oa'', 0x60000), (''N'', N)]) trace"
    unfolding filter_append map_append b by (simp add: trace_products)
  have k: "map in_operands (with_opcode KV_STORE ?p) = map (\<lambda>(M, K, N, layer, nm). [(''token_id'', layer)]) trace"
    unfolding filter_append map_append b by (simp add: trace_products)
  have "map (\<lambda>i. decode (fst (encode i))) (with_opcode MMUL ?p) =
      map (\<lambda>ops. Inr (instr MMUL (kept_operands MMUL ops) [])) (map in_operands (with_opcode MMUL ?p))"
    by (simp add: decode_encode_kept)
  also have "\<dots> = map (\<lambda>(M, K, N, layer, nm). Inr (instr MMUL [(''wa'', 0), (''ia'', 0), (''oa'', 0), (''N'', N mod 128)] [])) trace"
    unfolding m by (auto simp: kept_operands_def)
  finally show ?thesis using c m k by auto
qed

end
