(* ===== verification/Work_Graph.thy ===== *)
theory Work_Graph
  imports Py_Text
begin

text \<open>
  The workload graph, \<open>sim/workloads/schema.py\<close>: tensors and nodes with their field
  validators, the graph with its construction checks (duplicate ids, Kahn's cycle check, tensor
  and alias references), the lookups, the topological order and the symbolic dimensions.

  \<^item> A pydantic construction wraps every \<open>ValueError\<close> of a validator, \<open>ConfigError\<close> included,
    in a \<open>ValidationError\<close>, itself a \<open>ValueError\<close>; \<open>workload_graph_new\<close> does so.
  \<^item> The order in which a set of strings is iterated is the argument \<open>ord\<close>.
  \<^item> Node attributes and graph constraints are opaque values the modelled code never reads;
    they are left out, as are descriptions and labels.
\<close>

section \<open>Tensors and nodes\<close>

datatype dim = Fixed int | Symbol string

text \<open>The raw shape elements a caller may pass.\<close>

datatype shape_value = SInt int | SStr string | SBool bool | SOther

datatype tensor_layout = ROW_MAJOR | COL_MAJOR | NHWC | NCHW | BLOCKED

datatype precision = FP32 | FP16 | BF16 | INT8 | INT4 | INT2 | MIXED_INT8_INT4 | MIXED_INT8_INT8

record provenance =
  pv_source :: string
  pv_reference_uri :: "string option"

record tensor_spec =
  tensor_id :: string
  ts_shape :: "dim list"
  ts_precision :: precision
  ts_layout :: tensor_layout
  ts_bytes :: int
  ts_producer_node :: string
  ts_consumed_by :: "string list"
  ts_alias_of :: "string option"
  ts_provenance :: "provenance option"

record node_spec =
  node_id :: string
  nd_op_type :: string
  nd_inputs :: "string list"
  nd_outputs :: "string list"
  nd_dependencies :: "string list"
  nd_provenance :: "provenance option"

record symbolic_dim =
  sd_name :: string
  sd_description :: string

record workload_graph =
  wg_version :: string
  wg_graph_name :: string
  wg_nodes :: "node_spec list"
  wg_tensors :: "tensor_spec list"
  wg_symbols :: "symbolic_dim list"

definition blank_id :: "string \<Rightarrow> bool" where
  "blank_id s \<longleftrightarrow> s = [] \<or> strip s = []"

fun validate_shape_element :: "shape_value \<Rightarrow> dim result" where
  "validate_shape_element (SBool b) = Inl (ValueError ''bool value is not allowed as shape element'')"
| "validate_shape_element (SInt v) =
     (if v \<le> 0 then Inl (ValueError ''shape dimension must be positive'') else Inr (Fixed v))"
| "validate_shape_element (SStr s) =
     (if strip s = [] then Inl (ValueError ''symbolic dimension name must not be empty'')
      else Inr (Symbol s))"
| "validate_shape_element SOther = Inl (ValueError ''shape element must be int or str'')"

definition validate_shape :: "shape_value list \<Rightarrow> dim list result" where
  "validate_shape v = map_result validate_shape_element v"

definition reject_bool_in_shape :: "shape_value list \<Rightarrow> shape_value list result" where
  "reject_bool_in_shape v =
     (if list_ex (\<lambda>i. case i of SBool _ \<Rightarrow> True | _ \<Rightarrow> False) v
      then Inl (ValueError ''bool value is not allowed as shape element'') else Inr v)"

text \<open>The constructor of a tensor: \<open>t\<close> holds the fields other than the shape.\<close>

definition tensor_spec_new :: "shape_value list \<Rightarrow> tensor_spec \<Rightarrow> tensor_spec result" where
  "tensor_spec_new raw t =
     bind_res (reject_bool_in_shape raw) (\<lambda>r.
     bind_res (validate_shape r) (\<lambda>shape.
       if blank_id (tensor_id t) then Inl (ValueError ''tensor_id must not be empty'')
       else if ts_bytes t < 0 then Inl (ValueError ''bytes must be non-negative'')
       else Inr (t\<lparr>ts_shape := shape\<rparr>)))"

definition node_spec_new :: "node_spec \<Rightarrow> node_spec result" where
  "node_spec_new n =
     (if blank_id (node_id n) then Inl (ValueError ''node_id must not be empty'')
      else if blank_id (nd_op_type n) then Inl (ValueError ''op_type must not be empty'')
      else Inr n)"

section \<open>Structural checks\<close>

abbreviation graph_ids :: "workload_graph \<Rightarrow> string list" where
  "graph_ids g \<equiv> py_set (map node_id (wg_nodes g))"

abbreviation graph_tensor_ids :: "workload_graph \<Rightarrow> string list" where
  "graph_tensor_ids g \<equiv> py_set (map tensor_id (wg_tensors g))"

definition check_unique :: "string \<Rightarrow> string list \<Rightarrow> unit result" where
  "check_unique path ids = bind_res
     (fold_res (\<lambda>i seen. if i \<in> set seen then Inl (ConfigError path) else Inr (set_add i seen)) ids [])
     (\<lambda>_. Inr ())"

definition check_duplicate_ids :: "workload_graph \<Rightarrow> unit result" where
  "check_duplicate_ids g =
     bind_res (check_unique ''nodes'' (map node_id (wg_nodes g))) (\<lambda>_.
       check_unique ''tensors'' (map tensor_id (wg_tensors g)))"

definition producer_map :: "workload_graph \<Rightarrow> (string, string) dict" where
  "producer_map g = fold (\<lambda>t m.
     if ts_producer_node t \<noteq> [] \<and> ts_producer_node t \<noteq> ''input''
     then AList.update (tensor_id t) (ts_producer_node t) m else m) (wg_tensors g) []"

text \<open>The adjacency sets and the in-degrees the two sorts build.\<close>

type_synonym adjacency = "(string, string list) dict \<times> (string, int) dict"

definition init_adjacency :: "string list \<Rightarrow> adjacency" where
  "init_adjacency ids = (map (\<lambda>i. (i, [])) ids, map (\<lambda>i. (i, 0)) ids)"

definition add_edge :: "string \<Rightarrow> string \<Rightarrow> adjacency \<Rightarrow> adjacency" where
  "add_edge p c st = (case st of (adj, deg) \<Rightarrow>
     if c \<in> set (dget adj p []) then st
     else (AList.update p (set_add c (dget adj p [])) adj, AList.update c (dget deg c 0 + 1) deg))"

definition add_checked_input ::
    "string list \<Rightarrow> (string, string) dict \<Rightarrow> node_spec \<Rightarrow> string \<Rightarrow> adjacency \<Rightarrow> adjacency result" where
  "add_checked_input ids pm n inp st = (case map_of pm inp of
       None \<Rightarrow> Inr st
     | Some pn \<Rightarrow>
         if pn \<noteq> [] \<and> pn \<in> set ids
         then if pn = node_id n then Inl (ConfigError ''nodes'') else Inr (add_edge pn (node_id n) st)
         else Inr st)"

definition add_input ::
    "string list \<Rightarrow> (string, string) dict \<Rightarrow> node_spec \<Rightarrow> string \<Rightarrow> adjacency \<Rightarrow> adjacency" where
  "add_input ids pm n inp st = (case map_of pm inp of
       None \<Rightarrow> st
     | Some pn \<Rightarrow>
         if pn \<noteq> [] \<and> pn \<in> set ids \<and> pn \<noteq> node_id n then add_edge pn (node_id n) st else st)"

definition add_dependency :: "string list \<Rightarrow> node_spec \<Rightarrow> string \<Rightarrow> adjacency \<Rightarrow> adjacency" where
  "add_dependency ids n dep st =
     (if dep \<in> set ids \<and> dep \<noteq> node_id n then add_edge dep (node_id n) st else st)"

text \<open>
  Kahn's loop: \<open>relax\<close> is its inner loop over the successors; the list of the visited nodes is
  what the topological order returns and what the cycle check counts.
\<close>

fun relax :: "string list \<Rightarrow> (string, int) dict \<Rightarrow> string list \<Rightarrow> (string, int) dict \<times> string list" where
  "relax [] deg queue = (deg, queue)"
| "relax (v # vs) deg queue =
     (let d = dget deg v 0 - 1
      in relax vs (AList.update v d deg) (if d = 0 then queue @ [v] else queue))"

partial_function (option) kahn ::
    "(string list \<Rightarrow> string list) \<Rightarrow> (string, string list) dict \<Rightarrow> string list \<Rightarrow> (string, int) dict
     \<Rightarrow> string list \<Rightarrow> (string list \<times> (string, int) dict) option" where
  "kahn ord adj queue deg visited =
     (if queue = [] then Some (visited, deg)
      else let current = hd queue;
               r = relax (ord (dget adj current [])) deg (tl queue)
           in kahn ord adj (snd r) (fst r) (visited @ [current]))"

declare kahn.simps [code]

definition ready :: "(string, int) dict \<Rightarrow> string list" where
  "ready deg = map fst (filter (\<lambda>e. snd e = 0) deg)"

definition checked_edges :: "(string list \<Rightarrow> string list) \<Rightarrow> workload_graph \<Rightarrow> adjacency result" where
  "checked_edges ord g = (let ids = ord (graph_ids g); pm = producer_map g in
     bind_res (fold_res (\<lambda>n. fold_res (add_checked_input ids pm n) (nd_inputs n)) (wg_nodes g)
       (init_adjacency ids))
     (\<lambda>st. Inr (fold (\<lambda>n. fold (add_dependency ids n) (nd_dependencies n)) (wg_nodes g) st)))"

definition check_dag_cycles :: "(string list \<Rightarrow> string list) \<Rightarrow> workload_graph \<Rightarrow> unit result option" where
  "check_dag_cycles ord g =
     (if graph_ids g = [] then Some (Inr ())
      else case checked_edges ord g of
        Inl e \<Rightarrow> Some (Inl e)
      | Inr (adj, deg) \<Rightarrow> map_option (\<lambda>r.
          if length (fst r) \<noteq> length (graph_ids g) then Inl (ConfigError ''nodes'') else Inr ())
          (kahn ord adj (ready deg) deg []))"

definition plain_edges :: "(string list \<Rightarrow> string list) \<Rightarrow> workload_graph \<Rightarrow> adjacency" where
  "plain_edges ord g = (let ids = ord (graph_ids g); pm = producer_map g in
     fold (\<lambda>n st. fold (add_dependency ids n) (nd_dependencies n) (fold (add_input ids pm n) (nd_inputs n) st))
       (wg_nodes g) (init_adjacency ids))"

definition topological_order ::
    "(string list \<Rightarrow> string list) \<Rightarrow> workload_graph \<Rightarrow> string list result option" where
  "topological_order ord g =
     Option.bind (check_dag_cycles ord g) (\<lambda>c. case c of
       Inl e \<Rightarrow> Some (Inl e)
     | Inr _ \<Rightarrow>
         if graph_ids g = [] then Some (Inr [])
         else case plain_edges ord g of (adj, deg) \<Rightarrow>
           map_option (\<lambda>r. Inr (fst r)) (kahn ord adj (ready deg) deg []))"

definition dotted :: "string \<Rightarrow> string \<Rightarrow> string \<Rightarrow> string" where
  "dotted a i b = a @ ''.'' @ i @ ''.'' @ b"

definition check_tensor_references :: "workload_graph \<Rightarrow> unit result" where
  "check_tensor_references g = (let tids = graph_tensor_ids g; nids = set_add ''input'' (graph_ids g) in
     bind_res (check_each (\<lambda>n.
       bind_res (check_each (\<lambda>i. if i \<notin> set tids
           then Inl (ConfigError (dotted ''nodes'' (node_id n) ''inputs'')) else Inr ()) (nd_inputs n)) (\<lambda>_.
         check_each (\<lambda>i. if i \<notin> set tids
           then Inl (ConfigError (dotted ''nodes'' (node_id n) ''outputs'')) else Inr ()) (nd_outputs n)))
       (wg_nodes g))
     (\<lambda>_. check_each (\<lambda>t.
       bind_res (if ts_producer_node t \<noteq> [] \<and> ts_producer_node t \<notin> set nids
           then Inl (ConfigError (dotted ''tensors'' (tensor_id t) ''producer_node'')) else Inr ()) (\<lambda>_.
         check_each (\<lambda>c. if c \<notin> set nids
           then Inl (ConfigError (dotted ''tensors'' (tensor_id t) ''consumed_by'')) else Inr ())
           (ts_consumed_by t)))
       (wg_tensors g)))"

definition check_alias_validity :: "workload_graph \<Rightarrow> unit result" where
  "check_alias_validity g = (let tids = graph_tensor_ids g in
     check_each (\<lambda>t. case ts_alias_of t of
         None \<Rightarrow> Inr ()
       | Some a \<Rightarrow>
           if a = [] then Inr ()
           else if a \<notin> set tids then Inl (ConfigError (dotted ''tensors'' (tensor_id t) ''alias_of''))
           else if a = tensor_id t then Inl (ConfigError (dotted ''tensors'' (tensor_id t) ''alias_of''))
           else Inr ()) (wg_tensors g))"

text \<open>
  \<open>_validate_graph_integrity\<close>, and the constructor: what a validator raises becomes pydantic's
  \<open>ValidationError\<close>.
\<close>

definition validate_graph_integrity ::
    "(string list \<Rightarrow> string list) \<Rightarrow> workload_graph \<Rightarrow> unit result option" where
  "validate_graph_integrity ord g = (case check_duplicate_ids g of
       Inl e \<Rightarrow> Some (Inl e)
     | Inr _ \<Rightarrow> map_option (\<lambda>c. bind_res c (\<lambda>_. bind_res (check_tensor_references g) (\<lambda>_.
         check_alias_validity g))) (check_dag_cycles ord g))"

definition workload_graph_new ::
    "(string list \<Rightarrow> string list) \<Rightarrow> workload_graph \<Rightarrow> workload_graph result option" where
  "workload_graph_new ord g =
     (if wg_version g \<noteq> ''1'' then Some (Inl (ValueError ''ValidationError''))
      else map_option (\<lambda>r. case r of Inl e \<Rightarrow> Inl (ValueError ''ValidationError'') | Inr _ \<Rightarrow> Inr g)
        (validate_graph_integrity ord g))"

section \<open>Lookups and symbols\<close>

definition get_node :: "workload_graph \<Rightarrow> string \<Rightarrow> node_spec result" where
  "get_node g i = (case find (\<lambda>n. node_id n = i) (wg_nodes g) of
     Some n \<Rightarrow> Inr n | None \<Rightarrow> Inl (KeyError ''node not found''))"

definition get_tensor :: "workload_graph \<Rightarrow> string \<Rightarrow> tensor_spec result" where
  "get_tensor g i = (case find (\<lambda>t. tensor_id t = i) (wg_tensors g) of
     Some t \<Rightarrow> Inr t | None \<Rightarrow> Inl (KeyError ''tensor not found''))"

definition has_symbolic_shapes :: "workload_graph \<Rightarrow> bool" where
  "has_symbolic_shapes g = list_ex (\<lambda>t. list_ex (\<lambda>d. case d of Symbol _ \<Rightarrow> True | Fixed _ \<Rightarrow> False)
     (ts_shape t)) (wg_tensors g)"

definition shape_symbols :: "workload_graph \<Rightarrow> string list" where
  "shape_symbols g = py_set (concat (map (\<lambda>t.
     concat (map (\<lambda>d. case d of Symbol s \<Rightarrow> [s] | Fixed _ \<Rightarrow> []) (ts_shape t))) (wg_tensors g)))"

definition unbound_symbols :: "workload_graph \<Rightarrow> (string, int) dict option \<Rightarrow> string set" where
  "unbound_symbols g bindings = (case bindings of
     None \<Rightarrow> set (shape_symbols g) | Some b \<Rightarrow> set (shape_symbols g) - set (dkeys b))"

definition node_ids :: "workload_graph \<Rightarrow> string set" where
  "node_ids g = set (graph_ids g)"

definition tensor_ids :: "workload_graph \<Rightarrow> string set" where
  "tensor_ids g = set (graph_tensor_ids g)"

section \<open>The edges the sorts see\<close>

text \<open>
  A data dependency leads from the producer of a tensor to the node that reads it, a control
  dependency from a listed node to the node that lists it; a node that lists itself is skipped.
\<close>

definition input_edges :: "workload_graph \<Rightarrow> node_spec \<Rightarrow> (string \<times> string) list" where
  "input_edges g n = concat (map (\<lambda>i. case map_of (producer_map g) i of
       None \<Rightarrow> []
     | Some p \<Rightarrow> if p \<noteq> [] \<and> p \<in> set (graph_ids g) then [(p, node_id n)] else []) (nd_inputs n))"

definition control_edges :: "workload_graph \<Rightarrow> node_spec \<Rightarrow> (string \<times> string) list" where
  "control_edges g n = concat (map (\<lambda>d.
       if d \<in> set (graph_ids g) \<and> d \<noteq> node_id n then [(d, node_id n)] else []) (nd_dependencies n))"

definition data_deps :: "workload_graph \<Rightarrow> (string \<times> string) set" where
  "data_deps g = (\<Union>n \<in> set (wg_nodes g). set (input_edges g n))"

definition depends :: "workload_graph \<Rightarrow> (string \<times> string) set" where
  "depends g = data_deps g \<union> (\<Union>n \<in> set (wg_nodes g). set (control_edges g n))"

text \<open>The adjacency \<open>st\<close> over the nodes \<open>V\<close> represents the edges \<open>R\<close>.\<close>

definition represents :: "string set \<Rightarrow> (string \<times> string) set \<Rightarrow> adjacency \<Rightarrow> bool" where
  "represents V R st \<longleftrightarrow> R \<subseteq> V \<times> V \<and> finite V \<and> set (dkeys (snd st)) = V \<and> distinct (dkeys (snd st))
     \<and> (\<forall>u. distinct (dget (fst st) u []))
     \<and> (\<forall>u v. v \<in> set (dget (fst st) u []) \<longleftrightarrow> (u, v) \<in> R)
     \<and> (\<forall>v. dget (snd st) v 0 = int (card {u. (u, v) \<in> R}))"

declare dget_update [simp]

lemma dget_const: "dget (map (\<lambda>i. (i, c)) ids) k c = c"
  by (induction ids) auto

lemma represents_init: "distinct ids \<Longrightarrow> represents (set ids) {} (init_adjacency ids)"
  by (simp add: represents_def init_adjacency_def dget_const comp_def)

lemma represents_finite_preds: "represents V R st \<Longrightarrow> finite {u. (u, v) \<in> R}"
  by (rule finite_subset[of _ V]) (auto simp: represents_def)

lemma represents_add_edge:
  assumes "represents V R st" and "p \<in> V" and "c \<in> V"
  shows "represents V (insert (p, c) R) (add_edge p c st)"
proof -
  obtain adj deg where st: "st = (adj, deg)" by (cases st)
  show ?thesis
  proof (cases "(p, c) \<in> R")
    case True
    with assms show ?thesis by (simp add: add_edge_def st represents_def insert_absorb)
  next
    case False
    have "{u. (u, v) \<in> insert (p, c) R} = (if v = c then insert p {u. (u, c) \<in> R} else {u. (u, v) \<in> R})" for v
      by auto
    moreover have "card (insert p {u. (u, c) \<in> R}) = Suc (card {u. (u, c) \<in> R})"
      using False represents_finite_preds[OF assms(1)] by simp
    ultimately show ?thesis
      using assms False
      by (auto simp: add_edge_def st represents_def dkeys_update)
  qed
qed

lemma represents_fold:
  assumes "represents V R st" and "set es \<subseteq> V \<times> V"
  shows "represents V (R \<union> set es) (fold (\<lambda>(p, c). add_edge p c) es st)"
  using assms
proof (induction es arbitrary: R st)
  case Nil
  then show ?case by simp
next
  case (Cons e es)
  obtain p c where e: "e = (p, c)" by (cases e)
  have "represents V (insert (p, c) R) (add_edge p c st)"
    using Cons.prems e by (intro represents_add_edge) auto
  from Cons.IH[OF this] Cons.prems(2) e show ?case by (simp add: Un_commute)
qed

subsection \<open>Both loops fold \<open>add_edge\<close> over these edges\<close>

abbreviation add_edges :: "(string \<times> string) list \<Rightarrow> adjacency \<Rightarrow> adjacency" where
  "add_edges \<equiv> fold (\<lambda>(p, c). add_edge p c)"

lemma add_edges_map:
  "fold (\<lambda>x. add_edges (f x)) xs st = add_edges (concat (map f xs)) st"
  by (induction xs arbitrary: st) simp_all

lemma dependency_fold:
  assumes "set ids = set (graph_ids g)"
  shows "fold (add_dependency ids n) (nd_dependencies n) = add_edges (control_edges g n)"
proof -
  define f where "f d = (if d \<in> set (graph_ids g) \<and> d \<noteq> node_id n then [(d, node_id n)] else [])" for d
  have "add_dependency ids n = (\<lambda>d. add_edges (f d))"
    using assms by (intro ext) (simp add: add_dependency_def f_def)
  then have "fold (add_dependency ids n) (nd_dependencies n) st
      = add_edges (concat (map f (nd_dependencies n))) st" for st
    by (simp only: add_edges_map)
  moreover have "control_edges g n = concat (map f (nd_dependencies n))"
    unfolding control_edges_def f_def ..
  ultimately show ?thesis by (simp add: fun_eq_iff)
qed

lemma input_fold:
  assumes "set ids = set (graph_ids g)" and "\<forall>e \<in> set (input_edges g n). fst e \<noteq> node_id n"
  shows "fold (add_input ids (producer_map g) n) (nd_inputs n) st = add_edges (input_edges g n) st"
    and "fold_res (add_checked_input ids (producer_map g) n) (nd_inputs n) st
      = Inr (add_edges (input_edges g n) st)"
proof -
  define f where "f i = (case map_of (producer_map g) i of None \<Rightarrow> []
     | Some p \<Rightarrow> if p \<noteq> [] \<and> p \<in> set (graph_ids g) then [(p, node_id n)] else [])" for i
  have ie: "input_edges g n = concat (map f (nd_inputs n))" unfolding input_edges_def f_def ..
  have "add_input ids (producer_map g) n i st = add_edges (f i) st
      \<and> add_checked_input ids (producer_map g) n i st = Inr (add_edges (f i) st)"
    if "i \<in> set (nd_inputs n)" for i st
  proof -
    have "\<forall>e \<in> set (f i). fst e \<noteq> node_id n" using that assms(2) ie by auto
    then show ?thesis using assms(1)
      by (auto simp: add_input_def add_checked_input_def f_def split: option.splits)
  qed
  note step = this
  have "fold (add_input ids (producer_map g) n) (nd_inputs n) st
      = fold (\<lambda>i. add_edges (f i)) (nd_inputs n) st"
    by (intro fold_cong[OF refl refl] ext) (blast dest: step)
  moreover have "fold_res (add_checked_input ids (producer_map g) n) (nd_inputs n) st
      = Inr (fold (\<lambda>i. add_edges (f i)) (nd_inputs n) st)"
    by (intro fold_res_total) (blast dest: step)
  ultimately show "fold (add_input ids (producer_map g) n) (nd_inputs n) st = add_edges (input_edges g n) st"
    and "fold_res (add_checked_input ids (producer_map g) n) (nd_inputs n) st
      = Inr (add_edges (input_edges g n) st)"
    by (simp_all add: add_edges_map ie)
qed

definition self_loop_free :: "workload_graph \<Rightarrow> bool" where
  "self_loop_free g \<longleftrightarrow> (\<forall>u. (u, u) \<notin> data_deps g)"

lemma input_edge_target: "e \<in> set (input_edges g n) \<Longrightarrow> snd e = node_id n"
  by (auto simp: input_edges_def split: option.splits if_splits)

lemma self_loop_freeD:
  "self_loop_free g \<Longrightarrow> n \<in> set (wg_nodes g) \<Longrightarrow> \<forall>e \<in> set (input_edges g n). fst e \<noteq> node_id n"
proof
  fix e assume a: "self_loop_free g" "n \<in> set (wg_nodes g)" "e \<in> set (input_edges g n)"
  then have "snd e = node_id n" by (simp add: input_edge_target)
  with a show "fst e \<noteq> node_id n" unfolding self_loop_free_def data_deps_def
    by (metis UN_I prod.collapse)
qed

lemma edges_in_ids: "depends g \<subseteq> set (graph_ids g) \<times> set (graph_ids g)"
  by (auto simp: depends_def data_deps_def input_edges_def control_edges_def
      split: option.splits if_splits)

lemma checked_edges_eq:
  assumes "self_loop_free g" and "set (ord (graph_ids g)) = set (graph_ids g)"
  shows "checked_edges ord g = Inr (add_edges (concat (map (input_edges g) (wg_nodes g))
      @ concat (map (control_edges g) (wg_nodes g))) (init_adjacency (ord (graph_ids g))))"
proof -
  have "fold_res (\<lambda>n. fold_res (add_checked_input (ord (graph_ids g)) (producer_map g) n) (nd_inputs n))
      (wg_nodes g) st = Inr (fold (\<lambda>n. add_edges (input_edges g n)) (wg_nodes g) st)" for st
    by (intro fold_res_total input_fold(2) assms(2) self_loop_freeD[OF assms(1)])
  then show ?thesis
    using dependency_fold[OF assms(2)] by (simp add: checked_edges_def Let_def add_edges_map)
qed

lemma plain_edges_eq:
  assumes "self_loop_free g" and "set (ord (graph_ids g)) = set (graph_ids g)"
  shows "plain_edges ord g = add_edges (concat (map (\<lambda>n. input_edges g n @ control_edges g n) (wg_nodes g)))
      (init_adjacency (ord (graph_ids g)))"
proof -
  have "fold (\<lambda>n st. fold (add_dependency (ord (graph_ids g)) n) (nd_dependencies n)
        (fold (add_input (ord (graph_ids g)) (producer_map g) n) (nd_inputs n) st)) (wg_nodes g) st
      = fold (\<lambda>n. add_edges (input_edges g n @ control_edges g n)) (wg_nodes g) st" for st
    using dependency_fold[OF assms(2)] input_fold(1)[OF assms(2) self_loop_freeD[OF assms(1)]]
    by (intro fold_cong) auto
  then show ?thesis unfolding plain_edges_def Let_def by (simp only: add_edges_map)
qed

lemma checked_edges_represents:
  assumes "ord_ok ord" and "self_loop_free g"
  obtains st where "checked_edges ord g = Inr st"
    and "represents (set (graph_ids g)) (depends g) st"
proof
  have ids: "set (ord (graph_ids g)) = set (graph_ids g)" and d: "distinct (ord (graph_ids g))"
    using assms(1) by (simp_all add: ord_okD)
  show "checked_edges ord g = Inr (add_edges (concat (map (input_edges g) (wg_nodes g))
      @ concat (map (control_edges g) (wg_nodes g))) (init_adjacency (ord (graph_ids g))))" (is "_ = Inr ?st")
    by (rule checked_edges_eq[where ord = ord, OF assms(2) ids])
  have eq: "set (concat (map (input_edges g) (wg_nodes g)) @ concat (map (control_edges g) (wg_nodes g)))
      = depends g" by (auto simp: depends_def data_deps_def)
  from represents_fold[OF represents_init[OF d], of "concat (map (input_edges g) (wg_nodes g))
      @ concat (map (control_edges g) (wg_nodes g))"] edges_in_ids[of g]
  show "represents (set (graph_ids g)) (depends g) ?st" unfolding eq ids by simp
qed

lemma plain_edges_represents:
  assumes "ord_ok ord" and "self_loop_free g"
  shows "represents (set (graph_ids g)) (depends g) (plain_edges ord g)"
proof -
  have ids: "set (ord (graph_ids g)) = set (graph_ids g)" and d: "distinct (ord (graph_ids g))"
    using assms(1) by (simp_all add: ord_okD)
  have eq: "set (concat (map (\<lambda>n. input_edges g n @ control_edges g n) (wg_nodes g))) = depends g"
    by (auto simp: depends_def data_deps_def)
  from represents_fold[OF represents_init[OF d], of "concat (map (\<lambda>n. input_edges g n @ control_edges g n) (wg_nodes g))"]
    edges_in_ids[of g] show ?thesis
    unfolding plain_edges_eq[where ord = ord, OF assms(2) ids] eq ids by simp
qed

text \<open>A tensor a node both produces and reads is rejected.\<close>

lemma checked_edges_self_loop:
  assumes "ord_ok ord" and "\<not> self_loop_free g"
  shows "checked_edges ord g = Inl (ConfigError ''nodes'')"
proof -
  have ids: "set (ord (graph_ids g)) = set (graph_ids g)" using assms(1) by (simp add: ord_okD)
  obtain n where n: "n \<in> set (wg_nodes g)" "(node_id n, node_id n) \<in> set (input_edges g n)"
    using assms(2) unfolding self_loop_free_def data_deps_def by (metis UN_E input_edge_target snd_conv)
  then obtain i where i: "i \<in> set (nd_inputs n)" "map_of (producer_map g) i = Some (node_id n)"
      "node_id n \<noteq> []" "node_id n \<in> set (graph_ids g)"
    by (auto simp: input_edges_def split: option.splits if_splits)
  define f where "f = (\<lambda>n. fold_res (add_checked_input (ord (graph_ids g)) (producer_map g) n) (nd_inputs n))"
  have "\<not> is_ok (add_checked_input (ord (graph_ids g)) (producer_map g) n i st)" for st
    using i ids by (simp add: add_checked_input_def)
  then have "\<not> is_ok (f n st)" for st unfolding f_def by (rule fold_res_fails[OF i(1)])
  then have "\<not> is_ok (fold_res f (wg_nodes g) (init_adjacency (ord (graph_ids g))))"
    by (rule fold_res_fails[OF n(1)])
  moreover have "e = ConfigError ''nodes''"
    if "add_checked_input ids pm n i st = Inl e" for ids pm n i st e
    using that by (auto simp: add_checked_input_def split: option.splits if_splits)
  then have "e = ConfigError ''nodes''"
    if "fold_res (add_checked_input ids pm n) is st = Inl e" for ids pm n "is" st e
    using that by (induction "is" arbitrary: st) (fastforce simp: bind_res_def split: sum.splits)+
  then have "e = ConfigError ''nodes''" if "fold_res f ns st = Inl e" for ns st e
    using that unfolding f_def
    by (induction ns arbitrary: st) (fastforce simp: bind_res_def split: sum.splits)+
  ultimately show ?thesis
    by (cases "fold_res f (wg_nodes g) (init_adjacency (ord (graph_ids g)))")
      (auto simp: checked_edges_def f_def[symmetric] Let_def)
qed


section \<open>Kahn's loop\<close>

text \<open>A list is in topological order when the predecessors of each element come before it.\<close>

definition topo :: "('a \<times> 'a) set \<Rightarrow> 'a list \<Rightarrow> bool" where
  "topo E xs \<longleftrightarrow> (\<forall>i < length xs. \<forall>u. (u, xs ! i) \<in> E \<longrightarrow> u \<in> set (take i xs))"

lemma topo_Nil [simp]: "topo E []"
  by (simp add: topo_def)

lemma topo_snoc: "topo E (xs @ [x]) \<longleftrightarrow> topo E xs \<and> (\<forall>u. (u, x) \<in> E \<longrightarrow> u \<in> set xs)"
  by (auto simp: topo_def nth_append less_Suc_eq)

lemma topo_acyclic:
  assumes "topo E xs" and "distinct xs" and "E \<subseteq> set xs \<times> set xs"
  shows "acyclic E"
proof -
  define pos where "pos x = (THE i. i < length xs \<and> xs ! i = x)" for x
  have pos: "pos (xs ! i) = i" if "i < length xs" for i
    unfolding pos_def using assms(2) that by (auto simp: nth_eq_iff_index_eq)
  have "E \<subseteq> measure pos"
  proof
    fix e assume e: "e \<in> E"
    then obtain u v where uv: "e = (u, v)" by (cases e)
    with e assms(3) have "v \<in> set xs" by auto
    then obtain j where j: "j < length xs" "v = xs ! j" by (metis in_set_conv_nth)
    with e uv assms(1) have "u \<in> set (take j xs)" by (auto simp: topo_def)
    then obtain i where "i < j" "u = xs ! i" using j(1) by (auto simp: in_set_conv_nth)
    with j pos show "e \<in> measure pos" by (simp add: uv)
  qed
  then show ?thesis by (meson acyclic_subset wf_acyclic wf_measure)
qed

lemma relax_effect:
  assumes "distinct vs"
  shows "dget (fst (relax vs deg q)) v 0 = dget deg v 0 - (if v \<in> set vs then 1 else 0)"
    and "snd (relax vs deg q) = q @ filter (\<lambda>v. dget deg v 0 = 1) vs"
proof -
  have "dget (fst (relax vs deg q)) v 0 = dget deg v 0 - (if v \<in> set vs then 1 else 0)
    \<and> snd (relax vs deg q) = q @ filter (\<lambda>v. dget deg v 0 = 1) vs"
    using assms
  proof (induction vs arbitrary: deg q)
    case Nil
    then show ?case by simp
  next
    case (Cons x xs)
    have "filter (\<lambda>v. dget (AList.update x (dget deg x 0 - 1) deg) v 0 = 1) xs
        = filter (\<lambda>v. dget deg v 0 = 1) xs"
      using Cons.prems by (intro filter_cong) auto
    with Cons show ?case by (auto simp: Let_def)
  qed
  then show "dget (fst (relax vs deg q)) v 0 = dget deg v 0 - (if v \<in> set vs then 1 else 0)"
    and "snd (relax vs deg q) = q @ filter (\<lambda>v. dget deg v 0 = 1) vs" by simp_all
qed

text \<open>
  The loop invariant: visited and queued nodes are those whose remaining in-degree is zero, the
  in-degree of a node counts its predecessors that were not visited, and the visited nodes are
  in topological order.
\<close>

definition kahn_inv ::
    "string set \<Rightarrow> (string \<times> string) set \<Rightarrow> string list \<Rightarrow> (string, int) dict \<Rightarrow> string list \<Rightarrow> bool" where
  "kahn_inv V E queue deg visited \<longleftrightarrow>
     distinct (visited @ queue) \<and> set (visited @ queue) \<subseteq> V
     \<and> (\<forall>v. dget deg v 0 = int (card {u. (u, v) \<in> E \<and> u \<notin> set visited}))
     \<and> (\<forall>v \<in> V. v \<in> set (visited @ queue) \<longleftrightarrow> dget deg v 0 = 0)
     \<and> topo E visited"

lemma kahn_inv_step:
  assumes inv: "kahn_inv V E (c # queue) deg visited"
    and VE: "finite V" "E \<subseteq> V \<times> V"
    and succs: "distinct vs" "\<And>v. v \<in> set vs \<longleftrightarrow> (c, v) \<in> E"
  shows "kahn_inv V E (snd (relax vs deg queue)) (fst (relax vs deg queue)) (visited @ [c])"
proof -
  have fin: "finite {u. (u, v) \<in> E \<and> P u}" for v P
    by (rule finite_subset[OF _ VE(1)]) (use VE(2) in auto)
  have deg: "dget deg v 0 = int (card {u. (u, v) \<in> E \<and> u \<notin> set visited})" for v
    using inv by (simp add: kahn_inv_def)
  have zero: "v \<in> set (visited @ c # queue) \<longleftrightarrow> dget deg v 0 = 0" if "v \<in> V" for v
    using inv that by (simp add: kahn_inv_def)
  have c: "c \<in> V" "c \<notin> set visited" and dist: "distinct (visited @ c # queue)"
    and V: "set (visited @ c # queue) \<subseteq> V"
    using inv by (auto simp: kahn_inv_def)
  have pos: "1 \<le> dget deg v 0" if "v \<in> set vs" for v
  proof -
    have "c \<in> {u. (u, v) \<in> E \<and> u \<notin> set visited}" using that c(2) succs(2) by simp
    then have "card {u. (u, v) \<in> E \<and> u \<notin> set visited} \<noteq> 0" using fin by (auto simp: card_eq_0_iff)
    with deg[of v] show ?thesis by linarith
  qed
  have preds: "u \<in> set visited" if "(u, c) \<in> E" for u
  proof -
    have "card {u. (u, c) \<in> E \<and> u \<notin> set visited} = 0" using deg[of c] zero[OF c(1)] by simp
    then show ?thesis using fin that by (auto simp: card_eq_0_iff)
  qed
  have deg': "dget (fst (relax vs deg queue)) v 0 = int (card {u. (u, v) \<in> E \<and> u \<notin> set (visited @ [c])})" for v
  proof (cases "v \<in> set vs")
    case True
    have "{u. (u, v) \<in> E \<and> u \<notin> set visited} = insert c {u. (u, v) \<in> E \<and> u \<notin> set (visited @ [c])}"
      using True c(2) succs(2) by auto
    then have "card {u. (u, v) \<in> E \<and> u \<notin> set visited} = Suc (card {u. (u, v) \<in> E \<and> u \<notin> set (visited @ [c])})"
      using fin[of v "\<lambda>u. u \<notin> set (visited @ [c])"] by simp
    with True deg[of v] show ?thesis by (simp add: relax_effect(1)[OF succs(1)])
  next
    case False
    then have "{u. (u, v) \<in> E \<and> u \<notin> set visited} = {u. (u, v) \<in> E \<and> u \<notin> set (visited @ [c])}"
      using succs(2) by auto
    with False deg[of v] show ?thesis by (simp add: relax_effect(1)[OF succs(1)])
  qed
  have sub: "set vs \<subseteq> V" using succs(2) VE(2) by auto
  have "distinct (visited @ c # queue @ filter (\<lambda>v. dget deg v 0 = 1) vs)"
  proof -
    have "dget deg v 0 = 0" if "v \<in> set (visited @ c # queue)" for v using that V zero by auto
    with pos have "set (visited @ c # queue) \<inter> set (filter (\<lambda>v. dget deg v 0 = 1) vs) = {}" by fastforce
    with dist succs(1) show ?thesis by auto
  qed
  moreover have "v \<in> set (visited @ c # queue @ filter (\<lambda>v. dget deg v 0 = 1) vs)
      \<longleftrightarrow> dget (fst (relax vs deg queue)) v 0 = 0" if "v \<in> V" for v
    using zero[OF that] pos[of v] by (auto simp: relax_effect(1)[OF succs(1)])
  moreover have "topo E (visited @ [c])" using inv preds by (simp add: kahn_inv_def topo_snoc)
  ultimately show ?thesis
    using deg' V sub unfolding kahn_inv_def relax_effect(2)[OF succs(1)] by auto
qed

lemma kahn_run:
  assumes "kahn_inv V E queue deg visited" and "finite V" and "E \<subseteq> V \<times> V" and "ord_ok ord"
    and "\<And>u. distinct (dget adj u [])" and "\<And>u v. v \<in> set (dget adj u []) \<longleftrightarrow> (u, v) \<in> E"
  shows "\<exists>xs deg'. kahn ord adj queue deg visited = Some (xs, deg') \<and> kahn_inv V E [] deg' xs"
  using assms(1)
proof (induction "card V - length visited" arbitrary: queue deg visited rule: less_induct)
  case less
  show ?case
  proof (cases queue)
    case Nil
    with less.prems show ?thesis by (simp add: kahn.simps)
  next
    case (Cons c q)
    define vs where "vs = ord (dget adj c [])"
    have inv: "kahn_inv V E (snd (relax vs deg q)) (fst (relax vs deg q)) (visited @ [c])"
      using less.prems assms(2-6) Cons
      by (intro kahn_inv_step) (auto simp: vs_def ord_okD)
    have "length (visited @ [c]) \<le> card V"
    proof -
      have "card (set (visited @ [c])) = length (visited @ [c])"
        using inv by (intro distinct_card) (simp add: kahn_inv_def)
      moreover have "set (visited @ [c]) \<subseteq> V" using inv by (simp add: kahn_inv_def)
      ultimately show ?thesis using card_mono[OF assms(2)] by metis
    qed
    then have "card V - length (visited @ [c]) < card V - length visited" by simp
    from less.hyps[OF this inv] show ?thesis
      unfolding Cons kahn.simps[of ord adj "c # q"] Let_def list.sel vs_def by simp
  qed
qed

lemma acyclic_has_source:
  assumes "acyclic E" and "finite V" and "E \<subseteq> V \<times> V" and "S \<subseteq> V" and "S \<noteq> {}"
  obtains v where "v \<in> S" and "\<And>u. (u, v) \<in> E \<Longrightarrow> u \<notin> S"
proof -
  have "finite E" using assms(2,3) by (meson finite_SigmaI finite_subset)
  then have "wf E" using assms(1) by (rule finite_acyclic_wf)
  moreover obtain x where "x \<in> S" using assms(5) by auto
  ultimately obtain z where "z \<in> S" "\<And>y. (y, z) \<in> E \<Longrightarrow> y \<notin> S" by (rule wfE_min) blast
  then show ?thesis by (rule that)
qed

lemma kahn_inv_final:
  assumes inv: "kahn_inv V E [] deg xs" and VE: "finite V" "E \<subseteq> V \<times> V"
  shows "acyclic E \<longleftrightarrow> set xs = V"
proof
  assume ac: "acyclic E"
  show "set xs = V"
  proof (rule ccontr)
    assume "set xs \<noteq> V"
    moreover have sub: "set xs \<subseteq> V" using inv by (simp add: kahn_inv_def)
    ultimately have "V - set xs \<noteq> {}" by auto
    with ac VE obtain v where v: "v \<in> V - set xs" "\<And>u. (u, v) \<in> E \<Longrightarrow> u \<notin> V - set xs"
      by (elim acyclic_has_source[where S = "V - set xs"]) auto
    then have "{u. (u, v) \<in> E \<and> u \<notin> set xs} = {}" using VE(2) by auto
    then have "card {u. (u, v) \<in> E \<and> u \<notin> set xs} = 0" by (simp only: card.empty)
    then have "dget deg v 0 = 0" using inv by (simp add: kahn_inv_def)
    with v(1) inv show False by (auto simp: kahn_inv_def)
  qed
next
  assume "set xs = V"
  with inv VE(2) show "acyclic E" by (intro topo_acyclic[of E xs]) (auto simp: kahn_inv_def)
qed

lemma kahn_inv_init:
  assumes "represents V R (adj, deg)"
  shows "kahn_inv V R (ready deg) deg []"
proof -
  have d: "distinct (map fst deg)" and V: "set (dkeys deg) = V" using assms by (auto simp: represents_def)
  have "v \<in> set (ready deg) \<longleftrightarrow> dget deg v 0 = 0" if "v \<in> V" for v
  proof -
    have "v \<in> fst ` set deg" using \<open>v \<in> V\<close> V by simp
    then obtain x where x: "(v, x) \<in> set deg" by auto
    then have "map_of deg v = Some x" using d by simp
    moreover have "v \<in> set (ready deg) \<longleftrightarrow> (v, 0) \<in> set deg" by (force simp: ready_def)
    then have "v \<in> set (ready deg) \<longleftrightarrow> x = 0" using x d by (auto dest: eq_key_imp_eq_value)
    ultimately show ?thesis by (simp add: dget_def)
  qed
  moreover have "distinct (ready deg)" unfolding ready_def by (rule distinct_map_filter[OF d])
  moreover have "set (ready deg) \<subseteq> V" using V by (auto simp: ready_def)
  ultimately show ?thesis using assms by (auto simp: kahn_inv_def represents_def)
qed

lemma kahn_sorts:
  assumes "represents V R (adj, deg)" and "ord_ok ord"
  obtains xs deg' where "kahn ord adj (ready deg) deg [] = Some (xs, deg')"
    and "distinct xs" and "set xs \<subseteq> V" and "topo R xs" and "acyclic R \<longleftrightarrow> set xs = V"
proof -
  have VE: "finite V" "R \<subseteq> V \<times> V" using assms(1) by (auto simp: represents_def)
  have adj: "\<And>u. distinct (dget adj u [])" "\<And>u v. v \<in> set (dget adj u []) \<longleftrightarrow> (u, v) \<in> R"
    using assms(1) by (simp_all add: represents_def)
  from kahn_run[OF kahn_inv_init[OF assms(1)] VE assms(2) adj]
  obtain xs deg' where r: "kahn ord adj (ready deg) deg [] = Some (xs, deg')" "kahn_inv V R [] deg' xs"
    by blast
  with kahn_inv_final[OF r(2) VE] that show ?thesis by (auto simp: kahn_inv_def)
qed

section \<open>The cycle check and the topological order\<close>

lemma check_dag_cycles_result:
  assumes "ord_ok ord"
  shows "check_dag_cycles ord g =
    Some (if acyclic (depends g) then Inr () else Inl (ConfigError ''nodes''))"
proof (cases "graph_ids g = []")
  case True
  then have "depends g = {}" using edges_in_ids[of g] by auto
  with True show ?thesis by (simp add: check_dag_cycles_def acyclic_def)
next
  case False
  show ?thesis
  proof (cases "self_loop_free g")
    case True
    with assms obtain st where st: "checked_edges ord g = Inr st"
      and R: "represents (set (graph_ids g)) (depends g) st" by (rule checked_edges_represents)
    obtain adj deg where ad: "st = (adj, deg)" by (cases st)
    from R assms obtain xs deg' where k: "kahn ord adj (ready deg) deg [] = Some (xs, deg')"
      and xs: "distinct xs" "set xs \<subseteq> set (graph_ids g)" "acyclic (depends g) \<longleftrightarrow> set xs = set (graph_ids g)"
      unfolding ad by (rule kahn_sorts)
    have "length xs = length (graph_ids g) \<longleftrightarrow> set xs = set (graph_ids g)"
      using xs(1,2) by (metis card_subset_eq distinct_card distinct_py_set finite_set)
    with k xs(3) False show ?thesis by (simp add: check_dag_cycles_def st ad)
  next
    case s: False
    then obtain u where "(u, u) \<in> depends g" by (auto simp: self_loop_free_def depends_def)
    then have "\<not> acyclic (depends g)" by (auto simp: acyclic_def)
    with s False checked_edges_self_loop[OF assms s] show ?thesis by (simp add: check_dag_cycles_def)
  qed
qed

lemma topological_order_result:
  assumes "ord_ok ord" and "acyclic (depends g)"
  shows "\<exists>xs. topological_order ord g = Some (Inr xs) \<and> distinct xs \<and> set xs = node_ids g
    \<and> topo (depends g) xs"
proof (cases "graph_ids g = []")
  case True
  then have "topological_order ord g = Some (Inr [])"
    by (simp add: topological_order_def check_dag_cycles_def)
  moreover have "node_ids g = {}" unfolding node_ids_def True by simp
  ultimately show ?thesis by simp
next
  case False
  have s: "self_loop_free g"
    using assms(2) by (auto simp: self_loop_free_def depends_def acyclic_def)
  obtain adj deg where ad: "plain_edges ord g = (adj, deg)" by (cases "plain_edges ord g")
  from plain_edges_represents[OF assms(1) s] assms(1)
  obtain xs deg' where "kahn ord adj (ready deg) deg [] = Some (xs, deg')"
    and "distinct xs" "topo (depends g) xs" "acyclic (depends g) \<longleftrightarrow> set xs = set (graph_ids g)"
    unfolding ad by (rule kahn_sorts)
  with False assms check_dag_cycles_result[OF assms(1), of g] show ?thesis
    by (simp add: topological_order_def ad node_ids_def)
qed

lemma check_unique_fold:
  "(\<exists>r. fold_res (\<lambda>i seen. if i \<in> set seen then Inl e else Inr (set_add i seen)) ids seen = Inr r)
     \<longleftrightarrow> distinct ids \<and> set ids \<inter> set seen = {}"
  by (induction ids arbitrary: seen) auto

lemma check_unique_ok: "check_unique p ids = Inr () \<longleftrightarrow> distinct ids"
  using check_unique_fold[of "ConfigError p" ids "[]"] by (simp add: check_unique_def bind_res_Inr_iff)

lemma if_Inl_ok [simp]: "(if b then Inl e else r) = Inr x \<longleftrightarrow> \<not> b \<and> r = Inr x"
  by simp

lemma check_tensor_references_ok:
  "check_tensor_references g = Inr () \<longleftrightarrow>
     (\<forall>n \<in> set (wg_nodes g). set (nd_inputs n) \<union> set (nd_outputs n) \<subseteq> tensor_ids g)
     \<and> (\<forall>t \<in> set (wg_tensors g). (ts_producer_node t = [] \<or> ts_producer_node t \<in> insert ''input'' (node_ids g))
          \<and> set (ts_consumed_by t) \<subseteq> insert ''input'' (node_ids g))"
  by (auto simp: check_tensor_references_def check_each_ok bind_res_Inr_iff tensor_ids_def node_ids_def Let_def
      subset_iff)

lemma check_alias_validity_ok:
  "check_alias_validity g = Inr () \<longleftrightarrow>
     (\<forall>t \<in> set (wg_tensors g). \<forall>a. ts_alias_of t = Some a \<longrightarrow> a = [] \<or> a \<in> tensor_ids g \<and> a \<noteq> tensor_id t)"
  by (auto simp: check_alias_validity_def check_each_ok tensor_ids_def Let_def split: option.splits if_splits)

text \<open>What a constructed graph satisfies.\<close>

definition graph_ok :: "workload_graph \<Rightarrow> bool" where
  "graph_ok g \<longleftrightarrow> wg_version g = ''1'' \<and> distinct (map node_id (wg_nodes g)) \<and> distinct (map tensor_id (wg_tensors g))
     \<and> acyclic (depends g)
     \<and> (\<forall>n \<in> set (wg_nodes g). set (nd_inputs n) \<union> set (nd_outputs n) \<subseteq> tensor_ids g)
     \<and> (\<forall>t \<in> set (wg_tensors g). (ts_producer_node t = [] \<or> ts_producer_node t \<in> insert ''input'' (node_ids g))
          \<and> set (ts_consumed_by t) \<subseteq> insert ''input'' (node_ids g)
          \<and> (\<forall>a. ts_alias_of t = Some a \<longrightarrow> a = [] \<or> a \<in> tensor_ids g \<and> a \<noteq> tensor_id t))"

lemma validate_graph_integrity_result:
  assumes "ord_ok ord"
  shows "\<exists>r. validate_graph_integrity ord g = Some r \<and> (r = Inr () \<longleftrightarrow> graph_ok (g\<lparr>wg_version := ''1''\<rparr>))"
proof -
  have "check_duplicate_ids g = Inr () \<longleftrightarrow>
      distinct (map node_id (wg_nodes g)) \<and> distinct (map tensor_id (wg_tensors g))"
    by (auto simp: check_duplicate_ids_def bind_res_Inr_iff check_unique_ok)
  moreover have "depends (g\<lparr>wg_version := ''1''\<rparr>) = depends g" "tensor_ids (g\<lparr>wg_version := ''1''\<rparr>) = tensor_ids g"
    "node_ids (g\<lparr>wg_version := ''1''\<rparr>) = node_ids g"
    by (simp_all add: depends_def data_deps_def input_edges_def control_edges_def producer_map_def
        tensor_ids_def node_ids_def)
  ultimately show ?thesis
    unfolding validate_graph_integrity_def check_dag_cycles_result[OF assms]
    by (cases "check_duplicate_ids g")
      (auto simp: graph_ok_def bind_res_Inr_iff check_tensor_references_ok check_alias_validity_ok)
qed

lemma workload_graph_new_result:
  assumes "ord_ok ord"
  shows "workload_graph_new ord g =
    Some (if graph_ok g then Inr g else Inl (ValueError ''ValidationError''))"
proof (cases "wg_version g = ''1''")
  case True
  then have "g\<lparr>wg_version := ''1''\<rparr> = g" by (cases g) simp
  with validate_graph_integrity_result[OF assms, of g] True show ?thesis
    by (auto simp: workload_graph_new_def split: sum.splits)
next
  case False
  then show ?thesis by (simp add: workload_graph_new_def graph_ok_def)
qed

lemma find_ok: "(\<exists>x. find P xs = Some x) \<longleftrightarrow> (\<exists>x \<in> set xs. P x)"
  by (metis find_None_iff not_Some_eq)

lemma get_tensor_ok: "i \<in> tensor_ids g \<longleftrightarrow> (\<exists>t. get_tensor g i = Inr t)"
proof -
  have "(\<exists>t. get_tensor g i = Inr t) \<longleftrightarrow> (\<exists>t. find (\<lambda>t. tensor_id t = i) (wg_tensors g) = Some t)"
    by (simp add: get_tensor_def split: option.split)
  then show ?thesis by (auto simp: find_ok tensor_ids_def)
qed

lemma get_node_ok: "i \<in> node_ids g \<longleftrightarrow> (\<exists>n. get_node g i = Inr n)"
proof -
  have "(\<exists>n. get_node g i = Inr n) \<longleftrightarrow> (\<exists>n. find (\<lambda>n. node_id n = i) (wg_nodes g) = Some n)"
    by (simp add: get_node_def split: option.split)
  then show ?thesis by (auto simp: find_ok node_ids_def)
qed




definition chain_graph :: "string list \<Rightarrow> workload_graph" where
  "chain_graph deps = \<lparr>wg_version = ''1'', wg_graph_name = ''chain'',
     wg_nodes = [\<lparr>node_id = ''b'', nd_op_type = ''add'', nd_inputs = [''t''], nd_outputs = [], nd_dependencies = [],
         nd_provenance = None\<rparr>,
       \<lparr>node_id = ''a'', nd_op_type = ''add'', nd_inputs = [], nd_outputs = [''t''], nd_dependencies = deps,
         nd_provenance = None\<rparr>],
     wg_tensors = [\<lparr>tensor_id = ''t'', ts_shape = [Fixed 2], ts_precision = FP16, ts_layout = ROW_MAJOR,
         ts_bytes = 0, ts_producer_node = ''a'', ts_consumed_by = [''b''], ts_alias_of = None,
         ts_provenance = None\<rparr>], wg_symbols = []\<rparr>"

lemma chain_graph_built: "workload_graph_new rev (chain_graph []) = Some (Inr (chain_graph []))"
  by code_simp


text \<open>C22. The topological order of a constructed graph exists and is one: it lists every
  node id once, and every node comes after the producers of its inputs and after the nodes it
  names as dependencies. This holds for every order of set iteration, on construction and later.\<close>

theorem topological_order_correct:
  assumes "ord_ok ord" and "ord_ok ord'" and "workload_graph_new ord g = Some (Inr h)"
  shows "\<exists>xs. topological_order ord' h = Some (Inr xs) \<and> distinct xs \<and> set xs = node_ids h
    \<and> topo (depends h) xs"
proof -
  have "graph_ok h" using assms(3) by (auto simp: workload_graph_new_result[OF assms(1)] split: if_splits)
  then show ?thesis by (intro topological_order_result[OF assms(2)]) (simp add: graph_ok_def)
qed

theorem topological_order_correct_witness:
  "\<exists>xs. topological_order sort (chain_graph []) = Some (Inr xs) \<and> distinct xs
    \<and> set xs = node_ids (chain_graph []) \<and> topo (depends (chain_graph [])) xs"
  by (rule topological_order_correct[OF _ _ chain_graph_built]) simp_all

text \<open>A node that lists itself as a dependency waits for itself, and is accepted.\<close>

lemma self_dependency_accepted:
  "is_ok (the (workload_graph_new rev (chain_graph [''a''])))"
  by code_simp


end
