(* ===== verification/Work_Dims.thy ===== *)
theory Work_Dims
  imports Work_Graph
begin

text \<open>
  Dimension bindings (\<open>sim/workloads/dimensions.py\<close>), the operator registry
  (\<open>sim/workloads/operators.py\<close>) and the validation that runs before a graph is costed
  (\<open>sim/workloads/validate.py\<close>). Error values carry the attribute the code sets
  (\<open>dimension\<close>, \<open>op_type\<close> and \<open>node_id\<close>, \<open>field_path\<close>).
\<close>

section \<open>Dimension bindings\<close>

record dimension_bindings =
  db_request_batch :: "int option"
  db_active_sequences :: "int option"
  db_token_block :: "int option"
  db_image_count :: "int option"
  db_action_horizon :: "int option"
  db_flow_steps :: "int option"
  db_resident_models :: "int option"
  db_inflight_jobs :: "int option"
  db_extra :: "(string, int) dict"

definition canonical_fields :: "dimension_bindings \<Rightarrow> (string \<times> int option) list" where
  "canonical_fields b =
     [(''request_batch'', db_request_batch b),
      (''active_sequences'', db_active_sequences b),
      (''token_block'', db_token_block b),
      (''image_count'', db_image_count b),
      (''action_horizon'', db_action_horizon b),
      (''flow_steps'', db_flow_steps b),
      (''resident_models'', db_resident_models b),
      (''inflight_jobs'', db_inflight_jobs b)]"

definition canonical_names :: "string list" where
  "canonical_names = [''request_batch'', ''active_sequences'', ''token_block'', ''image_count'',
     ''action_horizon'', ''flow_steps'', ''resident_models'', ''inflight_jobs'']"

definition dimension_bindings_new :: "dimension_bindings \<Rightarrow> dimension_bindings result" where
  "dimension_bindings_new b =
     bind_res (check_each (\<lambda>(name, value). case value of
         None \<Rightarrow> Inr ()
       | Some v \<Rightarrow> if v \<le> 0 then Inl (ValueError (name @ '' must be positive'')) else Inr ())
       (canonical_fields b)) (\<lambda>_.
     bind_res (check_each (\<lambda>key. if key \<in> set canonical_names
         then Inl (ValueError ''shadows canonical field'') else Inr ()) (dkeys (db_extra b)))
     (\<lambda>_. Inr b))"

definition axis_map :: "dimension_bindings \<Rightarrow> (string \<times> int option) list" where
  "axis_map b =
     [(''batch'', db_request_batch b),
      (''active_sequences'', db_active_sequences b),
      (''token_block'', db_token_block b),
      (''image_count'', db_image_count b),
      (''action_horizon'', db_action_horizon b),
      (''flow_steps'', db_flow_steps b),
      (''resident_models'', db_resident_models b),
      (''inflight_jobs'', db_inflight_jobs b)]"

definition bindings_dict :: "dimension_bindings \<Rightarrow> (string, int) dict" where
  "bindings_dict b =
     fold (\<lambda>(k, v) d. AList.update k v d) (db_extra b)
       (fold (\<lambda>(k, value) d. case value of None \<Rightarrow> d | Some v \<Rightarrow> AList.update k v d) (axis_map b) [])"

definition unbound :: "dimension_bindings \<Rightarrow> string set \<Rightarrow> string set" where
  "unbound b required = required - set (dkeys (bindings_dict b))"

definition bind_dim :: "(string, int) dict \<Rightarrow> dim \<Rightarrow> dim result" where
  "bind_dim d x = (case x of
     Symbol s \<Rightarrow> (case map_of d s of
         None \<Rightarrow> Inl (DimensionBindingError s) | Some v \<Rightarrow> Inr (Fixed v))
   | Fixed n \<Rightarrow> Inr (Fixed n))"

definition apply_bindings :: "workload_graph \<Rightarrow> dimension_bindings \<Rightarrow> workload_graph result" where
  "apply_bindings g b =
     bind_res (map_result (\<lambda>t. bind_res (map_result (bind_dim (bindings_dict b)) (ts_shape t))
         (\<lambda>shape. Inr (t\<lparr>ts_shape := shape\<rparr>))) (wg_tensors g))
       (\<lambda>ts. Inr (g\<lparr>wg_tensors := ts\<rparr>))"

section \<open>Operator registry\<close>

datatype operator_disposition = MODELED | EXPLICITLY_FREE_OR_FUSED | UNSUPPORTED

record operator_entry =
  oe_op_type :: string
  oe_disposition :: operator_disposition
  oe_fused_into :: "string option"
  oe_provenance :: "provenance option"

definition operator_entry_new ::
    "string \<Rightarrow> operator_disposition \<Rightarrow> string option \<Rightarrow> provenance option \<Rightarrow> operator_entry result" where
  "operator_entry_new op d f p =
     (if blank_id op then Inl (ValueError ''op_type must not be empty'')
      else if d = EXPLICITLY_FREE_OR_FUSED \<and> (f = None \<or> f = Some [])
        then Inl (ValueError ''free/fused op must record fused_into'')
      else Inr \<lparr>oe_op_type = op, oe_disposition = d, oe_fused_into = f, oe_provenance = p\<rparr>)"

type_synonym operator_registry = "(string, operator_entry) dict"

definition modeled_op_names :: "string list" where
  "modeled_op_names = [''gemm'', ''pointwise_conv'', ''depthwise_conv'', ''softmax'', ''layernorm'',
     ''rms_norm'', ''gelu'', ''relu'', ''hard_swish'', ''hard_sigmoid'', ''global_avg_pool'',
     ''max_pool'', ''add'', ''mul'', ''matmul'', ''conv'']"

definition free_fused_op_names :: "(string \<times> string) list" where
  "free_fused_op_names = [(''reshape'', ''preceding_compute_op''), (''reduce_mean'', ''preceding_compute_op''),
     (''shape'', ''preceding_compute_op''), (''concat'', ''preceding_buffer_op''),
     (''transpose'', ''preceding_compute_op'')]"

definition unsupported_op_names :: "string list" where
  "unsupported_op_names = [''gather'', ''scatter'', ''instance_norm'', ''group_norm'', ''batch_norm'',
     ''upsample'']"

definition builtin_entry :: "operator_disposition \<Rightarrow> string option \<Rightarrow> string \<Rightarrow> string \<times> operator_entry" where
  "builtin_entry d f op = (op, \<lparr>oe_op_type = op, oe_disposition = d, oe_fused_into = f, oe_provenance = None\<rparr>)"

definition registry_new :: operator_registry where
  "registry_new = map (builtin_entry MODELED None) modeled_op_names
     @ map (\<lambda>(op, f). builtin_entry EXPLICITLY_FREE_OR_FUSED (Some f) op) free_fused_op_names
     @ map (builtin_entry UNSUPPORTED None) unsupported_op_names"

definition reg_lookup :: "operator_registry \<Rightarrow> string \<Rightarrow> operator_entry result" where
  "reg_lookup r op = bind_res
     (case map_of r op of None \<Rightarrow> operator_entry_new op UNSUPPORTED None None | Some e \<Rightarrow> Inr e)
     (\<lambda>e. if oe_disposition e = UNSUPPORTED then Inl (UnsupportedOperatorError op '''') else Inr e)"

definition reg_lookup_or_none :: "operator_registry \<Rightarrow> string \<Rightarrow> operator_entry option" where
  "reg_lookup_or_none r op = map_of r op"

definition reg_check :: "operator_registry \<Rightarrow> string \<Rightarrow> operator_disposition" where
  "reg_check r op = (case map_of r op of None \<Rightarrow> UNSUPPORTED | Some e \<Rightarrow> oe_disposition e)"

definition is_modeled :: "operator_registry \<Rightarrow> string \<Rightarrow> bool" where
  "is_modeled r op \<longleftrightarrow> reg_check r op = MODELED"

definition is_free_or_fused :: "operator_registry \<Rightarrow> string \<Rightarrow> bool" where
  "is_free_or_fused r op \<longleftrightarrow> reg_check r op = EXPLICITLY_FREE_OR_FUSED"

definition is_unsupported :: "operator_registry \<Rightarrow> string \<Rightarrow> bool" where
  "is_unsupported r op \<longleftrightarrow> reg_check r op = UNSUPPORTED"

definition ops_with :: "operator_disposition \<Rightarrow> operator_registry \<Rightarrow> string set" where
  "ops_with d r = set (map fst (filter (\<lambda>(k, v). oe_disposition v = d) r))"

definition modeled_ops :: "operator_registry \<Rightarrow> string set" where
  "modeled_ops = ops_with MODELED"

definition free_fused_ops :: "operator_registry \<Rightarrow> string set" where
  "free_fused_ops = ops_with EXPLICITLY_FREE_OR_FUSED"

definition unsupported_ops :: "operator_registry \<Rightarrow> string set" where
  "unsupported_ops = ops_with UNSUPPORTED"

definition reg_register :: "operator_entry \<Rightarrow> (operator_registry, unit) op" where
  "reg_register e =
     (if blank_id (oe_op_type e) then raise_op (ValueError ''op_type must not be empty'')
      else modify_op (AList.update (oe_op_type e) e))"

definition reg_contains :: "operator_registry \<Rightarrow> string \<Rightarrow> bool" where
  "reg_contains r op \<longleftrightarrow> din op r"

definition reg_len :: "operator_registry \<Rightarrow> nat" where
  "reg_len r = length r"

section \<open>Validation before execution\<close>

definition validate_graph_dag ::
    "(string list \<Rightarrow> string list) \<Rightarrow> workload_graph \<Rightarrow> unit result option" where
  "validate_graph_dag ord g = (case check_unique ''nodes'' (map node_id (wg_nodes g)) of
       Inl e \<Rightarrow> Some (Inl e)
     | Inr _ \<Rightarrow> (case check_unique ''tensors'' (map tensor_id (wg_tensors g)) of
         Inl e \<Rightarrow> Some (Inl e)
       | Inr _ \<Rightarrow> map_option (\<lambda>c. bind_res c (\<lambda>_. bind_res (check_tensor_references g) (\<lambda>_.
           check_alias_validity g))) (check_dag_cycles ord g)))"

definition validate_dimensions :: "workload_graph \<Rightarrow> dimension_bindings \<Rightarrow> unit result" where
  "validate_dimensions g b =
     (if shape_symbols g = [] then Inr ()
      else let missing = filter (\<lambda>s. s \<notin> set (dkeys (bindings_dict b))) (shape_symbols g)
           in if missing \<noteq> [] then Inl (DimensionBindingError (sort missing ! 0)) else Inr ())"

definition validate_operators :: "workload_graph \<Rightarrow> operator_registry \<Rightarrow> unit result" where
  "validate_operators g r = check_each (\<lambda>n.
     if reg_check r (nd_op_type n) = UNSUPPORTED
     then Inl (UnsupportedOperatorError (nd_op_type n) (node_id n)) else Inr ()) (wg_nodes g)"

definition lifetime_producers :: "workload_graph \<Rightarrow> (string, string) dict" where
  "lifetime_producers g = fold (\<lambda>t m. if ts_producer_node t \<noteq> []
     then AList.update (tensor_id t) (ts_producer_node t) m else m) (wg_tensors g) []"

definition lifetime_tensor :: "string list \<Rightarrow> tensor_spec \<Rightarrow> unit result" where
  "lifetime_tensor nids t = bind_res
     (if ts_producer_node t \<noteq> [] \<and> ts_producer_node t \<notin> set nids
      then Inl (ConfigError (''tensors.'' @ tensor_id t)) else Inr ())
     (\<lambda>_. check_each (\<lambda>c. if c \<notin> set nids then Inl (ConfigError (''tensors.'' @ tensor_id t)) else Inr ())
        (ts_consumed_by t))"

definition lifetime_node :: "string list \<Rightarrow> (string, string) dict \<Rightarrow> node_spec \<Rightarrow> unit result" where
  "lifetime_node tids producers n = bind_res
     (check_each (\<lambda>i. if i \<notin> set tids then Inl (ConfigError (''nodes.'' @ node_id n)) else Inr ()) (nd_inputs n))
     (\<lambda>_. check_each (\<lambda>i.
        if i \<notin> set tids then Inl (ConfigError (''nodes.'' @ node_id n))
        else case map_of producers i of
          None \<Rightarrow> Inr ()
        | Some p \<Rightarrow> if p \<noteq> [] \<and> p \<noteq> node_id n then Inl (ConfigError (''nodes.'' @ node_id n)) else Inr ())
        (nd_outputs n))"

definition lifetime_self_loop :: "node_spec \<Rightarrow> unit result" where
  "lifetime_self_loop n = check_each (\<lambda>i.
     if i \<in> set (nd_inputs n) then Inl (ConfigError (''nodes.'' @ node_id n)) else Inr ()) (nd_outputs n)"

definition validate_tensor_lifetime :: "workload_graph \<Rightarrow> unit result" where
  "validate_tensor_lifetime g = (let nids = set_add ''input'' (graph_ids g); tids = graph_tensor_ids g in
     bind_res (check_each (lifetime_tensor nids) (wg_tensors g)) (\<lambda>_.
     bind_res (check_each (lifetime_node tids (lifetime_producers g)) (wg_nodes g)) (\<lambda>_.
       check_each lifetime_self_loop (wg_nodes g))))"

definition validate_all ::
    "(string list \<Rightarrow> string list) \<Rightarrow> workload_graph \<Rightarrow> dimension_bindings \<Rightarrow> operator_registry
     \<Rightarrow> unit result option" where
  "validate_all ord g b r = map_option (\<lambda>c. bind_res c (\<lambda>_. bind_res (validate_dimensions g b) (\<lambda>_.
     bind_res (validate_operators g r) (\<lambda>_. validate_tensor_lifetime g)))) (validate_graph_dag ord g)"

section \<open>Lemmas\<close>

text \<open>The validator of a graph and the construction of a graph check the same.\<close>

lemma validate_graph_dag_eq: "validate_graph_dag ord g = validate_graph_integrity ord g"
  by (simp add: validate_graph_dag_def validate_graph_integrity_def check_duplicate_ids_def bind_res_def
      split: sum.splits)

lemma validate_dimensions_ok:
  "validate_dimensions g b = Inr () \<longleftrightarrow> set (shape_symbols g) \<subseteq> set (dkeys (bindings_dict b))"
  by (auto simp: validate_dimensions_def Let_def filter_empty_conv)

lemma symbol_in_shapes:
  "t \<in> set (wg_tensors g) \<Longrightarrow> Symbol s \<in> set (ts_shape t) \<Longrightarrow> s \<in> set (shape_symbols g)"
  by (force simp: shape_symbols_def)

lemma shape_symbols_exact:
  "s \<in> set (shape_symbols g) \<longleftrightarrow> (\<exists>t \<in> set (wg_tensors g). Symbol s \<in> set (ts_shape t))"
  by (force simp: shape_symbols_def split: dim.splits)

definition subst_dim :: "(string, int) dict \<Rightarrow> dim \<Rightarrow> dim" where
  "subst_dim d x = (case x of Symbol s \<Rightarrow> Fixed (dget d s 0) | Fixed n \<Rightarrow> Fixed n)"

lemma bind_dim_ok:
  "(\<forall>s. x = Symbol s \<longrightarrow> s \<in> set (dkeys d)) \<Longrightarrow> bind_dim d x = Inr (subst_dim d x)"
  by (cases x) (auto simp: bind_dim_def subst_dim_def dget_def map_of_eq_None_iff split: option.splits)

lemma apply_bindings_ok:
  assumes "set (shape_symbols g) \<subseteq> set (dkeys (bindings_dict b))"
  shows "apply_bindings g b = Inr (g\<lparr>wg_tensors :=
    map (\<lambda>t. t\<lparr>ts_shape := map (subst_dim (bindings_dict b)) (ts_shape t)\<rparr>) (wg_tensors g)\<rparr>)"
proof -
  have "map_result (bind_dim (bindings_dict b)) (ts_shape t)
      = Inr (map (subst_dim (bindings_dict b)) (ts_shape t))" if "t \<in> set (wg_tensors g)" for t
    using assms symbol_in_shapes[OF that] by (intro map_result_total bind_dim_ok) blast
  then have "map_result (\<lambda>t. bind_res (map_result (bind_dim (bindings_dict b)) (ts_shape t))
        (\<lambda>shape. Inr (t\<lparr>ts_shape := shape\<rparr>))) (wg_tensors g)
      = Inr (map (\<lambda>t. t\<lparr>ts_shape := map (subst_dim (bindings_dict b)) (ts_shape t)\<rparr>) (wg_tensors g))"
    by (intro map_result_total) simp
  then show ?thesis by (simp add: apply_bindings_def)
qed

lemma map_result_Inl:
  "x \<in> set xs \<Longrightarrow> f x = Inl e \<Longrightarrow> \<exists>e'. map_result f xs = Inl e'"
  by (induction xs) (auto simp: bind_res_def split: sum.splits)

lemma apply_bindings_fails:
  assumes "\<not> set (shape_symbols g) \<subseteq> set (dkeys (bindings_dict b))"
  shows "\<exists>e. apply_bindings g b = Inl e"
proof -
  obtain t s where t: "t \<in> set (wg_tensors g)" "Symbol s \<in> set (ts_shape t)"
      and s: "s \<notin> set (dkeys (bindings_dict b))"
    using assms by (auto simp: shape_symbols_exact subset_iff)
  have "bind_dim (bindings_dict b) (Symbol s) = Inl (DimensionBindingError s)"
    using s by (simp add: bind_dim_def map_of_eq_None_iff split: option.splits)
  with t(2) obtain e where "map_result (bind_dim (bindings_dict b)) (ts_shape t) = Inl e"
    by (metis map_result_Inl)
  then have "bind_res (map_result (bind_dim (bindings_dict b)) (ts_shape t))
      (\<lambda>shape. Inr (t\<lparr>ts_shape := shape\<rparr>)) = Inl e" by simp
  from map_result_Inl[where f = "\<lambda>t. bind_res (map_result (bind_dim (bindings_dict b)) (ts_shape t))
      (\<lambda>shape. Inr (t\<lparr>ts_shape := shape\<rparr>))", OF t(1) this]
  show ?thesis by (auto simp: apply_bindings_def)
qed

lemma bound_graph_has_no_symbols:
  assumes "apply_bindings g b = Inr h"
  shows "\<not> has_symbolic_shapes h" and "wg_nodes h = wg_nodes g" and "tensor_ids h = tensor_ids g"
    and "depends h = depends g"
proof -
  have "set (shape_symbols g) \<subseteq> set (dkeys (bindings_dict b))"
    using apply_bindings_fails[of g b] assms by (metis sum.distinct(1))
  note h = apply_bindings_ok[OF this]
  with assms have h: "h = g\<lparr>wg_tensors :=
    map (\<lambda>t. t\<lparr>ts_shape := map (subst_dim (bindings_dict b)) (ts_shape t)\<rparr>) (wg_tensors g)\<rparr>" by simp
  show "\<not> has_symbolic_shapes h"
    by (auto simp: h has_symbolic_shapes_def list_ex_iff subst_dim_def split: dim.splits)
  show n: "wg_nodes h = wg_nodes g" by (simp add: h)
  show "tensor_ids h = tensor_ids g" by (simp add: h tensor_ids_def)
  have "producer_map h = producer_map g" by (simp add: h producer_map_def fold_map comp_def cong: if_cong)
  then show "depends h = depends g"
    by (simp add: depends_def data_deps_def input_edges_def control_edges_def n)
qed

lemma validate_operators_ok:
  "validate_operators g r = Inr () \<longleftrightarrow> (\<forall>n \<in> set (wg_nodes g). reg_check r (nd_op_type n) \<noteq> UNSUPPORTED)"
  by (auto simp: validate_operators_def check_each_ok)

lemma reg_check_lookup:
  "reg_check r op \<noteq> UNSUPPORTED \<longleftrightarrow> (\<exists>e. reg_lookup r op = Inr e)"
  by (auto simp: reg_check_def reg_lookup_def operator_entry_new_def bind_res_Inr_iff
      split: option.splits if_splits)

lemma graph_ok_acyclic: "graph_ok g \<Longrightarrow> acyclic (depends g)"
  by (simp add: graph_ok_def)


lemma is_symbol_iff: "(case d of Symbol _ \<Rightarrow> True | Fixed _ \<Rightarrow> False) \<longleftrightarrow> (\<exists>s. d = Symbol s)"
  by (cases d) simp_all

lemma has_symbolic_iff: "has_symbolic_shapes g \<longleftrightarrow> shape_symbols g \<noteq> []"
proof -
  have "shape_symbols g \<noteq> [] \<longleftrightarrow> (\<exists>s. s \<in> set (shape_symbols g))" by (cases "shape_symbols g") auto
  then show ?thesis unfolding shape_symbols_exact has_symbolic_shapes_def list_ex_iff is_symbol_iff by blast
qed

text \<open>Three places decide whether a graph is bound, and they agree:
  \<open>validate_dimensions\<close> accepts, \<open>apply_bindings\<close> returns, and no symbolic name of the graph is
  missing in \<open>DimensionBindings.unbound\<close>. When they accept, the bound graph has no symbolic
  dimension left and the same nodes, tensor ids and dependencies as before.\<close>

theorem dimension_checks_agree:
  "(validate_dimensions g b = Inr ()) = (unbound b (unbound_symbols g None) = {})
   \<and> is_ok (apply_bindings g b) = (unbound b (unbound_symbols g None) = {})
   \<and> (if is_ok (apply_bindings g b)
      then (case apply_bindings g b of Inl _ \<Rightarrow> False
        | Inr h \<Rightarrow> \<not> has_symbolic_shapes h \<and> wg_nodes h = wg_nodes g
            \<and> tensor_ids h = tensor_ids g \<and> depends h = depends g)
      else has_symbolic_shapes g)"
proof -
  have u: "unbound b (unbound_symbols g None) = {} \<longleftrightarrow> set (shape_symbols g) \<subseteq> set (dkeys (bindings_dict b))"
    by (simp add: unbound_def unbound_symbols_def)
  have ok: "is_ok (apply_bindings g b) = (unbound b (unbound_symbols g None) = {})"
    unfolding u using apply_bindings_ok[of g b] apply_bindings_fails[of g b] by fastforce
  moreover have "(validate_dimensions g b = Inr ()) = (unbound b (unbound_symbols g None) = {})"
    by (simp add: validate_dimensions_ok u)
  moreover have "has_symbolic_shapes g" if "\<not> is_ok (apply_bindings g b)"
    using that unfolding ok u has_symbolic_iff by auto
  ultimately show ?thesis
    using bound_graph_has_no_symbols[of g b] by (cases "apply_bindings g b") auto
qed

text \<open>A two-layer example with a symbolic batch, used as the concrete input below.\<close>

definition demo_tensor :: "string \<Rightarrow> dim list \<Rightarrow> string \<Rightarrow> string list \<Rightarrow> tensor_spec" where
  "demo_tensor i shape p cs = \<lparr>tensor_id = i, ts_shape = shape, ts_precision = FP16, ts_layout = ROW_MAJOR,
     ts_bytes = 0, ts_producer_node = p, ts_consumed_by = cs, ts_alias_of = None, ts_provenance = None\<rparr>"

definition demo_node :: "string \<Rightarrow> string \<Rightarrow> string list \<Rightarrow> string list \<Rightarrow> string list \<Rightarrow> node_spec" where
  "demo_node i op ins outs deps = \<lparr>node_id = i, nd_op_type = op, nd_inputs = ins, nd_outputs = outs,
     nd_dependencies = deps, nd_provenance = None\<rparr>"

definition demo_graph :: workload_graph where
  "demo_graph = \<lparr>wg_version = ''1'', wg_graph_name = ''demo'',
     wg_nodes = [demo_node ''s'' ''softmax'' [''h''] [''y''] [], demo_node ''g'' ''gemm'' [''x''] [''h''] []],
     wg_tensors = [demo_tensor ''x'' [Symbol ''batch'', Fixed 4] ''input'' [''g''],
       demo_tensor ''h'' [Symbol ''batch'', Fixed 8] ''g'' [''s''], demo_tensor ''y'' [Fixed 8] ''s'' []],
     wg_symbols = []\<rparr>"

definition demo_bindings :: dimension_bindings where
  "demo_bindings = \<lparr>db_request_batch = Some 2, db_active_sequences = None, db_token_block = None,
     db_image_count = None, db_action_horizon = None, db_flow_steps = None, db_resident_models = None,
     db_inflight_jobs = None, db_extra = []\<rparr>"

lemma demo_valid: "validate_all rev demo_graph demo_bindings registry_new = Some (Inr ())"
  by code_simp

lemma validate_all_ok:
  assumes "ord_ok ord"
  shows "validate_all ord g b r = Some (Inr ()) \<longleftrightarrow> graph_ok (g\<lparr>wg_version := ''1''\<rparr>)
    \<and> validate_dimensions g b = Inr () \<and> validate_operators g r = Inr () \<and> validate_tensor_lifetime g = Inr ()"
  using validate_graph_integrity_result[OF assms, of g]
  by (auto simp: validate_all_def validate_graph_dag_eq bind_res_Inr_iff)

text \<open>C23. A graph that passes \<open>validate_all\<close> can be run: binding its dimensions returns a
  graph without symbolic shapes, the topological order of that graph exists, lists every node once
  and puts each node behind everything it depends on, and the registry returns an entry for every
  operator. The order in which sets are iterated does not matter.\<close>

theorem validated_graph_runs:
  assumes "ord_ok ord" and "ord_ok ord'" and "validate_all ord g b r = Some (Inr ())"
  shows "\<exists>h xs. apply_bindings g b = Inr h \<and> \<not> has_symbolic_shapes h
    \<and> topological_order ord' h = Some (Inr xs) \<and> distinct xs \<and> set xs = node_ids g \<and> topo (depends g) xs
    \<and> (\<forall>n \<in> set (wg_nodes h). \<exists>e. reg_lookup r (nd_op_type n) = Inr e)"
proof -
  from assms(3) have v: "graph_ok (g\<lparr>wg_version := ''1''\<rparr>)" "validate_dimensions g b = Inr ()"
      "validate_operators g r = Inr ()"
    by (simp_all add: validate_all_ok[OF assms(1)])
  from v(2) obtain h where h: "apply_bindings g b = Inr h"
    using apply_bindings_ok by (auto simp: validate_dimensions_ok)
  note keep = bound_graph_has_no_symbols[OF h]
  have "depends (g\<lparr>wg_version := ''1''\<rparr>) = depends g"
    by (simp add: depends_def data_deps_def input_edges_def control_edges_def producer_map_def)
  with graph_ok_acyclic[OF v(1)] have "acyclic (depends h)" by (simp add: keep)
  from topological_order_result[OF assms(2) this] h keep v(3) show ?thesis
    by (auto simp: node_ids_def validate_operators_ok reg_check_lookup)
qed

theorem validated_graph_runs_witness:
  "\<exists>h xs. apply_bindings demo_graph demo_bindings = Inr h \<and> \<not> has_symbolic_shapes h
    \<and> topological_order sort h = Some (Inr xs) \<and> distinct xs \<and> set xs = node_ids demo_graph
    \<and> topo (depends demo_graph) xs
    \<and> list_all (\<lambda>n. \<exists>e. reg_lookup registry_new (nd_op_type n) = Inr e) (wg_nodes h)"
  unfolding list_all_iff by (rule validated_graph_runs[OF _ _ demo_valid]) simp_all

text \<open>The registry is fail-closed: looking an operator up returns an entry exactly when
  \<open>check\<close> does not say unsupported, an operator that is not registered raises, and a fresh registry
  serves exactly its modelled and its free or fused operators.\<close>

theorem registry_fail_closed:
  "(\<exists>e. reg_lookup r op = Inr e) = (is_modeled r op \<or> is_free_or_fused r op)
   \<and> (case map_of r op of Some _ \<Rightarrow> True | None \<Rightarrow> is_unsupported r op \<and> reg_lookup r op
        = Inl (if blank_id op then ValueError ''op_type must not be empty'' else UnsupportedOperatorError op []))
   \<and> (\<exists>e. reg_lookup registry_new op = Inr e)
        = (op \<in> set modeled_op_names \<union> set (map fst free_fused_op_names))"
proof (intro conjI)
  show "(\<exists>e. reg_lookup r op = Inr e) = (is_modeled r op \<or> is_free_or_fused r op)"
    unfolding reg_check_lookup[symmetric] is_modeled_def is_free_or_fused_def by (cases "reg_check r op") auto
  show "case map_of r op of Some _ \<Rightarrow> True | None \<Rightarrow> is_unsupported r op \<and> reg_lookup r op
        = Inl (if blank_id op then ValueError ''op_type must not be empty'' else UnsupportedOperatorError op [])"
    by (simp add: is_unsupported_def reg_check_def reg_lookup_def operator_entry_new_def split: option.split)
next
  have "map_of (map (builtin_entry d f) ops) op = (if op \<in> set ops then
      Some \<lparr>oe_op_type = op, oe_disposition = d, oe_fused_into = f, oe_provenance = None\<rparr> else None)" for d f ops
    by (induction ops) (auto simp: builtin_entry_def)
  note b = this
  have c: "oe_disposition e = EXPLICITLY_FREE_OR_FUSED \<and> op \<in> fst ` set ops"
    if "map_of (map (\<lambda>(op, f). builtin_entry EXPLICITLY_FREE_OR_FUSED (Some f) op) ops) op = Some e" for ops e
    using that by (induction ops) (auto simp: builtin_entry_def split: if_splits)
  have c': "map_of (map (\<lambda>(op, f). builtin_entry EXPLICITLY_FREE_OR_FUSED (Some f) op) ops) op = None
      \<longleftrightarrow> op \<notin> fst ` set ops" for ops
    by (induction ops) (auto simp: builtin_entry_def)
  have "set unsupported_op_names \<inter> (set modeled_op_names \<union> fst ` set free_fused_op_names) = {}"
    by code_simp
  then show "(\<exists>e. reg_lookup registry_new op = Inr e)
        = (op \<in> set modeled_op_names \<union> set (map fst free_fused_op_names))"
    unfolding reg_check_lookup[symmetric]
    using c[of free_fused_op_names] c'[of free_fused_op_names]
    by (auto simp: reg_check_def registry_new_def map_add_def b split: option.splits if_splits)
qed

lemma register_then_check:
  "\<not> blank_id (oe_op_type e) \<Longrightarrow> reg_check (snd (reg_register e r)) (oe_op_type e) = oe_disposition e"
  by (simp add: reg_register_def op_simps reg_check_def dict_simps)

text \<open>An \<open>extra\<close> binding of an axis name is not rejected and overrides the canonical field.\<close>

lemma extra_overrides_axis:
  "let b = demo_bindings\<lparr>db_extra := [(''batch'', 7)]\<rparr>
   in dimension_bindings_new b = Inr b \<and> map_of (bindings_dict b) ''batch'' = Some 7"
  by code_simp


end
