(* ===== verification/Mem_Hierarchy.thy ===== *)
theory Mem_Hierarchy
  imports Py_Float Py_Text
begin

text \<open>
  Memory tiers, \<open>sim/models/memory_hierarchy.py\<close>: the tier with its field constraints, the
  reserve and alignment arithmetic, the ordered hierarchy and its construction from a
  configuration. Bandwidths and fractions are binary64 values; a configuration section is the
  dict of its numeric entries.
\<close>

definition supported_tier_names :: "string list" where
  "supported_tier_names = [''sram'', ''on_chip_3d_dram'', ''lpddr5'', ''lpddr5x'', ''hbm2e'', ''hbm3'']"

definition external_tier_names :: "string list" where
  "external_tier_names = [''lpddr5'', ''lpddr5x'', ''hbm2e'', ''hbm3'']"

definition align_up :: "int \<Rightarrow> int \<Rightarrow> int result" where
  "align_up value alignment =
     (if alignment \<le> 0 then Inl (ValueError ''alignment must be positive'')
      else Inr ((value + alignment - 1) div alignment * alignment))"

record memory_tier =
  mt_name :: string
  mt_capacity_bytes :: int
  mt_read_bw_gbps :: rat
  mt_write_bw_gbps :: rat
  mt_read_latency_cycles :: int
  mt_write_latency_cycles :: int
  mt_alignment_bytes :: int
  mt_reserve_fraction :: rat
  mt_read_efficiency :: rat
  mt_write_efficiency :: rat

definition unit_interval :: "rat \<Rightarrow> bool" where
  "unit_interval x \<longleftrightarrow> 0 \<le> x \<and> x \<le> 1"

definition memory_tier_new :: "memory_tier \<Rightarrow> memory_tier result" where
  "memory_tier_new t =
     (if mt_name t \<in> set supported_tier_names \<and> 0 \<le> mt_capacity_bytes t
         \<and> 0 < mt_read_bw_gbps t \<and> 0 < mt_write_bw_gbps t
         \<and> 0 \<le> mt_read_latency_cycles t \<and> 0 \<le> mt_write_latency_cycles t
         \<and> 1 \<le> mt_alignment_bytes t \<and> unit_interval (mt_reserve_fraction t)
         \<and> unit_interval (mt_read_efficiency t) \<and> unit_interval (mt_write_efficiency t)
      then Inr t else Inl (ValueError ''ValidationError''))"

definition reserve_bytes :: "memory_tier \<Rightarrow> int" where
  "reserve_bytes t = py_trunc (fmul (int_to_float (mt_capacity_bytes t)) (mt_reserve_fraction t))"

definition usable_bytes :: "memory_tier \<Rightarrow> int" where
  "usable_bytes t = max 0 (mt_capacity_bytes t - reserve_bytes t)"

definition tier_align :: "memory_tier \<Rightarrow> int \<Rightarrow> int result" where
  "tier_align t n = align_up n (mt_alignment_bytes t)"

definition effective_read_bw_gbps :: "memory_tier \<Rightarrow> rat" where
  "effective_read_bw_gbps t = fmul (mt_read_bw_gbps t) (mt_read_efficiency t)"

definition effective_write_bw_gbps :: "memory_tier \<Rightarrow> rat" where
  "effective_write_bw_gbps t = fmul (mt_write_bw_gbps t) (mt_write_efficiency t)"

record memory_hierarchy =
  mh_tiers :: "memory_tier list"
  mh_default_alignment_bytes :: int

definition memory_hierarchy_new :: "memory_hierarchy \<Rightarrow> memory_hierarchy result" where
  "memory_hierarchy_new h =
     (if 1 \<le> mh_default_alignment_bytes h then Inr h else Inl (ValueError ''ValidationError''))"

definition get_tier :: "memory_hierarchy \<Rightarrow> string \<Rightarrow> memory_tier result" where
  "get_tier h n = (case find (\<lambda>t. mt_name t = n) (mh_tiers h) of
     Some t \<Rightarrow> Inr t | None \<Rightarrow> Inl (KeyError ''tier not found''))"

definition has_tier :: "memory_hierarchy \<Rightarrow> string \<Rightarrow> bool" where
  "has_tier h n = list_ex (\<lambda>t. mt_name t = n) (mh_tiers h)"

definition total_capacity_bytes :: "memory_hierarchy \<Rightarrow> int" where
  "total_capacity_bytes h = sum_list (map mt_capacity_bytes (mh_tiers h))"

definition total_usable_bytes :: "memory_hierarchy \<Rightarrow> int" where
  "total_usable_bytes h = sum_list (map usable_bytes (mh_tiers h))"

definition fastest_tier :: "memory_hierarchy \<Rightarrow> memory_tier result" where
  "fastest_tier h = (case mh_tiers h of [] \<Rightarrow> Inl (ConfigError ''hierarchy.tiers'') | t # _ \<Rightarrow> Inr t)"

definition external_tier :: "memory_hierarchy \<Rightarrow> memory_tier option" where
  "external_tier h = find (\<lambda>t. mt_name t \<in> set external_tier_names) (mh_tiers h)"

definition gb_to_bytes :: "rat \<Rightarrow> int" where
  "gb_to_bytes gb = py_trunc (fmul gb 1000000000)"

definition kb_to_bytes :: "rat \<Rightarrow> int" where
  "kb_to_bytes kb = py_trunc (fmul kb 1000)"

definition infer_external_tier_name :: "string \<Rightarrow> string" where
  "infer_external_tier_name mem_type = (let m = lower mem_type in
     if contains ''lpddr5x'' m then ''lpddr5x''
     else if contains ''lpddr5'' m then ''lpddr5''
     else if contains ''hbm3'' m then ''hbm3''
     else if contains ''hbm2e'' m \<or> contains ''hbm2'' m then ''hbm2e''
     else ''lpddr5'')"

record hierarchy_config =
  hc_sram :: "(string, rat) dict"
  hc_on_chip_memory :: "(string, rat) dict"
  hc_memory :: "(string, rat) dict"
  hc_memory_type :: "string option"

definition plain_tier :: "string \<Rightarrow> int \<Rightarrow> rat \<Rightarrow> int \<Rightarrow> rat \<Rightarrow> memory_tier result" where
  "plain_tier name cap bw latency eff = memory_tier_new
     \<lparr>mt_name = name, mt_capacity_bytes = cap, mt_read_bw_gbps = bw, mt_write_bw_gbps = bw,
      mt_read_latency_cycles = latency, mt_write_latency_cycles = latency, mt_alignment_bytes = 256,
      mt_reserve_fraction = 0, mt_read_efficiency = eff, mt_write_efficiency = eff\<rparr>"

definition build_hierarchy_from_config :: "hierarchy_config \<Rightarrow> memory_hierarchy result" where
  "build_hierarchy_from_config c =
     bind_res (if hc_sram c \<noteq> []
        then let l1_kb = fl (dget (hc_sram c) ''l1_per_core_kb'' 512);
                 l2_kb = fl (dget (hc_sram c) ''l2_shared_kb'' 2048)
             in bind_res (plain_tier ''sram'' (kb_to_bytes (fadd l1_kb l2_kb)) 1000 2 1) (\<lambda>t. Inr [t])
        else Inr []) (\<lambda>sram.
     bind_res (let onchip_gb = fl (dget (hc_on_chip_memory c) ''capacity_gb'' 0) in
        if 0 < onchip_gb
        then bind_res (plain_tier ''on_chip_3d_dram'' (gb_to_bytes onchip_gb)
               (fl (dget (hc_on_chip_memory c) ''bandwidth_gbps'' 500)) 10 1) (\<lambda>t. Inr [t])
        else Inr []) (\<lambda>onchip.
     bind_res (plain_tier
        (infer_external_tier_name (case hc_memory_type c of None \<Rightarrow> ''LPDDR5-6400'' | Some s \<Rightarrow> s))
        (gb_to_bytes (fl (dget (hc_memory c) ''capacity_gb'' 32)))
        (fl (dget (hc_memory c) ''bandwidth_gbps'' (fl (512 / 10)))) 80
        (fl (dget (hc_memory c) ''dram_efficiency'' (fl (85 / 100))))) (\<lambda>external.
     memory_hierarchy_new \<lparr>mh_tiers = sram @ onchip @ [external], mh_default_alignment_bytes = 256\<rparr>)))"

section \<open>Alignment\<close>

lemma align_up_ok: "0 < a \<Longrightarrow> align_up v a = Inr ((v + a - 1) div a * a)"
  by (simp add: align_up_def)

lemma align_up_least:
  fixes a v :: int
  assumes "0 < a"
  shows "v \<le> (v + a - 1) div a * a" and "(v + a - 1) div a * a < v + a"
proof -
  have e: "(v + a - 1) div a * a = v + a - 1 - (v + a - 1) mod a" by (simp add: minus_mod_eq_div_mult)
  have "0 \<le> (v + a - 1) mod a" "(v + a - 1) mod a < a" using assms by simp_all
  with e show "v \<le> (v + a - 1) div a * a" and "(v + a - 1) div a * a < v + a" by linarith+
qed

lemma align_up_nonneg:
  fixes a v :: int
  shows "0 < a \<Longrightarrow> 0 \<le> v \<Longrightarrow> 0 \<le> (v + a - 1) div a * a"
  using align_up_least(1)[of a v] by linarith

section \<open>The built hierarchy\<close>

lemma plain_tier_Inr:
  "plain_tier n c b l e = Inr t \<Longrightarrow> mt_name t = n \<and> mt_capacity_bytes t = c \<and> 0 \<le> c \<and> mt_reserve_fraction t = 0"
  by (auto simp: plain_tier_def memory_tier_new_def split: if_splits)

lemma no_reserve: "mt_reserve_fraction t = 0 \<Longrightarrow> reserve_bytes t = 0"
  by (simp add: reserve_bytes_def fmul_def py_trunc_def)

lemma infer_external: "infer_external_tier_name m \<in> set external_tier_names"
  by (simp add: infer_external_tier_name_def external_tier_names_def Let_def)

definition tiers_ok :: "memory_hierarchy \<Rightarrow> bool" where
  "tiers_ok h \<longleftrightarrow> distinct (map mt_name (mh_tiers h)) \<and> 1 \<le> mh_default_alignment_bytes h"

lemma built_hierarchy:
  assumes "build_hierarchy_from_config c = Inr h"
  shows "tiers_ok h" and "mh_tiers h \<noteq> []" and "\<forall>t \<in> set (mh_tiers h). reserve_bytes t = 0 \<and> 0 \<le> mt_capacity_bytes t"
proof -
  from assms obtain s oc ext where h: "h = \<lparr>mh_tiers = s @ oc @ [ext], mh_default_alignment_bytes = 256\<rparr>"
    and s: "s = [] \<or> (\<exists>t. s = [t] \<and> mt_name t = ''sram'' \<and> 0 \<le> mt_capacity_bytes t \<and> mt_reserve_fraction t = 0)"
    and oc: "oc = [] \<or> (\<exists>t. oc = [t] \<and> mt_name t = ''on_chip_3d_dram'' \<and> 0 \<le> mt_capacity_bytes t
      \<and> mt_reserve_fraction t = 0)"
    and ext: "mt_name ext \<in> set external_tier_names" "0 \<le> mt_capacity_bytes ext" "mt_reserve_fraction ext = 0"
  proof -
    from assms obtain s oc ext where
      1: "(if hc_sram c \<noteq> []
        then let l1_kb = fl (dget (hc_sram c) ''l1_per_core_kb'' 512);
                 l2_kb = fl (dget (hc_sram c) ''l2_shared_kb'' 2048)
             in bind_res (plain_tier ''sram'' (kb_to_bytes (fadd l1_kb l2_kb)) 1000 2 1) (\<lambda>t. Inr [t])
        else Inr []) = Inr s" and
      2: "(let onchip_gb = fl (dget (hc_on_chip_memory c) ''capacity_gb'' 0) in
        if 0 < onchip_gb
        then bind_res (plain_tier ''on_chip_3d_dram'' (gb_to_bytes onchip_gb)
               (fl (dget (hc_on_chip_memory c) ''bandwidth_gbps'' 500)) 10 1) (\<lambda>t. Inr [t])
        else Inr []) = Inr oc" and
      3: "plain_tier
        (infer_external_tier_name (case hc_memory_type c of None \<Rightarrow> ''LPDDR5-6400'' | Some s \<Rightarrow> s))
        (gb_to_bytes (fl (dget (hc_memory c) ''capacity_gb'' 32)))
        (fl (dget (hc_memory c) ''bandwidth_gbps'' (fl (512 / 10)))) 80
        (fl (dget (hc_memory c) ''dram_efficiency'' (fl (85 / 100)))) = Inr ext" and
      4: "h = \<lparr>mh_tiers = s @ oc @ [ext], mh_default_alignment_bytes = 256\<rparr>"
      unfolding build_hierarchy_from_config_def bind_res_Inr_iff memory_hierarchy_new_def by auto
    from 1 have s: "s = [] \<or> (\<exists>t. s = [t] \<and> mt_name t = ''sram'' \<and> 0 \<le> mt_capacity_bytes t \<and> mt_reserve_fraction t = 0)"
      by (auto simp: bind_res_Inr_iff Let_def split: if_splits dest: plain_tier_Inr)
    from 2 have oc: "oc = [] \<or> (\<exists>t. oc = [t] \<and> mt_name t = ''on_chip_3d_dram'' \<and> 0 \<le> mt_capacity_bytes t
        \<and> mt_reserve_fraction t = 0)"
      by (auto simp: bind_res_Inr_iff Let_def split: if_splits dest: plain_tier_Inr)
    from plain_tier_Inr[OF 3] infer_external
    have "mt_name ext \<in> set external_tier_names" "0 \<le> mt_capacity_bytes ext" "mt_reserve_fraction ext = 0"
      by auto
    with that[OF 4 s oc] show ?thesis .
  qed
  from ext(1) have "mt_name ext \<noteq> ''sram''" "mt_name ext \<noteq> ''on_chip_3d_dram''"
    by (auto simp: external_tier_names_def)
  with s oc show "tiers_ok h" by (auto simp: h tiers_ok_def)
  show "mh_tiers h \<noteq> []" by (simp add: h)
  show "\<forall>t \<in> set (mh_tiers h). reserve_bytes t = 0 \<and> 0 \<le> mt_capacity_bytes t"
    using s oc ext by (auto simp: h no_reserve)
qed

end
