(* ===== verification/Mem_Residency.thy ===== *)
theory Mem_Residency
  imports Work_Graph Mem_Hierarchy
begin

text \<open>
  Residency planning, \<open>sim/models/residency.py\<close>: the classification of tensors, the greedy
  placement into tiers and the memory access plan with its accounting. The SHA-256 of the
  canonical dict is the argument \<open>digest\<close>, a function of the other fields of the plan.
\<close>

section \<open>Footprints and categories\<close>

fun precision_bits :: "precision \<Rightarrow> int" where
  "precision_bits FP32 = 32"
| "precision_bits FP16 = 16"
| "precision_bits BF16 = 16"
| "precision_bits INT8 = 8"
| "precision_bits INT4 = 4"
| "precision_bits INT2 = 2"
| "precision_bits MIXED_INT8_INT4 = 4"
| "precision_bits MIXED_INT8_INT8 = 8"

fun fixed_dims :: "dim list \<Rightarrow> int list option" where
  "fixed_dims [] = Some []"
| "fixed_dims (Fixed n # ds) = map_option (\<lambda>ns. n # ns) (fixed_dims ds)"
| "fixed_dims (Symbol s # ds) = None"

definition tensor_footprint_bytes :: "tensor_spec \<Rightarrow> int" where
  "tensor_footprint_bytes t =
     (if 0 < ts_bytes t then ts_bytes t
      else case fixed_dims (ts_shape t) of
        Some ds \<Rightarrow> fold (\<lambda>d elements. elements * d) ds 1 * precision_bits (ts_precision t) div 8
      | None \<Rightarrow> 0)"

definition category_priority :: "string \<Rightarrow> int" where
  "category_priority c = dget [(''weight'', 0), (''kv'', 1), (''activation'', 2), (''scratch'', 2), (''queue'', 3)] c 2"

definition atomic_categories :: "string list" where
  "atomic_categories = [''weight'', ''kv'']"

definition classify_tensor :: "workload_graph \<Rightarrow> string \<Rightarrow> string result" where
  "classify_tensor g i = bind_res (get_tensor g i) (\<lambda>t.
     let low = lower i in
     if starts_with ''weight'' low \<or> starts_with ''param'' low then Inr ''weight''
     else let producer_op = (case get_node g (ts_producer_node t) of Inr n \<Rightarrow> lower (nd_op_type n) | Inl _ \<Rightarrow> []) in
       if contains ''kv'' low \<or> producer_op \<in> set [''kv_cache'', ''kv_load'', ''kv_store''] then Inr ''kv''
       else if contains ''queue'' low \<or> contains ''fifo'' low \<or> producer_op \<in> set [''queue'', ''fifo'']
         then Inr ''queue''
       else if producer_op \<in> set [''constant'', ''parameter'', ''weight''] then Inr ''weight''
       else Inr ''activation'')"

definition eligible_tiers :: "string \<Rightarrow> memory_hierarchy \<Rightarrow> memory_tier list" where
  "eligible_tiers category h =
     (if category = ''weight''
      then case dropWhile (\<lambda>t. mt_name t \<noteq> ''on_chip_3d_dram'') (mh_tiers h) of
        [] \<Rightarrow> mh_tiers h | t # ts \<Rightarrow> t # ts
      else mh_tiers h)"

definition validate_alias :: "workload_graph \<Rightarrow> string \<Rightarrow> unit result" where
  "validate_alias g i = bind_res (get_tensor g i) (\<lambda>t. case ts_alias_of t of
       None \<Rightarrow> Inr ()
     | Some a \<Rightarrow>
         if a = [] then Inr ()
         else case get_tensor g a of
           Inl _ \<Rightarrow> Inl (ConfigError (dotted ''tensors'' i ''alias_of''))
         | Inr target \<Rightarrow>
             if tensor_footprint_bytes target \<noteq> tensor_footprint_bytes t
             then Inl (ConfigError (dotted ''tensors'' i ''bytes'')) else Inr ())"

section \<open>Placing one tensor or queue buffer\<close>

datatype residency_state = FULL | PARTIAL | SPILL

record tensor_placement =
  tp_tensor_id :: string
  tp_category :: string
  tp_size_bytes :: int
  tp_alignment_bytes :: int
  tp_aligned_bytes :: int
  tp_replication_factor :: int
  tp_effective_bytes :: int
  tp_state :: residency_state
  tp_destination_tier :: string
  tp_spill_tier :: "string option"
  tp_full_bytes :: int
  tp_partial_bytes :: int
  tp_spill_bytes :: int
  tp_evict_bytes :: int
  tp_reload_bytes :: int
  tp_access_bytes :: int

definition tensor_placement_new :: "tensor_placement \<Rightarrow> tensor_placement result" where
  "tensor_placement_new p =
     (if 0 \<le> tp_size_bytes p \<and> 1 \<le> tp_alignment_bytes p \<and> 0 \<le> tp_aligned_bytes p
         \<and> 1 \<le> tp_replication_factor p \<and> 0 \<le> tp_effective_bytes p
         \<and> 0 \<le> tp_full_bytes p \<and> 0 \<le> tp_partial_bytes p \<and> 0 \<le> tp_spill_bytes p
         \<and> 0 \<le> tp_evict_bytes p \<and> 0 \<le> tp_reload_bytes p \<and> 0 \<le> tp_access_bytes p
      then Inr p else Inl (ValueError ''ValidationError''))"

text \<open>The bytes placed in each tier by name, and the bytes reserved in it.\<close>

type_synonym tier_bytes = "(string, int) dict"

definition tier_room :: "tier_bytes \<Rightarrow> tier_bytes \<Rightarrow> memory_tier \<Rightarrow> int" where
  "tier_room reserves alloc t = mt_capacity_bytes t - dget alloc (mt_name t) 0 - dget reserves (mt_name t) 0"

definition allocate_in :: "memory_tier \<Rightarrow> int \<Rightarrow> tier_bytes \<Rightarrow> tier_bytes" where
  "allocate_in t n alloc = AList.update (mt_name t) (dget alloc (mt_name t) 0 + n) alloc"

fun atomic_parts :: "memory_tier list \<Rightarrow> tier_bytes \<Rightarrow> tier_bytes \<Rightarrow> int \<Rightarrow> (string \<times> int) list \<times> int \<times> tier_bytes" where
  "atomic_parts [] reserves alloc effective = ([], effective, alloc)"
| "atomic_parts (t # ts) reserves alloc effective =
     (if effective \<le> tier_room reserves alloc t
      then ([(mt_name t, effective)], 0, allocate_in t effective alloc)
      else atomic_parts ts reserves alloc effective)"

fun split_parts :: "memory_tier list \<Rightarrow> tier_bytes \<Rightarrow> tier_bytes \<Rightarrow> int \<Rightarrow> (string \<times> int) list \<times> int \<times> tier_bytes" where
  "split_parts [] reserves alloc remaining = ([], remaining, alloc)"
| "split_parts (t # ts) reserves alloc remaining =
     (if remaining \<le> 0 then ([], remaining, alloc)
      else let usable = tier_room reserves alloc t in
        if usable \<le> 0 then split_parts ts reserves alloc remaining
        else let place = min remaining usable;
                 r = split_parts ts reserves (allocate_in t place alloc) (remaining - place)
             in ((mt_name t, place) # fst r, snd r))"

text \<open>How the parts are reported: state, destination, spill tier, full, partial and spilled bytes.\<close>

definition residency_of :: "int \<Rightarrow> memory_tier list \<Rightarrow> (string \<times> int) list \<Rightarrow> int
    \<Rightarrow> residency_state \<times> string \<times> string option \<times> int \<times> int \<times> int" where
  "residency_of effective eligible parts remaining = (case parts of
       [] \<Rightarrow> (SPILL, if eligible = [] then ''host'' else mt_name (List.last eligible), None, 0, 0, effective)
     | (tier, n) # rest \<Rightarrow>
         if eligible \<noteq> [] \<and> tier = mt_name (hd eligible)
         then if remaining = 0 \<and> rest = [] then (FULL, tier, None, effective, 0, 0)
              else (PARTIAL, tier, case rest of [] \<Rightarrow> None | (t2, _) # _ \<Rightarrow> Some t2, 0, n, effective - n)
         else (SPILL, tier, None, 0, 0, effective))"

definition placement_record :: "string \<Rightarrow> string \<Rightarrow> int \<Rightarrow> int \<Rightarrow> int \<Rightarrow> int
    \<Rightarrow> residency_state \<times> string \<times> string option \<times> int \<times> int \<times> int \<Rightarrow> tensor_placement" where
  "placement_record i category sz alignment aligned replication r =
     (case r of (state, destination, spill_tier, full_bytes, partial_bytes, spill_bytes) \<Rightarrow>
       let moved = (if state = PARTIAL \<or> state = SPILL then spill_bytes else 0)
       in \<lparr>tp_tensor_id = i, tp_category = category, tp_size_bytes = sz, tp_alignment_bytes = alignment,
           tp_aligned_bytes = aligned, tp_replication_factor = replication,
           tp_effective_bytes = aligned * replication, tp_state = state, tp_destination_tier = destination,
           tp_spill_tier = spill_tier, tp_full_bytes = full_bytes, tp_partial_bytes = partial_bytes,
           tp_spill_bytes = spill_bytes, tp_evict_bytes = moved, tp_reload_bytes = moved,
           tp_access_bytes = aligned * replication\<rparr>)"

definition record_parts :: "string \<Rightarrow> string \<Rightarrow> int \<Rightarrow> int \<Rightarrow> int \<Rightarrow> int \<Rightarrow> memory_tier list
    \<Rightarrow> (string \<times> int) list \<times> int \<times> tier_bytes \<Rightarrow> (tensor_placement \<times> tier_bytes) result" where
  "record_parts i category sz alignment aligned replication eligible r = (case r of (parts, remaining, alloc) \<Rightarrow>
     bind_res (tensor_placement_new (placement_record i category sz alignment aligned replication
         (residency_of (aligned * replication) eligible parts remaining)))
       (\<lambda>p. Inr (p, alloc)))"

definition placement_for_tensor :: "workload_graph \<Rightarrow> string \<Rightarrow> string \<Rightarrow> memory_hierarchy \<Rightarrow> tier_bytes
    \<Rightarrow> int \<Rightarrow> tier_bytes \<Rightarrow> (tensor_placement \<times> tier_bytes) result" where
  "placement_for_tensor g i category h reserves resident_models alloc =
     bind_res (get_tensor g i) (\<lambda>t.
     bind_res (align_up (tensor_footprint_bytes t) (mh_default_alignment_bytes h)) (\<lambda>aligned.
       let replication = (if category = ''weight'' then resident_models else 1);
           effective = aligned * replication;
           eligible = eligible_tiers category h
       in if eligible = [] then Inl (CoverageError ''no eligible tier'')
          else record_parts i category (ts_bytes t) (mh_default_alignment_bytes h) aligned replication eligible
                 ((if category \<in> set atomic_categories then atomic_parts else split_parts)
                    eligible reserves alloc effective)))"

definition queue_placement :: "memory_hierarchy \<Rightarrow> tier_bytes \<Rightarrow> string \<times> int \<Rightarrow> tier_bytes
    \<Rightarrow> (tensor_placement \<times> tier_bytes) result" where
  "queue_placement h reserves buf alloc = (case buf of (buffer_id, size_bytes) \<Rightarrow>
     if size_bytes < 0 then Inl (ConfigError (''queue_buffers.'' @ buffer_id))
     else bind_res (align_up size_bytes (mh_default_alignment_bytes h)) (\<lambda>aligned.
       let eligible = eligible_tiers ''queue'' h in
       record_parts buffer_id ''queue'' size_bytes (mh_default_alignment_bytes h) aligned 1 eligible
         (split_parts eligible reserves alloc aligned)))"

section \<open>The plan\<close>

record tier_summary =
  tu_name :: string
  tu_capacity_bytes :: int
  tu_reserve_bytes :: int
  tu_allocated_bytes :: int
  tu_free_bytes :: int
  tu_spill_in_bytes :: int
  tu_spill_out_bytes :: int

record access_stream =
  as_stream_id :: string
  as_source_tier :: string
  as_destination_tier :: string
  as_category :: string
  as_bytes :: int

record memory_access_plan =
  mp_hierarchy :: memory_hierarchy
  mp_placements :: "tensor_placement list"
  mp_tier_summaries :: "tier_summary list"
  mp_access_streams :: "access_stream list"
  mp_total_access_bytes :: tier_bytes
  mp_spill_bytes_total :: int
  mp_resident_bytes_total :: int
  mp_digest :: string

definition placements_for_category :: "memory_access_plan \<Rightarrow> string \<Rightarrow> tensor_placement list" where
  "placements_for_category p c = filter (\<lambda>x. tp_category x = c) (mp_placements p)"

definition allocated_bytes_in_tier :: "memory_access_plan \<Rightarrow> string \<Rightarrow> int" where
  "allocated_bytes_in_tier p n = (case find (\<lambda>s. tu_name s = n) (mp_tier_summaries p) of
     Some s \<Rightarrow> tu_allocated_bytes s | None \<Rightarrow> 0)"

definition spill_bytes_for_category :: "memory_access_plan \<Rightarrow> string \<Rightarrow> int" where
  "spill_bytes_for_category p c = sum_list (map tp_spill_bytes (placements_for_category p c))"

definition resident_bytes_for_category :: "memory_access_plan \<Rightarrow> string \<Rightarrow> int" where
  "resident_bytes_for_category p c =
     sum_list (map (\<lambda>x. tp_full_bytes x + tp_partial_bytes x) (placements_for_category p c))"

definition fastest_allocated_tier :: "memory_access_plan \<Rightarrow> string \<Rightarrow> string option" where
  "fastest_allocated_tier p c = map_option mt_name
     (find (\<lambda>t. mt_name t \<in> set (map tp_destination_tier (placements_for_category p c))) (mh_tiers (mp_hierarchy p)))"

definition classify_all :: "workload_graph \<Rightarrow> (string \<times> string \<times> int) list result" where
  "classify_all g = map_result (\<lambda>t. bind_res (validate_alias g (tensor_id t)) (\<lambda>_.
     bind_res (classify_tensor g (tensor_id t)) (\<lambda>c. Inr (tensor_id t, c, category_priority c)))) (wg_tensors g)"

definition declared_bytes :: "workload_graph \<Rightarrow> string \<Rightarrow> int" where
  "declared_bytes g i = (case get_tensor g i of Inr t \<Rightarrow> ts_bytes t | Inl _ \<Rightarrow> 0)"

definition sort_classified ::
    "workload_graph \<Rightarrow> (string \<times> string \<times> int) list \<Rightarrow> (string \<times> string \<times> int) list" where
  "sort_classified g = sort_key (\<lambda>(i, c, p). (p, - declared_bytes g i))"

definition collect :: "('a \<Rightarrow> tier_bytes \<Rightarrow> (tensor_placement \<times> tier_bytes) result) \<Rightarrow> 'a
    \<Rightarrow> tensor_placement list \<times> tier_bytes \<Rightarrow> (tensor_placement list \<times> tier_bytes) result" where
  "collect f x st = bind_res (f x (snd st)) (\<lambda>(p, alloc). Inr (fst st @ [p], alloc))"

record access_totals =
  at_total :: tier_bytes
  at_spill_in :: tier_bytes
  at_spill_out :: tier_bytes
  at_streams :: "access_stream list"

definition bump :: "string \<Rightarrow> int \<Rightarrow> tier_bytes \<Rightarrow> tier_bytes" where
  "bump k n d = AList.update k (dget d k 0 + n) d"

definition count_access :: "memory_hierarchy \<Rightarrow> tensor_placement \<Rightarrow> access_totals \<Rightarrow> access_totals" where
  "count_access h p a =
     (let resident = tp_full_bytes p + tp_partial_bytes p;
          a1 = (if 0 < resident then a\<lparr>at_total := bump (tp_destination_tier p) resident (at_total a)\<rparr> else a)
      in if 0 < tp_spill_bytes p
         then let spill_tier = (case tp_spill_tier p of
                    Some s \<Rightarrow> if s \<noteq> [] then s
                       else if mh_tiers h \<noteq> [] then mt_name (List.last (mh_tiers h)) else ''host''
                  | None \<Rightarrow> if mh_tiers h \<noteq> [] then mt_name (List.last (mh_tiers h)) else ''host'')
              in a1\<lparr>at_total := bump spill_tier (tp_spill_bytes p) (at_total a1),
                    at_spill_in := bump spill_tier (tp_spill_bytes p) (at_spill_in a1),
                    at_spill_out := bump (tp_destination_tier p) (tp_spill_bytes p) (at_spill_out a1),
                    at_streams := at_streams a1 @ [\<lparr>as_stream_id = tp_tensor_id p @ ''_spill'',
                      as_source_tier = tp_destination_tier p, as_destination_tier = spill_tier,
                      as_category = tp_category p, as_bytes = tp_spill_bytes p\<rparr>]\<rparr>
         else a1)"

definition build_tier_summaries ::
    "memory_hierarchy \<Rightarrow> tier_bytes \<Rightarrow> tier_bytes \<Rightarrow> tier_bytes \<Rightarrow> tier_summary list" where
  "build_tier_summaries h alloc spill_in spill_out = sort_key tu_name (map (\<lambda>t.
     \<lparr>tu_name = mt_name t, tu_capacity_bytes = mt_capacity_bytes t, tu_reserve_bytes = reserve_bytes t,
      tu_allocated_bytes = dget alloc (mt_name t) 0,
      tu_free_bytes = max 0 (mt_capacity_bytes t - reserve_bytes t - dget alloc (mt_name t) 0),
      tu_spill_in_bytes = dget spill_in (mt_name t) 0,
      tu_spill_out_bytes = dget spill_out (mt_name t) 0\<rparr>) (mh_tiers h))"

definition tier_dict :: "(memory_tier \<Rightarrow> int) \<Rightarrow> memory_hierarchy \<Rightarrow> tier_bytes" where
  "tier_dict f h = fold (\<lambda>t d. AList.update (mt_name t) (f t) d) (mh_tiers h) []"

definition place_all :: "workload_graph \<Rightarrow> memory_hierarchy \<Rightarrow> int \<Rightarrow> (string, int) dict
    \<Rightarrow> (tensor_placement list \<times> tier_bytes) result" where
  "place_all g h resident_models queue_buffers =
     (let reserves = tier_dict reserve_bytes h in
      bind_res (classify_all g) (\<lambda>classified.
      bind_res (fold_res (collect (\<lambda>(i, c, _). placement_for_tensor g i c h reserves resident_models))
          (sort_classified g classified) ([], tier_dict (\<lambda>_. 0) h))
        (fold_res (collect (queue_placement h reserves)) (sort_key fst queue_buffers))))"

definition finish_plan :: "(memory_access_plan \<Rightarrow> string) \<Rightarrow> memory_hierarchy
    \<Rightarrow> tensor_placement list \<Rightarrow> tier_bytes \<Rightarrow> memory_access_plan" where
  "finish_plan digest h placements alloc =
     (let a = fold (count_access h) placements
            \<lparr>at_total = [], at_spill_in = tier_dict (\<lambda>_. 0) h, at_spill_out = tier_dict (\<lambda>_. 0) h, at_streams = []\<rparr>;
          plan = \<lparr>mp_hierarchy = h, mp_placements = placements,
            mp_tier_summaries = build_tier_summaries h alloc (at_spill_in a) (at_spill_out a),
            mp_access_streams = at_streams a, mp_total_access_bytes = sort_key fst (at_total a),
            mp_spill_bytes_total = sum_list (map tp_spill_bytes placements),
            mp_resident_bytes_total = sum_list (map (\<lambda>p. tp_full_bytes p + tp_partial_bytes p) placements),
            mp_digest = []\<rparr>
      in plan\<lparr>mp_digest := digest plan\<rparr>)"

definition build_memory_access_plan :: "(memory_access_plan \<Rightarrow> string) \<Rightarrow> workload_graph \<Rightarrow> memory_hierarchy
    \<Rightarrow> int \<Rightarrow> (string, int) dict \<Rightarrow> bool \<Rightarrow> memory_access_plan result" where
  "build_memory_access_plan digest g h resident_models queue_buffers allow_spill =
     (if resident_models \<le> 0 then Inl (ConfigError ''resident_models'')
      else bind_res (check_each (\<lambda>t. if mt_capacity_bytes t < reserve_bytes t
          then Inl (ConfigError (dotted ''hierarchy'' (mt_name t) ''reserve_fraction'')) else Inr ()) (mh_tiers h)) (\<lambda>_.
        bind_res (place_all g h resident_models queue_buffers) (\<lambda>(unsorted, alloc).
          let placements = sort_key tp_tensor_id unsorted;
              spill_total = sum_list (map tp_spill_bytes placements)
          in if \<not> allow_spill \<and> 0 < spill_total then Inl (CoverageError ''hierarchy.capacity_bytes'')
             else Inr (finish_plan digest h placements alloc))))"

section \<open>Parts and allocations\<close>

definition in_bounds :: "memory_tier list \<Rightarrow> tier_bytes \<Rightarrow> tier_bytes \<Rightarrow> bool" where
  "in_bounds tiers reserves alloc \<longleftrightarrow>
     (\<forall>t \<in> set tiers. 0 \<le> dget alloc (mt_name t) 0 \<and> 0 \<le> tier_room reserves alloc t)"

abbreviation bytes_in :: "string \<Rightarrow> (string \<times> int) list \<Rightarrow> int" where
  "bytes_in k parts \<equiv> sum_list (map snd (filter (\<lambda>p. fst p = k) parts))"

text \<open>
  What the placement loops return for a request of \<open>n\<close> bytes: the parts and the rest add up to
  the request, the allocation grows by the parts, every part after the first is positive.
\<close>

definition parts_ok :: "int \<Rightarrow> tier_bytes \<Rightarrow> (string \<times> int) list \<Rightarrow> int \<Rightarrow> tier_bytes \<Rightarrow> bool" where
  "parts_ok n alloc parts remaining alloc' \<longleftrightarrow>
     0 \<le> remaining \<and> sum_list (map snd parts) + remaining = n
     \<and> (\<forall>p \<in> set parts. 0 \<le> snd p) \<and> (\<forall>p \<in> set (tl parts). 0 < snd p)
     \<and> (\<forall>k. dget alloc' k 0 = dget alloc k 0 + bytes_in k parts)"

lemma dget_allocate_in [simp]:
  "dget (allocate_in t n alloc) k 0 = dget alloc k 0 + (if k = mt_name t then n else 0)"
  by (simp add: allocate_in_def)

lemma allocate_in_bounds:
  assumes "in_bounds tiers reserves alloc" and "distinct (map mt_name tiers)" and "t \<in> set tiers"
    and "0 \<le> n" and "n \<le> tier_room reserves alloc t"
  shows "in_bounds tiers reserves (allocate_in t n alloc)"
proof -
  have "u = t" if "u \<in> set tiers" "mt_name u = mt_name t" for u
    using assms(2,3) that by (auto simp: distinct_map inj_on_def)
  with assms show ?thesis by (fastforce simp: in_bounds_def tier_room_def)
qed

lemma atomic_parts_ok:
  assumes "atomic_parts ts reserves alloc n = (parts, remaining, alloc')"
    and "in_bounds tiers reserves alloc" and "distinct (map mt_name tiers)" and "set ts \<subseteq> set tiers"
    and "0 \<le> n"
  shows "in_bounds tiers reserves alloc' \<and> parts_ok n alloc parts remaining alloc'
    \<and> (parts = [] \<or> remaining = 0 \<and> length parts = 1)"
  using assms
proof (induction ts)
  case Nil
  then show ?case by (auto simp: parts_ok_def)
next
  case (Cons t ts)
  show ?case
  proof (cases "n \<le> tier_room reserves alloc t")
    case True
    with Cons.prems have "parts = [(mt_name t, n)]" "remaining = 0" "alloc' = allocate_in t n alloc" by auto
    moreover have "in_bounds tiers reserves (allocate_in t n alloc)"
      using True Cons.prems by (intro allocate_in_bounds) auto
    ultimately show ?thesis using Cons.prems(5) by (auto simp: parts_ok_def)
  next
    case False
    with Cons.prems Cons.IH show ?thesis by simp
  qed
qed

lemma split_parts_ok:
  assumes "split_parts ts reserves alloc n = (parts, remaining, alloc')"
    and "in_bounds tiers reserves alloc" and "distinct (map mt_name tiers)" and "set ts \<subseteq> set tiers"
    and "0 \<le> n"
  shows "in_bounds tiers reserves alloc' \<and> parts_ok n alloc parts remaining alloc'
    \<and> (\<forall>p \<in> set parts. 0 < snd p)"
  using assms
proof (induction ts arbitrary: alloc n parts)
  case Nil
  then show ?case by (auto simp: parts_ok_def)
next
  case (Cons t ts)
  show ?case
  proof (cases "n \<le> 0 \<or> tier_room reserves alloc t \<le> 0")
    case True
    with Cons.prems Cons.IH show ?thesis by (cases "n \<le> 0") (auto simp: parts_ok_def)
  next
    case False
    define m where "m = min n (tier_room reserves alloc t)"
    have m: "0 < m" "m \<le> n" "m \<le> tier_room reserves alloc t" using False by (auto simp: m_def)
    obtain ps where r: "split_parts ts reserves (allocate_in t m alloc) (n - m) = (ps, remaining, alloc')"
      and parts: "parts = (mt_name t, m) # ps"
      using Cons.prems(1) False
      by (cases "split_parts ts reserves (allocate_in t m alloc) (n - m)") (auto simp: m_def Let_def)
    have "in_bounds tiers reserves (allocate_in t m alloc)"
      using Cons.prems m by (intro allocate_in_bounds) auto
    with Cons.IH[OF r] Cons.prems m show ?thesis by (auto simp: parts parts_ok_def)
  qed
qed

section \<open>Placements\<close>

text \<open>What every placement satisfies.\<close>

definition placement_ok :: "tensor_placement \<Rightarrow> bool" where
  "placement_ok p \<longleftrightarrow>
     0 \<le> tp_full_bytes p \<and> 0 \<le> tp_partial_bytes p \<and> 0 \<le> tp_spill_bytes p
     \<and> tp_full_bytes p + tp_partial_bytes p + tp_spill_bytes p = tp_effective_bytes p
     \<and> tp_access_bytes p = tp_effective_bytes p
     \<and> tp_effective_bytes p = tp_aligned_bytes p * tp_replication_factor p
     \<and> (tp_spill_bytes p = 0 \<longleftrightarrow> tp_state p = FULL \<or> tp_effective_bytes p = 0)
     \<and> tp_evict_bytes p = tp_spill_bytes p \<and> tp_reload_bytes p = tp_spill_bytes p"

lemma residency_of_ok:
  assumes "parts_ok n alloc parts remaining alloc'"
    and "residency_of n el parts remaining = (st, d, sp, f, q, s)"
  shows "0 \<le> f" and "0 \<le> q" and "0 \<le> s" and "f + q + s = n" and "s = 0 \<longleftrightarrow> st = FULL \<or> n = 0"
    and "f + q \<le> bytes_in d parts"
proof -
  have n0: "0 \<le> n"
  proof -
    have "0 \<le> sum_list (map snd parts)"
      using assms(1) by (intro sum_list_nonneg) (auto simp: parts_ok_def)
    with assms(1) show ?thesis by (simp add: parts_ok_def)
  qed
  have "0 \<le> f \<and> 0 \<le> q \<and> 0 \<le> s \<and> f + q + s = n \<and> (s = 0 \<longleftrightarrow> st = FULL \<or> n = 0) \<and> f + q \<le> bytes_in d parts"
  proof (cases parts)
    case Nil
    with assms n0 show ?thesis by (auto simp: residency_of_def)
  next
    case (Cons p rest)
    obtain tier m where p: "p = (tier, m)" by (cases p)
    have rest: "0 \<le> sum_list (map snd rest)" "rest \<noteq> [] \<Longrightarrow> 0 < sum_list (map snd rest)"
      and m: "0 \<le> m" "m + sum_list (map snd rest) + remaining = n" "0 \<le> remaining"
    proof -
      show 0: "0 \<le> sum_list (map snd rest)"
        using assms(1) by (intro sum_list_nonneg) (auto simp: parts_ok_def Cons)
      show "0 < sum_list (map snd rest)" if ne: "rest \<noteq> []"
      proof -
        obtain x xs where x: "rest = x # xs" using ne by (cases rest) auto
        have "0 \<le> sum_list (map snd xs)"
          using assms(1) by (intro sum_list_nonneg) (auto simp: parts_ok_def Cons x)
        moreover have "0 < snd x" using assms(1) by (simp add: parts_ok_def Cons x)
        ultimately show ?thesis by (simp add: x)
      qed
    qed (use assms(1) in \<open>auto simp: parts_ok_def Cons p\<close>)
    have own: "m \<le> bytes_in tier parts"
    proof -
      have "0 \<le> bytes_in tier rest"
        using assms(1) by (intro sum_list_nonneg) (auto simp: parts_ok_def Cons)
      then show ?thesis by (simp add: Cons p)
    qed
    have d0: "0 \<le> bytes_in d parts"
      using assms(1) by (intro sum_list_nonneg) (auto simp: parts_ok_def)
    show ?thesis
    proof (cases "el \<noteq> [] \<and> tier = mt_name (hd el)")
      case True
      show ?thesis
      proof (cases "remaining = 0 \<and> rest = []")
        case t: True
        with True assms(2) n0 m own show ?thesis by (auto simp: residency_of_def Cons p)
      next
        case f: False
        with True assms(2) have "st = PARTIAL \<and> d = tier \<and> f = 0 \<and> q = m \<and> s = n - m"
          by (auto simp: residency_of_def Cons p)
        moreover have "m < n" using f rest m by (cases "rest = []") auto
        ultimately show ?thesis using m own by auto
      qed
    next
      case False
      with assms(2) have "st = SPILL \<and> f = 0 \<and> q = 0 \<and> s = n" by (auto simp: residency_of_def Cons p)
      with n0 d0 show ?thesis by auto
    qed
  qed
  then show "0 \<le> f" and "0 \<le> q" and "0 \<le> s" and "f + q + s = n" and "s = 0 \<longleftrightarrow> st = FULL \<or> n = 0"
    and "f + q \<le> bytes_in d parts" by auto
qed

lemma placement_record_ok:
  assumes "parts_ok (aligned * rep) alloc parts remaining alloc'"
    and p_def: "p = placement_record i c sz al aligned rep (residency_of (aligned * rep) el parts remaining)"
  shows "placement_ok p" and "tp_full_bytes p + tp_partial_bytes p \<le> bytes_in (tp_destination_tier p) parts"
    and "tp_tensor_id p = i" and "tp_category p = c" and "tp_effective_bytes p = aligned * rep"
    and "tp_aligned_bytes p = aligned" and "tp_size_bytes p = sz" and "tp_alignment_bytes p = al"
    and "tp_replication_factor p = rep"
proof -
  obtain st d sp f q s where r: "residency_of (aligned * rep) el parts remaining = (st, d, sp, f, q, s)"
    by (metis surj_pair)
  note ok = residency_of_ok[OF assms(1) r]
  show "placement_ok p"
    using ok by (cases st) (auto simp: p_def placement_record_def r placement_ok_def Let_def)
  show "tp_full_bytes p + tp_partial_bytes p \<le> bytes_in (tp_destination_tier p) parts"
    using ok by (simp add: p_def placement_record_def r Let_def)
qed (auto simp: p_def placement_record_def Let_def split: prod.splits)

lemma eligible_subset: "set (eligible_tiers c h) \<subseteq> set (mh_tiers h)"
  by (auto simp: eligible_tiers_def split: list.splits dest: set_dropWhileD) (metis list.set_intros set_dropWhileD)+

lemma eligible_empty: "eligible_tiers c h = [] \<longleftrightarrow> mh_tiers h = []"
  by (auto simp: eligible_tiers_def split: list.splits)

text \<open>One step of either placement loop.\<close>

definition places :: "memory_hierarchy \<Rightarrow> tier_bytes \<Rightarrow> string \<Rightarrow> tier_bytes \<Rightarrow> tensor_placement \<Rightarrow> tier_bytes \<Rightarrow> bool" where
  "places h reserves i alloc p alloc' \<longleftrightarrow>
     placement_ok p \<and> tp_tensor_id p = i \<and> in_bounds (mh_tiers h) reserves alloc'
     \<and> (\<forall>k. dget alloc k 0 + (if k = tp_destination_tier p then tp_full_bytes p + tp_partial_bytes p else 0)
          \<le> dget alloc' k 0)"

lemma parts_ok_places:
  assumes "parts_ok (aligned * rep) alloc parts remaining alloc'" and "in_bounds (mh_tiers h) reserves alloc'"
  shows "places h reserves i alloc
    (placement_record i c sz al aligned rep (residency_of (aligned * rep) el parts remaining)) alloc'"
proof -
  have "0 \<le> bytes_in k parts" for k
    using assms(1) by (intro sum_list_nonneg) (auto simp: parts_ok_def)
  moreover have "dget alloc' k 0 = dget alloc k 0 + bytes_in k parts" for k
    using assms(1) by (simp add: parts_ok_def)
  ultimately show ?thesis
    using placement_record_ok[OF assms(1) refl, of i c sz al el] assms(2) by (auto simp: places_def)
qed

lemma record_parts_places:
  assumes "record_parts i c sz al aligned rep el r = Inr (p, alloc')"
    and "r = loop el reserves alloc (aligned * rep)" and "loop = atomic_parts \<or> loop = split_parts"
    and "in_bounds (mh_tiers h) reserves alloc" and "tiers_ok h" and "set el \<subseteq> set (mh_tiers h)"
  shows "places h reserves i alloc p alloc'"
proof -
  obtain parts remaining alloc2 where r: "r = (parts, remaining, alloc2)" by (cases r)
  with assms(1) have p: "p = placement_record i c sz al aligned rep (residency_of (aligned * rep) el parts remaining)"
    and al: "alloc2 = alloc'" and "0 \<le> tp_effective_bytes p"
    by (auto simp: record_parts_def bind_res_Inr_iff tensor_placement_new_def split: if_splits)
  then have n: "0 \<le> aligned * rep" by (auto simp: placement_record_def Let_def split: prod.splits)
  have d: "distinct (map mt_name (mh_tiers h))" using assms(5) by (simp add: tiers_ok_def)
  have r': "loop el reserves alloc (aligned * rep) = (parts, remaining, alloc')"
    using assms(2) r al by simp
  have "in_bounds (mh_tiers h) reserves alloc' \<and> parts_ok (aligned * rep) alloc parts remaining alloc'"
    using assms(3)
  proof
    assume l: "loop = atomic_parts"
    from atomic_parts_ok[OF r'[unfolded l] assms(4) d assms(6) n] show ?thesis by blast
  next
    assume l: "loop = split_parts"
    from split_parts_ok[OF r'[unfolded l] assms(4) d assms(6) n] show ?thesis by blast
  qed
  then show ?thesis unfolding p by (intro parts_ok_places) auto
qed

lemma placement_for_tensor_places:
  assumes "placement_for_tensor g i c h reserves rm alloc = Inr (p, alloc')"
    and "in_bounds (mh_tiers h) reserves alloc" and "tiers_ok h"
  shows "places h reserves i alloc p alloc'"
proof -
  have ne: "eligible_tiers c h \<noteq> []"
    using assms(1) by (auto simp: placement_for_tensor_def Let_def elim!: bind_res_InrE)
  let ?rep = "if c = ''weight'' then rm else 1"
  let ?loop = "if c \<in> set atomic_categories then atomic_parts else split_parts"
  obtain t :: tensor_spec and aligned where
    "record_parts i c (ts_bytes t) (mh_default_alignment_bytes h) aligned ?rep (eligible_tiers c h)
      (?loop (eligible_tiers c h) reserves alloc (aligned * ?rep)) = Inr (p, alloc')"
    using assms(1) unfolding placement_for_tensor_def Let_def if_not_P[OF ne]
    by (elim bind_res_InrE) (rule that)
  then show ?thesis
    by (rule record_parts_places[where loop = ?loop, OF _ refl _ assms(2,3) eligible_subset]) simp
qed

lemma queue_placement_places:
  assumes "queue_placement h reserves buf alloc = Inr (p, alloc')"
    and "in_bounds (mh_tiers h) reserves alloc" and "tiers_ok h"
  shows "places h reserves (fst buf) alloc p alloc'"
proof -
  obtain i sz where buf: "buf = (i, sz)" by (cases buf)
  have s: "\<not> sz < 0" using assms(1) by (auto simp: queue_placement_def buf)
  obtain aligned where
    "record_parts i ''queue'' sz (mh_default_alignment_bytes h) aligned 1 (eligible_tiers ''queue'' h)
      (split_parts (eligible_tiers ''queue'' h) reserves alloc aligned) = Inr (p, alloc')"
    using assms(1) s by (auto simp: queue_placement_def buf Let_def elim!: bind_res_InrE)
  then have "places h reserves i alloc p alloc'"
    by (rule record_parts_places[where loop = split_parts, OF _ _ _ assms(2,3) eligible_subset]) simp_all
  then show ?thesis by (simp add: buf)
qed

section \<open>The loops over tensors and buffers\<close>

definition resident_in :: "string \<Rightarrow> tensor_placement list \<Rightarrow> int" where
  "resident_in k ps = sum_list (map (\<lambda>p. if tp_destination_tier p = k
     then tp_full_bytes p + tp_partial_bytes p else 0) ps)"

lemma resident_in_append [simp]: "resident_in k (ps @ qs) = resident_in k ps + resident_in k qs"
  by (simp add: resident_in_def)

text \<open>What holds of the placements made so far and of the allocation after them.\<close>

definition plan_inv :: "memory_hierarchy \<Rightarrow> tier_bytes \<Rightarrow> tensor_placement list \<times> tier_bytes \<Rightarrow> bool" where
  "plan_inv h reserves st \<longleftrightarrow> in_bounds (mh_tiers h) reserves (snd st)
     \<and> (\<forall>p \<in> set (fst st). placement_ok p)
     \<and> (\<forall>k. resident_in k (fst st) \<le> dget (snd st) k 0)"

lemma collect_places:
  assumes "collect f x (ps, alloc) = Inr st" and "plan_inv h reserves (ps, alloc)"
    and "\<And>p alloc'. f x alloc = Inr (p, alloc') \<Longrightarrow> places h reserves i alloc p alloc'"
  shows "plan_inv h reserves st \<and> (\<exists>p. fst st = ps @ [p] \<and> tp_tensor_id p = i)"
proof -
  obtain p alloc' where f: "f x alloc = Inr (p, alloc')" and st: "st = (ps @ [p], alloc')"
    using assms(1) by (auto simp: collect_def elim!: bind_res_InrE)
  from assms(3)[OF f] have pl: "places h reserves i alloc p alloc'" .
  have "resident_in k [p] = (if k = tp_destination_tier p then tp_full_bytes p + tp_partial_bytes p else 0)" for k
    by (simp add: resident_in_def)
  then have "resident_in k (ps @ [p]) \<le> dget alloc' k 0" for k
  proof -
    have "resident_in k ps \<le> dget alloc k 0" using assms(2) by (simp add: plan_inv_def)
    moreover have "dget alloc k 0 + resident_in k [p] \<le> dget alloc' k 0"
      using pl \<open>\<And>k. resident_in k [p] = _\<close>[of k] by (simp add: places_def)
    ultimately show ?thesis by simp
  qed
  with pl assms(2) show ?thesis by (auto simp: st plan_inv_def places_def)
qed

lemma collect_loop:
  assumes "fold_res (collect f) xs st = Inr st'" and "plan_inv h reserves st"
    and "\<And>x alloc p alloc'. x \<in> set xs \<Longrightarrow> in_bounds (mh_tiers h) reserves alloc
      \<Longrightarrow> f x alloc = Inr (p, alloc') \<Longrightarrow> places h reserves (key x) alloc p alloc'"
  shows "plan_inv h reserves st' \<and> map tp_tensor_id (fst st') = map tp_tensor_id (fst st) @ map key xs"
  using assms
proof (induction xs arbitrary: st)
  case Nil
  then show ?case by simp
next
  case (Cons x xs)
  obtain ps alloc where st: "st = (ps, alloc)" by (cases st)
  from Cons.prems(1) obtain st1 where c: "collect f x (ps, alloc) = Inr st1"
    and r: "fold_res (collect f) xs st1 = Inr st'" by (auto simp: st elim!: bind_res_InrE)
  have b: "in_bounds (mh_tiers h) reserves alloc" using Cons.prems(2) by (simp add: st plan_inv_def)
  from collect_places[OF c Cons.prems(2)[unfolded st], of "key x"] Cons.prems(3)[OF _ b]
  have s1: "plan_inv h reserves st1" "\<exists>p. fst st1 = ps @ [p] \<and> tp_tensor_id p = key x" by auto
  from Cons.IH[OF r s1(1)] Cons.prems(3) s1(2) show ?case by (auto simp: st)
qed

lemma find_SomeD: "find P xs = Some u \<Longrightarrow> u \<in> set xs \<and> P u"
  by (induction xs) (auto split: if_splits)

lemma tier_dict_get:
  assumes "distinct (map mt_name (mh_tiers h))" and "t \<in> set (mh_tiers h)"
  shows "dget (tier_dict f h) (mt_name t) 0 = f t"
proof -
  have "dget (fold (\<lambda>t d. AList.update (mt_name t) (f t) d) ts d) k 0 =
      (case find (\<lambda>t. mt_name t = k) (rev ts) of Some u \<Rightarrow> f u | None \<Rightarrow> dget d k 0)" for ts d k
  proof (induction ts arbitrary: d)
    case Nil
    then show ?case by simp
  next
    case (Cons u us)
    have "find P (xs @ [u]) = (case find P xs of Some y \<Rightarrow> Some y | None \<Rightarrow> if P u then Some u else None)" for P xs
      by (induction xs) auto
    with Cons show ?case by (auto split: option.split)
  qed
  moreover have "find (\<lambda>u. mt_name u = mt_name t) (rev (mh_tiers h)) = Some t"
  proof -
    obtain u where u: "find (\<lambda>u. mt_name u = mt_name t) (rev (mh_tiers h)) = Some u"
      using find_ok[of "\<lambda>u. mt_name u = mt_name t" "rev (mh_tiers h)"] assms(2) by auto
    from find_SomeD[OF this] have "u \<in> set (mh_tiers h)" "mt_name u = mt_name t" by auto
    with assms have "u = t" by (auto simp: distinct_map inj_on_def)
    with u show ?thesis by simp
  qed
  ultimately show ?thesis by (simp add: tier_dict_def)
qed

lemma tier_dict_zero: "dget (tier_dict (\<lambda>_. 0) h) k 0 = 0"
proof -
  have "dget (fold (\<lambda>t d. AList.update (mt_name t) 0 d) ts d) k 0 = (0::int)" if "dget d k 0 = 0" for ts :: "memory_tier list" and d
    using that by (induction ts arbitrary: d) auto
  then show ?thesis by (simp add: tier_dict_def)
qed

lemma place_all_inv:
  assumes "place_all g h rm bufs = Inr (ps, alloc)" and "tiers_ok h"
    and "\<forall>t \<in> set (mh_tiers h). reserve_bytes t \<le> mt_capacity_bytes t"
  shows "plan_inv h (tier_dict reserve_bytes h) (ps, alloc)"
    and "mset (map tp_tensor_id ps) = mset (map tensor_id (wg_tensors g) @ dkeys bufs)"
proof -
  let ?res = "tier_dict reserve_bytes h"
  from assms(1) obtain cl st where cl: "classify_all g = Inr cl"
    and 1: "fold_res (collect (\<lambda>(i, c, _). placement_for_tensor g i c h ?res rm)) (sort_classified g cl)
      ([], tier_dict (\<lambda>_. 0) h) = Inr st"
    and 2: "fold_res (collect (queue_placement h ?res)) (sort_key fst bufs) st = Inr (ps, alloc)"
    unfolding place_all_def Let_def by (elim bind_res_InrE) (rule that)
  have d: "distinct (map mt_name (mh_tiers h))" using assms(2) by (simp add: tiers_ok_def)
  have init: "plan_inv h ?res ([], tier_dict (\<lambda>_. 0) h)"
    using assms(3) by (auto simp: plan_inv_def in_bounds_def tier_room_def tier_dict_zero tier_dict_get[OF d]
        resident_in_def)
  have "plan_inv h ?res st \<and> map tp_tensor_id (fst st)
      = map tp_tensor_id (fst ([] :: tensor_placement list, tier_dict (\<lambda>_. 0) h)) @ map fst (sort_classified g cl)"
    by (rule collect_loop[OF 1 init]) (auto intro: placement_for_tensor_places[OF _ _ assms(2)])
  then have s: "plan_inv h ?res st" "map tp_tensor_id (fst st) = map fst (sort_classified g cl)" by auto
  have "plan_inv h ?res (ps, alloc)
      \<and> map tp_tensor_id (fst (ps, alloc)) = map tp_tensor_id (fst st) @ map fst (sort_key fst bufs)"
    by (rule collect_loop[OF 2 s(1)]) (auto intro: queue_placement_places[OF _ _ assms(2)])
  then have e: "plan_inv h ?res (ps, alloc) \<and> map tp_tensor_id ps = map tp_tensor_id (fst st) @ map fst (sort_key fst bufs)"
    by simp
  then show "plan_inv h ?res (ps, alloc)" by blast
  have cl_ids: "map fst cl = map tensor_id (wg_tensors g)"
  proof -
    have ids: "map_result f ts = Inr cl \<Longrightarrow> (\<And>t y. f t = Inr y \<Longrightarrow> fst y = tensor_id t) \<Longrightarrow> map fst cl = map tensor_id ts"
      for f :: "tensor_spec \<Rightarrow> (string \<times> string \<times> int) result" and ts cl
      by (induction ts arbitrary: cl) (auto elim!: bind_res_InrE)
    from cl[unfolded classify_all_def] show ?thesis by (rule ids) (auto elim!: bind_res_InrE)
  qed
  have "mset (map fst (sort_classified g cl)) = mset (map fst cl)" by (simp add: sort_classified_def)
  moreover have "mset (map fst (sort_key fst bufs)) = mset (dkeys bufs)" by simp
  ultimately show "mset (map tp_tensor_id ps) = mset (map tensor_id (wg_tensors g) @ dkeys bufs)"
    using e s(2) cl_ids by (simp add: mset_append)
qed


section \<open>Accounting of accesses\<close>

abbreviation dict_sum :: "tier_bytes \<Rightarrow> int" where
  "dict_sum d \<equiv> sum_list (map snd d)"

lemma sum_bump [simp]: "dict_sum (bump k n d) = dict_sum d + n"
proof (cases "map_of d k")
  case None
  with sum_update_new[OF None, of "\<lambda>x. x"] show ?thesis by (simp add: bump_def dget_def)
next
  case (Some x)
  with sum_update_old[OF Some, of "\<lambda>x. x"] show ?thesis by (simp add: bump_def dget_def)
qed

lemma count_access_sums:
  assumes "0 \<le> tp_full_bytes p" and "0 \<le> tp_partial_bytes p" and "0 \<le> tp_spill_bytes p"
  shows "dict_sum (at_total (count_access h p a))
      = dict_sum (at_total a) + (tp_full_bytes p + tp_partial_bytes p + tp_spill_bytes p)"
    and "sum_list (map as_bytes (at_streams (count_access h p a)))
      = sum_list (map as_bytes (at_streams a)) + tp_spill_bytes p"
  using assms by (simp_all add: count_access_def Let_def)

lemma count_access_loop:
  assumes "\<forall>p \<in> set ps. placement_ok p"
  shows "dict_sum (at_total (fold (count_access h) ps a))
      = dict_sum (at_total a) + sum_list (map tp_effective_bytes ps)"
    and "sum_list (map as_bytes (at_streams (fold (count_access h) ps a)))
      = sum_list (map as_bytes (at_streams a)) + sum_list (map tp_spill_bytes ps)"
  using assms
proof (induction ps arbitrary: a)
  case Nil
  { case 1 show ?case by simp }
  { case 2 show ?case by simp }
next
  case (Cons p ps)
  have ok: "0 \<le> tp_full_bytes p" "0 \<le> tp_partial_bytes p" "0 \<le> tp_spill_bytes p"
    "tp_full_bytes p + tp_partial_bytes p + tp_spill_bytes p = tp_effective_bytes p"
    if "\<forall>q \<in> set (p # ps). placement_ok q"
    using that by (simp_all add: placement_ok_def)
  { case 1 with Cons.IH(1)[of "count_access h p a"] count_access_sums(1)[of p h a] ok[OF 1] show ?case by simp }
  { case 2 with Cons.IH(2)[of "count_access h p a"] count_access_sums(2)[of p h a] ok[OF 2] show ?case by simp }
qed

lemma sum_sort_key [simp]: "sum_list (map f (sort_key k xs)) = (sum_list (map f xs) :: int)"
  by (metis mset_map mset_sort sum_mset_sum_list)

lemma resident_in_sort [simp]: "resident_in k (sort_key f ps) = resident_in k ps"
  by (simp add: resident_in_def)

text \<open>What a returned plan is made of.\<close>

lemma plan_cases:
  assumes "build_memory_access_plan digest g h rm bufs spill = Inr plan" and "tiers_ok h"
  obtains ps alloc where "place_all g h rm bufs = Inr (ps, alloc)"
    and "plan = finish_plan digest h (sort_key tp_tensor_id ps) alloc"
    and "plan_inv h (tier_dict reserve_bytes h) (ps, alloc)"
    and "mset (map tp_tensor_id ps) = mset (map tensor_id (wg_tensors g) @ dkeys bufs)"
proof -
  have pos: "\<not> rm \<le> 0" using assms(1) by (auto simp: build_memory_access_plan_def)
  obtain ps alloc where
    check: "check_each (\<lambda>t. if mt_capacity_bytes t < reserve_bytes t
          then Inl (ConfigError (dotted ''hierarchy'' (mt_name t) ''reserve_fraction'')) else Inr ()) (mh_tiers h) = Inr ()"
    and pa: "place_all g h rm bufs = Inr (ps, alloc)"
    and plan: "plan = finish_plan digest h (sort_key tp_tensor_id ps) alloc"
    using assms(1) pos
    by (auto simp: build_memory_access_plan_def Let_def elim!: bind_res_InrE split: if_splits)
  from check have r: "\<forall>t \<in> set (mh_tiers h). reserve_bytes t \<le> mt_capacity_bytes t"
    by (auto simp: check_each_ok)
  from that[OF pa plan] place_all_inv[OF pa assms(2) r] show ?thesis by blast
qed

section \<open>Properties\<close>

definition demo_tier :: "string \<Rightarrow> int \<Rightarrow> rat \<Rightarrow> memory_tier" where
  "demo_tier n cap reserve = \<lparr>mt_name = n, mt_capacity_bytes = cap, mt_read_bw_gbps = 100, mt_write_bw_gbps = 100,
     mt_read_latency_cycles = 1, mt_write_latency_cycles = 1, mt_alignment_bytes = 256,
     mt_reserve_fraction = reserve, mt_read_efficiency = 1, mt_write_efficiency = 1\<rparr>"

definition demo_hierarchy :: memory_hierarchy where
  "demo_hierarchy = \<lparr>mh_tiers = [demo_tier ''sram'' 1024 0, demo_tier ''on_chip_3d_dram'' 1024 (1 / 2),
     demo_tier ''lpddr5'' 65536 0], mh_default_alignment_bytes = 256\<rparr>"

definition demo_memory_tensor :: "string \<Rightarrow> int \<Rightarrow> tensor_spec" where
  "demo_memory_tensor i n = \<lparr>tensor_id = i, ts_shape = [Fixed 4], ts_precision = INT8, ts_layout = ROW_MAJOR,
     ts_bytes = n, ts_producer_node = ''input'', ts_consumed_by = [], ts_alias_of = None, ts_provenance = None\<rparr>"

definition demo_memory_graph :: workload_graph where
  "demo_memory_graph = \<lparr>wg_version = ''1'', wg_graph_name = ''mem'', wg_nodes = [],
     wg_tensors = [demo_memory_tensor ''act'' 1500, demo_memory_tensor ''weight_a'' 400,
       demo_memory_tensor ''kv0'' 0], wg_symbols = []\<rparr>"

abbreviation no_digest :: "memory_access_plan \<Rightarrow> string" where
  "no_digest \<equiv> \<lambda>_. ''0''"

lemma demo_plan_built:
  "build_memory_access_plan no_digest demo_memory_graph demo_hierarchy 1 [(''q'', 100)] True
   = Inr (projr (build_memory_access_plan no_digest demo_memory_graph demo_hierarchy 1 [(''q'', 100)] True))"
proof -
  have "is_ok (build_memory_access_plan no_digest demo_memory_graph demo_hierarchy 1 [(''q'', 100)] True)"
    by code_simp
  then show ?thesis
    by (cases "build_memory_access_plan no_digest demo_memory_graph demo_hierarchy 1 [(''q'', 100)] True") simp_all
qed

lemma demo_hierarchy_ok: "tiers_ok demo_hierarchy"
  by code_simp

text \<open>C24. A plan never overcommits a tier: in every tier the allocated bytes and the reserve fit
  its capacity, the free bytes are exactly what is left, and the bytes the placements report as
  resident in a tier were allocated there. The summaries list every tier once, by name.\<close>

theorem plan_within_capacity:
  assumes "tiers_ok h" and "build_memory_access_plan digest g h rm bufs spill = Inr plan"
  shows "map tu_name (mp_tier_summaries plan) = sort (map mt_name (mh_tiers h))
    \<and> (\<forall>s \<in> set (mp_tier_summaries plan). 0 \<le> tu_allocated_bytes s
      \<and> tu_allocated_bytes s + tu_reserve_bytes s \<le> tu_capacity_bytes s
      \<and> tu_free_bytes s = tu_capacity_bytes s - tu_reserve_bytes s - tu_allocated_bytes s
      \<and> resident_in (tu_name s) (mp_placements plan) \<le> tu_allocated_bytes s)"
proof -
  from assms(2,1) obtain ps alloc where plan: "plan = finish_plan digest h (sort_key tp_tensor_id ps) alloc"
    and inv: "plan_inv h (tier_dict reserve_bytes h) (ps, alloc)" by (rule plan_cases)
  have d: "distinct (map mt_name (mh_tiers h))" using assms(1) by (simp add: tiers_ok_def)
  have bounds: "0 \<le> dget alloc (mt_name t) 0 \<and> dget alloc (mt_name t) 0 + reserve_bytes t \<le> mt_capacity_bytes t"
    if "t \<in> set (mh_tiers h)" for t
    using inv that by (fastforce simp: plan_inv_def in_bounds_def tier_room_def tier_dict_get[OF d that])
  have res: "resident_in k ps \<le> dget alloc k 0" for k using inv by (simp add: plan_inv_def)
  have names: "map tu_name (sort_key tu_name xs) = sort (map tu_name xs)" for xs :: "tier_summary list"
    by (rule properties_for_sort[symmetric]) simp_all
  show ?thesis
    using bounds res by (fastforce simp: plan finish_plan_def build_tier_summaries_def Let_def names comp_def)
qed

theorem plan_within_capacity_witness:
  "list_all (\<lambda>s. tu_allocated_bytes s + tu_reserve_bytes s \<le> tu_capacity_bytes s)
     (mp_tier_summaries (projr (build_memory_access_plan no_digest demo_memory_graph demo_hierarchy 1
        [(''q'', 100)] True)))"
  using plan_within_capacity[OF demo_hierarchy_ok demo_plan_built] unfolding list_all_iff by blast






subsection \<open>When a plan exists\<close>

definition tensor_ok :: "tensor_spec \<Rightarrow> bool" where
  "tensor_ok t \<longleftrightarrow> 0 \<le> ts_bytes t \<and> (\<forall>d \<in> set (ts_shape t). case d of Fixed n \<Rightarrow> 0 < n | Symbol _ \<Rightarrow> True)"

lemma footprint_nonneg:
  assumes "tensor_ok t"
  shows "0 \<le> tensor_footprint_bytes t"
proof -
  have pos: "\<forall>n \<in> set ds. 0 < n" if "fixed_dims shape = Some ds"
      and "\<forall>d \<in> set shape. case d of Fixed n \<Rightarrow> 0 < n | Symbol _ \<Rightarrow> True" for shape ds
    using that by (induction shape arbitrary: ds rule: fixed_dims.induct) auto
  have fold: "0 \<le> fold (\<lambda>d elements. elements * d) ds k" if "\<forall>n \<in> set ds. 0 < n" and "0 \<le> k" for ds and k :: int
    using that by (induction ds arbitrary: k) auto
  have bits: "0 \<le> precision_bits p" for p by (cases p) simp_all
  show ?thesis
  proof (cases "fixed_dims (ts_shape t)")
    case (Some ds)
    with assms have "0 \<le> fold (\<lambda>d elements. elements * d) ds 1"
      by (intro fold pos[of "ts_shape t"]) (simp_all add: tensor_ok_def)
    then have "0 \<le> fold (\<lambda>d elements. elements * d) ds 1 * precision_bits (ts_precision t)"
      by (rule mult_nonneg_nonneg[OF _ bits])
    with Some show ?thesis by (simp add: tensor_footprint_bytes_def pos_imp_zdiv_nonneg_iff)
  qed (simp add: tensor_footprint_bytes_def)
qed

lemma record_parts_total:
  assumes "loop = atomic_parts \<or> loop = split_parts"
    and "in_bounds (mh_tiers h) reserves alloc" and "tiers_ok h" and "set el \<subseteq> set (mh_tiers h)"
    and "0 \<le> sz" and "1 \<le> al" and "0 \<le> aligned" and "1 \<le> rep"
  shows "\<exists>p alloc'. record_parts i c sz al aligned rep el (loop el reserves alloc (aligned * rep)) = Inr (p, alloc')"
proof -
  obtain parts remaining alloc' where r: "loop el reserves alloc (aligned * rep) = (parts, remaining, alloc')"
    by (metis surj_pair)
  have d: "distinct (map mt_name (mh_tiers h))" using assms(3) by (simp add: tiers_ok_def)
  have n: "0 \<le> aligned * rep" using assms(7,8) by simp
  have "parts_ok (aligned * rep) alloc parts remaining alloc'"
    using assms(1)
  proof
    assume l: "loop = atomic_parts"
    from atomic_parts_ok[OF r[unfolded l] assms(2) d assms(4) n] show ?thesis by blast
  next
    assume l: "loop = split_parts"
    from split_parts_ok[OF r[unfolded l] assms(2) d assms(4) n] show ?thesis by blast
  qed
  from placement_record_ok[OF this refl, of i c sz al el] n assms(5-8)
  have "tensor_placement_new (placement_record i c sz al aligned rep (residency_of (aligned * rep) el parts remaining))
      = Inr (placement_record i c sz al aligned rep (residency_of (aligned * rep) el parts remaining))"
    by (simp add: tensor_placement_new_def placement_ok_def)
  then show ?thesis by (simp add: record_parts_def r)
qed

lemma collect_total:
  assumes "in_bounds (mh_tiers h) reserves alloc"
    and "\<And>x alloc. x \<in> set xs \<Longrightarrow> in_bounds (mh_tiers h) reserves alloc
      \<Longrightarrow> \<exists>p alloc'. f x alloc = Inr (p, alloc') \<and> in_bounds (mh_tiers h) reserves alloc'"
  shows "\<exists>ps' alloc'. fold_res (collect f) xs (ps, alloc) = Inr (ps', alloc') \<and> in_bounds (mh_tiers h) reserves alloc'"
  using assms
proof (induction xs arbitrary: ps alloc)
  case Nil
  then show ?case by simp
next
  case (Cons x xs)
  from Cons.prems(2)[OF _ Cons.prems(1), of x] obtain p alloc' where
    "f x alloc = Inr (p, alloc')" and b: "in_bounds (mh_tiers h) reserves alloc'" by auto
  then have "collect f x (ps, alloc) = Inr (ps @ [p], alloc')" by (simp add: collect_def)
  moreover from Cons.IH[OF b] Cons.prems(2)
  have "\<exists>ps' al. fold_res (collect f) xs (ps @ [p], alloc') = Inr (ps', al) \<and> in_bounds (mh_tiers h) reserves al"
    by (meson list.set_intros(2))
  ultimately show ?case by simp
qed

lemma placement_for_tensor_total:
  assumes "get_tensor g i = Inr t" and "tensor_ok t" and "tiers_ok h" and "mh_tiers h \<noteq> []" and "0 < rm"
    and b: "in_bounds (mh_tiers h) reserves alloc"
  shows "\<exists>p alloc'. placement_for_tensor g i c h reserves rm alloc = Inr (p, alloc')
    \<and> in_bounds (mh_tiers h) reserves alloc'"
proof -
  let ?rep = "if c = ''weight'' then rm else 1"
  let ?loop = "if c \<in> set atomic_categories then atomic_parts else split_parts"
  have a: "0 < mh_default_alignment_bytes h" using assms(3) by (simp add: tiers_ok_def)
  define aligned where "aligned = (tensor_footprint_bytes t + mh_default_alignment_bytes h - 1)
      div mh_default_alignment_bytes h * mh_default_alignment_bytes h"
  have "0 \<le> aligned" unfolding aligned_def by (rule align_up_nonneg[OF a footprint_nonneg[OF assms(2)]])
  then have "\<exists>p alloc'. record_parts i c (ts_bytes t) (mh_default_alignment_bytes h) aligned ?rep
      (eligible_tiers c h) (?loop (eligible_tiers c h) reserves alloc (aligned * ?rep)) = Inr (p, alloc')"
    using assms(2,5) a by (intro record_parts_total[OF _ b assms(3) eligible_subset]) (auto simp: tensor_ok_def)
  then obtain p alloc' where r: "record_parts i c (ts_bytes t) (mh_default_alignment_bytes h) aligned ?rep
      (eligible_tiers c h) (?loop (eligible_tiers c h) reserves alloc (aligned * ?rep)) = Inr (p, alloc')" by blast
  have el: "eligible_tiers c h \<noteq> []" using assms(4) by (simp add: eligible_empty)
  have p: "placement_for_tensor g i c h reserves rm alloc = Inr (p, alloc')"
    unfolding placement_for_tensor_def assms(1) bind_res_simps align_up_ok[OF a] aligned_def[symmetric] Let_def
      if_not_P[OF el] by (rule r)
  from placement_for_tensor_places[OF p b assms(3)] p show ?thesis by (auto simp: places_def)
qed

lemma queue_placement_total:
  assumes "0 \<le> snd buf" and "tiers_ok h" and b: "in_bounds (mh_tiers h) reserves alloc"
  shows "\<exists>p alloc'. queue_placement h reserves buf alloc = Inr (p, alloc') \<and> in_bounds (mh_tiers h) reserves alloc'"
proof -
  obtain i sz where buf: "buf = (i, sz)" by (cases buf)
  have a: "0 < mh_default_alignment_bytes h" using assms(2) by (simp add: tiers_ok_def)
  define aligned where "aligned = (sz + mh_default_alignment_bytes h - 1)
      div mh_default_alignment_bytes h * mh_default_alignment_bytes h"
  have "0 \<le> aligned" unfolding aligned_def using assms(1) by (intro align_up_nonneg[OF a]) (simp add: buf)
  then have "\<exists>p alloc'. record_parts i ''queue'' sz (mh_default_alignment_bytes h) aligned 1
      (eligible_tiers ''queue'' h) (split_parts (eligible_tiers ''queue'' h) reserves alloc (aligned * 1)) = Inr (p, alloc')"
    using assms(1) a by (intro record_parts_total[OF _ b assms(2) eligible_subset]) (auto simp: buf)
  then obtain p alloc' where r: "record_parts i ''queue'' sz (mh_default_alignment_bytes h) aligned 1
      (eligible_tiers ''queue'' h) (split_parts (eligible_tiers ''queue'' h) reserves alloc aligned) = Inr (p, alloc')"
    by auto
  have "\<not> sz < 0" using assms(1) by (simp add: buf)
  then have p: "queue_placement h reserves buf alloc = Inr (p, alloc')"
    by (simp add: queue_placement_def buf align_up_ok[OF a] aligned_def[symmetric] r)
  from queue_placement_places[OF p b assms(2)] p show ?thesis by (auto simp: places_def)
qed

lemma classify_all_total:
  assumes "\<forall>t \<in> set (wg_tensors g). validate_alias g (tensor_id t) = Inr ()"
  shows "\<exists>cl. classify_all g = Inr cl \<and> (\<forall>e \<in> set cl. fst e \<in> tensor_ids g)"
proof -
  have "\<exists>c. classify_tensor g (tensor_id t) = Inr c" if "t \<in> set (wg_tensors g)" for t
  proof -
    have "tensor_id t \<in> tensor_ids g" using that by (simp add: tensor_ids_def)
    then show ?thesis by (auto simp: get_tensor_ok classify_tensor_def Let_def)
  qed
  then have "map_result (\<lambda>t. bind_res (validate_alias g (tensor_id t)) (\<lambda>_.
     bind_res (classify_tensor g (tensor_id t)) (\<lambda>c. Inr (tensor_id t, c, category_priority c)))) (wg_tensors g)
    = Inr (map (\<lambda>t. (tensor_id t, projr (classify_tensor g (tensor_id t)),
        category_priority (projr (classify_tensor g (tensor_id t))))) (wg_tensors g))"
    using assms by (intro map_result_total) fastforce
  then show ?thesis by (auto simp: classify_all_def tensor_ids_def)
qed

text \<open>C27. The planner returns a plan for every graph whose sizes are valid and whose aliases match
  their targets, on every hierarchy with a tier, distinct tier names and reserves within the
  capacities, for non-negative queue buffers: what fits nowhere is spilled, never an error.\<close>

theorem plan_exists:
  assumes "tiers_ok h" and "mh_tiers h \<noteq> []" and "0 < rm"
    and "\<forall>t \<in> set (mh_tiers h). reserve_bytes t \<le> mt_capacity_bytes t"
    and "\<forall>t \<in> set (wg_tensors g). tensor_ok t \<and> validate_alias g (tensor_id t) = Inr ()"
    and "\<forall>n \<in> set (dvalues bufs). 0 \<le> n"
  shows "\<exists>plan. build_memory_access_plan digest g h rm bufs True = Inr plan"
proof -
  let ?res = "tier_dict reserve_bytes h"
  have d: "distinct (map mt_name (mh_tiers h))" using assms(1) by (simp add: tiers_ok_def)
  have b0: "in_bounds (mh_tiers h) ?res (tier_dict (\<lambda>_. 0) h)"
    using assms(4) by (auto simp: in_bounds_def tier_room_def tier_dict_zero tier_dict_get[OF d])
  obtain cl where cl: "classify_all g = Inr cl" "\<forall>e \<in> set cl. fst e \<in> tensor_ids g"
    using classify_all_total assms(5) by blast
  have step: "\<exists>p alloc'. (\<lambda>(i, c, _). placement_for_tensor g i c h ?res rm) x alloc = Inr (p, alloc')
      \<and> in_bounds (mh_tiers h) ?res alloc'"
    if "x \<in> set (sort_classified g cl)" and b: "in_bounds (mh_tiers h) ?res alloc" for x alloc
  proof -
    obtain i c pr where x: "x = (i, c, pr)" by (cases x)
    with that(1) cl(2) have "i \<in> tensor_ids g" by (force simp: sort_classified_def)
    then obtain t where t: "get_tensor g i = Inr t" using get_tensor_ok by blast
    then have "t \<in> set (wg_tensors g)" by (auto simp: get_tensor_def split: option.splits dest: find_SomeD)
    with assms(5) placement_for_tensor_total[OF t _ assms(1-3) b] show ?thesis by (simp add: x)
  qed
  have "\<exists>ps alloc. fold_res (collect (\<lambda>(i, c, _). placement_for_tensor g i c h ?res rm))
      (sort_classified g cl) ([], tier_dict (\<lambda>_. 0) h) = Inr (ps, alloc) \<and> in_bounds (mh_tiers h) ?res alloc"
    by (rule collect_total[OF b0]) (rule step)
  then obtain ps alloc where 1: "fold_res (collect (\<lambda>(i, c, _). placement_for_tensor g i c h ?res rm))
      (sort_classified g cl) ([], tier_dict (\<lambda>_. 0) h) = Inr (ps, alloc)" and b1: "in_bounds (mh_tiers h) ?res alloc"
    by blast
  have "0 \<le> snd x" if "x \<in> set (sort_key fst bufs)" for x using that assms(6) by auto
  then have "\<exists>ps2 alloc2. fold_res (collect (queue_placement h ?res)) (sort_key fst bufs) (ps, alloc)
      = Inr (ps2, alloc2) \<and> in_bounds (mh_tiers h) ?res alloc2"
    by (intro collect_total[OF b1] queue_placement_total[OF _ assms(1)])
  then obtain ps2 alloc2 where "fold_res (collect (queue_placement h ?res)) (sort_key fst bufs) (ps, alloc)
      = Inr (ps2, alloc2)" by blast
  with cl(1) 1 have "place_all g h rm bufs = Inr (ps2, alloc2)" by (simp add: place_all_def Let_def)
  moreover have "check_each (\<lambda>t. if mt_capacity_bytes t < reserve_bytes t
          then Inl (ConfigError (dotted ''hierarchy'' (mt_name t) ''reserve_fraction'')) else Inr ()) (mh_tiers h) = Inr ()"
    using assms(4) by (auto simp: check_each_ok)
  ultimately show ?thesis using assms(3) by (simp add: build_memory_access_plan_def Let_def)
qed

theorem plan_exists_witness:
  "\<exists>plan. build_memory_access_plan no_digest demo_memory_graph demo_hierarchy 2 [(''q'', 100)] True = Inr plan"
  by (rule plan_exists[OF demo_hierarchy_ok]) code_simp+

text \<open>The order in which the queue buffers are given does not matter: two dicts with the
  same entries give the same plan, digest included.\<close>

theorem plan_ignores_buffer_order:
  assumes "dict_ok bufs" and "mset bufs' = mset bufs"
  shows "build_memory_access_plan digest g h rm bufs' spill = build_memory_access_plan digest g h rm bufs spill"
proof -
  have d: "distinct (map fst bufs)" using assms(1) by (simp add: dict_ok_def)
  moreover have "mset (map fst bufs') = mset (map fst bufs)" using assms(2) by simp
  ultimately have d': "distinct (map fst bufs')" by (metis mset_eq_imp_distinct_iff)
  have s: "set bufs' = set bufs" using assms(2) by (metis set_mset_mset)
  have "sort_key fst bufs' = sort_key fst bufs"
  proof (rule map_sorted_distinct_set_unique[where f = fst])
    show "inj_on fst (set (sort_key fst bufs') \<union> set (sort_key fst bufs))"
      using d s by (simp add: distinct_map)
    show "distinct (map fst (sort_key fst bufs'))" "distinct (map fst (sort_key fst bufs))"
      using d d' by (simp_all add: distinct_map)
  qed (simp_all add: s)
  then show ?thesis by (simp add: build_memory_access_plan_def place_all_def)
qed

theorem plan_ignores_buffer_order_witness:
  "build_memory_access_plan no_digest demo_memory_graph demo_hierarchy 1 [(''q'', 1), (''p'', 2)] True
   = build_memory_access_plan no_digest demo_memory_graph demo_hierarchy 1 [(''p'', 2), (''q'', 1)] True"
  by (rule plan_ignores_buffer_order) simp_all


end
