(* ===== verification/Dse_Space.thy ===== *)
theory Dse_Space
  imports Py_Text
begin

text \<open>
  The design space: constraints and exclusions (\<open>sim/dse/models.py\<close>), the construction of axes
  and constraints from the configuration (\<open>sim/dse/config_loader.py\<close>) and the enumeration of
  design points in both modes (\<open>sim/dse/space.py\<close>), with the canonical engine list of
  \<open>sim/engine/registry.py\<close>.

  Axis values are of a type \<open>'v\<close> whose equality is Python's \<open>==\<close> on the values of one axis;
  a combination is a dict from axes to values. The hardware config and the digest of a point are
  the arguments \<open>hw\<close> and \<open>digest\<close> of \<open>build_point\<close>.
\<close>

section \<open>Constraints\<close>

type_synonym 'v combo = "(string, 'v) dict"
type_synonym 'v rule = "(string, 'v list) dict"

record 'v axis_spec =
  ax_name :: string
  ax_values :: "'v list"

record 'v dse_constraint =
  ct_name :: string
  ct_when :: "'v rule"
  ct_require :: "'v rule"
  ct_exclude_combinations :: "'v rule list"
  ct_reason :: string

text \<open>\<open>combo.get(axis) in allowed\<close>; a missing axis is in no value list.\<close>

definition allows :: "'v combo \<Rightarrow> string \<times> 'v list \<Rightarrow> bool" where
  "allows combo r = (case map_of combo (fst r) of None \<Rightarrow> False | Some v \<Rightarrow> v \<in> set (snd r))"

definition ct_matches :: "'v dse_constraint \<Rightarrow> 'v combo \<Rightarrow> bool" where
  "ct_matches c combo = list_all (allows combo) (ct_when c)"

definition require_violations :: "'v dse_constraint \<Rightarrow> 'v combo \<Rightarrow> string list" where
  "require_violations c combo = map fst (filter (\<lambda>r. \<not> allows combo r) (ct_require c))"

definition ct_excludes :: "'v dse_constraint \<Rightarrow> 'v combo \<Rightarrow> bool" where
  "ct_excludes c combo = list_ex (list_all (allows combo)) (ct_exclude_combinations c)"

record 'v exclusion_record =
  ex_axis :: string
  ex_value :: "'v option"
  ex_reason :: string
  ex_constraint_name :: string

section \<open>Axes and constraints from the configuration\<close>

definition build_axes :: "(string \<times> 'v list) list \<Rightarrow> (string, 'v axis_spec) dict result" where
  "build_axes items = fold_res (\<lambda>(name, vals) axes.
     if vals = [] then Inl (ConfigError (''axes.'' @ name))
     else Inr (AList.update name \<lparr>ax_name = name, ax_values = vals\<rparr> axes)) items []"

text \<open>A rule value is a list or a single value.\<close>

datatype 'v rule_value = Single 'v | Several "'v list"

definition normalize_rule :: "(string, 'v rule_value) dict \<Rightarrow> 'v rule" where
  "normalize_rule r = map (\<lambda>(axis, v). (axis, case v of Single x \<Rightarrow> [x] | Several xs \<Rightarrow> xs)) r"

record 'v raw_constraint =
  rc_name :: "string option"
  rc_when :: "(string, 'v rule_value) dict"
  rc_require :: "(string, 'v rule_value) dict"
  rc_exclude :: "(string, 'v rule_value) dict list"
  rc_reason :: string

definition build_constraint :: "nat \<times> 'v raw_constraint \<Rightarrow> 'v dse_constraint" where
  "build_constraint e = (case e of (idx, raw) \<Rightarrow>
     \<lparr>ct_name = (case rc_name raw of None \<Rightarrow> ''constraint_'' @ dec idx | Some n \<Rightarrow> n),
      ct_when = normalize_rule (rc_when raw), ct_require = normalize_rule (rc_require raw),
      ct_exclude_combinations = map normalize_rule (rc_exclude raw), ct_reason = rc_reason raw\<rparr>)"

definition build_constraints :: "'v raw_constraint list \<Rightarrow> 'v dse_constraint list" where
  "build_constraints raws = map build_constraint (enumerate 0 raws)"

section \<open>The design space\<close>

datatype dse_mode = FullMode | CiAllAxes

definition parse_mode :: "string \<Rightarrow> dse_mode result" where
  "parse_mode m = (if m = ''full'' then Inr FullMode else if m = ''ci_all_axes'' then Inr CiAllAxes
     else Inl (ConfigError ''mode''))"

record 'v design_space =
  ds_axes :: "(string, 'v axis_spec) dict"
  ds_constraints :: "'v dse_constraint list"
  ds_defaults :: "'v combo"
  ds_mode :: dse_mode

definition design_space_new :: "string \<Rightarrow> (string \<times> 'v list) list \<Rightarrow> 'v raw_constraint list \<Rightarrow> 'v combo
    \<Rightarrow> 'v option \<Rightarrow> 'v design_space result" where
  "design_space_new mode axes raws defaults scenario_bw =
     bind_res (parse_mode mode) (\<lambda>m.
     bind_res (build_axes axes) (\<lambda>ax.
       let ax' = sort_key fst ax; cs = build_constraints raws;
           cs' = (case scenario_bw of None \<Rightarrow> cs | Some bw \<Rightarrow>
             if din ''bandwidth_gbps'' ax'
             then cs @ [\<lparr>ct_name = ''scenario_bandwidth_match'', ct_when = [],
                  ct_require = [(''bandwidth_gbps'', [bw])], ct_exclude_combinations = [],
                  ct_reason = ''scenario_bandwidth_match''\<rparr>]
             else cs)
       in Inr \<lparr>ds_axes = ax', ds_constraints = cs', ds_defaults = sort_key fst defaults, ds_mode = m\<rparr>))"

definition combo_valid :: "'v dse_constraint list \<Rightarrow> 'v combo \<Rightarrow> bool" where
  "combo_valid cs combo = list_all (\<lambda>c. \<not> ct_matches c combo
     \<or> require_violations c combo = [] \<and> \<not> ct_excludes c combo) cs"

text \<open>\<open>_check\<close>: \<open>None\<close> when the combination passes, otherwise the exclusion of the first
  constraint it breaks.\<close>

fun check_combo :: "'v dse_constraint list \<Rightarrow> 'v combo \<Rightarrow> 'v exclusion_record option" where
  "check_combo [] combo = None"
| "check_combo (c # cs) combo =
     (if \<not> ct_matches c combo then check_combo cs combo
      else case require_violations c combo of
        axis # _ \<Rightarrow> Some \<lparr>ex_axis = axis, ex_value = map_of combo axis, ex_reason = ct_reason c,
                        ex_constraint_name = ct_name c\<rparr>
      | [] \<Rightarrow>
          if ct_excludes c combo
          then let axis = (case ct_when c of [] \<Rightarrow> [] | (a, _) # _ \<Rightarrow> a)
               in Some \<lparr>ex_axis = axis, ex_value = map_of combo axis, ex_reason = ct_reason c,
                       ex_constraint_name = ct_name c\<rparr>
          else check_combo cs combo)"

definition all_combos :: "'v design_space \<Rightarrow> 'v combo list" where
  "all_combos d = map (\<lambda>vals. zip (dkeys (ds_axes d)) vals)
     (product_lists (map (\<lambda>e. ax_values (snd e)) (ds_axes d)))"

definition full_combinations :: "'v design_space \<Rightarrow> 'v combo list \<times> 'v exclusion_record list" where
  "full_combinations d = fold (\<lambda>combo (valid, exclusions).
     case check_combo (ds_constraints d) combo of
       None \<Rightarrow> (valid @ [combo], exclusions)
     | Some e \<Rightarrow> (valid, exclusions @ [e])) (all_combos d) ([], [])"

subsection \<open>Repairing a combination\<close>

record 'v change =
  ch_axis :: string
  ch_original :: 'v
  ch_new :: 'v
  ch_constraint :: "'v dse_constraint"

text \<open>The combination, the changes made and whether this round changed anything.\<close>

type_synonym 'v repair_state = "'v combo \<times> 'v change list \<times> bool"

definition repair_axis :: "'v dse_constraint \<Rightarrow> string \<Rightarrow> 'v repair_state \<Rightarrow> 'v repair_state result" where
  "repair_axis c axis st = (case st of (combo, changes, changed) \<Rightarrow>
     (case dget (ct_require c) axis [] of
        [] \<Rightarrow> Inr st
      | new_value # _ \<Rightarrow> (case map_of combo axis of
            None \<Rightarrow> Inl (KeyError axis)
          | Some old \<Rightarrow>
              if old \<noteq> new_value
              then Inr (AList.update axis new_value combo,
                changes @ [\<lparr>ch_axis = axis, ch_original = old, ch_new = new_value, ch_constraint = c\<rparr>], True)
              else Inr st)))"

definition repair_constraint :: "'v dse_constraint \<Rightarrow> 'v repair_state \<Rightarrow> 'v repair_state result" where
  "repair_constraint c st =
     (if \<not> ct_matches c (fst st) then Inr st
      else fold_res (repair_axis c) (require_violations c (fst st)) st)"

fun repair_rounds :: "nat \<Rightarrow> 'v dse_constraint list \<Rightarrow> 'v combo \<times> 'v change list
    \<Rightarrow> ('v combo \<times> 'v change list) result" where
  "repair_rounds 0 cs st = Inr st"
| "repair_rounds (Suc n) cs st =
     bind_res (fold_res repair_constraint cs (fst st, snd st, False)) (\<lambda>(combo, changes, changed).
       if changed then repair_rounds n cs (combo, changes) else Inr (combo, changes))"

definition repair :: "'v dse_constraint list \<Rightarrow> 'v combo \<Rightarrow> ('v combo \<times> 'v change list) result" where
  "repair cs combo = repair_rounds 10 cs (combo, [])"

subsection \<open>Covering every axis value\<close>

text \<open>The combinations seen so far, by their key, and the exclusions.\<close>

type_synonym 'v ci_state = "('v option list, 'v combo) dict \<times> 'v exclusion_record list"

definition combo_key :: "'v design_space \<Rightarrow> 'v combo \<Rightarrow> 'v option list" where
  "combo_key d combo = map (map_of combo) (dkeys (ds_axes d))"

definition add_combo :: "'v design_space \<Rightarrow> 'v combo \<Rightarrow> 'v ci_state \<Rightarrow> 'v ci_state" where
  "add_combo d combo st =
     (if din (combo_key d combo) (fst st) then st
      else (AList.update (combo_key d combo) combo (fst st), snd st))"

definition record_repair_exclusion :: "string \<Rightarrow> 'v \<Rightarrow> 'v change list \<Rightarrow> 'v ci_state \<Rightarrow> 'v ci_state" where
  "record_repair_exclusion axis v changes st =
     (case find (\<lambda>ch. ch_axis ch = axis \<and> ch_original ch = v) changes of
        None \<Rightarrow> st
      | Some ch \<Rightarrow> (fst st, snd st @ [\<lparr>ex_axis = axis, ex_value = Some v,
          ex_reason = ct_reason (ch_constraint ch), ex_constraint_name = ct_name (ch_constraint ch)\<rparr>]))"

definition record_check :: "'v design_space \<Rightarrow> 'v combo \<Rightarrow> 'v ci_state \<Rightarrow> 'v ci_state" where
  "record_check d combo st = (case check_combo (ds_constraints d) combo of
     None \<Rightarrow> st | Some e \<Rightarrow> (fst st, snd st @ [e]))"

definition ci_value :: "'v design_space \<Rightarrow> string \<times> 'v \<Rightarrow> 'v ci_state \<Rightarrow> 'v ci_state result" where
  "ci_value d e st = (case e of (axis, v) \<Rightarrow>
     bind_res (repair (ds_constraints d) (AList.update axis v (ds_defaults d))) (\<lambda>(combo, changes).
       if combo_valid (ds_constraints d) combo
       then let st1 = add_combo d combo st
            in Inr (if map_of combo axis \<noteq> Some v then record_repair_exclusion axis v changes st1 else st1)
       else Inr (record_check d combo st)))"

definition ci_cross :: "'v design_space \<Rightarrow> 'v \<times> 'v \<Rightarrow> 'v ci_state \<Rightarrow> 'v ci_state result" where
  "ci_cross d e st = (case e of (node, engine) \<Rightarrow>
     bind_res (repair (ds_constraints d)
         (AList.update ''engine'' engine (AList.update ''process_node'' node (ds_defaults d)))) (\<lambda>(combo, _).
       Inr (if combo_valid (ds_constraints d) combo then add_combo d combo st else record_check d combo st)))"

definition axis_value_pairs :: "'v design_space \<Rightarrow> (string \<times> 'v) list" where
  "axis_value_pairs d = concat (map (\<lambda>(name, spec). map (Pair name) (ax_values spec)) (ds_axes d))"

text \<open>The engine and process-node pairs of the last block; \<open>engines\<close> are the canonical ids as
  axis values.\<close>

definition cross_pairs :: "'v list \<Rightarrow> 'v design_space \<Rightarrow> ('v \<times> 'v) list" where
  "cross_pairs engines d = (case (map_of (ds_axes d) ''process_node'', map_of (ds_axes d) ''engine'',
       map_of (ds_defaults d) ''process_node'', map_of (ds_defaults d) ''engine'') of
     (Some spec, Some _, Some node0, Some engine0) \<Rightarrow>
       concat (map (\<lambda>node. if node = node0 then []
         else map (Pair node) (filter (\<lambda>e. e \<noteq> engine0) engines)) (ax_values spec))
   | _ \<Rightarrow> [])"

definition ci_all_axes_combinations ::
    "'v list \<Rightarrow> 'v design_space \<Rightarrow> ('v combo list \<times> 'v exclusion_record list) result" where
  "ci_all_axes_combinations engines d =
     bind_res (repair (ds_constraints d) (ds_defaults d)) (\<lambda>(repaired, _).
     bind_res (fold_res (ci_value d) (axis_value_pairs d)
         (if combo_valid (ds_constraints d) repaired then add_combo d repaired ([], []) else ([], []))) (\<lambda>st.
     bind_res (fold_res (ci_cross d) (cross_pairs engines d) st) (\<lambda>(seen, exclusions).
       Inr (dvalues seen, exclusions))))"

record ('v, 'h) design_point =
  dp_design_point_id :: string
  dp_hardware_config :: 'h
  dp_scenario_ref :: string
  dp_workload_ref :: "string option"
  dp_axis_values :: "'v combo"

definition temporal_axes :: "string list" where
  "temporal_axes = [''queue_policy'', ''nonpreemptible_quantum_ms'', ''partition'', ''request_batch'',
     ''active_sequences'', ''token_block'', ''image_count'', ''action_horizon'', ''flow_steps'',
     ''resident_models'', ''inflight_jobs'']"

definition temporal_values :: "'v design_space \<Rightarrow> 'v combo \<Rightarrow> 'v combo result" where
  "temporal_values d combo = map_result (\<lambda>axis. case map_of combo axis of
       None \<Rightarrow> Inl (KeyError axis) | Some v \<Rightarrow> Inr (axis, v))
     (filter (\<lambda>axis. axis \<in> set temporal_axes) (dkeys (ds_axes d)))"

definition build_point :: "('v combo \<Rightarrow> 'h result) \<Rightarrow> ('h \<times> string \<times> string option \<times> 'v combo \<Rightarrow> string)
    \<Rightarrow> string \<Rightarrow> string option \<Rightarrow> 'v design_space \<Rightarrow> 'v combo \<Rightarrow> ('v, 'h) design_point result" where
  "build_point hw digest scenario workload d combo =
     bind_res (hw combo) (\<lambda>h.
     bind_res (temporal_values d combo) (\<lambda>temporal.
       Inr \<lparr>dp_design_point_id = digest (h, scenario, workload, temporal), dp_hardware_config = h,
            dp_scenario_ref = scenario, dp_workload_ref = workload, dp_axis_values = combo\<rparr>))"

definition combinations :: "'v list \<Rightarrow> 'v design_space \<Rightarrow> ('v combo list \<times> 'v exclusion_record list) result" where
  "combinations engines d = (case ds_mode d of
     FullMode \<Rightarrow> Inr (full_combinations d) | CiAllAxes \<Rightarrow> ci_all_axes_combinations engines d)"

definition generate_with_exclusions ::
    "('v combo \<Rightarrow> 'h result) \<Rightarrow> ('h \<times> string \<times> string option \<times> 'v combo \<Rightarrow> string) \<Rightarrow> string \<Rightarrow> string option
     \<Rightarrow> 'v list \<Rightarrow> 'v design_space \<Rightarrow> (('v, 'h) design_point list \<times> 'v exclusion_record list) result" where
  "generate_with_exclusions hw digest scenario workload engines d =
     bind_res (combinations engines d) (\<lambda>(combos, exclusions).
     bind_res (map_result (build_point hw digest scenario workload d) combos) (\<lambda>points.
       Inr (points, exclusions)))"

text \<open>The canonical engine ids.\<close>

definition canonical_engine_ids :: "string list" where
  "canonical_engine_ids = [''systolic'', ''os_systolic'', ''block'', ''tensor_core'', ''wmma'', ''gmma'',
     ''input_stationary'', ''fsa'']"

definition is_valid_engine :: "string \<Rightarrow> bool" where
  "is_valid_engine e \<longleftrightarrow> e \<in> set canonical_engine_ids"

definition lookup_by_prefix :: "string \<Rightarrow> string result" where
  "lookup_by_prefix pre = (let p = strip pre in
     if p \<in> set canonical_engine_ids then Inr p
     else case filter (starts_with p) canonical_engine_ids of
       [e] \<Rightarrow> Inr e | _ \<Rightarrow> Inl (ConfigError ''config_label''))"

section \<open>Checking and full enumeration\<close>

lemma check_combo_valid: "check_combo cs combo = None \<longleftrightarrow> combo_valid cs combo"
  by (induction cs) (auto simp: combo_valid_def Let_def split: list.splits)

lemma full_combinations_fold:
  "fold (\<lambda>combo (valid, exclusions). case check_combo cs combo of
       None \<Rightarrow> (valid @ [combo], exclusions)
     | Some e \<Rightarrow> (valid, exclusions @ [e])) xs (vs, es)
   = (vs @ filter (combo_valid cs) xs, es @ List.map_filter (check_combo cs) xs)"
  by (induction xs arbitrary: vs es)
    (auto simp: check_combo_valid[symmetric] List.map_filter_simps split: option.splits)

lemma full_combinations_eq:
  "full_combinations d = (filter (combo_valid (ds_constraints d)) (all_combos d),
     List.map_filter (check_combo (ds_constraints d)) (all_combos d))"
  by (simp add: full_combinations_def full_combinations_fold)

lemma in_product_lists: "vs \<in> set (product_lists xss) \<longleftrightarrow> list_all2 (\<lambda>v xs. v \<in> set xs) vs xss"
  by (simp add: product_lists_set)

text \<open>A combination assigns to every axis one of its values.\<close>

definition well_formed_combo :: "'v design_space \<Rightarrow> 'v combo \<Rightarrow> bool" where
  "well_formed_combo d combo \<longleftrightarrow> dkeys combo = dkeys (ds_axes d)
     \<and> (\<forall>e \<in> set (zip combo (ds_axes d)). snd (fst e) \<in> set (ax_values (snd (snd e))))"

lemma all_combos_exact: "combo \<in> set (all_combos d) \<longleftrightarrow> well_formed_combo d combo"
proof
  assume "combo \<in> set (all_combos d)"
  then obtain vs where vs: "list_all2 (\<lambda>v xs. v \<in> set xs) vs (map (\<lambda>e. ax_values (snd e)) (ds_axes d))"
    and c: "combo = zip (dkeys (ds_axes d)) vs" by (auto simp: all_combos_def in_product_lists)
  then have "length vs = length (ds_axes d)" by (auto dest: list_all2_lengthD)
  with vs c show "well_formed_combo d combo"
    by (auto simp: well_formed_combo_def set_zip list_all2_conv_all_nth) (metis snd_conv)
next
  assume w: "well_formed_combo d combo"
  then have k: "dkeys combo = dkeys (ds_axes d)" by (simp add: well_formed_combo_def)
  then have len: "length combo = length (ds_axes d)" by (metis length_map)
  have "list_all2 (\<lambda>v xs. v \<in> set xs) (dvalues combo) (map (\<lambda>e. ax_values (snd e)) (ds_axes d))"
  proof (rule list_all2I)
    show "\<forall>p \<in> set (zip (dvalues combo) (map (\<lambda>e. ax_values (snd e)) (ds_axes d))). case p of (v, xs) \<Rightarrow> v \<in> set xs"
      using w by (auto simp: well_formed_combo_def zip_map_map)
  qed (simp add: len)
  moreover have "combo = zip (dkeys (ds_axes d)) (dvalues combo)" by (simp add: k[symmetric] zip_map_fst_snd)
  ultimately show "combo \<in> set (all_combos d)" unfolding all_combos_def in_product_lists[symmetric] by auto
qed

lemma all_combos_distinct:
  assumes "\<forall>spec \<in> set (dvalues (ds_axes d)). distinct (ax_values spec)"
  shows "distinct (all_combos d)"
proof -
  have "distinct (product_lists (map (\<lambda>e. ax_values (snd e)) (ds_axes d)))"
    using assms by (intro distinct_product_lists) auto
  moreover have "inj_on (zip (dkeys (ds_axes d))) (set (product_lists (map (\<lambda>e. ax_values (snd e)) (ds_axes d))))"
  proof (rule inj_onI)
    fix a b
    assume "a \<in> set (product_lists (map (\<lambda>e. ax_values (snd e)) (ds_axes d)))"
      and "b \<in> set (product_lists (map (\<lambda>e. ax_values (snd e)) (ds_axes d)))"
      and e: "zip (dkeys (ds_axes d)) a = zip (dkeys (ds_axes d)) b"
    then have "length a = length (ds_axes d)" "length b = length (ds_axes d)"
      by (auto simp: in_product_lists dest: list_all2_lengthD)
    with e show "a = b" by (metis length_map map_snd_zip)
  qed
  ultimately show ?thesis by (simp add: all_combos_def distinct_map)
qed

section \<open>Repair\<close>

text \<open>The value an axis started with is still there or is the original of a recorded change.\<close>

definition traced :: "string \<Rightarrow> 'v \<Rightarrow> 'v combo \<Rightarrow> 'v change list \<Rightarrow> bool" where
  "traced axis v combo changes \<longleftrightarrow>
     map_of combo axis = Some v \<or> (\<exists>ch \<in> set changes. ch_axis ch = axis \<and> ch_original ch = v)"

definition traced_state :: "string \<Rightarrow> 'v \<Rightarrow> 'v repair_state \<Rightarrow> bool" where
  "traced_state axis v st \<longleftrightarrow> traced axis v (fst st) (fst (snd st))"

lemma fold_res_inv:
  "fold_res f xs s = Inr t \<Longrightarrow> P s \<Longrightarrow> (\<And>x s t. x \<in> set xs \<Longrightarrow> f x s = Inr t \<Longrightarrow> P s \<Longrightarrow> P t) \<Longrightarrow> P t"
proof (induction xs arbitrary: s)
  case Nil
  then show ?case by simp
next
  case (Cons x xs)
  from Cons.prems(1) obtain s' where s': "f x s = Inr s'" "fold_res f xs s' = Inr t"
    by (auto elim!: bind_res_InrE)
  from Cons.prems(3)[OF _ s'(1) Cons.prems(2)] have "P s'" by simp
  with Cons.IH[OF s'(2)] Cons.prems(3) show ?case by (meson list.set_intros(2))
qed

lemma repair_axis_traced:
  assumes "repair_axis c a st = Inr st'" and "traced_state axis v st"
  shows "traced_state axis v st'"
proof -
  obtain combo changes changed where st: "st = (combo, changes, changed)" by (cases st)
  show ?thesis
    using assms by (auto simp: repair_axis_def st traced_state_def traced_def dict_simps
        split: list.splits option.splits if_splits)
qed

lemma repair_constraint_traced:
  assumes "repair_constraint c st = Inr st'" and "traced_state axis v st"
  shows "traced_state axis v st'"
proof (cases "ct_matches c (fst st)")
  case True
  with assms(1) have "fold_res (repair_axis c) (require_violations c (fst st)) st = Inr st'"
    by (simp add: repair_constraint_def)
  from fold_res_inv[OF this, of "traced_state axis v"] assms(2) show ?thesis
    by (blast intro: repair_axis_traced)
next
  case False
  with assms show ?thesis by (simp add: repair_constraint_def)
qed

lemma repair_rounds_traced:
  assumes "repair_rounds n cs st = Inr st'" and "traced axis v (fst st) (snd st)"
  shows "traced axis v (fst st') (snd st')"
  using assms
proof (induction n arbitrary: st)
  case 0
  then show ?case by simp
next
  case (Suc n)
  from Suc.prems(1) obtain combo changes changed where
    f: "fold_res repair_constraint cs (fst st, snd st, False) = Inr (combo, changes, changed)"
    and r: "(if changed then repair_rounds n cs (combo, changes) else Inr (combo, changes)) = Inr st'"
    by (auto elim!: bind_res_InrE)
  have "traced_state axis v (combo, changes, changed)"
  proof (rule fold_res_inv[OF f])
    show "traced_state axis v (fst st, snd st, False)" using Suc.prems(2) by (simp add: traced_state_def)
  qed (rule repair_constraint_traced)
  then have "traced axis v combo changes" by (simp add: traced_state_def)
  with r Suc.IH[of "(combo, changes)"] show ?case by (cases changed) auto
qed

lemma repair_traced:
  assumes "repair cs combo = Inr (combo', changes)" and "map_of combo axis = Some v"
  shows "map_of combo' axis = Some v \<or> (\<exists>ch \<in> set changes. ch_axis ch = axis \<and> ch_original ch = v)"
  using repair_rounds_traced[OF assms(1)[unfolded repair_def], of axis v] assms(2) by (simp add: traced_def)

section \<open>Coverage of the all-axes mode\<close>

text \<open>What holds of the combinations and exclusions collected so far.\<close>

definition seen_ok :: "'v design_space \<Rightarrow> 'v ci_state \<Rightarrow> bool" where
  "seen_ok d st \<longleftrightarrow> dict_ok (fst st)
     \<and> (\<forall>e \<in> set (fst st). combo_key d (snd e) = fst e \<and> combo_valid (ds_constraints d) (snd e))"

text \<open>The three ways a requested value is accounted for.\<close>

definition value_covered :: "'v design_space \<Rightarrow> string \<times> 'v \<Rightarrow> 'v combo list \<Rightarrow> 'v exclusion_record list \<Rightarrow> bool" where
  "value_covered d e combos exclusions \<longleftrightarrow>
     (\<exists>combo \<in> set combos. map_of combo (fst e) = Some (snd e))
     \<or> (\<exists>x \<in> set exclusions. ex_axis x = fst e \<and> ex_value x = Some (snd e))
     \<or> (\<exists>x \<in> set exclusions. \<exists>combo changes.
          repair (ds_constraints d) (AList.update (fst e) (snd e) (ds_defaults d)) = Inr (combo, changes)
          \<and> check_combo (ds_constraints d) combo = Some x)"

definition grows :: "'v ci_state \<Rightarrow> 'v ci_state \<Rightarrow> bool" where
  "grows st st' \<longleftrightarrow> set (fst st) \<subseteq> set (fst st') \<and> set (snd st) \<subseteq> set (snd st')"

lemma grows_refl [simp]: "grows st st"
  by (simp add: grows_def)

lemma grows_trans: "grows a b \<Longrightarrow> grows b c \<Longrightarrow> grows a c"
  by (auto simp: grows_def)

lemma value_covered_grows:
  "value_covered d e (dvalues (fst st)) (snd st) \<Longrightarrow> grows st st' \<Longrightarrow> value_covered d e (dvalues (fst st')) (snd st')"
  by (auto simp: value_covered_def grows_def)

lemma update_new_append: "map_of d k = None \<Longrightarrow> AList.update k v d = d @ [(k, v)]"
  by (induction d) (auto split: if_splits)

lemma add_combo_ok:
  assumes "seen_ok d st" and "combo_valid (ds_constraints d) combo"
  shows "seen_ok d (add_combo d combo st)" and "grows st (add_combo d combo st)"
    and "\<exists>c \<in> set (dvalues (fst (add_combo d combo st))). combo_key d c = combo_key d combo"
proof -
  have "seen_ok d (add_combo d combo st) \<and> grows st (add_combo d combo st)
    \<and> (\<exists>c \<in> set (dvalues (fst (add_combo d combo st))). combo_key d c = combo_key d combo)"
  proof (cases "map_of (fst st) (combo_key d combo)")
    case None
    with assms show ?thesis by (auto simp: add_combo_def seen_ok_def grows_def update_new_append dict_ok_def map_of_eq_None_iff)
  next
    case (Some c)
    then have "(combo_key d combo, c) \<in> set (fst st)" by (rule map_of_SomeD)
    with assms Some show ?thesis by (force simp: add_combo_def seen_ok_def)
  qed
  then show "seen_ok d (add_combo d combo st)" and "grows st (add_combo d combo st)"
    and "\<exists>c \<in> set (dvalues (fst (add_combo d combo st))). combo_key d c = combo_key d combo" by auto
qed

lemma record_ok [simp]:
  "seen_ok d (record_repair_exclusion a v chs st) = seen_ok d st" "grows st (record_repair_exclusion a v chs st)"
  "seen_ok d (record_check d combo st) = seen_ok d st" "grows st (record_check d combo st)"
  by (auto simp: record_repair_exclusion_def record_check_def seen_ok_def grows_def split: option.splits)

lemma key_determines:
  "combo_key d a = combo_key d b \<Longrightarrow> axis \<in> set (dkeys (ds_axes d)) \<Longrightarrow> map_of a axis = map_of b axis"
  by (auto simp: combo_key_def)

lemma ci_value_ok:
  fixes d :: "'v design_space"
  assumes "ci_value d (axis, v) st = Inr st'" and ok: "seen_ok d st" and "axis \<in> set (dkeys (ds_axes d))"
  shows "seen_ok d st' \<and> grows st st' \<and> value_covered d (axis, v) (dvalues (fst st')) (snd st')"
proof -
  from assms(1) obtain combo changes where
    r: "repair (ds_constraints d) (AList.update axis v (ds_defaults d)) = Inr (combo, changes)"
    and st': "(if combo_valid (ds_constraints d) combo
       then let st1 = add_combo d combo st
            in Inr (if map_of combo axis \<noteq> Some v then record_repair_exclusion axis v changes st1 else st1)
       else Inr (record_check d combo st)) = (Inr st' :: 'v ci_state result)"
    by (auto simp: ci_value_def elim!: bind_res_InrE split del: if_split)
  show ?thesis
  proof (cases "combo_valid (ds_constraints d) combo")
    case True
    note a = add_combo_ok[OF ok True]
    show ?thesis
    proof (cases "map_of combo axis = Some v")
      case t: True
      with st' True have s: "st' = add_combo d combo st" by simp
      from a(3) obtain c where c: "c \<in> set (dvalues (fst st'))" "combo_key d c = combo_key d combo"
        unfolding s by (rule bexE)
      from key_determines[OF c(2) assms(3)] t have "map_of c axis = Some v" by simp
      with c(1) have "value_covered d (axis, v) (dvalues (fst st')) (snd st')"
        unfolding value_covered_def fst_conv snd_conv by blast
      with a s show ?thesis by blast
    next
      case f: False
      with st' True have s: "st' = record_repair_exclusion axis v changes (add_combo d combo st)" by simp
      have "map_of (AList.update axis v (ds_defaults d)) axis = Some v" by (simp add: dict_simps)
      from repair_traced[OF r this] f obtain ch where "ch \<in> set changes" "ch_axis ch = axis \<and> ch_original ch = v"
        by blast
      then have "find (\<lambda>ch. ch_axis ch = axis \<and> ch_original ch = v) changes \<noteq> None"
        by (auto simp: find_None_iff)
      then have "\<exists>x \<in> set (snd st'). ex_axis x = axis \<and> ex_value x = Some v"
        by (auto simp: s record_repair_exclusion_def split: option.splits)
      with a s show ?thesis
        by (auto simp: value_covered_def intro: grows_trans[OF a(2)])
    qed
  next
    case False
    then have s: "st' = record_check d combo st" using st' by simp
    obtain x where x: "check_combo (ds_constraints d) combo = Some x" using False check_combo_valid by blast
    then have "x \<in> set (snd st')" by (simp add: s record_check_def)
    with r x ok s show ?thesis by (auto simp: value_covered_def)
  qed
qed

lemma ci_loop_ok:
  assumes "fold_res (ci_value d) es st = Inr st'" and "seen_ok d st"
    and "\<forall>e \<in> set es. fst e \<in> set (dkeys (ds_axes d))"
  shows "seen_ok d st' \<and> grows st st' \<and> (\<forall>e \<in> set es. value_covered d e (dvalues (fst st')) (snd st'))"
  using assms
proof (induction es arbitrary: st)
  case Nil
  then show ?case by simp
next
  case (Cons e es)
  obtain axis v where e: "e = (axis, v)" by (cases e)
  from Cons.prems(1) obtain st1 where 1: "ci_value d (axis, v) st = Inr st1" and 2: "fold_res (ci_value d) es st1 = Inr st'"
    by (auto simp: e elim!: bind_res_InrE)
  from ci_value_ok[OF 1 Cons.prems(2)] Cons.prems(3)
  have a: "seen_ok d st1" "grows st st1" "value_covered d e (dvalues (fst st1)) (snd st1)" by (auto simp: e)
  from Cons.IH[OF 2 a(1)] Cons.prems(3)
  have b: "seen_ok d st'" "grows st1 st'" "\<forall>e \<in> set es. value_covered d e (dvalues (fst st')) (snd st')" by auto
  with a show ?case by (auto intro: grows_trans value_covered_grows)
qed

lemma ci_cross_ok:
  assumes "ci_cross d e st = Inr st'" and "seen_ok d st"
  shows "seen_ok d st' \<and> grows st st'"
proof -
  obtain node engine where e: "e = (node, engine)" by (cases e)
  from assms(1) obtain combo changes where
    "st' = (if combo_valid (ds_constraints d) combo then add_combo d combo st else record_check d combo st)"
    by (auto simp: ci_cross_def e elim!: bind_res_InrE)
  with assms(2) add_combo_ok(1,2)[OF assms(2), of combo] show ?thesis by auto
qed

lemma axis_value_pairs_iff:
  "(axis, v) \<in> set (axis_value_pairs d) \<longleftrightarrow> (\<exists>spec. (axis, spec) \<in> set (ds_axes d) \<and> v \<in> set (ax_values spec))"
  by (auto simp: axis_value_pairs_def)


section \<open>Properties\<close>

definition demo_space :: "string \<Rightarrow> int design_space" where
  "demo_space mode = projr (design_space_new mode [(''mem'', [1, 2]), (''width'', [0, 64])]
     [\<lparr>rc_name = None, rc_when = [(''mem'', Single 2)], rc_require = [(''width'', Several [0])], rc_exclude = [],
       rc_reason = ''narrow''\<rparr>] [(''mem'', 1), (''width'', 64)] None)"

text \<open>C28. The full mode enumerates exactly the valid combinations: those that give every axis one
  of its values and break no constraint, each once when the values of an axis are distinct. Every other
  combination leaves exactly one exclusion record, so points and exclusions together number the
  product of the axis sizes.\<close>

theorem full_enumeration_exact:
  assumes "\<forall>spec \<in> set (dvalues (ds_axes d)). distinct (ax_values spec)"
  shows "set (fst (full_combinations d)) = {c. well_formed_combo d c \<and> combo_valid (ds_constraints d) c}
    \<and> distinct (fst (full_combinations d))
    \<and> length (fst (full_combinations d)) + length (snd (full_combinations d))
        = prod_list (map (\<lambda>e. length (ax_values (snd e))) (ds_axes d))"
proof -
  have len: "length (filter (combo_valid cs) xs) + length (List.map_filter (check_combo cs) xs) = length xs"
    for cs :: "'a dse_constraint list" and xs
    by (induction xs) (auto simp: check_combo_valid[symmetric] List.map_filter_simps split: option.splits)
  have prod: "length (product_lists xss) = prod_list (map length xss)" for xss :: "'a list list"
    by (induction xss) (auto simp: length_concat comp_def sum_list_triv)
  have "length (all_combos d) = prod_list (map (\<lambda>e. length (ax_values (snd e))) (ds_axes d))"
    by (simp add: all_combos_def prod comp_def)
  then show ?thesis
    using all_combos_distinct[OF assms] len by (auto simp: full_combinations_eq all_combos_exact)
qed

theorem full_enumeration_exact_witness:
  "distinct (fst (full_combinations (demo_space ''full'')))
   \<and> length (fst (full_combinations (demo_space ''full''))) = 3
   \<and> length (snd (full_combinations (demo_space ''full''))) = 1"
proof -
  have "\<forall>spec \<in> set (dvalues (ds_axes (demo_space ''full''))). distinct (ax_values spec)" by code_simp
  from full_enumeration_exact[OF this] have "distinct (fst (full_combinations (demo_space ''full'')))" by blast
  moreover have "length (fst (full_combinations (demo_space ''full''))) = 3
    \<and> length (snd (full_combinations (demo_space ''full''))) = 1" by code_simp
  ultimately show ?thesis by blast
qed

lemma ci_mode_result:
  assumes "ci_all_axes_combinations engines d = Inr (combos, exclusions)"
  shows "(\<forall>e \<in> set (axis_value_pairs d). value_covered d e combos exclusions)
    \<and> (\<forall>combo \<in> set combos. combo_valid (ds_constraints d) combo)
    \<and> distinct (map (combo_key d) combos)"
proof -
  obtain repaired changes st seen where
    1: "fold_res (ci_value d) (axis_value_pairs d)
      (if combo_valid (ds_constraints d) repaired then add_combo d repaired ([], []) else ([], [])) = Inr st"
    and 2: "fold_res (ci_cross d) (cross_pairs engines d) st = Inr (seen, exclusions)"
    and combos: "combos = dvalues seen"
    using assms by (auto simp: ci_all_axes_combinations_def elim!: bind_res_InrE split del: if_split)
  have empty: "seen_ok d ([], [])" by (simp add: seen_ok_def)
  have "seen_ok d (if combo_valid (ds_constraints d) repaired then add_combo d repaired ([], []) else ([], []))"
    using add_combo_ok(1)[OF empty] empty by simp
  moreover have "\<forall>e \<in> set (axis_value_pairs d). fst e \<in> set (dkeys (ds_axes d))"
    by (force simp: axis_value_pairs_def)
  ultimately have s: "seen_ok d st" "\<forall>e \<in> set (axis_value_pairs d). value_covered d e (dvalues (fst st)) (snd st)"
    using ci_loop_ok[OF 1] by auto
  have "seen_ok d (seen, exclusions) \<and> grows st (seen, exclusions)"
    by (rule fold_res_inv[OF 2]) (use s(1) in simp, use ci_cross_ok grows_trans in blast)
  then have f: "seen_ok d (seen, exclusions)" "grows st (seen, exclusions)" by auto
  have "value_covered d e combos exclusions" if "e \<in> set (axis_value_pairs d)" for e
    using value_covered_grows[OF _ f(2)] s(2) that by (simp add: combos)
  moreover have keys: "map (combo_key d) combos = dkeys seen"
    using f(1) by (auto simp: seen_ok_def combos)
  have "distinct (map (combo_key d) combos)" unfolding keys using f(1) by (simp add: seen_ok_def dict_ok_def)
  moreover have "\<forall>combo \<in> set combos. combo_valid (ds_constraints d) combo"
    using f(1) by (auto simp: seen_ok_def combos)
  ultimately show ?thesis by blast
qed

lemma value_covered_all:
  "ci_all_axes_combinations engines d = Inr (combos, exclusions)
   \<Longrightarrow> \<forall>e \<in> set (axis_value_pairs d). value_covered d e combos exclusions"
  using ci_mode_result by blast

text \<open>The all-axes mode covers every value of every axis: some generated combination has it, or
  an exclusion names it, or an exclusion was recorded for the combination that tried it. Every
  generated combination is valid, and no two agree on all axes.\<close>

theorem ci_mode_covers_every_value:
  assumes "ci_all_axes_combinations engines d = Inr (combos, exclusions)"
  shows "(\<forall>e \<in> set (axis_value_pairs d). value_covered d e combos exclusions)
    \<and> (\<forall>combo \<in> set combos. combo_valid (ds_constraints d) combo)
    \<and> distinct (map (combo_key d) combos)"
  by (rule ci_mode_result[OF assms])

theorem ci_mode_covers_every_value_witness:
  "\<exists>combos exclusions. ci_all_axes_combinations [] (demo_space ''ci_all_axes'') = Inr (combos, exclusions)
   \<and> list_all (\<lambda>e. value_covered (demo_space ''ci_all_axes'') e combos exclusions)
        (axis_value_pairs (demo_space ''ci_all_axes''))"
proof -
  have "is_ok (ci_all_axes_combinations [] (demo_space ''ci_all_axes''))" by code_simp
  then obtain combos exclusions where
    c: "ci_all_axes_combinations [] (demo_space ''ci_all_axes'') = Inr (combos, exclusions)"
    by (cases "ci_all_axes_combinations [] (demo_space ''ci_all_axes'')") auto
  with ci_mode_covers_every_value[OF c] show ?thesis unfolding list_all_iff by blast
qed

text \<open>The generated points carry the combinations, in order.\<close>

lemma generated_points:
  assumes "generate_with_exclusions hw digest sc wl engines d = Inr (points, exclusions)"
  shows "combinations engines d = Inr (map dp_axis_values points, exclusions)"
proof -
  from assms obtain combos where c: "combinations engines d = Inr (combos, exclusions)"
    and p: "map_result (build_point hw digest sc wl d) combos = Inr points"
    by (auto simp: generate_with_exclusions_def elim!: bind_res_InrE)
  from p have "map dp_axis_values points = combos"
    by (induction combos arbitrary: points) (auto simp: build_point_def elim!: bind_res_InrE)
  with c show ?thesis by simp
qed


end
