(* ===== verification/Dse_Manifest.thy ===== *)
theory Dse_Manifest
  imports Dse_Space
begin

text \<open>
  The coverage manifest, \<open>sim/dse/manifest.py\<close>: per-axis sets of values, the sets of point ids by
  outcome, the recording operations and the validation. \<open>missing\<close> is kept as a set: its sorted
  order only shows in messages. The errors of \<open>validate\<close> are values of \<open>manifest_error\<close>.
\<close>

section \<open>State\<close>

record 'v axis_coverage =
  ac_axis :: string
  ac_requested :: "'v set"
  ac_generated :: "'v set"
  ac_evaluated :: "'v set"
  ac_successful :: "'v set"
  ac_pruned :: "'v set"
  ac_failed :: "'v set"
  ac_filtered :: "'v set"
  ac_exclusions :: "'v exclusion_record list"

record ('v, 'h) coverage_manifest =
  cm_points :: "('v, 'h) design_point list"
  cm_coverage :: "(string, 'v axis_coverage) dict"
  cm_evaluated_ids :: "string set"
  cm_pruned_ids :: "string set"
  cm_successful_ids :: "string set"
  cm_filtered_ids :: "string set"
  cm_failed_ids :: "string set"

definition excluded_values :: "'v axis_coverage \<Rightarrow> 'v option set" where
  "excluded_values c = set (map ex_value (filter (\<lambda>e. ex_reason e \<noteq> []) (ac_exclusions c)))"

definition missing_values :: "'v axis_coverage \<Rightarrow> 'v set" where
  "missing_values c = {v \<in> ac_requested c. v \<notin> ac_generated c \<and> Some v \<notin> excluded_values c}"

definition new_coverage :: "string \<Rightarrow> 'v axis_spec \<Rightarrow> 'v axis_coverage" where
  "new_coverage name spec = \<lparr>ac_axis = name, ac_requested = set (ax_values spec), ac_generated = {},
     ac_evaluated = {}, ac_successful = {}, ac_pruned = {}, ac_failed = {}, ac_filtered = {}, ac_exclusions = []\<rparr>"

text \<open>Changing the coverage of one axis, when it is an axis of the manifest.\<close>

definition on_axis :: "('v axis_coverage \<Rightarrow> 'v axis_coverage) \<Rightarrow> string
    \<Rightarrow> (string, 'v axis_coverage) dict \<Rightarrow> (string, 'v axis_coverage) dict" where
  "on_axis f axis cov = (case map_of cov axis of None \<Rightarrow> cov | Some c \<Rightarrow> AList.update axis (f c) cov)"

text \<open>A loop over the axis values of a point.\<close>

definition each_value :: "('v \<Rightarrow> 'v axis_coverage \<Rightarrow> 'v axis_coverage) \<Rightarrow> 'v combo
    \<Rightarrow> (string, 'v axis_coverage) dict \<Rightarrow> (string, 'v axis_coverage) dict" where
  "each_value f combo cov = fold (\<lambda>(axis, v). on_axis (f v) axis) combo cov"

definition add_exclusion :: "'v exclusion_record \<Rightarrow> 'v axis_coverage \<Rightarrow> 'v axis_coverage" where
  "add_exclusion e c = c\<lparr>ac_exclusions := ac_exclusions c @ [e]\<rparr>"

definition coverage_manifest_new :: "(string, 'v axis_spec) dict \<Rightarrow> ('v, 'h) design_point list
    \<Rightarrow> 'v exclusion_record list \<Rightarrow> ('v, 'h) coverage_manifest" where
  "coverage_manifest_new axes points exclusions =
     (let cov0 = map (\<lambda>(name, spec). (name, new_coverage name spec)) axes;
          cov1 = fold (\<lambda>p. each_value (\<lambda>v c. c\<lparr>ac_generated := insert v (ac_generated c)\<rparr>) (dp_axis_values p))
                   points cov0;
          cov2 = fold (\<lambda>e. on_axis (add_exclusion e) (ex_axis e)) exclusions cov1
      in \<lparr>cm_points = points, cm_coverage = cov2, cm_evaluated_ids = {}, cm_pruned_ids = {},
          cm_successful_ids = {}, cm_filtered_ids = {}, cm_failed_ids = {}\<rparr>)"

section \<open>Counts\<close>

definition count_ids :: "('v, 'h) coverage_manifest \<Rightarrow> string set \<Rightarrow> nat" where
  "count_ids m ids = length (filter (\<lambda>p. dp_design_point_id p \<in> ids) (cm_points m))"

definition generated_count :: "('v, 'h) coverage_manifest \<Rightarrow> nat" where
  "generated_count m = length (cm_points m)"

definition evaluated_count :: "('v, 'h) coverage_manifest \<Rightarrow> nat" where
  "evaluated_count m = count_ids m (cm_evaluated_ids m)"

definition pruned_count :: "('v, 'h) coverage_manifest \<Rightarrow> nat" where
  "pruned_count m = count_ids m (cm_pruned_ids m)"

definition successful_count :: "('v, 'h) coverage_manifest \<Rightarrow> nat" where
  "successful_count m = count_ids m (cm_successful_ids m)"

definition filtered_count :: "('v, 'h) coverage_manifest \<Rightarrow> nat" where
  "filtered_count m = count_ids m (cm_filtered_ids m)"

definition failed_count :: "('v, 'h) coverage_manifest \<Rightarrow> nat" where
  "failed_count m = count_ids m (cm_failed_ids m)"

definition manifest_missing_axes :: "('v, 'h) coverage_manifest \<Rightarrow> (string \<times> 'v set) list" where
  "manifest_missing_axes m = map (\<lambda>(name, c). (name, missing_values c))
     (filter (\<lambda>(name, c). missing_values c \<noteq> {}) (cm_coverage m))"

definition duplicate_ids :: "('v, 'h) coverage_manifest \<Rightarrow> string list" where
  "duplicate_ids m = sort (snd (fold (\<lambda>p (seen, dups).
     (set_add (dp_design_point_id p) seen,
      if dp_design_point_id p \<in> set seen then set_add (dp_design_point_id p) dups else dups))
     (cm_points m) ([], [])))"

section \<open>Recording outcomes\<close>

definition mark :: "('v \<Rightarrow> 'v axis_coverage \<Rightarrow> 'v axis_coverage) \<Rightarrow> ('v, 'h) design_point
    \<Rightarrow> ('v, 'h) coverage_manifest \<Rightarrow> ('v, 'h) coverage_manifest" where
  "mark f p m = m\<lparr>cm_coverage := each_value f (dp_axis_values p) (cm_coverage m)\<rparr>"

definition record_evaluated :: "('v, 'h) design_point \<Rightarrow> ('v, 'h) coverage_manifest \<Rightarrow> ('v, 'h) coverage_manifest" where
  "record_evaluated p m = mark (\<lambda>v c. c\<lparr>ac_evaluated := insert v (ac_evaluated c)\<rparr>) p
     (m\<lparr>cm_evaluated_ids := insert (dp_design_point_id p) (cm_evaluated_ids m)\<rparr>)"

definition record_success :: "('v, 'h) design_point \<Rightarrow> ('v, 'h) coverage_manifest \<Rightarrow> ('v, 'h) coverage_manifest" where
  "record_success p m = (let m1 = record_evaluated p m in
     mark (\<lambda>v c. c\<lparr>ac_successful := insert v (ac_successful c)\<rparr>) p
       (m1\<lparr>cm_successful_ids := insert (dp_design_point_id p) (cm_successful_ids m1)\<rparr>))"

definition clear_success_state :: "('v, 'h) design_point \<Rightarrow> ('v, 'h) coverage_manifest \<Rightarrow> ('v, 'h) coverage_manifest" where
  "clear_success_state p m =
     mark (\<lambda>v c. c\<lparr>ac_evaluated := ac_evaluated c - {v}, ac_successful := ac_successful c - {v}\<rparr>) p
       (m\<lparr>cm_evaluated_ids := cm_evaluated_ids m - {dp_design_point_id p},
          cm_successful_ids := cm_successful_ids m - {dp_design_point_id p}\<rparr>)"

definition add_point_exclusion :: "('v, 'h) design_point \<Rightarrow> string \<Rightarrow> ('v, 'h) coverage_manifest
    \<Rightarrow> ('v, 'h) coverage_manifest" where
  "add_point_exclusion p reason m = m\<lparr>cm_coverage := fold (\<lambda>(axis, v).
     on_axis (add_exclusion \<lparr>ex_axis = axis, ex_value = Some v, ex_reason = reason, ex_constraint_name = []\<rparr>) axis)
     (dp_axis_values p) (cm_coverage m)\<rparr>"

definition record_pruned :: "('v, 'h) design_point \<Rightarrow> string \<Rightarrow> ('v, 'h) coverage_manifest \<Rightarrow> ('v, 'h) coverage_manifest" where
  "record_pruned p reason m = (let m1 = clear_success_state p m;
       m2 = mark (\<lambda>v c. c\<lparr>ac_pruned := insert v (ac_pruned c)\<rparr>) p
              (m1\<lparr>cm_pruned_ids := insert (dp_design_point_id p) (cm_pruned_ids m1)\<rparr>)
     in add_point_exclusion p reason m2)"

definition record_failed :: "('v, 'h) design_point \<Rightarrow> ('v, 'h) coverage_manifest \<Rightarrow> ('v, 'h) coverage_manifest" where
  "record_failed p m =
     (let m1 = record_evaluated p (m\<lparr>cm_successful_ids := cm_successful_ids m - {dp_design_point_id p}\<rparr>)
      in mark (\<lambda>v c. c\<lparr>ac_failed := insert v (ac_failed c)\<rparr>) p
           (m1\<lparr>cm_failed_ids := insert (dp_design_point_id p) (cm_failed_ids m1)\<rparr>))"

definition record_filtered :: "('v, 'h) design_point \<Rightarrow> ('v, 'h) coverage_manifest \<Rightarrow> ('v, 'h) coverage_manifest" where
  "record_filtered p m =
     (let m1 = record_evaluated p (m\<lparr>cm_successful_ids := cm_successful_ids m - {dp_design_point_id p}\<rparr>)
      in mark (\<lambda>v c. c\<lparr>ac_filtered := insert v (ac_filtered c)\<rparr>) p
           (m1\<lparr>cm_filtered_ids := insert (dp_design_point_id p) (cm_filtered_ids m1)\<rparr>))"

section \<open>Validation\<close>

datatype manifest_error = GeneratedMismatch | EvaluatedMismatch | DuplicateIds | MissingValues string

definition validate_manifest :: "('v, 'h) coverage_manifest \<Rightarrow> manifest_error list" where
  "validate_manifest m =
     (if generated_count m \<noteq> evaluated_count m + pruned_count m then [GeneratedMismatch] else [])
     @ (if evaluated_count m \<noteq> successful_count m + filtered_count m + failed_count m
        then [EvaluatedMismatch] else [])
     @ (if duplicate_ids m \<noteq> [] then [DuplicateIds] else [])
     @ map (\<lambda>(name, c). MissingValues name) (filter (\<lambda>(name, c). missing_values c \<noteq> {}) (cm_coverage m))"

definition raise_if_invalid :: "('v, 'h) coverage_manifest \<Rightarrow> unit result" where
  "raise_if_invalid m = (if validate_manifest m \<noteq> [] then Inl (CoverageError ''manifest'') else Inr ())"

section \<open>A run that records one outcome for each point\<close>

datatype outcome = Success | Pruned string | Failed | Filtered

fun record_outcome :: "('v, 'h) design_point \<times> outcome \<Rightarrow> ('v, 'h) coverage_manifest \<Rightarrow> ('v, 'h) coverage_manifest" where
  "record_outcome (p, Success) m = record_success p m"
| "record_outcome (p, Pruned reason) m = record_pruned p reason m"
| "record_outcome (p, Failed) m = record_failed p m"
| "record_outcome (p, Filtered) m = record_filtered p m"

definition record_all :: "(('v, 'h) design_point \<times> outcome) list \<Rightarrow> ('v, 'h) coverage_manifest \<Rightarrow> ('v, 'h) coverage_manifest" where
  "record_all = fold record_outcome"

fun is_pruned :: "outcome \<Rightarrow> bool" where
  "is_pruned (Pruned _) = True"
| "is_pruned _ = False"

text \<open>The ids a list of outcomes puts into each set.\<close>

abbreviation ids_where :: "(outcome \<Rightarrow> bool) \<Rightarrow> (('v, 'h) design_point \<times> outcome) list \<Rightarrow> string set" where
  "ids_where P os \<equiv> set (map (\<lambda>x. dp_design_point_id (fst x)) (filter (\<lambda>x. P (snd x)) os))"

lemma mark_ids [simp]:
  "cm_points (mark f p m) = cm_points m" "cm_evaluated_ids (mark f p m) = cm_evaluated_ids m"
  "cm_pruned_ids (mark f p m) = cm_pruned_ids m" "cm_successful_ids (mark f p m) = cm_successful_ids m"
  "cm_filtered_ids (mark f p m) = cm_filtered_ids m" "cm_failed_ids (mark f p m) = cm_failed_ids m"
  by (simp_all add: mark_def)

lemmas record_defs = record_evaluated_def record_success_def clear_success_state_def record_pruned_def
  record_failed_def record_filtered_def add_point_exclusion_def Let_def

lemma record_outcome_ids:
  "cm_points (record_outcome (p, o') m) = cm_points m"
  "cm_evaluated_ids (record_outcome (p, o') m) = (if is_pruned o'
     then cm_evaluated_ids m - {dp_design_point_id p} else insert (dp_design_point_id p) (cm_evaluated_ids m))"
  "cm_pruned_ids (record_outcome (p, o') m) = (if is_pruned o'
     then insert (dp_design_point_id p) (cm_pruned_ids m) else cm_pruned_ids m)"
  "cm_successful_ids (record_outcome (p, o') m) = (if o' = Success
     then insert (dp_design_point_id p) (cm_successful_ids m) else cm_successful_ids m - {dp_design_point_id p})"
  "cm_filtered_ids (record_outcome (p, o') m) = (if o' = Filtered
     then insert (dp_design_point_id p) (cm_filtered_ids m) else cm_filtered_ids m)"
  "cm_failed_ids (record_outcome (p, o') m) = (if o' = Failed
     then insert (dp_design_point_id p) (cm_failed_ids m) else cm_failed_ids m)"
  by (cases o'; simp add: record_defs)+

text \<open>With distinct ids, the sets after the run are those of the outcomes.\<close>

lemma record_all_ids:
  fixes m :: "('v, 'h) coverage_manifest"
  assumes "distinct (map (\<lambda>x. dp_design_point_id (fst x)) os)"
    and "\<forall>x \<in> set os. dp_design_point_id (fst x) \<notin> cm_evaluated_ids m \<union> cm_successful_ids m"
  shows "cm_points (record_all os m) = cm_points m"
    and "cm_evaluated_ids (record_all os m) = cm_evaluated_ids m \<union> ids_where (\<lambda>x. \<not> is_pruned x) os"
    and "cm_pruned_ids (record_all os m) = cm_pruned_ids m \<union> ids_where is_pruned os"
    and "cm_successful_ids (record_all os m) = cm_successful_ids m \<union> ids_where (\<lambda>x. x = Success) os"
    and "cm_filtered_ids (record_all os m) = cm_filtered_ids m \<union> ids_where (\<lambda>x. x = Filtered) os"
    and "cm_failed_ids (record_all os m) = cm_failed_ids m \<union> ids_where (\<lambda>x. x = Failed) os"
proof -
  have "cm_points (record_all os m) = cm_points m
    \<and> cm_evaluated_ids (record_all os m) = cm_evaluated_ids m \<union> ids_where (\<lambda>x. \<not> is_pruned x) os
    \<and> cm_pruned_ids (record_all os m) = cm_pruned_ids m \<union> ids_where is_pruned os
    \<and> cm_successful_ids (record_all os m) = cm_successful_ids m \<union> ids_where (\<lambda>x. x = Success) os
    \<and> cm_filtered_ids (record_all os m) = cm_filtered_ids m \<union> ids_where (\<lambda>x. x = Filtered) os
    \<and> cm_failed_ids (record_all os m) = cm_failed_ids m \<union> ids_where (\<lambda>x. x = Failed) os"
    using assms
  proof (induction os arbitrary: m)
    case Nil
    then show ?case by (simp add: record_all_def)
  next
    case (Cons x os)
    obtain p o' where x: "x = (p, o')" by (cases x)
    have ne: "\<forall>y \<in> set os. dp_design_point_id (fst y) \<noteq> dp_design_point_id p"
      using Cons.prems(1) by (force simp: x)
    have new: "\<forall>y \<in> set os. dp_design_point_id (fst y) \<notin>
        cm_evaluated_ids (record_outcome x m) \<union> cm_successful_ids (record_outcome x m)"
      using Cons.prems(2) ne by (auto simp: x record_outcome_ids)
    have step: "record_all ((p, o') # os) m = record_all os (record_outcome (p, o') m)" by (simp add: record_all_def)
    have d: "distinct (map (\<lambda>x. dp_design_point_id (fst x)) os)" using Cons.prems(1) by simp
    have own: "dp_design_point_id p \<notin> cm_evaluated_ids m" "dp_design_point_id p \<notin> cm_successful_ids m"
      using Cons.prems(2) by (auto simp: x)
    from Cons.IH[OF d new] own show ?case
      unfolding x step record_outcome_ids by (cases o') (simp_all del: record_outcome.simps)
  qed
  then show "cm_points (record_all os m) = cm_points m"
    and "cm_evaluated_ids (record_all os m) = cm_evaluated_ids m \<union> ids_where (\<lambda>x. \<not> is_pruned x) os"
    and "cm_pruned_ids (record_all os m) = cm_pruned_ids m \<union> ids_where is_pruned os"
    and "cm_successful_ids (record_all os m) = cm_successful_ids m \<union> ids_where (\<lambda>x. x = Success) os"
    and "cm_filtered_ids (record_all os m) = cm_filtered_ids m \<union> ids_where (\<lambda>x. x = Filtered) os"
    and "cm_failed_ids (record_all os m) = cm_failed_ids m \<union> ids_where (\<lambda>x. x = Failed) os" by auto
qed

section \<open>Properties\<close>

lemma count_ids_where:
  assumes "distinct (map dp_design_point_id (cm_points m))" and "mset (map fst os) = mset (cm_points m)"
  shows "count_ids m (ids_where P os) = length (filter (\<lambda>x. P (snd x)) os)"
proof -
  have "mset (map (\<lambda>x. dp_design_point_id (fst x)) os) = mset (map dp_design_point_id (cm_points m))"
    using assms(2) by (metis (no_types, lifting) comp_apply list.map_comp list.map_cong0 mset_map)
  then have d: "distinct (map (\<lambda>x. dp_design_point_id (fst x)) os)"
    using assms(1) by (metis mset_eq_imp_distinct_iff)
  then have inj: "x = y" if "x \<in> set os" "y \<in> set os" "dp_design_point_id (fst x) = dp_design_point_id (fst y)" for x y
    using that by (auto simp: distinct_map inj_on_def)
  let ?Q = "\<lambda>p. dp_design_point_id p \<in> ids_where P os"
  have "count_ids m (ids_where P os) = size (filter_mset ?Q (mset (cm_points m)))"
    unfolding count_ids_def by (metis mset_filter size_mset)
  also have "\<dots> = length (filter ?Q (map fst os))"
    unfolding assms(2)[symmetric] by (metis mset_filter size_mset)
  also have "\<dots> = length (filter (\<lambda>x. ?Q (fst x)) os)" by (simp add: filter_map comp_def)
  also have "filter (\<lambda>x. dp_design_point_id (fst x) \<in> ids_where P os) os = filter (\<lambda>x. P (snd x)) os"
  proof (rule filter_cong[OF refl])
    fix x assume x: "x \<in> set os"
    show "dp_design_point_id (fst x) \<in> ids_where P os \<longleftrightarrow> P (snd x)"
    proof
      assume "dp_design_point_id (fst x) \<in> ids_where P os"
      then obtain y where "y \<in> set os" "P (snd y)" "dp_design_point_id (fst x) = dp_design_point_id (fst y)" by auto
      with inj[OF x] show "P (snd x)" by blast
    next
      assume "P (snd x)"
      with x have "x \<in> set (filter (\<lambda>x. P (snd x)) os)" by simp
      then show "dp_design_point_id (fst x) \<in> ids_where P os" unfolding set_map by (rule imageI)
    qed
  qed
  finally show ?thesis .
qed

lemma duplicate_fold:
  "snd (fold (\<lambda>p (seen, dups). (set_add (dp_design_point_id p) seen,
      if dp_design_point_id p \<in> set seen then set_add (dp_design_point_id p) dups else dups)) ps (seen, []))
   = [] \<longleftrightarrow> distinct (map dp_design_point_id ps) \<and> set (map dp_design_point_id ps) \<inter> set seen = {}"
proof -
  let ?f = "\<lambda>p (seen, dups). (set_add (dp_design_point_id p) seen,
      if dp_design_point_id p \<in> set seen then set_add (dp_design_point_id p) dups else dups)"
  have grow: "dups \<noteq> [] \<Longrightarrow> snd (fold ?f ps (seen, dups)) \<noteq> []" for ps seen dups
    by (induction ps arbitrary: seen dups) (auto simp: set_add_def)
  show ?thesis
  proof (induction ps arbitrary: seen)
    case Nil
    then show ?case by simp
  next
    case (Cons p ps)
    show ?case
    proof (cases "dp_design_point_id p \<in> set seen")
      case True
      then have "fold ?f (p # ps) (seen, []) = fold ?f ps (seen, [dp_design_point_id p])"
        by (simp add: set_add_def)
      with grow[of "[dp_design_point_id p]" ps seen] True show ?thesis by simp
    next
      case False
      with Cons.IH[of "seen @ [dp_design_point_id p]"] show ?thesis by (auto simp: set_add_def)
    qed
  qed
qed

lemma duplicate_ids_iff: "duplicate_ids m = [] \<longleftrightarrow> distinct (map dp_design_point_id (cm_points m))"
proof -
  have "sort ys = [] \<longleftrightarrow> ys = []" for ys :: "string list" by (metis length_0_conv length_sort)
  then show ?thesis using duplicate_fold[of "cm_points m" "[]"] by (simp add: duplicate_ids_def)
qed

definition demo_point :: "string \<Rightarrow> int \<Rightarrow> (int, unit) design_point" where
  "demo_point i v = \<lparr>dp_design_point_id = i, dp_hardware_config = (), dp_scenario_ref = [], dp_workload_ref = None,
     dp_axis_values = [(''a'', v)]\<rparr>"

definition demo_manifest :: "(int, unit) coverage_manifest" where
  "demo_manifest = coverage_manifest_new [(''a'', \<lparr>ax_name = ''a'', ax_values = [1, 2, 3]\<rparr>)]
     [demo_point ''p'' 1, demo_point ''q'' 2, demo_point ''r'' 1] []"

text \<open>When every generated point gets one outcome and the ids are distinct, the manifest's
  count invariants hold: generated is evaluated plus pruned, evaluated is successful plus filtered
  plus failed, and no id is a duplicate; validation can then only report missing axis values.\<close>

theorem recorded_run_balances:
  fixes points :: "('v, 'h) design_point list"
  assumes "distinct (map dp_design_point_id points)" and "mset (map fst os) = mset points"
    and m_def: "m = record_all os (coverage_manifest_new axes points exclusions)"
  shows "generated_count m = evaluated_count m + pruned_count m
    \<and> evaluated_count m = successful_count m + filtered_count m + failed_count m
    \<and> validate_manifest m
        = map (\<lambda>(name, c). MissingValues name) (filter (\<lambda>(name, c). missing_values c \<noteq> {}) (cm_coverage m))"
proof -
  let ?m0 = "coverage_manifest_new axes points exclusions"
  have m0: "cm_points ?m0 = points" "cm_evaluated_ids ?m0 = {}" "cm_successful_ids ?m0 = {}" "cm_pruned_ids ?m0 = {}"
    "cm_filtered_ids ?m0 = {}" "cm_failed_ids ?m0 = {}"
    by (simp_all add: coverage_manifest_new_def Let_def)
  have "mset (map (\<lambda>x. dp_design_point_id (fst x)) os) = mset (map dp_design_point_id points)"
    using assms(2) by (metis (no_types, lifting) comp_apply list.map_comp list.map_cong0 mset_map)
  then have d: "distinct (map (\<lambda>x. dp_design_point_id (fst x)) os)"
    using assms(1) by (metis mset_eq_imp_distinct_iff)
  note ids = record_all_ids[OF d, of ?m0, folded m_def, unfolded m0, simplified]
  have len: "length os = length points" using assms(2) by (metis length_map size_mset)
  have cnt: "count_ids m (ids_where P os) = length (filter (\<lambda>x. P (snd x)) os)" for P
    using assms(1,2) by (intro count_ids_where) (simp_all add: ids(1))
  have split: "length (filter (\<lambda>x. \<not> is_pruned (snd x)) xs) + length (filter (\<lambda>x. is_pruned (snd x)) xs) = length xs"
    "length (filter (\<lambda>x. \<not> is_pruned (snd x)) xs) = length (filter (\<lambda>x. snd x = Success) xs)
      + length (filter (\<lambda>x. snd x = Filtered) xs) + length (filter (\<lambda>x. snd x = Failed) xs)"
    for xs :: "(('v, 'h) design_point \<times> outcome) list"
    by (induction xs) (auto split: prod.splits, (metis is_pruned.elims(3) outcome.distinct)+)
  have counts: "evaluated_count m = length (filter (\<lambda>x. \<not> is_pruned (snd x)) os)"
    "pruned_count m = length (filter (\<lambda>x. is_pruned (snd x)) os)"
    "successful_count m = length (filter (\<lambda>x. snd x = Success) os)"
    "filtered_count m = length (filter (\<lambda>x. snd x = Filtered) os)"
    "failed_count m = length (filter (\<lambda>x. snd x = Failed) os)"
    unfolding evaluated_count_def pruned_count_def successful_count_def filtered_count_def failed_count_def
    using cnt ids by simp_all
  have "generated_count m = length os" by (simp add: generated_count_def ids(1) len)
  moreover have "duplicate_ids m = []" using assms(1) by (simp add: duplicate_ids_iff ids(1))
  ultimately show ?thesis using counts split[of os] by (simp add: validate_manifest_def)
qed


theorem recorded_run_balances_witness:
  "let m = record_all [(demo_point ''q'' 2, Failed), (demo_point ''p'' 1, Success)]
      (coverage_manifest_new [(''a'', \<lparr>ax_name = ''a'', ax_values = [1, 2]\<rparr>)] [demo_point ''p'' 1, demo_point ''q'' 2] [])
   in generated_count m = evaluated_count m + pruned_count m"
  using recorded_run_balances[of "[demo_point ''p'' 1, demo_point ''q'' 2]"
      "[(demo_point ''q'' 2, Failed), (demo_point ''p'' 1, Success)]", OF _ _ refl]
  by (simp add: demo_point_def Let_def)

text \<open>
  Pruning one point takes its axis values out of the evaluated and successful sets even where
  another, successful point has them.
\<close>

lemma pruning_forgets_other_points:
  "let m = record_pruned (demo_point ''r'' 1) ''late'' (record_success (demo_point ''p'' 1) demo_manifest)
   in successful_count m = 1 \<and> map_option ac_successful (map_of (cm_coverage m) ''a'') = Some {}"
  by code_simp

subsection \<open>Coverage of generated points\<close>

lemma map_of_on_axis: "map_of (on_axis f axis cov) a = (if a = axis then map_option f (map_of cov a) else map_of cov a)"
  by (auto simp: on_axis_def dict_simps split: option.splits)

lemma map_of_each_value:
  "map_of (each_value f combo cov) a = map_option (fold f (map snd (filter (\<lambda>e. fst e = a) combo))) (map_of cov a)"
  unfolding each_value_def
  by (induction combo arbitrary: cov) (auto simp: map_of_on_axis option.map_comp comp_def option.map_id)

lemma fold_generated:
  "fold (\<lambda>v c. c\<lparr>ac_generated := insert v (ac_generated c)\<rparr>) vs c = c\<lparr>ac_generated := set vs \<union> ac_generated c\<rparr>"
  by (induction vs arbitrary: c) auto

lemma coverage_generated:
  "map_of (fold (\<lambda>p. each_value (\<lambda>v c. c\<lparr>ac_generated := insert v (ac_generated c)\<rparr>) (dp_axis_values p)) ps cov) a
   = map_option (\<lambda>c. c\<lparr>ac_generated := {v. \<exists>p \<in> set ps. (a, v) \<in> set (dp_axis_values p)} \<union> ac_generated c\<rparr>)
       (map_of cov a)"
proof (induction ps arbitrary: cov)
  case Nil
  then show ?case by (simp add: option.map_ident)
next
  case (Cons p ps)
  have "set (map snd (filter (\<lambda>e. fst e = a) (dp_axis_values p))) = {v. (a, v) \<in> set (dp_axis_values p)}"
    by force
  moreover have "{v. \<exists>q \<in> set (p # ps). (a, v) \<in> set (dp_axis_values q)} =
      {v. \<exists>q \<in> set ps. (a, v) \<in> set (dp_axis_values q)} \<union> {v. (a, v) \<in> set (dp_axis_values p)}" by auto
  ultimately show ?case
    by (cases "map_of cov a") (simp_all add: Cons.IH map_of_each_value fold_generated Un_assoc)
qed

lemma coverage_exclusions:
  "map_of (fold (\<lambda>e. on_axis (add_exclusion e) (ex_axis e)) es cov) a
   = map_option (\<lambda>c. c\<lparr>ac_exclusions := ac_exclusions c @ filter (\<lambda>e. ex_axis e = a) es\<rparr>) (map_of cov a)"
proof (induction es arbitrary: cov)
  case Nil
  then show ?case by (simp add: option.map_ident)
next
  case (Cons e es)
  have "map_of (fold (\<lambda>e. on_axis (add_exclusion e) (ex_axis e)) (e # es) cov) a =
      map_option (\<lambda>c. c\<lparr>ac_exclusions := ac_exclusions c @ filter (\<lambda>e. ex_axis e = a) es\<rparr>)
        (if a = ex_axis e then map_option (add_exclusion e) (map_of cov a) else map_of cov a)"
    by (simp only: fold_simps Cons.IH map_of_on_axis)
  also have "\<dots> = map_option (\<lambda>c. c\<lparr>ac_exclusions := ac_exclusions c @ filter (\<lambda>e. ex_axis e = a) (e # es)\<rparr>)
      (map_of cov a)"
    by (cases "map_of cov a"; cases "a = ex_axis e") (simp_all add: add_exclusion_def)
  finally show ?case .
qed

lemma new_manifest_coverage:
  assumes "map_of axes a = Some spec"
  shows "map_of (cm_coverage (coverage_manifest_new axes points exclusions)) a
    = Some ((new_coverage a spec)\<lparr>ac_generated := {v. \<exists>p \<in> set points. (a, v) \<in> set (dp_axis_values p)},
        ac_exclusions := filter (\<lambda>e. ex_axis e = a) exclusions\<rparr>)"
proof -
  have "map_of (map (\<lambda>(name, spec). (name, new_coverage name spec)) axes) a = Some (new_coverage a spec)"
    using assms by (induction axes) auto
  then show ?thesis
    by (simp add: coverage_manifest_new_def Let_def coverage_exclusions coverage_generated)
      (simp add: new_coverage_def)
qed

lemma check_combo_reason:
  "check_combo cs combo = Some x \<Longrightarrow> \<exists>c \<in> set cs. ex_reason x = ct_reason c"
  by (induction cs) (auto simp: Let_def split: if_splits list.splits)

text \<open>In the manifest of an all-axes run, a requested value that is missing is one whose own
  combination could not be repaired: the constraints reject it after repair. No value is
  lost silently between the generator and the manifest, provided every exclusion record has a
  reason.\<close>

theorem missing_values_were_rejected:
  assumes "ds_mode d = CiAllAxes"
    and "generate_with_exclusions hw digest sc wl engines d = Inr (points, exclusions)"
    and "\<forall>x \<in> set exclusions. ex_reason x \<noteq> []"
    and "map_of (ds_axes d) axis = Some spec"
    and "map_of (cm_coverage (coverage_manifest_new (ds_axes d) points exclusions)) axis = Some c"
    and "v \<in> missing_values c"
  shows "v \<in> set (ax_values spec) \<and> (\<exists>combo changes.
      repair (ds_constraints d) (AList.update axis v (ds_defaults d)) = Inr (combo, changes)
      \<and> \<not> combo_valid (ds_constraints d) combo)"
proof -
  from assms(5) have c: "c = (new_coverage axis spec)\<lparr>
        ac_generated := {v. \<exists>p \<in> set points. (axis, v) \<in> set (dp_axis_values p)},
        ac_exclusions := filter (\<lambda>e. ex_axis e = axis) exclusions\<rparr>"
    unfolding new_manifest_coverage[OF assms(4)] by simp
  from assms(6) have v: "v \<in> set (ax_values spec)" "\<not> (\<exists>p \<in> set points. (axis, v) \<in> set (dp_axis_values p))"
    "\<not> (\<exists>x \<in> set exclusions. ex_axis x = axis \<and> ex_reason x \<noteq> [] \<and> ex_value x = Some v)"
    by (auto simp: c missing_values_def excluded_values_def new_coverage_def image_iff)
  have ci: "ci_all_axes_combinations engines d = Inr (map dp_axis_values points, exclusions)"
    using generated_points[OF assms(2)] by (simp add: combinations_def assms(1))
  have "(axis, spec) \<in> set (ds_axes d)" using assms(4) by (rule map_of_SomeD)
  then have "(axis, v) \<in> set (axis_value_pairs d)" using v(1) by (auto simp: axis_value_pairs_iff)
  moreover have "\<forall>e \<in> set (axis_value_pairs d). value_covered d e (map dp_axis_values points) exclusions"
    by (rule value_covered_all[OF ci])
  ultimately have "value_covered d (axis, v) (map dp_axis_values points) exclusions" by blast
  with v(2,3) assms(3) obtain x combo changes where
    "repair (ds_constraints d) (AList.update axis v (ds_defaults d)) = Inr (combo, changes)"
    "check_combo (ds_constraints d) combo = Some x"
    unfolding value_covered_def fst_conv snd_conv by (metis (no_types, lifting) imageE map_of_SomeD set_map)
  with v(1) check_combo_valid show ?thesis by (metis option.distinct(1))
qed

text \<open>A constraint without condition that excludes the value 2 of the axis: its exclusion names no axis.\<close>

definition demo_missing :: "int design_space" where
  "demo_missing = projr (design_space_new ''ci_all_axes'' [(''a'', [1, 2])]
     [\<lparr>rc_name = None, rc_when = [], rc_require = [], rc_exclude = [[(''a'', Single 2)]], rc_reason = ''no_two''\<rparr>]
     [(''a'', 1)] None)"

definition demo_missing_run :: "(int, unit) design_point list \<times> int exclusion_record list" where
  "demo_missing_run = projr (generate_with_exclusions (\<lambda>_. Inr ()) (\<lambda>_. ''id'') ''s'' None [] demo_missing)"

definition demo_missing_coverage :: "int axis_coverage" where
  "demo_missing_coverage = the (map_of (cm_coverage
     (coverage_manifest_new (ds_axes demo_missing) (fst demo_missing_run) (snd demo_missing_run))) ''a'')"

theorem missing_values_were_rejected_witness:
  "\<exists>combo changes. repair (ds_constraints demo_missing) (AList.update ''a'' 2 (ds_defaults demo_missing)) = Inr (combo, changes)
   \<and> \<not> combo_valid (ds_constraints demo_missing) combo"
proof -
  have "is_ok (generate_with_exclusions (\<lambda>_. Inr ()) (\<lambda>_. ''id'') ''s'' None [] demo_missing)" by code_simp
  then have g: "generate_with_exclusions (\<lambda>_. Inr ()) (\<lambda>_. ''id'') ''s'' None [] demo_missing
      = Inr (fst demo_missing_run, snd demo_missing_run)"
    unfolding demo_missing_run_def prod.collapse
    by (cases "generate_with_exclusions (\<lambda>_. Inr ()) (\<lambda>_. ''id'') ''s'' None [] demo_missing :: _ + (int, unit) design_point list \<times> _")
      simp_all
  have 1: "ds_mode demo_missing = CiAllAxes" by code_simp
  have 2: "\<forall>x \<in> set (snd demo_missing_run). ex_reason x \<noteq> []" by code_simp
  have 3: "map_of (ds_axes demo_missing) ''a'' = Some \<lparr>ax_name = ''a'', ax_values = [1, 2]\<rparr>" by code_simp
  have 4: "map_of (cm_coverage (coverage_manifest_new (ds_axes demo_missing) (fst demo_missing_run) (snd demo_missing_run))) ''a''
      = Some demo_missing_coverage"
    unfolding new_manifest_coverage[OF 3] demo_missing_coverage_def by simp
  have 5: "2 \<in> missing_values demo_missing_coverage"
    unfolding demo_missing_coverage_def missing_values_def mem_Collect_eq by code_simp
  from missing_values_were_rejected[OF 1 g 2 3 4 5] show ?thesis by blast
qed


end
