(* ===== verification/Dse_Pareto.thy ===== *)
theory Dse_Pareto
  imports Scen_Schema
begin

text \<open>
  Result schema (\<open>sim/contracts/result.py\<close>) and the multi-objective frontier
  (\<open>sim/dse/pareto.py\<close>): hard gates, objective values, dominance, the frontier, the gate summary
  and the release gate.

  Objective values are finite floats or the infinities that stand for a missing metric; NaN
  metrics are not modelled. The reason texts of gates are left out: a gate that fails always has one.
  Scenario metadata are the entries the code reads.
\<close>

section \<open>Extended values\<close>

datatype xreal = NegInf | Fin rat | PosInf

instantiation xreal :: linorder
begin

fun less_eq_xreal :: "xreal \<Rightarrow> xreal \<Rightarrow> bool" where
  "NegInf \<le> y = True"
| "Fin a \<le> Fin b = (a \<le> b)"
| "Fin a \<le> PosInf = True"
| "Fin a \<le> NegInf = False"
| "PosInf \<le> PosInf = True"
| "PosInf \<le> Fin b = False"
| "PosInf \<le> NegInf = False"

definition less_xreal :: "xreal \<Rightarrow> xreal \<Rightarrow> bool" where
  "less_xreal x y = (x \<le> y \<and> \<not> y \<le> x)"

instance
proof
  fix x y z :: xreal
  show "(x < y) = (x \<le> y \<and> \<not> y \<le> x)" by (rule less_xreal_def)
  show "x \<le> x" by (cases x) simp_all
  show "x \<le> y \<Longrightarrow> y \<le> z \<Longrightarrow> x \<le> z" by (cases x; cases y; cases z) simp_all
  show "x \<le> y \<Longrightarrow> y \<le> x \<Longrightarrow> x = y" by (cases x; cases y) simp_all
  show "x \<le> y \<or> y \<le> x" by (cases x; cases y) auto
qed

end

section \<open>Results\<close>

datatype run_status = RunComplete | RunPartial | RunFailed | RunFiltered

datatype run_trust_level = Authoritative | CalibratedEstimate | Exploratory | NonAuthoritative

record error_record =
  er_design_point_id :: string
  er_code :: string
  er_message :: string

definition error_record_new :: "string \<Rightarrow> string \<Rightarrow> string \<Rightarrow> error_record" where
  "error_record_new i code msg = \<lparr>er_design_point_id = i, er_code = code, er_message = take 200 msg\<rparr>"

record engine_metrics =
  em_tok_per_s :: rat
  em_area_mm2 :: rat
  em_power_w :: rat
  em_ttft_ms :: rat
  em_efficiency_tok_per_watt :: rat
  em_efficiency_tok_per_mm2 :: rat
  em_completed_throughput_hz :: "rat option"
  em_mac_count :: "rat option"
  em_op_count :: "rat option"
  em_total_cycles :: "rat option"
  em_utilization :: "rat option"
  em_sram_spill_mb :: "rat option"
  em_depthwise_util_pct :: "rat option"
  em_avg_latency_s :: "rat option"
  em_p50_latency_s :: "rat option"
  em_p99_latency_s :: "rat option"
  em_max_latency_s :: "rat option"
  em_deadline_miss_count :: "rat option"
  em_drop_count :: "rat option"
  em_memory_footprint_gib :: "rat option"
  em_spill_bytes :: "rat option"
  em_energy_joules :: "rat option"

record design_point_result =
  pr_design_point_id :: string
  pr_status :: run_status
  pr_hardware_digest :: string
  pr_scenario_ref :: string
  pr_workload_ref :: string
  pr_config_label :: string
  pr_engine_type :: string
  pr_trust_level :: run_trust_level
  pr_metrics :: "engine_metrics option"
  pr_error :: "error_record option"

record design_space_result =
  dr_trust_level :: run_trust_level
  dr_results :: "design_point_result list"
  dr_errors :: "error_record list"
  dr_frontier_design_point_ids :: "string list"

definition release_recommendation :: "design_space_result \<Rightarrow> design_point_result list result" where
  "release_recommendation r =
     (if dr_trust_level r \<noteq> Authoritative then Inl (NonAuthoritativeRunError ''trust_level'')
      else if filter (\<lambda>p. pr_trust_level p \<noteq> Authoritative) (dr_results r) \<noteq> []
        then Inl (NonAuthoritativeRunError ''non_authoritative points'')
      else Inr (filter (\<lambda>p. pr_status p = RunComplete) (dr_results r)))"

section \<open>Objectives\<close>

datatype objective_direction = MAXIMIZE | MINIMIZE

record objective =
  ob_name :: string
  ob_metric_field :: string
  ob_direction :: objective_direction

definition default_objectives :: "objective list" where
  "default_objectives =
     [\<lparr>ob_name = ''completed_throughput_hz'', ob_metric_field = ''completed_throughput_hz'', ob_direction = MAXIMIZE\<rparr>,
      \<lparr>ob_name = ''latency_p99_ms'', ob_metric_field = ''p99_latency_s'', ob_direction = MINIMIZE\<rparr>,
      \<lparr>ob_name = ''deadline_miss_count'', ob_metric_field = ''deadline_miss_count'', ob_direction = MINIMIZE\<rparr>,
      \<lparr>ob_name = ''area_mm2'', ob_metric_field = ''area_mm2'', ob_direction = MINIMIZE\<rparr>,
      \<lparr>ob_name = ''power_w'', ob_metric_field = ''power_w'', ob_direction = MINIMIZE\<rparr>,
      \<lparr>ob_name = ''energy_joules'', ob_metric_field = ''energy_joules'', ob_direction = MINIMIZE\<rparr>]"

text \<open>The attributes of the metrics by name.\<close>

definition metric_attributes :: "engine_metrics \<Rightarrow> (string, rat option) dict" where
  "metric_attributes m =
     [(''tok_per_s'', Some (em_tok_per_s m)), (''area_mm2'', Some (em_area_mm2 m)), (''power_w'', Some (em_power_w m)),
      (''ttft_ms'', Some (em_ttft_ms m)), (''efficiency_tok_per_watt'', Some (em_efficiency_tok_per_watt m)),
      (''efficiency_tok_per_mm2'', Some (em_efficiency_tok_per_mm2 m)),
      (''completed_throughput_hz'', em_completed_throughput_hz m), (''mac_count'', em_mac_count m),
      (''op_count'', em_op_count m), (''total_cycles'', em_total_cycles m), (''utilization'', em_utilization m),
      (''sram_spill_mb'', em_sram_spill_mb m), (''depthwise_util_pct'', em_depthwise_util_pct m),
      (''avg_latency_s'', em_avg_latency_s m), (''p50_latency_s'', em_p50_latency_s m),
      (''p99_latency_s'', em_p99_latency_s m), (''max_latency_s'', em_max_latency_s m),
      (''deadline_miss_count'', em_deadline_miss_count m), (''drop_count'', em_drop_count m),
      (''memory_footprint_gib'', em_memory_footprint_gib m), (''spill_bytes'', em_spill_bytes m),
      (''energy_joules'', em_energy_joules m)]"

definition latency_alias :: "(string, string) dict" where
  "latency_alias = [(''latency_p99_ms'', ''p99_latency_s''), (''avg_latency_ms'', ''avg_latency_s''),
     (''p50_latency_ms'', ''p50_latency_s''), (''max_latency_ms'', ''max_latency_s'')]"

definition metric_value :: "engine_metrics option \<Rightarrow> string \<Rightarrow> rat option" where
  "metric_value metrics f = (case metrics of None \<Rightarrow> None
     | Some m \<Rightarrow> (case map_of (metric_attributes m) f of
         Some v \<Rightarrow> v
       | None \<Rightarrow> (case map_of latency_alias f of
           None \<Rightarrow> None
         | Some f' \<Rightarrow> (case map_of (metric_attributes m) f' of Some v \<Rightarrow> v | None \<Rightarrow> None))))"

text \<open>The metadata entries read: \<open>objectives\<close> (each a dict of strings, or something else),
  \<open>thermal_limit_w\<close> and \<open>quality_gate_required\<close>.\<close>

record scenario_metadata =
  md_objectives :: "(string, string) dict option list"
  md_thermal_limit_w :: "rat option"
  md_quality_gate_required :: bool

definition parse_direction :: "string \<Rightarrow> objective_direction result" where
  "parse_direction s = (if s = ''maximize'' then Inr MAXIMIZE else if s = ''minimize'' then Inr MINIMIZE
     else Inl (ValueError ''direction''))"

definition parse_objective :: "(string, string) dict option \<Rightarrow> objective result" where
  "parse_objective item = (case item of
       None \<Rightarrow> Inl (ConfigError ''metadata.objectives'')
     | Some d \<Rightarrow>
         let n = dget d ''name'' [];
             name = (if n \<noteq> [] then n else dget d ''metric_field'' []);
             metric_field = dget d ''metric_field'' name
         in bind_res (parse_direction (dget d ''direction'' ''maximize'')) (\<lambda>dir.
              if name = [] \<or> metric_field = [] then Inl (ConfigError ''metadata.objectives'')
              else Inr \<lparr>ob_name = name, ob_metric_field = metric_field, ob_direction = dir\<rparr>))"

definition objectives_from_scenario :: "scenario_metadata \<Rightarrow> objective list result" where
  "objectives_from_scenario md =
     (if md_objectives md = [] then Inr default_objectives else map_result parse_objective (md_objectives md))"

definition scenario_deadline_ms :: "scenario \<Rightarrow> rat option" where
  "scenario_deadline_ms sc =
     (let ds = List.map_filter wc_relative_deadline_ms (sc_classes sc)
      in if ds = [] then None else Some (Min (set ds)))"

definition scenario_thermal_limit_w :: "scenario_metadata \<Rightarrow> rat" where
  "scenario_thermal_limit_w md = (case md_thermal_limit_w md of None \<Rightarrow> 150 | Some x \<Rightarrow> fl x)"

record pareto_filter =
  pf_objectives :: "objective list"
  pf_deadline_ms :: "rat option"
  pf_thermal_limit_w :: "rat option"
  pf_quality_gate_required :: bool

definition pareto_filter_new :: "objective list \<Rightarrow> rat option \<Rightarrow> rat option \<Rightarrow> bool \<Rightarrow> pareto_filter" where
  "pareto_filter_new objs deadline thermal quality =
     \<lparr>pf_objectives = (if objs \<noteq> [] then objs else default_objectives), pf_deadline_ms = deadline,
      pf_thermal_limit_w = thermal, pf_quality_gate_required = quality\<rparr>"

definition from_scenario :: "scenario \<Rightarrow> scenario_metadata \<Rightarrow> pareto_filter result" where
  "from_scenario sc md = bind_res (objectives_from_scenario md) (\<lambda>objs.
     Inr (pareto_filter_new objs (scenario_deadline_ms sc) (Some (scenario_thermal_limit_w md))
       (md_quality_gate_required md)))"

section \<open>Gates\<close>

datatype hard_gate = COMPLETE | NO_CPU_FALLBACK | CAPACITY_FIT | QUALITY_GATE | P99_DEADLINE | POWER_THERMAL
  | TERMINAL_COMPLETION | AUTHORITATIVE

type_synonym gate_result = "hard_gate \<times> bool"

definition exceeds :: "rat option \<Rightarrow> rat \<Rightarrow> bool" where
  "exceeds v limit = (case v of None \<Rightarrow> False | Some x \<Rightarrow> limit < x)"

definition evaluate_gates :: "pareto_filter \<Rightarrow> design_point_result \<Rightarrow> gate_result list" where
  "evaluate_gates pf r =
     [(COMPLETE, pr_status r = RunComplete),
      (NO_CPU_FALLBACK, lower (pr_engine_type r) \<noteq> ''cpu''),
      (CAPACITY_FIT, case pr_metrics r of None \<Rightarrow> True
        | Some m \<Rightarrow> (case em_memory_footprint_gib m of None \<Rightarrow> True | Some f \<Rightarrow> 0 \<le> f)),
      (QUALITY_GATE, \<not> pf_quality_gate_required pf),
      (POWER_THERMAL, case (pf_thermal_limit_w pf, pr_metrics r) of
          (Some limit, Some m) \<Rightarrow> \<not> limit < em_power_w m | _ \<Rightarrow> True),
      (TERMINAL_COMPLETION, case pr_metrics r of None \<Rightarrow> True
        | Some m \<Rightarrow> \<not> exceeds (em_deadline_miss_count m) 0 \<and> \<not> exceeds (em_drop_count m) 0),
      (AUTHORITATIVE, if pf_quality_gate_required pf then pr_trust_level r = Authoritative
        else pr_trust_level r \<noteq> NonAuthoritative)]"

record pareto_point =
  pp_result :: design_point_result
  pp_gate_results :: "gate_result list"
  pp_objective_values :: "(string, xreal) dict"

definition passed_all_gates :: "pareto_point \<Rightarrow> bool" where
  "passed_all_gates p = list_all snd (pp_gate_results p)"

definition gate_failure_reasons :: "pareto_point \<Rightarrow> hard_gate list" where
  "gate_failure_reasons p = map fst (filter (\<lambda>g. \<not> snd g) (pp_gate_results p))"

definition objective_values :: "pareto_filter \<Rightarrow> design_point_result \<Rightarrow> (string, xreal) dict" where
  "objective_values pf r = fold (\<lambda>ob d. AList.update (ob_name ob)
     (case metric_value (pr_metrics r) (ob_metric_field ob) of
        None \<Rightarrow> if ob_direction ob = MAXIMIZE then NegInf else PosInf
      | Some x \<Rightarrow> Fin x) d) (pf_objectives pf) []"

section \<open>Dominance and the frontier\<close>

fun dominates_from :: "objective list \<Rightarrow> bool \<Rightarrow> pareto_point \<Rightarrow> pareto_point \<Rightarrow> bool" where
  "dominates_from [] strictly_better a b = strictly_better"
| "dominates_from (ob # obs) strictly_better a b =
     (let av = dget (pp_objective_values a) (ob_name ob) (Fin 0);
          bv = dget (pp_objective_values b) (ob_name ob) (Fin 0)
      in if ob_direction ob = MAXIMIZE
         then if av < bv then False else dominates_from obs (strictly_better \<or> bv < av) a b
         else if bv < av then False else dominates_from obs (strictly_better \<or> av < bv) a b)"

definition dominates :: "pareto_filter \<Rightarrow> pareto_point \<Rightarrow> pareto_point \<Rightarrow> bool" where
  "dominates pf a b = dominates_from (pf_objectives pf) False a b"

definition decorate :: "pareto_filter \<Rightarrow> design_point_result \<Rightarrow> pareto_point" where
  "decorate pf r = \<lparr>pp_result = r, pp_gate_results = evaluate_gates pf r,
     pp_objective_values = objective_values pf r\<rparr>"

definition decorated_points :: "pareto_filter \<Rightarrow> design_point_result list \<Rightarrow> pareto_point list" where
  "decorated_points pf rs = filter passed_all_gates (map (decorate pf) rs)"

text \<open>\<open>other is candidate\<close> compares objects: the positions in the list.\<close>

definition is_dominated :: "pareto_filter \<Rightarrow> pareto_point list \<Rightarrow> nat \<Rightarrow> bool" where
  "is_dominated pf ps i = list_ex (\<lambda>j. j \<noteq> i \<and> dominates pf (ps ! j) (ps ! i)) [0..<length ps]"

definition compute_frontier :: "pareto_filter \<Rightarrow> design_point_result list \<Rightarrow> pareto_point list" where
  "compute_frontier pf rs = (let ps = decorated_points pf rs in
     sort_key (\<lambda>p. pr_design_point_id (pp_result p))
       (map (\<lambda>i. ps ! i) (filter (\<lambda>i. \<not> is_dominated pf ps i) [0..<length ps])))"

definition count_gate :: "gate_result \<Rightarrow> (hard_gate, int \<times> int) dict \<Rightarrow> (hard_gate, int \<times> int) dict" where
  "count_gate g d = (let (passed, failed) = dget d (fst g) (0, 0)
     in AList.update (fst g) (if snd g then (passed + 1, failed) else (passed, failed + 1)) d)"

definition gate_summary :: "pareto_filter \<Rightarrow> design_point_result list \<Rightarrow> (hard_gate, int \<times> int) dict" where
  "gate_summary pf rs = fold (\<lambda>r. fold count_gate (evaluate_gates pf r)) rs []"

section \<open>Dominance is a strict order\<close>

definition no_worse :: "objective \<Rightarrow> pareto_point \<Rightarrow> pareto_point \<Rightarrow> bool" where
  "no_worse ob a b \<longleftrightarrow> (let av = dget (pp_objective_values a) (ob_name ob) (Fin 0);
      bv = dget (pp_objective_values b) (ob_name ob) (Fin 0)
    in if ob_direction ob = MAXIMIZE then bv \<le> av else av \<le> bv)"

definition pareto_better :: "objective list \<Rightarrow> pareto_point \<Rightarrow> pareto_point \<Rightarrow> bool" where
  "pareto_better obs a b \<longleftrightarrow> (\<forall>ob \<in> set obs. no_worse ob a b) \<and> (\<exists>ob \<in> set obs. \<not> no_worse ob b a)"

lemma dominates_from_iff:
  "dominates_from obs s a b \<longleftrightarrow> (\<forall>ob \<in> set obs. no_worse ob a b) \<and> (s \<or> (\<exists>ob \<in> set obs. \<not> no_worse ob b a))"
  by (induction obs arbitrary: s) (auto simp: no_worse_def Let_def not_le not_less)

lemma dominates_iff: "dominates pf a b \<longleftrightarrow> pareto_better (pf_objectives pf) a b"
  by (simp add: dominates_def dominates_from_iff pareto_better_def)

lemma no_worse_refl: "no_worse ob a a"
  by (simp add: no_worse_def Let_def)

lemma no_worse_trans: "no_worse ob a b \<Longrightarrow> no_worse ob b c \<Longrightarrow> no_worse ob a c"
  by (auto simp: no_worse_def Let_def split: if_splits)

lemma dominates_irrefl: "\<not> dominates pf a a"
  by (simp add: dominates_iff pareto_better_def no_worse_refl)

lemma dominates_trans: "dominates pf a b \<Longrightarrow> dominates pf b c \<Longrightarrow> dominates pf a c"
  unfolding dominates_iff pareto_better_def by (meson no_worse_trans)

lemma filter_nth: "map ((!) xs) (filter (\<lambda>i. P (xs ! i)) [0..<length xs]) = filter P xs"
  by (metis filter_map map_nth comp_def filter_cong)

lemma is_dominated_iff:
  "i < length ps \<Longrightarrow> is_dominated pf ps i \<longleftrightarrow> (\<exists>q \<in> set ps. dominates pf q (ps ! i))"
  unfolding is_dominated_def list_ex_iff set_upt atLeastLessThan_iff
  using dominates_irrefl[of pf "ps ! i"] by (metis atLeastLessThan_iff in_set_conv_nth le0)

lemma frontier_eq:
  "compute_frontier pf rs = sort_key (\<lambda>p. pr_design_point_id (pp_result p))
     (filter (\<lambda>p. \<not> (\<exists>q \<in> set (decorated_points pf rs). dominates pf q p)) (decorated_points pf rs))"
proof -
  let ?ps = "decorated_points pf rs"
  have "filter (\<lambda>i. \<not> is_dominated pf ?ps i) [0..<length ?ps]
      = filter (\<lambda>i. \<not> (\<exists>q \<in> set ?ps. dominates pf q (?ps ! i))) [0..<length ?ps]"
    by (rule filter_cong) (auto simp: is_dominated_iff)
  then show ?thesis
    unfolding compute_frontier_def Let_def
    by (simp only: filter_nth[of ?ps "\<lambda>p. \<not> (\<exists>q \<in> set ?ps. dominates pf q p)"])
qed

text \<open>The gate-passing points form a finite strict order, so a point off the frontier lies below one on it.\<close>

lemma dominated_by_maximal:
  assumes "finite S" and "p \<in> S"
  shows "\<exists>q \<in> S. (q = p \<or> dominates pf q p) \<and> \<not> (\<exists>r \<in> S. dominates pf r q)"
  using assms
proof (induction "card {r \<in> S. dominates pf r p}" arbitrary: p rule: less_induct)
  case less
  show ?case
  proof (cases "\<exists>r \<in> S. dominates pf r p")
    case False
    with less.prems show ?thesis by blast
  next
    case True
    then obtain r where r: "r \<in> S" "dominates pf r p" by blast
    have "{x \<in> S. dominates pf x r} \<subset> {x \<in> S. dominates pf x p}"
      using r dominates_trans dominates_irrefl by blast
    then have "card {x \<in> S. dominates pf x r} < card {x \<in> S. dominates pf x p}"
      using less.prems(1) by (intro psubset_card_mono) auto
    from less.hyps[OF this less.prems(1) r(1)] r(2) dominates_trans show ?thesis by blast
  qed
qed

section \<open>Properties\<close>

lemma frontier_members:
  "p \<in> set (compute_frontier pf rs) \<longleftrightarrow>
     p \<in> set (decorated_points pf rs) \<and> \<not> (\<exists>q \<in> set (decorated_points pf rs). dominates pf q p)"
  by (auto simp: frontier_eq)

lemma decorated_members:
  "p \<in> set (decorated_points pf rs) \<longleftrightarrow> (\<exists>r \<in> set rs. p = decorate pf r \<and> passed_all_gates p)"
  by (auto simp: decorated_points_def)

lemma decorated_any:
  "(\<exists>q \<in> set (decorated_points pf rs). P q) \<longleftrightarrow> (\<exists>r \<in> set rs. passed_all_gates (decorate pf r) \<and> P (decorate pf r))"
  by (auto simp: decorated_points_def)

definition demo_metrics :: "rat \<Rightarrow> rat \<Rightarrow> engine_metrics" where
  "demo_metrics hz area = \<lparr>em_tok_per_s = 1, em_area_mm2 = area, em_power_w = 10, em_ttft_ms = 0,
     em_efficiency_tok_per_watt = 0, em_efficiency_tok_per_mm2 = 0, em_completed_throughput_hz = Some hz,
     em_mac_count = None, em_op_count = None, em_total_cycles = None, em_utilization = None, em_sram_spill_mb = None,
     em_depthwise_util_pct = None, em_avg_latency_s = None, em_p50_latency_s = None, em_p99_latency_s = None,
     em_max_latency_s = None, em_deadline_miss_count = None, em_drop_count = None, em_memory_footprint_gib = None,
     em_spill_bytes = None, em_energy_joules = None\<rparr>"

definition demo_result :: "string \<Rightarrow> rat \<Rightarrow> rat \<Rightarrow> design_point_result" where
  "demo_result i hz area = \<lparr>pr_design_point_id = i, pr_status = RunComplete, pr_hardware_digest = [],
     pr_scenario_ref = [], pr_workload_ref = [], pr_config_label = [], pr_engine_type = ''block'',
     pr_trust_level = Exploratory, pr_metrics = Some (demo_metrics hz area), pr_error = None\<rparr>"

definition demo_filter :: pareto_filter where
  "demo_filter = pareto_filter_new [] None (Some 150) False"

definition demo_results :: "design_point_result list" where
  "demo_results = [demo_result ''c'' 30 90, demo_result ''b'' 20 90, demo_result ''a'' 10 50]"

text \<open>C29. The frontier is the set of Pareto-optimal points: a point is on it exactly when it
  decorates a result that passes all gates and no gate-passing result is at least as good in every
  objective and better in one. Every gate-passing point off the frontier is dominated by a point on it,
  and the frontier is sorted by design-point id.\<close>

theorem frontier_is_pareto_optimal:
  "(p \<in> set (compute_frontier pf rs)) =
     ((\<exists>r \<in> set rs. p = decorate pf r) \<and> passed_all_gates p
      \<and> \<not> (\<exists>r \<in> set rs. passed_all_gates (decorate pf r) \<and> pareto_better (pf_objectives pf) (decorate pf r) p))
   \<and> (\<forall>r \<in> set rs. passed_all_gates (decorate pf r) \<longrightarrow> decorate pf r \<in> set (compute_frontier pf rs)
      \<or> (\<exists>q \<in> set (compute_frontier pf rs). pareto_better (pf_objectives pf) q (decorate pf r)))
   \<and> sorted (map (\<lambda>p. pr_design_point_id (pp_result p)) (compute_frontier pf rs))"
proof (intro conjI ballI impI)
  show "(p \<in> set (compute_frontier pf rs)) =
     ((\<exists>r \<in> set rs. p = decorate pf r) \<and> passed_all_gates p
      \<and> \<not> (\<exists>r \<in> set rs. passed_all_gates (decorate pf r) \<and> pareto_better (pf_objectives pf) (decorate pf r) p))"
    unfolding frontier_members decorated_any dominates_iff unfolding decorated_members by blast
next
  fix r assume "r \<in> set rs" "passed_all_gates (decorate pf r)"
  then have "decorate pf r \<in> set (decorated_points pf rs)" by (auto simp: decorated_members)
  from dominated_by_maximal[OF finite_set this, of pf]
  obtain q where "q \<in> set (decorated_points pf rs)" "\<not> (\<exists>x \<in> set (decorated_points pf rs). dominates pf x q)"
    and q: "q = decorate pf r \<or> dominates pf q (decorate pf r)" by blast
  then have "q \<in> set (compute_frontier pf rs)" by (simp add: frontier_members)
  with q show "decorate pf r \<in> set (compute_frontier pf rs)
      \<or> (\<exists>q \<in> set (compute_frontier pf rs). pareto_better (pf_objectives pf) q (decorate pf r))"
    unfolding dominates_iff by blast
next
  show "sorted (map (\<lambda>p. pr_design_point_id (pp_result p)) (compute_frontier pf rs))"
    by (simp add: frontier_eq)
qed

theorem frontier_is_pareto_optimal_witness:
  "map (\<lambda>p. pr_design_point_id (pp_result p)) (compute_frontier demo_filter demo_results) = [''a'', ''c'']
   \<and> (\<exists>q \<in> set (compute_frontier demo_filter demo_results).
        pareto_better (pf_objectives demo_filter) q (decorate demo_filter (demo_result ''b'' 20 90)))"
proof -
  have 1: "map (\<lambda>p. pr_design_point_id (pp_result p)) (compute_frontier demo_filter demo_results) = [''a'', ''c'']"
    by code_simp
  have "decorate demo_filter (demo_result ''b'' 20 90) \<notin> set (compute_frontier demo_filter demo_results)"
  proof
    assume "decorate demo_filter (demo_result ''b'' 20 90) \<in> set (compute_frontier demo_filter demo_results)"
    then have "pr_design_point_id (pp_result (decorate demo_filter (demo_result ''b'' 20 90)))
        \<in> set (map (\<lambda>p. pr_design_point_id (pp_result p)) (compute_frontier demo_filter demo_results))" by simp
    then show False unfolding 1 by (simp add: decorate_def demo_result_def)
  qed
  moreover have "demo_result ''b'' 20 90 \<in> set demo_results" by (simp add: demo_results_def)
  moreover have "passed_all_gates (decorate demo_filter (demo_result ''b'' 20 90))" by code_simp
  ultimately show ?thesis
    using 1 frontier_is_pareto_optimal[of "decorate demo_filter (demo_result ''b'' 20 90)" demo_filter demo_results]
    by blast
qed

text \<open>The frontier does not depend on the order of the results: with distinct design-point ids,
  any permutation of them gives the same list.\<close>

theorem frontier_order_independent:
  assumes "distinct (map pr_design_point_id rs)" and "mset rs' = mset rs"
  shows "compute_frontier pf rs' = compute_frontier pf rs"
proof -
  let ?key = "\<lambda>p. pr_design_point_id (pp_result p)"
  let ?opt = "\<lambda>rs. filter (\<lambda>p. \<not> (\<exists>q \<in> set (decorated_points pf rs). dominates pf q p)) (decorated_points pf rs)"
  have keys: "map ?key (map (decorate pf) rs) = map pr_design_point_id rs" for rs
    by (simp add: decorate_def)
  have s: "set rs' = set rs" using assms(2) by (metis set_mset_mset)
  have d': "distinct (map pr_design_point_id rs')"
    using assms by (metis mset_eq_imp_distinct_iff mset_map)
  have dist: "distinct (map ?key (?opt rs))" if "distinct (map pr_design_point_id rs)" for rs
    using that unfolding decorated_points_def keys[symmetric] by (intro distinct_map_filter)
  have eq: "set (?opt rs') = set (?opt rs)" by (simp add: decorated_points_def s)
  have dk: "distinct (map ?key (sort_key ?key xs))" if "distinct (map ?key xs)" for xs
    using that by (metis mset_eq_imp_distinct_iff mset_map mset_sort)
  show ?thesis
    unfolding frontier_eq
  proof (rule map_sorted_distinct_set_unique[where f = ?key])
    show "inj_on ?key (set (sort_key ?key (?opt rs')) \<union> set (sort_key ?key (?opt rs)))"
      using dist[OF assms(1)] unfolding set_sort eq by (simp add: distinct_map)
  qed (simp_all only: sorted_sort_key dk[OF dist[OF d']] dk[OF dist[OF assms(1)]] set_sort eq)
qed

theorem frontier_order_independent_witness:
  "compute_frontier demo_filter (rev demo_results) = compute_frontier demo_filter demo_results"
  by (rule frontier_order_independent) (simp_all add: demo_results_def demo_result_def)

text \<open>Requiring the quality gate empties the frontier: the gate has no way to pass.\<close>

lemma quality_gate_empties_frontier:
  assumes "pf_quality_gate_required pf"
  shows "compute_frontier pf rs = []"
proof -
  have "\<not> passed_all_gates (decorate pf r)" for r
    using assms by (simp add: passed_all_gates_def decorate_def evaluate_gates_def)
  then have "decorated_points pf rs = []" by (simp add: decorated_points_def)
  then show ?thesis by (simp add: frontier_eq)
qed

lemma release_only_authoritative:
  "release_recommendation r = Inr ps \<Longrightarrow> p \<in> set ps
   \<Longrightarrow> pr_status p = RunComplete \<and> pr_trust_level p = Authoritative"
  by (auto simp: release_recommendation_def filter_empty_conv split: if_splits)

end
