(* ===== verification/Py_Bytes.thy ===== *)
theory Py_Bytes
  imports Py_Bits
begin

text \<open>
  Python's \<open>bytes\<close> and \<open>bytearray\<close> as lists of 8-bit words: slices with clipped and negative
  bounds, slice assignment, which may grow or shrink the array, and the big-endian 32-bit
  integers of \<open>struct.pack(">III")\<close>.
\<close>

type_synonym bytes = "8 word list"

section \<open>Slices\<close>

definition seq_index :: "nat \<Rightarrow> int \<Rightarrow> nat" where
  "seq_index n i = (if i < 0 then nat (max 0 (i + int n)) else min (nat i) n)"

definition seq_slice :: "'a list \<Rightarrow> int \<Rightarrow> int \<Rightarrow> 'a list" where
  "seq_slice m a b = drop (seq_index (length m) a) (take (seq_index (length m) b) m)"

text \<open>\<open>m[a:b] = xs\<close>: an empty or reversed range inserts.\<close>

definition seq_assign :: "'a list \<Rightarrow> int \<Rightarrow> int \<Rightarrow> 'a list \<Rightarrow> 'a list" where
  "seq_assign m a b xs =
     (let lo = seq_index (length m) a; hi = max lo (seq_index (length m) b) in take lo m @ xs @ drop hi m)"

definition zeros :: "int \<Rightarrow> bytes" where
  "zeros n = replicate (nat n) 0"

lemma seq_index_inside [simp]: "0 \<le> i \<Longrightarrow> i \<le> int n \<Longrightarrow> seq_index n i = nat i"
  by (auto simp: seq_index_def min_def)

lemma seq_index_le [simp]: "seq_index n i \<le> n"
  by (auto simp: seq_index_def)

lemma seq_slice_inside:
  "0 \<le> a \<Longrightarrow> 0 \<le> n \<Longrightarrow> a + n \<le> int (length m) \<Longrightarrow> seq_slice m a (a + n) = take (nat n) (drop (nat a) m)"
  by (simp add: seq_slice_def drop_take nat_add_distrib)

lemma seq_assign_inside:
  "0 \<le> a \<Longrightarrow> a + int (length xs) \<le> int (length m) \<Longrightarrow>
   seq_assign m a (a + int (length xs)) xs = take (nat a) m @ xs @ drop (nat a + length xs) m"
  by (simp add: seq_assign_def Let_def nat_add_distrib max_def)

lemma length_seq_assign_inside:
  "0 \<le> a \<Longrightarrow> a + int (length xs) \<le> int (length m) \<Longrightarrow>
   length (seq_assign m a (a + int (length xs)) xs) = length m"
  by (simp add: seq_assign_inside)

lemma length_zeros [simp]: "length (zeros n) = nat n"
  by (simp add: zeros_def)

text \<open>Overwriting two neighbouring stretches is overwriting the whole.\<close>

definition overwrite :: "'a list \<Rightarrow> nat \<Rightarrow> 'a list \<Rightarrow> 'a list" where
  "overwrite m a xs = take a m @ xs @ drop (a + length xs) m"

lemma length_overwrite [simp]: "a + length xs \<le> length m \<Longrightarrow> length (overwrite m a xs) = length m"
  by (simp add: overwrite_def)

lemma overwrite_Nil [simp]: "overwrite m a [] = m"
  by (simp add: overwrite_def)

lemma overwrite_append:
  "a + length xs + length ys \<le> length m \<Longrightarrow>
   overwrite (overwrite m a xs) (a + length xs) ys = overwrite m a (xs @ ys)"
  by (simp add: overwrite_def min_absorb2 ac_simps)

lemma nth_overwrite:
  "a + length xs \<le> length m \<Longrightarrow> i < length m \<Longrightarrow>
   overwrite m a xs ! i = (if a \<le> i \<and> i < a + length xs then xs ! (i - a) else m ! i)"
  by (auto simp: overwrite_def nth_append min_def)

lemma take_drop_overwrite:
  "a + length xs \<le> length m \<Longrightarrow> n \<le> length xs \<Longrightarrow> take n (drop a (overwrite m a xs)) = take n xs"
  by (simp add: overwrite_def)

lemma take_drop_overwrite_other:
  "a + length xs \<le> length m \<Longrightarrow> b + n \<le> a \<or> a + length xs \<le> b \<Longrightarrow>
   take n (drop b (overwrite m a xs)) = take n (drop b m)"
  by (intro nth_equalityI) (auto simp: nth_overwrite)

lemma seq_assign_overwrite:
  "0 \<le> a \<Longrightarrow> a + int (length xs) \<le> int (length m) \<Longrightarrow>
   seq_assign m a (a + int (length xs)) xs = overwrite m (nat a) xs"
  by (simp add: seq_assign_inside overwrite_def)

section \<open>Splitting into chunks\<close>

function chunks_of :: "nat \<Rightarrow> 'a list \<Rightarrow> 'a list list" where
  "chunks_of n xs = (if xs = [] \<or> n = 0 then [] else take n xs # chunks_of n (drop n xs))"
  by pat_completeness auto
termination by (relation "measure (\<lambda>(n, xs). length xs)") (auto simp: neq_Nil_conv)

declare chunks_of.simps [simp del]

text \<open>\<open>[data[i:i+n] for i in range(0, len(data), n)]\<close>: a step of 0 raises, a negative one gives no chunk.\<close>

definition split_payload :: "'a list \<Rightarrow> int \<Rightarrow> 'a list list result" where
  "split_payload data n = (if n = 0 then Inl (ValueError ''range'') else Inr (chunks_of (nat n) data))"

lemma chunks_of_Nil [simp]: "chunks_of n [] = []"
  by (simp add: chunks_of.simps)

lemma concat_chunks: "0 < n \<Longrightarrow> concat (chunks_of n xs) = xs"
  by (induction n xs rule: chunks_of.induct) (subst chunks_of.simps, auto)

lemma chunk_bounds: "c \<in> set (chunks_of n xs) \<Longrightarrow> 0 < length c \<and> length c \<le> n"
proof (induction n xs rule: chunks_of.induct)
  case (1 n xs)
  then show ?case by (cases "xs = [] \<or> n = 0") (auto simp: chunks_of.simps[of n xs])
qed

lemma length_chunks: "0 < n \<Longrightarrow> length (chunks_of n xs) = (length xs + n - 1) div n"
proof (induction n xs rule: chunks_of.induct)
  case (1 n xs)
  show ?case
  proof (cases "drop n xs = []")
    case True
    then have l: "length xs \<le> n" by simp
    show ?thesis
    proof (cases "xs = []")
      case False
      then have "(length xs + n - 1) div n = 1"
        using 1(2) l by (intro div_nat_eqI) (cases xs; simp)+
      moreover have "chunks_of n xs = [xs]" using 1(2) l False chunks_of.simps[of n xs] by simp
      ultimately show ?thesis by simp
    qed (use 1(2) in simp)
  next
    case False
    then have "length xs + n - 1 = (length (drop n xs) + n - 1) + n" using 1(2) by simp
    then have "(length xs + n - 1) div n = (length (drop n xs) + n - 1) div n + 1" using 1(2) by (simp only: div_add_self2)
    moreover have "length (chunks_of n (drop n xs)) = (length (drop n xs) + n - 1) div n"
      using 1 False by (intro 1(1)) auto
    moreover have "chunks_of n xs = take n xs # chunks_of n (drop n xs)" using 1(2) False chunks_of.simps[of n xs] by auto
    ultimately show ?thesis by simp
  qed
qed

section \<open>Big-endian words\<close>

definition be32 :: "int \<Rightarrow> bytes" where
  "be32 v = [word_of_int (drop_bit 24 v), word_of_int (drop_bit 16 v), word_of_int (drop_bit 8 v), word_of_int v]"

definition pack_be :: "int list \<Rightarrow> bytes result" where
  "pack_be vs = (if list_all (\<lambda>v. 0 \<le> v \<and> v < 2 ^ 32) vs then Inr (concat (map be32 vs)) else Inl StructError)"

fun unpack_be :: "bytes \<Rightarrow> int list" where
  "unpack_be (a # b # c # d # bs) =
     (push_bit 24 (uint a) OR push_bit 16 (uint b) OR push_bit 8 (uint c) OR uint d) # unpack_be bs"
| "unpack_be _ = []"

lemma length_be32 [simp]: "length (be32 v) = 4"
  by (simp add: be32_def)

lemma length_pack_be: "pack_be vs = Inr bs \<Longrightarrow> length bs = 4 * length vs"
  by (induction vs arbitrary: bs) (auto simp: pack_be_def split: if_splits)

lemma be32_word:
  assumes "0 \<le> v" and "v < 2 ^ 32"
  shows "push_bit 24 (uint (word_of_int (drop_bit 24 v) :: 8 word)) OR
     push_bit 16 (uint (word_of_int (drop_bit 16 v) :: 8 word)) OR
     push_bit 8 (uint (word_of_int (drop_bit 8 v) :: 8 word)) OR uint (word_of_int v :: 8 word) = v" (is "?l = v")
proof -
  have "take_bit 32 v = v" using assms by (simp add: take_bit_int_eq_self_iff)
  moreover have "?l = take_bit 32 v"
  proof (rule bit_eqI)
    fix n :: nat
    consider "n < 8" | "8 \<le> n" "n < 16" | "16 \<le> n" "n < 24" | "24 \<le> n" "n < 32" | "32 \<le> n" by linarith
    then show "bit ?l n = bit (take_bit 32 v) n"
      by cases (auto simp: bit_simps uint_word_of_int_eq)
  qed
  ultimately show ?thesis by simp
qed

lemma unpack_pack: "pack_be vs = Inr bs \<Longrightarrow> unpack_be bs = vs"
proof (induction vs arbitrary: bs)
  case Nil
  then show ?case by (simp add: pack_be_def)
next
  case (Cons v vs)
  from Cons.prems have v: "0 \<le> v" "v < 2 ^ 32" and vs: "list_all (\<lambda>v. 0 \<le> v \<and> v < 2 ^ 32) vs"
    and bs: "bs = be32 v @ concat (map be32 vs)" by (auto simp: pack_be_def split: if_splits)
  have "unpack_be (concat (map be32 vs)) = vs" using vs by (intro Cons.IH) (simp add: pack_be_def)
  then show ?case using be32_word[OF v] unfolding bs be32_def by simp
qed

end
