(* ===== verification/Hw_Crossbar.thy ===== *)
theory Hw_Crossbar
  imports Py_Bytes
begin

text \<open>
  The AXI crossbar and the APB decoder, \<open>sim/models/crossbar.py\<close>. The address map
  \<open>sim.regmap.Addr\<close> is not in the repository: it is the record \<open>addr_map\<close>, an argument of every
  operation that reads it. The two memories are byte arrays, which Python lets a write past the
  end extend. The locks only serialise threads and are left out.
\<close>

record addr_map =
  am_SRAM_BASE :: int
  am_DRAM_BASE :: int
  am_MXU_BASE :: int
  am_SFU_BASE :: int
  am_VECTOR_BASE :: int
  am_DMA_BASE :: int
  am_PCIE_BASE :: int
  am_DOORBELL :: int
  am_INTC_BASE :: int

record crossbar =
  cb_sram :: bytes
  cb_dram :: bytes
  cb_aw_last_granted :: "int option list"
  cb_ar_last_granted :: "int option list"
  cb_txn_ids :: "int list"
  cb_aw_grants :: "(nat \<times> int) list"
  cb_ar_grants :: "(nat \<times> int) list"
  cb_last_axi_id :: "int option"

definition num_masters :: int where "num_masters = 6"

definition num_slaves :: nat where "num_slaves = 2"

definition master_pcie :: int where "master_pcie = 5"

definition crossbar_new :: "bytes \<Rightarrow> bytes \<Rightarrow> crossbar" where
  "crossbar_new sram dram = \<lparr>cb_sram = sram, cb_dram = dram,
     cb_aw_last_granted = replicate num_slaves None, cb_ar_last_granted = replicate num_slaves None,
     cb_txn_ids = replicate (nat num_masters) 0, cb_aw_grants = [], cb_ar_grants = [], cb_last_axi_id = None\<rparr>"

text \<open>The memory of slave 0 is the SRAM, that of slave 1 the DRAM.\<close>

definition slave_mem :: "nat \<Rightarrow> crossbar \<Rightarrow> bytes" where
  "slave_mem i cb = (if i = 0 then cb_sram cb else cb_dram cb)"

definition set_slave_mem :: "nat \<Rightarrow> bytes \<Rightarrow> crossbar \<Rightarrow> crossbar" where
  "set_slave_mem i m cb = (if i = 0 then cb\<lparr>cb_sram := m\<rparr> else cb\<lparr>cb_dram := m\<rparr>)"

definition decode :: "addr_map \<Rightarrow> int \<Rightarrow> crossbar \<Rightarrow> nat result" where
  "decode am addr cb =
     (if am_SRAM_BASE am \<le> addr \<and> addr < am_SRAM_BASE am + int (length (cb_sram cb)) then Inr 0
      else if am_DRAM_BASE am \<le> addr \<and> addr < am_DRAM_BASE am + int (length (cb_dram cb)) then Inr 1
      else Inl (ValueError ''DECERR''))"

definition grant :: "nat \<Rightarrow> int \<Rightarrow> bool \<Rightarrow> crossbar \<Rightarrow> crossbar" where
  "grant slave master is_write cb =
     (if is_write
      then cb\<lparr>cb_aw_last_granted := (cb_aw_last_granted cb)[slave := Some master],
              cb_aw_grants := cb_aw_grants cb @ [(slave, master)]\<rparr>
      else cb\<lparr>cb_ar_last_granted := (cb_ar_last_granted cb)[slave := Some master],
              cb_ar_grants := cb_ar_grants cb @ [(slave, master)]\<rparr>)"

definition next_axi_id :: "int \<Rightarrow> (crossbar, int) op" where
  "next_axi_id master cb = (let txn_id = cb_txn_ids cb ! nat master in
     (Inr (push_bit 8 master OR txn_id),
      cb\<lparr>cb_txn_ids := (cb_txn_ids cb)[nat master := (txn_id + 1) AND 0xFF]\<rparr>))"

definition slave_base :: "addr_map \<Rightarrow> nat \<Rightarrow> int result" where
  "slave_base am i = (if i = 0 then Inr (am_SRAM_BASE am) else if i = 1 then Inr (am_DRAM_BASE am)
     else Inl (ValueError ''slave_idx''))"

definition crossbar_read :: "addr_map \<Rightarrow> int \<Rightarrow> int \<Rightarrow> int \<Rightarrow> (crossbar, bytes) op" where
  "crossbar_read am master addr n cb =
     (if \<not> (0 \<le> master \<and> master < num_masters) then (Inl (ValueError ''master_id''), cb)
      else if n < 0 then (Inl (ValueError ''size''), cb)
      else if n = 0 then (Inr [], cb)
      else case decode am addr cb of Inl e \<Rightarrow> (Inl e, cb)
      | Inr i \<Rightarrow> bind_op (next_axi_id master) (\<lambda>axi_id cb1.
          case slave_base am i of Inl e \<Rightarrow> (Inl e, cb1)
          | Inr base \<Rightarrow>
              let cb2 = grant i master False cb1; off = addr - base
              in (Inr (seq_slice (slave_mem i cb2) off (off + n)), cb2\<lparr>cb_last_axi_id := Some axi_id\<rparr>)) cb)"

definition crossbar_write :: "addr_map \<Rightarrow> int \<Rightarrow> int \<Rightarrow> bytes \<Rightarrow> (crossbar, unit) op" where
  "crossbar_write am master addr data cb =
     (if \<not> (0 \<le> master \<and> master < num_masters) then (Inl (ValueError ''master_id''), cb)
      else case decode am addr cb of Inl e \<Rightarrow> (Inl e, cb)
      | Inr i \<Rightarrow> bind_op (next_axi_id master) (\<lambda>axi_id cb1.
          case slave_base am i of Inl e \<Rightarrow> (Inl e, cb1)
          | Inr base \<Rightarrow>
              let cb2 = grant i master True cb1; off = addr - base;
                  cb3 = set_slave_mem i (seq_assign (slave_mem i cb2) off (off + int (length data)) data) cb2
              in (Inr (), cb3\<lparr>cb_last_axi_id := Some axi_id\<rparr>)) cb)"

section \<open>The APB decoder\<close>

definition apb_slaves :: "addr_map \<Rightarrow> (int, string \<times> int) dict" where
  "apb_slaves am = [(0, ''MXU'', am_MXU_BASE am), (1, ''SFU'', am_SFU_BASE am), (2, ''VECTOR'', am_VECTOR_BASE am),
     (3, ''DMA'', am_DMA_BASE am), (4, ''PCIe'', am_PCIE_BASE am), (5, ''DOORBELL'', am_DOORBELL am),
     (6, ''INTC'', am_INTC_BASE am)]"

definition slave_map :: "addr_map \<Rightarrow> (int, int \<times> int) dict" where
  "slave_map am = map (\<lambda>(i, n, base). (i, base, 0x1000)) (apb_slaves am)"

definition apb_decode :: "addr_map \<Rightarrow> int \<Rightarrow> int result" where
  "apb_decode am paddr =
     (if \<not> (am_MXU_BASE am \<le> paddr \<and> paddr < am_INTC_BASE am + 0x1000) then Inl (ValueError ''MMIO'')
      else Inr (drop_bit 12 paddr AND 0xF))"

definition get_slave_name :: "addr_map \<Rightarrow> int \<Rightarrow> string" where
  "get_slave_name am i = fst (dget (apb_slaves am) i (''UNKNOWN'', 0))"

section \<open>Reading and writing inside a slave\<close>

text \<open>The access \<open>[addr, addr + n)\<close> lies inside the memory of slave \<open>i\<close>, at offset \<open>off\<close>.\<close>

definition inside :: "addr_map \<Rightarrow> crossbar \<Rightarrow> int \<Rightarrow> nat \<Rightarrow> nat \<Rightarrow> nat \<Rightarrow> bool" where
  "inside am cb addr n i off \<longleftrightarrow> decode am addr cb = Inr i
     \<and> addr = (if i = 0 then am_SRAM_BASE am else am_DRAM_BASE am) + int off
     \<and> off + n \<le> length (slave_mem i cb)"

text \<open>The two memories do not overlap, and there is a counter per master.\<close>

definition crossbar_ok :: "addr_map \<Rightarrow> crossbar \<Rightarrow> bool" where
  "crossbar_ok am cb \<longleftrightarrow> am_SRAM_BASE am + int (length (cb_sram cb)) \<le> am_DRAM_BASE am
     \<and> length (cb_txn_ids cb) = nat num_masters \<and> list_all (\<lambda>t. 0 \<le> t \<and> t < 256) (cb_txn_ids cb)"

lemma slave_mem_simps [simp]:
  "slave_mem i (grant j m w cb) = slave_mem i cb"
  "slave_mem i (cb\<lparr>cb_txn_ids := t\<rparr>) = slave_mem i cb"
  "slave_mem i (cb\<lparr>cb_last_axi_id := x\<rparr>) = slave_mem i cb"
  "i < num_slaves \<Longrightarrow> j < num_slaves \<Longrightarrow> slave_mem i (set_slave_mem j d cb) = (if i = j then d else slave_mem i cb)"
  by (auto simp: slave_mem_def set_slave_mem_def grant_def num_slaves_def)

lemma crossbar_fields [simp]:
  "cb_sram (grant j m w cb) = cb_sram cb" "cb_dram (grant j m w cb) = cb_dram cb"
  "cb_txn_ids (grant j m w cb) = cb_txn_ids cb" "cb_txn_ids (set_slave_mem i d cb) = cb_txn_ids cb"
  "cb_sram (set_slave_mem i d cb) = (if i = 0 then d else cb_sram cb)"
  "cb_dram (set_slave_mem i d cb) = (if i = 0 then cb_dram cb else d)"
  by (simp_all add: grant_def set_slave_mem_def)

lemma decode_cases: "decode am addr cb = Inr i \<Longrightarrow> i < num_slaves"
  by (auto simp: decode_def num_slaves_def split: if_splits)

lemma decode_cong:
  "length (cb_sram cb') = length (cb_sram cb) \<Longrightarrow> length (cb_dram cb') = length (cb_dram cb) \<Longrightarrow>
   decode am addr cb' = decode am addr cb"
  by (simp add: decode_def)

lemma decode_inside:
  assumes "crossbar_ok am cb" and "inside am cb addr n i off" and "k < n"
  shows "inside am cb (addr + int k) (n - k) i (off + k)"
  using assms by (auto simp: inside_def decode_def crossbar_ok_def slave_mem_def split: if_splits)

lemma inside_prefix: "inside am cb addr n i off \<Longrightarrow> k \<le> n \<Longrightarrow> inside am cb addr k i off"
  unfolding inside_def by (elim conjE, intro conjI, assumption+, linarith)

lemma slave_base_simps: "i < num_slaves \<Longrightarrow> slave_base am i = Inr (if i = 0 then am_SRAM_BASE am else am_DRAM_BASE am)"
  by (auto simp: slave_base_def num_slaves_def)

text \<open>An access that decodes never raises after the decoding.\<close>

lemma crossbar_read_inside:
  assumes "inside am cb addr n i off" and "0 < n" and "0 \<le> m" and "m < num_masters"
  obtains cb' where "crossbar_read am m addr (int n) cb = (Inr (take n (drop off (slave_mem i cb))), cb')"
    and "cb_sram cb' = cb_sram cb" and "cb_dram cb' = cb_dram cb"
    and "cb_txn_ids cb' = (cb_txn_ids cb)[nat m := (cb_txn_ids cb ! nat m + 1) AND 0xFF]"
proof -
  have d: "decode am addr cb = Inr i" and i: "i < num_slaves" using assms decode_cases by (auto simp: inside_def)
  have s: "seq_slice (slave_mem i cb) (int off) (int off + int n) = take n (drop off (slave_mem i cb))"
    using assms(1) by (simp add: seq_slice_inside inside_def)
  define cb' where "cb' = (grant i m False (cb\<lparr>cb_txn_ids := (cb_txn_ids cb)[nat m := (cb_txn_ids cb ! nat m + 1) AND 0xFF]\<rparr>))
      \<lparr>cb_last_axi_id := Some (push_bit 8 m OR cb_txn_ids cb ! nat m)\<rparr>"
  have "crossbar_read am m addr (int n) cb = (Inr (take n (drop off (slave_mem i cb))), cb')"
    using assms d i s by (simp add: crossbar_read_def bind_op_def next_axi_id_def Let_def slave_base_simps
        inside_def cb'_def split: if_splits)
  then show thesis by (rule that) (simp_all add: cb'_def)
qed

lemma crossbar_write_inside:
  assumes "inside am cb addr (length data) i off" and "0 \<le> m" and "m < num_masters"
  obtains cb' where "crossbar_write am m addr data cb = (Inr (), cb')"
    and "slave_mem i cb' = overwrite (slave_mem i cb) off data"
    and "slave_mem (1 - i) cb' = slave_mem (1 - i) cb"
    and "length (cb_sram cb') = length (cb_sram cb)" and "length (cb_dram cb') = length (cb_dram cb)"
    and "cb_txn_ids cb' = (cb_txn_ids cb)[nat m := (cb_txn_ids cb ! nat m + 1) AND 0xFF]"
    and "cb_aw_grants cb' = cb_aw_grants cb @ [(i, m)]"
    and "cb_last_axi_id cb' = Some (push_bit 8 m OR cb_txn_ids cb ! nat m)"
proof -
  have d: "decode am addr cb = Inr i" and i: "i < num_slaves" using assms decode_cases by (auto simp: inside_def)
  have s: "seq_assign (slave_mem i cb) (int off) (int off + int (length data)) data = overwrite (slave_mem i cb) off data"
    and l: "off + length data \<le> length (slave_mem i cb)"
    using assms(1) by (simp_all add: seq_assign_overwrite inside_def)
  define cb' where "cb' = (set_slave_mem i (overwrite (slave_mem i cb) off data)
      (grant i m True (cb\<lparr>cb_txn_ids := (cb_txn_ids cb)[nat m := (cb_txn_ids cb ! nat m + 1) AND 0xFF]\<rparr>)))
      \<lparr>cb_last_axi_id := Some (push_bit 8 m OR cb_txn_ids cb ! nat m)\<rparr>"
  have "crossbar_write am m addr data cb = (Inr (), cb')"
    using assms d i s by (simp add: crossbar_write_def bind_op_def next_axi_id_def Let_def slave_base_simps
        inside_def cb'_def split: if_splits)
  moreover have "slave_mem i cb' = overwrite (slave_mem i cb) off data"
      "slave_mem (1 - i) cb' = slave_mem (1 - i) cb" "length (cb_sram cb') = length (cb_sram cb)"
      "length (cb_dram cb') = length (cb_dram cb)"
    using i l by (auto simp: cb'_def num_slaves_def slave_mem_def split: if_splits)
  moreover have "cb_txn_ids cb' = (cb_txn_ids cb)[nat m := (cb_txn_ids cb ! nat m + 1) AND 0xFF]"
      "cb_aw_grants cb' = cb_aw_grants cb @ [(i, m)]"
      "cb_last_axi_id cb' = Some (push_bit 8 m OR cb_txn_ids cb ! nat m)"
    by (simp_all add: cb'_def set_slave_mem_def grant_def)
  ultimately show thesis by (rule that)
qed

lemma push_or_add: "0 \<le> t \<Longrightarrow> t < 256 \<Longrightarrow> push_bit 8 m OR t = m * 256 + t" for m t :: int
proof -
  assume t: "0 \<le> t" "t < 256"
  then have "take_bit 8 t = t" by (simp add: take_bit_int_eq_self)
  then have "push_bit 8 m AND t = 0" by (metis bit_eqI bit_and_iff bit_push_bit_iff bit_take_bit_iff bit_0_eq bot_apply bot_bool_def leD)
  from disjunctive_add_eq_or[OF this] show ?thesis by (simp add: push_bit_eq_mult)
qed

lemma txn_ids_ok:
  assumes "list_all (\<lambda>t. 0 \<le> t \<and> t < (256 :: int)) ts"
  shows "list_all (\<lambda>t. 0 \<le> t \<and> t < 256) (ts[k := (x + 1) AND 0xFF])"
proof -
  have "0 \<le> (x + 1) AND 0xFF \<and> (x + 1) AND 0xFF < (256 :: int)"
    unfolding mask_lits using field_bounds[of 8 "x + 1"] by simp
  with assms show ?thesis unfolding list_all_iff by (metis (no_types, lifting) insertE set_update_subset_insert subsetD)
qed

lemma crossbar_ok_step:
  assumes "crossbar_ok am cb" and "length (cb_sram cb') = length (cb_sram cb)"
    and "length (cb_dram cb') = length (cb_dram cb)" and "cb_txn_ids cb' = (cb_txn_ids cb)[k := (x + 1) AND 0xFF]"
  shows "crossbar_ok am cb'"
  using assms txn_ids_ok[of "cb_txn_ids cb" k x] by (simp add: crossbar_ok_def)

lemma inside_cong:
  assumes "length (cb_sram cb') = length (cb_sram cb)" and "length (cb_dram cb') = length (cb_dram cb)"
  shows "inside am cb' addr n i off = inside am cb addr n i off"
  using assms decode_cong[OF assms] by (simp add: inside_def slave_mem_def)

section \<open>Properties\<close>

text \<open>
  The layout the comments of the module document: 4 KB windows for the seven APB slaves from
  \<open>0x4000_0000\<close> on, the SRAM at \<open>0x2000_0000\<close> and the DRAM at \<open>0x8000_0000\<close>.
\<close>

definition documented_map :: addr_map where
  "documented_map = \<lparr>am_SRAM_BASE = 0x20000000, am_DRAM_BASE = 0x80000000, am_MXU_BASE = 0x40000000,
     am_SFU_BASE = 0x40001000, am_VECTOR_BASE = 0x40002000, am_DMA_BASE = 0x40003000, am_PCIE_BASE = 0x40004000,
     am_DOORBELL = 0x40005000, am_INTC_BASE = 0x40006000\<rparr>"


lemma demo_inside:
  "crossbar_ok documented_map (crossbar_new (zeros 16) (zeros 16))"
  "inside documented_map (crossbar_new (zeros 16) (zeros 16)) 0x80000004 2 1 4"
  by code_simp+


text \<open>On the documented address map the APB decoder selects a slave exactly when the address lies
  in that slave's window, and raises for every other address.\<close>

theorem apb_decode_exact:
  "(apb_decode documented_map paddr = Inr i) =
     (\<exists>base size. map_of (slave_map documented_map) i = Some (base, size) \<and> base \<le> paddr \<and> paddr < base + size)"
proof -
  have w: "(drop_bit 12 paddr AND 0xF) = paddr div 4096 mod 16"
    by (simp add: mask_lits drop_bit_eq_div take_bit_eq_mod)
  have d: "apb_decode documented_map paddr =
      (if 0x40000000 \<le> paddr \<and> paddr < 0x40007000 then Inr (paddr div 4096 mod 16) else Inl (ValueError ''MMIO''))"
    by (simp add: apb_decode_def documented_map_def w)
  have s: "map_of (slave_map documented_map) i = (if 0 \<le> i \<and> i < 7 then Some (0x40000000 + 0x1000 * i, 0x1000) else None)"
  proof -
    have "0 \<le> i \<and> i < 7 \<longleftrightarrow> i = 0 \<or> i = 1 \<or> i = 2 \<or> i = 3 \<or> i = 4 \<or> i = 5 \<or> i = 6" by arith
    then show ?thesis by (auto simp: slave_map_def apb_slaves_def documented_map_def)
  qed
  have m: "paddr div 4096 mod 16 = paddr div 4096 - 0x40000" if "0x40000000 \<le> paddr" "paddr < 0x40007000"
  proof -
    define r where "r = paddr div 4096 - 0x40000"
    have "0 \<le> r" "r < 7" using that by (simp_all add: r_def)
    then have "(r + 0x4000 * 16) mod 16 = r" by (simp only: mod_mult_self1) simp
    then show ?thesis by (simp add: r_def)
  qed
  show ?thesis
    unfolding d s using m by (auto split: if_splits)
qed

text \<open>A write that starts inside a memory and runs past its end extends the byte array.\<close>

lemma write_past_end_grows:
  "length (cb_sram (snd (crossbar_write documented_map 0 0x2000000E [1, 2, 3, 4] (crossbar_new (zeros 16) (zeros 16))))) = 18"
  by code_simp

end
