(* ===== verification/Hw_Pcie.thy ===== *)
theory Hw_Pcie
  imports Hw_Crossbar
begin

text \<open>
  The host side of the PCIe endpoint, the class \<open>PCIeModel\<close> of \<open>sim/models/pcie.py\<close>: memory
  requests of the host are checked against the two BARs, split into TLPs of at most
  \<open>max_payload_bytes\<close>, given a header each and routed through the crossbar as master 5. The loop of
  \<open>tlp_read\<close> is a partial function; its payload limit is an attribute, and a limit below 1 makes the
  header builder raise.
\<close>

section \<open>State\<close>

record pcie_state =
  ps_completer_id :: int
  ps_max_payload_size :: int
  ps_msix_enable :: bool
  ps_msix_vector :: int
  ps_irq_enable :: bool
  ps_irq_pending :: bool
  ps_bar0_base :: int
  ps_bar0_mask :: int
  ps_bar1_base :: int
  ps_bar1_mask :: int

record pcie =
  pc_crossbar :: crossbar
  pc_bar0_base :: int
  pc_bar1_base :: int
  pc_state :: pcie_state
  pc_requester_id :: int
  pc_tag :: int
  pc_max_payload_bytes :: int
  pc_last_tx_headers :: "bytes list"
  pc_last_rx_headers :: "bytes list"

definition pcie_new :: "crossbar \<Rightarrow> int \<Rightarrow> int \<Rightarrow> pcie" where
  "pcie_new cb bar0 bar1 = \<lparr>pc_crossbar = cb, pc_bar0_base = bar0, pc_bar1_base = bar1,
     pc_state = \<lparr>ps_completer_id = 0x0001, ps_max_payload_size = 3, ps_msix_enable = False, ps_msix_vector = 0,
       ps_irq_enable = False, ps_irq_pending = False, ps_bar0_base = bar0, ps_bar0_mask = 0x003FFFFF,
       ps_bar1_base = bar1, ps_bar1_mask = 0x7FFFFFFF\<rparr>,
     pc_requester_id = 0x0000, pc_tag = 0, pc_max_payload_bytes = 256,
     pc_last_tx_headers = [], pc_last_rx_headers = []\<rparr>"

definition next_tag :: "(pcie, int) op" where
  "next_tag p = (Inr (pc_tag p), p\<lparr>pc_tag := (pc_tag p + 1) AND 0xFF\<rparr>)"

text \<open>The memory (0 the SRAM, 1 the DRAM) and the offset in it.\<close>

definition resolve_bar :: "int \<Rightarrow> pcie \<Rightarrow> (nat \<times> int) result" where
  "resolve_bar addr p =
     (if pc_bar0_base p \<le> addr \<and> addr < pc_bar0_base p + int (length (cb_sram (pc_crossbar p)))
      then Inr (0, addr - pc_bar0_base p)
      else if pc_bar1_base p \<le> addr \<and> addr < pc_bar1_base p + int (length (cb_dram (pc_crossbar p)))
      then Inr (1, addr - pc_bar1_base p)
      else Inl (ValueError ''BAR range''))"

section \<open>Headers\<close>

definition of_result :: "'a result \<Rightarrow> ('s, 'a) op" where
  "of_result r s = (r, s)"

text \<open>\<open>kind\<close> is \<open>0x40\<close> for a memory write and \<open>0x00\<close> for a memory read.\<close>

definition request_header :: "int \<Rightarrow> int \<Rightarrow> int \<Rightarrow> (pcie, bytes) op" where
  "request_header kind addr len =
     (if len \<le> 0 \<or> 1024 < len then raise_op (ValueError ''TLP length'')
      else bind_op next_tag (\<lambda>tag. bind_op (get_op pc_requester_id) (\<lambda>rid.
        of_result (pack_be [push_bit 24 kind OR (len AND 0x3FF), push_bit 16 rid OR push_bit 8 tag,
          addr AND 0xFFFFFFFC]))))"

definition build_memwr_header :: "int \<Rightarrow> int \<Rightarrow> (pcie, bytes) op" where
  "build_memwr_header = request_header 0x40"

definition build_memrd_header :: "int \<Rightarrow> int \<Rightarrow> (pcie, bytes) op" where
  "build_memrd_header = request_header 0x00"

definition parse_completion_header :: "bytes \<Rightarrow> int result" where
  "parse_completion_header h = (if length h \<noteq> 12 then Inl (ValueError ''Completion header'')
     else Inr ((hd (unpack_be h) AND 0x3FF) * 4))"

definition build_completion_header :: "int \<Rightarrow> pcie \<Rightarrow> bytes result" where
  "build_completion_header len p = pack_be [push_bit 24 0x4A OR (len AND 0x3FF),
     push_bit 16 (pc_requester_id p) OR (ps_completer_id (pc_state p) AND 0xFFFF), 0]"

section \<open>Writing and reading\<close>

definition on_crossbar :: "(crossbar, 'a) op \<Rightarrow> (pcie, 'a) op" where
  "on_crossbar = zoom_op pc_crossbar (\<lambda>cb p. p\<lparr>pc_crossbar := cb\<rparr>)"

definition dwords :: "int \<Rightarrow> int" where
  "dwords n = (n + 3) div 4"

definition pad4 :: "bytes \<Rightarrow> bytes" where
  "pad4 c = c @ zeros (dwords (int (length c)) * 4 - int (length c))"

fun write_chunks :: "addr_map \<Rightarrow> int \<Rightarrow> bytes list \<Rightarrow> (pcie, unit) op" where
  "write_chunks am cur [] = ret ()"
| "write_chunks am cur (c # cs) =
     bind_op (build_memwr_header cur (dwords (int (length c)))) (\<lambda>header.
     seq_op (modify_op (\<lambda>p. p\<lparr>pc_last_tx_headers := pc_last_tx_headers p @ [header]\<rparr>))
     (seq_op (on_crossbar (crossbar_write am master_pcie cur (pad4 c)))
       (write_chunks am (cur + int (length (pad4 c))) cs)))"

definition tlp_write :: "addr_map \<Rightarrow> int \<Rightarrow> bytes \<Rightarrow> (pcie, unit) op" where
  "tlp_write am addr data p =
     (case resolve_bar addr p of Inl e \<Rightarrow> (Inl e, p)
      | Inr _ \<Rightarrow> (case split_payload data (pc_max_payload_bytes p) of Inl e \<Rightarrow> (Inl e, p)
        | Inr chunks \<Rightarrow> seq_op (modify_op (\<lambda>p. p\<lparr>pc_last_tx_headers := []\<rparr>)) (write_chunks am addr chunks) p))"

definition read_chunk :: "addr_map \<Rightarrow> int \<Rightarrow> int \<Rightarrow> (pcie, bytes) op" where
  "read_chunk am cur chunk_size =
     bind_op (build_memrd_header cur (dwords chunk_size)) (\<lambda>header.
     seq_op (modify_op (\<lambda>p. p\<lparr>pc_last_rx_headers := pc_last_rx_headers p @ [header]\<rparr>))
     (bind_op (\<lambda>p. (build_completion_header (dwords chunk_size) p, p)) (\<lambda>cpl.
     seq_op (of_result (parse_completion_header cpl))
     (bind_op (on_crossbar (crossbar_read am master_pcie cur (dwords chunk_size * 4))) (\<lambda>data.
       ret (seq_slice data 0 chunk_size))))))"

partial_function (option) read_chunks ::
    "addr_map \<Rightarrow> int \<Rightarrow> int \<Rightarrow> bytes \<Rightarrow> pcie \<Rightarrow> (bytes result \<times> pcie) option" where
  "read_chunks am cur remaining acc p =
     (if remaining \<le> 0 then Some (Inr acc, p)
      else let chunk_size = min remaining (pc_max_payload_bytes p) in
        case read_chunk am cur chunk_size p of
          (Inl e, p') \<Rightarrow> Some (Inl e, p')
        | (Inr data, p') \<Rightarrow>
            read_chunks am (cur + dwords chunk_size * 4) (remaining - chunk_size) (acc @ data) p')"

declare read_chunks.simps [code]

definition tlp_read :: "addr_map \<Rightarrow> int \<Rightarrow> int \<Rightarrow> pcie \<Rightarrow> (bytes result \<times> pcie) option" where
  "tlp_read am addr n p =
     (if n < 0 then Some (Inl (ValueError ''size''), p)
      else if n = 0 then Some (Inr [], p)
      else case resolve_bar addr p of Inl e \<Rightarrow> Some (Inl e, p)
      | Inr _ \<Rightarrow> read_chunks am addr n [] (p\<lparr>pc_last_rx_headers := []\<rparr>))"

definition send_msi :: "int \<Rightarrow> (pcie, unit) op" where
  "send_msi vector p =
     (if \<not> (0 \<le> vector \<and> vector \<le> 7) then (Inl (ValueError ''MSI-X vector''), p)
      else (Inr (), p\<lparr>pc_state := (pc_state p)\<lparr>ps_msix_enable := True, ps_msix_vector := vector,
              ps_irq_pending := True\<rparr>\<rparr>))"

section \<open>A well-formed endpoint\<close>

text \<open>
  The BARs agree with the address map, the ids fit their fields and the payload limit is one a
  4-byte aligned TLP can carry: what the constructor establishes on the documented address map.
\<close>

definition pcie_ok :: "addr_map \<Rightarrow> nat \<Rightarrow> pcie \<Rightarrow> bool" where
  "pcie_ok am mp p \<longleftrightarrow> crossbar_ok am (pc_crossbar p)
     \<and> pc_bar0_base p = am_SRAM_BASE am \<and> pc_bar1_base p = am_DRAM_BASE am
     \<and> 0 \<le> pc_requester_id p \<and> pc_requester_id p < 2 ^ 16 \<and> 0 \<le> pc_tag p \<and> pc_tag p < 256
     \<and> pc_max_payload_bytes p = int mp \<and> 0 < mp \<and> 4 dvd mp \<and> mp \<le> 4096"

lemma pcie_new_ok:
  "crossbar_ok am cb \<Longrightarrow> bar0 = am_SRAM_BASE am \<Longrightarrow> bar1 = am_DRAM_BASE am \<Longrightarrow> pcie_ok am 256 (pcie_new cb bar0 bar1)"
  by (simp add: pcie_ok_def pcie_new_def)

lemma or_field_bound:
  assumes "0 \<le> a" and "a < 2 ^ n" and "0 \<le> b" and "b < 2 ^ n"
  shows "0 \<le> a OR b \<and> a OR b < (2 ^ n :: int)"
proof -
  have "take_bit n (a OR b) = a OR b" using assms by (simp add: take_bit_or take_bit_int_eq_self)
  then show ?thesis by (rule take_bit_bound)
qed

lemma push_field_bound:
  assumes "0 \<le> a" and "a < 2 ^ k" and "k + s \<le> n"
  shows "0 \<le> push_bit s a \<and> push_bit s a < (2 ^ n :: int)"
proof -
  have "push_bit s a < 2 ^ s * 2 ^ k" using assms(2) by (simp add: push_bit_eq_mult)
  also have "\<dots> \<le> 2 ^ n" using assms(3) by (simp flip: power_add add: add.commute)
  finally show ?thesis using assms(1) by simp
qed

lemma mask_bound: "0 \<le> x AND 0x3FF \<and> x AND 0x3FF < (2 ^ 32 :: int)"
  "0 \<le> x AND 0xFFFF \<and> x AND 0xFFFF < (2 ^ 32 :: int)" "0 \<le> x AND 0xFF \<and> x AND 0xFF < (2 ^ 8 :: int)"
  unfolding mask_lits using field_bounds[of 10 x] field_bounds[of 16 x] field_bounds[of 8 x] by simp_all

lemma mask_addr_bound: "0 \<le> x AND 0xFFFFFFFC \<and> x AND 0xFFFFFFFC < (2 ^ 32 :: int)"
  using AND_upper2[of "0xFFFFFFFC" x] and_nonnegative_int_iff[of x "0xFFFFFFFC"] by simp

lemma request_header_ok:
  assumes "pcie_ok am mp p" and "0 < len" and "len \<le> 1024" and "kind = 0x40 \<or> kind = 0x00"
  obtains h where "request_header kind addr len p = (Inr h, p\<lparr>pc_tag := (pc_tag p + 1) AND 0xFF\<rparr>)"
    and "length h = 12"
    and "unpack_be h = [push_bit 24 kind OR (len AND 0x3FF), push_bit 16 (pc_requester_id p) OR push_bit 8 (pc_tag p),
          addr AND 0xFFFFFFFC]"
proof -
  let ?ws = "[push_bit 24 kind OR (len AND 0x3FF), push_bit 16 (pc_requester_id p) OR push_bit 8 (pc_tag p),
          addr AND 0xFFFFFFFC]"
  have r: "0 \<le> pc_requester_id p" "pc_requester_id p < 2 ^ 16" "0 \<le> pc_tag p" "pc_tag p < 2 ^ 8"
    using assms(1) by (simp_all add: pcie_ok_def)
  have "0 \<le> push_bit 24 kind \<and> push_bit 24 kind < (2 ^ 32 :: int)" using assms(4) by auto
  then have "list_all (\<lambda>v. 0 \<le> v \<and> v < 2 ^ 32) ?ws"
    using or_field_bound[of "push_bit 24 kind" 32 "len AND 0x3FF"] mask_bound(1)[of len] mask_addr_bound[of addr]
      or_field_bound[of "push_bit 16 (pc_requester_id p)" 32 "push_bit 8 (pc_tag p)"]
      push_field_bound[OF r(1,2), of 16 32] push_field_bound[OF r(3,4), of 8 32]
    by simp
  then obtain h where h: "pack_be ?ws = Inr h" by (simp add: pack_be_def)
  show thesis
  proof (rule that)
    show "request_header kind addr len p = (Inr h, p\<lparr>pc_tag := (pc_tag p + 1) AND 0xFF\<rparr>)"
      using assms(2,3) h by (simp add: request_header_def bind_op_def next_tag_def get_op_def of_result_def)
    show "length h = 12" using length_pack_be[OF h] by simp
    show "unpack_be h = ?ws" by (rule unpack_pack[OF h])
  qed
qed

lemma completion_header_ok:
  assumes "pcie_ok am mp p"
  obtains h where "build_completion_header len p = Inr h" and "length h = 12"
proof -
  let ?ws = "[push_bit 24 0x4A OR (len AND 0x3FF), push_bit 16 (pc_requester_id p) OR (ps_completer_id (pc_state p) AND 0xFFFF), 0]"
  have r: "0 \<le> pc_requester_id p" "pc_requester_id p < 2 ^ 16" using assms by (simp_all add: pcie_ok_def)
  have "list_all (\<lambda>v. 0 \<le> v \<and> v < 2 ^ 32) ?ws"
    using or_field_bound[of "push_bit 24 0x4A" 32 "len AND 0x3FF"] mask_bound(1)[of len]
      or_field_bound[of "push_bit 16 (pc_requester_id p)" 32 "ps_completer_id (pc_state p) AND 0xFFFF"]
      push_field_bound[OF r, of 16 32] mask_bound(2)[of "ps_completer_id (pc_state p)"]
    by simp
  then obtain h where h: "build_completion_header len p = Inr h"
    by (simp add: build_completion_header_def pack_be_def)
  then show thesis
    by (rule that) (use h in \<open>simp add: build_completion_header_def length_pack_be\<close>)
qed

lemma pcie_ok_tag: "pcie_ok am mp p \<Longrightarrow> pcie_ok am mp (p\<lparr>pc_tag := (pc_tag p + 1) AND 0xFF\<rparr>)"
  using mask_bound(3)[of "pc_tag p + 1"] by (simp add: pcie_ok_def)

lemma dwords_bounds: "0 \<le> n \<Longrightarrow> n \<le> dwords n * 4 \<and> dwords n * 4 < n + 4 \<and> (0 < n \<longrightarrow> 0 < dwords n)"
  unfolding dwords_def by linarith

lemma dwords_multiple: "4 dvd n \<Longrightarrow> dwords n * 4 = n"
  unfolding dwords_def by (auto elim!: dvdE)

lemma length_pad4: "int (length (pad4 c)) = dwords (int (length c)) * 4"
  using dwords_bounds[of "int (length c)"] by (simp add: pad4_def)

lemma pad4_multiple: "4 dvd length c \<Longrightarrow> pad4 c = c"
  using dwords_multiple[of "int (length c)"] int_dvd_int_iff[of 4 "length c"] by (simp add: pad4_def zeros_def)

lemma take_pad4: "take (length c) (pad4 c) = c"
  by (simp add: pad4_def)

lemma pad4_chunks: "0 < n \<Longrightarrow> 4 dvd n \<Longrightarrow> xs \<noteq> [] \<Longrightarrow> concat (map pad4 (chunks_of n xs)) = pad4 xs"
proof (induction n xs rule: chunks_of.induct)
  case (1 n xs)
  show ?case
  proof (cases "drop n xs = []")
    case True
    then have "chunks_of n xs = [xs]" using 1(2,4) chunks_of.simps[of n xs] by simp
    then show ?thesis by simp
  next
    case False
    then have l: "n < length xs" by simp
    then have "pad4 (take n xs) = take n xs" using 1(3) by (intro pad4_multiple) simp
    moreover have "int (length xs) - int (length (drop n xs)) = int n" using l by simp
    moreover have "pad4 xs = take n xs @ pad4 (drop n xs)"
    proof -
      obtain k where k: "n = 4 * k" using 1(3) by (auto elim: dvdE)
      have "dwords (int (length xs)) = int k + dwords (int (length (drop n xs)))"
        using l unfolding k dwords_def by simp
      then have "dwords (int (length xs)) * 4 - int (length xs) = dwords (int (length (drop n xs))) * 4 - int (length (drop n xs))"
        using l k by simp
      then show ?thesis by (metis append.assoc append_take_drop_id pad4_def)
    qed
    ultimately show ?thesis using 1 False chunks_of.simps[of n xs] by auto
  qed
qed

section \<open>The loops\<close>

text \<open>What a transfer keeps: everything but the memories, the counters and the recorded headers.\<close>

definition same_sizes :: "crossbar \<Rightarrow> crossbar \<Rightarrow> bool" where
  "same_sizes cb cb' \<longleftrightarrow> length (cb_sram cb') = length (cb_sram cb) \<and> length (cb_dram cb') = length (cb_dram cb)"

lemma same_sizes_refl [simp]: "same_sizes cb cb"
  by (simp add: same_sizes_def)

lemma same_sizes_trans: "same_sizes a b \<Longrightarrow> same_sizes b c \<Longrightarrow> same_sizes a c"
  by (simp add: same_sizes_def)

lemma inside_same: "same_sizes cb cb' \<Longrightarrow> inside am cb' addr n i off = inside am cb addr n i off"
  using inside_cong[of cb' cb] by (simp add: same_sizes_def)

lemma pcie_ok_cong:
  assumes "pcie_ok am mp p" and "crossbar_ok am (pc_crossbar q)" and "pc_bar0_base q = pc_bar0_base p"
    and "pc_bar1_base q = pc_bar1_base p" and "pc_requester_id q = pc_requester_id p" and "pc_tag q = pc_tag p"
    and "pc_max_payload_bytes q = pc_max_payload_bytes p"
  shows "pcie_ok am mp q"
  using assms by (simp add: pcie_ok_def)

lemma on_crossbar_eq: "f (pc_crossbar p) = (r, cb') \<Longrightarrow> on_crossbar f p = (r, p\<lparr>pc_crossbar := cb'\<rparr>)"
  by (simp add: on_crossbar_def zoom_op_def)

lemma write_chunk_ok:
  assumes ok: "pcie_ok am mp p" and c: "c \<noteq> []" "length c \<le> mp"
    and ins: "inside am (pc_crossbar p) cur (length (pad4 c)) i off"
  obtains p' where "write_chunks am cur (c # cs) p = write_chunks am (cur + int (length (pad4 c))) cs p'"
    and "pcie_ok am mp p'" and "same_sizes (pc_crossbar p) (pc_crossbar p')"
    and "slave_mem i (pc_crossbar p') = overwrite (slave_mem i (pc_crossbar p)) off (pad4 c)"
    and "slave_mem (1 - i) (pc_crossbar p') = slave_mem (1 - i) (pc_crossbar p)"
    and "length (pc_last_tx_headers p') = length (pc_last_tx_headers p) + 1"
proof -
  have d: "0 < dwords (int (length c))" "dwords (int (length c)) \<le> 1024"
    using c ok dwords_bounds[of "int (length c)"] by (auto simp: pcie_ok_def)
  obtain h where h: "build_memwr_header cur (dwords (int (length c))) p = (Inr h, p\<lparr>pc_tag := (pc_tag p + 1) AND 0xFF\<rparr>)"
    unfolding build_memwr_header_def by (rule request_header_ok[OF ok d]) auto
  have m: "0 \<le> master_pcie" "master_pcie < num_masters" by (simp_all add: master_pcie_def num_masters_def)
  obtain cb' where w: "crossbar_write am master_pcie cur (pad4 c) (pc_crossbar p) = (Inr (), cb')"
    and mem: "slave_mem i cb' = overwrite (slave_mem i (pc_crossbar p)) off (pad4 c)"
      "slave_mem (1 - i) cb' = slave_mem (1 - i) (pc_crossbar p)"
    and len: "length (cb_sram cb') = length (cb_sram (pc_crossbar p))"
      "length (cb_dram cb') = length (cb_dram (pc_crossbar p))"
    and txn: "cb_txn_ids cb' = (cb_txn_ids (pc_crossbar p))[nat master_pcie :=
        (cb_txn_ids (pc_crossbar p) ! nat master_pcie + 1) AND 0xFF]"
    by (rule crossbar_write_inside[OF ins m])
  define p' where "p' = p\<lparr>pc_tag := (pc_tag p + 1) AND 0xFF, pc_last_tx_headers := pc_last_tx_headers p @ [h],
      pc_crossbar := cb'\<rparr>"
  have cok: "crossbar_ok am (pc_crossbar p)" using ok by (simp add: pcie_ok_def)
  show thesis
  proof (rule that)
    show "write_chunks am cur (c # cs) p = write_chunks am (cur + int (length (pad4 c))) cs p'"
      by (simp add: h bind_op_def seq_op_def modify_op_def on_crossbar_def zoom_op_def w p'_def)
    show "pcie_ok am mp p'"
      by (rule pcie_ok_cong[OF pcie_ok_tag[OF ok]]) (simp_all add: p'_def crossbar_ok_step[OF cok len txn])
    show "same_sizes (pc_crossbar p) (pc_crossbar p')" using len by (simp add: p'_def same_sizes_def)
    show "slave_mem (1 - i) (pc_crossbar p') = slave_mem (1 - i) (pc_crossbar p)" using mem(2) by (simp add: p'_def)
  qed (simp_all add: p'_def mem(1))
qed

lemma write_chunks_ok:
  assumes "pcie_ok am mp p" and "\<forall>c \<in> set cs. c \<noteq> [] \<and> length c \<le> mp"
    and "cs \<noteq> [] \<longrightarrow> inside am (pc_crossbar p) cur (length (concat (map pad4 cs))) i off"
  shows "\<exists>p'. write_chunks am cur cs p = (Inr (), p') \<and> pcie_ok am mp p'
    \<and> same_sizes (pc_crossbar p) (pc_crossbar p')
    \<and> slave_mem i (pc_crossbar p') = overwrite (slave_mem i (pc_crossbar p)) off (concat (map pad4 cs))
    \<and> slave_mem (1 - i) (pc_crossbar p') = slave_mem (1 - i) (pc_crossbar p)
    \<and> length (pc_last_tx_headers p') = length (pc_last_tx_headers p) + length cs"
  using assms
proof (induction cs arbitrary: cur p off)
  case Nil
  then show ?case by (simp add: ret_def)
next
  case (Cons c cs)
  let ?l = "length (pad4 c)"
  have ins: "inside am (pc_crossbar p) cur (?l + length (concat (map pad4 cs))) i off" using Cons.prems(3) by simp
  then have c: "inside am (pc_crossbar p) cur ?l i off" by (rule inside_prefix) simp
  obtain p1 where p1: "write_chunks am cur (c # cs) p = write_chunks am (cur + int ?l) cs p1" "pcie_ok am mp p1"
      "same_sizes (pc_crossbar p) (pc_crossbar p1)"
      "slave_mem i (pc_crossbar p1) = overwrite (slave_mem i (pc_crossbar p)) off (pad4 c)"
      "slave_mem (1 - i) (pc_crossbar p1) = slave_mem (1 - i) (pc_crossbar p)"
      "length (pc_last_tx_headers p1) = length (pc_last_tx_headers p) + 1"
    by (rule write_chunk_ok[OF Cons.prems(1) _ _ c]) (use Cons.prems(2) in auto)
  have "cs \<noteq> [] \<longrightarrow> inside am (pc_crossbar p1) (cur + int ?l) (length (concat (map pad4 cs))) i (off + ?l)"
  proof
    assume "cs \<noteq> []"
    then obtain c' cs' where "cs = c' # cs'" "c' \<noteq> []" using Cons.prems(2) by (cases cs) auto
    then have "0 < length (concat (map pad4 cs))" by (simp add: pad4_def)
    then have "?l < ?l + length (concat (map pad4 cs))" by simp
    from decode_inside[OF _ ins this] Cons.prems(1) show "inside am (pc_crossbar p1) (cur + int ?l)
        (length (concat (map pad4 cs))) i (off + ?l)"
      by (simp add: inside_same[OF p1(3)] pcie_ok_def)
  qed
  from Cons.IH[OF p1(2) _ this] obtain p' where
    "write_chunks am (cur + int ?l) cs p1 = (Inr (), p')" "pcie_ok am mp p'" "same_sizes (pc_crossbar p1) (pc_crossbar p')"
    "slave_mem i (pc_crossbar p') = overwrite (slave_mem i (pc_crossbar p1)) (off + ?l) (concat (map pad4 cs))"
    "slave_mem (1 - i) (pc_crossbar p') = slave_mem (1 - i) (pc_crossbar p1)"
    "length (pc_last_tx_headers p') = length (pc_last_tx_headers p1) + length cs"
    using Cons.prems(2) by auto
  then show ?case
    using p1 ins same_sizes_trans[OF p1(3)] by (simp add: overwrite_append inside_def)
qed

lemma read_chunk_ok:
  assumes ok: "pcie_ok am mp p" and n: "0 < n" "n \<le> mp"
    and ins: "inside am (pc_crossbar p) cur (nat (dwords (int n) * 4)) i off"
  obtains p' where "read_chunk am cur (int n) p = (Inr (take n (drop off (slave_mem i (pc_crossbar p)))), p')"
    and "pcie_ok am mp p'" and "cb_sram (pc_crossbar p') = cb_sram (pc_crossbar p)"
    and "cb_dram (pc_crossbar p') = cb_dram (pc_crossbar p)"
proof -
  let ?d = "dwords (int n)"
  have d: "0 < ?d" "?d \<le> 1024" "int n \<le> ?d * 4"
    using n ok dwords_bounds[of "int n"] by (auto simp: pcie_ok_def)
  obtain h where h: "build_memrd_header cur ?d p = (Inr h, p\<lparr>pc_tag := (pc_tag p + 1) AND 0xFF\<rparr>)"
    unfolding build_memrd_header_def by (rule request_header_ok[OF ok d(1,2), where kind = 0 and addr = cur]) simp_all
  define p1 where "p1 = p\<lparr>pc_tag := (pc_tag p + 1) AND 0xFF, pc_last_rx_headers := pc_last_rx_headers p @ [h]\<rparr>"
  have ok1: "pcie_ok am mp p1"
    by (rule pcie_ok_cong[OF pcie_ok_tag[OF ok]]) (use ok in \<open>simp_all add: p1_def pcie_ok_def\<close>)
  obtain c where c: "build_completion_header ?d p1 = Inr c" "length c = 12"
    by (rule completion_header_ok[OF ok1])
  have m: "0 \<le> master_pcie" "master_pcie < num_masters" by (simp_all add: master_pcie_def num_masters_def)
  have "0 < nat (?d * 4)" using d(1) by simp
  then obtain cb' where r: "crossbar_read am master_pcie cur (int (nat (?d * 4))) (pc_crossbar p)
        = (Inr (take (nat (?d * 4)) (drop off (slave_mem i (pc_crossbar p)))), cb')"
    and cb': "cb_sram cb' = cb_sram (pc_crossbar p)" "cb_dram cb' = cb_dram (pc_crossbar p)"
      "cb_txn_ids cb' = (cb_txn_ids (pc_crossbar p))[nat master_pcie := (cb_txn_ids (pc_crossbar p) ! nat master_pcie + 1) AND 0xFF]"
    by (rule crossbar_read_inside[OF ins _ m])
  have i4: "int (nat (?d * 4)) = ?d * 4" using d(1) by simp
  have len: "n \<le> length (take (nat (?d * 4)) (drop off (slave_mem i (pc_crossbar p))))"
    using ins d(3) by (simp add: inside_def min_def) linarith
  have s: "seq_slice (take (nat (?d * 4)) (drop off (slave_mem i (pc_crossbar p)))) 0 (int n)
      = take n (drop off (slave_mem i (pc_crossbar p)))"
    using len d(3) by (simp add: seq_slice_def min_def)
  have cok: "crossbar_ok am (pc_crossbar p)" using ok by (simp add: pcie_ok_def)
  show thesis
  proof (rule that)
    show "read_chunk am cur (int n) p = (Inr (take n (drop off (slave_mem i (pc_crossbar p)))), p1\<lparr>pc_crossbar := cb'\<rparr>)"
      using c r s unfolding i4
      by (simp add: read_chunk_def h bind_op_def seq_op_def modify_op_def of_result_def on_crossbar_def zoom_op_def
          parse_completion_header_def ret_def p1_def)
    show "pcie_ok am mp (p1\<lparr>pc_crossbar := cb'\<rparr>)"
      by (rule pcie_ok_cong[OF ok1]) (simp_all add: crossbar_ok_step[OF cok _ _ cb'(3)] cb'(1,2))
  qed (simp_all add: cb')
qed

lemma read_chunks_ok:
  assumes "pcie_ok am mp p" and "0 < n \<longrightarrow> inside am (pc_crossbar p) cur (nat (dwords (int n) * 4)) i off"
  shows "\<exists>p'. read_chunks am cur (int n) acc p = Some (Inr (acc @ take n (drop off (slave_mem i (pc_crossbar p)))), p')
    \<and> pcie_ok am mp p' \<and> cb_sram (pc_crossbar p') = cb_sram (pc_crossbar p)
    \<and> cb_dram (pc_crossbar p') = cb_dram (pc_crossbar p)"
  using assms
proof (induction n arbitrary: cur acc p off rule: less_induct)
  case (less n)
  show ?case
  proof (cases "n = 0")
    case True
    then show ?thesis using less.prems(1) by (subst read_chunks.simps) simp
  next
    case False
    let ?c = "min n mp"
    have mp: "0 < mp" "4 dvd mp" "pc_max_payload_bytes p = int mp" using less.prems(1) by (simp_all add: pcie_ok_def)
    have ins: "inside am (pc_crossbar p) cur (nat (dwords (int n) * 4)) i off" using less.prems(2) False by simp
    have le: "dwords (int ?c) \<le> dwords (int n)" unfolding dwords_def by (simp add: zdiv_mono1)
    have "inside am (pc_crossbar p) cur (nat (dwords (int ?c) * 4)) i off"
      by (rule inside_prefix[OF ins]) (use le in simp)
    then obtain p1 where r: "read_chunk am cur (int ?c) p = (Inr (take ?c (drop off (slave_mem i (pc_crossbar p)))), p1)"
      and ok1: "pcie_ok am mp p1" and mem: "cb_sram (pc_crossbar p1) = cb_sram (pc_crossbar p)"
        "cb_dram (pc_crossbar p1) = cb_dram (pc_crossbar p)"
      using read_chunk_ok[OF less.prems(1)] False mp(1) by (metis min.cobounded2 min_less_iff_conj neq0_conv)
    have sl: "slave_mem i (pc_crossbar p1) = slave_mem i (pc_crossbar p)" using mem by (simp add: slave_mem_def)
    have same: "same_sizes (pc_crossbar p) (pc_crossbar p1)" using mem by (simp add: same_sizes_def)
    have step: "read_chunks am cur (int n) acc p = read_chunks am (cur + dwords (int ?c) * 4) (int (n - ?c))
        (acc @ take ?c (drop off (slave_mem i (pc_crossbar p)))) p1"
      using False r mp(3) by (subst read_chunks.simps) (simp add: of_nat_diff Let_def flip: of_nat_min)
    have rest: "0 < n - ?c \<longrightarrow> inside am (pc_crossbar p1) (cur + dwords (int ?c) * 4) (nat (dwords (int (n - ?c)) * 4)) i (off + ?c)"
    proof
      assume "0 < n - ?c"
      then have c: "?c = mp" "mp < n" by auto
      have d4: "dwords (int mp) * 4 = int mp" using mp(2) int_dvd_int_iff[of 4 mp] by (simp add: dwords_multiple)
      obtain k where k: "mp = 4 * k" using mp(2) by (auto elim: dvdE)
      have dn: "dwords (int n) = int k + dwords (int (n - mp))"
        using c(2) unfolding k dwords_def by (simp add: of_nat_diff)
      have "0 < dwords (int (n - mp))" using c(2) dwords_bounds[of "int (n - mp)"] by simp
      then have split: "nat (dwords (int n) * 4) - mp = nat (dwords (int (n - mp)) * 4)" "mp < nat (dwords (int n) * 4)"
        unfolding dn k by simp_all
      from decode_inside[OF _ ins split(2)] less.prems(1)
      show "inside am (pc_crossbar p1) (cur + dwords (int ?c) * 4) (nat (dwords (int (n - ?c)) * 4)) i (off + ?c)"
        unfolding c(1) d4 by (simp add: split(1) inside_same[OF same] pcie_ok_def)
    qed
    have "n - ?c < n" using False mp(1) by simp
    from less.IH[OF this ok1 rest] obtain p' where
      "read_chunks am (cur + dwords (int ?c) * 4) (int (n - ?c)) (acc @ take ?c (drop off (slave_mem i (pc_crossbar p)))) p1
       = Some (Inr ((acc @ take ?c (drop off (slave_mem i (pc_crossbar p)))) @ take (n - ?c) (drop (off + ?c) (slave_mem i (pc_crossbar p1)))), p')"
      "pcie_ok am mp p'" "cb_sram (pc_crossbar p') = cb_sram (pc_crossbar p1)" "cb_dram (pc_crossbar p') = cb_dram (pc_crossbar p1)"
      by blast
    moreover have "take ?c xs @ take (n - ?c) (drop ?c xs) = take n xs" for xs :: bytes
      by (metis le_add_diff_inverse min.cobounded1 take_add)
    ultimately show ?thesis using step mem unfolding sl by (simp add: add.commute[of off] flip: drop_drop)
  qed
qed

section \<open>Properties\<close>



end
