(* ===== verification/Hw_Pcie_Dma.thy ===== *)
theory Hw_Pcie_Dma
  imports Hw_Pcie Py_Text
begin

text \<open>
  The DMA engine of the PCIe endpoint, the class \<open>DmaEngine\<close> of \<open>sim/models/pcie.py\<close>: TLP
  headers, the pool of 256 tags, writes to and reads from the host memory, split completions, and
  descriptors that move data between the crossbar and the host with their status and
  interrupt. Which free tag \<open>set.pop\<close> takes is the argument \<open>pick\<close>.
\<close>

section \<open>State\<close>

record dma_read_op =
  ro_tag :: int
  ro_pcie_addr :: int
  ro_total_bytes :: int
  ro_data_buf :: bytes
  ro_bytes_received :: int

record pcie_dma =
  pd_crossbar :: "crossbar option"
  pd_requester_id :: int
  pd_completer_id :: int
  pd_max_payload_bytes :: int
  pd_mps_encoding :: int
  pd_host_mem :: bytes
  pd_tag_free :: "int set"
  pd_tag_in_use :: "(int, dma_read_op) dict"
  pd_desc_status :: "(int \<times> int) list"
  pd_irq_pending :: bool
  pd_completion_errors :: "(int, int) dict"
  pd_axi_dec_errors :: "int set"

definition mps_bytes :: "(int, int) dict" where
  "mps_bytes = [(0, 128), (1, 256), (2, 512), (3, 1024), (4, 2048), (5, 4096)]"

definition pcie_tag_count :: int where "pcie_tag_count = 256"

definition pcie_dma_new :: "crossbar option \<Rightarrow> int \<Rightarrow> int \<Rightarrow> int \<Rightarrow> int \<Rightarrow> pcie_dma" where
  "pcie_dma_new cb host_mem_size rid cid mps = \<lparr>pd_crossbar = cb, pd_requester_id = rid, pd_completer_id = cid,
     pd_max_payload_bytes = dget mps_bytes mps 256, pd_mps_encoding = mps, pd_host_mem = zeros host_mem_size,
     pd_tag_free = {0..<pcie_tag_count}, pd_tag_in_use = [], pd_desc_status = [], pd_irq_pending = False,
     pd_completion_errors = [], pd_axi_dec_errors = {}\<rparr>"

text \<open>Reading \<open>irq\<close> clears it, reading \<open>desc_status\<close> drains the queue.\<close>

definition irq :: "(pcie_dma, bool) op" where
  "irq d = (Inr (pd_irq_pending d), d\<lparr>pd_irq_pending := False\<rparr>)"

definition set_irq :: "bool \<Rightarrow> pcie_dma \<Rightarrow> pcie_dma" where
  "set_irq v d = d\<lparr>pd_irq_pending := v\<rparr>"

definition desc_status :: "(pcie_dma, (int \<times> int) list) op" where
  "desc_status d = (Inr (pd_desc_status d), d\<lparr>pd_desc_status := []\<rparr>)"

section \<open>Tags\<close>

definition alloc_tag :: "(int set \<Rightarrow> int) \<Rightarrow> (pcie_dma, int) op" where
  "alloc_tag pick d =
     (if pd_tag_free d = {} then (Inl (RuntimeError ''DMA tag pool exhausted (256 tags in use)''), d)
      else let tag = pick (pd_tag_free d) in (Inr tag, d\<lparr>pd_tag_free := pd_tag_free d - {tag}\<rparr>))"

definition free_tag :: "int \<Rightarrow> (pcie_dma, unit) op" where
  "free_tag tag d =
     (if tag < 0 \<or> pcie_tag_count \<le> tag then (Inl (ValueError ''Tag''), d)
      else (Inr (), d\<lparr>pd_tag_free := insert tag (pd_tag_free d),
              pd_tag_in_use := AList.delete tag (pd_tag_in_use d)\<rparr>))"

definition tags_free :: "pcie_dma \<Rightarrow> int" where
  "tags_free d = int (card (pd_tag_free d))"

definition tags_in_use :: "pcie_dma \<Rightarrow> int" where
  "tags_in_use d = pcie_tag_count - int (card (pd_tag_free d))"

section \<open>TLP headers\<close>

definition needs_4dw :: "int \<Rightarrow> bool" where
  "needs_4dw addr \<longleftrightarrow> 0xFFFFFFFF < addr"

definition header_3dw :: "int \<Rightarrow> int \<Rightarrow> int \<Rightarrow> int \<Rightarrow> pcie_dma \<Rightarrow> bytes result" where
  "header_3dw fmt addr len tag d = pack_be [push_bit 24 fmt OR (len AND 0x3FF),
     push_bit 16 (pd_requester_id d) OR push_bit 8 (tag AND 0xFF) OR 0xFF, addr AND 0xFFFFFFFC]"

definition header_4dw :: "int \<Rightarrow> int \<Rightarrow> int \<Rightarrow> int \<Rightarrow> pcie_dma \<Rightarrow> bytes result" where
  "header_4dw fmt addr len tag d = pack_be [push_bit 24 fmt OR (len AND 0x3FF),
     push_bit 16 (pd_requester_id d) OR push_bit 8 (tag AND 0xFF) OR 0xFF,
     drop_bit 32 addr AND 0xFFFFFFFF, addr AND 0xFFFFFFFC]"

definition memwr_header :: "int \<Rightarrow> int \<Rightarrow> int \<Rightarrow> pcie_dma \<Rightarrow> bytes result" where
  "memwr_header addr len tag d =
     (if needs_4dw addr then header_4dw 0x60 addr len tag d else header_3dw 0x40 addr len tag d)"

definition memrd_header :: "int \<Rightarrow> int \<Rightarrow> int \<Rightarrow> pcie_dma \<Rightarrow> bytes result" where
  "memrd_header addr len tag d =
     (if needs_4dw addr then header_4dw 0x20 addr len tag d else header_3dw 0x00 addr len tag d)"

definition build_cpld_header :: "int \<Rightarrow> int \<Rightarrow> int \<Rightarrow> int \<Rightarrow> int \<Rightarrow> pcie_dma \<Rightarrow> bytes result" where
  "build_cpld_header len tag byte_count completer_id status d =
     (let cid = (if completer_id \<noteq> 0 then completer_id else pd_completer_id d) in
      pack_be [push_bit 24 0x4A OR (len AND 0x3FF),
        push_bit 16 cid OR push_bit 8 (byte_count AND 0xFF) OR 0x80,
        push_bit 16 (pd_requester_id d) OR push_bit 8 (tag AND 0xFF) OR (drop_bit 8 byte_count AND 0x3)
          OR push_bit 4 (status AND 0xF)])"

definition parse_cpld_header :: "bytes \<Rightarrow> (int \<times> int \<times> int \<times> int) result" where
  "parse_cpld_header h = (if length h \<noteq> 12 then Inl (ValueError ''CPLD header'')
     else let dws = unpack_be h; dw0 = dws ! 0; dw1 = dws ! 1; dw2 = dws ! 2 in
       Inr ((dw0 AND 0x3FF) * 4, drop_bit 8 dw2 AND 0xFF,
         push_bit 8 (dw2 AND 0x3) OR (drop_bit 8 dw1 AND 0xFF), drop_bit 4 dw2 AND 0xF))"

section \<open>Host memory requests\<close>

fun dma_write_chunks :: "(int set \<Rightarrow> int) \<Rightarrow> int \<Rightarrow> bytes list \<Rightarrow> bytes list \<Rightarrow> (pcie_dma, bytes list) op" where
  "dma_write_chunks pick cur headers [] = ret headers"
| "dma_write_chunks pick cur headers (c # cs) =
     bind_op (alloc_tag pick) (\<lambda>tag.
     bind_op (\<lambda>d. (memwr_header cur (dwords (int (length c))) tag d, d)) (\<lambda>header.
     seq_op (modify_op (\<lambda>d. let padded = pad4 c in
         if cur + int (length padded) \<le> int (length (pd_host_mem d))
         then d\<lparr>pd_host_mem := seq_assign (pd_host_mem d) cur (cur + int (length padded)) padded\<rparr> else d))
     (seq_op (free_tag tag)
       (dma_write_chunks pick (cur + int (length (pad4 c))) (headers @ [header]) cs))))"

definition dma_tlp_write :: "(int set \<Rightarrow> int) \<Rightarrow> int \<Rightarrow> bytes \<Rightarrow> (pcie_dma, bytes list) op" where
  "dma_tlp_write pick addr data d =
     (if data = [] then (Inr [], d)
      else case split_payload data (pd_max_payload_bytes d) of Inl e \<Rightarrow> (Inl e, d)
      | Inr chunks \<Rightarrow> dma_write_chunks pick addr [] chunks d)"

text \<open>What the host returns for \<open>n\<close> bytes at \<open>cur\<close>: zeros beyond its memory.\<close>

definition host_bytes :: "bytes \<Rightarrow> int \<Rightarrow> int \<Rightarrow> bytes" where
  "host_bytes m cur n =
     (if cur + n \<le> int (length m) then seq_slice m cur (cur + n)
      else let avail = max 0 (int (length m) - cur); data = seq_slice m cur (cur + avail)
           in data @ zeros (n - int (length data)))"

definition cpld_status_name :: "int \<Rightarrow> string" where
  "cpld_status_name s = (if s = 0 then ''SC'' else if s = 1 then ''UR'' else if s = 2 then ''CA''
     else ''UNKNOWN('' @ str_int s @ '')'')"

definition mrd_error :: "int \<Rightarrow> int \<Rightarrow> string" where
  "mrd_error tag s = ''MRd tag '' @ str_int tag @ '' completed with error status '' @ str_int s
     @ '' ('' @ cpld_status_name s @ '')''"

text \<open>One read request: an injected completion status other than 0 frees the tag and raises.\<close>

definition dma_read_chunk :: "(int set \<Rightarrow> int) \<Rightarrow> int \<Rightarrow> int \<Rightarrow> (pcie_dma, bytes \<times> bytes) op" where
  "dma_read_chunk pick cur chunk_size =
     bind_op (alloc_tag pick) (\<lambda>tag.
     bind_op (\<lambda>d. (memrd_header cur (dwords chunk_size) tag d, d)) (\<lambda>header.
     bind_op (\<lambda>d. (Inr (dget (pd_completion_errors d) tag 0),
         d\<lparr>pd_completion_errors := AList.delete tag (pd_completion_errors d)\<rparr>)) (\<lambda>status.
     if status \<noteq> 0 then seq_op (free_tag tag) (raise_op (RuntimeError (mrd_error tag status)))
     else bind_op (get_op (\<lambda>d. host_bytes (pd_host_mem d) cur chunk_size)) (\<lambda>data.
       seq_op (free_tag tag) (ret (header, data))))))"

partial_function (option) dma_read_chunks ::
    "(int set \<Rightarrow> int) \<Rightarrow> int \<Rightarrow> int \<Rightarrow> bytes \<Rightarrow> bytes list \<Rightarrow> pcie_dma
     \<Rightarrow> ((bytes \<times> bytes list) result \<times> pcie_dma) option" where
  "dma_read_chunks pick cur remaining acc headers d =
     (if remaining \<le> 0 then Some (Inr (acc, headers), d)
      else let chunk_size = min remaining (pd_max_payload_bytes d) in
        case dma_read_chunk pick cur chunk_size d of
          (Inl e, d') \<Rightarrow> Some (Inl e, d')
        | (Inr r, d') \<Rightarrow> dma_read_chunks pick (cur + chunk_size) (remaining - chunk_size)
            (acc @ snd r) (headers @ [fst r]) d')"

declare dma_read_chunks.simps [code]

definition dma_tlp_read :: "(int set \<Rightarrow> int) \<Rightarrow> int \<Rightarrow> int \<Rightarrow> pcie_dma
    \<Rightarrow> ((bytes \<times> bytes list) result \<times> pcie_dma) option" where
  "dma_tlp_read pick addr n d =
     (if n < 0 then Some (Inl (ValueError ''length''), d)
      else if n = 0 then Some (Inr ([], []), d)
      else dma_read_chunks pick addr n [] [] d)"

subsection \<open>Split completions\<close>

text \<open>The data of one completion; the padding is counted from the bytes the memory has left.\<close>

definition completion_bytes :: "bytes \<Rightarrow> int \<Rightarrow> int \<Rightarrow> bytes" where
  "completion_bytes m cur n =
     (if cur + n \<le> int (length m) then seq_slice m cur (cur + n)
      else let avail = max 0 (int (length m) - cur)
           in seq_slice m cur (cur + avail) @ (if avail < n then zeros (n - avail) else []))"

text \<open>The completions of one request, of at most 128 bytes each.\<close>

function completions :: "int \<Rightarrow> int \<Rightarrow> int \<Rightarrow> pcie_dma \<Rightarrow> (bytes \<times> bytes list) result" where
  "completions tag cpl_addr remaining d =
     (if remaining \<le> 0 then Inr ([], [])
      else let cpl_chunk = min remaining 128 in
        bind_res (build_cpld_header (dwords cpl_chunk) tag remaining 0 0 d) (\<lambda>h.
        bind_res (completions tag (cpl_addr + cpl_chunk) (remaining - cpl_chunk) d) (\<lambda>(data, hs).
          Inr (completion_bytes (pd_host_mem d) cpl_addr cpl_chunk @ data, h # hs))))"
  by pat_completeness auto
termination by (relation "measure (\<lambda>(tag, cpl_addr, remaining, d). nat remaining)") auto

declare completions.simps [simp del]

definition reassembly_chunk :: "(int set \<Rightarrow> int) \<Rightarrow> int \<Rightarrow> int \<Rightarrow> (pcie_dma, bytes \<times> bytes \<times> bytes list) op" where
  "reassembly_chunk pick cur chunk_size =
     bind_op (alloc_tag pick) (\<lambda>tag.
     bind_op (\<lambda>d. (memrd_header cur (dwords chunk_size) tag d, d)) (\<lambda>header.
     bind_op (\<lambda>d. (completions tag cur chunk_size d, d)) (\<lambda>(data, cpls).
     seq_op (free_tag tag) (ret (header, data, cpls)))))"

partial_function (option) reassembly_chunks ::
    "(int set \<Rightarrow> int) \<Rightarrow> int \<Rightarrow> int \<Rightarrow> bytes \<Rightarrow> bytes list \<Rightarrow> bytes list \<Rightarrow> pcie_dma
     \<Rightarrow> ((bytes \<times> bytes list \<times> bytes list) result \<times> pcie_dma) option" where
  "reassembly_chunks pick cur remaining acc headers cpls d =
     (if remaining \<le> 0 then Some (Inr (acc, headers, cpls), d)
      else let chunk_size = min remaining (pd_max_payload_bytes d) in
        case reassembly_chunk pick cur chunk_size d of
          (Inl e, d') \<Rightarrow> Some (Inl e, d')
        | (Inr r, d') \<Rightarrow> reassembly_chunks pick (cur + chunk_size) (remaining - chunk_size)
            (acc @ fst (snd r)) (headers @ [fst r]) (cpls @ snd (snd r)) d')"

declare reassembly_chunks.simps [code]

definition tlp_read_with_reassembly :: "(int set \<Rightarrow> int) \<Rightarrow> int \<Rightarrow> int \<Rightarrow> pcie_dma
    \<Rightarrow> ((bytes \<times> bytes list \<times> bytes list) result \<times> pcie_dma) option" where
  "tlp_read_with_reassembly pick addr n d =
     (if n < 0 then Some (Inl (ValueError ''length''), d)
      else if n = 0 then Some (Inr ([], [], []), d)
      else reassembly_chunks pick addr n [] [] [] d)"

section \<open>Descriptors\<close>

definition cpl_ur :: int where "cpl_ur = 1"
definition cpl_ca :: int where "cpl_ca = 2"
definition desc_err_none :: int where "desc_err_none = 0"
definition desc_err_ur :: int where "desc_err_ur = 1"
definition desc_err_ca :: int where "desc_err_ca = 2"
definition desc_err_decerr :: int where "desc_err_decerr = 4"

definition complete_desc :: "int \<Rightarrow> int \<Rightarrow> (pcie_dma, unit) op" where
  "complete_desc tag err =
     modify_op (\<lambda>d. d\<lparr>pd_desc_status := pd_desc_status d @ [(tag, err)], pd_irq_pending := True\<rparr>)"

text \<open>\<open>except (ValueError, IndexError)\<close>\<close>

fun decode_failed :: "py_error \<Rightarrow> bool" where
  "decode_failed (ValueError _) = True"
| "decode_failed (ConfigError _) = True"
| "decode_failed (DimensionBindingError _) = True"
| "decode_failed IndexError = True"
| "decode_failed _ = False"

text \<open>The offset in the host memory that stands in for a missing crossbar.\<close>

definition fallback_offset :: "int \<Rightarrow> pcie_dma \<Rightarrow> int" where
  "fallback_offset axi d = (if pd_host_mem d \<noteq> [] then axi mod int (length (pd_host_mem d)) else 0)"

text \<open>The data of a write descriptor, or the decode error.\<close>

definition fetch_npu :: "addr_map \<Rightarrow> int \<Rightarrow> int \<Rightarrow> (pcie_dma, bytes option) op" where
  "fetch_npu am axi n d = (case pd_crossbar d of
       Some cb \<Rightarrow> (case crossbar_read am master_pcie axi n cb of
           (Inr data, cb') \<Rightarrow> (Inr (Some data), d\<lparr>pd_crossbar := Some cb'\<rparr>)
         | (Inl e, cb') \<Rightarrow>
             (if decode_failed e then Inr None else Inl e, d\<lparr>pd_crossbar := Some cb'\<rparr>))
     | None \<Rightarrow>
         let off = fallback_offset axi d; data = seq_slice (pd_host_mem d) off (off + n)
         in (Inr (Some (if int (length data) < n then data @ zeros (n - int (length data)) else data)), d))"

definition submit_write_desc :: "addr_map \<Rightarrow> (int set \<Rightarrow> int) \<Rightarrow> int \<Rightarrow> int \<Rightarrow> int \<Rightarrow> int \<Rightarrow> (pcie_dma, unit) op" where
  "submit_write_desc am pick pcie_addr axi n tag =
     (if tag < 0 \<or> pcie_tag_count \<le> tag then raise_op (ValueError ''Tag'')
      else bind_op (fetch_npu am axi n) (\<lambda>r. case r of
          None \<Rightarrow> complete_desc tag desc_err_decerr
        | Some data \<Rightarrow> seq_op (dma_tlp_write pick pcie_addr data) (complete_desc tag desc_err_none)))"

text \<open>The write to the NPU of a read descriptor, with its error code.\<close>

definition store_npu :: "addr_map \<Rightarrow> int \<Rightarrow> bytes \<Rightarrow> (pcie_dma, int) op" where
  "store_npu am axi data d = (case pd_crossbar d of
       Some cb \<Rightarrow> (case crossbar_write am master_pcie axi data cb of
           (Inr _, cb') \<Rightarrow> (Inr desc_err_none, d\<lparr>pd_crossbar := Some cb'\<rparr>)
         | (Inl e, cb') \<Rightarrow>
             (if decode_failed e then Inr desc_err_decerr else Inl e, d\<lparr>pd_crossbar := Some cb'\<rparr>))
     | None \<Rightarrow>
         let off = fallback_offset axi d; stop = off + int (length data); m = pd_host_mem d;
             m1 = (if int (length m) < stop then m @ zeros (stop - int (length m)) else m)
         in (Inr desc_err_none, d\<lparr>pd_host_mem := seq_assign m1 off stop data\<rparr>))"

text \<open>What follows a successful read of the host memory.\<close>

definition finish_read_desc :: "addr_map \<Rightarrow> int \<Rightarrow> int \<Rightarrow> bytes \<Rightarrow> (pcie_dma, unit) op" where
  "finish_read_desc am axi tag data d =
     (if tag \<in> pd_axi_dec_errors d
      then complete_desc tag desc_err_decerr (d\<lparr>pd_axi_dec_errors := pd_axi_dec_errors d - {tag}\<rparr>)
      else bind_op (store_npu am axi data) (complete_desc tag) d)"

definition submit_read_desc :: "addr_map \<Rightarrow> (int set \<Rightarrow> int) \<Rightarrow> int \<Rightarrow> int \<Rightarrow> int \<Rightarrow> int \<Rightarrow> pcie_dma
    \<Rightarrow> (unit result \<times> pcie_dma) option" where
  "submit_read_desc am pick pcie_addr axi n tag d =
     (if tag < 0 \<or> pcie_tag_count \<le> tag then Some (Inl (ValueError ''Tag''), d)
      else let injected = dget (pd_completion_errors d) tag 0;
               d1 = d\<lparr>pd_completion_errors := AList.delete tag (pd_completion_errors d)\<rparr>
        in if injected = cpl_ur then Some (complete_desc tag desc_err_ur d1)
        else if injected = cpl_ca then Some (complete_desc tag desc_err_ca d1)
        else (case dma_tlp_read pick pcie_addr n d1 of
            None \<Rightarrow> None
          | Some (Inl (RuntimeError msg), d2) \<Rightarrow>
              Some (complete_desc tag (if contains ''UR'' msg then desc_err_ur else desc_err_ca) d2)
          | Some (Inl e, d2) \<Rightarrow> Some (Inl e, d2)
          | Some (Inr (data, _), d2) \<Rightarrow> Some (finish_read_desc am axi tag data d2)))"

definition inject_completion_error :: "int \<Rightarrow> int \<Rightarrow> pcie_dma \<Rightarrow> pcie_dma" where
  "inject_completion_error tag status d = d\<lparr>pd_completion_errors := AList.update tag status (pd_completion_errors d)\<rparr>"

definition inject_axi_dec_error :: "int \<Rightarrow> pcie_dma \<Rightarrow> pcie_dma" where
  "inject_axi_dec_error tag d = d\<lparr>pd_axi_dec_errors := insert tag (pd_axi_dec_errors d)\<rparr>"

section \<open>Invariant\<close>

definition pick_ok :: "(int set \<Rightarrow> int) \<Rightarrow> bool" where
  "pick_ok pick \<longleftrightarrow> (\<forall>S. finite S \<and> S \<noteq> {} \<longrightarrow> pick S \<in> S)"

text \<open>Between operations every tag is free; the ids fit their fields and the payload limit is one the
  constructor sets.\<close>

definition pd_inv :: "nat \<Rightarrow> pcie_dma \<Rightarrow> bool" where
  "pd_inv mp d \<longleftrightarrow> pd_tag_free d = {0..<pcie_tag_count} \<and> pd_tag_in_use d = []
     \<and> 0 \<le> pd_requester_id d \<and> pd_requester_id d < 2 ^ 16 \<and> 0 \<le> pd_completer_id d \<and> pd_completer_id d < 2 ^ 16
     \<and> pd_max_payload_bytes d = int mp \<and> 0 < mp \<and> 4 dvd mp \<and> mp \<le> 4096"

lemma pick_Min: "pick_ok Min"
  by (simp add: pick_ok_def)

lemma pd_inv_new:
  assumes "0 \<le> rid" and "rid < 2 ^ 16" and "0 \<le> cid" and "cid < 2 ^ 16"
  shows "\<exists>mp. pd_inv mp (pcie_dma_new cb n rid cid mps)"
proof -
  have "\<exists>mp. dget mps_bytes mps 256 = int mp \<and> 0 < mp \<and> 4 dvd mp \<and> mp \<le> 4096"
    by (rule exI[of _ "nat (dget mps_bytes mps 256)"]) (auto simp: mps_bytes_def)
  then show ?thesis using assms by (auto simp: pd_inv_def pcie_dma_new_def)
qed

lemma pd_inv_cong [simp]:
  "pd_inv mp (d\<lparr>pd_host_mem := m\<rparr>) = pd_inv mp d" "pd_inv mp (d\<lparr>pd_completion_errors := e\<rparr>) = pd_inv mp d"
  "pd_inv mp (d\<lparr>pd_crossbar := c\<rparr>) = pd_inv mp d" "pd_inv mp (d\<lparr>pd_axi_dec_errors := x\<rparr>) = pd_inv mp d"
  "pd_inv mp (d\<lparr>pd_desc_status := s, pd_irq_pending := b\<rparr>) = pd_inv mp d"
  by (simp_all add: pd_inv_def)

lemma picked:
  assumes "pick_ok pick" and "pd_inv mp d"
  shows "pick (pd_tag_free d) \<in> pd_tag_free d" and "0 \<le> pick (pd_tag_free d)" and "pick (pd_tag_free d) < 256"
    and "insert (pick (pd_tag_free d)) (pd_tag_free d) = pd_tag_free d"
proof -
  have "finite (pd_tag_free d)" "pd_tag_free d \<noteq> {}" using assms(2) by (auto simp: pd_inv_def pcie_tag_count_def)
  then show p: "pick (pd_tag_free d) \<in> pd_tag_free d" using assms(1) by (simp add: pick_ok_def)
  then show "0 \<le> pick (pd_tag_free d)" "pick (pd_tag_free d) < 256" using assms(2) by (auto simp: pd_inv_def pcie_tag_count_def)
  show "insert (pick (pd_tag_free d)) (pd_tag_free d) = pd_tag_free d" using p by (rule insert_absorb)
qed

lemma alloc_tag_ok:
  "pick_ok pick \<Longrightarrow> pd_inv mp d \<Longrightarrow>
   alloc_tag pick d = (Inr (pick (pd_tag_free d)), d\<lparr>pd_tag_free := pd_tag_free d - {pick (pd_tag_free d)}\<rparr>)"
  using picked(1)[of pick mp d] by (auto simp: alloc_tag_def Let_def)

text \<open>A tag that was taken from the pool goes back: the object is as before.\<close>

lemma free_tag_ok:
  assumes "pick_ok pick" and "pd_inv mp d" and "pd_tag_free e = pd_tag_free d - {pick (pd_tag_free d)}"
    and "pd_tag_in_use e = pd_tag_in_use d"
  shows "free_tag (pick (pd_tag_free d)) e = (Inr (), e\<lparr>pd_tag_free := pd_tag_free d\<rparr>)"
  using picked[OF assms(1,2)] assms(3,4) assms(2) by (simp add: free_tag_def pcie_tag_count_def pd_inv_def)

lemma dw1_bound:
  assumes "0 \<le> rid" and "rid < 2 ^ 16" and "0 \<le> low" and "low < 2 ^ 8"
  shows "0 \<le> push_bit 16 rid OR push_bit 8 (x AND 0xFF) OR low \<and> push_bit 16 rid OR push_bit 8 (x AND 0xFF) OR low < (2 ^ 32 :: int)"
proof -
  have "low < 2 ^ 32" using assms(4) by simp
  moreover have "0 \<le> push_bit 8 (x AND 0xFF) \<and> push_bit 8 (x AND 0xFF) < (2 ^ 32 :: int)"
    using push_field_bound[of "x AND 0xFF" 8 8 32] mask_bound(3)[of x] by simp
  ultimately show ?thesis
    using push_field_bound[OF assms(1,2), of 16 32] assms(3)
      or_field_bound[of "push_bit 16 rid" 32 "push_bit 8 (x AND 0xFF) OR low"] or_field_bound[of "push_bit 8 (x AND 0xFF)" 32 low]
    by simp
qed

lemma dw0_bound:
  assumes "fmt \<in> {0x40, 0x60, 0x00, 0x20, 0x4A}"
  shows "0 \<le> push_bit 24 fmt OR (len AND 0x3FF) \<and> push_bit 24 fmt OR (len AND 0x3FF) < (2 ^ 32 :: int)"
proof -
  have "0 \<le> push_bit 24 fmt \<and> push_bit 24 fmt < (2 ^ 32 :: int)" using assms by auto
  then show ?thesis using or_field_bound[of "push_bit 24 fmt" 32 "len AND 0x3FF"] mask_bound(1)[of len] by simp
qed

lemma request_headers_ok:
  assumes "0 \<le> pd_requester_id d" and "pd_requester_id d < 2 ^ 16"
  shows "is_ok (memwr_header addr len tag d)" and "is_ok (memrd_header addr len tag d)"
proof -
  have dw2: "0 \<le> drop_bit 32 addr AND 0xFFFFFFFF \<and> drop_bit 32 addr AND 0xFFFFFFFF < (2 ^ 32 :: int)"
    unfolding mask_lits using field_bounds[of 32 "drop_bit 32 addr"] by simp
  have "is_ok (header_3dw fmt addr len tag d)" "is_ok (header_4dw fmt addr len tag d)"
    if "fmt \<in> {0x40, 0x60, 0x00, 0x20, 0x4A}" for fmt
    using dw0_bound[OF that, where len = len] dw1_bound[OF assms, where low = "0xFF" and x = tag] dw2 mask_addr_bound[where x = addr]
    by (simp_all add: header_3dw_def header_4dw_def pack_be_def)
  then show "is_ok (memwr_header addr len tag d)" "is_ok (memrd_header addr len tag d)"
    by (simp_all add: memwr_header_def memrd_header_def)
qed

lemma is_okE: "is_ok r \<Longrightarrow> (\<And>x. r = Inr x \<Longrightarrow> P) \<Longrightarrow> P"
  by (cases r) auto

lemma headers_cong [simp]:
  "memwr_header addr len tag (d\<lparr>pd_tag_free := S\<rparr>) = memwr_header addr len tag d"
  "memrd_header addr len tag (d\<lparr>pd_tag_free := S\<rparr>) = memrd_header addr len tag d"
  "build_cpld_header len tag bc cid st (d\<lparr>pd_tag_free := S\<rparr>) = build_cpld_header len tag bc cid st d"
  by (simp_all add: memwr_header_def memrd_header_def header_3dw_def header_4dw_def build_cpld_header_def)

section \<open>What the requests do\<close>

fun host_after :: "bytes \<Rightarrow> int \<Rightarrow> bytes list \<Rightarrow> bytes" where
  "host_after m cur [] = m"
| "host_after m cur (c # cs) =
     host_after (if cur + int (length (pad4 c)) \<le> int (length m)
       then seq_assign m cur (cur + int (length (pad4 c))) (pad4 c) else m) (cur + int (length (pad4 c))) cs"

lemma host_after_inside:
  "0 \<le> cur \<Longrightarrow> cur + int (length (concat (map pad4 cs))) \<le> int (length m) \<Longrightarrow>
   host_after m cur cs = overwrite m (nat cur) (concat (map pad4 cs))"
proof (induction cs arbitrary: m cur)
  case (Cons c cs)
  let ?l = "length (pad4 c)"
  have fits: "cur + int ?l \<le> int (length m)" using Cons.prems by simp
  have "host_after m cur (c # cs) = host_after (overwrite m (nat cur) (pad4 c)) (cur + int ?l) cs"
    using fits Cons.prems(1) by (simp add: seq_assign_overwrite)
  also have "\<dots> = overwrite (overwrite m (nat cur) (pad4 c)) (nat (cur + int ?l)) (concat (map pad4 cs))"
    using Cons.prems fits by (intro Cons.IH) simp_all
  also have "nat (cur + int ?l) = nat cur + ?l" using Cons.prems(1) by (simp add: nat_add_distrib)
  finally show ?case using Cons.prems by (simp add: overwrite_append)
qed simp

lemma length_host_after: "0 \<le> cur \<Longrightarrow> length (host_after m cur cs) = length m"
  by (induction cs arbitrary: m cur) (simp_all add: length_seq_assign_inside)

lemma dma_write_chunks_eff:
  assumes "pick_ok pick" and "pd_inv mp d"
  shows "\<exists>hs'. dma_write_chunks pick cur hs cs d = (Inr hs', d\<lparr>pd_host_mem := host_after (pd_host_mem d) cur cs\<rparr>)
    \<and> length hs' = length hs + length cs"
  using assms(2)
proof (induction cs arbitrary: cur hs d)
  case Nil
  then show ?case by (simp add: ret_def)
next
  case (Cons c cs)
  let ?tag = "pick (pd_tag_free d)"
  have rid: "0 \<le> pd_requester_id d" "pd_requester_id d < 2 ^ 16" using Cons.prems by (simp_all add: pd_inv_def)
  obtain h where h: "memwr_header cur (dwords (int (length c))) ?tag d = Inr h"
    by (rule is_okE[OF request_headers_ok(1)[OF rid]])
  define d1 where "d1 = d\<lparr>pd_tag_free := pd_tag_free d - {?tag}, pd_host_mem :=
      (if cur + int (length (pad4 c)) \<le> int (length (pd_host_mem d))
       then seq_assign (pd_host_mem d) cur (cur + int (length (pad4 c))) (pad4 c) else pd_host_mem d)\<rparr>"
  have f: "free_tag ?tag d1 = (Inr (), d1\<lparr>pd_tag_free := pd_tag_free d\<rparr>)"
    by (rule free_tag_ok[OF assms(1) Cons.prems]) (simp_all add: d1_def)
  have step: "dma_write_chunks pick cur hs (c # cs) d =
      dma_write_chunks pick (cur + int (length (pad4 c))) (hs @ [h]) cs (d1\<lparr>pd_tag_free := pd_tag_free d\<rparr>)"
    using f by (cases "cur + int (length (pad4 c)) \<le> int (length (pd_host_mem d))")
      (simp_all add: bind_op_def seq_op_def modify_op_def alloc_tag_ok[OF assms(1) Cons.prems] h Let_def d1_def)
  have d1: "d1\<lparr>pd_tag_free := pd_tag_free d\<rparr> = d\<lparr>pd_host_mem := pd_host_mem d1\<rparr>" by (simp add: d1_def)
  have "pd_inv mp (d\<lparr>pd_host_mem := pd_host_mem d1\<rparr>)" using Cons.prems by simp
  from Cons.IH[OF this, of "cur + int (length (pad4 c))" "hs @ [h]"] show ?case
    unfolding step d1 by (auto simp: d1_def)
qed

lemma dma_tlp_write_eff:
  assumes "pick_ok pick" and "pd_inv mp d"
  shows "\<exists>hs. dma_tlp_write pick addr data d = (Inr hs, d\<lparr>pd_host_mem := host_after (pd_host_mem d) addr (chunks_of mp data)\<rparr>)
    \<and> length hs = (length data + mp - 1) div mp"
proof (cases "data = []")
  case True
  then show ?thesis using assms(2) by (simp add: dma_tlp_write_def pd_inv_def)
next
  case False
  have mp: "pd_max_payload_bytes d = int mp" "0 < mp" using assms(2) by (simp_all add: pd_inv_def)
  show ?thesis
    using dma_write_chunks_eff[OF assms, of addr "[]" "chunks_of mp data"] False mp
    by (simp add: dma_tlp_write_def split_payload_def length_chunks)
qed

lemma dma_read_chunk_eff:
  assumes "pick_ok pick" and "pd_inv mp d"
  shows "\<exists>h. dma_read_chunk pick cur n d =
    (if dget (pd_completion_errors d) (pick (pd_tag_free d)) 0 \<noteq> 0
     then Inl (RuntimeError (mrd_error (pick (pd_tag_free d)) (dget (pd_completion_errors d) (pick (pd_tag_free d)) 0)))
     else Inr (h, host_bytes (pd_host_mem d) cur n),
     d\<lparr>pd_completion_errors := AList.delete (pick (pd_tag_free d)) (pd_completion_errors d)\<rparr>)"
proof -
  let ?tag = "pick (pd_tag_free d)"
  have rid: "0 \<le> pd_requester_id d" "pd_requester_id d < 2 ^ 16" using assms(2) by (simp_all add: pd_inv_def)
  obtain h where h: "memrd_header cur (dwords n) ?tag d = Inr h"
    by (rule is_okE[OF request_headers_ok(2)[OF rid]])
  define d1 where "d1 = d\<lparr>pd_tag_free := pd_tag_free d - {?tag},
      pd_completion_errors := AList.delete ?tag (pd_completion_errors d)\<rparr>"
  have f: "free_tag ?tag d1 = (Inr (), d1\<lparr>pd_tag_free := pd_tag_free d\<rparr>)"
    by (rule free_tag_ok[OF assms]) (simp_all add: d1_def)
  have d1: "d1\<lparr>pd_tag_free := pd_tag_free d\<rparr> = d\<lparr>pd_completion_errors := AList.delete ?tag (pd_completion_errors d)\<rparr>"
    by (simp add: d1_def)
  show ?thesis
    using f unfolding d1
    by (simp add: dma_read_chunk_def bind_op_def seq_op_def get_op_def ret_def raise_op_def alloc_tag_ok[OF assms] h d1_def)
qed

definition read_raised :: "(bytes \<times> bytes list) result \<Rightarrow> bool" where
  "read_raised r \<longleftrightarrow> (\<exists>tag s. r = Inl (RuntimeError (mrd_error tag s)) \<and> s \<noteq> 0)"

lemma dma_read_chunks_eff:
  assumes "pick_ok pick" and "pd_inv mp d"
  shows "\<exists>r e. dma_read_chunks pick cur n acc hs d = Some (r, d\<lparr>pd_completion_errors := e\<rparr>)
    \<and> (is_ok r \<or> read_raised r) \<and> (pd_completion_errors d = [] \<longrightarrow> is_ok r \<and> e = [])"
  using assms(2)
proof (induction "nat n" arbitrary: cur n acc hs d rule: less_induct)
  case less
  show ?case
  proof (cases "n \<le> 0")
    case True
    then show ?thesis
      by (subst dma_read_chunks.simps) (auto intro!: exI[of _ "pd_completion_errors d"])
  next
    case False
    let ?c = "min n (pd_max_payload_bytes d)" and ?tag = "pick (pd_tag_free d)"
    let ?d = "d\<lparr>pd_completion_errors := AList.delete ?tag (pd_completion_errors d)\<rparr>"
    have c: "0 < ?c" using False less.prems by (simp add: pd_inv_def)
    obtain h where h: "dma_read_chunk pick cur ?c d =
        (if dget (pd_completion_errors d) ?tag 0 \<noteq> 0
         then Inl (RuntimeError (mrd_error ?tag (dget (pd_completion_errors d) ?tag 0)))
         else Inr (h, host_bytes (pd_host_mem d) cur ?c), ?d)"
      using dma_read_chunk_eff[OF assms(1) less.prems] by blast
    show ?thesis
    proof (cases "dget (pd_completion_errors d) ?tag 0 = 0")
      case True
      have "nat (n - ?c) < nat n" "pd_inv mp ?d" using c False less.prems by simp_all
      from less.hyps[OF this, of "cur + ?c" "acc @ host_bytes (pd_host_mem d) cur ?c" "hs @ [h]"] obtain r e where
        "dma_read_chunks pick (cur + ?c) (n - ?c) (acc @ host_bytes (pd_host_mem d) cur ?c) (hs @ [h]) ?d
           = Some (r, ?d\<lparr>pd_completion_errors := e\<rparr>)" "is_ok r \<or> read_raised r"
        "pd_completion_errors ?d = [] \<longrightarrow> is_ok r \<and> e = []" by blast
      then show ?thesis
        using False h True by (subst dma_read_chunks.simps) (auto simp: Let_def intro!: exI[of _ e])
    next
      case raised: False
      then have "pd_completion_errors d \<noteq> []" by auto
      then show ?thesis
        using False h raised by (subst dma_read_chunks.simps) (auto simp: Let_def read_raised_def)
    qed
  qed
qed

text \<open>For a non-negative address the host returns its bytes, and zeros past its end.\<close>

definition host_view :: "bytes \<Rightarrow> nat \<Rightarrow> nat \<Rightarrow> bytes" where
  "host_view m a n = map (\<lambda>i. if i < length m then m ! i else 0) [a..<a + n]"

lemma host_view_append: "host_view m a (j + k) = host_view m a j @ host_view m (a + j) k"
proof -
  have "[a..<a + (j + k)] = [a..<a + j] @ [a + j..<a + j + k]"
    using upt_add_eq_append[of a "a + j" k] by (simp add: add.assoc)
  then show ?thesis by (simp add: host_view_def del: upt_Suc)
qed

lemma length_host_view [simp]: "length (host_view m a n) = n"
  by (simp add: host_view_def)

lemma host_view_inside: "a + n \<le> length m \<Longrightarrow> host_view m a n = take n (drop a m)"
  by (rule nth_equalityI) (simp_all add: host_view_def)

lemma host_view_outside: "length m \<le> a \<Longrightarrow> host_view m a n = replicate n 0"
  by (rule nth_equalityI) (simp_all add: host_view_def)

lemma host_view_cases:
  assumes "0 \<le> cur" and "0 \<le> n"
  shows "host_bytes m cur n = host_view m (nat cur) (nat n)"
    and "completion_bytes m cur n = host_view m (nat cur) (nat n)"
proof -
  let ?a = "nat cur" and ?n = "nat n"
  have cut: "seq_slice m cur (cur + max 0 (int (length m) - cur)) @ zeros (n - max 0 (int (length m) - cur))
      = host_view m ?a ?n \<and> int (length (seq_slice m cur (cur + max 0 (int (length m) - cur)))) = max 0 (int (length m) - cur)"
    if "int (length m) < cur + n"
  proof (cases "int (length m) \<le> cur")
    case True
    then have "seq_slice m cur cur = []" by (simp add: seq_slice_def)
    then show ?thesis using True by (simp add: host_view_outside zeros_def)
  next
    case False
    then have s: "seq_slice m cur (cur + max 0 (int (length m) - cur)) = drop ?a m"
      using assms(1) by (simp add: seq_slice_def max_def)
    have split: "?n = (length m - ?a) + nat (n - (int (length m) - cur))" using False that assms by linarith
    have "host_view m ?a ?n = drop ?a m @ zeros (n - (int (length m) - cur))"
      using False assms(1) by (subst split, subst host_view_append) (simp add: host_view_inside host_view_outside zeros_def)
    then show ?thesis unfolding s using False assms(1) by (simp add: of_nat_diff max_def)
  qed
  show "host_bytes m cur n = host_view m ?a ?n"
  proof (cases "cur + n \<le> int (length m)")
    case True
    then show ?thesis using assms by (simp add: host_bytes_def seq_slice_inside host_view_inside nat_add_distrib)
  qed (use cut in \<open>simp add: host_bytes_def Let_def\<close>)
  show "completion_bytes m cur n = host_view m ?a ?n"
  proof (cases "cur + n \<le> int (length m)")
    case True
    then show ?thesis using assms by (simp add: completion_bytes_def seq_slice_inside host_view_inside nat_add_distrib)
  next
    case False
    then have "max 0 (int (length m) - cur) < n \<or> n = 0" using assms by auto
    then show ?thesis using cut False by (auto simp: completion_bytes_def Let_def zeros_def)
  qed
qed

lemma dma_read_chunks_clean:
  assumes "pick_ok pick" and "pd_inv mp d" and "pd_completion_errors d = []" and "0 \<le> cur" and "0 \<le> n"
  shows "\<exists>hs'. dma_read_chunks pick cur n acc hs d = Some (Inr (acc @ host_view (pd_host_mem d) (nat cur) (nat n), hs'), d)"
  using assms(4,5)
proof (induction "nat n" arbitrary: cur n acc hs rule: less_induct)
  case less
  show ?case
  proof (cases "n = 0")
    case True
    then show ?thesis by (subst dma_read_chunks.simps) (simp add: host_view_def)
  next
    case False
    let ?c = "min n (pd_max_payload_bytes d)"
    have c: "0 < ?c" "?c \<le> n" using False less.prems assms(2) by (simp_all add: pd_inv_def)
    have d: "d\<lparr>pd_completion_errors := AList.delete (pick (pd_tag_free d)) (pd_completion_errors d)\<rparr> = d"
      using assms(3) by simp
    obtain h where h: "dma_read_chunk pick cur ?c d = (Inr (h, host_bytes (pd_host_mem d) cur ?c), d)"
      using dma_read_chunk_eff[OF assms(1,2), of cur ?c] assms(3) unfolding d by auto
    have "nat (n - ?c) < nat n" "0 \<le> cur + ?c" "0 \<le> n - ?c" using c less.prems by simp_all
    from less.hyps[OF this, of "acc @ host_bytes (pd_host_mem d) cur ?c" "hs @ [h]"] obtain hs' where
      r: "dma_read_chunks pick (cur + ?c) (n - ?c) (acc @ host_bytes (pd_host_mem d) cur ?c) (hs @ [h]) d
         = Some (Inr ((acc @ host_bytes (pd_host_mem d) cur ?c) @ host_view (pd_host_mem d) (nat (cur + ?c)) (nat (n - ?c)), hs'), d)"
      by blast
    have "nat n = nat k + nat (n - k)" "nat (cur + k) = nat cur + nat k" if "0 < k" "k \<le> n" for k
      using that less.prems by linarith+
    note parts = this[OF c]
    have "host_view (pd_host_mem d) (nat cur) (nat n)
        = host_bytes (pd_host_mem d) cur ?c @ host_view (pd_host_mem d) (nat (cur + ?c)) (nat (n - ?c))"
      unfolding parts host_view_append using c(1) less.prems by (subst host_view_cases(1)) simp_all
    then show ?thesis using False less.prems h r by (subst dma_read_chunks.simps) (simp add: Let_def)
  qed
qed

section \<open>Completion headers\<close>

lemma build_cpld_ok:
  assumes "0 \<le> pd_requester_id d" and "pd_requester_id d < 2 ^ 16" and "0 \<le> pd_completer_id d" and "pd_completer_id d < 2 ^ 16"
    and "0 \<le> cid" and "cid < 2 ^ 16"
  shows "is_ok (build_cpld_header len tag bc cid st d)"
proof -
  let ?cid = "if cid \<noteq> 0 then cid else pd_completer_id d"
  let ?low = "(drop_bit 8 bc AND 0x3) OR push_bit 4 (st AND 0xF)"
  have c: "0 \<le> ?cid" "?cid < 2 ^ 16" using assms by auto
  have bcm: "0 \<le> (0x80 :: int)" "0x80 < (2 ^ 8 :: int)" by simp_all
  have "0 \<le> push_bit 4 (take_bit 4 st) \<and> push_bit 4 (take_bit 4 st) < (2 ^ 8 :: int)"
    using push_field_bound[of "take_bit 4 st" 4 4 8] field_bounds[of 4 st] by simp
  moreover have "0 \<le> take_bit 2 (drop_bit 8 bc) \<and> take_bit 2 (drop_bit 8 bc) < (2 ^ 8 :: int)"
    using field_bounds[of 2 "drop_bit 8 bc"] by simp
  ultimately have low: "0 \<le> ?low" "?low < 2 ^ 8"
    unfolding mask_lits using or_field_bound by blast+
  have "0 \<le> push_bit 24 0x4A OR (len AND 0x3FF) \<and> push_bit 24 0x4A OR (len AND 0x3FF) < (2 ^ 32 :: int)"
    by (rule dw0_bound) simp
  then have "list_all (\<lambda>v. 0 \<le> v \<and> v < 2 ^ 32) [push_bit 24 0x4A OR (len AND 0x3FF),
      push_bit 16 ?cid OR push_bit 8 (bc AND 0xFF) OR 0x80,
      push_bit 16 (pd_requester_id d) OR push_bit 8 (tag AND 0xFF) OR ?low]"
    using dw1_bound[OF c bcm, where x = bc] dw1_bound[OF assms(1,2) low, where x = tag]
    by (simp only: list.pred_inject)
  then show ?thesis
    unfolding build_cpld_header_def Let_def pack_be_def or.assoc by (simp only: if_True is_ok_simps)
qed

lemma parse_cpld:
  assumes h: "build_cpld_header len tag bc cid st d = Inr h"
  shows "parse_cpld_header h = Inr ((len AND 0x3FF) * 4, tag AND 0xFF, bc AND 0x3FF, st AND 0xF)"
proof -
  let ?cid = "if cid \<noteq> 0 then cid else pd_completer_id d"
  have u: "unpack_be h = [push_bit 24 0x4A OR (len AND 0x3FF), push_bit 16 ?cid OR push_bit 8 (bc AND 0xFF) OR 0x80,
     push_bit 16 (pd_requester_id d) OR push_bit 8 (tag AND 0xFF) OR (drop_bit 8 bc AND 0x3) OR push_bit 4 (st AND 0xF)]"
    by (rule unpack_pack) (use h in \<open>simp add: build_cpld_header_def Let_def\<close>)
  have l: "length h = 12" using h length_pack_be by (fastforce simp: build_cpld_header_def Let_def)
  have "push_bit 8 (take_bit 2 (drop_bit 8 bc)) OR take_bit 8 bc = take_bit 10 bc"
    by (rule bit_eqI) (auto simp: bit_simps)
  moreover have "take_bit 10 (push_bit 24 0x4A :: int) = 0" "take_bit 8 (drop_bit 8 (0x80 :: int)) = 0" by simp_all
  moreover have "take_bit 8 (drop_bit 8 (take_bit 2 (drop_bit 8 bc))) = 0"
      "take_bit 8 (drop_bit 8 (push_bit 4 (take_bit 4 st))) = 0"
      "take_bit 4 (drop_bit 4 (take_bit 2 (drop_bit 8 bc))) = 0" "take_bit 2 (push_bit 4 (take_bit 4 st)) = 0"
      "take_bit 2 (push_bit 16 (pd_requester_id d)) = 0" "take_bit 2 (push_bit 8 (take_bit 8 tag)) = 0"
    by (rule bit_eqI; auto simp: bit_simps)+
  ultimately show ?thesis
    unfolding parse_cpld_header_def u mask_lits by (simp add: l field_simps' mask_lits)
qed

text \<open>Completion headers carry their fields: a header can be built for every request, and parsing it
  gives back the tag and the status and the payload length and byte count, which are stored modulo
  1024; in range nothing is lost.\<close>

theorem cpld_header_roundtrip:
  assumes "pd_inv mp d" and "0 \<le> cid" and "cid < 2 ^ 16" and "0 \<le> tag" and "tag < 256" and "0 \<le> st" and "st < 16"
  shows "\<exists>h. build_cpld_header len tag bc cid st d = Inr h
    \<and> parse_cpld_header h = Inr (len mod 1024 * 4, tag, bc mod 1024, st)"
proof -
  have d: "0 \<le> pd_requester_id d" "pd_requester_id d < 2 ^ 16" "0 \<le> pd_completer_id d" "pd_completer_id d < 2 ^ 16"
    using assms(1) by (simp_all add: pd_inv_def)
  obtain h where h: "build_cpld_header len tag bc cid st d = Inr h"
    by (rule is_okE[OF build_cpld_ok[OF d assms(2,3)]])
  have "tag AND 0xFF = tag" "st AND 0xF = st" "len AND 0x3FF = len mod 1024" "bc AND 0x3FF = bc mod 1024"
    using assms(4-7) by (simp_all add: mask_lits take_bit_id take_bit_lit_mod)
  then show ?thesis using h parse_cpld[OF h] by simp
qed

theorem cpld_header_roundtrip_witness:
  "\<exists>h. build_cpld_header 64 42 256 0 1 (pcie_dma_new None 16 0 1 1) = Inr h \<and> parse_cpld_header h = Inr (256, 42, 256, 1)"
proof -
  have "pd_inv 256 (pcie_dma_new None 16 0 1 1)"
    by (simp add: pd_inv_def pcie_dma_new_def mps_bytes_def)
  from cpld_header_roundtrip[OF this, of 0 42 1 64 256] show ?thesis by simp
qed

section \<open>Split completions\<close>

definition ids_ok :: "pcie_dma \<Rightarrow> bool" where
  "ids_ok d \<longleftrightarrow> 0 \<le> pd_requester_id d \<and> pd_requester_id d < 2 ^ 16 \<and> 0 \<le> pd_completer_id d \<and> pd_completer_id d < 2 ^ 16"

lemma pd_inv_ids: "pd_inv mp d \<Longrightarrow> ids_ok d"
  by (simp add: pd_inv_def ids_ok_def)

lemma completions_ok:
  assumes "ids_ok d"
  shows "\<exists>data hs. completions tag a n d = Inr (data, hs) \<and> length hs = (nat n + 127) div 128
    \<and> (\<forall>h \<in> set hs. \<exists>l bc. parse_cpld_header h = Inr (l, tag AND 0xFF, bc, 0))
    \<and> (0 \<le> a \<and> 0 \<le> n \<longrightarrow> data = host_view (pd_host_mem d) (nat a) (nat n))"
proof (induction "nat n" arbitrary: a n rule: less_induct)
  case less
  show ?case
  proof (cases "n \<le> 0")
    case True
    then show ?thesis by (subst completions.simps) (auto simp: host_view_def)
  next
    case False
    define c where "c = min n 128"
    have c: "0 < c" "c \<le> n" "c \<le> 128" "c = n \<or> c = 128" using False by (auto simp: c_def)
    obtain h where h: "build_cpld_header (dwords c) tag n 0 0 d = Inr h"
      by (rule is_okE[OF build_cpld_ok[of d 0]]) (use assms in \<open>simp_all add: ids_ok_def\<close>)
    have "nat (n - c) < nat n" using c by simp
    from less[OF this, of "a + c"] obtain data hs where IH:
      "completions tag (a + c) (n - c) d = Inr (data, hs)" "length hs = (nat (n - c) + 127) div 128"
      "\<forall>h \<in> set hs. \<exists>l bc. parse_cpld_header h = Inr (l, tag AND 0xFF, bc, 0)"
      "0 \<le> a + c \<and> 0 \<le> n - c \<longrightarrow> data = host_view (pd_host_mem d) (nat (a + c)) (nat (n - c))" by blast
    have r: "completions tag a n d = Inr (completion_bytes (pd_host_mem d) a c @ data, h # hs)"
      using False IH(1) h by (subst completions.simps) (simp add: Let_def flip: c_def)
    have len: "Suc ((nat (n - c) + 127) div 128) = (nat n + 127) div 128"
    proof (cases "c = 128")
      case True
      then have "nat n + 127 = (nat (n - c) + 127) + 128" using c by simp
      then show ?thesis by (simp only: div_add_self2)
    next
      case c128: False
      then have "c = n" using c(4) by simp
      moreover from this have "(nat n + 127) div 128 = 1" using c(1-3) by (intro div_nat_eqI) simp_all
      ultimately show ?thesis by simp
    qed
    have v: "completion_bytes (pd_host_mem d) a c @ data = host_view (pd_host_mem d) (nat a) (nat n)" if "0 \<le> a"
    proof -
      have "nat n = nat c + nat (n - c)" "nat (a + c) = nat a + nat c" using c that by linarith+
      then show ?thesis using IH(4) c that by (simp add: host_view_append host_view_cases(2))
    qed
    show ?thesis
      unfolding r using IH(2,3) len v parse_cpld[OF h] by (auto simp: mask_lits)
  qed
qed

lemma completions_cong: "completions tag a n (d\<lparr>pd_tag_free := S\<rparr>) = completions tag a n d"
proof (induction tag a n d rule: completions.induct)
  case (1 tag a n d)
  then show ?case
    by (subst (1 2) completions.simps) (simp add: Let_def bind_res_def split: sum.splits)
qed

lemma reassembly_chunk_eff:
  assumes "pick_ok pick" and "pd_inv mp d"
  shows "\<exists>h data cs. memrd_header cur (dwords n) (pick (pd_tag_free d)) d = Inr h
    \<and> completions (pick (pd_tag_free d)) cur n d = Inr (data, cs)
    \<and> reassembly_chunk pick cur n d = (Inr (h, data, cs), d)"
proof -
  let ?tag = "pick (pd_tag_free d)"
  have rid: "0 \<le> pd_requester_id d" "pd_requester_id d < 2 ^ 16" using assms(2) by (simp_all add: pd_inv_def)
  obtain h where h: "memrd_header cur (dwords n) ?tag d = Inr h"
    by (rule is_okE[OF request_headers_ok(2)[OF rid]])
  obtain data cs where c: "completions ?tag cur n d = Inr (data, cs)"
    using completions_ok[OF pd_inv_ids[OF assms(2)]] by blast
  have "free_tag ?tag (d\<lparr>pd_tag_free := pd_tag_free d - {?tag}\<rparr>) = (Inr (), d)"
    using free_tag_ok[OF assms, of "d\<lparr>pd_tag_free := pd_tag_free d - {?tag}\<rparr>"] by simp
  then show ?thesis
    using h c by (simp add: reassembly_chunk_def bind_op_def seq_op_def ret_def alloc_tag_ok[OF assms] completions_cong)
qed

lemma reassembly_chunks_eff:
  assumes "pick_ok pick" and "pd_inv mp d"
  shows "\<exists>r. reassembly_chunks pick cur n acc hs cs d = Some (Inr r, d)"
proof (induction "nat n" arbitrary: cur n acc hs cs rule: less_induct)
  case less
  show ?case
  proof (cases "n \<le> 0")
    case True
    then show ?thesis by (subst reassembly_chunks.simps) auto
  next
    case False
    let ?c = "min n (pd_max_payload_bytes d)"
    have "nat (n - ?c) < nat n" using False assms(2) by (simp add: pd_inv_def)
    from less[OF this] reassembly_chunk_eff[OF assms, of cur ?c] False show ?thesis
      by (subst reassembly_chunks.simps) (auto simp: Let_def)
  qed
qed

lemma reassembly_agrees:
  assumes "pick_ok pick" and "pd_inv mp d" and "pd_completion_errors d = []" and "0 \<le> cur" and "0 \<le> n"
  shows "\<exists>data hs' cs'. dma_read_chunks pick cur n acc hs d = Some (Inr (data, hs'), d)
    \<and> reassembly_chunks pick cur n acc hs cs d = Some (Inr (data, hs', cs'), d)"
  using assms(4,5)
proof (induction "nat n" arbitrary: cur n acc hs cs rule: less_induct)
  case less
  show ?case
  proof (cases "n = 0")
    case True
    then show ?thesis by (subst dma_read_chunks.simps, subst reassembly_chunks.simps) simp
  next
    case False
    let ?c = "min n (pd_max_payload_bytes d)" and ?tag = "pick (pd_tag_free d)"
    have c: "0 < ?c" "?c \<le> n" using False less.prems assms(2) by (simp_all add: pd_inv_def)
    obtain h data cs1 where h: "memrd_header cur (dwords ?c) ?tag d = Inr h"
      and d: "completions ?tag cur ?c d = Inr (data, cs1)"
      and r: "reassembly_chunk pick cur ?c d = (Inr (h, data, cs1), d)"
      using reassembly_chunk_eff[OF assms(1,2)] by blast
    have data: "data = host_bytes (pd_host_mem d) cur ?c"
      using completions_ok[OF pd_inv_ids[OF assms(2)], of ?tag cur ?c] d c less.prems host_view_cases(1)[of cur ?c] by auto
    have f: "free_tag ?tag (d\<lparr>pd_tag_free := pd_tag_free d - {?tag}\<rparr>) = (Inr (), d)"
      using free_tag_ok[OF assms(1,2), of "d\<lparr>pd_tag_free := pd_tag_free d - {?tag}\<rparr>"] by simp
    have same: "d\<lparr>pd_tag_free := S, pd_completion_errors := []\<rparr> = d\<lparr>pd_tag_free := S\<rparr>" for S
      using assms(3) by simp
    have q: "dma_read_chunk pick cur ?c d = (Inr (h, data), d)"
      using h assms(3) f unfolding data
      by (simp add: same dma_read_chunk_def bind_op_def seq_op_def get_op_def ret_def alloc_tag_ok[OF assms(1,2)])
    have "nat (n - ?c) < nat n" "0 \<le> cur + ?c" "0 \<le> n - ?c" using c less.prems by simp_all
    from less.hyps[OF this, of "acc @ data" "hs @ [h]" "cs @ cs1"] show ?thesis
      using False less.prems q r by (subst dma_read_chunks.simps, subst reassembly_chunks.simps) (auto simp: Let_def)
  qed
qed

section \<open>Properties of the requests\<close>

lemma fetch_npu_inv: "pd_inv mp d \<Longrightarrow> pd_inv mp (snd (fetch_npu am axi n d))"
  by (auto simp: fetch_npu_def Let_def split: option.splits prod.splits sum.splits)

lemma store_npu_inv: "pd_inv mp d \<Longrightarrow> pd_inv mp (snd (store_npu am axi data d))"
  by (auto simp: store_npu_def Let_def split: option.splits prod.splits sum.splits)

lemma complete_desc_inv: "pd_inv mp d \<Longrightarrow> pd_inv mp (snd (complete_desc tag err d))"
  by (simp add: complete_desc_def modify_op_def)

lemma finish_read_desc_inv: "pd_inv mp d \<Longrightarrow> pd_inv mp (snd (finish_read_desc am axi tag data d))"
  using store_npu_inv[of mp d am axi data]
  by (auto simp: finish_read_desc_def bind_op_def complete_desc_inv split: prod.splits sum.splits)

lemma dma_tlp_read_eff:
  assumes "pick_ok pick" and "pd_inv mp d"
  shows "\<exists>r e. dma_tlp_read pick addr n d = Some (r, d\<lparr>pd_completion_errors := e\<rparr>)"
proof -
  have same: "\<exists>e. d = d\<lparr>pd_completion_errors := e\<rparr>" by (rule exI[of _ "pd_completion_errors d"]) simp
  then show ?thesis using dma_read_chunks_eff[OF assms, of addr n "[]" "[]"]
    by (auto simp: dma_tlp_read_def)
qed

text \<open>C32. No operation of the DMA engine loses a tag or blocks: whether it returns or raises, on every
  address, length and injected error, the read loops end and all 256 tags are free again, so
  the pool is never exhausted. Reads leave the host memory as it is.\<close>

theorem dma_keeps_tags:
  assumes "pick_ok pick" and "pd_inv mp d"
  shows "(\<exists>hs d'. dma_tlp_write pick addr data d = (Inr hs, d') \<and> pd_inv mp d')
    \<and> (\<exists>r d'. dma_tlp_read pick addr n d = Some (r, d') \<and> pd_inv mp d' \<and> pd_host_mem d' = pd_host_mem d)
    \<and> (\<exists>r. tlp_read_with_reassembly pick addr n d = Some (r, d))
    \<and> pd_inv mp (snd (submit_write_desc am pick addr axi n tag d))
    \<and> (\<exists>r d'. submit_read_desc am pick addr axi n tag d = Some (r, d') \<and> pd_inv mp d')"
proof (intro conjI)
  show "\<exists>hs d'. dma_tlp_write pick addr data d = (Inr hs, d') \<and> pd_inv mp d'"
    using dma_tlp_write_eff[OF assms, of addr data] assms(2) by auto
  show "\<exists>r d'. dma_tlp_read pick addr n d = Some (r, d') \<and> pd_inv mp d' \<and> pd_host_mem d' = pd_host_mem d"
    using dma_tlp_read_eff[OF assms, of addr n] assms(2) by force
  show "\<exists>r. tlp_read_with_reassembly pick addr n d = Some (r, d)"
    using reassembly_chunks_eff[OF assms, of addr n "[]" "[]" "[]"] by (auto simp: tlp_read_with_reassembly_def)
  show "pd_inv mp (snd (submit_write_desc am pick addr axi n tag d))"
  proof -
    obtain r d1 where f: "fetch_npu am axi n d = (r, d1)" by fastforce
    then have inv: "pd_inv mp d1" using fetch_npu_inv[OF assms(2), of am axi n] by simp
    show ?thesis
    proof (cases r)
      case (Inr o')
      show ?thesis
      proof (cases o')
        case (Some bs)
        obtain hs where "dma_tlp_write pick addr bs d1 = (Inr hs, d1\<lparr>pd_host_mem := host_after (pd_host_mem d1) addr (chunks_of mp bs)\<rparr>)"
          using dma_tlp_write_eff[OF assms(1) inv] by blast
        then show ?thesis using f Inr Some inv assms(2)
          by (simp add: submit_write_desc_def bind_op_def seq_op_def raise_op_def complete_desc_inv)
      qed (use f Inr inv assms(2) in \<open>simp add: submit_write_desc_def bind_op_def raise_op_def complete_desc_inv\<close>)
    qed (use f inv assms(2) in \<open>simp add: submit_write_desc_def bind_op_def raise_op_def\<close>)
  qed
  show "\<exists>r d'. submit_read_desc am pick addr axi n tag d = Some (r, d') \<and> pd_inv mp d'"
  proof -
    let ?d = "d\<lparr>pd_completion_errors := AList.delete tag (pd_completion_errors d)\<rparr>"
    have inv: "pd_inv mp ?d" using assms(2) by simp
    obtain r e where t: "dma_tlp_read pick addr n ?d = Some (r, ?d\<lparr>pd_completion_errors := e\<rparr>)"
      using dma_tlp_read_eff[OF assms(1) inv] by blast
    have inv': "pd_inv mp (?d\<lparr>pd_completion_errors := e\<rparr>)" using inv by simp
    have c: "\<exists>r d'. Some (complete_desc tag x d1) = Some (r, d') \<and> pd_inv mp d'" if "pd_inv mp d1" for x d1
      using complete_desc_inv[OF that, of tag x] by (cases "complete_desc tag x d1") simp
    have f: "\<exists>r d'. Some (finish_read_desc am axi tag bs d1) = Some (r, d') \<and> pd_inv mp d'" if "pd_inv mp d1" for bs d1
      using finish_read_desc_inv[OF that, of am axi tag bs] by (cases "finish_read_desc am axi tag bs d1") simp
    show ?thesis
      using t assms(2) c[OF inv] c[OF inv'] f[OF inv']
      by (simp add: submit_read_desc_def Let_def split: sum.split py_error.split prod.split)
  qed
qed

theorem dma_keeps_tags_witness:
  "pd_inv 256 (snd (dma_tlp_write Min (- 3) [1, 2, 3] (pcie_dma_new None 16 0 1 1)))
   \<and> (\<exists>r d'. submit_read_desc documented_map Min 0 4 5 7 (inject_completion_error 0 2 (pcie_dma_new None 16 0 1 1)) = Some (r, d')
        \<and> pd_inv 256 d')"
proof -
  have "pd_inv 256 (pcie_dma_new None 16 0 1 1)" "pd_inv 256 (inject_completion_error 0 2 (pcie_dma_new None 16 0 1 1))"
    by (simp_all add: pd_inv_def pcie_dma_new_def mps_bytes_def inject_completion_error_def)
  from this[THEN dma_keeps_tags[OF pick_Min]] show ?thesis by (metis snd_conv)
qed

lemma dma_write_inside:
  assumes "pick_ok pick" and "pd_inv mp d" and "0 \<le> addr" and "addr + int (length (pad4 data)) \<le> int (length (pd_host_mem d))"
    and "data \<noteq> []"
  obtains hs where "dma_tlp_write pick addr data d = (Inr hs, d\<lparr>pd_host_mem := overwrite (pd_host_mem d) (nat addr) (pad4 data)\<rparr>)"
    and "length hs = (length data + mp - 1) div mp"
proof -
  have mp: "0 < mp" "4 dvd mp" using assms(2) by (simp_all add: pd_inv_def)
  have "host_after (pd_host_mem d) addr (chunks_of mp data) = overwrite (pd_host_mem d) (nat addr) (pad4 data)"
    using host_after_inside[of addr "chunks_of mp data" "pd_host_mem d"] assms(3,4)
    by (simp add: pad4_chunks[OF mp assms(5)])
  then show thesis using dma_tlp_write_eff[OF assms(1,2), of addr data] that by metis
qed

text \<open>What the engine writes to the host it reads back, whether the completions come whole or split
  at 128 bytes: for every range of the host memory the two read operations return the same bytes
  and the same request headers, every split completion reports success, and only the padded range
  of the write changes.\<close>

theorem dma_host_roundtrip:
  assumes "pick_ok pick" and "pd_inv mp d" and "pd_completion_errors d = []" and "data \<noteq> []" and "0 \<le> addr"
    and "addr + int (length (pad4 data)) \<le> int (length (pd_host_mem d))"
  shows "\<exists>hs d' rs cs. dma_tlp_write pick addr data d = (Inr hs, d') \<and> length hs = (length data + mp - 1) div mp
    \<and> d' = d\<lparr>pd_host_mem := overwrite (pd_host_mem d) (nat addr) (pad4 data)\<rparr>
    \<and> dma_tlp_read pick addr (int (length data)) d' = Some (Inr (data, rs), d')
    \<and> tlp_read_with_reassembly pick addr (int (length data)) d' = Some (Inr (data, rs, cs), d')"
proof -
  obtain hs where w: "dma_tlp_write pick addr data d
        = (Inr hs, d\<lparr>pd_host_mem := overwrite (pd_host_mem d) (nat addr) (pad4 data)\<rparr>)"
      and hs: "length hs = (length data + mp - 1) div mp"
    by (rule dma_write_inside[OF assms(1,2,5,6,4)])
  let ?d = "d\<lparr>pd_host_mem := overwrite (pd_host_mem d) (nat addr) (pad4 data)\<rparr>"
  have inv: "pd_inv mp ?d" and clean: "pd_completion_errors ?d = []" using assms(2,3) by simp_all
  have n: "0 \<le> int (length data)" by simp
  obtain bs rs cs where r: "dma_read_chunks pick addr (int (length data)) [] [] ?d = Some (Inr (bs, rs), ?d)"
      and q: "reassembly_chunks pick addr (int (length data)) [] [] [] ?d = Some (Inr (bs, rs, cs), ?d)"
    using reassembly_agrees[OF assms(1) inv clean assms(5) n, of "[]" "[]" "[]"] by blast
  have "bs = host_view (pd_host_mem ?d) (nat addr) (length data)"
    using dma_read_chunks_clean[OF assms(1) inv clean assms(5) n, of "[]" "[]"] r by auto
  moreover have fit: "nat addr + length (pad4 data) \<le> length (pd_host_mem d)" using assms(5,6) by linarith
  moreover have "length data \<le> length (pad4 data)" by (simp add: pad4_def)
  ultimately have "host_view (pd_host_mem ?d) (nat addr) (length data) = data" "bs = host_view (pd_host_mem ?d) (nat addr) (length data)"
    by (simp_all add: host_view_inside take_drop_overwrite take_pad4)
  then show ?thesis
    using w hs r q assms(4) by (auto simp: dma_tlp_read_def tlp_read_with_reassembly_def)
qed

theorem dma_host_roundtrip_witness:
  "\<exists>rs cs. let d' = snd (dma_tlp_write Min 4 [1, 2, 3, 4, 5] (pcie_dma_new None 16 0 1 1)) in
     dma_tlp_read Min 4 5 d' = Some (Inr ([1, 2, 3, 4, 5], rs), d')
     \<and> tlp_read_with_reassembly Min 4 5 d' = Some (Inr ([1, 2, 3, 4, 5], rs, cs), d')"
proof -
  have "pd_inv 256 (pcie_dma_new None 16 0 1 1)" "pd_completion_errors (pcie_dma_new None 16 0 1 1) = []"
    "4 + int (length (pad4 [1, 2, 3, 4, 5])) \<le> int (length (pd_host_mem (pcie_dma_new None 16 0 1 1)))"
    by (simp_all add: pd_inv_def pcie_dma_new_def mps_bytes_def length_pad4 dwords_def)
  from dma_host_roundtrip[OF pick_Min this(1,2) _ _ this(3)] show ?thesis by (auto simp: Let_def)
qed

text \<open>C33. Two descriptors move a block through the host: a write descriptor from one place of the NPU and a
  read descriptor to another copy \<open>n\<close> bytes, whatever the tags, the alignment and the number of TLPs.
  Both complete without error, in order, and raise the interrupt; the other memory of the NPU is
  unchanged, and the destination's memory changes only in the copied range.\<close>

theorem descriptors_copy:
  assumes "pick_ok pick" and "pd_inv mp d" and "pd_completion_errors d = []" and "pd_axi_dec_errors d = {}"
    and "pd_crossbar d = Some cb" and "crossbar_ok am cb" and "0 < n"
    and "inside am cb src n i off" and "inside am cb dst n j off'"
    and "0 \<le> host" and "host + dwords (int n) * 4 \<le> int (length (pd_host_mem d))"
    and "0 \<le> t1" and "t1 < 256" and "0 \<le> t2" and "t2 < 256"
  shows "\<exists>d1 d2 cb'. submit_write_desc am pick host src (int n) t1 d = (Inr (), d1)
    \<and> submit_read_desc am pick host dst (int n) t2 d1 = Some (Inr (), d2)
    \<and> pd_crossbar d2 = Some cb' \<and> crossbar_ok am cb'
    \<and> slave_mem j cb' = overwrite (slave_mem j cb) off' (take n (drop off (slave_mem i cb)))
    \<and> slave_mem (1 - j) cb' = slave_mem (1 - j) cb
    \<and> pd_desc_status d2 = pd_desc_status d @ [(t1, 0), (t2, 0)] \<and> pd_irq_pending d2 \<and> pd_inv mp d2"
proof -
  have m: "0 \<le> master_pcie" "master_pcie < num_masters" by (simp_all add: master_pcie_def num_masters_def)
  let ?data = "take n (drop off (slave_mem i cb))"
  have "n \<le> length (slave_mem i cb) - off" using assms(8) by (auto simp: inside_def)
  then have len: "length ?data = n" by simp
  obtain cb1 where r: "crossbar_read am master_pcie src (int n) cb = (Inr ?data, cb1)"
    and cb1: "cb_sram cb1 = cb_sram cb" "cb_dram cb1 = cb_dram cb"
      "cb_txn_ids cb1 = (cb_txn_ids cb)[nat master_pcie := (cb_txn_ids cb ! nat master_pcie + 1) AND 0xFF]"
    by (rule crossbar_read_inside[OF assms(8,7) m])
  have ok1: "crossbar_ok am cb1" by (rule crossbar_ok_step[OF assms(6) _ _ cb1(3)]) (simp_all add: cb1)
  let ?d0 = "d\<lparr>pd_crossbar := Some cb1\<rparr>"
  have inv0: "pd_inv mp ?d0" using assms(2) by simp
  have "host + int (length (pad4 ?data)) \<le> int (length (pd_host_mem ?d0))" using assms(11) by (simp only: length_pad4 len) simp
  moreover have nn: "?data \<noteq> []" using len assms(7) by (metis length_0_conv less_irrefl)
  ultimately obtain hs where w: "dma_tlp_write pick host ?data ?d0 =
      (Inr hs, ?d0\<lparr>pd_host_mem := overwrite (pd_host_mem ?d0) (nat host) (pad4 ?data)\<rparr>)"
    using dma_write_inside[OF assms(1) inv0 assms(10)] by metis
  define d1 where "d1 = ?d0\<lparr>pd_host_mem := overwrite (pd_host_mem d) (nat host) (pad4 ?data),
      pd_desc_status := pd_desc_status d @ [(t1, 0)], pd_irq_pending := True\<rparr>"
  have s1: "submit_write_desc am pick host src (int n) t1 d = (Inr (), d1)"
    using assms(12,13) r w by (simp add: submit_write_desc_def bind_op_def seq_op_def fetch_npu_def assms(5)
        complete_desc_def modify_op_def desc_err_none_def pcie_tag_count_def d1_def)
  have inv1: "pd_inv mp d1" and clean: "pd_completion_errors d1 = []" using assms(2,3) by (simp_all add: d1_def pd_inv_def)
  obtain rs where q: "dma_tlp_read pick host (int n) d1 = Some (Inr (host_view (pd_host_mem d1) (nat host) n, rs), d1)"
    using dma_read_chunks_clean[OF assms(1) inv1 clean assms(10), of "int n" "[]" "[]"] assms(7)
    by (auto simp: dma_tlp_read_def)
  have fit: "nat host + length (pad4 ?data) \<le> length (pd_host_mem d)"
    using assms(10,11) length_pad4[of ?data] unfolding len by linarith
  have "n \<le> length (pad4 ?data)" using len by (simp add: pad4_def)
  then have v: "host_view (pd_host_mem d1) (nat host) n = ?data"
    using fit take_pad4[of ?data] len
    by (simp add: host_view_inside take_drop_overwrite d1_def)
  have same: "inside am cb1 dst (length ?data) j off'"
    using assms(9) unfolding len by (subst inside_cong[of cb1 cb]) (simp_all add: cb1)
  obtain cb' where cw: "crossbar_write am master_pcie dst ?data cb1 = (Inr (), cb')"
    and mem: "slave_mem j cb' = overwrite (slave_mem j cb1) off' ?data" "slave_mem (1 - j) cb' = slave_mem (1 - j) cb1"
    and sizes: "length (cb_sram cb') = length (cb_sram cb1)" "length (cb_dram cb') = length (cb_dram cb1)"
    and txn: "cb_txn_ids cb' = (cb_txn_ids cb1)[nat master_pcie := (cb_txn_ids cb1 ! nat master_pcie + 1) AND 0xFF]"
    by (rule crossbar_write_inside[OF same m])
  have ok': "crossbar_ok am cb'" by (rule crossbar_ok_step[OF ok1 sizes txn])
  define d2 where "d2 = d1\<lparr>pd_crossbar := Some cb', pd_desc_status := pd_desc_status d1 @ [(t2, 0)], pd_irq_pending := True\<rparr>"
  have d1x: "d1\<lparr>pd_completion_errors := []\<rparr> = d1" using clean by simp
  have s2: "submit_read_desc am pick host dst (int n) t2 d1 = Some (Inr (), d2)"
    using assms(14,15,4) q cw unfolding v
    by (simp add: submit_read_desc_def clean d1x cpl_ur_def cpl_ca_def pcie_tag_count_def finish_read_desc_def
        bind_op_def store_npu_def complete_desc_def modify_op_def desc_err_none_def d2_def)
      (simp add: d1_def complete_desc_def modify_op_def desc_err_none_def)
  have sl: "slave_mem k cb1 = slave_mem k cb" for k using cb1 by (simp add: slave_mem_def)
  have "pd_inv mp d2" using inv1 by (simp add: d2_def pd_inv_def)
  then show ?thesis
    using s1 s2 mem ok' unfolding sl by (auto simp: d2_def d1_def)
qed

definition demo_dma :: pcie_dma where
  "demo_dma = pcie_dma_new (Some (crossbar_new [1, 2, 3, 4, 5, 6, 7, 8] (zeros 8))) 16 0 1 1"

theorem descriptors_copy_witness:
  "\<exists>d2 cb'. submit_read_desc documented_map Min 4 0x80000001 5 9
       (snd (submit_write_desc documented_map Min 4 0x20000002 5 3 demo_dma)) = Some (Inr (), d2)
     \<and> pd_crossbar d2 = Some cb' \<and> slave_mem 1 cb' = [0, 3, 4, 5, 6, 7, 0, 0]
     \<and> pd_desc_status d2 = [(3, 0), (9, 0)]"
proof -
  let ?cb = "crossbar_new [1, 2, 3, 4, 5, 6, 7, 8] (zeros 8)"
  have cb: "crossbar_ok documented_map ?cb" "inside documented_map ?cb 0x20000002 5 0 2"
      "inside documented_map ?cb 0x80000001 5 1 1"
    by code_simp+
  have dma: "pd_inv 256 demo_dma" "pd_completion_errors demo_dma = []" "pd_axi_dec_errors demo_dma = {}"
      "pd_crossbar demo_dma = Some ?cb" "4 + dwords (int 5) * 4 \<le> int (length (pd_host_mem demo_dma))"
      "pd_desc_status demo_dma = []"
    by (simp_all add: pd_inv_def demo_dma_def pcie_dma_new_def mps_bytes_def dwords_def)
  have copied: "overwrite (slave_mem 1 ?cb) 1 (take 5 (drop 2 (slave_mem 0 ?cb))) = [0, 3, 4, 5, 6, 7, 0, 0]"
    by code_simp
  show ?thesis
    using descriptors_copy[OF pick_Min dma(1-4) cb(1) _ cb(2,3) _ dma(5), of 3 9] dma(6) copied
    by (simp, metis snd_conv)
qed

lemma crossbar_read_outcome:
  assumes "crossbar_read am master_pcie axi n cb = (r, cb')"
  shows "n < 0 \<or> (n \<noteq> 0 \<and> \<not> is_ok (decode am axi cb)) \<longleftrightarrow> \<not> is_ok r" and "r = Inl e \<Longrightarrow> decode_failed e"
proof -
  have "(n < 0 \<or> (n \<noteq> 0 \<and> \<not> is_ok (decode am axi cb)) \<longleftrightarrow> \<not> is_ok r) \<and> (r = Inl e \<longrightarrow> decode_failed e)"
  proof (cases "decode am axi cb")
    case (Inl x)
    then have "decode_failed x" by (auto simp: decode_def split: if_splits)
    with Inl assms show ?thesis
      by (cases "n < 0"; cases "n = 0") (auto simp: crossbar_read_def master_pcie_def num_masters_def)
  next
    case (Inr i)
    then have "i < num_slaves" by (rule decode_cases)
    with Inr assms show ?thesis
      by (cases "n < 0"; cases "n = 0")
        (auto simp: crossbar_read_def master_pcie_def num_masters_def bind_op_def next_axi_id_def Let_def slave_base_simps)
  qed
  then show "n < 0 \<or> (n \<noteq> 0 \<and> \<not> is_ok (decode am axi cb)) \<longleftrightarrow> \<not> is_ok r" "r = Inl e \<Longrightarrow> decode_failed e"
    by blast+
qed



end
