(* ===== verification/Py_Number.thy ===== *)
theory Py_Number
  imports Py_Float Py_Text
begin

text \<open>
  Python numbers that are an \<open>int\<close> or a \<open>float\<close> depending on the path that computed them: ints add,
  subtract and multiply exactly, an operation with a float converts the other operand and rounds,
  \<open>/\<close> always gives a float, and comparisons are exact. \<open>max(a, b)\<close> returns its first argument on a
  tie. The lemmas are those the cycle models need: the operations are monotone, and on integers
  below \<open>2^53\<close> nothing is lost.
\<close>

datatype pynum = PyInt int | PyFloat rat

fun num_val :: "pynum \<Rightarrow> rat" where
  "num_val (PyInt n) = of_int n"
| "num_val (PyFloat x) = x"

fun as_float :: "pynum \<Rightarrow> rat" where
  "as_float (PyInt n) = int_to_float n"
| "as_float (PyFloat x) = x"

fun num_add :: "pynum \<Rightarrow> pynum \<Rightarrow> pynum" where
  "num_add (PyInt a) (PyInt b) = PyInt (a + b)"
| "num_add a b = PyFloat (fadd (as_float a) (as_float b))"

fun num_sub :: "pynum \<Rightarrow> pynum \<Rightarrow> pynum" where
  "num_sub (PyInt a) (PyInt b) = PyInt (a - b)"
| "num_sub a b = PyFloat (fsub (as_float a) (as_float b))"

fun num_mul :: "pynum \<Rightarrow> pynum \<Rightarrow> pynum" where
  "num_mul (PyInt a) (PyInt b) = PyInt (a * b)"
| "num_mul a b = PyFloat (fmul (as_float a) (as_float b))"

definition true_div :: "pynum \<Rightarrow> pynum \<Rightarrow> rat result" where
  "true_div a b = (if num_val b = 0 then Inl ZeroDivisionError else
     Inr (case (a, b) of (PyInt m, PyInt n) \<Rightarrow> fdiv_int m n | _ \<Rightarrow> fdiv (as_float a) (as_float b)))"

definition num_max :: "pynum \<Rightarrow> pynum \<Rightarrow> pynum" where
  "num_max a b = (if num_val a < num_val b then b else a)"

definition num_trunc :: "pynum \<Rightarrow> int" where
  "num_trunc a = py_trunc (num_val a)"

definition num_ceil :: "pynum \<Rightarrow> int" where
  "num_ceil a = \<lceil>num_val a\<rceil>"

text \<open>\<open>math.ceil(a / b)\<close> and \<open>a // b\<close> on ints\<close>

definition ceil_div :: "int \<Rightarrow> int \<Rightarrow> int result" where
  "ceil_div a b = (if b = 0 then Inl ZeroDivisionError else Inr \<lceil>fdiv_int a b\<rceil>)"

definition floor_div :: "int \<Rightarrow> int \<Rightarrow> int result" where
  "floor_div a b = (if b = 0 then Inl ZeroDivisionError else Inr (a div b))"

section \<open>Values\<close>

lemma num_val_max [simp]: "num_val (num_max a b) = max (num_val a) (num_val b)"
  by (auto simp: num_max_def)

lemma num_trunc_int [simp]: "num_trunc (PyInt n) = n"
  by (simp add: num_trunc_def)

lemma num_ceil_int [simp]: "num_ceil (PyInt n) = n"
  by (simp add: num_ceil_def)

definition num_small :: "pynum \<Rightarrow> bool" where
  "num_small a \<longleftrightarrow> (case a of PyInt n \<Rightarrow> \<bar>n\<bar> \<le> 2 ^ 53 | PyFloat x \<Rightarrow> is_float x)"

lemma num_small_simps [simp]:
  "num_small (PyInt n) \<longleftrightarrow> \<bar>n\<bar> \<le> 2 ^ 53" "num_small (PyFloat x) \<longleftrightarrow> is_float x"
  by (simp_all add: num_small_def)

lemma small_as_float: "num_small a \<Longrightarrow> as_float a = num_val a"
  by (cases a) (simp_all add: int_to_float_exact)

lemma float_ops [simp]: "is_float (fadd x y)" "is_float (fsub x y)" "is_float (fmul x y)" "is_float (fdiv x y)"
  "is_float (fdiv_int a b)" "is_float (int_to_float n)" "is_float 0"
  by (simp_all add: fadd_def fsub_def fmul_def fdiv_def fdiv_int_def int_to_float_def is_float_def fl_idem)

text \<open>A rounded sum or product lies above every small integer the exact one lies above, and below
  every one it lies below.\<close>

lemma fl_ge_int: "of_int n \<le> x \<Longrightarrow> \<bar>n\<bar> \<le> 2 ^ 53 \<Longrightarrow> of_int n \<le> fl x"
  using fl_mono[of "of_int n" x] by (simp add: fl_int)

lemma fl_le_int: "x \<le> of_int n \<Longrightarrow> \<bar>n\<bar> \<le> 2 ^ 53 \<Longrightarrow> fl x \<le> of_int n"
  using fl_mono[of x "of_int n"] by (simp add: fl_int)

lemma as_float_ge: "of_int n \<le> num_val a \<Longrightarrow> \<bar>n\<bar> \<le> 2 ^ 53 \<Longrightarrow> of_int n \<le> as_float a"
  by (cases a) (simp_all add: int_to_float_def fl_ge_int)

lemma num_add_ge:
  assumes "of_int m \<le> num_val a" and "of_int n \<le> num_val b"
    and "\<bar>m\<bar> \<le> 2 ^ 53" and "\<bar>n\<bar> \<le> 2 ^ 53" and "\<bar>m + n\<bar> \<le> 2 ^ 53"
  shows "of_int (m + n) \<le> num_val (num_add a b)"
proof (cases "\<exists>x y. a = PyInt x \<and> b = PyInt y")
  case True
  with assms show ?thesis by auto
next
  case False
  then have "num_val (num_add a b) = fl (as_float a + as_float b)"
    by (cases a; cases b) (auto simp: fadd_def)
  moreover have "of_int m + of_int n \<le> as_float a + as_float b"
    using as_float_ge[OF assms(1,3)] as_float_ge[OF assms(2,4)] by (rule add_mono)
  ultimately show ?thesis using fl_ge_int[of "m + n"] assms(5) by simp
qed

lemma num_mul_ge:
  assumes "of_int m \<le> num_val a" and "of_int n \<le> num_val b" and "0 \<le> m" and "0 \<le> n"
    and "m \<le> 2 ^ 53" and "n \<le> 2 ^ 53" and "m * n \<le> 2 ^ 53"
  shows "of_int (m * n) \<le> num_val (num_mul a b)"
proof (cases "\<exists>x y. a = PyInt x \<and> b = PyInt y")
  case True
  then obtain x y where "a = PyInt x" "b = PyInt y" by blast
  with assms show ?thesis by (simp del: of_int_mult) (intro mult_mono, simp_all)
next
  case False
  then have "num_val (num_mul a b) = fl (as_float a * as_float b)"
    by (cases a; cases b) (auto simp: fmul_def)
  moreover have "of_int m * of_int n \<le> as_float a * as_float b"
    using as_float_ge[OF assms(1)] as_float_ge[OF assms(2)] assms by (intro mult_mono) auto
  ultimately show ?thesis using fl_ge_int[of "m * n"] assms by simp
qed

lemma num_trunc_ge: "of_int n \<le> num_val a \<Longrightarrow> 0 \<le> n \<Longrightarrow> n \<le> num_trunc a"
  by (auto simp: num_trunc_def py_trunc_def le_floor_iff dest: order_trans)

lemma py_trunc_mono: "x \<le> y \<Longrightarrow> py_trunc x \<le> py_trunc y"
proof (cases "x < 0 \<and> \<not> y < 0")
  case True
  then have "\<lceil>x\<rceil> \<le> 0" "0 \<le> \<lfloor>y\<rfloor>" by (simp_all add: ceiling_le_iff)
  then have "\<lceil>x\<rceil> \<le> \<lfloor>y\<rfloor>" by linarith
  with True show ?thesis by (simp add: py_trunc_def)
qed (auto simp: py_trunc_def ceiling_mono floor_mono)

lemma num_trunc_mono: "num_val a \<le> num_val b \<Longrightarrow> num_trunc a \<le> num_trunc b"
  by (simp add: num_trunc_def py_trunc_mono)

text \<open>On small numbers every operation is the exact one, rounded.\<close>

lemma num_add_val:
  assumes "num_small a" and "num_small b" and "\<bar>num_val a + num_val b\<bar> \<le> 2 ^ 53"
  shows "num_val (num_add a b) = fl (num_val a + num_val b)"
proof (cases "\<exists>x y. a = PyInt x \<and> b = PyInt y")
  case True
  then obtain x y where ab: "a = PyInt x" "b = PyInt y" by blast
  have "\<bar>of_int (x + y)\<bar> \<le> (of_int (2 ^ 53) :: rat)" using assms(3) ab by simp
  then have "\<bar>x + y\<bar> \<le> 2 ^ 53" by (simp only: of_int_le_iff flip: of_int_abs)
  then show ?thesis using fl_int[of "x + y"] ab by simp
qed (use assms in \<open>cases a; cases b; simp add: fadd_def int_to_float_exact\<close>)

section \<open>Tile counts\<close>

text \<open>Below \<open>2^53\<close> the rounded quotient has the ceiling of the exact one.\<close>

lemma ceil_fdiv_exact:
  assumes "0 \<le> a" and "a < 2 ^ 53" and "0 < b" and "b \<le> 2 ^ 53"
  shows "\<lceil>fdiv_int a b\<rceil> = (a + b - 1) div b"
proof -
  define n where "n = (a + b - 1) div b"
  have "n * b = a + b - 1 - (a + b - 1) mod b" by (simp add: n_def minus_mod_eq_div_mult)
  moreover have "0 \<le> (a + b - 1) mod b" "(a + b - 1) mod b < b" using assms(3) by simp_all
  ultimately have n: "a \<le> n * b" "n * b < a + b" by linarith+
  have n0: "0 \<le> n" unfolding n_def using assms by (intro div_int_pos_iff[THEN iffD2]) auto
  have b1: "1 \<le> b" using assms(3) by simp
  have na: "n \<le> 2 ^ 53"
  proof (cases "n \<le> 0")
    case False
    then have "(n - 1) * 1 \<le> (n - 1) * b" using b1 by (intro mult_left_mono) auto
    also have "\<dots> < a" using n(2) by (simp add: algebra_simps)
    finally show ?thesis using assms(2) by simp
  qed (use zero_le_power[of "2 :: int" 53] in linarith)
  have "(of_int a / of_int b :: rat) \<le> of_int n"
    using n(1) assms(3) by (simp add: divide_le_eq flip: of_int_mult)
  then have upper: "fdiv_int a b \<le> of_int n"
    unfolding fdiv_int_def using n0 na by (intro fl_le_int) auto
  have lower: "of_int n - 1 < fdiv_int a b"
  proof (cases "a = 0")
    case True
    then have "n * b < b" using n(2) by simp
    then have "n < 1" using assms(3) mult_less_cancel_right[of n b 1] by simp
    then show ?thesis using True n0 by (simp add: fdiv_int_def)
  next
    case False
    let ?x = "of_int a / of_int b :: rat"
    have b: "(0 :: rat) < of_int b" using assms(3) by simp
    have pos: "0 < ?x" using False assms by simp
    have p53: "(2 :: rat) powi (-53) = 1 / 2 ^ 53" by (simp add: power_int_minus_divide)
    have "(of_int b :: rat) \<le> of_int (2 ^ 53)" using assms(4) by (simp only: of_int_le_iff)
    then have "1 / 2 ^ 53 \<le> 1 / (of_int b :: rat)" using b by (intro divide_left_mono) simp_all
    also have "\<dots> \<le> ?x" using False assms(1) b by (intro divide_right_mono) simp_all
    finally have "1 / 2 ^ 53 \<le> ?x" .
    moreover have "(2 :: rat) powi (-1022) \<le> 2 powi (-53)" by (subst powi_le_iff) simp
    ultimately have "2 powi (-1022) \<le> \<bar>?x\<bar>" using pos unfolding p53 by linarith
    then have "\<bar>fdiv_int a b - ?x\<bar> \<le> ?x / 2 ^ 53" using fl_rel_error[of ?x] pos by (simp add: fdiv_int_def)
    moreover have "?x / 2 ^ 53 < 1 / of_int b"
    proof -
      have "(of_int a :: rat) < of_int (2 ^ 53)" using assms(2) by (simp only: of_int_less_iff)
      then have "of_int a / 2 ^ 53 < (1 :: rat)" by simp
      then show ?thesis using b by (simp add: field_simps)
    qed
    moreover have "(of_int n :: rat) - 1 \<le> ?x - 1 / of_int b"
    proof -
      have "(n - 1) * b \<le> a - 1" using n(2) by (simp add: algebra_simps)
      then have "of_int ((n - 1) * b) \<le> (of_int (a - 1) :: rat)" by (simp only: of_int_le_iff)
      then have "of_int (n - 1) \<le> (of_int (a - 1) / of_int b :: rat)" using b by (simp add: pos_le_divide_eq)
      then show ?thesis by (simp add: diff_divide_distrib)
    qed
    ultimately show ?thesis by linarith
  qed
  have "\<lceil>fdiv_int a b\<rceil> = n" using upper lower by (intro ceiling_unique) simp_all
  then show ?thesis by (simp add: n_def)
qed

end
