(* ===== verification/Hw_Config.thy ===== *)
theory Hw_Config
  imports Py_Number Mem_Residency Hw_Dma
begin

text \<open>
  The configuration the hardware models read and the remaining unit conversions of
  \<open>sim/contracts/units.py\<close>. A section of the configuration is the dict of its numeric entries, a
  number being the rational it denotes; entries that are texts or flags are fields of their own.
  \<open>config.get("mac_engine", config.get("mxu", {}))\<close> is \<open>mac_section\<close>.
\<close>

type_synonym cfg_section = "(string, rat) dict"

record npu_config = hierarchy_config +
  nc_cores :: "rat option"
  nc_mac_engine :: "cfg_section option"
  nc_mac_engine_type :: "string option"
  nc_mxu :: "cfg_section option"
  nc_mxu_type :: "string option"
  nc_optimizations :: cfg_section
  nc_weight_cache :: bool
  nc_descriptor_overhead :: "pynum option"
  nc_gmma :: cfg_section
  nc_wmma :: cfg_section
  nc_sfu :: "cfg_section option"
  nc_sfu_pipeline :: cfg_section
  nc_vector :: cfg_section
  nc_vector_ops :: cfg_section
  nc_kv_cache :: "cfg_section option"
  nc_interconnect :: "cfg_section option"
  nc_interconnect_type :: "string option"
  nc_arbitration :: "string option"
  nc_routing :: "string option"
  nc_dma :: "dma_config option"

definition cfg_int :: "cfg_section \<Rightarrow> string \<Rightarrow> rat \<Rightarrow> int" where
  "cfg_int s k d = py_trunc (dget s k d)"

definition cfg_float :: "cfg_section \<Rightarrow> string \<Rightarrow> rat \<Rightarrow> rat" where
  "cfg_float s k d = fl (dget s k d)"

text \<open>\<open>config[k]\<close> and \<open>section[k]\<close>\<close>

definition need :: "string \<Rightarrow> 'a option \<Rightarrow> 'a result" where
  "need k x = (case x of None \<Rightarrow> Inl (KeyError k) | Some v \<Rightarrow> Inr v)"

definition mac_section :: "npu_config \<Rightarrow> cfg_section" where
  "mac_section c = (case nc_mac_engine c of Some s \<Rightarrow> s | None \<Rightarrow> (case nc_mxu c of Some s \<Rightarrow> s | None \<Rightarrow> []))"

definition mac_type :: "npu_config \<Rightarrow> string option" where
  "mac_type c = (if nc_mac_engine c \<noteq> None then nc_mac_engine_type c
     else if nc_mxu c \<noteq> None then nc_mxu_type c else None)"

definition mxu_section :: "npu_config \<Rightarrow> cfg_section" where
  "mxu_section c = (case nc_mxu c of Some s \<Rightarrow> s | None \<Rightarrow> [])"

section \<open>Units\<close>

definition bytes_per_cycle_to_bandwidth_gbps :: "rat \<Rightarrow> rat \<Rightarrow> rat result" where
  "bytes_per_cycle_to_bandwidth_gbps bpc freq =
     (if freq \<le> 0 then Inl (ValueError ''frequency_mhz'') else Inr (fdiv (fmul bpc freq) 1000))"

definition cycles_to_seconds :: "rat \<Rightarrow> rat \<Rightarrow> rat result" where
  "cycles_to_seconds cycles freq =
     (if freq \<le> 0 then Inl (ValueError ''frequency_mhz'') else Inr (fdiv cycles (fmul freq 1000000)))"

definition cycles_to_microseconds :: "rat \<Rightarrow> rat \<Rightarrow> rat result" where
  "cycles_to_microseconds cycles freq =
     (if freq \<le> 0 then Inl (ValueError ''frequency_mhz'') else Inr (fdiv cycles freq))"

definition seconds_to_cycles :: "rat \<Rightarrow> rat \<Rightarrow> rat result" where
  "seconds_to_cycles seconds freq =
     (if freq \<le> 0 then Inl (ValueError ''frequency_mhz'') else Inr (fmul (fmul seconds freq) 1000000))"

definition microseconds_to_cycles :: "rat \<Rightarrow> rat \<Rightarrow> rat result" where
  "microseconds_to_cycles us freq =
     (if freq \<le> 0 then Inl (ValueError ''frequency_mhz'') else Inr (fmul us freq))"

definition bytes_to_gib :: "rat \<Rightarrow> rat" where
  "bytes_to_gib n = fdiv n (2 ^ 30)"

definition gib_to_bytes :: "rat \<Rightarrow> rat" where
  "gib_to_bytes n = fmul n (2 ^ 30)"

text \<open>Powers of two: nothing is rounded between bytes and GiB, up to \<open>2^53\<close> bytes.\<close>

lemma gib_roundtrip:
  assumes "\<bar>n\<bar> \<le> 2 ^ 53"
  shows "gib_to_bytes (bytes_to_gib (of_int n)) = of_int n"
proof -
  have "(of_int n :: rat) / 2 ^ 30 = of_int n * 2 powi (-30)" by (simp add: power_int_minus_divide)
  then have "bytes_to_gib (of_int n) = of_int n * 2 powi (-30)"
    using fl_representable[OF assms, of "-30"] by (simp add: bytes_to_gib_def fdiv_def)
  also have "\<dots> = of_int n / 2 ^ 30" by (simp add: power_int_minus_divide)
  finally show ?thesis using fl_int[OF assms] by (simp add: gib_to_bytes_def fmul_def)
qed

end
