(* ===== verification/Hw_Latency.thy ===== *)
theory Hw_Latency
  imports Hw_Config
begin

text \<open>
  The latency models of the units beside the matrix engine: the special function unit
  (\<open>sim/models/sfu.py\<close>), the vector unit (\<open>vector.py\<close>), the DRAM refresh and access times
  (\<open>dram.py\<close>), the interconnect (\<open>noc.py\<close>) and the KV cache (\<open>kv_cache.py\<close>). Each constructor reads
  the configuration; a missing key, a division by zero and a use before configuration are errors.
\<close>

section \<open>The special function unit\<close>

record sfu_model =
  sm_width :: int
  sm_freq_mhz :: int
  sm_latency_map :: "(string, int) dict"

definition sfu_new :: "npu_config \<Rightarrow> sfu_model result" where
  "sfu_new c = bind_res (need ''sfu'' (nc_sfu c)) (\<lambda>sfu. bind_res (need ''width'' (map_of sfu ''width'')) (\<lambda>width.
     let pc = (\<lambda>k d. cfg_int (nc_sfu_pipeline c) k d) in
     Inr \<lparr>sm_width = py_trunc width, sm_freq_mhz = cfg_int (mxu_section c) ''frequency_mhz'' 1000,
          sm_latency_map = [(''exp'', pc ''exp'' 12), (''div'', pc ''div'' 16), (''sqrt'', pc ''sqrt'' 20),
            (''log'', pc ''log'' 18), (''tanh'', pc ''tanh'' 14), (''relu'', 1), (''gelu'', pc ''gelu'' 4),
            (''silu'', pc ''silu'' 4), (''layernorm'', pc ''layernorm'' 6), (''rmsnorm'', pc ''rmsnorm'' 6),
            (''rope'', pc ''rope'' 12), (''softmax'', pc ''softmax'' 8), (''h_swish'', 4), (''hard_sigmoid'', 3),
            (''global_avg_pool'', 8), (''maxpool'', pc ''maxpool'' 3), (''avgpool'', pc ''avgpool'' 3)]\<rparr>))"

text \<open>\<open>(n + width - 1) // width\<close>\<close>

definition batches :: "int \<Rightarrow> int \<Rightarrow> int result" where
  "batches n width = floor_div (n + width - 1) width"

definition sfu_estimate :: "sfu_model \<Rightarrow> string \<Rightarrow> int \<Rightarrow> int result" where
  "sfu_estimate m opn n = (let latency = dget (sm_latency_map m) (lower opn) 4 in
     bind_res (batches n (sm_width m)) (\<lambda>b. Inr (b * latency)))"

definition sfu_latency :: "sfu_model \<Rightarrow> string \<Rightarrow> int result" where
  "sfu_latency m k = need k (map_of (sm_latency_map m) k)"

definition estimate_softmax_decomposed :: "sfu_model \<Rightarrow> int \<Rightarrow> (string, int) dict result" where
  "estimate_softmax_decomposed m n = bind_res (batches n (sm_width m)) (\<lambda>b.
     bind_res (sfu_latency m ''exp'') (\<lambda>e. bind_res (sfu_latency m ''div'') (\<lambda>d.
     Inr [(''exp'', b * e), (''div'', b * d)])))"

definition estimate_attention_sfu :: "sfu_model \<Rightarrow> int \<Rightarrow> int \<Rightarrow> (string, int) dict result" where
  "estimate_attention_sfu m hidden heads = bind_res (floor_div hidden heads) (\<lambda>_.
     bind_res (estimate_softmax_decomposed m hidden) (\<lambda>d.
     Inr [(''attn_exp'', dget d ''exp'' 0), (''attn_div'', dget d ''div'' 0)]))"

definition estimate_all_layer :: "sfu_model \<Rightarrow> int \<Rightarrow> int \<Rightarrow> bool \<Rightarrow> bool \<Rightarrow> (int \<times> (string, int) dict) result" where
  "estimate_all_layer m hidden intermediate has_attention has_rope =
     bind_res (if has_attention
        then bind_res (estimate_softmax_decomposed m hidden) (\<lambda>d.
          Inr [(''softmax_exp'', dget d ''exp'' 0), (''softmax_div'', dget d ''div'' 0)]) else Inr []) (\<lambda>sm.
     bind_res (sfu_estimate m ''layernorm'' hidden) (\<lambda>ln.
     bind_res (sfu_estimate m ''gelu'' intermediate) (\<lambda>gelu.
     bind_res (sfu_estimate m ''layernorm'' hidden) (\<lambda>ln2.
     bind_res (if has_rope then bind_res (sfu_estimate m ''rope'' (hidden * 2)) (\<lambda>r. Inr [(''rope'', r)])
               else Inr []) (\<lambda>rope.
     let breakdown = sm @ [(''ln1'', ln), (''gelu'', gelu), (''ln2'', ln2)] @ rope
     in Inr (sum_list (map snd breakdown), breakdown))))))"

section \<open>The vector unit\<close>

record vector_model =
  vm_width :: int
  vm_freq_mhz :: int
  vm_op_latency :: "(string, int) dict"
  vm_dram_bw :: rat
  vm_dram_efficiency :: rat
  vm_effective_bw :: rat

definition vector_new :: "npu_config \<Rightarrow> vector_model result" where
  "vector_new c = (let ops = (\<lambda>k d. cfg_int (nc_vector_ops c) k d);
       freq = cfg_int (mxu_section c) ''frequency_mhz'' 1000; eff = cfg_float (hc_memory c) ''dram_efficiency'' 0.85 in
     bind_res (bandwidth_gbps_to_bytes_per_cycle (cfg_float (hc_memory c) ''bandwidth_gbps'' 51.2) (int_to_float freq)) (\<lambda>bw.
     Inr \<lparr>vm_width = cfg_int (nc_vector c) ''width'' 128, vm_freq_mhz = freq,
          vm_op_latency = [(''add'', ops ''add'' 1), (''mul'', ops ''mul'' 1), (''scale'', ops ''scale'' 1),
            (''bias'', ops ''bias'' 1), (''relu'', ops ''relu'' 1), (''mask'', ops ''mask'' 1),
            (''max'', ops ''max'' 12), (''sum'', ops ''sum'' 12), (''reduce'', ops ''reduce'' 12),
            (''conv_f16_i32'', ops ''conv_f16_i32'' 260), (''resid'', ops ''resid'' 5)],
          vm_dram_bw = bw, vm_dram_efficiency = eff, vm_effective_bw = fmul bw eff\<rparr>))"

definition vector_estimate :: "vector_model \<Rightarrow> string \<Rightarrow> int \<Rightarrow> int result" where
  "vector_estimate m opn n = (let latency = dget (vm_op_latency m) (lower opn) 1 in
     bind_res (batches n (vm_width m)) (\<lambda>b. Inr (b * latency)))"

definition vector_latency :: "vector_model \<Rightarrow> string \<Rightarrow> int result" where
  "vector_latency m k = need k (map_of (vm_op_latency m) k)"

definition estimate_softmax_vector_parts :: "vector_model \<Rightarrow> int \<Rightarrow> (string, int) dict result" where
  "estimate_softmax_vector_parts m n = bind_res (batches n (vm_width m)) (\<lambda>b.
     bind_res (vector_latency m ''max'') (\<lambda>mx. bind_res (vector_latency m ''scale'') (\<lambda>sc.
     bind_res (vector_latency m ''sum'') (\<lambda>sm.
     Inr [(''max_reduce'', b * mx), (''scale_sub'', b * sc), (''sum_reduce'', b * sm)]))))"

definition estimate_residual_add :: "vector_model \<Rightarrow> int \<Rightarrow> int result" where
  "estimate_residual_add m n = vector_estimate m ''add'' n"

definition estimate_data_movement :: "int \<Rightarrow> int" where
  "estimate_data_movement num_bytes = (num_bytes + 31) div 32"

section \<open>DRAM timing\<close>

record dram_model =
  dr_f_mhz :: rat
  dr_bw_gbps :: rat
  dr_tRC_cycles :: int
  dr_tRAS_cycles :: int
  dr_tRFC :: rat
  dr_tREFI :: rat
  dr_refresh_overhead_pct :: rat
  dr_row_conflict_prob :: rat

definition dram_new :: "npu_config \<Rightarrow> dram_model result" where
  "dram_new c = bind_res (need ''mxu'' (nc_mxu c)) (\<lambda>mxu.
     bind_res (need ''frequency_mhz'' (map_of mxu ''frequency_mhz'')) (\<lambda>f.
     bind_res (need ''bandwidth_gbps'' (map_of (hc_memory c) ''bandwidth_gbps'')) (\<lambda>bw.
     if fl f = 0 then Inl ZeroDivisionError
     else let ns_per_cycle = fdiv 1000 (fl f); tRFC = fdiv 210 ns_per_cycle; tREFI = fdiv 3900 ns_per_cycle in
       Inr \<lparr>dr_f_mhz = fl f, dr_bw_gbps = fl bw,
            dr_tRC_cycles = py_trunc (cfg_float (hc_memory c) ''tRC_cycles'' 48),
            dr_tRAS_cycles = py_trunc (cfg_float (hc_memory c) ''tRAS_cycles'' 42),
            dr_tRFC = tRFC, dr_tREFI = tREFI, dr_refresh_overhead_pct = fmul (fdiv tRFC tREFI) 100,
            dr_row_conflict_prob = fl 0.15\<rparr>)))"

definition add_refresh_overhead :: "dram_model \<Rightarrow> int \<Rightarrow> int" where
  "add_refresh_overhead m cycles = py_trunc (fmul (int_to_float cycles) (fdiv (dr_refresh_overhead_pct m) 100))"

definition estimate_access_latency :: "dram_model \<Rightarrow> int \<Rightarrow> bool \<Rightarrow> int" where
  "estimate_access_latency m n is_read =
     (if n \<le> 0 then 0
      else let bursts = max 1 ((n + 255) div 256)
        in 18 + 14 + (if is_read then bursts * 4 else bursts * 4 + 16)
           + (if 0 < dr_row_conflict_prob m then py_trunc (fmul 18 (dr_row_conflict_prob m)) else 0))"

section \<open>The interconnect\<close>

record noc_transfer =
  nt_src_id :: int
  nt_dst_id :: int
  nt_size_bytes :: int
  nt_priority :: int

record noc_model =
  nm_topology :: string
  nm_ports :: int
  nm_bandwidth_gbps :: rat
  nm_hop_latency_cycles :: int
  nm_flit_width_bits :: int
  nm_vcs :: int
  nm_buffer_depth :: int
  nm_arbitration :: string
  nm_routing :: string
  nm_rows :: int
  nm_cols :: int

text \<open>\<open>ceil(sqrt(n))\<close>: below \<open>2^52\<close> the correctly rounded root has the ceiling of the exact one.\<close>

function ceil_sqrt_from :: "int \<Rightarrow> int \<Rightarrow> int" where
  "ceil_sqrt_from c n = (if n \<le> c * c \<or> c < 0 then c else ceil_sqrt_from (c + 1) n)"
  by pat_completeness auto
termination
proof (relation "measure (\<lambda>(c, n). nat (n - c))")
  fix c n :: int
  assume a: "\<not> (n \<le> c * c \<or> c < 0)"
  have "c < n"
  proof (cases "c = 0")
    case False
    then have "c * 1 \<le> c * c" using a by (intro mult_left_mono) auto
    then show ?thesis using a by simp
  qed (use a in simp)
  then show "((c + 1, n), c, n) \<in> measure (\<lambda>(c, n). nat (n - c))" by simp
qed simp

declare ceil_sqrt_from.simps [simp del]

definition ceil_sqrt :: "int \<Rightarrow> int" where
  "ceil_sqrt n = ceil_sqrt_from 0 n"

text \<open>The largest candidate from \<open>c\<close> down to 1 that divides.\<close>

fun first_divisor :: "int \<Rightarrow> nat \<Rightarrow> int option" where
  "first_divisor n 0 = None"
| "first_divisor n (Suc c) = (if n mod int (Suc c) = 0 then Some (int (Suc c)) else first_divisor n c)"

definition compute_dims :: "int \<Rightarrow> (int \<times> int) result" where
  "compute_dims ports =
     (if ports < 0 then Inl (ValueError ''math domain error'')
      else let limit = ceil_sqrt ports in
        case first_divisor ports (nat limit) of
          Some c \<Rightarrow> (let r = ports div c in Inr (min r c, max r c))
        | None \<Rightarrow> bind_res (ceil_div ports limit) (\<lambda>rows. Inr (rows, limit)))"

definition noc_new :: "npu_config \<Rightarrow> noc_model result" where
  "noc_new c = bind_res (need ''interconnect'' (nc_interconnect c)) (\<lambda>ic.
     let ports = cfg_int ic ''ports'' 4 in
     bind_res (compute_dims ports) (\<lambda>(rows, cols).
     Inr \<lparr>nm_topology = or_default (nc_interconnect_type c) ''crossbar'', nm_ports = ports,
          nm_bandwidth_gbps = cfg_float ic ''bandwidth_gbps'' 500,
          nm_hop_latency_cycles = cfg_int ic ''hop_latency_cycles'' 3,
          nm_flit_width_bits = cfg_int ic ''flit_width_bits'' 256, nm_vcs = cfg_int ic ''vcs'' 2,
          nm_buffer_depth = cfg_int ic ''buffer_depth'' 4,
          nm_arbitration = or_default (nc_arbitration c) ''round_robin'',
          nm_routing = or_default (nc_routing c) ''destination_tag'', nm_rows = rows, nm_cols = cols\<rparr>))"

definition node_coords :: "noc_model \<Rightarrow> int \<Rightarrow> (int \<times> int) result" where
  "node_coords m i = (if nm_cols m = 0 then Inl ZeroDivisionError else Inr (i div nm_cols m, i mod nm_cols m))"

definition mesh_hops :: "noc_model \<Rightarrow> int \<Rightarrow> int \<Rightarrow> int result" where
  "mesh_hops m src dst = bind_res (node_coords m src) (\<lambda>(r1, c1). bind_res (node_coords m dst) (\<lambda>(r2, c2).
     Inr (\<bar>r1 - r2\<bar> + \<bar>c1 - c2\<bar>)))"

definition arbitration_cycles :: "noc_model \<Rightarrow> int" where
  "arbitration_cycles m = (if lower (nm_arbitration m) \<in> {''fixed_priority'', ''priority''} then 1 else 3)"

definition noc_transfer_cycles :: "noc_model \<Rightarrow> int \<Rightarrow> int \<Rightarrow> int \<Rightarrow> int result" where
  "noc_transfer_cycles m n src dst =
     (if n \<le> 0 then Inr 0
      else let bytes_per_flit = max 1 (nm_flit_width_bits m div 8); flits = \<lceil>fdiv_int n bytes_per_flit\<rceil> in
        if nm_topology m = ''crossbar''
        then Inr (nm_hop_latency_cycles m + flits + arbitration_cycles m + nm_buffer_depth m)
        else bind_res (mesh_hops m src dst) (\<lambda>hops.
          Inr (hops * nm_hop_latency_cycles m + flits + nm_buffer_depth m * hops)))"

definition estimate_contention :: "int \<Rightarrow> int \<Rightarrow> rat" where
  "estimate_contention active ports =
     (if ports \<le> 0 then 0 else fdiv (max 0 (int_to_float (active - 1))) (int_to_float ports))"

definition estimate_total :: "noc_model \<Rightarrow> noc_transfer list \<Rightarrow> int result" where
  "estimate_total m ts =
     (if ts = [] then Inr 0
      else bind_res (map_result (\<lambda>t. noc_transfer_cycles m (nt_size_bytes t) (nt_src_id t) (nt_dst_id t)) ts) (\<lambda>individual.
        let base = Max (set individual); contention = estimate_contention (int (length ts)) (nm_ports m)
        in Inr (py_trunc (fmul (int_to_float base) (fadd 1 contention)))))"

section \<open>The KV cache\<close>

record kv_result =
  kr_hit :: bool
  kr_access_cycles :: int
  kr_sram_hit_rate :: rat

text \<open>\<open>max_sram_tokens\<close>, \<open>max_total_tokens\<close> and \<open>num_layers\<close> exist once the model is configured.\<close>

record kv_model =
  kv_sram_bytes :: int
  kv_dram_region_mb :: int
  kv_element_bits :: int
  kv_element_bytes :: int
  kv_random_penalty :: int
  kv_bw_bytes_per_cycle :: rat
  kv_plan :: "memory_access_plan option"
  kv_sram_access_cycles :: int
  kv_total_tokens :: int
  kv_sram_tokens :: int
  kv_per_layer_bytes :: int
  kv_max_sram_tokens :: "int option"
  kv_max_total_tokens :: "int option"
  kv_num_layers :: "int option"

definition kv_plan_bw :: "memory_access_plan option \<Rightarrow> rat \<Rightarrow> rat \<Rightarrow> rat \<Rightarrow> rat result" where
  "kv_plan_bw plan bw eff freq = (case plan of None \<Rightarrow> Inr bw
     | Some p \<Rightarrow> (case fastest_allocated_tier p ''kv'' of None \<Rightarrow> Inr bw
       | Some n \<Rightarrow> bind_res (get_tier (mp_hierarchy p) n) (\<lambda>t.
           bandwidth_gbps_to_bytes_per_cycle (fmul (mt_read_bw_gbps t) eff) freq)))"

definition kv_new :: "npu_config \<Rightarrow> memory_access_plan option \<Rightarrow> kv_model result" where
  "kv_new c plan = bind_res (need ''kv_cache'' (nc_kv_cache c)) (\<lambda>kv.
     bind_res (need ''sram_kb'' (map_of kv ''sram_kb'')) (\<lambda>sram_kb.
     bind_res (need ''dram_region_mb'' (map_of kv ''dram_region_mb'')) (\<lambda>region.
     bind_res (need ''precision_bits'' (map_of kv ''precision_bits'')) (\<lambda>bits.
     let eff = cfg_float (hc_memory c) ''dram_efficiency_random_bw'' 0.5;
         freq = cfg_float (mac_section c) ''frequency_mhz'' 1000;
         gbps = cfg_float (hc_memory c) ''bandwidth_gbps'' 51.2 in
     bind_res (bandwidth_gbps_to_bytes_per_cycle (fmul gbps eff) freq) (\<lambda>bw0.
     bind_res (kv_plan_bw plan bw0 eff freq) (\<lambda>bw.
     Inr \<lparr>kv_sram_bytes = py_trunc sram_kb * 1024, kv_dram_region_mb = py_trunc region,
          kv_element_bits = py_trunc bits, kv_element_bytes = py_trunc bits div 8,
          kv_random_penalty = cfg_int (hc_memory c) ''random_latency_penalty_cycles'' 40,
          kv_bw_bytes_per_cycle = bw, kv_plan = plan, kv_sram_access_cycles = 2, kv_total_tokens = 0,
          kv_sram_tokens = 0, kv_per_layer_bytes = 0, kv_max_sram_tokens = None, kv_max_total_tokens = None,
          kv_num_layers = None\<rparr>))))))"

definition configure_for_model :: "int \<Rightarrow> int \<Rightarrow> int \<Rightarrow> int \<Rightarrow> (kv_model, unit) op" where
  "configure_for_model heads head_dim layers max_context m =
     (let per_layer = heads * head_dim * 2 * kv_element_bytes m;
          m1 = m\<lparr>kv_per_layer_bytes := per_layer\<rparr> in
      case floor_div (kv_sram_bytes m) per_layer of Inl e \<Rightarrow> (Inl e, m1)
      | Inr tokens \<Rightarrow> (let m2 = m1\<lparr>kv_max_sram_tokens := Some tokens\<rparr> in
          case floor_div (kv_dram_region_mb m * 1024 * 1024) (per_layer * layers) of Inl e \<Rightarrow> (Inl e, m2)
          | Inr tot \<Rightarrow> (Inr (), m2\<lparr>kv_max_total_tokens := Some (min tot max_context), kv_num_layers := Some layers\<rparr>)))"

definition kv_access :: "kv_model \<Rightarrow> int \<Rightarrow> kv_result result" where
  "kv_access m pos =
     (if pos \<le> 0 then Inr \<lparr>kr_hit = True, kr_access_cycles = 0, kr_sram_hit_rate = 1\<rparr>
      else case kv_max_sram_tokens m of None \<Rightarrow> Inl (AttributeError ''max_sram_tokens'')
      | Some max_sram \<Rightarrow>
          let window = min max_sram pos; misses = max 0 (pos - window);
              per_token = (if 0 < kv_per_layer_bytes m then kv_per_layer_bytes m else 1) in
          if kv_bw_bytes_per_cycle m = 0 then Inl ZeroDivisionError
          else let per_miss = \<lceil>fdiv (int_to_float per_token) (kv_bw_bytes_per_cycle m)\<rceil> + kv_random_penalty m
            in Inr \<lparr>kr_hit = (misses = 0), kr_access_cycles = window * kv_sram_access_cycles m + misses * per_miss,
                    kr_sram_hit_rate = fdiv_int window pos\<rparr>)"

definition estimate_per_decode :: "kv_model \<Rightarrow> int \<Rightarrow> int result" where
  "estimate_per_decode m pos = bind_res (kv_access m pos) (\<lambda>r.
     Inr (if fl 0.85 \<le> kr_sram_hit_rate r then kv_sram_access_cycles m * 10
          else py_trunc (fmul (fmul (int_to_float (kr_access_cycles r)) (fsub 1 (kr_sram_hit_rate r))) (fl 0.1))))"

definition layer_switch_cost :: "kv_model \<Rightarrow> int result" where
  "layer_switch_cost m = (if kv_bw_bytes_per_cycle m = 0 then Inl ZeroDivisionError
     else Inr (py_trunc (fmul (fdiv (int_to_float (kv_sram_bytes m)) (kv_bw_bytes_per_cycle m)) (fl 0.3))))"

section \<open>The mesh\<close>

lemma ceil_sqrt_from_spec:
  "0 \<le> c \<Longrightarrow> (c = 0 \<or> (c - 1) * (c - 1) < n) \<Longrightarrow>
   (let s = ceil_sqrt_from c n in 0 \<le> s \<and> n \<le> s * s \<and> (s = 0 \<or> (s - 1) * (s - 1) < n))"
proof (induction c n rule: ceil_sqrt_from.induct)
  case (1 c n)
  show ?case
  proof (cases "n \<le> c * c")
    case True
    then show ?thesis using 1(2,3) by (subst ceil_sqrt_from.simps) (simp add: ceil_sqrt_from.simps[of c n] Let_def)
  next
    case False
    then show ?thesis using 1 by (simp add: ceil_sqrt_from.simps[of c n] Let_def)
  qed
qed

lemma ceil_sqrt_spec:
  "0 \<le> ceil_sqrt n \<and> n \<le> ceil_sqrt n * ceil_sqrt n \<and> (ceil_sqrt n = 0 \<or> (ceil_sqrt n - 1) * (ceil_sqrt n - 1) < n)"
  using ceil_sqrt_from_spec[of 0 n] by (simp add: ceil_sqrt_def Let_def)

lemma first_divisor_spec:
  "0 < c \<Longrightarrow> \<exists>d. first_divisor n c = Some d \<and> 0 < d \<and> d \<le> int c \<and> d dvd n
     \<and> (\<forall>e. d < e \<and> e \<le> int c \<longrightarrow> \<not> e dvd n)"
proof (induction c)
  case (Suc c)
  show ?case
  proof (cases "n mod int (Suc c) = 0")
    case True
    then show ?thesis by (auto simp: mod_eq_0_iff_dvd)
  next
    case False
    then have "0 < c" by (cases c) auto
    from Suc.IH[OF this] obtain d where d: "first_divisor n c = Some d" "0 < d" "d \<le> int c" "d dvd n"
      "\<forall>e. d < e \<and> e \<le> int c \<longrightarrow> \<not> e dvd n" by blast
    have "\<not> e dvd n" if "d < e" "e \<le> int (Suc c)" for e
      using that d(5) False by (cases "e = int (Suc c)") (auto simp: mod_eq_0_iff_dvd)
    then show ?thesis using d False by auto
  qed
qed simp

text \<open>The most square grid: no other factorisation has a longer short side.\<close>

lemma compute_dims_spec:
  assumes "0 < ports"
  shows "\<exists>r c. compute_dims ports = Inr (r, c) \<and> r * c = ports \<and> 1 \<le> r \<and> r \<le> c
    \<and> (\<forall>a b. a * b = ports \<and> 1 \<le> a \<and> a \<le> b \<longrightarrow> a \<le> r)"
proof -
  define l where "l = ceil_sqrt ports"
  have l: "0 < l" "ports \<le> l * l" "(l - 1) * (l - 1) < ports"
    using ceil_sqrt_spec[of ports] assms by (cases "ceil_sqrt ports = 0"; simp add: l_def)+
  obtain d where d: "first_divisor ports (nat l) = Some d" "0 < d" "d \<le> l" "d dvd ports"
    "\<forall>e. d < e \<and> e \<le> l \<longrightarrow> \<not> e dvd ports"
    using first_divisor_spec[of "nat l" ports] l(1) by auto
  define q where "q = ports div d"
  have q: "q * d = ports" using d(4) by (simp add: q_def)
  then have q0: "0 < q" using assms d(2) by (metis zero_less_mult_pos2)
  have "compute_dims ports = Inr (min q d, max q d)"
    using assms d(1) by (simp add: compute_dims_def Let_def q_def flip: l_def)
  moreover have "min q d * max q d = ports" using q by (auto simp: min_def max_def mult.commute)
  moreover have "a \<le> min q d" if ab: "a * b = ports" "1 \<le> a" "a \<le> b" for a b
  proof (rule ccontr)
    assume "\<not> a \<le> min q d"
    then consider "d < a" | "q < a" by linarith
    then show False
    proof cases
      case 1
      have "l < a" using 1 d(5) ab(1) by (metis dvd_triv_left not_le)
      then have "l * l < a * a" using l(1) by (intro mult_strict_mono) auto
      also have "\<dots> \<le> a * b" using ab by (intro mult_left_mono) auto
      finally show False using ab(1) l(2) by simp
    next
      case 2
      have "b < d"
      proof (rule ccontr)
        assume "\<not> b < d"
        then have "q * d < a * b" using 2 q0 d(2) ab by (intro mult_less_le_imp_less) auto
        then show False using q ab(1) by simp
      qed
      then have "a \<le> l - 1" "b \<le> l - 1" using ab(3) d(3) by linarith+
      then have "a * b \<le> (l - 1) * (l - 1)" using ab by (intro mult_mono) auto
      then show False using ab(1) l(3) by simp
    qed
  qed
  moreover have "1 \<le> min q d" "min q d \<le> max q d" using q0 d(2) by simp_all
  ultimately show ?thesis by blast
qed

text \<open>Distances on a grid.\<close>

lemma mesh_hops_eq:
  "nm_cols m \<noteq> 0 \<Longrightarrow> mesh_hops m a b = Inr (\<bar>a div nm_cols m - b div nm_cols m\<bar> + \<bar>a mod nm_cols m - b mod nm_cols m\<bar>)"
  by (simp add: mesh_hops_def node_coords_def)


definition mesh_config :: npu_config where
  "mesh_config = \<lparr>hc_sram = [(''l2_shared_kb'', 2048)], hc_on_chip_memory = [],
     hc_memory = [(''bandwidth_gbps'', 51.2)], hc_memory_type = None, nc_cores = None, nc_mac_engine = None,
     nc_mac_engine_type = None, nc_mxu = Some [(''frequency_mhz'', 1000)], nc_mxu_type = Some ''systolic'',
     nc_optimizations = [], nc_weight_cache = False, nc_descriptor_overhead = None, nc_gmma = [], nc_wmma = [],
     nc_sfu = Some [(''width'', 16)], nc_sfu_pipeline = [], nc_vector = [], nc_vector_ops = [],
     nc_kv_cache = Some [(''sram_kb'', 256), (''dram_region_mb'', 96), (''precision_bits'', 8)],
     nc_interconnect = Some [(''ports'', 12)], nc_interconnect_type = Some ''mesh'', nc_arbitration = None,
     nc_routing = None, nc_dma = None\<rparr>"


section \<open>The window of the KV cache\<close>

definition kv_ready :: "kv_model \<Rightarrow> int \<Rightarrow> bool" where
  "kv_ready m w \<longleftrightarrow> kv_max_sram_tokens m = Some w \<and> 0 \<le> w \<and> 0 < kv_bw_bytes_per_cycle m
     \<and> 0 \<le> kv_random_penalty m \<and> 0 \<le> kv_sram_access_cycles m"

lemma configure_ready:
  assumes "configure_for_model heads hd_dim layers ctx m = (Inr (), m')" and "0 < kv_bw_bytes_per_cycle m"
    and "0 \<le> kv_random_penalty m" and "kv_sram_access_cycles m = 2" and "0 \<le> kv_sram_bytes m"
    and "0 \<le> heads * hd_dim * 2 * kv_element_bytes m"
  shows "kv_ready m' (kv_sram_bytes m div (heads * hd_dim * 2 * kv_element_bytes m))"
  using assms by (auto simp: configure_for_model_def kv_ready_def Let_def floor_div_def div_int_pos_iff
      split: if_splits sum.splits)

definition per_miss_cost :: "kv_model \<Rightarrow> int" where
  "per_miss_cost m = \<lceil>fdiv (int_to_float (if 0 < kv_per_layer_bytes m then kv_per_layer_bytes m else 1))
      (kv_bw_bytes_per_cycle m)\<rceil> + kv_random_penalty m"

lemma per_miss_nonneg: "kv_ready m w \<Longrightarrow> 0 \<le> per_miss_cost m"
proof -
  assume r: "kv_ready m w"
  have "0 \<le> fdiv (int_to_float (if 0 < kv_per_layer_bytes m then kv_per_layer_bytes m else 1)) (kv_bw_bytes_per_cycle m)"
    using r by (intro fdiv_nonneg int_to_float_nonneg) (simp_all add: kv_ready_def)
  then have "0 \<le> \<lceil>fdiv (int_to_float (if 0 < kv_per_layer_bytes m then kv_per_layer_bytes m else 1)) (kv_bw_bytes_per_cycle m)\<rceil>"
    by linarith
  then show ?thesis using r by (simp add: per_miss_cost_def kv_ready_def)
qed

lemma kv_access_eq:
  assumes "kv_ready m w" and "0 < pos"
  shows "kv_access m pos = Inr \<lparr>kr_hit = (pos \<le> w),
     kr_access_cycles = min w pos * kv_sram_access_cycles m + max 0 (pos - w) * per_miss_cost m,
     kr_sram_hit_rate = fdiv_int (min w pos) pos\<rparr>"
proof -
  have "max 0 (pos - min w pos) = max 0 (pos - w)" "(max 0 (pos - w) = 0) = (pos \<le> w)" by auto
  then show ?thesis using assms by (simp add: kv_access_def kv_ready_def Let_def per_miss_cost_def)
qed

lemma hit_rate_bounds:
  assumes "0 \<le> (w :: int)" and "0 < pos"
  shows "0 \<le> fdiv_int (min w pos) pos \<and> fdiv_int (min w pos) pos \<le> 1 \<and> (pos \<le> w \<longrightarrow> fdiv_int (min w pos) pos = 1)"
proof -
  have "(of_int (min w pos) :: rat) / of_int pos \<le> 1" "0 \<le> (of_int (min w pos) :: rat) / of_int pos"
    using assms by (simp_all add: divide_le_eq)
  then show ?thesis
    using fl_mono[of "of_int (min w pos) / of_int pos" 1] assms by (auto simp: fdiv_int_def fl_nonneg)
qed


definition small_kv :: kv_model where
  "small_kv = \<lparr>kv_sram_bytes = 262144, kv_dram_region_mb = 96, kv_element_bits = 8, kv_element_bytes = 1,
     kv_random_penalty = 40, kv_bw_bytes_per_cycle = 25, kv_plan = None, kv_sram_access_cycles = 2,
     kv_total_tokens = 0, kv_sram_tokens = 0, kv_per_layer_bytes = 0, kv_max_sram_tokens = None,
     kv_max_total_tokens = None, kv_num_layers = None\<rparr>"


text \<open>An access before the model is configured is an attribute error; the amortised estimate is not monotone:
  a context within the window costs 20 cycles however short, more than reading its one token.\<close>

lemma unconfigured_kv_raises: "0 < pos \<Longrightarrow> kv_access small_kv pos = Inl (AttributeError ''max_sram_tokens'')"
  by (simp add: kv_access_def small_kv_def)

text \<open>More transfers than ports push the contention factor above 1.\<close>

lemma contention_exceeds_one: "1 < estimate_contention 10 4"
proof -
  have "fl (of_int 9 * 2 powi (-2)) = of_int 9 * (2 :: rat) powi (-2)" by (rule fl_representable) simp_all
  then show ?thesis
    by (simp add: estimate_contention_def int_to_float_def fl_numeral fdiv_def power_int_minus_divide)
qed

text \<open>Only the \<open>mxu\<close> section gives the DRAM model its frequency: a configuration that names its
  engine \<open>mac_engine\<close>, as the other models accept, has none.\<close>

lemma dram_needs_mxu: "nc_mxu c = None \<Longrightarrow> dram_new c = Inl (KeyError ''mxu'')"
  by (simp add: dram_new_def need_def)

text \<open>One layer of special functions costs what its parts cost.\<close>

lemma all_layer_total:
  "estimate_all_layer m h i a r = Inr (t, b) \<Longrightarrow> t = sum_list (map snd b)"
  by (auto simp: estimate_all_layer_def bind_res_Inr_iff Let_def)

end
