(* ===== verification/Hw_Engine.thy ===== *)
theory Hw_Engine
  imports Hw_Config
begin

text \<open>
  The matrix engines. This theory holds their common part, \<open>sim/engine/mac_engine.py\<close>: the result
  record with its checks, the configuration they parse, the bandwidth that the memory plan gives
  them, and the DMA times; and the arithmetic several engines write out alike. \<open>Hw_Engine_Kinds\<close> has
  the eight engines. A value that is an int on one path and a float on another is a \<open>pynum\<close>. The
  \<open>details\<close> dictionary of a result, which nothing computes with, is left out, and so are the checks
  for NaN and infinity, as floats are finite here.
\<close>

section \<open>Results\<close>

record engine_result =
  er_compute_cycles :: int
  er_dma_cycles :: int
  er_total_cycles :: int
  er_utilization :: rat
  er_mac_count :: int
  er_op_count :: int
  er_num_tiles :: int
  er_weight_bytes :: int
  er_bottleneck :: string
  er_stall_cycles_dram :: int
  er_stall_cycles_sram :: int
  er_ideal_compute_cycles :: int
  er_raw_dma_cycles :: int

definition engine_result_new :: "engine_result \<Rightarrow> engine_result result" where
  "engine_result_new r =
     (if er_total_cycles r < 0 then Inl (ValueError ''total_cycles'')
      else if er_compute_cycles r < 0 then Inl (ValueError ''compute_cycles'')
      else if er_dma_cycles r < 0 then Inl (ValueError ''dma_cycles'')
      else if er_ideal_compute_cycles r < 0 then Inl (ValueError ''ideal_compute_cycles'')
      else if er_raw_dma_cycles r < 0 then Inl (ValueError ''raw_dma_cycles'')
      else if er_mac_count r \<le> 0 then Inl (ValueError ''mac_count'')
      else if er_op_count r \<le> 0 then Inl (ValueError ''op_count'')
      else Inr r)"

section \<open>The engine\<close>

datatype engine_kind = Systolic | OsSystolic | Block | TensorCore | Wmma | Gmma | InputStationary | Fsa

record mac_engine =
  me_kind :: engine_kind
  me_H :: int
  me_W :: int
  me_f_mhz :: int
  me_w_bits :: int
  me_a_bits :: int
  me_ops_per_mac :: int
  me_bw_raw :: rat
  me_dram_efficiency :: rat
  me_dram_efficiency_random_bw :: rat
  me_random_penalty :: int
  me_bw_multiplier :: rat
  me_eff_bw_weight :: rat
  me_eff_bw_kv :: rat
  me_eff_bw :: rat
  me_l2_sram_kb :: int
  me_wbuf_kb :: int
  me_kvbuf_kb :: int
  me_on_chip_capacity_gb :: rat
  me_on_chip_bw :: rat
  me_descriptor_overhead :: int
  me_pipeline_scale :: rat
  me_fragment_serialization :: int
  me_softmax_overhead :: int
  me_area_overhead :: rat
  me_plan :: "memory_access_plan option"

definition parse_common :: "engine_kind \<Rightarrow> npu_config \<Rightarrow> mac_engine result" where
  "parse_common kind c = (let mac = mac_section c; mem = hc_memory c; f = cfg_int mac ''frequency_mhz'' 1000 in
     bind_res (bandwidth_gbps_to_bytes_per_cycle (cfg_float mem ''bandwidth_gbps'' 51.2) (int_to_float f)) (\<lambda>bw.
     let eff = cfg_float mem ''dram_efficiency'' 0.9; eff_random = cfg_float mem ''dram_efficiency_random_bw'' 0.5;
         mult = cfg_float (nc_optimizations c) ''dma_bw_multiplier'' 1;
         weight_bw = fmul (fmul bw eff) mult; l2 = cfg_int (hc_sram c) ''l2_shared_kb'' 2048 in
     Inr \<lparr>me_kind = kind, me_H = cfg_int mac ''array_height'' 128, me_W = cfg_int mac ''array_width'' 128, me_f_mhz = f,
          me_w_bits = cfg_int mac ''weight_precision_bits'' 4, me_a_bits = cfg_int mac ''activation_precision_bits'' 8,
          me_ops_per_mac = cfg_int mac ''ops_per_mac'' 2, me_bw_raw = bw, me_dram_efficiency = eff,
          me_dram_efficiency_random_bw = eff_random,
          me_random_penalty = cfg_int mem ''random_latency_penalty_cycles'' 40, me_bw_multiplier = mult,
          me_eff_bw_weight = weight_bw, me_eff_bw_kv = fmul (fmul bw eff_random) mult, me_eff_bw = weight_bw,
          me_l2_sram_kb = l2, me_wbuf_kb = py_trunc (fmul (int_to_float l2) (fl 0.6)),
          me_kvbuf_kb = py_trunc (fmul (int_to_float l2) (fl 0.4)),
          me_on_chip_capacity_gb = cfg_float (hc_on_chip_memory c) ''capacity_gb'' 0,
          me_on_chip_bw = cfg_float (hc_on_chip_memory c) ''bandwidth_gbps'' 0,
          me_descriptor_overhead = 0, me_pipeline_scale = 0, me_fragment_serialization = 0, me_softmax_overhead = 0,
          me_area_overhead = 0, me_plan = None\<rparr>))"

text \<open>The parameters of one kind of engine; the others keep the value 0 and are not read.\<close>

definition parse_kind :: "npu_config \<Rightarrow> mac_engine \<Rightarrow> mac_engine result" where
  "parse_kind c e = (case me_kind e of
     TensorCore \<Rightarrow> (case or_default (nc_descriptor_overhead c) (PyInt 5) of
         PyFloat _ \<Rightarrow> Inl (ValueError ''dma.descriptor_overhead_cycles'')
       | PyInt n \<Rightarrow> if n < 0 then Inl (ValueError ''dma.descriptor_overhead_cycles'')
           else Inr (e\<lparr>me_descriptor_overhead := n\<rparr>))
   | Gmma \<Rightarrow> (let scale = cfg_float (nc_gmma c) ''pipeline_scale'' 0.05 in
       if 0 < scale \<and> scale \<le> 1 then Inr (e\<lparr>me_pipeline_scale := scale\<rparr>)
       else Inl (ValueError ''gmma.pipeline_scale''))
   | Wmma \<Rightarrow> (let ser = cfg_int (nc_wmma c) ''fragment_serialization_cycles'' 1600 in
       if ser < 0 then Inl (ValueError ''wmma.fragment_serialization_cycles'')
       else Inr (e\<lparr>me_fragment_serialization := ser\<rparr>))
   | Fsa \<Rightarrow> Inr (e\<lparr>me_softmax_overhead := cfg_int (mac_section c) ''fsa_softmax_overhead'' 5,
                  me_area_overhead := cfg_float (mac_section c) ''fsa_area_overhead_pct'' 12\<rparr>)
   | _ \<Rightarrow> Inr e)"

definition parse_config :: "engine_kind \<Rightarrow> npu_config \<Rightarrow> mac_engine result" where
  "parse_config kind c = bind_res (parse_common kind c) (parse_kind c)"

definition dram_weight_bw :: "mac_engine \<Rightarrow> rat" where
  "dram_weight_bw e = fmul (fmul (me_bw_raw e) (me_dram_efficiency e)) (me_bw_multiplier e)"

definition set_weight_bw :: "rat \<Rightarrow> mac_engine \<Rightarrow> mac_engine" where
  "set_weight_bw bw e = e\<lparr>me_eff_bw_weight := bw, me_eff_bw := bw\<rparr>"

definition apply_memory_plan :: "mac_engine \<Rightarrow> mac_engine result" where
  "apply_memory_plan e = (case me_plan e of None \<Rightarrow> Inr e | Some plan \<Rightarrow>
     (case (if spill_bytes_for_category plan ''weight'' = 0 then fastest_allocated_tier plan ''weight'' else None) of
        Some n \<Rightarrow> bind_res (get_tier (mp_hierarchy plan) n) (\<lambda>tier.
          bind_res (bandwidth_gbps_to_bytes_per_cycle (effective_read_bw_gbps tier) (int_to_float (me_f_mhz e))) (\<lambda>bw.
          Inr (set_weight_bw bw e)))
      | None \<Rightarrow> Inr (set_weight_bw (dram_weight_bw e) e)))"

definition empty_graph :: workload_graph where
  "empty_graph = \<lparr>wg_version = ''1'', wg_graph_name = ''unnamed'', wg_nodes = [], wg_tensors = [], wg_symbols = []\<rparr>"

definition mac_engine_new :: "(memory_access_plan \<Rightarrow> string) \<Rightarrow> engine_kind \<Rightarrow> npu_config
    \<Rightarrow> workload_graph option \<Rightarrow> memory_access_plan option \<Rightarrow> mac_engine result" where
  "mac_engine_new digest kind c graph plan = bind_res (parse_config kind c) (\<lambda>e.
     bind_res (case plan of Some p \<Rightarrow> Inr p
        | None \<Rightarrow> bind_res (build_hierarchy_from_config (hierarchy_config.truncate c)) (\<lambda>h.
            build_memory_access_plan digest (or_default graph empty_graph) h 1 [] True)) (\<lambda>p.
     apply_memory_plan (e\<lparr>me_plan := Some p\<rparr>)))"

section \<open>DMA times\<close>

text \<open>\<open>0.55 + 0.40 * ratio / (0.3 + ratio)\<close>\<close>

definition buffer_efficiency :: "rat \<Rightarrow> rat result" where
  "buffer_efficiency ratio = (let d = fadd (fl 0.3) ratio in
     if d = 0 then Inl ZeroDivisionError else Inr (fadd (fl 0.55) (fdiv (fmul (fl 0.4) ratio) d)))"

definition dram_eff_for_bytes :: "mac_engine \<Rightarrow> int \<Rightarrow> rat result" where
  "dram_eff_for_bytes e n =
     (if n \<le> 0 then Inr 1
      else let wbuf_mb = fdiv_int (me_wbuf_kb e) 1024; weight_mb = fdiv_int n (1024 * 1024) in
        if weight_mb \<le> wbuf_mb then Inr 0 else buffer_efficiency (fdiv wbuf_mb weight_mb))"

definition kv_dram_efficiency :: "mac_engine \<Rightarrow> int \<Rightarrow> rat result" where
  "kv_dram_efficiency e n =
     (if n \<le> 0 then Inr 1
      else let kvbuf_mb = fdiv_int (me_kvbuf_kb e) 1024; kv_mb = fdiv_int n (1024 * 1024) in
        buffer_efficiency (fdiv kvbuf_mb (max kv_mb (fl 0.001))))"

definition kv_eff_bw :: "mac_engine \<Rightarrow> int \<Rightarrow> rat result" where
  "kv_eff_bw e n = bind_res (kv_dram_efficiency e n) (\<lambda>eff. Inr (fmul (me_eff_bw_kv e) eff))"

definition seq_dma_cycles :: "mac_engine \<Rightarrow> int \<Rightarrow> rat" where
  "seq_dma_cycles e n = (if n \<le> 0 then 0
     else if 0 < me_eff_bw_weight e then fdiv (int_to_float n) (me_eff_bw_weight e) else 0)"

definition dma_cycles :: "mac_engine \<Rightarrow> int \<Rightarrow> access_type \<Rightarrow> int \<Rightarrow> bool \<Rightarrow> rat result" where
  "dma_cycles e n acc kv_bytes is_hit =
     (if n \<le> 0 then Inr 0
      else if acc = RANDOM then bind_res (kv_eff_bw e kv_bytes) (\<lambda>bw.
        let penalty = (if is_hit then 0 else me_random_penalty e) in
        Inr (if 0 < bw then fadd (fdiv (int_to_float n) bw) (int_to_float penalty) else 0))
      else Inr (seq_dma_cycles e n))"

definition peak_macs_per_cycle :: "mac_engine \<Rightarrow> int" where
  "peak_macs_per_cycle e = me_H e * me_W e * me_ops_per_mac e"

section \<open>Arithmetic the engines share\<close>

text \<open>\<open>math.ceil(n / 8)\<close> for a number of bits, and the unpadded bytes of the two operands\<close>

definition bits_to_bytes :: "int \<Rightarrow> int" where
  "bits_to_bytes n = \<lceil>fdiv_int n 8\<rceil>"

definition raw_bytes :: "mac_engine \<Rightarrow> int \<Rightarrow> int \<Rightarrow> int \<Rightarrow> int" where
  "raw_bytes e m k n = k * n * me_w_bits e div 8 + m * k * me_a_bits e div 8"

definition raw_cycles :: "rat \<Rightarrow> int \<Rightarrow> int" where
  "raw_cycles bw n = (if 0 < bw then \<lceil>fdiv (int_to_float n) bw\<rceil> else 0)"

text \<open>\<open>ideal / total if total > 0 else 0.0\<close>\<close>

definition utilization :: "int \<Rightarrow> pynum \<Rightarrow> rat" where
  "utilization ideal cycles = (if 0 < num_val cycles
     then (case cycles of PyInt n \<Rightarrow> fdiv_int ideal n | PyFloat x \<Rightarrow> fdiv (int_to_float ideal) x) else 0)"

text \<open>A cold first tile, and then per tile the slower of computing and loading\<close>

definition pipelined :: "int \<Rightarrow> rat \<Rightarrow> int \<Rightarrow> pynum" where
  "pipelined tiles dma compute =
     (let bottleneck = num_max (PyInt compute) (PyFloat dma); first_cold = num_add (PyFloat dma) (PyInt compute)
      in if 1 < tiles then num_add first_cold (num_mul (PyInt (tiles - 1)) bottleneck) else first_cold)"

text \<open>\<open>0 if eff <= 0 else bytes / (eff_bw_weight * eff)\<close>\<close>

definition weight_dma :: "mac_engine \<Rightarrow> int \<Rightarrow> pynum result" where
  "weight_dma e n = bind_res (dram_eff_for_bytes e n) (\<lambda>eff.
     if eff \<le> 0 then Inr (PyInt 0)
     else bind_res (true_div (PyInt n) (PyFloat (fmul (me_eff_bw_weight e) eff))) (\<lambda>x. Inr (PyFloat x)))"

definition result_record :: "int \<Rightarrow> int \<Rightarrow> int \<Rightarrow> rat \<Rightarrow> int \<Rightarrow> int \<Rightarrow> int \<Rightarrow> int \<Rightarrow> int \<Rightarrow> bool \<Rightarrow> engine_result result" where
  "result_record compute dma cycles util macs ideal raw tiles weight_bytes compute_bound = engine_result_new
     \<lparr>er_compute_cycles = compute, er_dma_cycles = dma, er_total_cycles = cycles, er_utilization = util,
      er_mac_count = macs, er_op_count = macs * 2, er_num_tiles = tiles, er_weight_bytes = weight_bytes,
      er_bottleneck = (if compute_bound then ''compute'' else ''dma''), er_stall_cycles_dram = 0,
      er_stall_cycles_sram = 0, er_ideal_compute_cycles = ideal, er_raw_dma_cycles = raw\<rparr>"

end
