(* ===== verification/Hw_Engine_Kinds.thy ===== *)
theory Hw_Engine_Kinds
  imports Hw_Engine
begin

text \<open>
  The eight matrix engines of \<open>sim/engine\<close>, each with \<open>estimate\<close> for one matrix product and
  \<open>estimate_weight_cache_pair\<close> for a gate and an up projection that share their activations, the
  attention estimate of the FSA engine, and the registry that makes an engine from its name.
\<close>

section \<open>Weight-stationary systolic array\<close>

definition per_ktile_compute :: "mac_engine \<Rightarrow> int \<Rightarrow> int result" where
  "per_ktile_compute e m = bind_res (floor_div (m + me_H e - 1) (me_H e)) (\<lambda>q.
     let tiles = max 1 q; last = m - (tiles - 1) * me_H e; rows = (if last \<le> 0 then me_H e else last)
     in Inr ((tiles - 1) * (2 * me_H e + me_W e) + (me_H e + me_W e + rows)))"

definition systolic_estimate :: "mac_engine \<Rightarrow> int \<Rightarrow> int \<Rightarrow> int \<Rightarrow> engine_result result" where
  "systolic_estimate e m k n =
     (if m \<le> 0 then Inl (ValueError ''SystolicEngine.estimate requires M > 0'')
      else bind_res (ceil_div k (me_H e)) (\<lambda>k_tiles. bind_res (ceil_div n (me_W e)) (\<lambda>n_tiles.
        let tiles = k_tiles * n_tiles; weight = bits_to_bytes (me_H e * me_W e * me_w_bits e);
            act = bits_to_bytes (m * me_H e * me_a_bits e) in
        bind_res (per_ktile_compute e m) (\<lambda>compute.
        let dma = seq_dma_cycles e (weight + act); cycles = pipelined tiles dma compute; macs = m * k * n in
        bind_res (ceil_div macs (peak_macs_per_cycle e)) (\<lambda>ideal.
        let sum = num_trunc cycles in
        result_record (compute * tiles) (sum - compute * tiles) sum (utilization ideal cycles) macs ideal
          (raw_cycles (me_eff_bw e) (raw_bytes e m k n)) tiles (tiles * (weight + act)) (dma < of_int compute))))))"

definition pair_per_ktile :: "int \<Rightarrow> rat \<Rightarrow> int \<Rightarrow> int \<Rightarrow> int \<Rightarrow> pynum" where
  "pair_per_ktile n_tiles dma compute fill drain =
     (let bottleneck = num_max (PyFloat dma) (PyInt compute); first_cold = num_add (PyFloat dma) (PyInt compute) in
      if 2 \<le> n_tiles
      then num_add (num_add (num_add (PyInt fill) first_cold) (num_mul (PyInt (n_tiles - 1)) bottleneck)) (PyInt drain)
      else num_add (num_add (PyInt fill) first_cold) (PyInt drain))"

definition systolic_pair :: "mac_engine \<Rightarrow> int \<Rightarrow> int \<Rightarrow> int \<Rightarrow> engine_result result" where
  "systolic_pair e m k n = bind_res (ceil_div k (me_H e)) (\<lambda>k_tiles. bind_res (ceil_div n (me_W e)) (\<lambda>n_tiles.
     let tiles = k_tiles * n_tiles; weight = 2 * bits_to_bytes (me_H e * me_W e * me_w_bits e);
         act = bits_to_bytes (m * me_H e * me_a_bits e); dma = seq_dma_cycles e (weight + act);
         compute = 2 * (m + me_W e) + 1; fill = me_H e + me_W e; drain = m + me_H e;
         sum = num_trunc (num_mul (PyInt k_tiles) (pair_per_ktile n_tiles dma compute fill drain)); macs = m * k * n * 2 in
     bind_res (ceil_div macs (peak_macs_per_cycle e)) (\<lambda>ideal.
     result_record (compute * tiles) (sum - compute * tiles) sum (utilization ideal (PyInt sum)) macs ideal
       (raw_cycles (me_eff_bw e) (raw_bytes e m k n * 2)) tiles (tiles * (weight + act)) (dma < of_int compute))))"

section \<open>Block engine\<close>

definition broadcast_sync_cycles :: int where "broadcast_sync_cycles = 2"

definition accumulate_cycles :: "int \<Rightarrow> int \<Rightarrow> int" where
  "accumulate_cycles w_bits a_bits = max 1 (min 3 ((w_bits + a_bits) div 8 + 1))"

definition block_estimate :: "mac_engine \<Rightarrow> int \<Rightarrow> int \<Rightarrow> int \<Rightarrow> engine_result result" where
  "block_estimate e m k n = bind_res (ceil_div n (me_W e)) (\<lambda>n_tiles. bind_res (ceil_div m (me_H e)) (\<lambda>m_tiles.
     bind_res (ceil_div k (me_H e)) (\<lambda>k_tiles.
     let tiles = k_tiles * n_tiles; weight_bytes = k * n * me_w_bits e div 8; macs = m * k * n in
     bind_res (weight_dma e weight_bytes) (\<lambda>weight.
     let act = num_mul (PyInt m) (PyFloat (seq_dma_cycles e (k * me_a_bits e div 8)));
         dma = num_add (num_mul (PyInt m_tiles) weight) act;
         per_tile = me_H e + broadcast_sync_cycles + accumulate_cycles (me_w_bits e) (me_a_bits e);
         compute = m * per_tile * tiles; cycles = num_max (PyInt compute) dma in
     bind_res (ceil_div macs (peak_macs_per_cycle e)) (\<lambda>ideal.
     result_record compute (num_trunc dma) (num_trunc cycles) (utilization ideal cycles) macs ideal
       (raw_cycles (me_eff_bw e) (raw_bytes e m k n)) (m * tiles) weight_bytes
       (num_val dma \<le> of_int compute))))))"

definition block_pair :: "mac_engine \<Rightarrow> int \<Rightarrow> int \<Rightarrow> int \<Rightarrow> engine_result result" where
  "block_pair e m k n = bind_res (ceil_div m (me_H e)) (\<lambda>m_tiles. bind_res (ceil_div k (me_H e)) (\<lambda>k_tiles.
     bind_res (ceil_div n (me_W e)) (\<lambda>n_tiles.
     let tiles = k_tiles * n_tiles; weight_bytes = tiles * (2 * bits_to_bytes (me_H e * me_W e * me_w_bits e));
         act_bytes = tiles * bits_to_bytes (me_H e * me_a_bits e);
         dma = num_add (num_mul (PyInt m_tiles) (PyFloat (seq_dma_cycles e weight_bytes)))
                 (num_mul (PyInt m) (PyFloat (seq_dma_cycles e act_bytes)));
         per_tile = 2 * (broadcast_sync_cycles + accumulate_cycles (me_w_bits e) (me_a_bits e));
         compute = m * per_tile * tiles; cycles = num_max (PyInt compute) dma; macs = m * k * n * 2 in
     bind_res (ceil_div macs (peak_macs_per_cycle e)) (\<lambda>ideal.
     result_record compute (num_trunc dma) (num_trunc cycles) (utilization ideal cycles) macs ideal
       (raw_cycles (me_eff_bw e) (raw_bytes e m k n * 2)) (m * tiles) weight_bytes
       (num_val dma \<le> of_int compute)))))"

section \<open>Output-stationary systolic array\<close>

definition last_part :: "int \<Rightarrow> int \<Rightarrow> int \<Rightarrow> int" where
  "last_part x parts part = (let last = x - (parts - 1) * part in if last \<le> 0 then part else last)"

definition os_estimate :: "mac_engine \<Rightarrow> int \<Rightarrow> int \<Rightarrow> int \<Rightarrow> engine_result result" where
  "os_estimate e m k n = bind_res (ceil_div k (me_H e)) (\<lambda>k_tiles. bind_res (ceil_div n (me_W e)) (\<lambda>n_tiles.
     bind_res (ceil_div m (me_H e)) (\<lambda>m_tiles.
     let tiles = k_tiles * n_tiles; last_rows = last_part m m_tiles (me_H e);
         weight_bytes = k * n * me_w_bits e div 8 in
     bind_res (weight_dma e weight_bytes) (\<lambda>weight.
     let dma = num_add weight (PyFloat (seq_dma_cycles e (m * k * me_a_bits e div 8)));
         floor_cycles = raw_cycles (me_bw_raw e) (raw_bytes e m k n);
         accum = accumulate_cycles (me_w_bits e) (me_a_bits e);
         per_tile = (m_tiles - 1) * (me_H e + broadcast_sync_cycles + accum) + (last_rows + broadcast_sync_cycles + accum);
         compute = per_tile * tiles; macs = m * k * n in
     bind_res (ceil_div macs (peak_macs_per_cycle e)) (\<lambda>ideal.
     let cycles = max (max compute ideal) floor_cycles in
     result_record compute compute cycles (utilization ideal (PyInt cycles)) macs ideal floor_cycles tiles weight_bytes
       (num_val dma \<le> of_int compute))))))"

definition os_pair :: "mac_engine \<Rightarrow> int \<Rightarrow> int \<Rightarrow> int \<Rightarrow> engine_result result" where
  "os_pair e m k n = bind_res (ceil_div k (me_H e)) (\<lambda>k_tiles. bind_res (ceil_div n (me_W e)) (\<lambda>n_tiles.
     let tiles = k_tiles * n_tiles; weight_bytes = 2 * k * n * me_w_bits e div 8 in
     bind_res (weight_dma e weight_bytes) (\<lambda>weight.
     let dma = num_add weight (PyFloat (seq_dma_cycles e (m * k * me_a_bits e div 8)));
         raw = num_trunc dma;
         per_tile = 2 * (me_H e + broadcast_sync_cycles + accumulate_cycles (me_w_bits e) (me_a_bits e));
         compute = per_tile * tiles; cycles = max compute raw; macs = m * k * n * 2 in
     bind_res (ceil_div macs (peak_macs_per_cycle e)) (\<lambda>ideal.
     result_record compute raw cycles (utilization ideal (PyInt cycles)) macs ideal raw tiles weight_bytes
       (num_val dma \<le> of_int compute)))))"

section \<open>Input-stationary systolic array\<close>

text \<open>\<open>factor\<close> is 1 for a single product and 2 for a pair.\<close>

definition is_cycles :: "mac_engine \<Rightarrow> int \<Rightarrow> int \<Rightarrow> int \<Rightarrow> int \<Rightarrow> engine_result result" where
  "is_cycles e factor m k n = bind_res (ceil_div m (me_H e)) (\<lambda>m_tiles. bind_res (ceil_div n (me_W e)) (\<lambda>n_tiles.
     bind_res (ceil_div k (me_H e)) (\<lambda>k_tiles.
     let tiles = m_tiles * n_tiles; compute = factor * (k_tiles + me_H e + me_W e);
         weight = bits_to_bytes (k * min n (me_W e) * me_w_bits e); act = bits_to_bytes (me_H e * k * me_a_bits e);
         dma = seq_dma_cycles e (factor * weight + act); sum = num_trunc (pipelined tiles dma compute);
         macs = m * k * n * factor in
     bind_res (ceil_div macs (peak_macs_per_cycle e)) (\<lambda>ideal.
     result_record (compute * tiles) (sum - compute * tiles) sum (utilization ideal (PyInt sum)) macs ideal
       (raw_cycles (me_eff_bw e) (raw_bytes e m k n * factor)) tiles (tiles * (factor * weight + act))
       (dma < of_int compute)))))"

definition is_estimate :: "mac_engine \<Rightarrow> int \<Rightarrow> int \<Rightarrow> int \<Rightarrow> engine_result result" where
  "is_estimate e = is_cycles e 1"

definition is_pair :: "mac_engine \<Rightarrow> int \<Rightarrow> int \<Rightarrow> int \<Rightarrow> engine_result result" where
  "is_pair e = is_cycles e 2"

section \<open>Warp matrix engine\<close>

definition per_fragment_compute :: "mac_engine \<Rightarrow> int \<Rightarrow> int" where
  "per_fragment_compute e ops = (me_fragment_serialization e + 32 + 16) * ops"

text \<open>Fragments per tile and tiles\<close>

definition fragment_counts :: "mac_engine \<Rightarrow> int \<Rightarrow> int \<Rightarrow> int \<Rightarrow> (int \<times> int) result" where
  "fragment_counts e m k n = (let fragments = \<lceil>fdiv_int m 16\<rceil> * \<lceil>fdiv_int k 16\<rceil> * \<lceil>fdiv_int n 16\<rceil> in
     bind_res (ceil_div k (me_H e)) (\<lambda>k_tiles. bind_res (ceil_div n (me_W e)) (\<lambda>n_tiles.
     bind_res (ceil_div m (me_H e)) (\<lambda>m_tiles.
     let tiles = m_tiles * k_tiles * n_tiles in Inr (if tiles \<noteq> 0 then fragments div tiles else 0, tiles)))))"

definition wmma_cycles :: "mac_engine \<Rightarrow> int \<Rightarrow> int \<Rightarrow> int \<Rightarrow> int \<Rightarrow> int \<Rightarrow> engine_result result" where
  "wmma_cycles e weights ops m k n = bind_res (fragment_counts e m k n) (\<lambda>(fragments, tiles).
     let weight = weights * bits_to_bytes (me_H e * me_W e * me_w_bits e); act = bits_to_bytes (m * me_H e * me_a_bits e);
         dma = fadd (int_to_float (fragments * 10)) (seq_dma_cycles e (weight + act));
         compute = fragments * per_fragment_compute e ops in
     if me_eff_bw_weight e = 0 then Inl ZeroDivisionError
     else let sum = num_trunc (pipelined tiles dma compute); macs = m * k * n * ops in
     bind_res (ceil_div macs (peak_macs_per_cycle e)) (\<lambda>ideal.
     result_record (compute * tiles) (sum - compute * tiles) sum (utilization ideal (PyInt sum)) macs ideal
       (raw_cycles (me_eff_bw e) (raw_bytes e m k n)) tiles (tiles * (weight + act)) (dma < of_int compute)))"

definition wmma_estimate :: "mac_engine \<Rightarrow> int \<Rightarrow> int \<Rightarrow> int \<Rightarrow> engine_result result" where
  "wmma_estimate e = wmma_cycles e 1 1"

definition wmma_pair :: "mac_engine \<Rightarrow> int \<Rightarrow> int \<Rightarrow> int \<Rightarrow> engine_result result" where
  "wmma_pair e = wmma_cycles e 2 2"

section \<open>Group matrix engine\<close>

definition gmma_tile_compute :: "mac_engine \<Rightarrow> int \<Rightarrow> int" where
  "gmma_tile_compute e m = max 1 \<lceil>fmul (int_to_float (me_H e + m + me_W e)) (me_pipeline_scale e)\<rceil>"

definition gmma_estimate :: "mac_engine \<Rightarrow> int \<Rightarrow> int \<Rightarrow> int \<Rightarrow> engine_result result" where
  "gmma_estimate e m k n = bind_res (ceil_div k (me_H e)) (\<lambda>k_tiles. bind_res (ceil_div n (me_W e)) (\<lambda>n_tiles.
     let tiles = k_tiles * n_tiles; weight_bytes = k * n * me_w_bits e div 8 in
     bind_res (weight_dma e weight_bytes) (\<lambda>weight.
     let dma = num_add weight (PyFloat (seq_dma_cycles e (m * k * me_a_bits e div 8)));
         compute = gmma_tile_compute e m * tiles; floor_cycles = raw_cycles (me_bw_raw e) (raw_bytes e m k n);
         macs = m * k * n in
     bind_res (ceil_div macs (peak_macs_per_cycle e)) (\<lambda>ideal.
     let cycles = max (max (max compute ideal) floor_cycles) (num_ceil dma) in
     result_record compute (num_ceil dma) cycles (utilization ideal (PyInt cycles)) macs ideal floor_cycles tiles
       weight_bytes (num_val dma \<le> of_int compute)))))"

definition gmma_pair :: "mac_engine \<Rightarrow> int \<Rightarrow> int \<Rightarrow> int \<Rightarrow> engine_result result" where
  "gmma_pair e m k n = bind_res (ceil_div k (me_H e)) (\<lambda>k_tiles. bind_res (ceil_div n (me_W e)) (\<lambda>n_tiles.
     let tiles = k_tiles * n_tiles; weight = 2 * bits_to_bytes (me_H e * me_W e * me_w_bits e);
         act = bits_to_bytes (m * me_H e * me_a_bits e); dma = seq_dma_cycles e (weight + act);
         compute = 2 * gmma_tile_compute e m; sum = num_trunc (pipelined tiles dma compute); macs = m * k * n * 2 in
     bind_res (ceil_div macs (peak_macs_per_cycle e)) (\<lambda>ideal.
     let floor_cycles = raw_cycles (me_bw_raw e) (raw_bytes e m k n * 2);
         dma_sum = num_ceil (num_mul (PyInt tiles) (PyFloat dma));
         cycles = max (max (max sum ideal) floor_cycles) dma_sum in
     result_record (compute * tiles) dma_sum cycles (utilization ideal (PyInt cycles)) macs ideal floor_cycles tiles
       (tiles * (weight + act)) (dma \<le> of_int compute))))"

section \<open>Tensor cores\<close>

definition num_tcs :: "mac_engine \<Rightarrow> int" where
  "num_tcs e = me_H e * me_W e div 256"

definition per_subtile_compute :: int where "per_subtile_compute = 84"

text \<open>The bytes of weights and activations of invocation \<open>i\<close>, of the last wave the ragged ones count less.\<close>

definition subtile_bytes :: "mac_engine \<Rightarrow> int \<Rightarrow> int \<Rightarrow> int \<Rightarrow> int \<Rightarrow> int \<Rightarrow> int \<Rightarrow> int \<Rightarrow> int \<times> int" where
  "subtile_bytes e sub_m sub_k sub_n last_m last_k last_n i =
     (let n_idx = i mod sub_n; k_idx = (i div sub_n) mod sub_k; m_idx = i div (sub_n * sub_k);
          m_eff = (if m_idx = sub_m - 1 then last_m else 16); k_eff = (if k_idx = sub_k - 1 then last_k else 64);
          n_eff = (if n_idx = sub_n - 1 then last_n else 16)
      in (bits_to_bytes (k_eff * n_eff * me_w_bits e), bits_to_bytes (m_eff * k_eff * me_a_bits e)))"

text \<open>The cycles of all waves: a cold first one, full ones, and a last one that may be partial\<close>

definition tc_total :: "int \<Rightarrow> bool \<Rightarrow> int \<Rightarrow> rat \<Rightarrow> rat \<Rightarrow> pynum" where
  "tc_total waves full compute dma last_dma =
     (if waves = 1 then num_add (PyFloat last_dma) (PyInt compute)
      else let bottleneck = num_max (PyInt compute) (PyFloat dma); cold = num_add (PyFloat dma) (PyInt compute) in
        if full then num_add cold (num_mul (PyInt (waves - 1)) bottleneck)
        else num_add (num_add cold (num_mul (PyInt (waves - 2)) bottleneck)) (num_max (PyInt compute) (PyFloat last_dma)))"

definition tc_cycles :: "mac_engine \<Rightarrow> int \<Rightarrow> int \<Rightarrow> int \<Rightarrow> int \<Rightarrow> engine_result result" where
  "tc_cycles e factor m k n =
     (let sub_k = \<lceil>fdiv_int k 64\<rceil>; sub_m = \<lceil>fdiv_int m 16\<rceil>; sub_n = \<lceil>fdiv_int n 16\<rceil>;
          invocations = sub_k * sub_m * sub_n; last_k = last_part k sub_k 64; last_m = last_part m sub_m 16;
          last_n = last_part n sub_n 16; weight = bits_to_bytes (64 * 16 * me_w_bits e);
          act = bits_to_bytes (16 * 64 * me_a_bits e); payload = seq_dma_cycles e (factor * weight + act);
          tcs = num_tcs e in
      bind_res (ceil_div invocations tcs) (\<lambda>waves.
      let compute = factor * per_subtile_compute; wave_payload = fmul (int_to_float tcs) payload;
          descriptors = tcs * me_descriptor_overhead e; active = invocations - tcs * (waves - 1) in
      if 0 < active \<and> (sub_n = 0 \<or> sub_k = 0) then Inl ZeroDivisionError
      else let parts = map (\<lambda>i. subtile_bytes e sub_m sub_k sub_n last_m last_k last_n (tcs * (waves - 1) + int i)) [0..<nat active];
               last_weight = sum_list (map fst parts); last_act = sum_list (map snd parts);
               last_payload = seq_dma_cycles e (factor * last_weight + last_act);
               last_descriptors = active * me_descriptor_overhead e;
               dma = fadd wave_payload (int_to_float descriptors);
               last_dma = fadd last_payload (int_to_float last_descriptors);
               sum = num_trunc (tc_total waves (active = tcs) compute dma last_dma);
               macs = m * k * n * factor in
           bind_res (ceil_div macs (peak_macs_per_cycle e)) (\<lambda>ideal.
           result_record (waves * compute) (sum - waves * compute) sum (utilization ideal (PyInt sum)) macs ideal
             (raw_cycles (me_eff_bw e) (raw_bytes e m k n * factor)) invocations
             ((waves - 1) * tcs * (factor * weight + act) + factor * last_weight + last_act) (dma < of_int compute))))"

definition tc_estimate :: "mac_engine \<Rightarrow> int \<Rightarrow> int \<Rightarrow> int \<Rightarrow> engine_result result" where
  "tc_estimate e = tc_cycles e 1"

definition tc_pair :: "mac_engine \<Rightarrow> int \<Rightarrow> int \<Rightarrow> int \<Rightarrow> engine_result result" where
  "tc_pair e = tc_cycles e 2"

section \<open>Inline attention\<close>

text \<open>The whole transfer, never less than a twentieth of the computation\<close>

definition fsa_dma :: "mac_engine \<Rightarrow> int \<Rightarrow> rat \<Rightarrow> int \<Rightarrow> rat" where
  "fsa_dma e n eff compute = (let a = fdiv (seq_dma_cycles e n) (max eff (fl 0.01)); b = fmul (int_to_float compute) (fl 0.05)
     in if a < b then b else a)"

definition fsa_estimate :: "mac_engine \<Rightarrow> int \<Rightarrow> int \<Rightarrow> int \<Rightarrow> engine_result result" where
  "fsa_estimate e m k n = (let macs = m * k * n in
     bind_res (floor_div (k + me_H e - 1) (me_H e)) (\<lambda>qk. bind_res (floor_div (m + me_H e - 1) (me_H e)) (\<lambda>qm.
     bind_res (floor_div (n + me_W e - 1) (me_W e)) (\<lambda>qn.
     let tiles = max 1 qk * max 1 qm * max 1 qn; compute = tiles * (me_H e + m + me_W e);
         weight_bytes = k * n * me_w_bits e div 8; act_bytes = m * k * me_a_bits e div 8 in
     bind_res (dram_eff_for_bytes e weight_bytes) (\<lambda>eff.
     let loaded = (if eff \<le> 0 then 0 else weight_bytes);
         dma = fsa_dma e (loaded + act_bytes) eff compute;
         cycles = num_max (PyInt compute) (PyFloat dma); peak = peak_macs_per_cycle e in
     bind_res (if 0 < num_val cycles then true_div (PyInt macs) (num_mul (PyInt peak) cycles) else Inr 0) (\<lambda>util.
     result_record compute (py_trunc dma) (num_trunc cycles) util macs
       (if 0 < peak then \<lceil>fdiv_int macs peak\<rceil> else 0) (raw_cycles (me_bw_raw e) (raw_bytes e m k n)) tiles weight_bytes
       (dma \<le> of_int compute)))))))"

definition fsa_pair :: "mac_engine \<Rightarrow> int \<Rightarrow> int \<Rightarrow> int \<Rightarrow> engine_result result" where
  "fsa_pair e m k n = bind_res (fsa_estimate e m k n) (\<lambda>r. engine_result_new
     \<lparr>er_compute_cycles = 2 * er_compute_cycles r, er_dma_cycles = 2 * er_dma_cycles r,
      er_total_cycles = 2 * er_total_cycles r, er_utilization = er_utilization r, er_mac_count = 2 * er_mac_count r,
      er_op_count = 2 * er_op_count r, er_num_tiles = er_num_tiles r, er_weight_bytes = 2 * er_weight_bytes r,
      er_bottleneck = er_bottleneck r, er_stall_cycles_dram = 0, er_stall_cycles_sram = 0,
      er_ideal_compute_cycles = 2 * er_ideal_compute_cycles r, er_raw_dma_cycles = er_raw_dma_cycles r\<rparr>)"

definition fsa_attention :: "mac_engine \<Rightarrow> int \<Rightarrow> int \<Rightarrow> int \<Rightarrow> int \<Rightarrow> int \<Rightarrow> engine_result result" where
  "fsa_attention e seq_q seq_kv head_dim heads kv_heads =
     bind_res (floor_div (seq_q + me_H e - 1) (me_H e)) (\<lambda>tiles_q.
     bind_res (floor_div (seq_kv + me_W e - 1) (me_W e)) (\<lambda>tiles_kv.
     bind_res (floor_div (head_dim + me_W e - 1) (me_W e)) (\<lambda>tiles_hd.
     let tiles1 = tiles_q * tiles_kv; tiles2 = tiles_q * tiles_hd;
         phase1 = (if 0 < tiles1 then tiles1 * (me_H e + me_softmax_overhead e) else 0);
         phase2 = (if 0 < tiles2 then tiles2 * (me_H e + 3) else 0);
         compute = (phase1 + phase2) * kv_heads;
         macs = kv_heads * seq_q * seq_kv * head_dim + kv_heads * seq_q * head_dim * seq_kv;
         elem = me_a_bits e div 8; kv_bytes = kv_heads * seq_kv * head_dim * elem * 2;
         q_bytes = heads * seq_q * head_dim * elem in
     bind_res (dma_cycles e kv_bytes RANDOM kv_bytes False) (\<lambda>kv_dma.
     let dma = fadd kv_dma (seq_dma_cycles e q_bytes); cycles = max compute (py_trunc dma);
         peak = peak_macs_per_cycle e in
     bind_res (if 0 < cycles then true_div (PyInt macs) (PyInt (peak * max cycles 1)) else Inr 0) (\<lambda>util.
     result_record compute (py_trunc dma) cycles util macs (if 0 < peak then \<lceil>fdiv_int macs peak\<rceil> else 0)
       (raw_cycles (me_eff_bw e) (kv_bytes + q_bytes)) (tiles1 + tiles2) 0 (dma \<le> of_int compute))))))"

section \<open>The registry\<close>

fun engine_id :: "engine_kind \<Rightarrow> string" where
  "engine_id Systolic = ''systolic''"
| "engine_id OsSystolic = ''os_systolic''"
| "engine_id Block = ''block''"
| "engine_id TensorCore = ''tensor_core''"
| "engine_id Wmma = ''wmma''"
| "engine_id Gmma = ''gmma''"
| "engine_id InputStationary = ''input_stationary''"
| "engine_id Fsa = ''fsa''"

definition engine_kinds :: "engine_kind list" where
  "engine_kinds = [Systolic, OsSystolic, Block, TensorCore, Wmma, Gmma, InputStationary, Fsa]"

definition engine_of_id :: "string \<Rightarrow> engine_kind option" where
  "engine_of_id s = find (\<lambda>k. engine_id k = s) engine_kinds"

definition create_engine_by_type :: "(memory_access_plan \<Rightarrow> string) \<Rightarrow> string \<Rightarrow> npu_config
    \<Rightarrow> workload_graph option \<Rightarrow> memory_access_plan option \<Rightarrow> mac_engine result" where
  "create_engine_by_type digest t c graph plan = (case engine_of_id t of
     None \<Rightarrow> Inl (ConfigError ''mac_engine.type'')
   | Some kind \<Rightarrow> mac_engine_new digest kind c graph plan)"

definition create_engine :: "(memory_access_plan \<Rightarrow> string) \<Rightarrow> npu_config
    \<Rightarrow> workload_graph option \<Rightarrow> memory_access_plan option \<Rightarrow> mac_engine result" where
  "create_engine digest c graph plan = create_engine_by_type digest (or_default (mac_type c) ''block'') c graph plan"

definition me_estimate :: "mac_engine \<Rightarrow> int \<Rightarrow> int \<Rightarrow> int \<Rightarrow> engine_result result" where
  "me_estimate e = (case me_kind e of Systolic \<Rightarrow> systolic_estimate e | OsSystolic \<Rightarrow> os_estimate e
     | Block \<Rightarrow> block_estimate e | TensorCore \<Rightarrow> tc_estimate e | Wmma \<Rightarrow> wmma_estimate e | Gmma \<Rightarrow> gmma_estimate e
     | InputStationary \<Rightarrow> is_estimate e | Fsa \<Rightarrow> fsa_estimate e)"

definition me_estimate_pair :: "mac_engine \<Rightarrow> int \<Rightarrow> int \<Rightarrow> int \<Rightarrow> engine_result result" where
  "me_estimate_pair e = (case me_kind e of Systolic \<Rightarrow> systolic_pair e | OsSystolic \<Rightarrow> os_pair e
     | Block \<Rightarrow> block_pair e | TensorCore \<Rightarrow> tc_pair e | Wmma \<Rightarrow> wmma_pair e | Gmma \<Rightarrow> gmma_pair e
     | InputStationary \<Rightarrow> is_pair e | Fsa \<Rightarrow> fsa_pair e)"

end
