(* ===== verification/Hw_Engine_Props.thy ===== *)
theory Hw_Engine_Props
  imports Hw_Engine_Kinds
begin

text \<open>
  Properties of the eight engines: on a sensible engine and a workload whose cycle counts stay below
  \<open>2^53\<close> every estimate returns, accounts for its computation, and is not below the ideal time (the
  input-stationary engine aside, which counts tiles of the reduction where it should count its
  steps); and a faster weight memory never makes an estimate larger.
\<close>

section \<open>Sensible engines and workloads\<close>

definition eng_ok :: "mac_engine \<Rightarrow> bool" where
  "eng_ok e \<longleftrightarrow> 16 \<le> me_H e \<and> me_H e \<le> 2 ^ 16 \<and> 16 \<le> me_W e \<and> me_W e \<le> 2 ^ 16
     \<and> 0 < me_w_bits e \<and> 0 < me_a_bits e \<and> 1 \<le> me_ops_per_mac e \<and> me_ops_per_mac e \<le> 2 ^ 16
     \<and> 1 / 2 ^ 40 \<le> me_eff_bw_weight e \<and> is_float (me_eff_bw_weight e) \<and> 0 \<le> me_eff_bw e \<and> 0 \<le> me_bw_raw e
     \<and> 0 \<le> me_wbuf_kb e \<and> 0 \<le> me_descriptor_overhead e \<and> 0 \<le> me_pipeline_scale e \<and> me_pipeline_scale e \<le> 1
     \<and> 0 \<le> me_fragment_serialization e"

definition workload_fits :: "mac_engine \<Rightarrow> int \<Rightarrow> int \<Rightarrow> int \<Rightarrow> bool" where
  "workload_fits e m k n \<longleftrightarrow> 0 < m \<and> 0 < k \<and> 0 < n
     \<and> m * k * n * (8 * (me_H e + me_W e + m) + 4 * me_fragment_serialization e + 200) < 2 ^ 53"

section \<open>Shared arithmetic\<close>

lemma fl_pos_ge: "x \<le> y \<Longrightarrow> is_float x \<Longrightarrow> x \<le> fl y"
  using fl_mono[of x y] by (simp add: is_float_def)

lemma ideal_le:
  assumes "0 < peak" and "macs \<le> c * peak" and "0 \<le> c" and "c \<le> 2 ^ 53"
  shows "\<lceil>fdiv_int macs peak\<rceil> \<le> c"
proof -
  have "(of_int macs :: rat) \<le> of_int (c * peak)" using assms(2) by (simp only: of_int_le_iff)
  then have "(of_int macs :: rat) / of_int peak \<le> of_int c" using assms(1) by (simp add: divide_le_eq)
  then have "fdiv_int macs peak \<le> of_int c" unfolding fdiv_int_def using assms by (intro fl_le_int) auto
  then show ?thesis by (simp add: ceiling_le_iff)
qed

lemma ideal_nonneg: "0 \<le> macs \<Longrightarrow> 0 < peak \<Longrightarrow> 0 \<le> \<lceil>fdiv_int macs peak\<rceil>"
  by (rule bursts_nonneg)

lemma utilization_bounds:
  assumes "0 \<le> ideal"
  shows "0 \<le> utilization ideal c" and "of_int ideal \<le> num_val c \<Longrightarrow> ideal \<le> 2 ^ 53 \<Longrightarrow> utilization ideal c \<le> 1"
proof -
  show "0 \<le> utilization ideal c"
    using assms by (cases c) (simp_all add: utilization_def fdiv_int_def fdiv_def int_to_float_def fl_nonneg)
  assume le: "of_int ideal \<le> num_val c" "ideal \<le> 2 ^ 53"
  have one: "fl x \<le> 1" if "x \<le> 1" for x using fl_mono[OF that] by simp
  show "utilization ideal c \<le> 1"
    using le assms by (cases c) (auto simp: utilization_def fdiv_int_def fdiv_def int_to_float_exact divide_le_eq intro!: one)
qed

lemma seq_dma_nonneg: "eng_ok e \<Longrightarrow> 0 \<le> seq_dma_cycles e n"
  by (simp add: seq_dma_cycles_def fdiv_nonneg int_to_float_nonneg)

lemma seq_dma_float [simp]: "is_float (seq_dma_cycles e n)"
  by (simp add: seq_dma_cycles_def)

text \<open>A multiple of the slower of computing and loading, rounded.\<close>

lemma bottleneck_val:
  assumes "0 \<le> n" and "n \<le> 2 ^ 53" and "0 \<le> compute" and "n * compute \<le> 2 ^ 53" and "is_float dma"
    and "x = num_max (PyInt compute) (PyFloat dma) \<or> x = num_max (PyFloat dma) (PyInt compute)"
  defines "b \<equiv> num_mul (PyInt n) x"
  shows "num_val b = fl (of_int n * max (of_int compute) dma)" and "as_float b = num_val b"
proof -
  have nf: "int_to_float n = of_int n" using assms(1,2) by (intro int_to_float_exact) simp
  have "fl (of_int (n * compute)) = of_int (n * compute)" using assms by (intro fl_int) simp
  then have prod: "fl (of_int n * of_int compute) = of_int n * of_int compute" by (simp only: of_int_mult)
  consider "x = PyInt compute" "max (of_int compute) dma = of_int compute" | "x = PyFloat dma" "max (of_int compute) dma = dma"
    using assms(6) by (auto simp: num_max_def max_def split: if_splits)
  then have "num_val b = fl (of_int n * max (of_int compute) dma) \<and> as_float b = num_val b"
    by cases (use prod in \<open>simp_all add: b_def fmul_def nf[unfolded int_to_float_def] int_to_float_def\<close>)
  then show "num_val b = fl (of_int n * max (of_int compute) dma)" and "as_float b = num_val b" by simp_all
qed

text \<open>What the pipelined total is worth.\<close>

lemma pipelined_val:
  assumes "0 < tiles" and "0 \<le> compute" and "compute * tiles \<le> 2 ^ 53" and "tiles \<le> 2 ^ 53" and "is_float dma"
  shows "num_val (pipelined tiles dma compute) = fl (fl (dma + of_int compute) + fl (of_int (tiles - 1) * max (of_int compute) dma))"
proof -
  have c: "compute \<le> 2 ^ 53" using assms(1-3) mult_left_mono[of 1 tiles compute] by simp
  have cf: "int_to_float compute = of_int compute" using c assms(2) by (intro int_to_float_exact) simp
  have "(tiles - 1) * compute \<le> compute * tiles" using assms(1,2) by (simp add: algebra_simps)
  then have tc: "(tiles - 1) * compute \<le> 2 ^ 53" using assms(3) by simp
  note b = bottleneck_val[of "tiles - 1" compute dma, OF _ _ assms(2) tc assms(5) disjI1[OF refl]]
  show ?thesis
  proof (cases "1 < tiles")
    case True
    have "num_val (num_add (PyFloat x) b) = fl (x + as_float b)" for x b by (cases b) (simp_all add: fadd_def)
    then show ?thesis using True assms(4) by (simp add: pipelined_def Let_def fadd_def cf b del: of_int_diff)
  next
    case False
    then have "tiles = 1" using assms(1) by simp
    then show ?thesis by (simp add: pipelined_def Let_def fadd_def cf fl_idem)
  qed
qed

lemma pipelined_ge:
  assumes "0 < tiles" and "0 \<le> compute" and "compute * tiles \<le> 2 ^ 53" and "tiles \<le> 2 ^ 53" and "is_float dma"
    and "0 \<le> dma"
  shows "of_int (compute * tiles) \<le> num_val (pipelined tiles dma compute)"
proof -
  have c: "compute \<le> 2 ^ 53" using assms(1-3) mult_left_mono[of 1 tiles compute] by simp
  have tc: "(tiles - 1) * compute \<le> compute * tiles" using assms(1,2) by (simp add: algebra_simps)
  have "of_int compute \<le> fl (dma + of_int compute)" using assms c by (intro fl_ge_int) simp_all
  moreover have "of_int ((tiles - 1) * compute) \<le> fl (of_int (tiles - 1) * max (of_int compute) dma)"
    using assms tc by (intro fl_ge_int) (simp_all add: mult_left_mono)
  moreover have "compute * tiles = compute + (tiles - 1) * compute" by (simp add: algebra_simps)
  then have "(of_int (compute * tiles) :: rat) = of_int compute + of_int ((tiles - 1) * compute)"
    by (simp only: of_int_add)
  ultimately have "of_int (compute * tiles) \<le> fl (dma + of_int compute) + fl (of_int (tiles - 1) * max (of_int compute) dma)"
    by linarith
  then show ?thesis unfolding pipelined_val[OF assms(1-5)] using assms by (intro fl_ge_int) simp_all
qed

lemma pipelined_mono:
  assumes "0 < tiles" and "0 \<le> compute" and "compute * tiles \<le> 2 ^ 53" and "tiles \<le> 2 ^ 53"
    and "is_float dma" and "is_float dma'" and "dma \<le> dma'"
  shows "num_trunc (pipelined tiles dma compute) \<le> num_trunc (pipelined tiles dma' compute)"
proof (rule num_trunc_mono)
  show "num_val (pipelined tiles dma compute) \<le> num_val (pipelined tiles dma' compute)"
    unfolding pipelined_val[OF assms(1-4) assms(5)] pipelined_val[OF assms(1-4) assms(6)]
    using assms(1,7) by (intro fl_mono add_mono mult_left_mono) (auto simp: max_def)
qed

section \<open>Tiles\<close>

lemma ceil_div_tiles:
  assumes "0 < x" and "x < 2 ^ 53" and "0 < b" and "b \<le> 2 ^ 53"
  shows "\<exists>t. ceil_div x b = Inr t \<and> 0 < t \<and> t \<le> x \<and> x \<le> t * b \<and> (t - 1) * b < x"
proof -
  define t where "t = (x + b - 1) div b"
  have e: "ceil_div x b = Inr t" using assms by (simp add: ceil_div_def ceil_fdiv_exact t_def)
  have "t * b = x + b - 1 - (x + b - 1) mod b" by (simp add: t_def minus_mod_eq_div_mult)
  moreover have "0 \<le> (x + b - 1) mod b" "(x + b - 1) mod b < b" using assms(3) by simp_all
  ultimately have b: "x \<le> t * b" "t * b < x + b" by linarith+
  have t0: "0 < t" using b(1) assms(1,3) by (meson less_le_trans linorder_not_le mult_nonpos_nonneg order_less_imp_le order_less_le_trans)
  have lt: "(t - 1) * b < x" using b(2) by (simp add: algebra_simps)
  have "(t - 1) * 1 \<le> (t - 1) * b" using t0 assms(3) by (intro mult_left_mono) auto
  then have "t - 1 < x" using lt by (simp only: mult_1_right)
  then have "t \<le> x" by simp
  then show ?thesis using e t0 b lt by blast
qed

lemma floor_div_tiles:
  assumes "0 < x" and "0 < b"
  shows "\<exists>t. floor_div (x + b - 1) b = Inr t \<and> 0 < t \<and> t \<le> x \<and> x \<le> t * b \<and> (t - 1) * b < x"
proof -
  define t where "t = (x + b - 1) div b"
  have e: "floor_div (x + b - 1) b = Inr t" using assms by (simp add: floor_div_def t_def)
  have "t * b = x + b - 1 - (x + b - 1) mod b" by (simp add: t_def minus_mod_eq_div_mult)
  moreover have "0 \<le> (x + b - 1) mod b" "(x + b - 1) mod b < b" using assms by simp_all
  ultimately have b: "x \<le> t * b" "t * b < x + b" by linarith+
  have t0: "0 < t" using b(1) assms by (meson less_le_trans linorder_not_le mult_nonpos_nonneg order_less_imp_le order_less_le_trans)
  have lt: "(t - 1) * b < x" using b(2) by (simp add: algebra_simps)
  have "(t - 1) * 1 \<le> (t - 1) * b" using t0 assms by (intro mult_left_mono) auto
  then have "t - 1 < x" using lt by (simp only: mult_1_right)
  then have "t \<le> x" by simp
  then show ?thesis using e t0 b lt by blast
qed

lemma mul_mono3: "0 \<le> (a::int) \<Longrightarrow> a \<le> a' \<Longrightarrow> 0 \<le> b \<Longrightarrow> b \<le> b' \<Longrightarrow> 0 \<le> c \<Longrightarrow> c \<le> c' \<Longrightarrow> a * b * c \<le> a' * b' * c'"
  by (intro mult_mono) auto

section \<open>Sound results\<close>

definition sound_result :: "engine_result \<Rightarrow> int \<Rightarrow> bool" where
  "sound_result r macs \<longleftrightarrow> er_mac_count r = macs \<and> er_op_count r = 2 * macs \<and> 0 \<le> er_compute_cycles r
     \<and> er_compute_cycles r \<le> er_total_cycles r \<and> 0 \<le> er_dma_cycles r \<and> 0 \<le> er_raw_dma_cycles r
     \<and> 0 \<le> er_ideal_compute_cycles r \<and> 0 \<le> er_utilization r"

definition within_peak :: "engine_result \<Rightarrow> bool" where
  "within_peak r \<longleftrightarrow> er_ideal_compute_cycles r \<le> er_total_cycles r \<and> er_utilization r \<le> 1"

lemma result_record_ok:
  assumes "0 \<le> compute" and "0 \<le> dma" and "0 \<le> cycles" and "0 \<le> ideal" and "0 \<le> raw" and "0 < macs"
  obtains r where "result_record compute dma cycles util macs ideal raw tiles w b = Inr r"
    and "er_compute_cycles r = compute" and "er_dma_cycles r = dma" and "er_total_cycles r = cycles"
    and "er_utilization r = util" and "er_mac_count r = macs" and "er_op_count r = 2 * macs"
    and "er_ideal_compute_cycles r = ideal" and "er_raw_dma_cycles r = raw"
  using assms by (simp add: result_record_def engine_result_new_def)

text \<open>The same engine with its weights in another memory, as a memory plan places them.\<close>

definition faster :: "rat \<Rightarrow> mac_engine \<Rightarrow> mac_engine" where
  "faster bw e = set_weight_bw bw e"

lemma faster_fields [simp]:
  "me_kind (faster bw e) = me_kind e" "me_H (faster bw e) = me_H e" "me_W (faster bw e) = me_W e"
  "me_w_bits (faster bw e) = me_w_bits e" "me_a_bits (faster bw e) = me_a_bits e"
  "me_eff_bw (faster bw e) = bw" "me_bw_raw (faster bw e) = me_bw_raw e" "me_wbuf_kb (faster bw e) = me_wbuf_kb e"
  "me_descriptor_overhead (faster bw e) = me_descriptor_overhead e" "me_pipeline_scale (faster bw e) = me_pipeline_scale e"
  "me_fragment_serialization (faster bw e) = me_fragment_serialization e" "me_eff_bw_weight (faster bw e) = bw"
  "me_ops_per_mac (faster bw e) = me_ops_per_mac e"
  by (simp_all add: faster_def set_weight_bw_def)

lemma faster_derived [simp]:
  "peak_macs_per_cycle (faster bw e) = peak_macs_per_cycle e" "raw_bytes (faster bw e) m k n = raw_bytes e m k n"
  "per_ktile_compute (faster bw e) m = per_ktile_compute e m" "fragment_counts (faster bw e) m k n = fragment_counts e m k n"
  "per_fragment_compute (faster bw e) f = per_fragment_compute e f" "gmma_tile_compute (faster bw e) m = gmma_tile_compute e m"
  "num_tcs (faster bw e) = num_tcs e" "subtile_bytes (faster bw e) = subtile_bytes e"
  "dram_eff_for_bytes (faster bw e) = dram_eff_for_bytes e"
  by (simp_all add: peak_macs_per_cycle_def raw_bytes_def per_ktile_compute_def fragment_counts_def Let_def
      per_fragment_compute_def gmma_tile_compute_def num_tcs_def subtile_bytes_def fun_eq_iff dram_eff_for_bytes_def cong: if_cong)

lemma faster_ok: "eng_ok e \<Longrightarrow> me_eff_bw_weight e \<le> bw \<Longrightarrow> is_float bw \<Longrightarrow> eng_ok (faster bw e)"
  by (simp add: eng_ok_def)

lemma faster_fits: "workload_fits (faster bw e) m k n = workload_fits e m k n"
  by (simp add: workload_fits_def)

lemma div_bw_mono: "0 \<le> (x :: rat) \<Longrightarrow> 0 < a \<Longrightarrow> a \<le> b \<Longrightarrow> fdiv x b \<le> fdiv x a"
  unfolding fdiv_def by (intro fl_mono divide_left_mono mult_pos_pos) auto

lemma eng_bw_pos: "eng_ok e \<Longrightarrow> 0 < me_eff_bw_weight e"
  unfolding eng_ok_def by (elim conjE) (rule less_le_trans[of _ "1 / 2 ^ 40"], simp_all)

lemma seq_dma_faster:
  assumes "eng_ok e" and "me_eff_bw_weight e \<le> bw"
  shows "seq_dma_cycles (faster bw e) n \<le> seq_dma_cycles e n"
  using assms eng_bw_pos[OF assms(1)] div_bw_mono[of "int_to_float n" "me_eff_bw_weight e" bw]
  by (simp add: seq_dma_cycles_def int_to_float_nonneg)

lemma raw_cycles_nonneg: "0 \<le> n \<Longrightarrow> 0 \<le> raw_cycles bw n"
proof (cases "0 < bw")
  case True
  assume "0 \<le> n"
  then have "0 \<le> fdiv (int_to_float n) bw" using True by (intro fdiv_nonneg int_to_float_nonneg) auto
  then show ?thesis using True by (simp add: raw_cycles_def le_ceiling_iff)
qed (simp add: raw_cycles_def)

lemma raw_bytes_nonneg: "eng_ok e \<Longrightarrow> 0 < m \<Longrightarrow> 0 < k \<Longrightarrow> 0 < n \<Longrightarrow> 0 \<le> raw_bytes e m k n"
  by (simp add: raw_bytes_def eng_ok_def div_int_pos_iff)

lemma peak_pos: "eng_ok e \<Longrightarrow> 0 < peak_macs_per_cycle e \<and> me_H e * me_W e \<le> peak_macs_per_cycle e"
proof -
  assume e: "eng_ok e"
  then have "0 < me_H e * me_W e" "1 \<le> me_ops_per_mac e" by (simp_all add: eng_ok_def)
  then show ?thesis using mult_left_mono[of 1 "me_ops_per_mac e" "me_H e * me_W e"]
    by (simp add: peak_macs_per_cycle_def)
qed

section \<open>Bounds from the size of the workload\<close>

definition cycle_scale :: "mac_engine \<Rightarrow> int \<Rightarrow> int" where
  "cycle_scale e m = 8 * (me_H e + me_W e + m) + 4 * me_fragment_serialization e + 200"

lemma fits_pos:
  assumes "workload_fits e m k n"
  shows "0 < m" and "0 < k" and "0 < n" and "0 < m * k * n"
  using assms by (simp_all add: workload_fits_def)

lemma fits_bound:
  assumes "eng_ok e" and "workload_fits e m k n" and "0 \<le> c" and "0 \<le> t" and "c \<le> a * cycle_scale e m" and "t \<le> b"
    and "a * b = m * k * n" and "0 < a"
  shows "c * t < 2 ^ 53"
proof -
  have s: "0 \<le> cycle_scale e m" using assms(1,2) by (simp add: cycle_scale_def eng_ok_def workload_fits_def)
  have "c * t \<le> (a * cycle_scale e m) * b" using assms s by (intro mult_mono) auto
  also have "\<dots> = (m * k * n) * cycle_scale e m" using assms(7) by (simp add: ac_simps)
  also have "\<dots> < 2 ^ 53" using assms(2) by (simp add: workload_fits_def cycle_scale_def)
  finally show ?thesis .
qed

lemma fits_small:
  assumes "eng_ok e" and "workload_fits e m k n"
  shows "m * k * n < 2 ^ 50" and "m < 2 ^ 50" and "k < 2 ^ 50" and "n < 2 ^ 50" and "k * n < 2 ^ 50" and "m * n < 2 ^ 50"
    and "m * k < 2 ^ 50"
proof -
  have s: "200 \<le> cycle_scale e m" using assms by (simp add: cycle_scale_def eng_ok_def workload_fits_def)
  note p = fits_pos[OF assms(2)]
  have "(m * k * n) * 200 \<le> (m * k * n) * cycle_scale e m" using p s by (intro mult_left_mono) auto
  also have "\<dots> < 2 ^ 53" using assms(2) by (simp add: workload_fits_def cycle_scale_def)
  finally have "(m * k * n) * 200 < 2 ^ 53" .
  moreover have "q < 2 ^ 50" if "q * 200 < 2 ^ 53" "0 < q" for q :: int using that by simp
  ultimately show P: "m * k * n < 2 ^ 50" using p(4) by blast
  have one: "1 \<le> m" "1 \<le> k" "1 \<le> n" using p by simp_all
  have "m * k * 1 \<le> m * k * n" "1 * k * n \<le> m * k * n" "m * 1 * n \<le> m * k * n"
    using one p by (intro mul_mono3; simp)+
  then show kn: "k * n < 2 ^ 50" "m * n < 2 ^ 50" "m * k < 2 ^ 50" using P by simp_all
  have "m * 1 \<le> m * k" "k * 1 \<le> k * n" "n * 1 \<le> n * m" using one by (intro mult_left_mono; simp)+
  then show "m < 2 ^ 50" "k < 2 ^ 50" "n < 2 ^ 50" using kn by (simp_all add: mult.commute)
qed

lemma fits_pair:
  assumes "eng_ok e" and "workload_fits e m k n"
  shows "0 < m * k * n * 2" and "m * k * n * 2 \<le> 2 ^ 53"
proof -
  have "0 < x * 2 \<and> x * 2 \<le> 2 ^ 53" if "0 < x" "x < 2 ^ 50" for x :: int using that by simp
  from this[OF fits_pos(4)[OF assms(2)] fits_small(1)[OF assms]]
  show "0 < m * k * n * 2" "m * k * n * 2 \<le> 2 ^ 53" by blast+
qed

text \<open>The tiles of an array, and the work they hold.\<close>

lemma array_tiles:
  assumes "eng_ok e" and "workload_fits e m k n"
  obtains kt nt mt where "ceil_div k (me_H e) = Inr kt" and "ceil_div n (me_W e) = Inr nt" and "ceil_div m (me_H e) = Inr mt"
    and "0 < kt" "kt \<le> k" "k \<le> kt * me_H e" and "0 < nt" "nt \<le> n" "n \<le> nt * me_W e"
    and "0 < mt" "mt \<le> m" "m \<le> mt * me_H e" "(mt - 1) * me_H e < m"
    and "floor_div (k + me_H e - 1) (me_H e) = Inr kt" and "floor_div (n + me_W e - 1) (me_W e) = Inr nt"
    and "floor_div (m + me_H e - 1) (me_H e) = Inr mt"
proof -
  have h: "0 < me_H e" "me_H e \<le> 2 ^ 53" "0 < me_W e" "me_W e \<le> 2 ^ 53" using assms(1) by (simp_all add: eng_ok_def)
  note p = fits_pos[OF assms(2)] and s = fits_small[OF assms]
  have lt: "m < 2 ^ 53" "k < 2 ^ 53" "n < 2 ^ 53" using s(2-4) by simp_all
  have eq: "floor_div (x + b - 1) b = ceil_div x b" if "0 < x" "x < 2 ^ 53" "0 < b" "b \<le> 2 ^ 53" for x b :: int
    using that by (simp add: floor_div_def ceil_div_def ceil_fdiv_exact)
  show thesis
    using that ceil_div_tiles[OF p(2) lt(2) h(1,2)] ceil_div_tiles[OF p(3) lt(3) h(3,4)] ceil_div_tiles[OF p(1) lt(1) h(1,2)]
      eq[OF p(2) lt(2) h(1,2)] eq[OF p(3) lt(3) h(3,4)] eq[OF p(1) lt(1) h(1,2)] by metis
qed

section \<open>The claim of each engine\<close>

definition engine_claim ::
    "(mac_engine \<Rightarrow> int \<Rightarrow> int \<Rightarrow> int \<Rightarrow> engine_result result) \<Rightarrow> mac_engine \<Rightarrow> rat \<Rightarrow> int \<Rightarrow> int \<Rightarrow> int \<Rightarrow> int \<Rightarrow> bool \<Rightarrow> bool" where
  "engine_claim f e bw m k n macs peak \<longleftrightarrow> (\<exists>r r'. f e m k n = Inr r \<and> f (faster bw e) m k n = Inr r'
     \<and> sound_result r macs \<and> (peak \<longrightarrow> within_peak r) \<and> er_total_cycles r' \<le> er_total_cycles r)"

lemma engine_claimI:
  assumes "f e m k n = result_record c d s u macs ideal raw t w b"
    and "f (faster bw e) m k n = result_record c d' s' u' macs ideal raw' t w b'"
    and "0 \<le> c" and "c \<le> s" and "c \<le> s'" and "0 \<le> d" and "0 \<le> d'" and "s' \<le> s" and "0 \<le> ideal" and "0 \<le> raw"
    and "0 < macs" and "0 \<le> u" and "peak \<longrightarrow> ideal \<le> s \<and> u \<le> 1" and "0 \<le> raw'"
  shows "engine_claim f e bw m k n macs peak"
proof -
  have "0 \<le> s" "0 \<le> s'" using assms by linarith+
  obtain r where r: "f e m k n = Inr r" "er_compute_cycles r = c" "er_dma_cycles r = d" "er_total_cycles r = s"
    "er_utilization r = u" "er_mac_count r = macs" "er_op_count r = 2 * macs" "er_ideal_compute_cycles r = ideal"
    "er_raw_dma_cycles r = raw"
    by (rule result_record_ok[OF assms(3,6) \<open>0 \<le> s\<close> assms(9,10,11), of u t w b]) (use assms(1) in simp)
  obtain r' where r': "f (faster bw e) m k n = Inr r'" "er_total_cycles r' = s'"
    by (rule result_record_ok[OF assms(3,7) \<open>0 \<le> s'\<close> assms(9,14,11), of u' t w b']) (use assms(2) in simp)
  show ?thesis
    unfolding engine_claim_def sound_result_def within_peak_def using r r' assms by blast
qed

text \<open>Pipelined engines: systolic, input stationary and warp.\<close>

lemma pipelined_claim:
  fixes compute tiles :: int
  defines "total_of dma \<equiv> num_trunc (pipelined tiles dma compute)"
  assumes "f e m k n = result_record (compute * tiles) (total_of dma - compute * tiles) (total_of dma) u macs ideal raw t w b"
    and "f (faster bw e) m k n = result_record (compute * tiles) (total_of dma' - compute * tiles) (total_of dma') u' macs ideal raw' t w b'"
    and "0 < tiles" and "0 \<le> compute" and "compute * tiles \<le> 2 ^ 53" and "tiles \<le> 2 ^ 53"
    and "is_float dma" and "is_float dma'" and "0 \<le> dma'" and "dma' \<le> dma"
    and "0 \<le> ideal" and "0 \<le> raw" and "0 < macs" and "peak \<longrightarrow> ideal \<le> compute * tiles"
    and "u = utilization ideal (pipelined tiles dma compute) \<or> u = utilization ideal (PyInt (total_of dma))" and "0 \<le> raw'"
  shows "engine_claim f e bw m k n macs peak"
proof -
  have ct: "0 \<le> compute * tiles" using assms by simp
  have val: "of_int (compute * tiles) \<le> num_val (pipelined tiles d compute)" if "is_float d" "0 \<le> d" for d
    using that assms(4-7) by (intro pipelined_ge)
  have le: "compute * tiles \<le> total_of d" if "is_float d" "0 \<le> d" for d
    unfolding total_of_def using val[OF that] ct by (intro num_trunc_ge)
  have d0: "0 \<le> dma" using assms by simp
  have u: "0 \<le> u \<and> (peak \<longrightarrow> u \<le> 1)"
  proof -
    have "ideal \<le> 2 ^ 53" "of_int ideal \<le> num_val (pipelined tiles dma compute)" if peak
    proof -
      have i: "ideal \<le> compute * tiles" using that assms by simp
      then show "ideal \<le> 2 ^ 53" using assms(6) by simp
      have "(of_int ideal :: rat) \<le> of_int (compute * tiles)" using i by (simp only: of_int_le_iff)
      then show "of_int ideal \<le> num_val (pipelined tiles dma compute)" using val[OF assms(8) d0] by simp
    qed
    moreover have "of_int ideal \<le> num_val (PyInt (total_of dma))" if peak
      using that assms(15) le[OF assms(8) d0] by simp
    ultimately show ?thesis using assms(16) utilization_bounds[OF assms(12)] by blast
  qed
  have pk: "peak \<longrightarrow> ideal \<le> total_of dma \<and> u \<le> 1"
    using assms(15) le[OF assms(8) d0] u by (blast intro: order_trans)
  show ?thesis
    by (rule engine_claimI[where f = f and e = e and bw = bw and m = m and k = k and n = n, OF assms(2,3) ct le[OF assms(8) d0] le[OF assms(9,10)]
          _ _ _ assms(12,13,14) conjunct1[OF u] pk assms(17)])
       (use le[OF assms(8) d0] le[OF assms(9,10)] pipelined_mono[OF assms(4-7) assms(9,8,11)] in
         \<open>simp_all add: total_of_def\<close>)
qed

lemma ktile_compute:
  assumes "eng_ok e" and "0 < m" and "floor_div (m + me_H e - 1) (me_H e) = Inr mt" and "0 < mt" and "(mt - 1) * me_H e < m"
    and "m \<le> mt * me_H e"
  obtains c where "per_ktile_compute e m = Inr c" and "m \<le> c" and "c \<le> m * cycle_scale e m"
proof -
  define x where "x = (mt - 1) * me_H e"
  define c where "c = 2 * x + (mt - 1) * me_W e + (me_H e + me_W e + (m - x))"
  have h: "16 \<le> me_H e" "16 \<le> me_W e" "0 \<le> me_fragment_serialization e" using assms(1) by (simp_all add: eng_ok_def)
  have x: "0 \<le> x" "x < m" using assms h by (simp_all add: x_def)
  have c: "per_ktile_compute e m = Inr c"
    using assms x by (simp add: per_ktile_compute_def Let_def c_def algebra_simps flip: x_def) (simp add: x_def algebra_simps)
  have w: "0 \<le> (mt - 1) * me_W e" using assms h by simp
  have mt: "mt - 1 \<le> m"
  proof -
    have "(mt - 1) * 1 \<le> x" unfolding x_def using assms(4) h by (intro mult_left_mono) auto
    then show ?thesis using x by simp
  qed
  have "m \<le> c" using x w h by (simp add: c_def)
  moreover have "c \<le> m * cycle_scale e m"
  proof -
    have "(mt - 1) * me_W e \<le> m * me_W e" using mt h by (intro mult_right_mono) auto
    moreover have "1 * (me_H e + me_W e) \<le> m * (me_H e + me_W e)" using assms(2) h by (intro mult_right_mono) auto
    ultimately have "c \<le> m * (2 + me_W e + (me_H e + me_W e))"
      using x by (simp add: c_def algebra_simps)
    also have "\<dots> \<le> m * cycle_scale e m"
      using assms(2) h by (intro mult_left_mono) (simp_all add: cycle_scale_def)
    finally show ?thesis .
  qed
  ultimately show thesis using that c by blast
qed

text \<open>The work of a tiled product fits its array passes.\<close>

lemma array_work:
  assumes "eng_ok e" and "0 \<le> m" and "0 < kt" and "0 < nt" and "0 < k" and "0 < n" and "k \<le> kt * me_H e" and "n \<le> nt * me_W e"
    and "m \<le> c"
  shows "m * k * n \<le> (c * (kt * nt)) * peak_macs_per_cycle e"
proof -
  have h: "0 < me_H e" "0 < me_W e" using assms(1) by (simp_all add: eng_ok_def)
  have "m * k * n \<le> c * (kt * me_H e) * (nt * me_W e)" using assms h by (intro mul_mono3) auto
  also have "\<dots> = (c * (kt * nt)) * (me_H e * me_W e)" by (simp add: ac_simps)
  also have "\<dots> \<le> (c * (kt * nt)) * peak_macs_per_cycle e"
    using peak_pos[OF assms(1)] assms by (intro mult_left_mono) auto
  finally show ?thesis .
qed

lemma systolic_claim:
  assumes "eng_ok e" and "workload_fits e m k n" and "me_eff_bw_weight e \<le> bw" and "is_float bw"
  shows "engine_claim systolic_estimate e bw m k n (m * k * n) True"
proof -
  note p = fits_pos[OF assms(2)] and s = fits_small[OF assms(1,2)] and fast = faster_ok[OF assms(1,3,4)]
  obtain kt nt mt where t: "ceil_div k (me_H e) = Inr kt" "ceil_div n (me_W e) = Inr nt"
    "0 < kt" "kt \<le> k" "k \<le> kt * me_H e" "0 < nt" "nt \<le> n" "n \<le> nt * me_W e" "0 < mt" "mt \<le> m" "m \<le> mt * me_H e"
    "(mt - 1) * me_H e < m" "floor_div (m + me_H e - 1) (me_H e) = Inr mt"
    by (rule array_tiles[OF assms(1,2)])
  obtain c where c: "per_ktile_compute e m = Inr c" "m \<le> c" "c \<le> m * cycle_scale e m"
    by (rule ktile_compute[OF assms(1) p(1) t(13,9,12,11)])
  define bytes where "bytes = bits_to_bytes (me_H e * me_W e * me_w_bits e) + bits_to_bytes (m * me_H e * me_a_bits e)"
  define ideal where "ideal = \<lceil>fdiv_int (m * k * n) (peak_macs_per_cycle e)\<rceil>"
  have peak: "0 < peak_macs_per_cycle e" using peak_pos[OF assms(1)] by simp
  have tiles: "0 < kt * nt" "kt * nt \<le> k * n" using t by (auto intro: mult_mono)
  have fit: "c * (kt * nt) < 2 ^ 53"
    by (rule fits_bound[OF assms(1,2) _ _ c(3) tiles(2)]) (use c p tiles in simp_all)
  have small: "kt * nt \<le> 2 ^ 53" using tiles(2) s(5) by simp
  have w: "m * k * n \<le> (c * (kt * nt)) * peak_macs_per_cycle e"
    using array_work[OF assms(1) _ t(3,6) p(2,3) t(5,8) c(2)] p(1) by simp
  have id: "0 \<le> ideal" "ideal \<le> c * (kt * nt)"
    unfolding ideal_def using ideal_nonneg ideal_le[OF peak w] p peak c(2) tiles fit by simp_all
  have eq: "systolic_estimate e' m k n = result_record (c * (kt * nt))
      (num_trunc (pipelined (kt * nt) (seq_dma_cycles e' bytes) c) - c * (kt * nt))
      (num_trunc (pipelined (kt * nt) (seq_dma_cycles e' bytes) c))
      (utilization ideal (pipelined (kt * nt) (seq_dma_cycles e' bytes) c)) (m * k * n) ideal
      (raw_cycles (me_eff_bw e') (raw_bytes e m k n)) (kt * nt) (kt * nt * bytes) (seq_dma_cycles e' bytes < of_int c)"
    if "e' = e \<or> e' = faster bw e" for e'
    using that t c(1) p peak by (auto simp: systolic_estimate_def Let_def ceil_div_def[of "m * k * n"] bytes_def ideal_def)
  show ?thesis
    by (rule pipelined_claim[where f = systolic_estimate and e = e and bw = bw and m = m and k = k and n = n,
          OF eq[OF disjI1[OF refl]] eq[OF disjI2[OF refl]]])
       (use tiles small fit id p c(2) seq_dma_nonneg[OF fast] seq_dma_faster[OF assms(1,3)] raw_cycles_nonneg
          raw_bytes_nonneg[OF assms(1)] in simp_all)
qed

lemma is_claim:
  assumes "eng_ok e" and "workload_fits e m k n" and "me_eff_bw_weight e \<le> bw" and "is_float bw" and "f = 1 \<or> f = 2"
  shows "engine_claim (\<lambda>e. is_cycles e f) e bw m k n (m * k * n * f) False"
proof -
  note p = fits_pos[OF assms(2)] and s = fits_small[OF assms(1,2)] and fast = faster_ok[OF assms(1,3,4)]
  obtain kt nt mt where t: "ceil_div k (me_H e) = Inr kt" "ceil_div n (me_W e) = Inr nt" "ceil_div m (me_H e) = Inr mt"
    "0 < kt" "kt \<le> k" "0 < nt" "nt \<le> n" "0 < mt" "mt \<le> m"
    by (rule array_tiles[OF assms(1,2)])
  define c where "c = f * (kt + me_H e + me_W e)"
  define bytes where "bytes = f * bits_to_bytes (k * min n (me_W e) * me_w_bits e) + bits_to_bytes (me_H e * k * me_a_bits e)"
  define ideal where "ideal = \<lceil>fdiv_int (m * k * n * f) (peak_macs_per_cycle e)\<rceil>"
  have h: "0 < me_H e" "0 < me_W e" "0 \<le> me_fragment_serialization e" using assms(1) by (simp_all add: eng_ok_def)
  have peak: "0 < peak_macs_per_cycle e" using peak_pos[OF assms(1)] by simp
  have tiles: "0 < mt * nt" "mt * nt \<le> m * n" using t by (auto intro: mult_mono)
  have c0: "0 \<le> c" using assms(5) t h by (auto simp: c_def)
  have cb: "c \<le> k * cycle_scale e m"
  proof -
    have "1 * (me_H e + me_W e) \<le> k * (me_H e + me_W e)" using p h by (intro mult_right_mono) auto
    then have "c \<le> k * (2 * (1 + me_H e + me_W e))" using assms(5) t(5) h t(4) by (auto simp: c_def algebra_simps)
    also have "\<dots> \<le> k * cycle_scale e m" using p h by (intro mult_left_mono) (simp_all add: cycle_scale_def)
    finally show ?thesis .
  qed
  have fit: "c * (mt * nt) < 2 ^ 53"
    by (rule fits_bound[OF assms(1,2) c0 _ cb tiles(2)]) (use tiles p in simp_all)
  have small: "mt * nt \<le> 2 ^ 53" using tiles(2) s(6) by simp
  have id: "0 \<le> ideal" unfolding ideal_def using p peak assms(5) by (intro ideal_nonneg) auto
  have eq: "is_cycles e' f m k n = result_record (c * (mt * nt))
      (num_trunc (pipelined (mt * nt) (seq_dma_cycles e' bytes) c) - c * (mt * nt))
      (num_trunc (pipelined (mt * nt) (seq_dma_cycles e' bytes) c))
      (utilization ideal (PyInt (num_trunc (pipelined (mt * nt) (seq_dma_cycles e' bytes) c)))) (m * k * n * f) ideal
      (raw_cycles (me_eff_bw e') (raw_bytes e m k n * f)) (mt * nt) (mt * nt * bytes) (seq_dma_cycles e' bytes < of_int c)"
    if "e' = e \<or> e' = faster bw e" for e'
    using that t(1-3) p peak by (auto simp: is_cycles_def Let_def ceil_div_def[of "m * k * n * f"] bytes_def ideal_def c_def)
  show ?thesis
    by (rule pipelined_claim[where f = "\<lambda>e. is_cycles e f" and e = e and bw = bw and m = m and k = k and n = n,
          OF eq[OF disjI1[OF refl]] eq[OF disjI2[OF refl]]])
       (use tiles small fit id p c0 seq_dma_nonneg[OF fast] seq_dma_faster[OF assms(1,3)] raw_cycles_nonneg
          raw_bytes_nonneg[OF assms(1)] assms(5) in auto)
qed

lemma fragments:
  assumes "eng_ok e" and "workload_fits e m k n"
  obtains fpt tiles where "fragment_counts e m k n = Inr (fpt, tiles)" and "0 < tiles" and "1 \<le> fpt"
    and "fpt * tiles \<le> m * k * n" and "m * k * n \<le> 2 * (fpt * tiles) * 4096" and "tiles \<le> m * k * n"
proof -
  note p = fits_pos[OF assms(2)] and s = fits_small[OF assms(1,2)]
  obtain kt nt mt where t: "ceil_div k (me_H e) = Inr kt" "ceil_div n (me_W e) = Inr nt" "ceil_div m (me_H e) = Inr mt"
    "0 < kt" "0 < nt" "0 < mt" "(mt - 1) * me_H e < m"
    by (rule array_tiles[OF assms(1,2)])
  have h: "16 \<le> me_H e" "16 \<le> me_W e" "me_H e \<le> 2 ^ 53" "me_W e \<le> 2 ^ 53" using assms(1) by (simp_all add: eng_ok_def)
  have frag: "\<exists>f. \<lceil>fdiv_int x 16\<rceil> = f \<and> 0 < f \<and> f \<le> x \<and> x \<le> f * 16" if "0 < x" "x < 2 ^ 50" for x :: int
    using ceil_div_tiles[of x 16] that by (auto simp: ceil_div_def)
  obtain fm fk fn where f: "\<lceil>fdiv_int m 16\<rceil> = fm" "\<lceil>fdiv_int k 16\<rceil> = fk" "\<lceil>fdiv_int n 16\<rceil> = fn"
    "0 < fm" "fm \<le> m" "m \<le> fm * 16" "0 < fk" "fk \<le> k" "k \<le> fk * 16" "0 < fn" "fn \<le> n" "n \<le> fn * 16"
    using frag[OF p(1) s(2)] frag[OF p(2) s(3)] frag[OF p(3) s(4)] by blast
  have le: "y \<le> z" if "0 < x" "x < 2 ^ 50" "ceil_div x b = Inr y" "\<lceil>fdiv_int x 16\<rceil> = z" "16 \<le> b" "b \<le> 2 ^ 53" for x b y z
  proof -
    have "(of_int x :: rat) / of_int b \<le> of_int x / 16" using that by (intro divide_left_mono) auto
    then have "fdiv_int x b \<le> fdiv_int x 16" by (simp add: fdiv_int_def fl_mono)
    then have "\<lceil>fdiv_int x b\<rceil> \<le> \<lceil>fdiv_int x 16\<rceil>" by (rule ceiling_mono)
    then show ?thesis using that by (auto simp: ceil_div_def split: if_splits)
  qed
  define F T where "F = fm * fk * fn" and "T = mt * kt * nt"
  have tf: "T \<le> F" unfolding F_def T_def
    using le[OF p(1) s(2) t(3) f(1) h(1,3)] le[OF p(2) s(3) t(1) f(2) h(1,3)] le[OF p(3) s(4) t(2) f(3) h(2,4)] t
    by (intro mul_mono3) auto
  have T: "0 < T" using t by (simp add: T_def)
  have Fle: "F \<le> m * k * n" unfolding F_def using f by (intro mul_mono3) auto
  have work: "m * k * n \<le> F * 4096"
  proof -
    have "m * k * n \<le> (fm * 16) * (fk * 16) * (fn * 16)" using f p by (intro mul_mono3) auto
    also have "\<dots> = F * 4096" by (simp add: F_def)
    finally show ?thesis .
  qed
  define q where "q = F div T"
  have q: "1 \<le> q" unfolding q_def using tf T by (simp add: pos_imp_zdiv_pos_iff int_one_le_iff_zero_less)
  have "F = q * T + F mod T" "F mod T < T" "0 \<le> F mod T" using T by (simp_all add: q_def)
  moreover have "1 * T \<le> q * T" using q T by (intro mult_right_mono) auto
  ultimately have "q * T \<le> F" "F \<le> 2 * (q * T)" by linarith+
  moreover have "fragment_counts e m k n = Inr (q, T)"
    using t(1-3) f(1-3) T by (simp add: fragment_counts_def Let_def q_def F_def T_def)
  ultimately show thesis using that[of q T] T q Fle work tf by linarith
qed

lemma wmma_claim:
  assumes "eng_ok e" and "workload_fits e m k n" and "me_eff_bw_weight e \<le> bw" and "is_float bw" and "ops = 1 \<or> ops = 2"
  shows "engine_claim (\<lambda>e. wmma_cycles e w ops) e bw m k n (m * k * n * ops) True"
proof -
  note p = fits_pos[OF assms(2)] and s = fits_small[OF assms(1,2)] and fast = faster_ok[OF assms(1,3,4)]
  obtain fpt tiles where t: "fragment_counts e m k n = Inr (fpt, tiles)" "0 < tiles" "1 \<le> fpt" "fpt * tiles \<le> m * k * n"
    "m * k * n \<le> 2 * (fpt * tiles) * 4096" "tiles \<le> m * k * n"
    by (rule fragments[OF assms(1,2)])
  define g where "g = (me_fragment_serialization e + 48) * ops"
  define bytes where "bytes = w * bits_to_bytes (me_H e * me_W e * me_w_bits e) + bits_to_bytes (m * me_H e * me_a_bits e)"
  define dma where "dma e' = fadd (int_to_float (fpt * 10)) (seq_dma_cycles e' bytes)" for e'
  define ideal where "ideal = \<lceil>fdiv_int (m * k * n * ops) (peak_macs_per_cycle e)\<rceil>"
  have h: "16 \<le> me_H e" "16 \<le> me_W e" "0 \<le> me_fragment_serialization e" using assms(1) by (simp_all add: eng_ok_def)
  have peak: "0 < peak_macs_per_cycle e" "256 \<le> peak_macs_per_cycle e"
    using peak_pos[OF assms(1)] mult_mono[of 16 "me_H e" 16 "me_W e"] h by simp_all
  have g: "0 \<le> g" "48 * ops \<le> g" using h assms(5) by (auto simp: g_def)
  have gb: "g \<le> 1 * cycle_scale e m" using assms(5) h p by (auto simp: g_def cycle_scale_def)
  have ft: "0 \<le> fpt * tiles" using t by simp
  have fit: "g * (fpt * tiles) < 2 ^ 53"
    by (rule fits_bound[OF assms(1,2) g(1) ft gb t(4)]) simp_all
  then have fit': "fpt * g * tiles \<le> 2 ^ 53" by (simp add: ac_simps)
  have small: "tiles \<le> 2 ^ 53" using t(6) s(1) by simp
  have work: "m * k * n * ops \<le> (fpt * g * tiles) * peak_macs_per_cycle e"
  proof -
    have "m * k * n * ops \<le> (2 * (fpt * tiles) * 4096) * ops"
      by (rule mult_right_mono[OF t(5)]) (use assms(5) in auto)
    also have "\<dots> \<le> (fpt * tiles) * (48 * ops) * 256" using ft assms(5) by auto
    also have "\<dots> \<le> (fpt * tiles) * g * peak_macs_per_cycle e" using ft g peak assms(5) by (intro mul_mono3) auto
    finally show ?thesis by (simp add: ac_simps)
  qed
  have c0: "0 \<le> fpt * g * tiles" using t g by simp
  have id: "0 \<le> ideal" "ideal \<le> fpt * g * tiles"
    unfolding ideal_def using ideal_nonneg[of "m * k * n * ops"] ideal_le[OF peak(1) work c0 fit'] p peak assms(5) by auto
  have d: "is_float (dma e')" for e' by (simp add: dma_def fadd_def)
  have d0: "0 \<le> dma (faster bw e)" unfolding dma_def fadd_def
    using seq_dma_nonneg[OF fast] t by (intro fl_nonneg add_nonneg_nonneg int_to_float_nonneg) auto
  have d1: "dma (faster bw e) \<le> dma e" unfolding dma_def fadd_def
    using seq_dma_faster[OF assms(1,3)] by (intro fl_mono add_left_mono)
  have nz: "me_eff_bw_weight e \<noteq> 0" "bw \<noteq> 0" using eng_bw_pos[OF assms(1)] assms(3) by auto
  have eq: "wmma_cycles e' w ops m k n = result_record (fpt * g * tiles)
      (num_trunc (pipelined tiles (dma e') (fpt * g)) - fpt * g * tiles)
      (num_trunc (pipelined tiles (dma e') (fpt * g)))
      (utilization ideal (PyInt (num_trunc (pipelined tiles (dma e') (fpt * g))))) (m * k * n * ops) ideal
      (raw_cycles (me_eff_bw e') (raw_bytes e m k n)) tiles (tiles * bytes) (dma e' < of_int (fpt * g))"
    if "e' = e \<or> e' = faster bw e" for e'
    using that t(1) nz peak(1) by (auto simp: wmma_cycles_def Let_def ceil_div_def bytes_def ideal_def dma_def g_def
        per_fragment_compute_def add.assoc)
  show ?thesis
    by (rule pipelined_claim[where f = "\<lambda>e. wmma_cycles e w ops" and e = e and bw = bw and m = m and k = k and n = n,
          OF eq[OF disjI1[OF refl]] eq[OF disjI2[OF refl]]])
       (use t(2) small fit' id p g d d0 d1 raw_cycles_nonneg raw_bytes_nonneg[OF assms(1)] assms(5) t(3) in auto)
qed

section \<open>Engines that take the larger of computing and loading\<close>

lemma buffer_efficiency_ge:
  assumes "0 \<le> ratio"
  obtains eff where "buffer_efficiency ratio = Inr eff" and "1 / 2 \<le> eff"
proof -
  have "0 < fl 0.3" "1 / 2 \<le> fl 0.55" "0 \<le> fl 0.4" by code_simp+
  moreover from this have d: "0 < fadd (fl 0.3) ratio"
    using fl_mono[of "fl 0.3" "fl 0.3 + ratio"] assms by (simp add: fadd_def fl_idem)
  ultimately have "0 \<le> fdiv (fmul (fl 0.4) ratio) (fadd (fl 0.3) ratio)"
    using assms by (intro fdiv_nonneg) (simp_all add: fmul_def fl_nonneg)
  then have "fl 0.55 \<le> fadd (fl 0.55) (fdiv (fmul (fl 0.4) ratio) (fadd (fl 0.3) ratio))"
    unfolding fadd_def by (intro fl_pos_ge) auto
  then show thesis using that d \<open>1 / 2 \<le> fl 0.55\<close> by (auto simp: buffer_efficiency_def Let_def)
qed

lemma dram_eff_cases:
  assumes "eng_ok e"
  obtains "dram_eff_for_bytes e n = Inr 0" | eff where "dram_eff_for_bytes e n = Inr eff" and "1 / 2 \<le> eff"
proof (cases "n \<le> 0 \<or> fdiv_int n (1024 * 1024) \<le> fdiv_int (me_wbuf_kb e) 1024")
  case False
  have "0 \<le> fdiv_int (me_wbuf_kb e) 1024" using assms by (simp add: fdiv_int_def eng_ok_def fl_nonneg)
  then have "0 \<le> fdiv (fdiv_int (me_wbuf_kb e) 1024) (fdiv_int n (1024 * 1024))" using False by (intro fdiv_nonneg) auto
  then obtain eff where "buffer_efficiency (fdiv (fdiv_int (me_wbuf_kb e) 1024) (fdiv_int n (1024 * 1024))) = Inr eff" "1 / 2 \<le> eff"
    by (rule buffer_efficiency_ge)
  then show thesis using that False by (simp add: dram_eff_for_bytes_def Let_def)
next
  case True
  then have "dram_eff_for_bytes e n = Inr 0 \<or> dram_eff_for_bytes e n = Inr 1" by (auto simp: dram_eff_for_bytes_def Let_def)
  then show thesis using that by fastforce
qed

lemma tiny_float: "0 < fl (1 / 2 ^ 41)"
  by code_simp

lemma weight_dma_faster:
  assumes "eng_ok e" and "me_eff_bw_weight e \<le> bw" and "is_float bw" and "0 \<le> n"
  obtains w w' where "weight_dma e n = Inr w" and "weight_dma (faster bw e) n = Inr w'"
    and "w = PyInt 0 \<and> w' = PyInt 0 \<or> (\<exists>x y. w = PyFloat x \<and> w' = PyFloat y \<and> 0 \<le> y \<and> y \<le> x \<and> is_float x \<and> is_float y)"
proof -
  note claim = that
  consider (none) "dram_eff_for_bytes e n = Inr 0" | (some) eff where "dram_eff_for_bytes e n = Inr eff" "1 / 2 \<le> eff"
    by (rule dram_eff_cases[OF assms(1)])
  then show thesis
  proof cases
    case none
    then show thesis using claim[of "PyInt 0" "PyInt 0"] by (simp add: weight_dma_def)
  next
    case eff: some
  have lo: "1 / 2 ^ 40 \<le> me_eff_bw_weight e" using assms(1) by (simp add: eng_ok_def)
  have pos: "0 < fmul b eff" if "1 / 2 ^ 40 \<le> b" for b
  proof -
    have "1 / 2 ^ 41 = (1 / 2 ^ 40) * (1 / 2 :: rat)" by simp
    also have "\<dots> \<le> b * eff" using that eff(2) by (intro mult_mono) auto
    finally show ?thesis using tiny_float fl_mono[of "1 / 2 ^ 41" "b * eff"] unfolding fmul_def by linarith
  qed
  have mono: "fmul (me_eff_bw_weight e) eff \<le> fmul bw eff"
    unfolding fmul_def using assms(2) eff(2) by (intro fl_mono mult_right_mono) auto
  have p: "0 < fmul (me_eff_bw_weight e) eff" "0 < fmul bw eff" using pos[OF lo] pos[of bw] lo assms(2) by auto
  have "fdiv (int_to_float n) (fmul bw eff) \<le> fdiv (int_to_float n) (fmul (me_eff_bw_weight e) eff)"
    using assms(4) p(1) mono by (intro div_bw_mono int_to_float_nonneg)
  moreover have "0 \<le> fdiv (int_to_float n) (fmul bw eff)" using p assms(4) by (intro fdiv_nonneg int_to_float_nonneg) auto
  ultimately show thesis
    using claim[of "PyFloat (fdiv (int_to_float n) (fmul (me_eff_bw_weight e) eff))" "PyFloat (fdiv (int_to_float n) (fmul bw eff))"]
      eff p by (simp add: weight_dma_def true_div_def)
  qed
qed

lemma max_claim:
  fixes c :: int and D D' :: rat
  assumes "f e m k n = result_record c (num_trunc (PyFloat D)) (num_trunc (num_max (PyInt c) (PyFloat D))) u macs ideal raw t w b"
    and "f (faster bw e) m k n
      = result_record c (num_trunc (PyFloat D')) (num_trunc (num_max (PyInt c) (PyFloat D'))) u' macs ideal raw' t w b'"
    and "0 \<le> c" and "0 \<le> D'" and "D' \<le> D" and "0 \<le> ideal" and "0 \<le> raw" and "0 < macs" and "ideal \<le> c"
    and "0 \<le> u" and "u \<le> 1" and "0 \<le> raw'"
  shows "engine_claim f e bw m k n macs peak"
proof -
  have c: "c \<le> num_trunc (num_max (PyInt c) (PyFloat x))" for x using assms(3) by (intro num_trunc_ge) simp_all
  have i: "ideal \<le> num_trunc (num_max (PyInt c) (PyFloat D))" using c[of D] assms(9) by linarith
  have d: "0 \<le> num_trunc (PyFloat D)" "0 \<le> num_trunc (PyFloat D')"
    using assms(4,5) by (simp_all add: num_trunc_def py_trunc_nonneg)
  have s: "num_trunc (num_max (PyInt c) (PyFloat D')) \<le> num_trunc (num_max (PyInt c) (PyFloat D))"
    by (rule num_trunc_mono) (use assms(5) in auto)
  show ?thesis
    by (rule engine_claimI[where f = f and e = e and bw = bw and m = m and k = k and n = n,
          OF assms(1,2,3) c c d s assms(6,7,8,10) _ assms(12)]) (use i assms(11) in blast)
qed

lemma accumulate_bounds: "1 \<le> accumulate_cycles w a \<and> accumulate_cycles w a \<le> 3"
  by (simp add: accumulate_cycles_def)

lemma ideal_bounds:
  assumes "0 < peak" and "macs \<le> c * peak" and "0 \<le> c" and "c \<le> 2 ^ 53" and "0 < macs"
  shows "ceil_div macs peak = Inr \<lceil>fdiv_int macs peak\<rceil>" and "0 \<le> \<lceil>fdiv_int macs peak\<rceil>" and "\<lceil>fdiv_int macs peak\<rceil> \<le> c"
  using assms ideal_le[OF assms(1-4)] ideal_nonneg[of macs peak] by (simp_all add: ceil_div_def)

lemma utilization_max:
  assumes "0 \<le> ideal" and "ideal \<le> c" and "c \<le> 2 ^ 53"
  shows "0 \<le> utilization ideal (num_max (PyInt c) d) \<and> utilization ideal (num_max (PyInt c) d) \<le> 1"
proof -
  have "(of_int ideal :: rat) \<le> of_int c" using assms(2) by (simp only: of_int_le_iff)
  then have "of_int ideal \<le> num_val (num_max (PyInt c) d)" by auto
  then show ?thesis using utilization_bounds[OF assms(1), of "num_max (PyInt c) d"] assms by linarith
qed

lemma block_claim:
  assumes "eng_ok e" and "workload_fits e m k n" and "me_eff_bw_weight e \<le> bw" and "is_float bw"
  shows "engine_claim block_estimate e bw m k n (m * k * n) True"
proof -
  note p = fits_pos[OF assms(2)] and s = fits_small[OF assms(1,2)] and fast = faster_ok[OF assms(1,3,4)]
  obtain kt nt mt where t: "ceil_div k (me_H e) = Inr kt" "ceil_div n (me_W e) = Inr nt" "ceil_div m (me_H e) = Inr mt"
    "0 < kt" "kt \<le> k" "k \<le> kt * me_H e" "0 < nt" "nt \<le> n" "n \<le> nt * me_W e" "0 < mt"
    by (rule array_tiles[OF assms(1,2)])
  define weight_bytes where "weight_bytes = k * n * me_w_bits e div 8"
  have h: "16 \<le> me_H e" "16 \<le> me_W e" "0 \<le> me_fragment_serialization e" "0 < me_w_bits e" using assms(1) by (simp_all add: eng_ok_def)
  have wb: "0 \<le> weight_bytes" using p h by (simp add: weight_bytes_def div_int_pos_iff)
  obtain w w' where w: "weight_dma e weight_bytes = Inr w" "weight_dma (faster bw e) weight_bytes = Inr w'"
    "w = PyInt 0 \<and> w' = PyInt 0 \<or> (\<exists>x y. w = PyFloat x \<and> w' = PyFloat y \<and> 0 \<le> y \<and> y \<le> x \<and> is_float x \<and> is_float y)"
    by (rule weight_dma_faster[OF assms(1,3,4) wb])
  define per_tile where "per_tile = me_H e + broadcast_sync_cycles + accumulate_cycles (me_w_bits e) (me_a_bits e)"
  define c where "c = m * per_tile * (kt * nt)"
  define D where "D e' v = fadd (as_float (num_mul (PyInt mt) v)) (fmul (int_to_float m) (seq_dma_cycles e' (k * me_a_bits e div 8)))" for e' v
  have pt: "1 \<le> per_tile" "per_tile \<le> cycle_scale e m"
    using accumulate_bounds[of "me_w_bits e" "me_a_bits e"] h p by (simp_all add: per_tile_def broadcast_sync_cycles_def cycle_scale_def)
  have tiles: "0 < kt * nt" "kt * nt \<le> k * n" using t by (auto intro: mult_mono)
  have c0: "0 \<le> c" using p pt tiles by (simp add: c_def)
  have mb: "m * per_tile \<le> m * cycle_scale e m" using pt p by (intro mult_left_mono) auto
  have fit: "c < 2 ^ 53" unfolding c_def
    by (rule fits_bound[OF assms(1,2) _ _ mb tiles(2)]) (use p pt tiles in simp_all)
  have mc: "m \<le> m * per_tile" using p pt by simp
  have work: "m * k * n \<le> c * peak_macs_per_cycle e" unfolding c_def
    using array_work[OF assms(1) _ t(4,7) p(2,3) t(6,9) mc] p(1) by simp
  note peak = conjunct1[OF peak_pos[OF assms(1)]]
  note id = ideal_bounds[OF peak work c0 less_imp_le[OF fit] p(4)]
  have num: "num_add (num_mul (PyInt mt) v) (num_mul (PyInt m) (PyFloat x)) = PyFloat (fadd (as_float (num_mul (PyInt mt) v)) (fmul (int_to_float m) x))"
    for v x by (cases v) simp_all
  have eq: "block_estimate e' m k n = result_record c (num_trunc (PyFloat (D e' v)))
      (num_trunc (num_max (PyInt c) (PyFloat (D e' v)))) (utilization \<lceil>fdiv_int (m * k * n) (peak_macs_per_cycle e)\<rceil> (num_max (PyInt c) (PyFloat (D e' v))))
      (m * k * n) \<lceil>fdiv_int (m * k * n) (peak_macs_per_cycle e)\<rceil> (raw_cycles (me_eff_bw e') (raw_bytes e m k n)) (m * (kt * nt))
      weight_bytes (D e' v \<le> of_int c)"
    if "e' = e \<and> v = w \<or> e' = faster bw e \<and> v = w'" for e' v
    using that t(1-3) w(1,2) id(1) num
    by (auto simp: block_estimate_def Let_def weight_bytes_def per_tile_def c_def D_def)
  have mt0: "0 \<le> int_to_float mt" "0 \<le> int_to_float m" using t(10) p(1) by (simp_all add: int_to_float_nonneg)
  have act: "fmul (int_to_float m) (seq_dma_cycles (faster bw e) x) \<le> fmul (int_to_float m) (seq_dma_cycles e x)"
    "0 \<le> fmul (int_to_float m) (seq_dma_cycles (faster bw e) x)" for x
    unfolding fmul_def using mt0 seq_dma_faster[OF assms(1,3)] seq_dma_nonneg[OF fast]
    by (auto intro!: fl_mono mult_left_mono fl_nonneg)
  have wt: "as_float (num_mul (PyInt mt) w') \<le> as_float (num_mul (PyInt mt) w)" "0 \<le> as_float (num_mul (PyInt mt) w')"
    using w(3) mt0 by (auto simp: fmul_def int_to_float_def intro!: fl_mono mult_left_mono fl_nonneg)
  have D: "D (faster bw e) w' \<le> D e w" "0 \<le> D (faster bw e) w'"
    unfolding D_def fadd_def using act wt by (auto intro!: fl_mono add_mono fl_nonneg)
  have u: "0 \<le> utilization \<lceil>fdiv_int (m * k * n) (peak_macs_per_cycle e)\<rceil> (num_max (PyInt c) d)"
    "utilization \<lceil>fdiv_int (m * k * n) (peak_macs_per_cycle e)\<rceil> (num_max (PyInt c) d) \<le> 1" for d
    using utilization_max[OF id(2,3)] fit by auto
  show ?thesis
    by (rule max_claim[where f = block_estimate and e = e and bw = bw and m = m and k = k and n = n,
          OF eq[OF disjI1[OF conjI[OF refl refl]]] eq[OF disjI2[OF conjI[OF refl refl]]] c0 D(2,1) id(2) _ p(4) id(3) u])
       (rule raw_cycles_nonneg[OF raw_bytes_nonneg[OF assms(1) p(1-3)]])+
qed

text \<open>The output-stationary and group engines take the larger of several integers.\<close>

lemma ideal_macs:
  assumes "eng_ok e" and "0 < macs" and "macs \<le> 2 ^ 53"
  defines "ideal \<equiv> \<lceil>fdiv_int macs (peak_macs_per_cycle e)\<rceil>"
  shows "ceil_div macs (peak_macs_per_cycle e) = Inr ideal" and "0 \<le> ideal"
    and "ideal \<le> c \<Longrightarrow> 0 \<le> utilization ideal (PyInt c) \<and> utilization ideal (PyInt c) \<le> 1"
proof -
  note peak = conjunct1[OF peak_pos[OF assms(1)]]
  have "macs * 1 \<le> macs * peak_macs_per_cycle e" using peak assms(2) by (intro mult_left_mono) auto
  then have work: "macs \<le> macs * peak_macs_per_cycle e" by simp
  note id = ideal_bounds[OF peak work less_imp_le[OF assms(2)] assms(3,2), folded ideal_def]
  show "ceil_div macs (peak_macs_per_cycle e) = Inr ideal" "0 \<le> ideal" by (fact id)+
  assume "ideal \<le> c"
  then have "(of_int ideal :: rat) \<le> num_val (PyInt c)" by simp
  then show "0 \<le> utilization ideal (PyInt c) \<and> utilization ideal (PyInt c) \<le> 1"
    using utilization_bounds[OF id(2), of "PyInt c"] id(3) assms(3) by linarith
qed

lemma os_claim:
  assumes "eng_ok e" and "workload_fits e m k n" and "me_eff_bw_weight e \<le> bw" and "is_float bw"
  shows "engine_claim os_estimate e bw m k n (m * k * n) True"
proof -
  note p = fits_pos[OF assms(2)] and s = fits_small[OF assms(1,2)]
  obtain kt nt mt where t: "ceil_div k (me_H e) = Inr kt" "ceil_div n (me_W e) = Inr nt" "ceil_div m (me_H e) = Inr mt"
    "0 < kt" "0 < nt" "0 < mt"
    by (rule array_tiles[OF assms(1,2)])
  define weight_bytes where "weight_bytes = k * n * me_w_bits e div 8"
  define accum where "accum = accumulate_cycles (me_w_bits e) (me_a_bits e)"
  define c where "c = ((mt - 1) * (me_H e + broadcast_sync_cycles + accum)
    + (last_part m mt (me_H e) + broadcast_sync_cycles + accum)) * (kt * nt)"
  have h: "16 \<le> me_H e" "0 < me_w_bits e" using assms(1) by (simp_all add: eng_ok_def)
  have wb: "0 \<le> weight_bytes" using p h by (simp add: weight_bytes_def div_int_pos_iff)
  obtain w w' where w: "weight_dma e weight_bytes = Inr w" "weight_dma (faster bw e) weight_bytes = Inr w'"
    by (rule weight_dma_faster[OF assms(1,3,4) wb])
  have m53: "m * k * n \<le> 2 ^ 53" using s(1) by simp
  note id = ideal_macs[OF assms(1) p(4) m53]
  have "0 \<le> last_part m mt (me_H e)" using h by (simp add: last_part_def Let_def)
  then have c0: "0 \<le> c"
    using t(4-6) h accumulate_bounds[of "me_w_bits e" "me_a_bits e"] by (simp add: c_def accum_def broadcast_sync_cycles_def)
  define fc where "fc = raw_cycles (me_bw_raw e) (raw_bytes e m k n)"
  define ideal where "ideal = \<lceil>fdiv_int (m * k * n) (peak_macs_per_cycle e)\<rceil>"
  note id = id[folded ideal_def]
  have fc: "0 \<le> fc" unfolding fc_def by (rule raw_cycles_nonneg[OF raw_bytes_nonneg[OF assms(1) p(1-3)]])
  have eq: "os_estimate e' m k n = result_record c c (max (max c ideal) fc) (utilization ideal (PyInt (max (max c ideal) fc)))
      (m * k * n) ideal fc (kt * nt) weight_bytes (num_val (num_add v
        (PyFloat (seq_dma_cycles e' (m * k * me_a_bits e div 8)))) \<le> of_int c)"
    if "e' = e \<and> v = w \<or> e' = faster bw e \<and> v = w'" for e' v
    using that t(1-3) w id(1)
    by (auto simp: os_estimate_def Let_def weight_bytes_def c_def accum_def fc_def)
  show ?thesis
    by (rule engine_claimI[where f = os_estimate and e = e and bw = bw and m = m and k = k and n = n,
          OF eq[OF disjI1[OF conjI[OF refl refl]]] eq[OF disjI2[OF conjI[OF refl refl]]]])
       (use c0 id(2) fc p(4) id(3)[of "max (max c ideal) fc"] in auto)
qed

lemma gmma_claim:
  assumes "eng_ok e" and "workload_fits e m k n" and "me_eff_bw_weight e \<le> bw" and "is_float bw"
  shows "engine_claim gmma_estimate e bw m k n (m * k * n) True"
proof -
  note p = fits_pos[OF assms(2)] and s = fits_small[OF assms(1,2)] and fast = faster_ok[OF assms(1,3,4)]
  obtain kt nt where t: "ceil_div k (me_H e) = Inr kt" "ceil_div n (me_W e) = Inr nt" "0 < kt" "0 < nt"
    by (rule array_tiles[OF assms(1,2)])
  define weight_bytes where "weight_bytes = k * n * me_w_bits e div 8"
  have h: "16 \<le> me_H e" "0 < me_w_bits e" using assms(1) by (simp_all add: eng_ok_def)
  have wb: "0 \<le> weight_bytes" using p h by (simp add: weight_bytes_def div_int_pos_iff)
  obtain w w' where w: "weight_dma e weight_bytes = Inr w" "weight_dma (faster bw e) weight_bytes = Inr w'"
    "w = PyInt 0 \<and> w' = PyInt 0 \<or> (\<exists>x y. w = PyFloat x \<and> w' = PyFloat y \<and> 0 \<le> y \<and> y \<le> x \<and> is_float x \<and> is_float y)"
    by (rule weight_dma_faster[OF assms(1,3,4) wb])
  have m53: "m * k * n \<le> 2 ^ 53" using s(1) by simp
  define ideal where "ideal = \<lceil>fdiv_int (m * k * n) (peak_macs_per_cycle e)\<rceil>"
  note id = ideal_macs[OF assms(1) p(4) m53, folded ideal_def]
  define c where "c = gmma_tile_compute e m * (kt * nt)"
  define fc where "fc = raw_cycles (me_bw_raw e) (raw_bytes e m k n)"
  define D where "D e' v = num_ceil (num_add v (PyFloat (seq_dma_cycles e' (m * k * me_a_bits e div 8))))" for e' v
  have c0: "0 \<le> c" using t(3,4) by (simp add: c_def gmma_tile_compute_def)
  have fc: "0 \<le> fc" unfolding fc_def by (rule raw_cycles_nonneg[OF raw_bytes_nonneg[OF assms(1) p(1-3)]])
  have val: "num_add v (PyFloat x) = PyFloat (fadd (as_float v) x)" for v x by (cases v) simp_all
  have v: "0 \<le> as_float w'" "as_float w' \<le> as_float w" using w(3) by (auto simp: int_to_float_def)
  have d0: "0 \<le> D (faster bw e) w'"
    using v seq_dma_nonneg[OF fast] by (simp add: D_def num_ceil_def val fadd_def fl_nonneg le_ceiling_iff less_le_trans[of "-1" 0])
  have dd: "D (faster bw e) w' \<le> D e w"
    using v seq_dma_faster[OF assms(1,3)] by (simp add: D_def num_ceil_def val fadd_def ceiling_mono fl_mono add_mono)
  have eq: "gmma_estimate e' m k n = result_record c (D e' v) (max (max (max c ideal) fc) (D e' v))
      (utilization ideal (PyInt (max (max (max c ideal) fc) (D e' v)))) (m * k * n) ideal fc (kt * nt) weight_bytes
      (num_val (num_add v (PyFloat (seq_dma_cycles e' (m * k * me_a_bits e div 8)))) \<le> of_int c)"
    if "e' = e \<and> v = w \<or> e' = faster bw e \<and> v = w'" for e' v
    using that t(1-2) w(1,2) id(1)
    by (auto simp: gmma_estimate_def Let_def weight_bytes_def c_def D_def fc_def)
  show ?thesis
    by (rule engine_claimI[where f = gmma_estimate and e = e and bw = bw and m = m and k = k and n = n,
          OF eq[OF disjI1[OF conjI[OF refl refl]]] eq[OF disjI2[OF conjI[OF refl refl]]]])
       (use c0 d0 dd id(2) fc p(4) id(3)[of "max (max (max c ideal) fc) (D e w)"] in auto)
qed

text \<open>The inline-attention engine divides by the peak times the cycles.\<close>

lemma peak_small: "eng_ok e \<Longrightarrow> peak_macs_per_cycle e \<le> 2 ^ 53"
proof -
  assume e: "eng_ok e"
  then have "peak_macs_per_cycle e \<le> 2 ^ 16 * 2 ^ 16 * 2 ^ 16"
    unfolding peak_macs_per_cycle_def eng_ok_def by (intro mul_mono3) auto
  then show ?thesis by simp
qed

lemma share_of_peak:
  assumes "0 < macs" and "macs \<le> 2 ^ 53" and "0 < peak" and "peak \<le> 2 ^ 53" and "0 < c" and "macs \<le> c * peak"
  obtains u where "true_div (PyInt macs) (num_mul (PyInt peak) (num_max (PyInt c) (PyFloat D))) = Inr u" and "0 \<le> u" and "u \<le> 1"
proof -
  define q where "q = as_float (num_mul (PyInt peak) (num_max (PyInt c) (PyFloat D)))"
  have one: "0 \<le> fl (x / y) \<and> fl (x / y) \<le> 1" if "0 < x" "x \<le> y" for x y :: rat
    using that fl_mono[of "x / y" 1] by (simp add: fl_nonneg)
  have mf: "int_to_float macs = of_int macs" "int_to_float peak = of_int peak"
    using assms by (simp_all add: int_to_float_exact)
  have cp: "(of_int macs :: rat) \<le> of_int peak * of_int c" using assms(6) by (metis mult.commute of_int_le_iff of_int_mult)
  have m0: "(0 :: rat) < of_int macs" using assms(1) by simp
  show thesis
  proof (cases "of_int c < D")
    case True
    have "of_int macs \<le> of_int peak * D"
      using True assms(3) by (intro order_trans[OF cp] mult_left_mono) simp_all
    then have "of_int macs \<le> fl (of_int peak * D)" using assms(1,2) by (intro fl_ge_int) auto
    then show thesis using that[of "fl (of_int macs / fl (of_int peak * D))"] one[OF m0] True m0
      by (simp add: true_div_def num_max_def fmul_def fdiv_def mf)
  next
    case False
    then show thesis using that[of "fl (of_int macs / (of_int peak * of_int c))"] one[OF m0 cp] assms(3,5)
      by (simp add: true_div_def num_max_def fdiv_int_def)
  qed
qed

lemma fsa_claim:
  assumes "eng_ok e" and "workload_fits e m k n" and "me_eff_bw_weight e \<le> bw" and "is_float bw"
  shows "engine_claim fsa_estimate e bw m k n (m * k * n) True"
proof -
  note p = fits_pos[OF assms(2)] and s = fits_small[OF assms(1,2)] and fast = faster_ok[OF assms(1,3,4)]
  obtain qk qn qm where t: "0 < qk" "qk \<le> k" "k \<le> qk * me_H e" "0 < qn" "qn \<le> n" "n \<le> qn * me_W e" "0 < qm" "qm \<le> m"
    "floor_div (k + me_H e - 1) (me_H e) = Inr qk" "floor_div (n + me_W e - 1) (me_W e) = Inr qn"
    "floor_div (m + me_H e - 1) (me_H e) = Inr qm"
    by (rule array_tiles[OF assms(1,2)])
  have h: "16 \<le> me_H e" "16 \<le> me_W e" "0 \<le> me_fragment_serialization e" using assms(1) by (simp_all add: eng_ok_def)
  define g where "g = me_H e + m + me_W e"
  define tiles where "tiles = qk * qm * qn"
  define c where "c = tiles * g"
  define weight_bytes where "weight_bytes = k * n * me_w_bits e div 8"
  have tl: "0 < tiles" "tiles \<le> k * m * n" using t unfolding tiles_def by (auto intro!: mul_mono3)
  have g: "m \<le> g" "0 < g" "g \<le> 1 * cycle_scale e m" using h p by (simp_all add: g_def cycle_scale_def)
  have "g * tiles < 2 ^ 53"
    by (rule fits_bound[OF assms(1,2) _ _ g(3) tl(2)]) (use g tl in \<open>simp_all add: ac_simps\<close>)
  then have fit: "c < 2 ^ 53" by (simp add: c_def mult.commute)
  have c0: "0 < c" using tl g by (simp add: c_def)
  have "g * (qk * qn) * 1 \<le> g * (qk * qn) * qm" using t g by (intro mult_left_mono) auto
  then have "(g * (qk * qn)) * peak_macs_per_cycle e \<le> c * peak_macs_per_cycle e"
    using peak_pos[OF assms(1)] by (intro mult_right_mono) (simp_all add: c_def tiles_def ac_simps)
  then have work: "m * k * n \<le> c * peak_macs_per_cycle e"
    using array_work[OF assms(1) _ t(1,4) p(2,3) t(3,6) g(1)] p(1) by linarith
  note peak = conjunct1[OF peak_pos[OF assms(1)]]
  note id = ideal_bounds[OF peak work less_imp_le[OF c0] less_imp_le[OF fit] p(4)]
  obtain eff where eff: "dram_eff_for_bytes e weight_bytes = Inr eff"
    by (rule dram_eff_cases[OF assms(1), of weight_bytes])
  define nb where "nb = (if eff \<le> 0 then 0 else weight_bytes) + m * k * me_a_bits e div 8"
  define D where "D e' = fsa_dma e' nb eff c" for e'
  have "0 < fl 0.01" "0 \<le> fl 0.05" by code_simp+
  then have pos: "0 < max eff (fl 0.01)" "0 \<le> fmul (int_to_float c) (fl 0.05)"
    using c0 by (auto simp: fmul_def intro!: fl_nonneg int_to_float_nonneg mult_nonneg_nonneg less_le_trans[of 0 "fl 0.01"])
  have D0: "0 \<le> D (faster bw e)" using pos by (simp add: D_def fsa_dma_def Let_def)
  have "fdiv (seq_dma_cycles (faster bw e) nb) (max eff (fl 0.01)) \<le> fdiv (seq_dma_cycles e nb) (max eff (fl 0.01))"
    unfolding fdiv_def using seq_dma_faster[OF assms(1,3)] pos(1) by (intro fl_mono divide_right_mono) auto
  then have D1: "D (faster bw e) \<le> D e" by (auto simp: D_def fsa_dma_def Let_def)
  have m53: "m * k * n \<le> 2 ^ 53" using s(1) by simp
  have c': "0 < num_val (num_max (PyInt c) (PyFloat d))" for d using c0 by auto
  obtain u where u: "true_div (PyInt (m * k * n)) (num_mul (PyInt (peak_macs_per_cycle e)) (num_max (PyInt c) (PyFloat (D e)))) = Inr u"
    "0 \<le> u" "u \<le> 1" by (rule share_of_peak[OF p(4) m53 peak peak_small[OF assms(1)] c0 work])
  obtain u' where u': "true_div (PyInt (m * k * n)) (num_mul (PyInt (peak_macs_per_cycle e)) (num_max (PyInt c) (PyFloat (D (faster bw e))))) = Inr u'"
    by (rule share_of_peak[OF p(4) m53 peak peak_small[OF assms(1)] c0 work])
  have eq: "fsa_estimate e' m k n = result_record c (num_trunc (PyFloat (D e')))
      (num_trunc (num_max (PyInt c) (PyFloat (D e')))) v (m * k * n) \<lceil>fdiv_int (m * k * n) (peak_macs_per_cycle e)\<rceil>
      (raw_cycles (me_bw_raw e) (raw_bytes e m k n)) tiles weight_bytes (D e' \<le> of_int c)"
    if "e' = e \<and> v = u \<or> e' = faster bw e \<and> v = u'" for e' v
  proof -
    have "max 1 qk * max 1 qm * max 1 qn = tiles" using t(1,4,7) by (simp add: tiles_def)
    moreover have "tiles * (me_H e + m + me_W e) = c" by (simp add: c_def g_def)
    ultimately show ?thesis using that u(1) u' eff peak c'[of "D e"] c'[of "D (faster bw e)"]
      unfolding fsa_estimate_def D_def nb_def Let_def
      by (elim disjE conjE) (simp_all only: t(9-11) faster_fields faster_derived bind_res_simps flip: weight_bytes_def,
        simp_all add: num_trunc_def)
  qed
  show ?thesis
    by (rule max_claim[where f = fsa_estimate and e = e and bw = bw and m = m and k = k and n = n,
          OF eq[OF disjI1[OF conjI[OF refl refl]]] eq[OF disjI2[OF conjI[OF refl refl]]] less_imp_le[OF c0] D0 D1 id(2) _ p(4) id(3) u(2,3)])
       (rule raw_cycles_nonneg[OF raw_bytes_nonneg[OF assms(1) p(1-3)]])+
qed

section \<open>Tensor cores\<close>

lemma tc_total_val:
  assumes "0 < waves" and "waves \<le> 2 ^ 53" and "0 \<le> c" and "waves * c \<le> 2 ^ 53" and "is_float d" and "is_float l"
  shows "num_val (tc_total waves full c d l) = (if waves = 1 then fl (l + of_int c)
     else if full then fl (fl (d + of_int c) + fl (of_int (waves - 1) * max (of_int c) d))
     else fl (fl (fl (d + of_int c) + fl (of_int (waves - 2) * max (of_int c) d)) + max (of_int c) l))"
proof -
  have "1 * c \<le> waves * c" using assms(1,3) by (intro mult_right_mono) auto
  then have cf: "int_to_float c = of_int c" using assms(3,4) by (intro int_to_float_exact) linarith
  have part: "(waves - 1) * c \<le> 2 ^ 53" "(waves - 2) * c \<le> 2 ^ 53"
    using assms(3,4) mult_right_mono[of "waves - 1" waves c] mult_right_mono[of "waves - 2" waves c] by linarith+
  have add: "num_val (num_add (PyFloat x) b) = fl (x + as_float b)" "as_float (num_add (PyFloat x) b) = fl (x + as_float b)" for x b
    by (cases b; simp add: fadd_def)+
  have fo: "num_add (PyFloat x) b = PyFloat (fl (x + as_float b))" for x b by (cases b) (simp_all add: fadd_def)
  have mx: "as_float (num_max (PyInt c) (PyFloat l)) = max (of_int c) l" using cf by (simp add: num_max_def max_def)
  show ?thesis
  proof (cases "waves = 1")
    case True
    then show ?thesis by (simp add: tc_total_def fo cf fadd_def)
  next
    case False
    then have w: "0 \<le> waves - 1" "0 \<le> waves - 2" "waves - 1 \<le> 2 ^ 53" "waves - 2 \<le> 2 ^ 53" using assms(1,2) by simp_all
    note b1 = bottleneck_val[OF w(1,3) assms(3) part(1) assms(5) disjI1[OF refl]] and b2 = bottleneck_val[OF w(2,4) assms(3) part(2) assms(5) disjI1[OF refl]]
    show ?thesis using False by (simp add: tc_total_def Let_def fo cf mx b1 b2 fadd_def del: of_int_diff)
  qed
qed

lemma tc_total_ge:
  assumes "0 < waves" and "waves \<le> 2 ^ 53" and "0 \<le> c" and "waves * c \<le> 2 ^ 53" and "is_float d" and "is_float l"
    and "0 \<le> d" and "0 \<le> l"
  shows "of_int (waves * c) \<le> num_val (tc_total waves full c d l)"
proof -
  have c1: "1 * c \<le> waves * c" using assms(1,3) by (intro mult_right_mono) auto
  have cold: "of_int c \<le> fl (x + of_int c)" if "0 \<le> x" for x using that assms(3,4) c1 by (intro fl_ge_int) auto
  have mult: "of_int (v * c) \<le> fl (of_int v * max (of_int c) d)" if "0 \<le> v" "v \<le> waves" for v
  proof -
    have "v * c \<le> waves * c" "0 \<le> v * c" using that assms(3) by (auto intro: mult_right_mono)
    then show ?thesis using that assms(3,4) by (intro fl_ge_int) (auto intro!: mult_left_mono)
  qed
  have two: "of_int (x + y) \<le> fl (a + b)" if "of_int x \<le> a" "of_int y \<le> b" "0 \<le> x + y" "x + y \<le> waves * c" for x y a b
    using that assms(4) by (intro fl_ge_int) (auto simp: add_mono)
  consider "waves = 1" | "waves \<noteq> 1" "full" | "waves \<noteq> 1" "\<not> full" by blast
  then show ?thesis
  proof cases
    case 1
    then show ?thesis using cold[OF assms(8)] unfolding tc_total_val[OF assms(1-6)] by simp
  next
    case 2
    then have "of_int (c + (waves - 1) * c) \<le> fl (fl (d + of_int c) + fl (of_int (waves - 1) * max (of_int c) d))"
      using assms(1,3) by (intro two cold[OF assms(7)] mult) (auto simp: algebra_simps)
    then show ?thesis using 2 unfolding tc_total_val[OF assms(1-6)] by (simp add: algebra_simps)
  next
    case 3
    then have A: "of_int (c + (waves - 2) * c) \<le> fl (fl (d + of_int c) + fl (of_int (waves - 2) * max (of_int c) d))"
      using assms(1,3) c1 by (intro two cold[OF assms(7)] mult) (auto simp: algebra_simps)
    have "of_int ((c + (waves - 2) * c) + c)
        \<le> fl (fl (fl (d + of_int c) + fl (of_int (waves - 2) * max (of_int c) d)) + max (of_int c) l)"
      by (rule two[OF A]) (use assms(1,3) 3 c1 in \<open>auto simp: algebra_simps\<close>)
    then show ?thesis using 3 unfolding tc_total_val[OF assms(1-6)] by (simp add: algebra_simps)
  qed
qed

lemma tc_total_mono:
  assumes "0 < waves" and "waves \<le> 2 ^ 53" and "0 \<le> c" and "waves * c \<le> 2 ^ 53" and "is_float d" and "is_float l"
    and "is_float d'" and "is_float l'" and "d' \<le> d" and "l' \<le> l"
  shows "num_trunc (tc_total waves full c d' l') \<le> num_trunc (tc_total waves full c d l)"
proof (rule num_trunc_mono)
  have m: "max (of_int c) d' \<le> max (of_int c) d" "max (of_int c) l' \<le> max (of_int c) l" using assms(9,10) by (auto simp: max_def)
  have w: "waves \<noteq> 1 \<Longrightarrow> 0 \<le> waves - 2" using assms(1) by simp
  have mult: "0 \<le> v \<Longrightarrow> fl (of_int v * max (of_int c) d') \<le> fl (of_int v * max (of_int c) d)" for v :: int
    using m(1) by (intro fl_mono mult_left_mono) auto
  have cold: "fl (d' + of_int c) \<le> fl (d + of_int c)" "fl (l' + of_int c) \<le> fl (l + of_int c)"
    using assms(9,10) by (auto intro!: fl_mono)
  show "num_val (tc_total waves full c d' l') \<le> num_val (tc_total waves full c d l)"
    unfolding tc_total_val[OF assms(1-4,5,6)] tc_total_val[OF assms(1-4,7,8)]
    using cold m mult[of "waves - 1"] mult[of "waves - 2"] w assms(1)
    by (simp del: of_int_diff add: fl_mono add_mono)
qed

lemma waves_of:
  assumes "eng_ok e" and "workload_fits e m k n"
  obtains sm sk sn waves where "\<lceil>fdiv_int k 64\<rceil> = sk" and "\<lceil>fdiv_int m 16\<rceil> = sm" and "\<lceil>fdiv_int n 16\<rceil> = sn"
    and "0 < sk" and "0 < sn" and "ceil_div (sk * sm * sn) (num_tcs e) = Inr waves" and "0 < waves"
    and "waves \<le> m * k * n" and "m * k * n \<le> waves * (num_tcs e * 16384)" and "num_tcs e * 256 \<le> peak_macs_per_cycle e"
    and "0 < num_tcs e" and "0 < sk * sm * sn - num_tcs e * (waves - 1)"
proof -
  note p = fits_pos[OF assms(2)] and s = fits_small[OF assms]
  have part: "\<exists>f. \<lceil>fdiv_int x b\<rceil> = f \<and> 0 < f \<and> f \<le> x \<and> x \<le> f * b" if "0 < x" "x < 2 ^ 50" "0 < b" "b \<le> 64" for x b :: int
    using ceil_div_tiles[of x b] that by (auto simp: ceil_div_def)
  obtain sm sk sn where f: "\<lceil>fdiv_int k 64\<rceil> = sk" "\<lceil>fdiv_int m 16\<rceil> = sm" "\<lceil>fdiv_int n 16\<rceil> = sn" "0 < sk" "sk \<le> k" "k \<le> sk * 64"
    "0 < sm" "sm \<le> m" "m \<le> sm * 16" "0 < sn" "sn \<le> n" "n \<le> sn * 16"
    using part[OF p(2) s(3), of 64] part[OF p(1) s(2), of 16] part[OF p(3) s(4), of 16] by auto
  have h: "16 \<le> me_H e" "16 \<le> me_W e" "me_H e \<le> 2 ^ 16" "me_W e \<le> 2 ^ 16" using assms(1) by (simp_all add: eng_ok_def)
  then have hw: "16 * 16 \<le> me_H e * me_W e" "me_H e * me_W e \<le> 2 ^ 16 * 2 ^ 16" by (intro mult_mono; simp)+
  have tcs: "0 < num_tcs e" "num_tcs e \<le> 2 ^ 53" "num_tcs e * 256 \<le> me_H e * me_W e"
    using hw by (simp_all add: num_tcs_def pos_imp_zdiv_pos_iff div_mult_self_is_m)
  have inv: "0 < sk * sm * sn" "sk * sm * sn \<le> m * k * n"
    using f mul_mono3[of sk k sm m sn n] by (simp_all add: ac_simps)
  then obtain waves where w: "ceil_div (sk * sm * sn) (num_tcs e) = Inr waves" "0 < waves" "waves \<le> sk * sm * sn"
    "sk * sm * sn \<le> waves * num_tcs e" "(waves - 1) * num_tcs e < sk * sm * sn"
    using ceil_div_tiles[OF inv(1) _ tcs(1,2)] s(1) by auto
  have "k * m * n \<le> (sk * 64) * (sm * 16) * (sn * 16)" using f p by (intro mul_mono3) auto
  then have "m * k * n \<le> (sk * sm * sn) * 16384" by (simp add: ac_simps)
  also have "\<dots> \<le> (waves * num_tcs e) * 16384" using w(4) by simp
  finally have work: "m * k * n \<le> waves * (num_tcs e * 16384)" by (simp add: ac_simps)
  have "0 < sk * sm * sn - num_tcs e * (waves - 1)" using w(5) by (simp add: mult.commute)
  then show thesis
    using that[OF f(1-4) f(10) w(1,2) _ work _ tcs(1)] w(3) inv(2) tcs(3) peak_pos[OF assms(1)] by linarith
qed

lemma tc_claim:
  assumes "eng_ok e" and "workload_fits e m k n" and "me_eff_bw_weight e \<le> bw" and "is_float bw" and "f = 1 \<or> f = 2"
  shows "engine_claim (\<lambda>e. tc_cycles e f) e bw m k n (m * k * n * f) True"
proof -
  note p = fits_pos[OF assms(2)] and s = fits_small[OF assms(1,2)] and fast = faster_ok[OF assms(1,3,4)]
  obtain sm sk sn waves where t: "\<lceil>fdiv_int k 64\<rceil> = sk" "\<lceil>fdiv_int m 16\<rceil> = sm" "\<lceil>fdiv_int n 16\<rceil> = sn" "0 < sk" "0 < sn"
    "ceil_div (sk * sm * sn) (num_tcs e) = Inr waves" "0 < waves" "waves \<le> m * k * n"
    "m * k * n \<le> waves * (num_tcs e * 16384)" "num_tcs e * 256 \<le> peak_macs_per_cycle e" "0 < num_tcs e"
    "0 < sk * sm * sn - num_tcs e * (waves - 1)"
    by (rule waves_of[OF assms(1,2)])
  define c where "c = f * per_subtile_compute"
  define inv where "inv = sk * sm * sn"
  define active where "active = inv - num_tcs e * (waves - 1)"
  define parts where "parts = map (\<lambda>i. subtile_bytes e sm sk sn (last_part m sm 16) (last_part k sk 64) (last_part n sn 16)
    (num_tcs e * (waves - 1) + int i)) [0..<nat active]"
  define lw la where "lw = sum_list (map fst parts)" and "la = sum_list (map snd parts)"
  define bytes where "bytes = f * bits_to_bytes (64 * 16 * me_w_bits e) + bits_to_bytes (16 * 64 * me_a_bits e)"
  define d where "d e' = fadd (fmul (int_to_float (num_tcs e)) (seq_dma_cycles e' bytes))
    (int_to_float (num_tcs e * me_descriptor_overhead e))" for e'
  define l where "l e' = fadd (seq_dma_cycles e' (f * lw + la)) (int_to_float (active * me_descriptor_overhead e))" for e'
  define ideal where "ideal = \<lceil>fdiv_int (m * k * n * f) (peak_macs_per_cycle e)\<rceil>"
  define T where "T e' = num_trunc (tc_total waves (active = num_tcs e) c (d e') (l e'))" for e'
  have h: "16 \<le> me_H e" "16 \<le> me_W e" "0 \<le> me_fragment_serialization e" "0 \<le> me_descriptor_overhead e"
    using assms(1) by (simp_all add: eng_ok_def)
  have c: "84 * f = c" "0 \<le> c" "c \<le> 1 * cycle_scale e m"
    using assms(5) h p by (auto simp: c_def per_subtile_compute_def cycle_scale_def)
  have "c * waves < 2 ^ 53" by (rule fits_bound[OF assms(1,2) c(2) _ c(3) t(8)]) (use t(7) in simp_all)
  then have fit: "waves * c \<le> 2 ^ 53" by (simp add: mult.commute)
  have small: "waves \<le> 2 ^ 53" using t(8) s(1) by simp
  have work: "m * k * n * f \<le> (waves * c) * peak_macs_per_cycle e"
  proof -
    have "m * k * n * f \<le> (waves * (num_tcs e * 16384)) * f" using t(9) assms(5) by (intro mult_right_mono) auto
    also have "\<dots> = (waves * f * 64) * (num_tcs e * 256)" by (simp add: ac_simps)
    also have "\<dots> \<le> (waves * f * 84) * peak_macs_per_cycle e" using t(7,10,11) assms(5) by (intro mult_mono) auto
    also have "\<dots> = (waves * c) * peak_macs_per_cycle e" unfolding c(1)[symmetric] by (simp add: ac_simps)
    finally show ?thesis .
  qed
  have c0: "0 \<le> waves * c" using c(2) t(7) by simp
  have macs: "0 < m * k * n * f" using p(4) assms(5) by auto
  note id = ideal_bounds[OF conjunct1[OF peak_pos[OF assms(1)]] work c0 fit macs, folded ideal_def]
  have fl: "is_float (d e')" "is_float (l e')" for e' by (simp_all add: d_def l_def)
  have d0: "0 \<le> d (faster bw e)" "0 \<le> l (faster bw e)"
    using seq_dma_nonneg[OF fast] t(11,12) h(4) unfolding d_def l_def active_def inv_def fadd_def fmul_def
    by (auto intro!: fl_nonneg add_nonneg_nonneg mult_nonneg_nonneg int_to_float_nonneg)
  have d1: "d (faster bw e) \<le> d e" "l (faster bw e) \<le> l e"
    using seq_dma_faster[OF assms(1,3)] t(11) unfolding d_def l_def fadd_def fmul_def
    by (auto intro!: fl_mono add_right_mono mult_left_mono int_to_float_nonneg)
  have d2: "0 \<le> d e" "0 \<le> l e" using d0 d1 by linarith+
  have ge: "waves * c \<le> T e'" if "e' = e \<or> e' = faster bw e" for e'
    unfolding T_def using that d0 d2 by (intro num_trunc_ge c0 tc_total_ge[OF t(7) small c(2) fit fl]) auto
  have T: "T (faster bw e) \<le> T e"
    unfolding T_def by (rule tc_total_mono[OF t(7) small c(2) fit fl fl d1])
  have nz: "\<not> (sn = 0 \<or> sk = 0)" using t(4,5) by simp
  have eq: "tc_cycles e' f m k n = result_record (waves * c) (T e' - waves * c) (T e') (utilization ideal (PyInt (T e')))
      (m * k * n * f) ideal (raw_cycles (me_eff_bw e') (raw_bytes e m k n * f)) inv
      ((waves - 1) * num_tcs e * bytes + f * lw + la) (d e' < of_int c)"
    if "e' = e \<or> e' = faster bw e" for e'
    using that nz t(6) id(1) unfolding tc_cycles_def Let_def t(1-3)
    by (elim disjE) (simp_all add: T_def d_def l_def lw_def la_def parts_def active_def inv_def bytes_def c_def)
  have i: "ideal \<le> T e" using ge[of e] id(3) by simp
  then have "(of_int ideal :: rat) \<le> num_val (PyInt (T e))" by simp
  then have u: "0 \<le> utilization ideal (PyInt (T e))" "utilization ideal (PyInt (T e)) \<le> 1"
    using utilization_bounds[OF id(2), of "PyInt (T e)"] id(3) fit by linarith+
  show ?thesis
    by (rule engine_claimI[where f = "\<lambda>e. tc_cycles e f" and e = e and bw = bw and m = m and k = k and n = n,
          OF eq[OF disjI1[OF refl]] eq[OF disjI2[OF refl]] c0])
       (use ge[of e] ge[of "faster bw e"] T id(2) i u macs raw_cycles_nonneg raw_bytes_nonneg[OF assms(1) p(1-3)] assms(5) in auto)
qed

section \<open>Pairs that share their activations\<close>

lemma block_pair_claim:
  assumes "eng_ok e" and "workload_fits e m k n" and "me_eff_bw_weight e \<le> bw" and "is_float bw"
  shows "engine_claim block_pair e bw m k n (m * k * n * 2) True"
proof -
  note p = fits_pos[OF assms(2)] and s = fits_small[OF assms(1,2)] and fast = faster_ok[OF assms(1,3,4)]
  obtain kt nt mt where t: "ceil_div k (me_H e) = Inr kt" "ceil_div n (me_W e) = Inr nt" "ceil_div m (me_H e) = Inr mt"
    "0 < kt" "kt \<le> k" "k \<le> kt * me_H e" "0 < nt" "nt \<le> n" "n \<le> nt * me_W e" "0 < mt"
    by (rule array_tiles[OF assms(1,2)])
  define wb where "wb = kt * nt * (2 * bits_to_bytes (me_H e * me_W e * me_w_bits e))"
  define ab where "ab = kt * nt * bits_to_bytes (me_H e * me_a_bits e)"
  define per_tile where "per_tile = 2 * (broadcast_sync_cycles + accumulate_cycles (me_w_bits e) (me_a_bits e))"
  define c where "c = m * per_tile * (kt * nt)"
  define D where "D e' = fadd (fmul (int_to_float mt) (seq_dma_cycles e' wb)) (fmul (int_to_float m) (seq_dma_cycles e' ab))" for e'
  have h: "16 \<le> me_H e" "16 \<le> me_W e" "0 \<le> me_fragment_serialization e" using assms(1) by (simp_all add: eng_ok_def)
  have pt: "2 \<le> per_tile" "per_tile \<le> cycle_scale e m"
    using accumulate_bounds[of "me_w_bits e" "me_a_bits e"] h p by (simp_all add: per_tile_def broadcast_sync_cycles_def cycle_scale_def)
  have tiles: "0 < kt * nt" "kt * nt \<le> k * n" using t by (auto intro: mult_mono)
  have c0: "0 \<le> c" using p pt tiles by (simp add: c_def)
  have mb: "m * per_tile \<le> m * cycle_scale e m" using pt p by (intro mult_left_mono) auto
  have fit: "c < 2 ^ 53" unfolding c_def
    by (rule fits_bound[OF assms(1,2) _ _ mb tiles(2)]) (use p pt tiles in simp_all)
  note peak = conjunct1[OF peak_pos[OF assms(1)]]
  have "m * k * n * 2 \<le> (m * 2 * (kt * nt)) * peak_macs_per_cycle e"
    using array_work[OF assms(1) _ t(4,7) p(2,3) t(6,9) order_refl[of m]] p(1) by simp
  also have "\<dots> \<le> c * peak_macs_per_cycle e"
    unfolding c_def using p pt tiles peak by (intro mult_right_mono mult_left_mono) auto
  finally have work: "m * k * n * 2 \<le> c * peak_macs_per_cycle e" .
  have macs: "0 < m * k * n * 2" using p(4) by simp
  define ideal where "ideal = \<lceil>fdiv_int (m * k * n * 2) (peak_macs_per_cycle e)\<rceil>"
  note id = ideal_bounds[OF peak work c0 less_imp_le[OF fit] macs, folded ideal_def]
  have eq: "block_pair e' m k n = result_record c (num_trunc (PyFloat (D e')))
      (num_trunc (num_max (PyInt c) (PyFloat (D e')))) (utilization ideal (num_max (PyInt c) (PyFloat (D e'))))
      (m * k * n * 2) ideal (raw_cycles (me_eff_bw e') (raw_bytes e m k n * 2)) (m * (kt * nt)) wb (D e' \<le> of_int c)"
    if "e' = e \<or> e' = faster bw e" for e'
    using that t(1-3) id(1) by (elim disjE) (simp_all add: block_pair_def Let_def wb_def ab_def per_tile_def c_def D_def)
  have mt0: "0 \<le> int_to_float mt" "0 \<le> int_to_float m" using t(10) p(1) by (simp_all add: int_to_float_nonneg)
  have D: "D (faster bw e) \<le> D e" "0 \<le> D (faster bw e)"
    unfolding D_def fadd_def fmul_def using mt0 seq_dma_faster[OF assms(1,3)] seq_dma_nonneg[OF fast]
    by (auto intro!: fl_mono add_mono mult_left_mono fl_nonneg add_nonneg_nonneg mult_nonneg_nonneg)
  note u = utilization_max[OF id(2,3) less_imp_le[OF fit], of "PyFloat (D e)"]
  show ?thesis
    by (rule max_claim[where f = block_pair and e = e and bw = bw and m = m and k = k and n = n,
          OF eq[OF disjI1[OF refl]] eq[OF disjI2[OF refl]] c0 D(2,1) id(2) _ macs id(3) conjunct1[OF u] conjunct2[OF u]])
       (use raw_cycles_nonneg raw_bytes_nonneg[OF assms(1) p(1-3)] in simp_all)
qed

lemma os_pair_claim:
  assumes "eng_ok e" and "workload_fits e m k n" and "me_eff_bw_weight e \<le> bw" and "is_float bw"
  shows "engine_claim os_pair e bw m k n (m * k * n * 2) False"
proof -
  note p = fits_pos[OF assms(2)] and s = fits_small[OF assms(1,2)] and fast = faster_ok[OF assms(1,3,4)]
  obtain kt nt where t: "ceil_div k (me_H e) = Inr kt" "ceil_div n (me_W e) = Inr nt" "0 < kt" "0 < nt"
    by (rule array_tiles[OF assms(1,2)])
  define wb where "wb = 2 * k * n * me_w_bits e div 8"
  define c where "c = 2 * (me_H e + broadcast_sync_cycles + accumulate_cycles (me_w_bits e) (me_a_bits e)) * (kt * nt)"
  have h: "16 \<le> me_H e" "0 < me_w_bits e" using assms(1) by (simp_all add: eng_ok_def)
  have wb: "0 \<le> wb" using p h by (simp add: wb_def div_int_pos_iff)
  obtain w w' where w: "weight_dma e wb = Inr w" "weight_dma (faster bw e) wb = Inr w'"
    "w = PyInt 0 \<and> w' = PyInt 0 \<or> (\<exists>x y. w = PyFloat x \<and> w' = PyFloat y \<and> 0 \<le> y \<and> y \<le> x \<and> is_float x \<and> is_float y)"
    by (rule weight_dma_faster[OF assms(1,3,4) wb])
  define D where "D e' v = num_trunc (num_add v (PyFloat (seq_dma_cycles e' (m * k * me_a_bits e div 8))))" for e' v
  have c0: "0 \<le> c"
    using t(3,4) h accumulate_bounds[of "me_w_bits e" "me_a_bits e"] by (simp add: c_def broadcast_sync_cycles_def)
  have val: "num_add v (PyFloat x) = PyFloat (fadd (as_float v) x)" for v x by (cases v) simp_all
  have v: "0 \<le> as_float w'" "as_float w' \<le> as_float w" using w(3) by (auto simp: int_to_float_def)
  have d0: "0 \<le> D (faster bw e) w'"
    using v seq_dma_nonneg[OF fast] by (simp add: D_def num_trunc_def val fadd_def fl_nonneg py_trunc_nonneg)
  have dd: "D (faster bw e) w' \<le> D e w"
    using v seq_dma_faster[OF assms(1,3)] by (simp add: D_def num_trunc_def val fadd_def py_trunc_mono fl_mono add_mono)
  define ideal where "ideal = \<lceil>fdiv_int (m * k * n * 2) (peak_macs_per_cycle e)\<rceil>"
  have macs: "0 < m * k * n * 2" "m * k * n * 2 \<le> 2 ^ 53" by (fact fits_pair[OF assms(1,2)])+
  note id = ideal_macs[OF assms(1) macs, folded ideal_def]
  have eq: "os_pair e' m k n = result_record c (D e' v) (max c (D e' v)) (utilization ideal (PyInt (max c (D e' v))))
      (m * k * n * 2) ideal (D e' v) (kt * nt) wb
      (num_val (num_add v (PyFloat (seq_dma_cycles e' (m * k * me_a_bits e div 8)))) \<le> of_int c)"
    if "e' = e \<and> v = w \<or> e' = faster bw e \<and> v = w'" for e' v
    using that t(1-2) w(1,2) id(1) by (elim disjE conjE) (simp_all add: os_pair_def Let_def wb_def c_def D_def)
  have u: "0 \<le> utilization ideal x" for x by (rule utilization_bounds(1)[OF id(2)])
  show ?thesis unfolding engine_claim_def sound_result_def
    using eq[OF disjI1[OF conjI[OF refl refl]]] eq[OF disjI2[OF conjI[OF refl refl]]] c0 d0 dd id(2) macs u
    by (auto simp: result_record_def engine_result_new_def)
qed

lemma fsa_pair_claim:
  assumes "eng_ok e" and "workload_fits e m k n" and "me_eff_bw_weight e \<le> bw" and "is_float bw"
  shows "engine_claim fsa_pair e bw m k n (m * k * n * 2) True"
proof -
  obtain r r' where r: "fsa_estimate e m k n = Inr r" "fsa_estimate (faster bw e) m k n = Inr r'" "sound_result r (m * k * n)"
    "within_peak r" "er_total_cycles r' \<le> er_total_cycles r"
    using fsa_claim[OF assms] by (auto simp: engine_claim_def)
  have "engine_claim fsa_estimate (faster bw e) bw m k n (m * k * n) True"
    using assms by (intro fsa_claim faster_ok) (simp_all add: faster_fits)
  then have "sound_result r' (m * k * n)" using r(2) by (auto simp: engine_claim_def)
  moreover have "0 < m * k * n" "0 < k * (m * n)" using fits_pos[OF assms(2)] by simp_all
  ultimately show ?thesis using r
    by (auto simp: engine_claim_def fsa_pair_def sound_result_def within_peak_def engine_result_new_def)
qed

lemma gmma_pair_claim:
  assumes "eng_ok e" and "workload_fits e m k n" and "me_eff_bw_weight e \<le> bw" and "is_float bw"
  shows "engine_claim gmma_pair e bw m k n (m * k * n * 2) True"
proof -
  note p = fits_pos[OF assms(2)] and s = fits_small[OF assms(1,2)] and fast = faster_ok[OF assms(1,3,4)]
  obtain kt nt where t: "ceil_div k (me_H e) = Inr kt" "ceil_div n (me_W e) = Inr nt" "0 < kt" "kt \<le> k" "0 < nt" "nt \<le> n"
    by (rule array_tiles[OF assms(1,2)])
  have h: "16 \<le> me_H e" "me_H e \<le> 2 ^ 16" "16 \<le> me_W e" "me_W e \<le> 2 ^ 16" "0 \<le> me_fragment_serialization e"
    "0 \<le> me_pipeline_scale e" "me_pipeline_scale e \<le> 1" using assms(1) by (simp_all add: eng_ok_def)
  define q where "q = me_H e + m + me_W e"
  have q: "1 \<le> q" "q \<le> 2 ^ 53" using h(1-4) p(1) s(2) by (simp_all add: q_def)
  have g: "1 \<le> gmma_tile_compute e m" "gmma_tile_compute e m \<le> q"
  proof -
    have "of_int q * me_pipeline_scale e \<le> of_int q * 1" using q h(6,7) by (intro mult_left_mono) auto
    then have "fmul (int_to_float q) (me_pipeline_scale e) \<le> of_int q"
      unfolding fmul_def using q by (intro fl_le_int) (simp_all add: int_to_float_exact)
    then show "gmma_tile_compute e m \<le> q" "1 \<le> gmma_tile_compute e m"
      using q by (simp_all add: gmma_tile_compute_def q_def ceiling_le_iff)
  qed
  define c where "c = 2 * gmma_tile_compute e m"
  define bytes where "bytes = 2 * bits_to_bytes (me_H e * me_W e * me_w_bits e) + bits_to_bytes (m * me_H e * me_a_bits e)"
  define S where "S e' = num_trunc (pipelined (kt * nt) (seq_dma_cycles e' bytes) c)" for e'
  define fc where "fc = raw_cycles (me_bw_raw e) (raw_bytes e m k n * 2)"
  define D where "D e' = num_ceil (num_mul (PyInt (kt * nt)) (PyFloat (seq_dma_cycles e' bytes)))" for e'
  have c: "0 \<le> c" "c \<le> m * cycle_scale e m"
  proof -
    have "1 * cycle_scale e m \<le> m * cycle_scale e m"
      using p(1) h(1,3,5) by (intro mult_right_mono) (auto simp: cycle_scale_def)
    moreover have "c \<le> cycle_scale e m" using g(2) p(1) h(1,3,5) unfolding c_def q_def cycle_scale_def by simp
    ultimately show "c \<le> m * cycle_scale e m" by linarith
  qed (use g in \<open>simp add: c_def\<close>)
  have tiles: "0 < kt * nt" "kt * nt \<le> k * n" using t by (auto intro: mult_mono)
  have fit: "c * (kt * nt) < 2 ^ 53"
    by (rule fits_bound[OF assms(1,2) c(1) _ c(2) tiles(2)]) (use p tiles in simp_all)
  have small: "kt * nt \<le> 2 ^ 53" using tiles(2) s(5) by simp
  have ge: "c * (kt * nt) \<le> S e'" if "eng_ok e'" for e'
    unfolding S_def using c tiles fit small seq_dma_nonneg[OF that]
    by (intro num_trunc_ge pipelined_ge) simp_all
  have S: "S (faster bw e) \<le> S e"
    unfolding S_def using c tiles fit small seq_dma_faster[OF assms(1,3)] by (intro pipelined_mono) simp_all
  have t0: "0 \<le> int_to_float (kt * nt)" using tiles by (simp add: int_to_float_nonneg)
  have D: "D (faster bw e) \<le> D e" "0 \<le> D (faster bw e)"
  proof -
    have "0 \<le> num_val (num_mul (PyInt (kt * nt)) (PyFloat (seq_dma_cycles (faster bw e) bytes)))"
      using t0 seq_dma_nonneg[OF fast] by (simp add: fmul_def fl_nonneg)
    then show "0 \<le> D (faster bw e)" unfolding D_def num_ceil_def by (simp add: le_ceiling_iff)
    show "D (faster bw e) \<le> D e" unfolding D_def num_ceil_def using t0 seq_dma_faster[OF assms(1,3)]
      by (intro ceiling_mono) (simp add: fmul_def fl_mono mult_left_mono)
  qed
  have fc: "0 \<le> fc" unfolding fc_def using raw_cycles_nonneg raw_bytes_nonneg[OF assms(1) p(1-3)] by simp
  define ideal where "ideal = \<lceil>fdiv_int (m * k * n * 2) (peak_macs_per_cycle e)\<rceil>"
  have macs: "0 < m * k * n * 2" "m * k * n * 2 \<le> 2 ^ 53" by (fact fits_pair[OF assms(1,2)])+
  note id = ideal_macs[OF assms(1) macs, folded ideal_def]
  define T where "T e' = max (max (max (S e') ideal) fc) (D e')" for e'
  have eq: "gmma_pair e' m k n = result_record (c * (kt * nt)) (D e') (T e') (utilization ideal (PyInt (T e')))
      (m * k * n * 2) ideal fc (kt * nt) (kt * nt * bytes) (seq_dma_cycles e' bytes \<le> of_int c)"
    if "e' = e \<or> e' = faster bw e" for e'
    using that t(1,2) id(1) by (elim disjE) (simp_all add: gmma_pair_def Let_def S_def c_def D_def T_def fc_def bytes_def)
  show ?thesis
    by (rule engine_claimI[where f = gmma_pair and e = e and bw = bw and m = m and k = k and n = n,
          OF eq[OF disjI1[OF refl]] eq[OF disjI2[OF refl]]])
       (use c tiles ge[OF assms(1)] ge[OF fast] D S id(2) fc macs id(3)[of "T e"] in \<open>auto simp: T_def\<close>)
qed

lemma systolic_pair_claim:
  assumes "eng_ok e" and "workload_fits e m k n" and "me_eff_bw_weight e \<le> bw" and "is_float bw"
  shows "engine_claim systolic_pair e bw m k n (m * k * n * 2) True"
proof -
  note p = fits_pos[OF assms(2)] and s = fits_small[OF assms(1,2)] and fast = faster_ok[OF assms(1,3,4)]
  obtain kt nt where t: "ceil_div k (me_H e) = Inr kt" "ceil_div n (me_W e) = Inr nt" "0 < kt" "kt \<le> k" "k \<le> kt * me_H e"
    "0 < nt" "nt \<le> n" "n \<le> nt * me_W e"
    by (rule array_tiles[OF assms(1,2)])
  have h: "16 \<le> me_H e" "16 \<le> me_W e" "0 \<le> me_fragment_serialization e" using assms(1) by (simp_all add: eng_ok_def)
  define c where "c = 2 * (m + me_W e) + 1"
  define bytes where "bytes = 2 * bits_to_bytes (me_H e * me_W e * me_w_bits e) + bits_to_bytes (m * me_H e * me_a_bits e)"
  define K where "K x = pair_per_ktile nt x c (me_H e + me_W e) (m + me_H e)" for x
  define S where "S e' = num_trunc (num_mul (PyInt kt) (K (seq_dma_cycles e' bytes)))" for e'
  have c: "2 * m \<le> c" "0 \<le> c" using h p by (simp_all add: c_def)
  have cb: "c \<le> m * cycle_scale e m"
  proof -
    have "1 * cycle_scale e m \<le> m * cycle_scale e m"
      using p(1) h by (intro mult_right_mono) (auto simp: cycle_scale_def)
    moreover have "c \<le> cycle_scale e m" using p(1) h unfolding c_def cycle_scale_def by simp
    ultimately show ?thesis by linarith
  qed
  have tiles: "0 < kt * nt" "kt * nt \<le> k * n" using t by (auto intro: mult_mono)
  have fit: "c * (kt * nt) < 2 ^ 53"
    by (rule fits_bound[OF assms(1,2) c(2) _ cb tiles(2)]) (use p tiles in simp_all)
  have cn: "c * nt \<le> 2 ^ 53"
  proof -
    have "c * nt * 1 \<le> c * nt * kt" using t c by (intro mult_left_mono) auto
    then show ?thesis using fit by (simp add: ac_simps)
  qed
  have c1: "1 * c \<le> nt * c" using t c by (intro mult_right_mono) auto
  have b: "as_float (num_mul (PyInt (nt - 1)) (num_max (PyFloat x) (PyInt c))) = fl (of_int (nt - 1) * max (of_int c) x)"
    if "is_float x" for x
  proof -
    have "0 \<le> nt - 1" "nt - 1 \<le> 2 ^ 53" "(nt - 1) * c \<le> 2 ^ 53" using t s(4) cn c by (simp_all add: algebra_simps)
    from bottleneck_val[OF this(1,2) c(2) this(3) that disjI2[OF refl]] show ?thesis by simp
  qed
  have Kx: "K x = PyFloat (let a = fl (int_to_float (me_H e + me_W e) + fl (x + int_to_float c)) in
      fl ((if 2 \<le> nt then fl (a + fl (of_int (nt - 1) * max (of_int c) x)) else a) + int_to_float (m + me_H e)))"
    if "is_float x" for x
  proof -
    have add: "num_add (PyFloat a) v = PyFloat (fl (a + as_float v))" for a v by (cases v) (simp_all add: fadd_def)
    show ?thesis unfolding K_def pair_per_ktile_def Let_def by (simp add: add b[OF that] fadd_def del: of_int_diff)
  qed
  have mono: "num_val (K x) \<le> num_val (K y)" if "x \<le> y" "is_float x" "is_float y" for x y
    unfolding Kx[OF that(2)] Kx[OF that(3)] Let_def using that(1) t(6)
    by (auto simp del: of_int_diff intro!: fl_mono add_mono mult_left_mono simp: max_def)
  have ge: "of_int (c * nt) \<le> num_val (K x)" if "0 \<le> x" "is_float x" for x
  proof -
    have cs: "c \<le> 2 ^ 53" using c1 cn by (simp add: ac_simps)
    have f0: "0 \<le> int_to_float (me_H e + me_W e)" "0 \<le> int_to_float (m + me_H e)"
      using h p(1) by (simp_all add: int_to_float_nonneg)
    have "of_int c \<le> fl (x + int_to_float c)" using that c(2) cs by (intro fl_ge_int) (simp_all add: int_to_float_exact)
    then have a: "of_int c \<le> fl (int_to_float (me_H e + me_W e) + fl (x + int_to_float c))"
      using f0 c(2) cs by (intro fl_ge_int) auto
    have m: "of_int ((nt - 1) * c) \<le> fl (of_int (nt - 1) * max (of_int c) x)" if "2 \<le> nt"
    proof (rule fl_ge_int)
      show "of_int ((nt - 1) * c) \<le> of_int (nt - 1) * max (of_int c) x"
        unfolding of_int_mult using that by (intro mult_left_mono) auto
      have "0 \<le> (nt - 1) * c" "(nt - 1) * c \<le> nt * c" using that c(2) by (simp_all add: mult_right_mono)
      then show "\<bar>(nt - 1) * c\<bar> \<le> 2 ^ 53" using cn by (simp add: mult.commute)
    qed
    let ?a = "fl (int_to_float (me_H e + me_W e) + fl (x + int_to_float c))"
    have bnd: "\<bar>c * nt\<bar> \<le> 2 ^ 53" using c(2) t(6) cn by simp
    have sum: "of_int (c * nt) \<le> (if 2 \<le> nt then fl (?a + fl (of_int (nt - 1) * max (of_int c) x)) else ?a)"
    proof (cases "2 \<le> nt")
      case True
      have "of_int c + of_int ((nt - 1) * c) \<le> ?a + fl (of_int (nt - 1) * max (of_int c) x)"
        using a m[OF True] by (rule add_mono)
      then have "of_int (c * nt) \<le> ?a + fl (of_int (nt - 1) * max (of_int c) x)" by (simp add: algebra_simps)
      then show ?thesis using True fl_ge_int[OF _ bnd] by simp
    next
      case False
      then have "nt = 1" using t(6) by simp
      then show ?thesis using a by simp
    qed
    show ?thesis unfolding Kx[OF that(2)] Let_def num_val.simps
      by (rule fl_ge_int[OF _ bnd]) (rule order_trans[OF sum], use f0(2) in simp)
  qed
  have Kf: "\<exists>y. K x = PyFloat y" if "is_float x" for x by (simp add: Kx[OF that])
  have Ge: "c * (kt * nt) \<le> S e'" if "eng_ok e'" for e'
  proof -
    have "of_int (kt * (c * nt)) \<le> num_val (num_mul (PyInt kt) (K (seq_dma_cycles e' bytes)))"
      using t(3) c(2) t(6) cn fit s(3) t(4) ge[OF seq_dma_nonneg[OF that] seq_dma_float]
      by (intro num_mul_ge) (simp_all add: ac_simps)
    then show ?thesis unfolding S_def using c(2) t by (intro num_trunc_ge) (simp_all add: ac_simps)
  qed
  have S: "S (faster bw e) \<le> S e"
  proof -
    obtain x y where xy: "K (seq_dma_cycles (faster bw e) bytes) = PyFloat x" "K (seq_dma_cycles e bytes) = PyFloat y"
      using Kf seq_dma_float by blast
    have "num_val (PyFloat x) \<le> num_val (PyFloat y)"
      unfolding xy[symmetric] by (rule mono[OF seq_dma_faster[OF assms(1,3)] seq_dma_float seq_dma_float])
    then have "x \<le> y" by simp
    then show ?thesis using t(3) unfolding S_def xy
      by (intro num_trunc_mono) (simp add: fmul_def fl_mono mult_left_mono int_to_float_nonneg)
  qed
  have peak: "0 < peak_macs_per_cycle e" using peak_pos[OF assms(1)] by simp
  have "m * k * n * 2 \<le> (2 * m * (kt * nt)) * peak_macs_per_cycle e"
    using array_work[OF assms(1) _ t(3,6) p(2,3) t(5,8) order_refl[of m]] p(1) by simp
  also have "\<dots> \<le> (c * (kt * nt)) * peak_macs_per_cycle e"
    using c tiles peak by (intro mult_right_mono) auto
  finally have work: "m * k * n * 2 \<le> (c * (kt * nt)) * peak_macs_per_cycle e" .
  define ideal where "ideal = \<lceil>fdiv_int (m * k * n * 2) (peak_macs_per_cycle e)\<rceil>"
  have c0: "0 \<le> c * (kt * nt)" using c tiles by simp
  note macs = fits_pair[OF assms(1,2)]
  note id = ideal_bounds[OF peak work c0 less_imp_le[OF fit] macs(1), folded ideal_def]
  have u: "0 \<le> utilization ideal (PyInt (S e)) \<and> utilization ideal (PyInt (S e)) \<le> 1"
    using id(3) Ge[OF assms(1)] by (intro ideal_macs(3)[OF assms(1) macs, folded ideal_def]) linarith
  have eq: "systolic_pair e' m k n = result_record (c * (kt * nt)) (S e' - c * (kt * nt)) (S e')
      (utilization ideal (PyInt (S e'))) (m * k * n * 2) ideal (raw_cycles (me_eff_bw e') (raw_bytes e m k n * 2))
      (kt * nt) (kt * nt * bytes) (seq_dma_cycles e' bytes < of_int c)"
    if "e' = e \<or> e' = faster bw e" for e'
    using that t(1,2) id(1) unfolding S_def K_def
    by (elim disjE) (simp_all add: systolic_pair_def Let_def c_def bytes_def ideal_def)
  show ?thesis
    by (rule engine_claimI[where f = systolic_pair and e = e and bw = bw and m = m and k = k and n = n,
          OF eq[OF disjI1[OF refl]] eq[OF disjI2[OF refl]] c0])
       (use Ge[OF assms(1)] Ge[OF fast] S id u macs(1) raw_cycles_nonneg raw_bytes_nonneg[OF assms(1) p(1-3)] in auto)
qed

section \<open>Every engine\<close>

lemma all_engines_claim:
  assumes "eng_ok e" and "workload_fits e m k n" and "me_eff_bw_weight e \<le> bw" and "is_float bw"
  shows "engine_claim me_estimate e bw m k n (m * k * n) (me_kind e \<noteq> InputStationary)"
    and "engine_claim me_estimate_pair e bw m k n (m * k * n * 2) (me_kind e \<noteq> InputStationary \<and> me_kind e \<noteq> OsSystolic)"
proof -
  note estimates = systolic_claim[OF assms] os_claim[OF assms] block_claim[OF assms] gmma_claim[OF assms] fsa_claim[OF assms]
    is_claim[OF assms, of 1] wmma_claim[OF assms, of 1 1] tc_claim[OF assms, of 1]
  note pairs = systolic_pair_claim[OF assms] os_pair_claim[OF assms] block_pair_claim[OF assms] gmma_pair_claim[OF assms]
    fsa_pair_claim[OF assms] is_claim[OF assms, of 2] wmma_claim[OF assms, of 2 2] tc_claim[OF assms, of 2]
  show "engine_claim me_estimate e bw m k n (m * k * n) (me_kind e \<noteq> InputStationary)"
    using estimates by (cases "me_kind e")
      (simp_all add: engine_claim_def me_estimate_def is_estimate_def wmma_estimate_def tc_estimate_def)
  show "engine_claim me_estimate_pair e bw m k n (m * k * n * 2) (me_kind e \<noteq> InputStationary \<and> me_kind e \<noteq> OsSystolic)"
    using pairs by (cases "me_kind e")
      (simp_all add: engine_claim_def me_estimate_pair_def is_pair_def wmma_pair_def tc_pair_def)
qed

text \<open>A small engine for examples: a 16 by 16 array of 8-bit products with one operation per product.\<close>

definition small_engine :: "engine_kind \<Rightarrow> mac_engine" where
  "small_engine kind = \<lparr>me_kind = kind, me_H = 16, me_W = 16, me_f_mhz = 1000, me_w_bits = 8, me_a_bits = 8, me_ops_per_mac = 1,
     me_bw_raw = 64, me_dram_efficiency = 1, me_dram_efficiency_random_bw = 1, me_random_penalty = 40, me_bw_multiplier = 1,
     me_eff_bw_weight = 64, me_eff_bw_kv = 64, me_eff_bw = 64, me_l2_sram_kb = 0, me_wbuf_kb = 64, me_kvbuf_kb = 64,
     me_on_chip_capacity_gb = 0, me_on_chip_bw = 0, me_descriptor_overhead = 5, me_pipeline_scale = 1,
     me_fragment_serialization = 16, me_softmax_overhead = 5, me_area_overhead = 0, me_plan = None\<rparr>"

lemma small_engine_ok: "eng_ok (small_engine kind)" "workload_fits (small_engine kind) 16 1024 16"
  "me_eff_bw_weight (small_engine kind) = 64" "me_kind (small_engine kind) = kind" "is_float 64" "is_float 128"
  using fl_numeral[of "num.Bit0 (num.Bit0 (num.Bit0 (num.Bit0 (num.Bit0 (num.Bit0 num.One)))))"]
    fl_numeral[of "num.Bit0 (num.Bit0 (num.Bit0 (num.Bit0 (num.Bit0 (num.Bit0 (num.Bit0 num.One))))))"]
  by (simp_all add: eng_ok_def small_engine_def workload_fits_def is_float_def)

text \<open>C35. Every matrix engine (weight, output and input stationary systolic arrays, block, tensor-core,
  warp, group and inline-attention engine) returns an estimate for every product whose cycles stay below
  \<open>2^53\<close>: it counts exactly \<open>M * K * N\<close> multiplications, its computation fits in its total, no component
  is negative, and except for the input-stationary engine the total is not below the cycles the array
  needs at its peak and the utilization is at most 1.\<close>
theorem estimate_sound:
  assumes "eng_ok e" and "workload_fits e m k n"
  shows "\<exists>r. me_estimate e m k n = Inr r \<and> sound_result r (m * k * n)
    \<and> (within_peak r \<or> me_kind e = InputStationary)"
proof -
  have "is_float (me_eff_bw_weight e)" using assms(1) by (simp add: eng_ok_def)
  from all_engines_claim(1)[OF assms order_refl this] show ?thesis by (auto simp: engine_claim_def)
qed

theorem estimate_sound_witness:
  "\<exists>r. me_estimate (small_engine TensorCore) 16 1024 16 = Inr r \<and> sound_result r 262144 \<and> within_peak r"
  using estimate_sound[OF small_engine_ok(1) small_engine_ok(2), of TensorCore] by (simp add: small_engine_ok(4))

text \<open>C36. The estimate of two products that share their activations (gate and up projection) counts twice
  the multiplications and is sound in the same way, for every engine; it respects the peak of the array
  except for the input-stationary engine and for the output-stationary one.\<close>
theorem estimate_pair_sound:
  assumes "eng_ok e" and "workload_fits e m k n"
  shows "\<exists>r. me_estimate_pair e m k n = Inr r \<and> sound_result r (m * k * n * 2)
    \<and> (within_peak r \<or> me_kind e = InputStationary \<or> me_kind e = OsSystolic)"
proof -
  have "is_float (me_eff_bw_weight e)" using assms(1) by (simp add: eng_ok_def)
  from all_engines_claim(2)[OF assms order_refl this] show ?thesis by (auto simp: engine_claim_def)
qed

theorem estimate_pair_sound_witness:
  "\<exists>r. me_estimate_pair (small_engine Gmma) 16 1024 16 = Inr r \<and> sound_result r 524288 \<and> within_peak r"
  using estimate_pair_sound[OF small_engine_ok(1) small_engine_ok(2), of Gmma] by (simp add: small_engine_ok(4))

text \<open>C37. Placing the weights in a memory of higher bandwidth, as a memory plan does, never makes the
  estimate of any engine larger, for single products and for pairs.\<close>
theorem faster_memory_never_slower:
  assumes "eng_ok e" and "workload_fits e m k n" and "me_eff_bw_weight e \<le> bw" and "is_float bw"
  shows "(\<exists>r r'. me_estimate e m k n = Inr r \<and> me_estimate (set_weight_bw bw e) m k n = Inr r'
      \<and> er_total_cycles r' \<le> er_total_cycles r)
    \<and> (\<exists>r r'. me_estimate_pair e m k n = Inr r \<and> me_estimate_pair (set_weight_bw bw e) m k n = Inr r'
      \<and> er_total_cycles r' \<le> er_total_cycles r)"
  using all_engines_claim[OF assms] by (auto simp: engine_claim_def faster_def)

theorem faster_memory_never_slower_witness:
  "\<exists>r r'. me_estimate (small_engine Block) 16 1024 16 = Inr r
     \<and> me_estimate (set_weight_bw 128 (small_engine Block)) 16 1024 16 = Inr r' \<and> er_total_cycles r' \<le> er_total_cycles r"
  by (rule conjunct1[OF faster_memory_never_slower[OF small_engine_ok(1) small_engine_ok(2) _ small_engine_ok(6)]])
     (simp add: small_engine_ok(3))

text \<open>The two exceptions are real: the input-stationary engine counts one cycle per tile of the reduction,
  and the pair estimate of the output-stationary one does not depend on the number of rows.\<close>

lemmas engine_eval = me_estimate_def me_estimate_pair_def small_engine_def set_weight_bw_def ceil_div_def ceil_fdiv_exact
  bits_to_bytes_def seq_dma_cycles_def fdiv_def int_to_float_exact fl_numeral pipelined_def fadd_def num_trunc_def
  py_trunc_def result_record_def engine_result_new_def utilization_def peak_macs_per_cycle_def raw_cycles_def raw_bytes_def

lemma input_stationary_beats_peak:
  "\<exists>r. me_estimate (set_weight_bw 1024 (small_engine InputStationary)) 16 1024 16 = Inr r
     \<and> er_total_cycles r = 128 \<and> er_ideal_compute_cycles r = 1024"
  by (simp add: is_estimate_def is_cycles_def Let_def engine_eval)

lemma output_stationary_pair_beats_peak:
  "\<exists>r. me_estimate_pair (set_weight_bw 1024 (small_engine OsSystolic)) 256 16 16 = Inr r
     \<and> er_total_cycles r = 42 \<and> er_ideal_compute_cycles r = 512"
proof -
  have "fdiv_int 512 1048576 \<le> fdiv_int 64 1024" unfolding fdiv_int_def by (rule fl_mono) simp
  then have "weight_dma (set_weight_bw 1024 (small_engine OsSystolic)) 512 = Inr (PyInt 0)"
    by (simp add: weight_dma_def dram_eff_for_bytes_def Let_def small_engine_def set_weight_bw_def)
  then show ?thesis
    by (simp add: os_pair_def Let_def accumulate_cycles_def broadcast_sync_cycles_def engine_eval)
qed

end
