(* ===== verification/Work_Legacy.thy ===== *)
theory Work_Legacy
  imports Work_Dims Hw_Compiler Hw_Dma
begin

text \<open>
  Lowering of the legacy traces to workload graphs, \<open>sim/workloads/legacy_adapter.py\<close>: the batch flag,
  the tuple traces of language models, which become a chain of matrix products, and the dict traces of
  vision models. Node labels and attributes, which the graph never reads, are left out; of a dict entry
  the type and the name remain. The main result: lowering a tuple trace of positive dimensions always gives
  a constructed graph whose only topological order is the trace.
\<close>

section \<open>The batch flag\<close>

definition apply_legacy_batch_m :: "int option \<Rightarrow> dimension_bindings \<Rightarrow> dimension_bindings result" where
  "apply_legacy_batch_m batch_m b = (case batch_m of None \<Rightarrow> Inr b
   | Some v \<Rightarrow>
      if v \<noteq> 1 \<and> v \<noteq> 2 then Inl (ConfigError ''batch_m'')
      else let current = bindings_dict b in
        if v = 1
        then (case map_of current ''active_sequences'' of
            Some x \<Rightarrow> if x \<noteq> 1 then Inl (ConfigError ''active_sequences'')
              else dimension_bindings_new (b\<lparr>db_active_sequences := Some 1\<rparr>)
          | None \<Rightarrow> dimension_bindings_new (b\<lparr>db_active_sequences := Some 1\<rparr>))
        else (case map_of current ''token_block'' of
            Some x \<Rightarrow> if x \<noteq> 2 then Inl (ConfigError ''token_block'')
              else dimension_bindings_new (b\<lparr>db_token_block := Some 2\<rparr>)
          | None \<Rightarrow> dimension_bindings_new (b\<lparr>db_token_block := Some 2\<rparr>)))"

section \<open>Tuple traces\<close>

definition legacy_provenance :: "string \<Rightarrow> provenance" where
  "legacy_provenance source = \<lparr>pv_source = source, pv_reference_uri = None\<rparr>"

definition indexed :: "string \<Rightarrow> nat \<Rightarrow> string" where
  "indexed p i = p @ ''_'' @ str_int (int i)"

definition legacy_tensor :: "provenance \<Rightarrow> string \<Rightarrow> int list \<Rightarrow> precision \<Rightarrow> tensor_layout \<Rightarrow> string \<Rightarrow> string list
    \<Rightarrow> tensor_spec result" where
  "legacy_tensor pv i shape prec layout producer consumed = tensor_spec_new (map SInt shape)
     \<lparr>tensor_id = i, ts_shape = [], ts_precision = prec, ts_layout = layout, ts_bytes = 0,
      ts_producer_node = producer, ts_consumed_by = consumed, ts_alias_of = None, ts_provenance = Some pv\<rparr>"

text \<open>The loop over the tensors that records a new reader of the previous output\<close>

definition add_consumer :: "string \<Rightarrow> string \<Rightarrow> tensor_spec list \<Rightarrow> tensor_spec list" where
  "add_consumer i n ts = map (\<lambda>t. if tensor_id t = i \<and> n \<notin> set (ts_consumed_by t)
     then t\<lparr>ts_consumed_by := ts_consumed_by t @ [n]\<rparr> else t) ts"

definition op_of :: "trace_entry \<Rightarrow> string" where
  "op_of e = snd (snd (snd (snd e)))"

definition llm_node_id :: "trace_entry list \<Rightarrow> nat \<Rightarrow> string" where
  "llm_node_id trace i = indexed (''n_'' @ op_of (trace ! i)) i"

type_synonym lowering = "node_spec list \<times> tensor_spec list \<times> string option"

text \<open>One entry; the placeholder activation is built, and dropped when there is a previous output.\<close>

definition llm_step :: "provenance \<Rightarrow> trace_entry list \<Rightarrow> nat \<Rightarrow> lowering \<Rightarrow> lowering result" where
  "llm_step pv trace i st = (case trace ! i of (m, k, n, _, _) \<Rightarrow> case st of (nodes, tensors, prev) \<Rightarrow>
     let nid = llm_node_id trace i in
     bind_res (legacy_tensor pv (indexed ''t_act'' i) [m, k] INT8 ROW_MAJOR
       (if prev = None then ''input'' else llm_node_id trace (i - 1)) [nid]) (\<lambda>act.
     bind_res (legacy_tensor pv (indexed ''t_weight'' i) [k, n] INT4 ROW_MAJOR ''input'' [nid]) (\<lambda>weight.
     bind_res (legacy_tensor pv (indexed ''t_out'' i) [m, n] INT8 ROW_MAJOR nid []) (\<lambda>out.
     let (ts, act_id) = (case prev of None \<Rightarrow> (tensors @ [act, weight, out], tensor_id act)
       | Some p \<Rightarrow> (add_consumer p nid (tensors @ [weight, out]), p)) in
     bind_res (node_spec_new \<lparr>node_id = nid, nd_op_type = ''gemm'', nd_inputs = [act_id, tensor_id weight],
         nd_outputs = [tensor_id out], nd_dependencies = (if 0 < i then [llm_node_id trace (i - 1)] else []),
         nd_provenance = Some pv\<rparr>) (\<lambda>node.
     Inr (nodes @ [node], ts, Some (tensor_id out)))))))"

definition lowered :: "string \<Rightarrow> lowering \<Rightarrow> workload_graph" where
  "lowered name st = \<lparr>wg_version = ''1'', wg_graph_name = name, wg_nodes = fst st, wg_tensors = fst (snd st), wg_symbols = []\<rparr>"

definition lower_llm_tuple_trace :: "(string list \<Rightarrow> string list) \<Rightarrow> trace_entry list \<Rightarrow> string \<Rightarrow> int option
    \<Rightarrow> dimension_bindings \<Rightarrow> (workload_graph \<times> dimension_bindings) result option" where
  "lower_llm_tuple_trace ord trace name batch_m b = (case apply_legacy_batch_m batch_m b of
     Inl e \<Rightarrow> Some (Inl e)
   | Inr eff \<Rightarrow> (case fold_res (llm_step (legacy_provenance (''legacy:llm:'' @ name)) trace) [0..<length trace] ([], [], None) of
       Inl e \<Rightarrow> Some (Inl e)
     | Inr st \<Rightarrow> map_option (\<lambda>r. bind_res r (\<lambda>g. Inr (g, eff))) (workload_graph_new ord (lowered name st))))"

section \<open>Dict traces\<close>

record cv_entry =
  ce_type :: "string option"
  ce_name :: "string option"

definition cv_trace_type_map :: "(string, string) dict" where
  "cv_trace_type_map = map (\<lambda>s. (s, s)) [''pointwise_conv'', ''depthwise_conv'', ''gemm'', ''hard_swish'', ''hard_sigmoid'',
     ''relu'', ''global_avg_pool'', ''add'', ''mul'', ''reshape'', ''shape'', ''concat'', ''reduce_mean'']"

definition cv_name :: "cv_entry \<Rightarrow> nat \<Rightarrow> string" where
  "cv_name e i = or_default (ce_name e) (indexed (or_default (ce_type e) '''') i)"

definition cv_step :: "operator_registry \<Rightarrow> provenance \<Rightarrow> cv_entry list \<Rightarrow> nat \<Rightarrow> lowering \<Rightarrow> lowering result" where
  "cv_step r pv trace i st = (let e = trace ! i; ty = or_default (ce_type e) ''''; name = cv_name e i in
     case map_of cv_trace_type_map ty of None \<Rightarrow> Inl (UnsupportedOperatorError ty name)
   | Some op \<Rightarrow> bind_res (reg_lookup r op) (\<lambda>_. case st of (nodes, tensors, prev) \<Rightarrow>
       let nid = indexed (''n_'' @ name) i in
       bind_res (case prev of Some p \<Rightarrow> Inr (add_consumer p nid tensors, [p])
         | None \<Rightarrow> bind_res (legacy_tensor pv ''t_input'' [1, 3, 224, 224] INT8 NCHW ''input'' [nid]) (\<lambda>t.
             Inr (tensors @ [t], [''t_input'']))) (\<lambda>(ts, inputs).
       bind_res (if op \<in> {''pointwise_conv'', ''depthwise_conv'', ''conv'', ''gemm''}
         then bind_res (legacy_tensor pv (indexed ''t_weight'' i) [1] INT4 ROW_MAJOR ''input'' [nid]) (\<lambda>t.
           Inr (ts @ [t], inputs @ [tensor_id t]))
         else Inr (ts, inputs)) (\<lambda>(ts2, inputs2).
       bind_res (legacy_tensor pv (indexed ''t_out'' i) [1] INT8 NCHW nid []) (\<lambda>out.
       bind_res (node_spec_new \<lparr>node_id = nid, nd_op_type = op, nd_inputs = inputs2, nd_outputs = [tensor_id out],
           nd_dependencies = (if 0 < i then [indexed (''n_'' @ or_default (ce_name (trace ! (i - 1))) (indexed ''op'' (i - 1))) (i - 1)]
             else []), nd_provenance = Some pv\<rparr>) (\<lambda>node.
       Inr (nodes @ [node], ts2 @ [out], Some (tensor_id out))))))))"

definition lower_cv_dict_trace :: "(string list \<Rightarrow> string list) \<Rightarrow> operator_registry \<Rightarrow> cv_entry list \<Rightarrow> string \<Rightarrow> int option
    \<Rightarrow> dimension_bindings \<Rightarrow> (workload_graph \<times> dimension_bindings) result option" where
  "lower_cv_dict_trace ord r trace name images b =
     (case (case images of None \<Rightarrow> Inr b
        | Some c \<Rightarrow> if db_image_count b \<noteq> None \<and> db_image_count b \<noteq> Some c then Inl (ConfigError ''image_count'')
            else dimension_bindings_new (b\<lparr>db_image_count := Some c\<rparr>)) of
      Inl e \<Rightarrow> Some (Inl e)
    | Inr eff \<Rightarrow> (case fold_res (cv_step r (legacy_provenance (''legacy:cv:'' @ name)) trace) [0..<length trace] ([], [], None) of
        Inl e \<Rightarrow> Some (Inl e)
      | Inr st \<Rightarrow> map_option (\<lambda>res. bind_res res (\<lambda>g. Inr (g, eff))) (workload_graph_new ord (lowered name st))))"

section \<open>The default trace\<close>

text \<open>\<open>generate_qwen3b_trace\<close> of \<open>sim/npu_sim.py\<close>\<close>

definition qwen3b_layer :: "int \<Rightarrow> int \<Rightarrow> trace_entry list" where
  "qwen3b_layer m layer = [(m, 2048, 2048, layer, ''Q_proj''), (m, 2048, 2048, layer, ''K_proj''),
     (m, 2048, 2048, layer, ''V_proj''), (m, 2048, 2048, layer, ''O_proj''), (m, 2048, 11008, layer, ''FFN_gate''),
     (m, 2048, 11008, layer, ''FFN_up''), (m, 11008, 2048, layer, ''FFN_down'')]"

definition generate_qwen3b_trace :: "int \<Rightarrow> trace_entry list" where
  "generate_qwen3b_trace m = concat (map (qwen3b_layer m) [0..35])"

section \<open>Identifiers\<close>

lemma fold_res_append: "fold_res f (xs @ ys) s = bind_res (fold_res f xs s) (fold_res f ys)"
  by (induction xs arbitrary: s) (auto simp: bind_res_def split: sum.splits)

lemma indexed_inject [simp]: "indexed p i = indexed q j \<longleftrightarrow> p = q \<and> i = j"
proof
  have free: "takeWhile (\<lambda>c. c \<noteq> CHR ''_'') (rev (str_int n)) = rev (str_int n)" for n
  proof -
    have "CHR ''_'' \<notin> set (str_int n)" using str_int_chars[of "CHR ''_''" n] by (auto simp: is_digit_def)
    then show ?thesis by (auto simp: takeWhile_eq_all_conv)
  qed
  have tail: "takeWhile (\<lambda>c. c \<noteq> CHR ''_'') (rev (indexed r n)) = rev (str_int (int n))" for r n
    using free[of "int n"] by (simp add: indexed_def takeWhile_append)
  assume e: "indexed p i = indexed q j"
  then have "rev (str_int (int i)) = rev (str_int (int j))" using tail[of p i] tail[of q j] by (simp only: e)
  then have "str_int (int i) = str_int (int j)" by simp
  then have "py_int10 (str_int (int i)) = py_int10 (str_int (int j))" by (rule arg_cong)
  then have "i = j" by (simp only: py_int10_str) simp
  with e show "p = q \<and> i = j" by (simp add: indexed_def)
qed simp

lemma strip_empty: "strip s = [] \<longleftrightarrow> (\<forall>c\<in>set s. py_isspace c)"
proof -
  have "lstrip (rev (lstrip s)) = [] \<longleftrightarrow> lstrip s = []"
  proof (cases "lstrip s")
    case (Cons c cs)
    then have "\<not> py_isspace c" using hd_dropWhile[of py_isspace s] by (simp add: lstrip_def)
    then show ?thesis using Cons by (simp add: lstrip_def dropWhile_eq_Nil_conv)
  next
    case Nil
    then show ?thesis by (simp only: rev.simps) (simp add: lstrip_def)
  qed
  then have "strip s = [] \<longleftrightarrow> lstrip s = []" by (simp only: strip_def rev_is_Nil_conv)
  then show ?thesis by (simp add: lstrip_def dropWhile_eq_Nil_conv)
qed

lemma indexed_not_empty [simp]: "indexed p i \<noteq> []" "indexed p i \<noteq> ''input''" "\<not> blank_id (indexed p i)"
proof -
  have u: "CHR ''_'' \<in> set (indexed p i)" by (simp add: indexed_def)
  then show "indexed p i \<noteq> []" "indexed p i \<noteq> ''input''" by auto
  have "\<not> py_isspace (CHR ''_'')" by (simp add: py_isspace_def)
  then show "\<not> blank_id (indexed p i)" using u by (auto simp: blank_id_def strip_empty)
qed

section \<open>The lowered chain\<close>

definition llm_tensor :: "provenance \<Rightarrow> string \<Rightarrow> int list \<Rightarrow> precision \<Rightarrow> string \<Rightarrow> string list \<Rightarrow> tensor_spec" where
  "llm_tensor pv i shape prec producer consumed = \<lparr>tensor_id = i, ts_shape = map Fixed shape, ts_precision = prec,
     ts_layout = ROW_MAJOR, ts_bytes = 0, ts_producer_node = producer, ts_consumed_by = consumed, ts_alias_of = None,
     ts_provenance = Some pv\<rparr>"

definition llm_tensors :: "provenance \<Rightarrow> trace_entry list \<Rightarrow> nat \<Rightarrow> nat \<Rightarrow> tensor_spec list" where
  "llm_tensors pv trace j i = (case trace ! i of (m, k, n, _, _) \<Rightarrow>
     (if i = 0 then [llm_tensor pv (indexed ''t_act'' 0) [m, k] INT8 ''input'' [llm_node_id trace 0]] else [])
     @ [llm_tensor pv (indexed ''t_weight'' i) [k, n] INT4 ''input'' [llm_node_id trace i],
        llm_tensor pv (indexed ''t_out'' i) [m, n] INT8 (llm_node_id trace i) (if i + 1 < j then [llm_node_id trace (i + 1)] else [])])"

definition llm_input :: "nat \<Rightarrow> string" where
  "llm_input i = (if i = 0 then indexed ''t_act'' 0 else indexed ''t_out'' (i - 1))"

definition llm_node :: "provenance \<Rightarrow> trace_entry list \<Rightarrow> nat \<Rightarrow> node_spec" where
  "llm_node pv trace i = \<lparr>node_id = llm_node_id trace i, nd_op_type = ''gemm'', nd_inputs = [llm_input i, indexed ''t_weight'' i],
     nd_outputs = [indexed ''t_out'' i], nd_dependencies = (if 0 < i then [llm_node_id trace (i - 1)] else []),
     nd_provenance = Some pv\<rparr>"

definition positive_entry :: "trace_entry \<Rightarrow> bool" where
  "positive_entry e \<longleftrightarrow> (case e of (m, k, n, _, _) \<Rightarrow> 0 < m \<and> 0 < k \<and> 0 < n)"

lemma legacy_tensor_ok:
  "0 < a \<Longrightarrow> 0 < b \<Longrightarrow> legacy_tensor pv (indexed p i) [a, b] prec ROW_MAJOR producer consumed
    = Inr (llm_tensor pv (indexed p i) [a, b] prec producer consumed)"
  by (simp add: legacy_tensor_def tensor_spec_new_def reject_bool_in_shape_def validate_shape_def llm_tensor_def)

lemma add_consumer_append [simp]: "add_consumer i n (xs @ ys) = add_consumer i n xs @ add_consumer i n ys"
  by (simp add: add_consumer_def)

lemma add_consumer_other: "\<forall>t\<in>set ts. tensor_id t \<noteq> i \<Longrightarrow> add_consumer i n ts = ts"
  by (simp add: add_consumer_def map_idI)

lemma llm_node_id_inject [simp]: "llm_node_id t i = llm_node_id t j \<longleftrightarrow> i = j"
  by (auto simp: llm_node_id_def)

lemma llm_tensor_fields [simp]: "tensor_id (llm_tensor pv i s p q c) = i" "ts_producer_node (llm_tensor pv i s p q c) = q"
  "ts_consumed_by (llm_tensor pv i s p q c) = c" "ts_alias_of (llm_tensor pv i s p q c) = None"
  "ts_shape (llm_tensor pv i s p q c) = map Fixed s"
  "(llm_tensor pv i s p q c)\<lparr>ts_consumed_by := c'\<rparr> = llm_tensor pv i s p q c'"
  by (simp_all add: llm_tensor_def)

lemma llm_tensors_earlier: "i + 1 < j \<Longrightarrow> llm_tensors pv trace (Suc j) i = llm_tensors pv trace j i"
  by (simp add: llm_tensors_def)

lemma llm_tensors_ids: "t \<in> set (llm_tensors pv trace j i) \<Longrightarrow>
    tensor_id t = indexed ''t_weight'' i \<or> tensor_id t = indexed ''t_out'' i \<or> i = 0 \<and> tensor_id t = indexed ''t_act'' 0"
  by (auto simp: llm_tensors_def split: prod.splits if_splits)

lemma llm_fold:
  assumes "\<forall>e\<in>set trace. positive_entry e" and "j \<le> length trace"
  shows "fold_res (llm_step pv trace) [0..<j] ([], [], None) = Inr (map (llm_node pv trace) [0..<j],
    concat (map (llm_tensors pv trace j) [0..<j]), if j = 0 then None else Some (indexed ''t_out'' (j - 1)))"
  using assms(2)
proof (induction j)
  case (Suc j)
  obtain m k n l nm where e: "trace ! j = (m, k, n, l, nm)" by (cases "trace ! j")
  have "positive_entry (trace ! j)" using Suc.prems assms(1) by (simp add: nth_mem)
  then have p: "0 < m" "0 < k" "0 < n" using e by (simp_all add: positive_entry_def)
  have node: "node_spec_new (llm_node pv trace j) = Inr (llm_node pv trace j)"
    by (simp add: node_spec_new_def llm_node_def llm_node_id_def) (simp add: blank_id_def strip_empty py_isspace_def)
  let ?w = "llm_tensor pv (indexed ''t_weight'' j) [k, n] INT4 ''input'' [llm_node_id trace j]"
  let ?o = "llm_tensor pv (indexed ''t_out'' j) [m, n] INT8 (llm_node_id trace j) []"
  have last: "add_consumer (indexed ''t_out'' (j - 1)) (llm_node_id trace j) (concat (map (llm_tensors pv trace j) [0..<j]) @ [?w, ?o])
      = concat (map (llm_tensors pv trace (Suc j)) [0..<Suc j])" if j: "0 < j"
  proof -
    obtain q where q: "j = Suc q" using j by (cases j) auto
    have "concat (map (llm_tensors pv trace j) [0..<q]) = concat (map (llm_tensors pv trace (Suc j)) [0..<q])"
      using q by (intro arg_cong[where f = concat] map_cong) (simp_all add: llm_tensors_earlier)
    moreover have "add_consumer (indexed ''t_out'' q) (llm_node_id trace j) (concat (map (llm_tensors pv trace j) [0..<q]))
        = concat (map (llm_tensors pv trace j) [0..<q])"
      by (rule add_consumer_other) (auto dest!: llm_tensors_ids)
    ultimately have early: "add_consumer (indexed ''t_out'' q) (llm_node_id trace j) (concat (map (llm_tensors pv trace j) [0..<q]))
        = concat (map (llm_tensors pv trace (Suc j)) [0..<q])" by simp
    have here: "add_consumer (indexed ''t_out'' q) (llm_node_id trace j) (llm_tensors pv trace j q) = llm_tensors pv trace (Suc j) q"
      using q by (auto simp: llm_tensors_def add_consumer_def split: prod.splits)
    have new: "add_consumer (indexed ''t_out'' q) (llm_node_id trace j) [?w, ?o] = llm_tensors pv trace (Suc j) j"
      using q e by (simp add: llm_tensors_def add_consumer_def)
    show ?thesis using early here new q by simp
  qed
  have step: "llm_step pv trace j (ns, ts, pr) = Inr (ns @ [llm_node pv trace j],
      (case pr of None \<Rightarrow> ts @ llm_tensors pv trace (Suc j) j | Some x \<Rightarrow> add_consumer x (llm_node_id trace j) (ts @ [?w, ?o])),
      Some (indexed ''t_out'' j))" if "pr = (if j = 0 then None else Some (indexed ''t_out'' (j - 1)))" for ns ts pr
    using that e node[unfolded llm_node_def llm_input_def]
    by (cases "j = 0") (simp_all add: llm_step_def legacy_tensor_ok p Let_def llm_node_def llm_input_def llm_tensors_def)
  show ?case using Suc last step[of "if j = 0 then None else Some (indexed ''t_out'' (j - 1))"]
    by (auto simp: fold_res_append)
qed simp

section \<open>Its graph\<close>

definition llm_graph :: "provenance \<Rightarrow> trace_entry list \<Rightarrow> string \<Rightarrow> workload_graph" where
  "llm_graph pv trace name = lowered name (map (llm_node pv trace) [0..<length trace],
     concat (map (llm_tensors pv trace (length trace)) [0..<length trace]), None)"

lemma llm_graph_fields [simp]: "wg_version (llm_graph pv trace name) = ''1''"
  "wg_nodes (llm_graph pv trace name) = map (llm_node pv trace) [0..<length trace]"
  "wg_tensors (llm_graph pv trace name) = concat (map (llm_tensors pv trace (length trace)) [0..<length trace])"
  by (simp_all add: llm_graph_def lowered_def)

lemma llm_node_fields [simp]: "node_id (llm_node pv trace i) = llm_node_id trace i"
  "nd_inputs (llm_node pv trace i) = [llm_input i, indexed ''t_weight'' i]"
  "nd_outputs (llm_node pv trace i) = [indexed ''t_out'' i]"
  "nd_dependencies (llm_node pv trace i) = (if 0 < i then [llm_node_id trace (i - 1)] else [])"
  by (simp_all add: llm_node_def)

lemma producer_map_tensor:
  "map_of (producer_map g) i = Some p \<Longrightarrow> \<exists>t\<in>set (wg_tensors g). tensor_id t = i \<and> ts_producer_node t = p \<and> p \<noteq> ''input''"
proof -
  let ?f = "\<lambda>t m. if ts_producer_node t \<noteq> [] \<and> ts_producer_node t \<noteq> ''input''
     then AList.update (tensor_id t) (ts_producer_node t) m else m"
  have "map_of (fold ?f ts m) i = Some p \<Longrightarrow> map_of m i = Some p \<or>
      (\<exists>t\<in>set ts. tensor_id t = i \<and> ts_producer_node t = p \<and> p \<noteq> ''input'')" for ts and m :: "(string, string) dict"
  proof (induction ts arbitrary: m)
    case (Cons t ts)
    from Cons.IH[of "?f t m"] Cons.prems show ?case by (auto simp: update_conv' split: if_splits)
  qed simp
  from this[of "wg_tensors g" "[]"] show "map_of (producer_map g) i = Some p \<Longrightarrow>
      \<exists>t\<in>set (wg_tensors g). tensor_id t = i \<and> ts_producer_node t = p \<and> p \<noteq> ''input''"
    by (simp add: producer_map_def)
qed

lemma llm_tensor_cases:
  assumes "t \<in> set (llm_tensors pv trace j i)"
  obtains "tensor_id t = indexed ''t_weight'' i" "ts_producer_node t = ''input''" "ts_consumed_by t = [llm_node_id trace i]"
      "ts_alias_of t = None"
    | "tensor_id t = indexed ''t_out'' i" "ts_producer_node t = llm_node_id trace i" "ts_alias_of t = None"
      "ts_consumed_by t = (if i + 1 < j then [llm_node_id trace (i + 1)] else [])"
    | "i = 0" "tensor_id t = indexed ''t_act'' 0" "ts_producer_node t = ''input''" "ts_consumed_by t = [llm_node_id trace 0]"
      "ts_alias_of t = None"
  using assms by (auto simp: llm_tensors_def split: prod.splits if_splits)

lemma llm_tensor_ids:
  "map tensor_id (llm_tensors pv trace j i) = (if i = 0 then [indexed ''t_act'' 0] else []) @ [indexed ''t_weight'' i, indexed ''t_out'' i]"
  by (simp add: llm_tensors_def split: prod.splits)

lemma llm_ids:
  "distinct (map (llm_node_id trace) [0..<n])"
  "distinct (map tensor_id (concat (map (llm_tensors pv trace j) [0..<n])))"
  "set (map tensor_id (concat (map (llm_tensors pv trace j) [0..<n])))
     = (if 0 < n then {indexed ''t_act'' 0} else {}) \<union> indexed ''t_weight'' ` {0..<n} \<union> indexed ''t_out'' ` {0..<n}"
proof -
  show "distinct (map (llm_node_id trace) [0..<n])" by (simp add: distinct_map inj_on_def)
  have ids: "set (map tensor_id (concat (map (llm_tensors pv trace j) [0..<n])))
     = (if 0 < n then {indexed ''t_act'' 0} else {}) \<union> indexed ''t_weight'' ` {0..<n} \<union> indexed ''t_out'' ` {0..<n}" for n
    by (induction n) (auto simp: llm_tensor_ids atLeast0_lessThan_Suc simp flip: set_map)
  show "set (map tensor_id (concat (map (llm_tensors pv trace j) [0..<n])))
     = (if 0 < n then {indexed ''t_act'' 0} else {}) \<union> indexed ''t_weight'' ` {0..<n} \<union> indexed ''t_out'' ` {0..<n}" by (rule ids)
  show "distinct (map tensor_id (concat (map (llm_tensors pv trace j) [0..<n])))"
  proof (induction n)
    case (Suc n)
    have "set (map tensor_id (concat (map (llm_tensors pv trace j) [0..<n]))) \<inter> set (map tensor_id (llm_tensors pv trace j n)) = {}"
      unfolding ids llm_tensor_ids by auto
    moreover have "distinct (map tensor_id (llm_tensors pv trace j n))" by (simp add: llm_tensor_ids)
    ultimately show ?case using Suc by (simp only: upt_Suc_append le0 map_append concat_append distinct_append) simp
  qed simp
qed

lemma llm_graph_tensor: "t \<in> set (wg_tensors (llm_graph pv trace name)) \<longleftrightarrow>
    (\<exists>i<length trace. t \<in> set (llm_tensors pv trace (length trace) i))"
  by auto

lemma llm_depends:
  assumes "(u, v) \<in> depends (llm_graph pv trace name)"
  shows "\<exists>j. 0 < j \<and> j < length trace \<and> u = llm_node_id trace (j - 1) \<and> v = llm_node_id trace j"
proof -
  let ?g = "llm_graph pv trace name"
  obtain j where j: "j < length trace" "(u, v) \<in> set (input_edges ?g (llm_node pv trace j)) \<union> set (control_edges ?g (llm_node pv trace j))"
    using assms by (auto simp: depends_def data_deps_def)
  then consider (input) "map_of (producer_map ?g) (llm_input j) = Some u" "v = llm_node_id trace j"
    | (weight) "map_of (producer_map ?g) (indexed ''t_weight'' j) = Some u" "v = llm_node_id trace j"
    | (control) "0 < j" "u = llm_node_id trace (j - 1)" "v = llm_node_id trace j"
    by (auto simp: input_edges_def control_edges_def split: option.splits if_splits)
  moreover have "0 < j \<and> u = llm_node_id trace (j - 1)"
    if pm: "map_of (producer_map ?g) i = Some u" and i: "i = llm_input j \<or> i = indexed ''t_weight'' j" for i
  proof -
    obtain t k where t: "t \<in> set (llm_tensors pv trace (length trace) k)" "tensor_id t = i"
      "ts_producer_node t = u" "u \<noteq> ''input''"
      using producer_map_tensor[OF pm] by (metis llm_graph_tensor)
    from t(1) show ?thesis
    proof (cases rule: llm_tensor_cases)
      case 2
      then show ?thesis using t i by (auto simp: llm_input_def split: if_splits)
    qed (use t in auto)
  qed
  ultimately show ?thesis using j(1) by cases blast+
qed

lemma llm_graph_ok: "graph_ok (llm_graph pv trace name)"
proof -
  let ?g = "llm_graph pv trace name" and ?xs = "map (llm_node_id trace) [0..<length trace]"
  have nodes: "node_ids ?g = llm_node_id trace ` {0..<length trace}" by (simp add: node_ids_def comp_def)
  have tensors: "tensor_ids ?g = (if 0 < length trace then {indexed ''t_act'' 0} else {})
      \<union> indexed ''t_weight'' ` {0..<length trace} \<union> indexed ''t_out'' ` {0..<length trace}"
    using llm_ids(3)[of pv trace "length trace" "length trace"] by (simp add: tensor_ids_def)
  have "topo (depends ?g) ?xs"
    by (auto simp: topo_def take_map dest!: llm_depends)
  then have ac: "acyclic (depends ?g)"
    using llm_ids(1) edges_in_ids[of ?g] by (intro topo_acyclic[of _ ?xs]) (simp_all add: comp_def)
  have refs: "set (nd_inputs n) \<union> set (nd_outputs n) \<subseteq> tensor_ids ?g" if "n \<in> set (wg_nodes ?g)" for n
    using that by (auto simp: tensors llm_input_def)
  have ts: "(ts_producer_node t = [] \<or> ts_producer_node t \<in> insert ''input'' (node_ids ?g))
      \<and> set (ts_consumed_by t) \<subseteq> insert ''input'' (node_ids ?g) \<and> ts_alias_of t = None" if t: "t \<in> set (wg_tensors ?g)" for t
  proof -
    obtain i where i: "i < length trace" "t \<in> set (llm_tensors pv trace (length trace) i)"
      using t unfolding llm_graph_tensor by blast
    from i(2) show ?thesis by (cases rule: llm_tensor_cases) (use i(1) in \<open>auto simp: nodes\<close>)
  qed
  show ?thesis unfolding graph_ok_def
    using ac refs ts llm_ids(1,2) by (auto simp: comp_def)
qed

text \<open>A chain has one topological order.\<close>

lemma chain_order_unique:
  assumes "topo E xs" and "distinct xs" and "distinct ys" and "set xs = set ys"
    and "\<And>j. 0 < j \<Longrightarrow> j < length ys \<Longrightarrow> (ys ! (j - 1), ys ! j) \<in> E"
  shows "xs = ys"
proof -
  have len: "length xs = length ys" using assms(2-4) by (metis distinct_card)
  have "j \<le> length ys \<Longrightarrow> take j xs = take j ys" for j
  proof (induction j)
    case (Suc j)
    then have tk: "take j xs = take j ys" and j: "j < length xs" "j < length ys" using len by simp_all
    obtain q where q: "q < length ys" "xs ! j = ys ! q" using assms(4) j(1) by (metis in_set_conv_nth nth_mem)
    have "\<not> q < j"
    proof
      assume qj: "q < j"
      then have "xs ! q = xs ! j" using tk q(2) by (metis nth_take)
      then have "q = j" using nth_eq_iff_index_eq[OF assms(2), of q j] qj j by simp
      then show False using qj by simp
    qed
    moreover have "\<not> j < q"
    proof
      assume jq: "j < q"
      then have "(ys ! (q - 1), xs ! j) \<in> E" using assms(5)[of q] q by simp
      then have "ys ! (q - 1) \<in> set (take j ys)" using assms(1) j(1) tk by (auto simp: topo_def)
      then obtain r where "r < j" "ys ! (q - 1) = ys ! r" using j by (auto simp: in_set_conv_nth)
      then show False using assms(3) q jq j by (auto simp: nth_eq_iff_index_eq)
    qed
    ultimately have "xs ! j = ys ! j" using q by simp
    then show ?case using tk j by (simp add: take_Suc_conv_app_nth)
  qed simp
  from this[of "length ys"] show ?thesis using len by simp
qed

text \<open>C40. Lowering a tuple trace of positive dimensions always succeeds, whatever order sets are iterated in:
  the graph has one node per entry, which reads the output of its predecessor and its own \<open>K x N\<close> weight, and
  its topological order is the trace.\<close>
theorem lowered_trace_is_chain:
  assumes "ord_ok ord" and "ord_ok ord'" and "\<forall>e\<in>set trace. positive_entry e" and "apply_legacy_batch_m batch_m b = Inr eff"
  shows "\<exists>g. lower_llm_tuple_trace ord trace name batch_m b = Some (Inr (g, eff))
    \<and> length (wg_nodes g) = length trace
    \<and> (\<forall>i<length trace. nd_inputs (wg_nodes g ! i)
          = [if i = 0 then indexed ''t_act'' 0 else indexed ''t_out'' (i - 1), indexed ''t_weight'' i]
        \<and> (\<exists>t m k n l nm. trace ! i = (m, k, n, l, nm) \<and> get_tensor g (indexed ''t_weight'' i) = Inr t \<and> ts_shape t = [Fixed k, Fixed n]))
    \<and> topological_order ord' g = Some (Inr (map (llm_node_id trace) [0..<length trace]))"
proof -
  define pv where "pv = legacy_provenance (''legacy:llm:'' @ name)"
  define g where "g = llm_graph pv trace name"
  have ok: "graph_ok g" by (simp add: g_def llm_graph_ok)
  have new: "workload_graph_new o' g = Some (Inr g)" if "ord_ok o'" for o'
    by (simp add: workload_graph_new_result[OF that] ok)
  have low: "lowered name (map (llm_node pv trace) [0..<length trace],
      concat (map (llm_tensors pv trace (length trace)) [0..<length trace]), x) = g" for x
    by (simp add: g_def llm_graph_def lowered_def)
  have run: "lower_llm_tuple_trace ord trace name batch_m b = Some (Inr (g, eff))"
    using llm_fold[OF assms(3) order_refl, of pv] new[OF assms(1)] assms(4)
    unfolding lower_llm_tuple_trace_def pv_def[symmetric] by (simp add: low)
  obtain xs where xs: "topological_order ord' g = Some (Inr xs)" "distinct xs" "set xs = node_ids g" "topo (depends g) xs"
    using topological_order_correct[OF assms(1,2) new[OF assms(1)]] by blast
  have edge: "(llm_node_id trace (j - 1), llm_node_id trace j) \<in> depends g" if "0 < j" "j < length trace" for j
  proof -
    have "(llm_node_id trace (j - 1), llm_node_id trace j) \<in> set (control_edges g (llm_node pv trace j))"
      using that by (auto simp: control_edges_def g_def)
    then show ?thesis using that by (auto simp: depends_def g_def)
  qed
  have "xs = map (llm_node_id trace) [0..<length trace]"
    using xs llm_ids(1) edge by (intro chain_order_unique[OF xs(4,2)]) (simp_all add: node_ids_def g_def comp_def)
  then have topo: "topological_order ord' g = Some (Inr (map (llm_node_id trace) [0..<length trace]))" using xs(1) by simp
  have weight: "\<exists>t m k n l nm. trace ! i = (m, k, n, l, nm) \<and> get_tensor g (indexed ''t_weight'' i) = Inr t \<and> ts_shape t = [Fixed k, Fixed n]"
    if i: "i < length trace" for i
  proof -
    obtain m k n l nm where e: "trace ! i = (m, k, n, l, nm)" by (cases "trace ! i")
    let ?w = "llm_tensor pv (indexed ''t_weight'' i) [k, n] INT4 ''input'' [llm_node_id trace i]"
    have w: "?w \<in> set (wg_tensors g)" using i e by (auto simp: g_def llm_tensors_def intro!: bexI[of _ i])
    then obtain t where t: "find (\<lambda>t. tensor_id t = indexed ''t_weight'' i) (wg_tensors g) = Some t"
      using find_ok[of "\<lambda>t. tensor_id t = indexed ''t_weight'' i" "wg_tensors g"] llm_tensor_fields(1) by blast
    then have "t \<in> set (wg_tensors g)" "tensor_id t = tensor_id ?w" by (auto simp: find_Some_iff)
    moreover have "inj_on tensor_id (set (wg_tensors g))"
      using llm_ids(2)[of pv trace "length trace" "length trace"] unfolding distinct_map by (simp add: g_def)
    ultimately have "t = ?w" using w by (meson inj_onD)
    then show ?thesis using t e by (simp add: get_tensor_def)
  qed
  show ?thesis using run topo weight by (intro exI[of _ g]) (simp add: g_def llm_input_def)
qed

definition no_bindings :: dimension_bindings where
  "no_bindings = \<lparr>db_request_batch = None, db_active_sequences = None, db_token_block = None, db_image_count = None,
     db_action_horizon = None, db_flow_steps = None, db_resident_models = None, db_inflight_jobs = None, db_extra = []\<rparr>"

theorem lowered_trace_is_chain_witness:
  "\<exists>g. lower_llm_tuple_trace rev (generate_qwen3b_trace 1) ''qwen3b_decode'' (Some 1) no_bindings
      = Some (Inr (g, no_bindings\<lparr>db_active_sequences := Some 1\<rparr>))
    \<and> length (wg_nodes g) = 252"
proof -
  have b: "apply_legacy_batch_m (Some 1) no_bindings = Inr (no_bindings\<lparr>db_active_sequences := Some 1\<rparr>)" by code_simp
  have p: "\<forall>e\<in>set (generate_qwen3b_trace 1). positive_entry e"
    by (auto simp: generate_qwen3b_trace_def qwen3b_layer_def positive_entry_def)
  have l: "length (generate_qwen3b_trace 1) = 252"
    by (simp add: generate_qwen3b_trace_def length_concat qwen3b_layer_def comp_def sum_list_triv)
  from lowered_trace_is_chain[OF _ _ p b, of rev rev "''qwen3b_decode''"] l show ?thesis by auto
qed

text \<open>A vision entry without a name is called after its type, but its successor depends on \<open>n_op_<i>_<i>\<close>, a node
  that does not exist; the data dependency still orders the two.\<close>

lemma unnamed_cv_entry_dependency:
  "case lower_cv_dict_trace rev registry_new [\<lparr>ce_type = Some ''relu'', ce_name = None\<rparr>, \<lparr>ce_type = Some ''add'', ce_name = None\<rparr>]
       ''cv'' None no_bindings of
     Some (Inr (g, _)) \<Rightarrow> map node_id (wg_nodes g) = [''n_relu_0_0'', ''n_add_1_1''] \<and> map nd_dependencies (wg_nodes g) = [[], [''n_op_0_0'']]
   | _ \<Rightarrow> False"
  by code_simp

end
