(* ===== verification/Hw_Npu_Sim.thy ===== *)
theory Hw_Npu_Sim
  imports Hw_Latency Hw_Engine_Kinds Hw_Timeline Isa_Parser Work_Legacy
begin

text \<open>
  The system simulator, \<open>sim/npu_sim.py\<close>: it builds every model from one configuration, walks a trace of
  matrix products or a program, charges each operation to the core timeline, and reports the time per token
  with its breakdown. A running total of weight bytes that nothing reads, the tracing switched off by a
  constant, the text of the report and the command line are left out; fields of the report that the
  simulator never sets keep their defaults and are left out too.
\<close>

section \<open>The report\<close>

record layer_breakdown =
  lb_layer :: int
  lb_mxu :: int
  lb_sfu :: int
  lb_vector :: int
  lb_dma_weight :: int
  lb_dma_effective :: int
  lb_kv_cache :: int
  lb_riscv :: int
  lb_noc_latency :: rat
  lb_noc_contention :: rat
  lb_total :: int

definition new_layer :: "int \<Rightarrow> layer_breakdown" where
  "new_layer l = \<lparr>lb_layer = l, lb_mxu = 0, lb_sfu = 0, lb_vector = 0, lb_dma_weight = 0, lb_dma_effective = 0,
     lb_kv_cache = 0, lb_riscv = 0, lb_noc_latency = 0, lb_noc_contention = 0, lb_total = 0\<rparr>"

record simulation_report =
  sr_model_name :: string
  sr_num_layers :: int
  sr_array_height :: int
  sr_array_width :: int
  sr_weight_bits :: int
  sr_freq_mhz :: int
  sr_engine_type :: string
  sr_prefill_prompt_len :: int
  sr_prefill_total_ms :: rat
  sr_prefill_breakdown :: "(string, rat) dict"
  sr_decode_per_token_us :: rat
  sr_decode_tok_per_s :: rat
  sr_decode_breakdown :: "(string, rat) dict"
  sr_layer_breakdowns :: "layer_breakdown list"
  sr_events :: "tl_event list"

section \<open>The simulator\<close>

record npu_sim =
  ns_config :: npu_config
  ns_num_cores :: int
  ns_f_mhz :: int
  ns_mxu :: mac_engine
  ns_sfu :: sfu_model
  ns_vector :: vector_model
  ns_dma :: dma_model
  ns_kv :: kv_model
  ns_dram :: dram_model
  ns_noc :: noc_model
  ns_plan :: memory_access_plan

text \<open>\<open>ord\<close> is the order in which sets are iterated, \<open>digest\<close> the digest of a plan; lowering is the only
  part that could fail to return.\<close>

definition npu_sim_new :: "(string list \<Rightarrow> string list) \<Rightarrow> (memory_access_plan \<Rightarrow> string) \<Rightarrow> npu_config \<Rightarrow> npu_sim result option" where
  "npu_sim_new ord digest c = map_option (\<lambda>low. bind_res low (\<lambda>(graph, _).
     bind_res (build_hierarchy_from_config (hierarchy_config.truncate c)) (\<lambda>h.
     bind_res (build_memory_access_plan digest graph h 1 [] True) (\<lambda>plan.
     bind_res (create_engine digest c None (Some plan)) (\<lambda>mxu.
     bind_res (sfu_new c) (\<lambda>sfu.
     bind_res (vector_new c) (\<lambda>vec.
     bind_res (bind_res (need ''dma'' (nc_dma c)) dma_new) (\<lambda>dma.
     bind_res (kv_new c (Some plan)) (\<lambda>kv.
     bind_res (dram_new c) (\<lambda>dram.
     bind_res (noc_new c) (\<lambda>noc.
     bind_res (case configure_for_model 16 128 36 2048 kv of (Inl e, _) \<Rightarrow> Inl e | (Inr _, kv') \<Rightarrow> Inr kv') (\<lambda>kv'.
     Inr \<lparr>ns_config = c, ns_num_cores = py_trunc (or_default (nc_cores c) 1),
          ns_f_mhz = cfg_int (mac_section c) ''frequency_mhz'' 1000, ns_mxu = mxu, ns_sfu = sfu, ns_vector = vec,
          ns_dma = dma, ns_kv = kv', ns_dram = dram, ns_noc = noc, ns_plan = plan\<rparr>))))))))))))
     (lower_llm_tuple_trace ord (generate_qwen3b_trace 1) ''qwen3b_decode'' None
       \<lparr>db_request_batch = None, db_active_sequences = None, db_token_block = None, db_image_count = None,
        db_action_horizon = None, db_flow_steps = None, db_resident_models = None, db_inflight_jobs = None, db_extra = []\<rparr>)"

section \<open>Charging the timeline\<close>

record sim_state =
  ss_timeline :: core_timeline
  ss_layers :: "(int, layer_breakdown) dict"

definition charge :: "tl_call \<Rightarrow> sim_state \<Rightarrow> sim_state result" where
  "charge k s = (case call k (ss_timeline s) of (Inl e, _) \<Rightarrow> Inl e | (Inr _, t) \<Rightarrow> Inr (s\<lparr>ss_timeline := t\<rparr>))"

definition in_layer :: "int \<Rightarrow> (layer_breakdown \<Rightarrow> layer_breakdown) \<Rightarrow> sim_state \<Rightarrow> sim_state" where
  "in_layer l f s = s\<lparr>ss_layers := AList.update l (f (dget (ss_layers s) l (new_layer l))) (ss_layers s)\<rparr>"

text \<open>An event for the breakdown alone: time goes back to where it was.\<close>

definition charge_hidden :: "tl_call \<Rightarrow> int \<Rightarrow> sim_state \<Rightarrow> sim_state result" where
  "charge_hidden k back s = bind_res (charge k s) (\<lambda>s'. case set_current_cycle back (ss_timeline s') of
     (Inl e, _) \<Rightarrow> Inl e | (Inr _, t) \<Rightarrow> Inr (s'\<lparr>ss_timeline := t\<rparr>))"

definition dims_text :: "string \<Rightarrow> int \<Rightarrow> int \<Rightarrow> int \<Rightarrow> string" where
  "dims_text x m k n = str_int m @ x @ str_int k @ x @ str_int n"

text \<open>One matrix product: the matrix unit, then its transfers.\<close>

definition charge_gemm :: "npu_sim \<Rightarrow> string \<Rightarrow> string \<Rightarrow> engine_result \<Rightarrow> int \<Rightarrow> sim_state \<Rightarrow> sim_state result" where
  "charge_gemm sim label what r layer s =
     bind_res (charge (Mxu label (er_total_cycles r) layer) s) (\<lambda>s.
     let s = in_layer layer (\<lambda>b. b\<lparr>lb_mxu := lb_mxu b + er_total_cycles r\<rparr>) s; mxu_end = total_cycles (ss_timeline s) in
     bind_res (charge_hidden (Dma (''dma_weights '' @ what) (er_dma_cycles r) layer) mxu_end s) (\<lambda>s.
     let (effective, hidden) = estimate_effective (er_dma_cycles r) (er_compute_cycles r);
         s = in_layer layer (\<lambda>b. b\<lparr>lb_dma_effective := lb_dma_effective b + effective,
               lb_dma_weight := lb_dma_weight b + hidden\<rparr>) s in
     bind_res (noc_transfer_cycles (ns_noc sim) (er_weight_bytes r) 0 0) (\<lambda>noc.
     bind_res (charge_hidden (Noc (''noc_weights '' @ what) noc layer) mxu_end s) (\<lambda>s.
     Inr (in_layer layer (\<lambda>b. b\<lparr>lb_noc_latency := fadd (lb_noc_latency b) (int_to_float noc)\<rparr>) s)))))"

definition charge_sfu :: "string \<Rightarrow> int \<Rightarrow> int \<Rightarrow> sim_state \<Rightarrow> sim_state result" where
  "charge_sfu label c layer s = bind_res (charge (Sfu label c layer) s) (\<lambda>s.
     Inr (in_layer layer (\<lambda>b. b\<lparr>lb_sfu := lb_sfu b + c\<rparr>) s))"

definition charge_vector :: "string \<Rightarrow> int \<Rightarrow> int \<Rightarrow> sim_state \<Rightarrow> sim_state result" where
  "charge_vector label c layer s = bind_res (charge (Vec label c layer) s) (\<lambda>s.
     Inr (in_layer layer (\<lambda>b. b\<lparr>lb_vector := lb_vector b + c\<rparr>) s))"

definition charge_kv :: "string \<Rightarrow> int \<Rightarrow> int \<Rightarrow> sim_state \<Rightarrow> sim_state result" where
  "charge_kv label c layer s = bind_res (charge (Kv label c layer) s) (\<lambda>s.
     Inr (in_layer layer (\<lambda>b. b\<lparr>lb_kv_cache := lb_kv_cache b + c\<rparr>) s))"

section \<open>Decode\<close>

text \<open>The softmax in its vector and scalar parts; the cycles of the scalar and of the vector unit.\<close>

definition attention_cycles :: "npu_sim \<Rightarrow> (int \<times> int) result" where
  "attention_cycles sim = bind_res (estimate_softmax_vector_parts (ns_vector sim) 2048) (\<lambda>vs.
     bind_res (estimate_softmax_decomposed (ns_sfu sim) 2048) (\<lambda>ss.
     bind_res (sfu_estimate (ns_sfu sim) ''layernorm'' 2048) (\<lambda>ln.
     bind_res (sfu_estimate (ns_sfu sim) ''rope'' (2048 * 2)) (\<lambda>rope.
     bind_res (estimate_residual_add (ns_vector sim) 2048) (\<lambda>resid.
     Inr (dget vs ''max_reduce'' 0 + dget ss ''exp'' 0 + dget vs ''sum_reduce'' 0 + dget ss ''div'' 0 + ln + rope,
          dget vs ''scale_sub'' 0 + resid))))))"

definition ffn_cycles :: "npu_sim \<Rightarrow> (int \<times> int) result" where
  "ffn_cycles sim = bind_res (sfu_estimate (ns_sfu sim) ''gelu'' 11008) (\<lambda>gelu.
     bind_res (sfu_estimate (ns_sfu sim) ''layernorm'' 2048) (\<lambda>ln.
     bind_res (estimate_residual_add (ns_vector sim) 2048) (\<lambda>resid. Inr (gelu + ln, resid))))"

definition open_layer :: "npu_sim \<Rightarrow> int \<Rightarrow> sim_state \<Rightarrow> sim_state result" where
  "open_layer sim layer s = (if map_of (ss_layers s) layer \<noteq> None then Inr s
     else bind_res (layer_switch_cost (ns_kv sim)) (\<lambda>c.
       charge_kv ''layer_switch'' c layer (s\<lparr>ss_layers := AList.update layer (new_layer layer) (ss_layers s)\<rparr>)))"

definition kv_step :: "npu_sim \<Rightarrow> int \<Rightarrow> int \<Rightarrow> sim_state \<Rightarrow> sim_state result" where
  "kv_step sim pos layer s = bind_res (estimate_per_decode (ns_kv sim) pos) (\<lambda>c. charge_kv ''kv_access'' c layer s)"

definition mergeable :: "trace_entry \<Rightarrow> trace_entry list \<Rightarrow> bool" where
  "mergeable e rest = (case e of (m, k, n, layer, nm) \<Rightarrow> nm = ''FFN_gate'' \<and> (case rest of [] \<Rightarrow> False
     | (m', k', n', layer', nm') # _ \<Rightarrow> nm' = ''FFN_up'' \<and> m' = m \<and> k' = k \<and> layer' = layer))"

definition decode_pair :: "npu_sim \<Rightarrow> trace_entry \<Rightarrow> sim_state \<Rightarrow> sim_state result" where
  "decode_pair sim e s = (case e of (m, k, n, layer, _) \<Rightarrow>
     bind_res (me_estimate_pair (ns_mxu sim) m k n) (\<lambda>r.
     bind_res (charge_gemm sim (''Gate+Up (cache, '' @ dims_text times_sign m k n @ '', '' @ str_int (er_num_tiles r) @ '' dual-tiles)'')
       (''Gate+Up '' @ dims_text ''x'' m k n) r layer s) (kv_step sim 128 layer)))"

definition decode_single :: "npu_sim \<Rightarrow> trace_entry \<Rightarrow> sim_state \<Rightarrow> sim_state result" where
  "decode_single sim e s = (case e of (m, k, n, layer, nm) \<Rightarrow>
     bind_res (me_estimate (ns_mxu sim) m k n) (\<lambda>r.
     bind_res (charge_gemm sim (nm @ '' ('' @ dims_text times_sign m k n @ '', '' @ str_int (er_num_tiles r) @ ''tiles)'')
       (nm @ '' '' @ dims_text ''x'' m k n) r layer s) (\<lambda>s.
     bind_res (if nm = ''O_proj'' then bind_res (attention_cycles sim) (\<lambda>(a, v).
           bind_res (charge_sfu ''attn_sfu (exp+div+ln+rope)'' a layer s) (charge_vector ''attn_vec (sub+residual)'' v layer))
         else if nm = ''FFN_down'' then bind_res (ffn_cycles sim) (\<lambda>(a, v).
           bind_res (charge_sfu ''ffn_sfu (gelu+ln)'' a layer s) (charge_vector ''ffn_vec (residual)'' v layer))
         else Inr s) (\<lambda>s.
     bind_res (kv_step sim 128 layer s) (\<lambda>s.
     Inr (in_layer layer (\<lambda>b. b\<lparr>lb_total := lb_mxu b + lb_sfu b + lb_vector b + lb_kv_cache b + lb_dma_effective b\<rparr>) s))))))"

function decode_loop :: "npu_sim \<Rightarrow> trace_entry list \<Rightarrow> sim_state \<Rightarrow> sim_state result" where
  "decode_loop sim [] s = Inr s"
| "decode_loop sim (e # rest) s = bind_res (open_layer sim (fst (snd (snd (snd e)))) s) (\<lambda>s.
     if nc_weight_cache (ns_config sim) \<and> mergeable e rest
     then bind_res (decode_pair sim e s) (decode_loop sim (tl rest))
     else bind_res (decode_single sim e s) (decode_loop sim rest))"
  by pat_completeness auto
termination by (relation "measure (\<lambda>(_, es, _). length es)") auto

definition mxu_entry :: "npu_sim \<Rightarrow> string \<Rightarrow> rat \<Rightarrow> int" where
  "mxu_entry sim k d = cfg_int (mxu_section (ns_config sim)) k d"

text \<open>The refresh, and what both decode interfaces report.\<close>

definition decode_report :: "npu_sim \<Rightarrow> int \<Rightarrow> sim_state \<Rightarrow> simulation_report result" where
  "decode_report sim prompt s =
     bind_res (charge (Kv ''dram_refresh'' (add_refresh_overhead (ns_dram sim) (total_cycles (ss_timeline s))) (-1)) s) (\<lambda>s.
     let t = ss_timeline s in
     bind_res (cycles_to_microseconds (int_to_float (total_cycles t)) (int_to_float (ns_f_mhz sim))) (\<lambda>us.
     Inr \<lparr>sr_model_name = ''Qwen2.5-3B'', sr_num_layers = 36, sr_array_height = mxu_entry sim ''array_height'' 128,
          sr_array_width = mxu_entry sim ''array_width'' 128, sr_weight_bits = mxu_entry sim ''weight_precision_bits'' 4,
          sr_freq_mhz = mxu_entry sim ''frequency_mhz'' 1000, sr_engine_type = engine_id (me_kind (ns_mxu sim)),
          sr_prefill_prompt_len = prompt, sr_prefill_total_ms = 0, sr_prefill_breakdown = [],
          sr_decode_per_token_us = us, sr_decode_tok_per_s = (if 0 < us then fdiv 1000000 us else 0),
          sr_decode_breakdown = map (\<lambda>(k, v). (k, fdiv_int v (ns_f_mhz sim))) (breakdown_events (ct_events t)),
          sr_layer_breakdowns = sort_key lb_layer (map snd (ss_layers s)), sr_events = ct_events t\<rparr>))"

definition simulate_decode :: "npu_sim \<Rightarrow> trace_entry list \<Rightarrow> simulation_report result" where
  "simulate_decode sim trace = bind_res (core_new 0 1000) (\<lambda>t.
     bind_res (decode_loop sim trace \<lparr>ss_timeline = t, ss_layers = []\<rparr>) (decode_report sim 128))"

section \<open>Programs\<close>

definition run_instruction :: "npu_sim \<Rightarrow> instruction \<Rightarrow> sim_state \<Rightarrow> sim_state result" where
  "run_instruction sim i s = (let opc = in_opcode i; get = dget (in_operands i) in
     if opc \<in> {NOP, BARRIER} then Inr s
     else if opc = MMUL then bind_res (me_estimate (ns_mxu sim) 1 2048 (get ''N'' 2048)) (\<lambda>r.
       bind_res (charge (Mxu (''MMUL N='' @ str_int (get ''N'' 2048)) (er_total_cycles r) 0) s) (\<lambda>s.
       Inr (in_layer 0 (\<lambda>b. b\<lparr>lb_mxu := lb_mxu b + er_total_cycles r\<rparr>) s)))
     else if opc = DMA_LD then bind_res (estimate_transfer (ns_dma sim) (get ''size'' 0) ''load'' SEQUENTIAL) (\<lambda>c.
       charge (Dma (''DMA_LD '' @ str_int (get ''size'' 0) @ ''B'') c 0) s)
     else if opc = DMA_ST then bind_res (estimate_transfer (ns_dma sim) (get ''size'' 0) ''store'' SEQUENTIAL) (\<lambda>c.
       charge (Dma (''DMA_ST '' @ str_int (get ''size'' 0) @ ''B'') c 0) s)
     else if opc \<in> {SOFTMAX, LAYERNORM, GELU, RELU, SILU, MAXPOOL, AVGPOOL, ROPE}
     then bind_res (sfu_estimate (ns_sfu sim) (mnemonic opc) (get ''len'' 2048)) (\<lambda>c. charge_sfu (mnemonic opc) c 0 s)
     else if opc \<in> {KV_LOAD, KV_STORE} then bind_res (estimate_per_decode (ns_kv sim) 128) (\<lambda>c.
       charge (Kv (if opc = KV_LOAD then ''kv_load'' else ''kv_store'') c 0) s)
     else Inr s)"

definition run_instructions :: "npu_sim \<Rightarrow> instruction list \<Rightarrow> simulation_report result" where
  "run_instructions sim program = bind_res (core_new 0 1000) (\<lambda>t.
     bind_res (fold_res (run_instruction sim) program \<lparr>ss_timeline = t, ss_layers = []\<rparr>) (decode_report sim 0))"

section \<open>Prefill\<close>

definition prefill_sfu :: "npu_sim \<Rightarrow> string \<Rightarrow> int \<Rightarrow> int \<Rightarrow> sim_state \<Rightarrow> sim_state result" where
  "prefill_sfu sim nm prompt layer s =
     (if nm = ''O_proj'' then bind_res (sfu_estimate (ns_sfu sim) ''softmax'' (2048 * prompt)) (\<lambda>a.
        bind_res (sfu_estimate (ns_sfu sim) ''layernorm'' (2048 * prompt)) (\<lambda>b.
        bind_res (sfu_estimate (ns_sfu sim) ''rope'' (2048 * 2 * prompt)) (\<lambda>c.
        charge_sfu ''attn_sfu'' (a + b + c) layer s)))
      else if nm = ''FFN_down'' then bind_res (sfu_estimate (ns_sfu sim) ''gelu'' (11008 * prompt)) (\<lambda>a.
        bind_res (sfu_estimate (ns_sfu sim) ''layernorm'' (2048 * prompt)) (\<lambda>b.
        charge_sfu ''ffn_sfu'' (a + b) layer s))
      else Inr s)"

definition prefill_step :: "npu_sim \<Rightarrow> int \<Rightarrow> trace_entry \<Rightarrow> sim_state \<Rightarrow> sim_state result" where
  "prefill_step sim prompt e s = (case e of (m, k, n, layer, nm) \<Rightarrow>
     let s = (if map_of (ss_layers s) layer \<noteq> None then s
       else s\<lparr>ss_layers := AList.update layer (new_layer layer) (ss_layers s)\<rparr>) in
     bind_res (me_estimate (ns_mxu sim) m k n) (\<lambda>r.
     bind_res (charge_gemm sim (nm @ '' ('' @ dims_text times_sign m k n @ '')'') (nm @ '' '' @ dims_text ''x'' m k n) r layer s) (\<lambda>s.
     bind_res (prefill_sfu sim nm prompt layer s) (\<lambda>s.
     bind_res (kv_step sim prompt layer s) (\<lambda>s.
     Inr (in_layer layer (\<lambda>b. b\<lparr>lb_total := lb_mxu b + lb_sfu b + lb_kv_cache b + lb_dma_effective b\<rparr>) s))))))"

definition simulate_prefill :: "npu_sim \<Rightarrow> int \<Rightarrow> simulation_report result" where
  "simulate_prefill sim prompt = bind_res (core_new 0 1000) (\<lambda>t.
     bind_res (fold_res (prefill_step sim prompt) (generate_qwen3b_trace prompt) \<lparr>ss_timeline = t, ss_layers = []\<rparr>) (\<lambda>s.
     bind_res (charge (Kv ''dram_refresh'' (add_refresh_overhead (ns_dram sim) (total_cycles (ss_timeline s))) (-1)) s) (\<lambda>s.
     let t = ss_timeline s; f = ns_f_mhz sim in
     if f = 0 then Inl ZeroDivisionError
     else Inr \<lparr>sr_model_name = ''Qwen2.5-3B'', sr_num_layers = 36, sr_array_height = 128, sr_array_width = 128,
          sr_weight_bits = 4, sr_freq_mhz = 1000, sr_engine_type = ''systolic'', sr_prefill_prompt_len = prompt,
          sr_prefill_total_ms = fdiv (fdiv_int (total_cycles t) f) 1000,
          sr_prefill_breakdown = map (\<lambda>(k, v). (k, fdiv (fdiv_int v f) 1000)) (breakdown_events (ct_events t)),
          sr_decode_per_token_us = 0, sr_decode_tok_per_s = 0, sr_decode_breakdown = [],
          sr_layer_breakdowns = sort_key lb_layer (map snd (ss_layers s)), sr_events = ct_events t\<rparr>)))"

end
