(* ===== verification/Spec2Isabelle.thy ===== *)
theory Spec2Isabelle
  imports Py_Prelude Py_Float Sched_Events Sched_Queues Sched_Policies Sched_Resources Sched_Admission
    Sched_Kernel Sched_Kernel_Inv Sched_Kernel_Client Sched_Metrics
    Py_Text Py_Bits Scen_Schema Scen_Compiler Scen_Runner Scen_Runner_Inv
    Isa_Codec Isa_Parser
    Golden_Mem Golden_Mxu Golden_Vector Golden_Dma Golden_Exec Golden_Chain
    Hw_Dma Hw_Timeline Hw_Multicore Hw_Compiler
    Work_Graph Work_Dims Mem_Hierarchy Mem_Residency Dse_Space Dse_Manifest Dse_Pareto
    Py_Bytes Hw_Crossbar Hw_Pcie Hw_Pcie_Dma
    Py_Number Hw_Config Hw_Latency Hw_Engine Hw_Engine_Kinds Hw_Engine_Props
    Work_Legacy Hw_Npu_Sim
begin

text \<open>
  A verification development for the NPU architecture model.
\<close>

end
